(* ===== verification/Prelude.thy ===== *)
theory Prelude
  imports Main "HOL-Library.Word"
begin

unbundle bit_operations_syntax

text \<open>
  Shared vocabulary of the EwokOS kernel development: the widths of the machine integers the
  kernel is written with, the alignment macros of \<^verbatim>\<open>kernel/kernel/include/mm/mmu.h\<close>, and the
  generic lemmas on lists, options and words that the component theories rely on.

  The 64-bit configuration is modelled throughout (\<open>ewokos_addr_t\<close> is \<open>uint64_t\<close>, as in
  \<^verbatim>\<open>kernel/platform/aarch64/arch/common/include/ewokos_config.h\<close>).
\<close>

type_synonym u8 = "8 word"
type_synonym u32 = "32 word"
type_synonym u64 = "64 word"

named_theorems kframe \<open>frame equations: what an operation leaves unchanged\<close>
named_theorems kinv_intros \<open>preservation of the component invariants\<close>

section \<open>Constants and macros of the memory layout\<close>

definition PAGE_SIZE :: nat where
  "PAGE_SIZE = 4096"

text \<open>\<open>ALIGN_DOWN\<close> and \<open>ALIGN_UP\<close> are bit operations on the address width, with the wrap-around
  of the addition in \<open>ALIGN_UP\<close>.\<close>

definition ALIGN_DOWN :: "u64 \<Rightarrow> u64 \<Rightarrow> u64" where
  "ALIGN_DOWN x a = x AND NOT (a - 1)"

definition ALIGN_UP :: "u64 \<Rightarrow> u64 \<Rightarrow> u64" where
  "ALIGN_UP x a = (x + a - 1) AND NOT (a - 1)"

definition KERNEL_BASE :: u64 where
  "KERNEL_BASE = 0x4000000000"

definition USER_STACK_TOP :: u64 where
  "USER_STACK_TOP = KERNEL_BASE - of_nat PAGE_SIZE"

definition STACK_PAGES :: nat where
  "STACK_PAGES = 32"

lemma unat_u64_less [simp]: "unat (x :: u64) < 2 ^ 64"
  using unsigned_less [where ?'a = nat and w = x] by simp

section \<open>Lists used as tables\<close>

lemma length_filter_update:
  assumes "i < length xs"
  shows "length (filter P (xs[i := y])) + (if P (xs ! i) then 1 else 0)
       = length (filter P xs) + (if P y then 1 else 0)"
  using assms
proof (induction xs arbitrary: i)
  case (Cons x xs)
  then show ?case by (cases i) auto
qed simp

lemma in_set_list_update_iff:
  "i < length xs \<Longrightarrow> z \<in> set (xs[i := y]) \<longleftrightarrow> z = y \<or> (\<exists>j < length xs. j \<noteq> i \<and> xs ! j = z)"
  by (auto simp: in_set_conv_nth nth_list_update)

lemma nth_update_if:
  "i < length xs \<Longrightarrow> xs[i := y] ! j = (if j = i then y else xs ! j)"
  by (auto simp: nth_list_update)

text \<open>The first index of a list that satisfies a predicate: the shape of every table scan in the
  kernel (\<open>for(i = 0; i < MAX; i++) if(...) return i;\<close>).\<close>

fun find_index :: "('a \<Rightarrow> bool) \<Rightarrow> 'a list \<Rightarrow> nat option" where
  "find_index P [] = None"
| "find_index P (x # xs) = (if P x then Some 0 else map_option Suc (find_index P xs))"

lemma find_index_None_iff: "find_index P xs = None \<longleftrightarrow> (\<forall>x \<in> set xs. \<not> P x)"
  by (induction xs) auto

lemma find_index_SomeD:
  "find_index P xs = Some i \<Longrightarrow> i < length xs \<and> P (xs ! i) \<and> (\<forall>j < i. \<not> P (xs ! j))"
proof (induction xs arbitrary: i)
  case (Cons x xs)
  then show ?case by (auto split: if_splits simp: less_Suc_eq_0_disj)
qed simp

lemma find_index_Some_iff:
  "find_index P xs = Some i \<longleftrightarrow> i < length xs \<and> P (xs ! i) \<and> (\<forall>j < i. \<not> P (xs ! j))"
proof
  assume r: "i < length xs \<and> P (xs ! i) \<and> (\<forall>j < i. \<not> P (xs ! j))"
  then have "find_index P xs \<noteq> None" by (auto simp: find_index_None_iff)
  then obtain j where j: "find_index P xs = Some j" by auto
  from find_index_SomeD [OF j] r have "j = i" by (metis nat_neq_iff)
  with j show "find_index P xs = Some i" by simp
qed (rule find_index_SomeD)

lemma find_index_map: "find_index P (map f xs) = find_index (P \<circ> f) xs"
  by (induction xs) auto

lemma find_index_less: "find_index P xs = Some i \<Longrightarrow> i < length xs"
  by (simp add: find_index_Some_iff)

lemma distinct_removeAll_iff [simp]: "distinct xs \<Longrightarrow> distinct (removeAll x xs)"
  by (simp add: distinct_removeAll)

end
