(* ===== verification/Kqueue.thy ===== *)
theory Kqueue
  imports Prelude "HOL-Library.Monad_Syntax"
begin

text \<open>
  The kernel's generic queue (\<^verbatim>\<open>kernel/lib/src/queue.c\<close>): a doubly linked list of kmalloc'd items
  with head, tail and a counter. The model keeps the pointers: items live in a heap indexed by
  their address, \<open>0\<close> is \<open>NULL\<close>, and every dereference of an address that holds no item is the
  value \<open>None\<close> of the result (the C code would fault there). The address that \<open>kmalloc\<close> returned
  for a new item is an argument of the pushing operations.

  The refinement \<open>queue_repr\<close> relates a heap and a \<open>queue_t\<close> to the list of the data pointers. It
  justifies the list-level queues of the scheduler theories.
\<close>

section \<open>Data\<close>

record queue_item =
  qi_next :: nat
  qi_prev :: nat
  qi_data :: nat

record queue_t =
  q_head :: nat
  q_tail :: nat
  q_num :: u32

type_synonym qheap = "nat \<Rightarrow> queue_item option"

definition set_next :: "qheap \<Rightarrow> nat \<Rightarrow> nat \<Rightarrow> qheap option" where
  "set_next h a v = (case h a of None \<Rightarrow> None | Some i \<Rightarrow> Some (h(a \<mapsto> i\<lparr>qi_next := v\<rparr>)))"

definition set_prev :: "qheap \<Rightarrow> nat \<Rightarrow> nat \<Rightarrow> qheap option" where
  "set_prev h a v = (case h a of None \<Rightarrow> None | Some i \<Rightarrow> Some (h(a \<mapsto> i\<lparr>qi_prev := v\<rparr>)))"

section \<open>Operations\<close>

definition queue_init :: queue_t where
  "queue_init = \<lparr>q_head = 0, q_tail = 0, q_num = 0\<rparr>"

definition queue_push :: "nat \<Rightarrow> qheap \<times> queue_t \<Rightarrow> nat \<Rightarrow> (qheap \<times> queue_t) option" where
  "queue_push it hq data = (case hq of (h, q) \<Rightarrow>
     let h = h(it \<mapsto> \<lparr>qi_next = 0, qi_prev = 0, qi_data = data\<rparr>) in
     if q_tail q = 0
     then Some (h, q\<lparr>q_head := it, q_tail := it, q_num := q_num q + 1\<rparr>)
     else do {
       h \<leftarrow> set_next h (q_tail q) it;
       h \<leftarrow> set_prev h it (q_tail q);
       Some (h, q\<lparr>q_tail := it, q_num := q_num q + 1\<rparr>)
     })"

definition queue_push_head :: "nat \<Rightarrow> qheap \<times> queue_t \<Rightarrow> nat \<Rightarrow> (qheap \<times> queue_t) option" where
  "queue_push_head it hq data = (case hq of (h, q) \<Rightarrow>
     let h = h(it \<mapsto> \<lparr>qi_next = 0, qi_prev = 0, qi_data = data\<rparr>) in
     if q_head q = 0
     then Some (h, q\<lparr>q_head := it, q_tail := it, q_num := q_num q + 1\<rparr>)
     else do {
       h \<leftarrow> set_prev h (q_head q) it;
       h \<leftarrow> set_next h it (q_head q);
       Some (h, q\<lparr>q_head := it, q_num := q_num q + 1\<rparr>)
     })"

definition queue_pop :: "qheap \<times> queue_t \<Rightarrow> (nat \<times> qheap \<times> queue_t) option" where
  "queue_pop hq = (case hq of (h, q) \<Rightarrow>
     if q_head q = 0 then Some (0, h, q)
     else do {
       let it = q_head q;
       i \<leftarrow> h it;
       let q = q\<lparr>q_head := qi_next i\<rparr>;
       (h, q) \<leftarrow> (if q_head q \<noteq> 0
                 then do { h \<leftarrow> set_prev h (q_head q) 0; Some (h, q) }
                 else Some (h, q\<lparr>q_tail := 0\<rparr>));
       i \<leftarrow> h it;
       let h = h(it := None);
       Some (qi_data i, h, if q_num q > 0 then q\<lparr>q_num := q_num q - 1\<rparr> else q)
     })"

partial_function (option) queue_in_from :: "qheap \<Rightarrow> nat \<Rightarrow> nat \<Rightarrow> nat option" where
  "queue_in_from h it data =
     (if it = 0 then Some 0
      else do { i \<leftarrow> h it; if qi_data i = data then Some it else queue_in_from h (qi_next i) data })"

definition queue_in :: "qheap \<times> queue_t \<Rightarrow> nat \<Rightarrow> nat option" where
  "queue_in hq data = queue_in_from (fst hq) (q_head (snd hq)) data"

definition queue_remove :: "qheap \<times> queue_t \<Rightarrow> nat \<Rightarrow> (qheap \<times> queue_t) option" where
  "queue_remove hq it = (case hq of (h, q) \<Rightarrow>
     if it = 0 then Some (h, q)
     else do {
       i \<leftarrow> h it;
       h \<leftarrow> (if qi_next i \<noteq> 0 then set_prev h (qi_next i) (qi_prev i) else Some h);
       i \<leftarrow> h it;
       h \<leftarrow> (if qi_prev i \<noteq> 0 then set_next h (qi_prev i) (qi_next i) else Some h);
       i \<leftarrow> h it;
       let q = (if it = q_head q then q\<lparr>q_head := qi_next i\<rparr> else q);
       let q = (if it = q_tail q then q\<lparr>q_tail := qi_prev i\<rparr> else q);
       let h = h(it := None);
       Some (h, if q_num q > 0 then q\<lparr>q_num := q_num q - 1\<rparr> else q)
     })"

text \<open>\<open>queue_clear\<close> hands every non-\<open>NULL\<close> datum to the caller's free function, in queue order; the
  model returns those data as a list.\<close>

partial_function (option) queue_clear_from ::
  "bool \<Rightarrow> qheap \<Rightarrow> nat \<Rightarrow> nat list \<Rightarrow> (qheap \<times> nat list) option" where
  "queue_clear_from fr h it freed =
     (if it = 0 then Some (h, freed)
      else do {
        i \<leftarrow> h it;
        let freed = (if fr \<and> qi_data i \<noteq> 0 then freed @ [qi_data i] else freed);
        queue_clear_from fr (h(it := None)) (qi_next i) freed
      })"

definition queue_clear :: "bool \<Rightarrow> qheap \<times> queue_t \<Rightarrow> (qheap \<times> queue_t \<times> nat list) option" where
  "queue_clear fr hq = (case hq of (h, q) \<Rightarrow> do {
     (h, freed) \<leftarrow> queue_clear_from fr h (q_head q) [];
     Some (h, q\<lparr>q_head := 0, q_tail := 0, q_num := 0\<rparr>, freed)
   })"

definition queue_num :: "queue_t \<Rightarrow> u32" where
  "queue_num q = (if q_head q = 0 then 0 else q_num q)"

definition queue_is_empty :: "queue_t \<Rightarrow> bool" where
  "queue_is_empty q \<longleftrightarrow> q_head q = 0 \<or> q_num q = 0"

section \<open>The heap shape and the abstraction to lists\<close>

text \<open>\<open>dll h p as n\<close>: the items at the addresses \<open>as\<close> form a doubly linked segment whose first
  \<open>prev\<close> is \<open>p\<close> and whose last \<open>next\<close> is \<open>n\<close>.\<close>

fun dll :: "qheap \<Rightarrow> nat \<Rightarrow> nat list \<Rightarrow> nat \<Rightarrow> bool" where
  "dll h p [] n \<longleftrightarrow> True"
| "dll h p (a # as) n \<longleftrightarrow> a \<noteq> 0 \<and>
     (\<exists>d. h a = Some \<lparr>qi_next = hd (as @ [n]), qi_prev = p, qi_data = d\<rparr>) \<and> dll h a as n"

definition item_data :: "qheap \<Rightarrow> nat \<Rightarrow> nat" where
  "item_data h a = (case h a of None \<Rightarrow> 0 | Some i \<Rightarrow> qi_data i)"

definition queue_repr :: "qheap \<times> queue_t \<Rightarrow> nat list \<Rightarrow> nat list \<Rightarrow> bool" where
  "queue_repr hq as xs \<longleftrightarrow> (case hq of (h, q) \<Rightarrow>
     dll h 0 as 0 \<and> distinct as \<and> xs = map (item_data h) as \<and>
     q_head q = hd (as @ [0]) \<and> q_tail q = last (0 # as) \<and> q_num q = of_nat (length as) \<and>
     length as < 2 ^ 32)"

lemma dll_upd_notin [simp]: "a \<notin> set as \<Longrightarrow> dll (h(a := v)) p as n = dll h p as n"
  by (induction as arbitrary: p) auto

lemma dll_append:
  "dll h p (as @ bs) n \<longleftrightarrow> dll h p as (hd (bs @ [n])) \<and> dll h (last (p # as)) bs n"
  by (induction as arbitrary: p) (auto simp: hd_append)

lemma dll_nonzero: "dll h p as n \<Longrightarrow> 0 \<notin> set as"
  by (induction as arbitrary: p) auto

lemma dll_dom: "dll h p as n \<Longrightarrow> set as \<subseteq> dom h"
  by (induction as arbitrary: p) auto

lemma map_item_data_upd [simp]:
  "a \<notin> set as \<Longrightarrow> map (item_data (h(a := v))) as = map (item_data h) as"
  by (auto simp: item_data_def)

text \<open>Rewriting the last item's \<open>next\<close>, or the first item's \<open>prev\<close>, re-targets a segment.\<close>

lemma dll_snoc_retarget:
  "dll h p (as @ [a]) n \<longleftrightarrow>
     dll h p as a \<and> a \<noteq> 0 \<and> (\<exists>d. h a = Some \<lparr>qi_next = n, qi_prev = last (p # as), qi_data = d\<rparr>)"
  by (auto simp: dll_append)

lemma queue_repr_init: "queue_repr (h, queue_init) [] []"
  by (simp add: queue_repr_def queue_init_def)

section \<open>Each operation refines its list operation\<close>

lemma of_nat_u32_pos: "0 < n \<Longrightarrow> n < 2 ^ 32 \<Longrightarrow> (0 :: u32) < of_nat n"
  by (simp add: word_less_nat_alt unat_of_nat take_bit_nat_eq_self)


lemma queue_push_refines:
  assumes r: "queue_repr (h, q) as xs" and it: "it \<noteq> 0" "h it = None" and len: "length as + 1 < 2 ^ 32"
  shows "\<exists>h' q'. queue_push it (h, q) d = Some (h', q') \<and> queue_repr (h', q') (as @ [it]) (xs @ [d])"
proof (cases as rule: rev_cases)
  case Nil
  with assms show ?thesis
    by (auto simp: queue_repr_def queue_push_def Let_def item_data_def)
next
  case (snoc bs b)
  from r have dll: "dll h 0 as 0" and dist: "distinct as" by (auto simp: queue_repr_def)
  from dll_dom [OF dll] it have notin: "it \<notin> set as" by auto
  from dll snoc obtain db where b: "h b = Some \<lparr>qi_next = 0, qi_prev = last (0 # bs), qi_data = db\<rparr>"
    "dll h 0 bs b" "b \<noteq> 0" by (auto simp: dll_snoc_retarget)
  from notin dist snoc have ne: "it \<noteq> b" "b \<notin> set bs" "it \<notin> set bs" by auto
  show ?thesis
    using r it ne b snoc len dist notin
    by (auto simp: queue_repr_def queue_push_def Let_def set_next_def set_prev_def dll_append item_data_def)
qed

lemma queue_push_head_refines:
  assumes r: "queue_repr (h, q) as xs" and it: "it \<noteq> 0" "h it = None" and len: "length as + 1 < 2 ^ 32"
  shows "\<exists>h' q'. queue_push_head it (h, q) d = Some (h', q') \<and> queue_repr (h', q') (it # as) (d # xs)"
proof (cases as)
  case Nil
  with assms show ?thesis
    by (auto simp: queue_repr_def queue_push_head_def Let_def item_data_def)
next
  case (Cons b bs)
  from r have dll: "dll h 0 as 0" and dist: "distinct as" by (auto simp: queue_repr_def)
  from dll_dom [OF dll] it have notin: "it \<notin> set as" by auto
  with dist Cons have ne: "it \<noteq> b" "b \<notin> set bs" "it \<notin> set bs" by auto
  show ?thesis
    using r it ne Cons len dist notin
    by (auto simp: queue_repr_def queue_push_head_def Let_def set_next_def set_prev_def item_data_def)
qed

lemma queue_pop_refines:
  assumes r: "queue_repr (h, q) (a # as) (x # xs)"
  shows "\<exists>h' q'. queue_pop (h, q) = Some (x, h', q') \<and> queue_repr (h', q') as xs \<and> h' a = None"
proof (cases as)
  case Nil
  with r show ?thesis
    by (auto simp: queue_repr_def queue_pop_def Let_def item_data_def)
next
  case (Cons b bs)
  have pos: "(of_nat (length (a # as)) :: u32) > 0"
    by (rule of_nat_u32_pos) (use r in \<open>auto simp: queue_repr_def\<close>)
  show ?thesis
    using r Cons pos
    by (auto simp: queue_repr_def queue_pop_def Let_def set_next_def set_prev_def item_data_def)
qed

lemma queue_pop_empty: "queue_repr (h, q) [] xs \<Longrightarrow> queue_pop (h, q) = Some (0, h, q)"
  by (auto simp: queue_repr_def queue_pop_def)

lemma queue_in_from_dll:
  assumes "dll h p as 0"
  shows "queue_in_from h (hd (as @ [0])) d =
    Some (case find_index (\<lambda>a. item_data h a = d) as of None \<Rightarrow> 0 | Some i \<Rightarrow> as ! i)"
  using assms
proof (induction as arbitrary: p)
  case Nil
  then show ?case by (simp add: queue_in_from.simps)
next
  case (Cons a as)
  then show ?case
    by (subst queue_in_from.simps) (auto simp: item_data_def split: option.splits)
qed

lemma queue_remove_refines:
  assumes r: "queue_repr (h, q) (as @ it # bs) xs"
  shows "\<exists>h' q'. queue_remove (h, q) it = Some (h', q') \<and>
    queue_repr (h', q') (as @ bs) (take (length as) xs @ drop (Suc (length as)) xs) \<and> h' it = None"
proof -
  have pos: "(of_nat (length (as @ it # bs)) :: u32) > 0"
    by (rule of_nat_u32_pos) (use r in \<open>auto simp: queue_repr_def\<close>)
  show ?thesis
  proof (cases as rule: rev_cases)
    case Nil
    note as = this
    show ?thesis
    proof (cases bs)
      case Nil
      with as r pos show ?thesis
        by (auto simp: queue_repr_def queue_remove_def Let_def)
    next
      case (Cons b cs)
      with as r pos show ?thesis
        by (auto simp: queue_repr_def queue_remove_def Let_def set_next_def set_prev_def item_data_def)
    qed
  next
    case (snoc ds c)
    note as = this
    show ?thesis
    proof (cases bs)
      case Nil
      with as r pos show ?thesis
        by (auto simp: queue_repr_def queue_remove_def Let_def set_next_def set_prev_def item_data_def dll_append hd_append)
    next
      case (Cons b cs)
      with as r pos show ?thesis
        by (auto simp: queue_repr_def queue_remove_def Let_def set_next_def set_prev_def item_data_def dll_append hd_append)
    qed
  qed
qed

lemma queue_clear_from_dll:
  assumes "dll h p as 0" "distinct as"
  shows "queue_clear_from fr h (hd (as @ [0])) acc =
    Some (\<lambda>a. if a \<in> set as then None else h a,
      acc @ (if fr then filter (\<lambda>d. d \<noteq> 0) (map (item_data h) as) else []))"
  using assms
proof (induction as arbitrary: p h acc)
  case Nil
  then show ?case by (simp add: queue_clear_from.simps)
next
  case (Cons a as)
  then obtain d where a: "h a = Some \<lparr>qi_next = hd (as @ [0]), qi_prev = p, qi_data = d\<rparr>" "a \<noteq> 0"
    by auto
  have dll': "dll (h(a := None)) a as 0" and d': "distinct as" using Cons.prems by auto
  have heq: "(\<lambda>b. if b \<in> set as then None else (h(a := None)) b) = (\<lambda>b. if b \<in> set (a # as) then None else h b)"
    by auto
  have deq: "map (item_data (h(a := None))) as = map (item_data h) as"
    using Cons.prems by simp
  have IH: "queue_clear_from fr (h(a := None)) (hd (as @ [0])) acc' =
    Some (\<lambda>b. if b \<in> set (a # as) then None else h b,
      acc' @ (if fr then filter (\<lambda>d. d \<noteq> 0) (map (item_data h) as) else []))" for acc'
    by (subst Cons.IH [OF dll' d']) (simp only: heq deq)
  show ?case
    using a by (subst queue_clear_from.simps) (simp add: Let_def IH item_data_def)
qed

lemma queue_clear_refines:
  assumes "queue_repr (h, q) as xs"
  shows "\<exists>h' q'. queue_clear fr (h, q) = Some (h', q', if fr then filter (\<lambda>d. d \<noteq> 0) xs else []) \<and>
    queue_repr (h', q') [] [] \<and> (\<forall>a \<in> set as. h' a = None)"
  using assms queue_clear_from_dll [of h 0 as fr "[]"]
  by (auto simp: queue_clear_def queue_repr_def)

section \<open>The contract the clients use\<close>

text \<open>Clients see a queue as the list of its data. \<open>drain\<close> pops \<open>n\<close> times.\<close>

primrec drain :: "('s \<Rightarrow> ('d \<times> 's) option) \<Rightarrow> nat \<Rightarrow> 's \<Rightarrow> ('d list \<times> 's) option" where
  "drain pop 0 s = Some ([], s)"
| "drain pop (Suc n) s = do { (x, s) \<leftarrow> pop s; (xs, s) \<leftarrow> drain pop n s; Some (x # xs, s) }"

primrec push_all :: "(nat \<Rightarrow> 's \<Rightarrow> 'd \<Rightarrow> 's option) \<Rightarrow> (nat \<times> 'd) list \<Rightarrow> 's \<Rightarrow> 's option" where
  "push_all push [] s = Some s"
| "push_all push (ad # ads) s = do { s \<leftarrow> push (fst ad) s (snd ad); push_all push ads s }"

locale fifo_queue =
  fixes repr :: "'s \<Rightarrow> nat set \<Rightarrow> 'd list \<Rightarrow> bool"
    and push :: "nat \<Rightarrow> 's \<Rightarrow> 'd \<Rightarrow> 's option"
    and pop :: "'s \<Rightarrow> ('d \<times> 's) option"
  assumes push_repr:
    "repr s U xs \<Longrightarrow> a \<noteq> 0 \<Longrightarrow> a \<notin> U \<Longrightarrow> length xs + 1 < 2 ^ 32 \<Longrightarrow>
       \<exists>s'. push a s d = Some s' \<and> repr s' (insert a U) (xs @ [d])"
    and pop_repr: "repr s U (x # xs) \<Longrightarrow> \<exists>s' U'. pop s = Some (x, s') \<and> repr s' U' xs"
begin

lemma push_all_repr:
  assumes "repr s U xs" "distinct (map fst ads)" "0 \<notin> fst ` set ads" "fst ` set ads \<inter> U = {}"
    "length xs + length ads < 2 ^ 32"
  shows "\<exists>s' U'. push_all push ads s = Some s' \<and> repr s' U' (xs @ map snd ads)"
  using assms
proof (induction ads arbitrary: s U xs)
  case (Cons ad ads)
  obtain s1 where s1: "push (fst ad) s (snd ad) = Some s1" "repr s1 (insert (fst ad) U) (xs @ [snd ad])"
    using push_repr [OF Cons.prems(1), of "fst ad" "snd ad"] Cons.prems by auto
  have "\<exists>s' U'. push_all push ads s1 = Some s' \<and> repr s' U' ((xs @ [snd ad]) @ map snd ads)"
    by (rule Cons.IH [OF s1(2)]) (use Cons.prems in auto)
  with s1 show ?case by auto
qed auto

lemma drain_repr:
  "repr s U xs \<Longrightarrow> \<exists>s' U'. drain pop (length xs) s = Some (xs, s') \<and> repr s' U' []"
proof (induction xs arbitrary: s U)
  case (Cons x xs)
  from pop_repr [OF Cons.prems] obtain s1 U1 where "pop s = Some (x, s1)" "repr s1 U1 xs"
    by blast
  with Cons.IH [of s1 U1] show ?case by fastforce
qed auto

text \<open>First in, first out: draining what was pushed returns it in the order of the pushes.\<close>

lemma fifo:
  assumes "repr s U []" "distinct (map fst ads)" "0 \<notin> fst ` set ads" "fst ` set ads \<inter> U = {}"
    "length ads < 2 ^ 32"
  shows "\<exists>s1 s2. push_all push ads s = Some s1 \<and> drain pop (length ads) s1 = Some (map snd ads, s2)"
proof -
  from push_all_repr [OF assms(1-4)] assms(5) obtain s1 U1
    where 1: "push_all push ads s = Some s1" "repr s1 U1 (map snd ads)" by auto
  from drain_repr [OF this(2)] 1 show ?thesis by auto
qed

end

definition queue_state :: "qheap \<times> queue_t \<Rightarrow> nat set \<Rightarrow> nat list \<Rightarrow> bool" where
  "queue_state hq U xs \<longleftrightarrow> dom (fst hq) \<subseteq> U \<and> (\<exists>as. queue_repr hq as xs)"

lemma queue_state_mono_dom:
  "queue_push it (h, q) d = Some (h', q') \<Longrightarrow> dom h' \<subseteq> insert it (dom h)"
  by (auto simp: queue_push_def Let_def set_next_def set_prev_def split: if_splits option.splits)

interpretation kq: fifo_queue queue_state queue_push queue_pop
proof
  fix s :: "qheap \<times> queue_t" and U xs a d
  assume s: "queue_state s U xs" and a: "a \<noteq> 0" "a \<notin> U" and len: "length xs + 1 < 2 ^ 32"
  obtain h q where hq: "s = (h, q)" by fastforce
  from s hq obtain as where r: "queue_repr (h, q) as xs" and dom: "dom h \<subseteq> U"
    by (auto simp: queue_state_def)
  have "length as = length xs" using r by (simp add: queue_repr_def)
  with queue_push_refines [OF r a(1), of d] a dom len obtain h' q'
    where 1: "queue_push a (h, q) d = Some (h', q')" "queue_repr (h', q') (as @ [a]) (xs @ [d])"
    by fastforce
  from queue_state_mono_dom [OF 1(1)] dom 1 hq
  show "\<exists>s'. queue_push a s d = Some s' \<and> queue_state s' (insert a U) (xs @ [d])"
    by (auto simp: queue_state_def)
next
  fix s :: "qheap \<times> queue_t" and U x xs
  assume s: "queue_state s U (x # xs)"
  obtain h q where hq: "s = (h, q)" by fastforce
  from s hq obtain as where r: "queue_repr (h, q) as (x # xs)" by (auto simp: queue_state_def)
  then obtain a as' where "as = a # as'" by (cases as) (auto simp: queue_repr_def)
  with r queue_pop_refines obtain h' q' where "queue_pop (h, q) = Some (x, h', q')" "queue_repr (h', q') as' xs"
    by blast
  with hq show "\<exists>s' U'. queue_pop s = Some (x, s') \<and> queue_state s' U' xs"
    by (auto simp: queue_state_def intro!: exI [of _ "dom h'"])
qed

section \<open>Removing every occurrence\<close>

text \<open>The loop of \<open>proc_queue_remove_all\<close> (\<^verbatim>\<open>kernel/kernel/src/proc.c\<close>) on one queue.\<close>

partial_function (option) queue_remove_all :: "qheap \<times> queue_t \<Rightarrow> nat \<Rightarrow> (qheap \<times> queue_t) option" where
  "queue_remove_all hq data = do {
     it \<leftarrow> queue_in hq data;
     if it = 0 then Some hq
     else do { hq \<leftarrow> queue_remove hq it; queue_remove_all hq data }
   }"

lemma queue_in_refines:
  assumes "queue_repr (h, q) as xs"
  shows "queue_in (h, q) d = Some (case find_index (\<lambda>x. x = d) xs of None \<Rightarrow> 0 | Some i \<Rightarrow> as ! i)"
proof -
  from assms have "dll h 0 as 0" and xs: "xs = map (item_data h) as" and "q_head q = hd (as @ [0])"
    by (auto simp: queue_repr_def)
  with queue_in_from_dll [of h 0 as d] show ?thesis
    by (simp add: queue_in_def find_index_map comp_def)
qed

lemma queue_remove_all_refines:
  assumes "queue_repr (h, q) as xs"
  shows "\<exists>h' q' as'. queue_remove_all (h, q) d = Some (h', q') \<and>
    queue_repr (h', q') as' (removeAll d xs)"
  using assms
proof (induction "length xs" arbitrary: h q as xs rule: less_induct)
  case less
  note r = less.prems
  show ?case
  proof (cases "find_index (\<lambda>x. x = d) xs")
    case None
    then have "removeAll d xs = xs" by (auto simp: find_index_None_iff)
    with None r show ?thesis
      by (subst queue_remove_all.simps) (auto simp: queue_in_refines [OF r])
  next
    case (Some i)
    then have i: "i < length xs" "xs ! i = d" "\<forall>j < i. xs ! j \<noteq> d"
      by (auto simp: find_index_Some_iff)
    have len: "length as = length xs" using r by (simp add: queue_repr_def)
    then have split: "as = take i as @ as ! i # drop (Suc i) as"
      using i(1) by (simp add: id_take_nth_drop)
    have nz: "as ! i \<noteq> 0"
      using r len i(1) dll_nonzero [of h 0 as 0] by (force simp: queue_repr_def in_set_conv_nth)
    have xs: "xs = take i xs @ d # drop (Suc i) xs"
      using i by (metis id_take_nth_drop)
    obtain h1 q1 where 1: "queue_remove (h, q) (as ! i) = Some (h1, q1)"
      "queue_repr (h1, q1) (take i as @ drop (Suc i) as) (take i xs @ drop (Suc i) xs)"
      using queue_remove_refines [of h q "take i as" "as ! i" "drop (Suc i) as" xs] r split i(1) len
      by auto
    have rem: "removeAll d xs = removeAll d (take i xs @ drop (Suc i) xs)"
      by (subst xs) simp
    have "length (take i xs @ drop (Suc i) xs) < length xs" using i(1) by simp
    from less.hyps [OF this 1(2)] obtain h2 q2 as2 where
      2: "queue_remove_all (h1, q1) d = Some (h2, q2)" "queue_repr (h2, q2) as2 (removeAll d xs)"
      unfolding rem by blast
    with 1 Some nz show ?thesis
      by (subst queue_remove_all.simps) (auto simp: queue_in_refines [OF r])
  qed
qed

section \<open>Properties\<close>

text \<open>C23: on an initialised queue, pushing any sequence of data at fresh item addresses never faults,
  and popping as many times returns exactly those data in the order they were pushed.\<close>

theorem kqueue_fifo:
  assumes "distinct (map fst ads)" "0 \<notin> fst ` set ads" "length ads < 2 ^ 32"
  shows "\<exists>s1 s2. push_all queue_push ads (Map.empty, queue_init) = Some s1 \<and>
    drain queue_pop (length ads) s1 = Some (map snd ads, s2)"
proof (rule kq.fifo)
  show "queue_state (Map.empty, queue_init) {} []"
    by (auto simp: queue_state_def intro: queue_repr_init)
qed (use assms in auto)

theorem kqueue_fifo_witness:
  "\<exists>s1 s2. push_all queue_push [(64, 7), (128, 9)] (Map.empty, queue_init) = Some s1 \<and>
    drain queue_pop (Suc (Suc 0)) s1 = Some ([7, 9], s2)"
  using kqueue_fifo [of "[(64, 7), (128, 9)]"] by simp

text \<open>The remove-all loop over a well-formed queue terminates without a bad dereference, frees
  the items it unlinks, and leaves a well-formed queue holding the other data in order.\<close>

theorem kqueue_remove_all:
  assumes "queue_repr (h, q) as xs"
  shows "\<exists>h' q' as'. queue_remove_all (h, q) d = Some (h', q') \<and>
    queue_repr (h', q') as' (removeAll d xs)"
  using assms by (rule queue_remove_all_refines)

theorem kqueue_remove_all_witness:
  "\<exists>h' q' as'. queue_remove_all ([64 \<mapsto> \<lparr>qi_next = 0, qi_prev = 0, qi_data = 7\<rparr>],
      \<lparr>q_head = 64, q_tail = 64, q_num = 1\<rparr>) 7 = Some (h', q') \<and>
    queue_repr (h', q') as' []"
  using kqueue_remove_all [of "[64 \<mapsto> \<lparr>qi_next = 0, qi_prev = 0, qi_data = 7\<rparr>]"
      "\<lparr>q_head = 64, q_tail = 64, q_num = 1\<rparr>" "[64]" "[7]" 7]
  by (simp add: queue_repr_def item_data_def)

end
