(* ===== verification/Proc.thy ===== *)
theory Proc
  imports Prelude
begin

text \<open>
  The process model of \<^verbatim>\<open>kernel/kernel/include/kernel/proc.h\<close>: task states, register contexts,
  address-space objects with their embedded ipc server, signal and interrupt records, the
  \<open>proc_t\<close> object, and the scheduler's global variables of \<^verbatim>\<open>kernel/kernel/src/proc.c\<close>, together
  with the lookups every other component goes through (\<open>proc_get\<close>, \<open>get_current_proc\<close>,
  \<open>proc_get_proc\<close>, \<open>user_ptr_ok\<close>).

  A \<open>proc_t*\<close> is the index of its slot in \<open>_task_table\<close> (a pid), \<open>NULL\<close> is \<open>None\<close>; a
  \<open>proc_space_t*\<close> is a key of \<open>spaces\<close>. Queues of procs are lists of pids (the refinement to the
  linked structure is theory Kqueue). The core that executes the kernel is \<open>core_id\<close>.
\<close>

section \<open>Enumerations\<close>

datatype pstate = UNUSED | CREATED | SLEEPING | WAIT | BLOCK | READY | RUNNING | ZOMBIE

datatype task_type = TASK_TYPE_PROC | TASK_TYPE_THREAD | TASK_TYPE_VFORK

datatype ipc_st = IPC_IDLE | IPC_BUSY | IPC_RETURN | IPC_DISABLED

datatype intr_st = INTR_STATE_IDLE | INTR_STATE_START | INTR_STATE_WORKING

section \<open>Capabilities\<close>

text \<open>The union \<open>obj\<close> of a capability holds the descriptor its type selects; a zeroed capability has
  \<open>ObjNone\<close>.\<close>

datatype cap_obj =
    ObjNone
  | ObjFrame u64 u64
  | ObjProc int u32
  | ObjIrq u32
  | ObjDma int

record cap_t =
  c_type :: u32
  c_rights :: u32
  c_obj :: cap_obj

type_synonym cnode = "cap_t list"

section \<open>Contexts and saved states\<close>

record context_t =
  ctx_pc :: u64
  ctx_spsr_el1 :: u64
  ctx_sp :: u64
  ctx_lr :: u64
  ctx_fpcr :: u64
  ctx_fpsr :: u64
  ctx_gpr :: "nat \<Rightarrow> u64"
  ctx_fpu :: "nat \<Rightarrow> u64"

definition zero_ctx :: context_t where
  "zero_ctx = \<lparr>ctx_pc = 0, ctx_spsr_el1 = 0, ctx_sp = 0, ctx_lr = 0, ctx_fpcr = 0, ctx_fpsr = 0,
     ctx_gpr = (\<lambda>_. 0), ctx_fpu = (\<lambda>_. 0)\<rparr>"

definition set_gpr :: "nat \<Rightarrow> u64 \<Rightarrow> context_t \<Rightarrow> context_t" where
  "set_gpr n v c = c\<lparr>ctx_gpr := (ctx_gpr c)(n := v)\<rparr>"

record saved_state =
  ss_state :: pstate
  ss_sleep_counter :: u32
  ss_ctx :: context_t

definition zero_saved_state :: saved_state where
  "zero_saved_state = \<lparr>ss_state = UNUSED, ss_sleep_counter = 0, ss_ctx = zero_ctx\<rparr>"

record ipc_res =
  ir_uid :: u32
  ir_state :: ipc_st
  ir_data :: "u8 list"

record ipc_task =
  it_uid :: u32
  it_counter :: u32
  it_state :: ipc_st
  it_arg_ret :: "u8 list"
  it_client_pid :: int
  it_client_uuid :: u32
  it_client_intr :: bool
  it_call_id :: int
  it_handler_pid :: int
  it_handler_uuid :: u32

text \<open>A waiter on a server's wait queue. The item is embedded in the waiting \<open>proc_t\<close>
  (\<open>ipc_wait_item\<close>), so it is identified by its owner.\<close>

record ipc_queue_item =
  iq_owner :: nat
  iq_pid :: int
  iq_uuid :: u32

record ipc_pool_worker =
  pw_pid :: int
  pw_uuid :: u32
  pw_idle_sec :: u32
  pw_quit :: bool

record ipc_server =
  is_disabled :: bool
  is_multi_task :: bool
  is_entry :: u64
  is_flags :: u32
  is_extra_data :: u64
  is_tasks :: "ipc_task list"
  is_task_head :: nat
  is_task_tail :: nat
  is_task_num :: nat
  is_pool :: "ipc_pool_worker list"
  is_do_switch :: bool
  is_restore_pending :: bool
  is_stack :: u64
  is_saved_ipc_res :: ipc_res
  is_saved_state :: saved_state
  is_wait_queue :: "ipc_queue_item list"

record signal_t =
  sg_entry :: u64
  sg_sig_no :: u32
  sg_do_switch :: bool
  sg_stack :: u64
  sg_saved_ipc_res :: ipc_res
  sg_saved_state :: saved_state

record proc_interrupt =
  pi_entry :: u64
  pi_interrupt :: u32
  pi_data :: u64
  pi_state :: intr_st
  pi_stack :: u64
  pi_counter :: u32
  pi_pending :: bool
  pi_restore_pending :: bool
  pi_wait_queue :: "(int \<times> u32) list"
  pi_saved_ipc_res :: ipc_res
  pi_ipc_res :: ipc_res
  pi_saved_state :: saved_state

text \<open>One thread-stack slot: its base address (\<open>0\<close> when free) and whether its page array is
  allocated.\<close>

record thread_stack =
  ts_base :: u64
  ts_stacks :: bool

record proc_space =
  sp_pde_index :: nat
  sp_refs :: int
  sp_ready_ping :: bool
  sp_malloc_base :: u64
  sp_rw_heap_base :: u64
  sp_heap_size :: u64
  sp_heap_used :: u64
  sp_ipc_server :: ipc_server
  sp_signal :: signal_t
  sp_interrupt :: proc_interrupt
  sp_thread_stacks :: "thread_stack list option"

record proc =
  p_uuid :: u32
  p_type :: task_type
  p_core :: nat
  p_pid :: int
  p_father_pid :: int
  p_uid :: int
  p_gid :: int
  p_state :: pstate
  p_wait_for :: int
  p_start_sec :: u32
  p_run_usec :: u32
  p_priority :: u32
  p_cmd :: string
  p_is_core_idle :: bool
  p_priority_count :: u32
  p_ipc_res :: ipc_res
  p_wait_item_queued :: bool
  p_ipc_waiting_on :: "nat option"
  p_ipc_task :: "nat option"
  p_sleep_counter :: int
  p_run_usec_counter :: u64
  p_run_last_start_usec :: u64
  p_zombie_since_usec :: u64
  p_run_accounting_active :: bool
  p_space :: "nat option"
  p_thread_stack_base :: u64
  p_block_by :: u64
  p_wake_by :: u64
  p_wake_pending :: bool
  p_tls_base :: u64
  p_cnode :: cnode
  p_sid :: u64
  p_ctx :: context_t

section \<open>Global state of the scheduler\<close>

record core_t =
  cc_actived :: bool
  cc_need_resched :: bool
  cc_idle_proc :: "nat option"

text \<open>\<open>alloc_results\<close> is the sequence of outcomes of the allocations the modelled code performs
  (\<open>kmalloc\<close>, \<open>map_stack\<close>): \<open>True\<close> for success, and success once the list is used up.
  \<open>ipi_sent\<close> records the inter-processor interrupts sent, newest first. \<open>halted\<close> is set when the
  kernel panics and halts.\<close>

record kernel =
  task_table :: "proc option list"
  spaces :: "nat \<Rightarrow> proc_space option"
  ready_queue :: "nat \<Rightarrow> nat list"
  interrupt_timeout_queue :: "nat list"
  ipc_timeout_queue :: "nat list"
  priority_update_queue :: "nat list"
  current_proc :: "nat \<Rightarrow> int"
  cpu_cores :: "nat \<Rightarrow> core_t"
  core_id :: nat
  cores :: nat
  active_space :: "nat \<Rightarrow> nat option"
  tls_reg :: "nat \<Rightarrow> u64"
  max_task_per_proc :: nat
  now_usec :: u64
  run_window_start_usec :: u64
  core_proc_pid :: int
  ipi_sent :: "nat list"
  alloc_results :: "bool list"
  halted :: bool

section \<open>Access to procs and spaces\<close>

definition slot :: "'a kernel_scheme \<Rightarrow> nat \<Rightarrow> proc option" where
  "slot k i = (if i < length (task_table k) then task_table k ! i else None)"

definition the_proc :: "'a kernel_scheme \<Rightarrow> nat \<Rightarrow> proc" where
  "the_proc k i = the (slot k i)"

definition upd_proc :: "nat \<Rightarrow> (proc \<Rightarrow> proc) \<Rightarrow> 'a kernel_scheme \<Rightarrow> 'a kernel_scheme" where
  "upd_proc i f k = k\<lparr>task_table := (task_table k)[i := map_option f (slot k i)]\<rparr>"

definition space_at :: "'a kernel_scheme \<Rightarrow> nat option \<Rightarrow> proc_space option" where
  "space_at k s = (case s of None \<Rightarrow> None | Some x \<Rightarrow> spaces k x)"

definition upd_space :: "nat option \<Rightarrow> (proc_space \<Rightarrow> proc_space) \<Rightarrow> 'a kernel_scheme \<Rightarrow> 'a kernel_scheme" where
  "upd_space s f k = (case s of None \<Rightarrow> k
     | Some x \<Rightarrow> k\<lparr>spaces := (spaces k)(x := map_option f (spaces k x))\<rparr>)"

definition proc_space_of :: "'a kernel_scheme \<Rightarrow> nat \<Rightarrow> proc_space option" where
  "proc_space_of k i = space_at k (p_space (the_proc k i))"

lemma length_upd_proc [simp]: "length (task_table (upd_proc i f k)) = length (task_table k)"
  by (simp add: upd_proc_def)

lemma slot_upd_proc:
  "slot (upd_proc i f k) j = (if j = i then map_option f (slot k i) else slot k j)"
  by (auto simp: slot_def upd_proc_def nth_list_update)

lemma slot_upd_proc_same [simp]: "slot (upd_proc i f k) i = map_option f (slot k i)"
  by (simp add: slot_upd_proc)

lemma slot_upd_proc_other [simp]: "j \<noteq> i \<Longrightarrow> slot (upd_proc i f k) j = slot k j"
  by (simp add: slot_upd_proc)

lemma the_proc_upd_same [simp]: "slot k i \<noteq> None \<Longrightarrow> the_proc (upd_proc i f k) i = f (the_proc k i)"
  by (auto simp: the_proc_def)

lemma the_proc_upd_other [simp]: "j \<noteq> i \<Longrightarrow> the_proc (upd_proc i f k) j = the_proc k j"
  by (simp add: the_proc_def)

lemma upd_proc_kernel [simp]:
  "spaces (upd_proc i f k) = spaces k"
  "ready_queue (upd_proc i f k) = ready_queue k"
  "interrupt_timeout_queue (upd_proc i f k) = interrupt_timeout_queue k"
  "ipc_timeout_queue (upd_proc i f k) = ipc_timeout_queue k"
  "priority_update_queue (upd_proc i f k) = priority_update_queue k"
  "current_proc (upd_proc i f k) = current_proc k"
  "cpu_cores (upd_proc i f k) = cpu_cores k"
  "core_id (upd_proc i f k) = core_id k"
  "cores (upd_proc i f k) = cores k"
  "active_space (upd_proc i f k) = active_space k"
  "tls_reg (upd_proc i f k) = tls_reg k"
  "max_task_per_proc (upd_proc i f k) = max_task_per_proc k"
  "now_usec (upd_proc i f k) = now_usec k"
  "run_window_start_usec (upd_proc i f k) = run_window_start_usec k"
  "core_proc_pid (upd_proc i f k) = core_proc_pid k"
  "ipi_sent (upd_proc i f k) = ipi_sent k"
  "alloc_results (upd_proc i f k) = alloc_results k"
  "halted (upd_proc i f k) = halted k"
  "kernel.more (upd_proc i f k) = kernel.more k"
  by (simp_all add: upd_proc_def)

lemma upd_space_kernel [simp]:
  "task_table (upd_space s g k) = task_table k"
  "ready_queue (upd_space s g k) = ready_queue k"
  "interrupt_timeout_queue (upd_space s g k) = interrupt_timeout_queue k"
  "ipc_timeout_queue (upd_space s g k) = ipc_timeout_queue k"
  "priority_update_queue (upd_space s g k) = priority_update_queue k"
  "current_proc (upd_space s g k) = current_proc k"
  "cpu_cores (upd_space s g k) = cpu_cores k"
  "core_id (upd_space s g k) = core_id k"
  "cores (upd_space s g k) = cores k"
  "active_space (upd_space s g k) = active_space k"
  "tls_reg (upd_space s g k) = tls_reg k"
  "max_task_per_proc (upd_space s g k) = max_task_per_proc k"
  "now_usec (upd_space s g k) = now_usec k"
  "run_window_start_usec (upd_space s g k) = run_window_start_usec k"
  "core_proc_pid (upd_space s g k) = core_proc_pid k"
  "ipi_sent (upd_space s g k) = ipi_sent k"
  "alloc_results (upd_space s g k) = alloc_results k"
  "halted (upd_space s g k) = halted k"
  "kernel.more (upd_space s g k) = kernel.more k"
  by (simp_all add: upd_space_def split: option.split)

lemma slot_upd_space [simp]: "slot (upd_space s g k) i = slot k i"
  by (simp add: slot_def)

lemma the_proc_upd_space [simp]: "the_proc (upd_space s g k) i = the_proc k i"
  by (simp add: the_proc_def)

section \<open>Lookups\<close>

definition live_state :: "pstate \<Rightarrow> bool" where
  "live_state st \<longleftrightarrow> st \<noteq> UNUSED \<and> st \<noteq> ZOMBIE"

definition proc_get :: "'a kernel_scheme \<Rightarrow> int \<Rightarrow> nat option" where
  "proc_get k pid =
     (if pid < 0 \<or> pid \<ge> int (length (task_table k)) then None
      else case task_table k ! nat pid of
        None \<Rightarrow> None
      | Some p \<Rightarrow> if p_state p = UNUSED \<or> p_state p = ZOMBIE then None else Some (nat pid))"

text \<open>\<open>proc_get_by_uuid\<close> walks the table and breaks at a match; the variable keeps the last slot it
  read when no slot matches.\<close>

fun scan_uuid :: "u32 \<Rightarrow> proc option list \<Rightarrow> nat \<Rightarrow> nat option \<Rightarrow> nat option" where
  "scan_uuid uuid [] i acc = acc"
| "scan_uuid uuid (None # ps) i acc = scan_uuid uuid ps (Suc i) None"
| "scan_uuid uuid (Some p # ps) i acc =
     (if p_uuid p = uuid then Some i else scan_uuid uuid ps (Suc i) (Some i))"

definition proc_get_by_uuid :: "'a kernel_scheme \<Rightarrow> u32 \<Rightarrow> nat option" where
  "proc_get_by_uuid k uuid =
     (case scan_uuid uuid (task_table k) 0 None of
        None \<Rightarrow> None
      | Some i \<Rightarrow> if live_state (p_state (the_proc k i)) then Some i else None)"

definition get_current_core_proc :: "'a kernel_scheme \<Rightarrow> nat \<Rightarrow> nat option" where
  "get_current_core_proc k c =
     (case proc_get k (current_proc k c) of
        None \<Rightarrow> None
      | Some i \<Rightarrow> if live_state (p_state (the_proc k i)) then Some i else None)"

definition get_current_proc :: "'a kernel_scheme \<Rightarrow> nat option" where
  "get_current_proc k = get_current_core_proc k (core_id k)"

text \<open>The loops that follow \<open>father_pid\<close> links. Each step leads to a live slot, so a walk that ends
  visits at most one more node than the table has slots; the loop is run with that much fuel, and
  \<open>NULL\<close> is the answer when the links form a cycle (where the C loop would not return).\<close>

fun owner_loop :: "nat \<Rightarrow> 'a kernel_scheme \<Rightarrow> nat option \<Rightarrow> nat option" where
  "owner_loop 0 k p = None"
| "owner_loop (Suc n) k None = None"
| "owner_loop (Suc n) k (Some i) =
     (if p_type (the_proc k i) = TASK_TYPE_PROC then Some i
      else owner_loop n k (proc_get k (p_father_pid (the_proc k i))))"

definition proc_get_proc :: "'a kernel_scheme \<Rightarrow> nat option \<Rightarrow> nat option" where
  "proc_get_proc k p = owner_loop (length (task_table k) + 2) k p"

fun childof_loop :: "nat \<Rightarrow> 'a kernel_scheme \<Rightarrow> nat option \<Rightarrow> nat option \<Rightarrow> int" where
  "childof_loop 0 k p parent = -1"
| "childof_loop (Suc n) k None parent = -1"
| "childof_loop (Suc n) k (Some i) parent =
     (if Some i = parent then 0
      else childof_loop n k (proc_get k (p_father_pid (the_proc k i))) parent)"

definition proc_childof :: "'a kernel_scheme \<Rightarrow> nat option \<Rightarrow> nat option \<Rightarrow> int" where
  "proc_childof k p parent = childof_loop (length (task_table k) + 2) k p parent"

definition get_proc_pid :: "'a kernel_scheme \<Rightarrow> int \<Rightarrow> int" where
  "get_proc_pid k pid = (case proc_get_proc k (proc_get k pid) of None \<Rightarrow> pid | Some i \<Rightarrow> p_pid (the_proc k i))"

definition user_ptr_ok :: "'a kernel_scheme \<Rightarrow> nat option \<Rightarrow> u64 \<Rightarrow> u64 \<Rightarrow> bool" where
  "user_ptr_ok k p ptr sz =
     (case p of None \<Rightarrow> False
      | Some i \<Rightarrow>
        if p_space (the_proc k i) = None then False
        else let e = ptr + sz in
          if e < ptr then False
          else if ptr = 0 then False
          else if e > USER_STACK_TOP then False
          else True)"

section \<open>Facts about the lookups\<close>

lemma proc_get_alt:
  "proc_get k pid = (if 0 \<le> pid \<and> (\<exists>p. slot k (nat pid) = Some p \<and> live_state (p_state p))
     then Some (nat pid) else None)"
  by (auto simp: proc_get_def slot_def live_state_def split: option.splits)

lemma proc_get_SomeD:
  "proc_get k pid = Some i \<Longrightarrow>
     pid = int i \<and> i < length (task_table k) \<and> slot k i = Some (the_proc k i) \<and> live_state (p_state (the_proc k i))"
  by (auto simp: proc_get_alt the_proc_def slot_def split: if_splits)

lemma proc_get_int: "proc_get k (int i) = Some j \<longleftrightarrow> j = i \<and> slot k i \<noteq> None \<and> live_state (p_state (the_proc k i))"
  by (auto simp: proc_get_alt the_proc_def)

lemma get_current_core_proc_alt: "get_current_core_proc k c = proc_get k (current_proc k c)"
  by (auto simp: get_current_core_proc_def dest: proc_get_SomeD split: option.splits)

lemma get_current_proc_alt: "get_current_proc k = proc_get k (current_proc k (core_id k))"
  by (simp add: get_current_proc_def get_current_core_proc_alt)










lemma proc_get_proc_PROC [simp]: "p_type (the_proc k i) = TASK_TYPE_PROC \<Longrightarrow> proc_get_proc k (Some i) = Some i"
  by (simp add: proc_get_proc_def)

lemma proc_get_proc_None [simp]: "proc_get_proc k None = None"
  by (simp add: proc_get_proc_def)

lemma scan_uuid_hit:
  "i < length ps \<Longrightarrow> ps ! i = Some p \<Longrightarrow> p_uuid p = uuid \<Longrightarrow>
     (\<forall>j < i. \<forall>q. ps ! j = Some q \<longrightarrow> p_uuid q \<noteq> uuid) \<Longrightarrow> scan_uuid uuid ps n acc = Some (n + i)"
proof (induction uuid ps n acc arbitrary: i rule: scan_uuid.induct)
  case (2 uuid ps n acc)
  then show ?case by (cases i) (fastforce simp: nth_Cons split: nat.splits)+
next
  case (3 uuid q ps n acc)
  then show ?case by (cases i) (fastforce simp: nth_Cons split: nat.splits)+
qed simp

lemma scan_uuid_miss:
  "(\<forall>q. Some q \<in> set ps \<longrightarrow> p_uuid q \<noteq> uuid) \<Longrightarrow> ps \<noteq> [] \<Longrightarrow>
     scan_uuid uuid ps n acc = (case last ps of None \<Rightarrow> None | Some p \<Rightarrow> Some (n + length ps - 1))"
  by (induction uuid ps n acc rule: scan_uuid.induct) (auto split: option.splits)

section \<open>Zeroed objects and the initial state\<close>

definition zero_ipc_res :: ipc_res where
  "zero_ipc_res = \<lparr>ir_uid = 0, ir_state = IPC_IDLE, ir_data = []\<rparr>"

definition zero_ipc_task :: ipc_task where
  "zero_ipc_task = \<lparr>it_uid = 0, it_counter = 0, it_state = IPC_IDLE, it_arg_ret = [], it_client_pid = 0,
     it_client_uuid = 0, it_client_intr = False, it_call_id = 0, it_handler_pid = 0, it_handler_uuid = 0\<rparr>"

definition IPC_CTX_MAX :: nat where
  "IPC_CTX_MAX = 16"

definition zero_ipc_server :: ipc_server where
  "zero_ipc_server = \<lparr>is_disabled = False, is_multi_task = False, is_entry = 0, is_flags = 0,
     is_extra_data = 0, is_tasks = replicate IPC_CTX_MAX zero_ipc_task, is_task_head = 0,
     is_task_tail = 0, is_task_num = 0, is_pool = [], is_do_switch = False, is_restore_pending = False,
     is_stack = 0, is_saved_ipc_res = zero_ipc_res, is_saved_state = zero_saved_state,
     is_wait_queue = []\<rparr>"

definition zero_signal :: signal_t where
  "zero_signal = \<lparr>sg_entry = 0, sg_sig_no = 0, sg_do_switch = False, sg_stack = 0,
     sg_saved_ipc_res = zero_ipc_res, sg_saved_state = zero_saved_state\<rparr>"

definition zero_interrupt :: proc_interrupt where
  "zero_interrupt = \<lparr>pi_entry = 0, pi_interrupt = 0, pi_data = 0, pi_state = INTR_STATE_IDLE,
     pi_stack = 0, pi_counter = 0, pi_pending = False, pi_restore_pending = False, pi_wait_queue = [], pi_saved_ipc_res = zero_ipc_res,
     pi_ipc_res = zero_ipc_res, pi_saved_state = zero_saved_state\<rparr>"

definition zero_space :: proc_space where
  "zero_space = \<lparr>sp_pde_index = 0, sp_refs = 0, sp_ready_ping = False, sp_malloc_base = 0, sp_rw_heap_base = 0,
     sp_heap_size = 0, sp_heap_used = 0, sp_ipc_server = zero_ipc_server,
     sp_signal = zero_signal, sp_interrupt = zero_interrupt, sp_thread_stacks = None\<rparr>"

definition CNODE_SLOTS :: nat where
  "CNODE_SLOTS = 64"

definition zero_cap :: cap_t where
  "zero_cap = \<lparr>c_type = 0, c_rights = 0, c_obj = ObjNone\<rparr>"

definition zero_proc :: proc where
  "zero_proc = \<lparr>p_uuid = 0, p_type = TASK_TYPE_PROC, p_core = 0, p_pid = 0, p_father_pid = 0,
     p_uid = 0, p_gid = 0, p_state = UNUSED, p_wait_for = 0, p_start_sec = 0, p_run_usec = 0, p_priority = 0,
     p_cmd = [], p_is_core_idle = False, p_priority_count = 0, p_ipc_res = zero_ipc_res,
     p_wait_item_queued = False, p_ipc_waiting_on = None, p_ipc_task = None, p_sleep_counter = 0,
     p_run_usec_counter = 0, p_run_last_start_usec = 0, p_zombie_since_usec = 0,
     p_run_accounting_active = False, p_space = None, p_thread_stack_base = 0, p_block_by = 0,
     p_wake_by = 0, p_wake_pending = False, p_tls_base = 0, p_cnode = replicate CNODE_SLOTS zero_cap,
     p_sid = 0, p_ctx = zero_ctx\<rparr>"

definition zero_core :: core_t where
  "zero_core = \<lparr>cc_actived = False, cc_need_resched = False, cc_idle_proc = None\<rparr>"

text \<open>\<open>procs_init\<close>, with the configured table size, core count and thread limit as arguments.\<close>

definition procs_init :: "nat \<Rightarrow> nat \<Rightarrow> nat \<Rightarrow> u64 \<Rightarrow> kernel" where
  "procs_init max_task_num ncores max_per_proc now =
     \<lparr>task_table = replicate max_task_num None, spaces = (\<lambda>_. None), ready_queue = (\<lambda>_. []),
      interrupt_timeout_queue = [], ipc_timeout_queue = [], priority_update_queue = [],
      current_proc = (\<lambda>_. -1), cpu_cores = (\<lambda>_. zero_core), core_id = 0, cores = ncores,
      active_space = (\<lambda>_. None), tls_reg = (\<lambda>_. 0), max_task_per_proc = max_per_proc,
      now_usec = now, run_window_start_usec = now, core_proc_pid = -1, ipi_sent = [],
      alloc_results = [], halted = False\<rparr>"

section \<open>Properties\<close>


definition ex_family :: kernel where
  "ex_family = (procs_init 4 1 8 0)\<lparr>task_table := [None,
     Some (zero_proc\<lparr>p_pid := 1, p_uuid := 11, p_state := READY, p_space := Some 0\<rparr>),
     Some (zero_proc\<lparr>p_pid := 2, p_uuid := 12, p_state := READY, p_space := Some 0,
       p_type := TASK_TYPE_THREAD, p_father_pid := 1\<rparr>),
     Some (zero_proc\<lparr>p_pid := 3, p_uuid := 13, p_state := BLOCK, p_space := Some 1\<rparr>)]\<rparr>"

lemmas ex_family_simps = ex_family_def procs_init_def zero_proc_def the_proc_def slot_def
  proc_get_alt live_state_def


text \<open>A lookup by uuid of a task that is gone does not answer \<open>NULL\<close>: when no slot carries the
  uuid and the last slot of the table holds a live task, that unrelated task is returned.\<close>

theorem proc_get_by_uuid_stale:
  assumes "task_table k \<noteq> []" "\<forall>p. Some p \<in> set (task_table k) \<longrightarrow> p_uuid p \<noteq> uuid"
    and "last (task_table k) = Some p" "live_state (p_state p)"
  shows "proc_get_by_uuid k uuid = Some (length (task_table k) - 1) \<and>
    p_uuid (the_proc k (length (task_table k) - 1)) \<noteq> uuid"
proof -
  have scan: "scan_uuid uuid (task_table k) 0 None = Some (length (task_table k) - 1)"
    using scan_uuid_miss [OF assms(2,1), of 0 None] assms(3) by simp
  have "slot k (length (task_table k) - 1) = Some p"
    using assms(1,3) by (simp add: slot_def last_conv_nth)
  with scan assms show ?thesis
    by (auto simp: proc_get_by_uuid_def the_proc_def) (metis last_in_set)
qed

theorem proc_get_by_uuid_stale_witness:
  "proc_get_by_uuid ex_family 99 = Some 3 \<and> p_uuid (the_proc ex_family 3) \<noteq> 99"
  using proc_get_by_uuid_stale [of ex_family 99]
  by (simp add: ex_family_simps)

text \<open>C25: a user buffer accepted by \<open>user_ptr_ok\<close> does not wrap around, does not start at \<open>NULL\<close>, and
  lies wholly below the guard page under the kernel.\<close>

theorem user_ptr_ok_sound:
  assumes "user_ptr_ok k p ptr sz"
  shows "ptr \<noteq> 0 \<and> unat ptr + unat sz < 2 ^ 64 \<and>
    unat ptr + unat sz \<le> unat KERNEL_BASE - PAGE_SIZE"
proof -
  from assms have le: "ptr \<le> ptr + sz" and nz: "ptr \<noteq> 0" and top: "ptr + sz \<le> USER_STACK_TOP"
    by (auto simp: user_ptr_ok_def Let_def not_less split: option.splits if_splits)
  from le have plus: "unat (ptr + sz) = unat ptr + unat sz"
    by (simp add: unat_plus_simple)
  then have "unat ptr + unat sz < 2 ^ 64"
    using unat_u64_less [of "ptr + sz"] by simp
  moreover have "unat ptr + unat sz \<le> unat KERNEL_BASE - PAGE_SIZE"
    using top plus by (simp add: word_le_nat_alt USER_STACK_TOP_def KERNEL_BASE_def PAGE_SIZE_def)
  ultimately show ?thesis using nz by blast
qed

theorem user_ptr_ok_sound_witness:
  "user_ptr_ok ex_family (Some 1) 0x400 64 \<and> unat (0x400 :: u64) + unat (64 :: u64) \<le> unat KERNEL_BASE - PAGE_SIZE"
proof -
  have ok: "user_ptr_ok ex_family (Some 1) 0x400 64"
    by (simp add: user_ptr_ok_def ex_family_simps USER_STACK_TOP_def KERNEL_BASE_def PAGE_SIZE_def)
  with user_ptr_ok_sound [OF ok] show ?thesis by simp
qed

end
