(* ===== verification/Sched.thy ===== *)
theory Sched
  imports Proc
begin

text \<open>
  The scheduler core of \<^verbatim>\<open>kernel/kernel/src/proc.c\<close> and \<^verbatim>\<open>kernel/kernel/src/schedule.c\<close>: ready
  queues, blocking and waking with node-scoped tokens, the sleep timer, the context switch with
  its interrupt, signal and ipc injection, and the signal delivery of
  \<^verbatim>\<open>kernel/kernel/src/signal.c\<close>. All operations run under the proc lock; each is one atomic
  transformation of the kernel state.
\<close>

section \<open>Run-time accounting\<close>

definition proc_account_running_until :: "nat option \<Rightarrow> 'a kernel_scheme \<Rightarrow> 'a kernel_scheme" where
  "proc_account_running_until p k = (case p of None \<Rightarrow> k
     | Some i \<Rightarrow>
       if \<not> p_run_accounting_active (the_proc k i) then k
       else if get_current_core_proc k (p_core (the_proc k i)) \<noteq> Some i then k
       else upd_proc i (\<lambda>p. p\<lparr>
         p_run_usec_counter := (if now_usec k > p_run_last_start_usec p
           then p_run_usec_counter p + (now_usec k - p_run_last_start_usec p)
           else p_run_usec_counter p),
         p_run_last_start_usec := now_usec k\<rparr>) k)"

definition proc_account_switch_out :: "nat option \<Rightarrow> 'a kernel_scheme \<Rightarrow> 'a kernel_scheme" where
  "proc_account_switch_out p k =
     (let k = proc_account_running_until p k in
      case p of None \<Rightarrow> k | Some i \<Rightarrow> upd_proc i (\<lambda>p. p\<lparr>p_run_accounting_active := False\<rparr>) k)"

definition proc_account_switch_in :: "nat option \<Rightarrow> 'a kernel_scheme \<Rightarrow> 'a kernel_scheme" where
  "proc_account_switch_in p k = (case p of None \<Rightarrow> k
     | Some i \<Rightarrow> upd_proc i (\<lambda>p. p\<lparr>p_run_last_start_usec := now_usec k, p_run_accounting_active := True\<rparr>) k)"

definition proc_run_usec_snapshot_at :: "'a kernel_scheme \<Rightarrow> nat \<Rightarrow> u32" where
  "proc_run_usec_snapshot_at k i =
     (if now_usec k \<le> run_window_start_usec k then 0
      else let average = (p_run_usec_counter (the_proc k i) * 1000000) div (now_usec k - run_window_start_usec k)
        in ucast (if average > 0xffffffff then 0xffffffff else average))"

definition set_current_proc :: "nat option \<Rightarrow> 'a kernel_scheme \<Rightarrow> 'a kernel_scheme" where
  "set_current_proc p k =
     (let c = core_id k;
          cproc = proc_get k (current_proc k c);
          k = (if cproc \<noteq> None \<and> cproc \<noteq> p then proc_account_switch_out cproc k else k) in
      case p of
        None \<Rightarrow> k\<lparr>current_proc := (current_proc k)(c := -1)\<rparr>
      | Some i \<Rightarrow>
        if p_core (the_proc k i) = c
        then let k = k\<lparr>current_proc := (current_proc k)(c := p_pid (the_proc k i))\<rparr> in
          if cproc \<noteq> p \<or> \<not> p_run_accounting_active (the_proc k i)
          then proc_account_switch_in p k else k
        else k)"

definition proc_account_pause_current :: "'a kernel_scheme \<Rightarrow> 'a kernel_scheme" where
  "proc_account_pause_current k = (case get_current_proc k of None \<Rightarrow> k
     | Some i \<Rightarrow> proc_account_switch_out (Some i) k)"

definition proc_account_resume_current :: "'a kernel_scheme \<Rightarrow> 'a kernel_scheme" where
  "proc_account_resume_current k = (case get_current_proc k of None \<Rightarrow> k
     | Some i \<Rightarrow>
       if p_state (the_proc k i) \<noteq> RUNNING \<or> p_run_accounting_active (the_proc k i) then k
       else proc_account_switch_in (Some i) k)"

section \<open>Ready queues and timeout queues\<close>

definition proc_track_timeout_queue :: "nat list \<Rightarrow> nat \<Rightarrow> nat list" where
  "proc_track_timeout_queue q i = (if i \<in> set q then q else q @ [i])"

definition proc_untrack_timeout_queue :: "nat list \<Rightarrow> nat \<Rightarrow> nat list" where
  "proc_untrack_timeout_queue q i = remove1 i q"

definition proc_track_priority_update :: "nat \<Rightarrow> 'a kernel_scheme \<Rightarrow> 'a kernel_scheme" where
  "proc_track_priority_update i k =
     (if p_is_core_idle (the_proc k i) then k
      else if p_state (the_proc k i) \<noteq> READY \<and> p_state (the_proc k i) \<noteq> RUNNING then k
      else k\<lparr>priority_update_queue := proc_track_timeout_queue (priority_update_queue k) i\<rparr>)"

definition proc_untrack_priority_update :: "nat \<Rightarrow> 'a kernel_scheme \<Rightarrow> 'a kernel_scheme" where
  "proc_untrack_priority_update i k =
     k\<lparr>priority_update_queue := proc_untrack_timeout_queue (priority_update_queue k) i\<rparr>"

definition set_ready_queue :: "nat \<Rightarrow> nat list \<Rightarrow> 'a kernel_scheme \<Rightarrow> 'a kernel_scheme" where
  "set_ready_queue c q k = k\<lparr>ready_queue := (ready_queue k)(c := q)\<rparr>"

definition proc_queue_remove_all :: "nat \<Rightarrow> 'a kernel_scheme \<Rightarrow> 'a kernel_scheme" where
  "proc_queue_remove_all i k =
     (let c = p_core (the_proc k i) in set_ready_queue c (removeAll i (ready_queue k c)) k)"

definition proc_kick_ready_core :: "nat \<Rightarrow> 'a kernel_scheme \<Rightarrow> 'a kernel_scheme" where
  "proc_kick_ready_core i k =
     (let c = p_core (the_proc k i) in
      if cc_actived (cpu_cores k c) \<and> c \<noteq> core_id k
      then k\<lparr>cpu_cores := (cpu_cores k)(c := (cpu_cores k c)\<lparr>cc_need_resched := True\<rparr>),
             ipi_sent := c # ipi_sent k\<rparr>
      else k)"

definition proc_ready_with_order :: "nat \<Rightarrow> bool \<Rightarrow> 'a kernel_scheme \<Rightarrow> 'a kernel_scheme" where
  "proc_ready_with_order i push_head k =
     (let k = upd_proc i (\<lambda>p. p\<lparr>p_state := READY\<rparr>) k;
          k = proc_track_priority_update i k;
          k = upd_proc i (\<lambda>p. if p_priority_count p = 0 then p\<lparr>p_priority_count := p_priority p\<rparr> else p) k;
          c = p_core (the_proc k i);
          q = ready_queue k c in
      if i \<in> set q then
        if push_head \<and> hd q \<noteq> i
        then proc_kick_ready_core i (set_ready_queue c (i # remove1 i q) k)
        else proc_kick_ready_core i k
      else proc_kick_ready_core i (set_ready_queue c (if push_head then i # q else q @ [i]) k))"

definition proc_ready :: "nat \<Rightarrow> 'a kernel_scheme \<Rightarrow> 'a kernel_scheme" where
  "proc_ready i k = proc_ready_with_order i False k"

definition proc_have_ready_task :: "'a kernel_scheme \<Rightarrow> nat \<Rightarrow> bool" where
  "proc_have_ready_task k c = (if c \<ge> 8 \<or> c \<ge> cores k then False else ready_queue k c \<noteq> [])"

fun pop_ready :: "'a kernel_scheme \<Rightarrow> nat list \<Rightarrow> nat option \<times> nat list" where
  "pop_ready k [] = (None, [])"
| "pop_ready k (i # q) =
     (if p_state (the_proc k i) \<noteq> READY \<and> p_state (the_proc k i) \<noteq> RUNNING
      then pop_ready k q else (Some i, q))"

definition is_idle_of_core :: "'a kernel_scheme \<Rightarrow> nat \<Rightarrow> bool" where
  "is_idle_of_core k i \<longleftrightarrow> cc_idle_proc (cpu_cores k (p_core (the_proc k i))) = Some i"

definition proc_get_next_ready :: "'a kernel_scheme \<Rightarrow> nat option \<times> 'a kernel_scheme" where
  "proc_get_next_ready k =
     (let c = core_id k;
          (next, q) = pop_ready k (ready_queue k c);
          k = set_ready_queue c q k in
      case next of
        Some i \<Rightarrow> (Some i, k)
      | None \<Rightarrow>
        (case get_current_proc k of
           None \<Rightarrow> (None, k)
         | Some i \<Rightarrow> (if p_state (the_proc k i) = RUNNING \<and> \<not> is_idle_of_core k i
                      then Some i else None, k)))"

definition proc_unready_locked :: "nat \<Rightarrow> pstate \<Rightarrow> 'a kernel_scheme \<Rightarrow> 'a kernel_scheme" where
  "proc_unready_locked i st k =
     (let k = proc_queue_remove_all i k;
          k = proc_untrack_priority_update i k in
      upd_proc i (\<lambda>p. p\<lparr>p_state := st\<rparr>) k)"

definition proc_wakeup_waiting_at :: "int \<Rightarrow> nat \<Rightarrow> 'a kernel_scheme \<Rightarrow> 'a kernel_scheme" where
  "proc_wakeup_waiting_at pid i k =
     (case slot k i of None \<Rightarrow> k
      | Some p \<Rightarrow>
        if p_state p = WAIT \<and> p_wait_for p = pid
        then proc_ready i (upd_proc i (\<lambda>p. p\<lparr>p_wait_for := -1\<rparr>) k)
        else k)"

definition proc_wakeup_waiting :: "int \<Rightarrow> 'a kernel_scheme \<Rightarrow> 'a kernel_scheme" where
  "proc_wakeup_waiting pid k =
     fold (proc_wakeup_waiting_at pid) [0..<length (task_table k)] k"

section \<open>Saving and restoring a task around an injected handler\<close>

definition ipc_res_snapshot_clear :: "ipc_res \<Rightarrow> ipc_res" where
  "ipc_res_snapshot_clear r = r\<lparr>ir_data := [], ir_uid := 0, ir_state := IPC_IDLE\<rparr>"

definition ipc_res_snapshot_copy :: "ipc_res \<Rightarrow> ipc_res \<Rightarrow> ipc_res" where
  "ipc_res_snapshot_copy dst src =
     (let dst = ipc_res_snapshot_clear dst;
          dst = dst\<lparr>ir_uid := ir_uid src, ir_state := ir_state src\<rparr> in
      if ir_data src \<noteq> [] then dst\<lparr>ir_data := ir_data src\<rparr> else dst)"

definition proc_save_state :: "proc \<Rightarrow> saved_state \<times> ipc_res \<Rightarrow> saved_state \<times> ipc_res" where
  "proc_save_state p sv = (case sv of (ss, res) \<Rightarrow>
     (ss\<lparr>ss_state := p_state p, ss_sleep_counter := of_int (p_sleep_counter p)\<rparr>,
      ipc_res_snapshot_copy res (p_ipc_res p)))"

text \<open>\<open>proc_restore_state\<close> yields the restored context, the restored proc, and the cleared saved
  state.\<close>

definition proc_restore_state ::
  "proc \<Rightarrow> saved_state \<times> ipc_res \<Rightarrow> context_t \<times> proc \<times> saved_state \<times> ipc_res" where
  "proc_restore_state p sv = (case sv of (ss, res) \<Rightarrow>
     (ss_ctx ss,
      p\<lparr>p_state := ss_state ss, p_sleep_counter := uint (ss_sleep_counter ss),
        p_ipc_res := ipc_res_snapshot_copy (p_ipc_res p) res\<rparr>,
      zero_saved_state, ipc_res_snapshot_clear res))"

section \<open>The ipc side of a wakeup\<close>

definition ipc_taskq_head :: "ipc_server \<Rightarrow> nat option" where
  "ipc_taskq_head s = (if is_task_num s = 0 then None else Some (is_task_head s))"

definition proc_ipc_get_task :: "'a kernel_scheme \<Rightarrow> nat \<Rightarrow> nat option" where
  "proc_ipc_get_task k i = (case proc_space_of k i of None \<Rightarrow> None
     | Some sp \<Rightarrow> ipc_taskq_head (sp_ipc_server sp))"

definition proc_ipc_sync_serving :: "'a kernel_scheme \<Rightarrow> nat \<Rightarrow> bool" where
  "proc_ipc_sync_serving k i =
     (if proc_space_of k i = None then False
      else case proc_get_proc k (Some i) of None \<Rightarrow> False
      | Some w \<Rightarrow> (case proc_space_of k w of None \<Rightarrow> False
        | Some sp \<Rightarrow> if is_multi_task (sp_ipc_server sp) then False
                   else proc_ipc_get_task k w \<noteq> None))"

definition proc_ipc_cancel_wait :: "nat \<Rightarrow> 'a kernel_scheme \<Rightarrow> 'a kernel_scheme" where
  "proc_ipc_cancel_wait i k =
     (case p_ipc_waiting_on (the_proc k i) of None \<Rightarrow> k
      | Some sv \<Rightarrow>
        if proc_space_of k sv = None then k
        else let k = (if p_wait_item_queued (the_proc k i)
                      then upd_proc i (\<lambda>p. p\<lparr>p_wait_item_queued := False\<rparr>)
                        (upd_space (p_space (the_proc k sv)) (\<lambda>sp. sp\<lparr>sp_ipc_server := (sp_ipc_server sp)
                          \<lparr>is_wait_queue := filter (\<lambda>it. iq_owner it \<noteq> i) (is_wait_queue (sp_ipc_server sp))\<rparr>\<rparr>) k)
                      else k)
             in upd_proc i (\<lambda>p. p\<lparr>p_ipc_waiting_on := None\<rparr>) k)"

section \<open>Waking\<close>

definition proc_wakeup_all_state :: "nat \<Rightarrow> 'a kernel_scheme \<Rightarrow> 'a kernel_scheme" where
  "proc_wakeup_all_state i k =
     (case proc_space_of k i of None \<Rightarrow> k
      | Some sp \<Rightarrow>
        let push_head = (pi_state (sp_interrupt sp) = INTR_STATE_START);
            k = proc_ready_with_order i push_head k in
        upd_space (p_space (the_proc k i)) (\<lambda>sp. sp\<lparr>
          sp_ipc_server := (if \<not> is_do_switch (sp_ipc_server sp)
            then (sp_ipc_server sp)\<lparr>is_saved_state := (is_saved_state (sp_ipc_server sp))\<lparr>ss_state := READY\<rparr>\<rparr>
            else sp_ipc_server sp),
          sp_signal := (sp_signal sp)\<lparr>sg_saved_state := (sg_saved_state (sp_signal sp))\<lparr>ss_state := READY\<rparr>\<rparr>,
          sp_interrupt := (sp_interrupt sp)\<lparr>pi_saved_state := (pi_saved_state (sp_interrupt sp))\<lparr>ss_state := READY\<rparr>\<rparr>\<rparr>) k)"

text \<open>The latch for a wake that finds its target not blocked: presence and token.\<close>

definition latch_wake :: "u64 \<Rightarrow> proc \<Rightarrow> proc" where
  "latch_wake token p =
     (if \<not> p_wake_pending p then p\<lparr>p_wake_by := token, p_wake_pending := True\<rparr>
      else if p_wake_by p = 0 \<and> token \<noteq> 0 then p\<lparr>p_wake_by := token\<rparr>
      else if p_wake_by p \<noteq> 0 \<and> token = 0 then p
      else if p_wake_by p \<noteq> 0 \<and> token \<noteq> 0 \<and> p_wake_by p \<noteq> token then p
      else p\<lparr>p_wake_by := token\<rparr>)"

definition wake_resched :: "nat \<Rightarrow> 'a kernel_scheme \<Rightarrow> 'a kernel_scheme" where
  "wake_resched i k =
     (let c = p_core (the_proc k i) in
      if cc_actived (cpu_cores k c)
      then let k = k\<lparr>cpu_cores := (cpu_cores k)(c := (cpu_cores k c)\<lparr>cc_need_resched := True\<rparr>)\<rparr> in
        if c \<noteq> core_id k then k\<lparr>ipi_sent := c # ipi_sent k\<rparr> else k
      else k)"

definition proc_wakeup_by :: "nat \<Rightarrow> u64 \<Rightarrow> 'a kernel_scheme \<Rightarrow> 'a kernel_scheme" where
  "proc_wakeup_by i token k =
     (if p_state (the_proc k i) = UNUSED \<or> p_state (the_proc k i) = ZOMBIE then k
      else let k = proc_ipc_cancel_wait i k in
        if p_state (the_proc k i) = BLOCK then
          if token \<noteq> 0 \<and> p_block_by (the_proc k i) \<noteq> 0 \<and> p_block_by (the_proc k i) \<noteq> token then k
          else let k = upd_proc i (\<lambda>p. p\<lparr>p_block_by := 0, p_sleep_counter := 0, p_wake_by := 0,
                         p_wake_pending := False\<rparr>) k;
                   k = proc_wakeup_all_state i k
               in wake_resched i k
        else let k = proc_wakeup_all_state i k;
                 k = upd_proc i (latch_wake token) k
             in wake_resched i k)"

definition proc_wakeup :: "nat \<Rightarrow> 'a kernel_scheme \<Rightarrow> 'a kernel_scheme" where
  "proc_wakeup i k = proc_wakeup_by i 0 k"

section \<open>Thread stacks and the context switch\<close>

definition THREAD_STACK_PAGES :: nat where
  "THREAD_STACK_PAGES = 64"

definition take_alloc :: "'a kernel_scheme \<Rightarrow> bool \<times> 'a kernel_scheme" where
  "take_alloc k = (case alloc_results k of [] \<Rightarrow> (True, k) | r # rs \<Rightarrow> (r, k\<lparr>alloc_results := rs\<rparr>))"

definition thread_stack_base_of :: "nat \<Rightarrow> u64" where
  "thread_stack_base_of j = USER_STACK_TOP - of_nat (STACK_PAGES * PAGE_SIZE)
     - of_nat (THREAD_STACK_PAGES * PAGE_SIZE) * (of_nat j + 1)"

definition set_thread_stacks :: "nat \<Rightarrow> thread_stack list \<Rightarrow> 'a kernel_scheme \<Rightarrow> 'a kernel_scheme" where
  "set_thread_stacks i sts k = upd_space (p_space (the_proc k i)) (\<lambda>sp. sp\<lparr>sp_thread_stacks := Some sts\<rparr>) k"

text \<open>Slot search and bookkeeping of \<open>thread_stack_alloc\<close>; the outcome of the two \<open>kmalloc\<close> calls and
  of \<open>map_stack\<close> is taken from \<open>alloc_results\<close>.\<close>

definition thread_stack_slot :: "nat \<Rightarrow> thread_stack list \<Rightarrow> 'a kernel_scheme \<Rightarrow> u64 \<times> 'a kernel_scheme" where
  "thread_stack_slot i sts k =
     (case find_index (\<lambda>t. ts_base t = 0) sts of None \<Rightarrow> (0, k)
      | Some j \<Rightarrow>
        let base = thread_stack_base_of j;
            (ok, k) = (if ts_stacks (sts ! j) then (True, k) else take_alloc k) in
        if \<not> ok then (0, k)
        else let (ok, k) = take_alloc k in
          if \<not> ok then (0, set_thread_stacks i (sts[j := (sts ! j)\<lparr>ts_stacks := False\<rparr>]) k)
          else (base, set_thread_stacks i (sts[j := \<lparr>ts_base = base, ts_stacks = True\<rparr>]) k))"

definition thread_stack_alloc :: "nat \<Rightarrow> 'a kernel_scheme \<Rightarrow> u64 \<times> 'a kernel_scheme" where
  "thread_stack_alloc i k =
     (case proc_space_of k i of None \<Rightarrow> (0, k)
      | Some sp \<Rightarrow>
        (case sp_thread_stacks sp of
           Some sts \<Rightarrow> thread_stack_slot i sts k
         | None \<Rightarrow>
           let (ok, k) = take_alloc k in
           if \<not> ok then (0, k)
           else let sts = replicate (max_task_per_proc k) \<lparr>ts_base = 0, ts_stacks = False\<rparr>
             in thread_stack_slot i sts (set_thread_stacks i sts k)))"

text \<open>Entering a handler on a dedicated stack: the two argument registers, program counter, link
  register and stack pointer of the target's context.\<close>

definition handler_sp :: "u64 \<Rightarrow> u64" where
  "handler_sp stack = ALIGN_DOWN (stack + of_nat (THREAD_STACK_PAGES * PAGE_SIZE)) 16"

definition enter_handler :: "u64 \<Rightarrow> u64 \<Rightarrow> context_t \<Rightarrow> context_t" where
  "enter_handler entry stack c = c\<lparr>ctx_pc := entry, ctx_lr := entry, ctx_sp := handler_sp stack\<rparr>"

definition inject_interrupt :: "nat \<Rightarrow> proc_space \<Rightarrow> 'a kernel_scheme \<Rightarrow> 'a kernel_scheme" where
  "inject_interrupt i sp k =
     (let s = p_space (the_proc k i); c = p_ctx (the_proc k i); it = sp_interrupt sp;
          k = upd_space s (\<lambda>sp. sp\<lparr>sp_interrupt := (sp_interrupt sp)\<lparr>pi_state := INTR_STATE_WORKING,
                pi_saved_state := (pi_saved_state (sp_interrupt sp))\<lparr>ss_ctx := c\<rparr>\<rparr>\<rparr>) k;
          (stack, k) = (if pi_stack it = 0 then thread_stack_alloc i k else (pi_stack it, k));
          k = upd_space s (\<lambda>sp. sp\<lparr>sp_interrupt := (sp_interrupt sp)\<lparr>pi_stack := stack\<rparr>\<rparr>) k in
      upd_proc i (\<lambda>p. p\<lparr>p_ctx := enter_handler (pi_entry it) stack
        (set_gpr 1 (pi_data it) (set_gpr 0 (ucast (pi_interrupt it)) (p_ctx p)))\<rparr>) k)"

definition inject_signal :: "nat \<Rightarrow> proc_space \<Rightarrow> 'a kernel_scheme \<Rightarrow> 'a kernel_scheme" where
  "inject_signal i sp k =
     (let s = p_space (the_proc k i); c = p_ctx (the_proc k i); sg = sp_signal sp;
          k = upd_space s (\<lambda>sp. sp\<lparr>sp_signal := (sp_signal sp)\<lparr>
                sg_saved_state := (sg_saved_state (sp_signal sp))\<lparr>ss_ctx := c\<rparr>\<rparr>\<rparr>) k;
          (stack, k) = (if sg_stack sg = 0 then thread_stack_alloc i k else (sg_stack sg, k));
          k = upd_space s (\<lambda>sp. sp\<lparr>sp_signal := (sp_signal sp)\<lparr>sg_stack := stack, sg_do_switch := False\<rparr>\<rparr>) k in
      upd_proc i (\<lambda>p. p\<lparr>p_ctx := enter_handler (sg_entry sg) stack
        (set_gpr 0 (ucast (sg_sig_no sg)) (p_ctx p))\<rparr>) k)"

definition inject_ipc :: "nat \<Rightarrow> proc_space \<Rightarrow> 'a kernel_scheme \<Rightarrow> 'a kernel_scheme" where
  "inject_ipc i sp k =
     (let s = p_space (the_proc k i); c = p_ctx (the_proc k i); sv = sp_ipc_server sp in
      case ipc_taskq_head sv of
        None \<Rightarrow> upd_space s (\<lambda>sp. sp\<lparr>sp_ipc_server := (sp_ipc_server sp)\<lparr>is_do_switch := False\<rparr>\<rparr>) k
      | Some t \<Rightarrow>
        let k = upd_space s (\<lambda>sp. sp\<lparr>sp_ipc_server := (sp_ipc_server sp)\<lparr>
                  is_saved_state := (is_saved_state (sp_ipc_server sp))\<lparr>ss_ctx := c\<rparr>\<rparr>\<rparr>) k;
            (stack, k) = (if is_stack sv = 0 then thread_stack_alloc i k else (is_stack sv, k));
            k = upd_space s (\<lambda>sp. sp\<lparr>sp_ipc_server := (sp_ipc_server sp)\<lparr>is_stack := stack, is_do_switch := False\<rparr>\<rparr>) k in
        upd_proc i (\<lambda>p. p\<lparr>p_ctx := enter_handler (is_entry sv) stack
          (set_gpr 1 (is_extra_data sv) (set_gpr 0 (ucast (it_uid (is_tasks sv ! t))) (p_ctx p)))\<rparr>) k)"

definition inject_context :: "nat \<Rightarrow> 'a kernel_scheme \<Rightarrow> 'a kernel_scheme" where
  "inject_context i k =
     (if p_type (the_proc k i) \<noteq> TASK_TYPE_PROC then k
      else case proc_space_of k i of None \<Rightarrow> k
      | Some sp \<Rightarrow>
        if pi_state (sp_interrupt sp) = INTR_STATE_START then inject_interrupt i sp k
        else if sg_do_switch (sp_signal sp) then inject_signal i sp k
        else if is_do_switch (sp_ipc_server sp) then inject_ipc i sp k
        else k)"

text \<open>The first half of \<open>proc_switch\<close>: the outgoing task's registers are stored, or, when a timed-out
  handler left a restored context behind (\<open>restore_pending\<close>), that context replaces them.\<close>

definition switch_save_ctx :: "nat option \<Rightarrow> context_t \<Rightarrow> 'a kernel_scheme \<Rightarrow> context_t \<times> 'a kernel_scheme" where
  "switch_save_ctx cproc ctx k =
     (case cproc of None \<Rightarrow> (ctx, k)
      | Some c \<Rightarrow>
        let restore = (p_type (the_proc k c) = TASK_TYPE_PROC \<and>
              (case proc_space_of k c of None \<Rightarrow> False
               | Some sp \<Rightarrow> pi_restore_pending (sp_interrupt sp) \<or> is_restore_pending (sp_ipc_server sp))) in
        if restore
        then (p_ctx (the_proc k c),
              upd_space (p_space (the_proc k c)) (\<lambda>sp. sp\<lparr>
                sp_interrupt := (sp_interrupt sp)\<lparr>pi_restore_pending := False\<rparr>,
                sp_ipc_server := (sp_ipc_server sp)\<lparr>is_restore_pending := False\<rparr>\<rparr>) k)
        else (ctx, upd_proc c (\<lambda>p. p\<lparr>p_ctx := ctx\<rparr>) k))"

definition switch_activate :: "nat option \<Rightarrow> nat \<Rightarrow> 'a kernel_scheme \<Rightarrow> 'a kernel_scheme" where
  "switch_activate cproc to k =
     (if cproc \<noteq> Some to \<and>
        (case cproc of None \<Rightarrow> True | Some c \<Rightarrow> p_space (the_proc k c) \<noteq> p_space (the_proc k to))
      then k\<lparr>active_space := (active_space k)(core_id k := p_space (the_proc k to))\<rparr>
      else k)"

text \<open>The outgoing task, when it was still running, goes back to its ready queue.\<close>

definition switch_requeue :: "nat option \<Rightarrow> nat \<Rightarrow> bool \<Rightarrow> 'a kernel_scheme \<Rightarrow> 'a kernel_scheme" where
  "switch_requeue cproc to quick k =
     (case cproc of None \<Rightarrow> k
      | Some c \<Rightarrow>
        if c \<noteq> to \<and> p_state (the_proc k c) \<noteq> UNUSED \<and> \<not> is_idle_of_core k c \<and> p_state (the_proc k c) = RUNNING
        then let k = proc_queue_remove_all c k;
                 k = upd_proc c (\<lambda>p. p\<lparr>p_state := READY\<rparr>) k;
                 co = p_core (the_proc k c) in
          set_ready_queue co (if quick then c # ready_queue k co else ready_queue k co @ [c]) k
        else k)"

definition proc_switch :: "context_t \<Rightarrow> nat \<Rightarrow> bool \<Rightarrow> 'a kernel_scheme \<Rightarrow> context_t \<times> 'a kernel_scheme" where
  "proc_switch ctx to quick k =
     (let cproc = get_current_proc k;
          k = proc_queue_remove_all to k;
          (ctx, k) = switch_save_ctx cproc ctx k;
          k = switch_activate cproc to k;
          k = inject_context to k;
          k = switch_requeue cproc to quick k;
          k = upd_proc to (\<lambda>p. p\<lparr>p_state := RUNNING\<rparr>) k;
          k = proc_track_priority_update to k;
          k = (if cproc \<noteq> Some to then set_current_proc (Some to) k else k);
          k = (case cproc of None \<Rightarrow> k
               | Some c \<Rightarrow> upd_proc c (\<lambda>p. p\<lparr>p_tls_base := tls_reg k (core_id k)\<rparr>) k);
          k = k\<lparr>tls_reg := (tls_reg k)(core_id k := p_tls_base (the_proc k to))\<rparr> in
      (p_ctx (the_proc k to), k))"

definition proc_switch_multi_core ::
  "context_t \<Rightarrow> nat \<Rightarrow> nat \<Rightarrow> 'a kernel_scheme \<Rightarrow> context_t \<times> 'a kernel_scheme" where
  "proc_switch_multi_core ctx to c k =
     (if p_core (the_proc k to) = c
      then let k = (if p_state (the_proc k to) \<noteq> RUNNING then proc_wakeup_all_state to k else k)
        in proc_switch ctx to True k
      else (ctx, proc_wakeup to k))"

definition schedule :: "context_t \<Rightarrow> 'a kernel_scheme \<Rightarrow> context_t \<times> 'a kernel_scheme" where
  "schedule ctx k =
     (let idle = cc_idle_proc (cpu_cores k (core_id k));
          k = (case idle of None \<Rightarrow> k
               | Some d \<Rightarrow> upd_proc d (\<lambda>p. p\<lparr>p_state := WAIT, p_wait_for := 0\<rparr>) k);
          (nxt, k) = proc_get_next_ready k;
          nxt = (if nxt = None \<and> idle \<noteq> None then idle else nxt) in
      case nxt of
        Some n \<Rightarrow> proc_switch ctx n False (upd_proc n (\<lambda>p. p\<lparr>p_state := RUNNING\<rparr>) k)
      | None \<Rightarrow> (ctx, k\<lparr>halted := True\<rparr>))"

section \<open>Blocking, sleeping, the timer\<close>

text \<open>What a block decides before it parks the task: consume a latched wake, or notice that the task
  was made ready. \<open>any_ok\<close> is the rule for a tokenless block: \<open>proc_block_by\<close> accepts every latched
  wake, \<open>proc_block_by_timeout\<close> only one with a node token.\<close>

definition block_run_now :: "(u64 \<Rightarrow> bool) \<Rightarrow> u64 \<Rightarrow> proc \<Rightarrow> bool \<times> proc" where
  "block_run_now any_ok token p =
     (if p_wake_pending p then
        let compatible = (if token = 0 then any_ok (p_wake_by p) else p_wake_by p = token);
            foreign_node_wake = (\<not> compatible \<and> p_wake_by p \<noteq> 0)
        in (compatible \<or> foreign_node_wake, p\<lparr>p_wake_pending := False, p_wake_by := 0\<rparr>)
      else (p_state p = READY, p))"

definition proc_block_common ::
  "(u64 \<Rightarrow> bool) \<Rightarrow> int \<Rightarrow> context_t \<Rightarrow> nat \<Rightarrow> u64 \<Rightarrow> 'a kernel_scheme \<Rightarrow> context_t \<times> 'a kernel_scheme" where
  "proc_block_common any_ok sleep ctx i token k =
     (let (run_now, p) = block_run_now any_ok token (the_proc k i);
          k = upd_proc i (\<lambda>_. p) k in
      if run_now
      then (ctx, upd_proc i (\<lambda>p. p\<lparr>p_state := (if p_state p = READY then RUNNING else p_state p),
                  p_block_by := 0\<rparr>) k)
      else let k = upd_proc i (\<lambda>p. p\<lparr>p_block_by := token, p_sleep_counter := sleep\<rparr>) k;
               k = proc_unready_locked i BLOCK k;
               k = (if get_current_proc k = Some i then proc_account_pause_current k else k);
               (ctx, k) = schedule ctx k;
               k = (if get_current_proc k = Some i then proc_account_resume_current k else k)
           in (ctx, k))"

definition proc_block_by :: "context_t \<Rightarrow> nat \<Rightarrow> u64 \<Rightarrow> 'a kernel_scheme \<Rightarrow> context_t \<times> 'a kernel_scheme" where
  "proc_block_by ctx i token k = proc_block_common (\<lambda>_. True) 0 ctx i token k"

definition proc_block :: "context_t \<Rightarrow> nat \<Rightarrow> 'a kernel_scheme \<Rightarrow> context_t \<times> 'a kernel_scheme" where
  "proc_block ctx i k = proc_block_by ctx i 0 k"

definition proc_block_by_timeout ::
  "context_t \<Rightarrow> nat \<Rightarrow> u64 \<Rightarrow> u32 \<Rightarrow> 'a kernel_scheme \<Rightarrow> context_t \<times> 'a kernel_scheme" where
  "proc_block_by_timeout ctx i token timeout_usec k =
     proc_block_common (\<lambda>wake_by. wake_by \<noteq> 0) (uint timeout_usec) ctx i token k"

definition proc_usleep :: "context_t \<Rightarrow> u32 \<Rightarrow> 'a kernel_scheme \<Rightarrow> context_t \<times> 'a kernel_scheme" where
  "proc_usleep ctx count k =
     (case get_current_proc k of None \<Rightarrow> (ctx, k)
      | Some i \<Rightarrow>
        let k = upd_proc i (\<lambda>p. p\<lparr>p_sleep_counter := uint count\<rparr>) k;
            k = proc_unready_locked i SLEEPING k;
            k = proc_account_pause_current k;
            (ctx, k) = schedule ctx k
        in (ctx, proc_account_resume_current k))"

definition renew_sleep_at :: "u32 \<Rightarrow> nat \<Rightarrow> int \<times> 'a kernel_scheme \<Rightarrow> int \<times> 'a kernel_scheme" where
  "renew_sleep_at usec i rk = (case rk of (res, k) \<Rightarrow>
     (case slot k i of None \<Rightarrow> (res, k)
      | Some p \<Rightarrow>
        if p_state p = SLEEPING then
          let left = p_sleep_counter p - uint usec;
              k = upd_proc i (\<lambda>p. p\<lparr>p_sleep_counter := left\<rparr>) k in
          if left \<le> 0
          then (0, proc_kick_ready_core i (proc_ready i (upd_proc i (\<lambda>p. p\<lparr>p_sleep_counter := 0\<rparr>) k)))
          else (res, k)
        else if p_state p = BLOCK \<and> p_sleep_counter p > 0 then
          let left = p_sleep_counter p - uint usec;
              k = upd_proc i (\<lambda>p. p\<lparr>p_sleep_counter := left\<rparr>) k in
          if left \<le> 0
          then (0, proc_kick_ready_core i (proc_ready i
                 (upd_proc i (\<lambda>p. p\<lparr>p_sleep_counter := 0, p_block_by := 0\<rparr>) k)))
          else (res, k)
        else (res, k)))"

definition renew_sleep_counter :: "u32 \<Rightarrow> 'a kernel_scheme \<Rightarrow> int \<times> 'a kernel_scheme" where
  "renew_sleep_counter usec k = fold (renew_sleep_at usec) [0..<length (task_table k)] (-1, k)"

definition renew_priority_at :: "nat \<Rightarrow> 'a kernel_scheme \<Rightarrow> 'a kernel_scheme" where
  "renew_priority_at i k =
     (let p = the_proc k i in
      if p_state p \<noteq> RUNNING \<and> p_state p \<noteq> READY then proc_untrack_priority_update i k
      else let k = upd_proc i (\<lambda>p. if p_priority_count p > 0 then p\<lparr>p_priority_count := p_priority_count p - 1\<rparr> else p) k in
        if p_priority_count (the_proc k i) > 0 then k
        else if p_state p = READY then proc_ready i k
        else if p_state p = RUNNING \<and> get_current_core_proc k (p_core p) = Some i
        then upd_proc i (\<lambda>p. p\<lparr>p_priority_count := p_priority p\<rparr>) k
        else k)"

definition renew_priority_counter :: "'a kernel_scheme \<Rightarrow> 'a kernel_scheme" where
  "renew_priority_counter k = fold renew_priority_at (priority_update_queue k) k"

section \<open>Signals\<close>

definition SYS_SIG_STOP :: u32 where "SYS_SIG_STOP = 0"
definition SYS_SIG_KILL :: u32 where "SYS_SIG_KILL = 1"

definition proc_signal_setup :: "u64 \<Rightarrow> 'a kernel_scheme \<Rightarrow> int \<times> 'a kernel_scheme" where
  "proc_signal_setup entry k =
     (case get_current_proc k of None \<Rightarrow> (0, k)
      | Some c \<Rightarrow> (0, upd_space (p_space (the_proc k c)) (\<lambda>sp. sp\<lparr>sp_signal := (sp_signal sp)\<lparr>sg_entry := entry\<rparr>\<rparr>) k))"

definition proc_signal_send ::
  "context_t \<Rightarrow> nat option \<Rightarrow> int \<Rightarrow> bool \<Rightarrow> 'a kernel_scheme \<Rightarrow> context_t \<times> 'a kernel_scheme" where
  "proc_signal_send ctx p sig_no quick k =
     (let ctx = set_gpr 0 (-1) ctx in
      case p of None \<Rightarrow> (ctx, k)
      | Some i \<Rightarrow>
        (case proc_space_of k i of None \<Rightarrow> (ctx, k)
         | Some sp \<Rightarrow>
           if sg_entry (sp_signal sp) = 0 then (ctx, k)
           else
             let ctx = set_gpr 0 0 ctx;
                 sv = proc_save_state (the_proc k i) (sg_saved_state (sp_signal sp), sg_saved_ipc_res (sp_signal sp));
                 k = upd_space (p_space (the_proc k i)) (\<lambda>sp. sp\<lparr>sp_signal := (sp_signal sp)\<lparr>
                       sg_saved_state := fst sv, sg_saved_ipc_res := snd sv,
                       sg_sig_no := of_int sig_no, sg_do_switch := True\<rparr>\<rparr>) k in
             if quick
             then (case get_current_proc k of None \<Rightarrow> (ctx, k)
                   | Some c \<Rightarrow> proc_switch_multi_core ctx i (p_core (the_proc k c)) k)
             else (ctx, proc_ready i k)))"

definition proc_signal_end :: "context_t \<Rightarrow> 'a kernel_scheme \<Rightarrow> context_t \<times> 'a kernel_scheme" where
  "proc_signal_end ctx k =
     (case get_current_proc k of None \<Rightarrow> (ctx, k)
      | Some c \<Rightarrow>
        (case proc_space_of k c of None \<Rightarrow> (ctx, k)
         | Some sp \<Rightarrow>
           if p_state (the_proc k c) = UNUSED \<or> p_state (the_proc k c) = ZOMBIE \<or> sg_entry (sp_signal sp) = 0
           then schedule ctx k
           else
             let (ctx, p, ss, res) = proc_restore_state (the_proc k c)
                   (sg_saved_state (sp_signal sp), sg_saved_ipc_res (sp_signal sp));
                 k = upd_proc c (\<lambda>_. p) k;
                 k = upd_space (p_space p) (\<lambda>sp. sp\<lparr>sp_signal := (sp_signal sp)\<lparr>sg_saved_state := ss,
                       sg_saved_ipc_res := res\<rparr>\<rparr>) k;
                 k = (if sg_sig_no (sp_signal sp) = SYS_SIG_STOP \<or> sg_sig_no (sp_signal sp) = SYS_SIG_KILL
                      then proc_ready c k else k)
             in schedule ctx k))"

end
