(* ===== verification/Sched_Props.thy ===== *)
theory Sched_Props
  imports Sched
begin

text \<open>
  Frame facts and invariants of the scheduler. \<open>statics\<close> is the part of the task table no scheduler
  operation changes; \<open>pstates\<close> the run states. The scheduling invariant \<open>sched_inv\<close> says that the ready
  queues and the run states agree: no task is queued twice, on a foreign core's queue or when it is
  gone, and every \<open>READY\<close> task is on its core's queue, so that no runnable task is lost.
\<close>

section \<open>Frames\<close>

lemma slot_more [simp]:
  "slot (k\<lparr>priority_update_queue := x1\<rparr>) i = slot k i"
  "slot (k\<lparr>ready_queue := x2\<rparr>) i = slot k i"
  "slot (k\<lparr>cpu_cores := x3\<rparr>) i = slot k i"
  "slot (k\<lparr>ipi_sent := x4\<rparr>) i = slot k i"
  "slot (k\<lparr>current_proc := x5\<rparr>) i = slot k i"
  "slot (k\<lparr>active_space := x6\<rparr>) i = slot k i"
  "slot (k\<lparr>tls_reg := x7\<rparr>) i = slot k i"
  "slot (k\<lparr>alloc_results := x8\<rparr>) i = slot k i"
  "slot (k\<lparr>halted := x9\<rparr>) i = slot k i"
  "slot (k\<lparr>interrupt_timeout_queue := x10\<rparr>) i = slot k i"
  "slot (k\<lparr>ipc_timeout_queue := x11\<rparr>) i = slot k i"
  by (simp_all add: slot_def)

lemma the_proc_more [simp]:
  "the_proc (k\<lparr>priority_update_queue := x1\<rparr>) i = the_proc k i"
  "the_proc (k\<lparr>ready_queue := x2\<rparr>) i = the_proc k i"
  "the_proc (k\<lparr>cpu_cores := x3\<rparr>) i = the_proc k i"
  "the_proc (k\<lparr>ipi_sent := x4\<rparr>) i = the_proc k i"
  "the_proc (k\<lparr>current_proc := x5\<rparr>) i = the_proc k i"
  "the_proc (k\<lparr>active_space := x6\<rparr>) i = the_proc k i"
  "the_proc (k\<lparr>tls_reg := x7\<rparr>) i = the_proc k i"
  "the_proc (k\<lparr>alloc_results := x8\<rparr>) i = the_proc k i"
  "the_proc (k\<lparr>halted := x9\<rparr>) i = the_proc k i"
  "the_proc (k\<lparr>interrupt_timeout_queue := x10\<rparr>) i = the_proc k i"
  "the_proc (k\<lparr>ipc_timeout_queue := x11\<rparr>) i = the_proc k i"
  by (simp_all add: the_proc_def)

lemma live_states [simp]: "live_state READY" "live_state RUNNING" "live_state BLOCK" "live_state SLEEPING" "live_state WAIT"
  "live_state CREATED" "\<not> live_state ZOMBIE" "\<not> live_state UNUSED"
  by (simp_all add: live_state_def)

definition make_ready :: "nat \<Rightarrow> 'a kernel_scheme \<Rightarrow> 'a kernel_scheme" where
  "make_ready i k = upd_proc i (\<lambda>p. if p_priority_count p = 0 then p\<lparr>p_priority_count := p_priority p\<rparr> else p)
    (proc_track_priority_update i (upd_proc i (\<lambda>p. p\<lparr>p_state := READY\<rparr>) k))"

definition ready_order :: "nat \<Rightarrow> bool \<Rightarrow> nat list \<Rightarrow> nat list" where
  "ready_order i ph q = (if i \<in> set q then (if ph \<and> hd q \<noteq> i then i # remove1 i q else q)
     else if ph then i # q else q @ [i])"

lemma set_ready_queue_same [simp]: "q = ready_queue k c \<Longrightarrow> set_ready_queue c q k = k"
  by (simp add: set_ready_queue_def)

lemma proc_ready_with_order_alt:
  "proc_ready_with_order i ph k = (let k1 = make_ready i k; c = p_core (the_proc k1 i) in
     proc_kick_ready_core i (set_ready_queue c (ready_order i ph (ready_queue k1 c)) k1))"
  by (simp add: proc_ready_with_order_def make_ready_def ready_order_def Let_def)

lemma ready_order_props [simp]:
  "set (ready_order i ph q) = insert i (set q)"
  "distinct q \<Longrightarrow> distinct (ready_order i ph q)"
  by (cases q; auto simp: ready_order_def set_remove1_eq)+

lemma slot_make_ready [simp]:
  "slot (make_ready i k) i = None \<longleftrightarrow> slot k i = None"
  "(\<exists>y. slot (make_ready i k) i = Some y) \<longleftrightarrow> (\<exists>y. slot k i = Some y)"
  by (auto simp: make_ready_def proc_track_priority_update_def)

lemma slot_make_ready_other: "j \<noteq> i \<Longrightarrow> slot (make_ready i k) j = slot k j"
  by (auto simp: make_ready_def proc_track_priority_update_def)

lemma the_proc_make_ready [simp]:
  "slot k i \<noteq> None \<Longrightarrow> p_state (the_proc (make_ready i k) i) = READY"
  "slot k i \<noteq> None \<Longrightarrow> p_core (the_proc (make_ready i k) i) = p_core (the_proc k i)"
  by (auto simp: make_ready_def proc_track_priority_update_def the_proc_def)

definition static_of :: "proc \<Rightarrow> nat \<times> int \<times> u32 \<times> task_type \<times> int \<times> nat option" where
  "static_of p = (p_core p, p_pid p, p_uuid p, p_type p, p_father_pid p, p_space p)"

definition statics :: "'a kernel_scheme \<Rightarrow> (nat \<times> int \<times> u32 \<times> task_type \<times> int \<times> nat option) option list" where
  "statics k = map (map_option static_of) (task_table k)"

lemma statics_upd_proc [simp, kframe]:
  assumes "\<And>p. static_of (f p) = static_of p"
  shows "statics (upd_proc i f k) = statics k"
  using assms unfolding statics_def upd_proc_def slot_def
  by (auto intro!: nth_equalityI simp: nth_list_update option.map_comp comp_def)

lemma statics_more [simp]:
  "statics (k\<lparr>priority_update_queue := x1\<rparr>) = statics k"
  "statics (k\<lparr>ready_queue := x2\<rparr>) = statics k"
  "statics (k\<lparr>cpu_cores := x3\<rparr>) = statics k"
  "statics (k\<lparr>ipi_sent := x4\<rparr>) = statics k"
  "statics (k\<lparr>current_proc := x5\<rparr>) = statics k"
  "statics (k\<lparr>active_space := x6\<rparr>) = statics k"
  "statics (k\<lparr>tls_reg := x7\<rparr>) = statics k"
  "statics (k\<lparr>alloc_results := x8\<rparr>) = statics k"
  "statics (k\<lparr>halted := x9\<rparr>) = statics k"
  "statics (k\<lparr>interrupt_timeout_queue := x10\<rparr>) = statics k"
  "statics (k\<lparr>ipc_timeout_queue := x11\<rparr>) = statics k"
  "statics (upd_space s g k) = statics k"
  by (simp_all add: statics_def)

lemma statics_nth: "map_option static_of (slot k i) = (if i < length (statics k) then statics k ! i else None)"
  by (simp add: statics_def slot_def)

text \<open>\<open>present (statics k) i\<close>: slot \<open>i\<close> holds a task. Stated over \<open>statics\<close>, it is carried over every
  operation by the frame equations.\<close>

definition present :: "(nat \<times> int \<times> u32 \<times> task_type \<times> int \<times> nat option) option list \<Rightarrow> nat \<Rightarrow> bool" where
  "present st i \<longleftrightarrow> i < length st \<and> st ! i \<noteq> None"

lemma present_slot: "present (statics k) i \<longleftrightarrow> slot k i \<noteq> None"
  by (auto simp: present_def statics_def slot_def static_of_def)

lemma presentE: "present (statics k) i \<Longrightarrow> (\<And>p. slot k i = Some p \<Longrightarrow> the_proc k i = p \<Longrightarrow> thesis) \<Longrightarrow> thesis"
  by (auto simp: present_slot the_proc_def)

lemma presentI: "slot k i = Some p \<Longrightarrow> present (statics k) i"
  by (simp add: present_slot)

lemma proc_get_present: "proc_get k pid = Some i \<Longrightarrow> present (statics k) i"
  by (auto dest!: proc_get_SomeD intro: presentI)

lemma current_present: "get_current_proc k = Some i \<Longrightarrow> present (statics k) i"
  by (simp add: get_current_proc_alt proc_get_present)

lemma statics_slotD:
  assumes "statics k' = statics k"
  shows "slot k' i = None \<longleftrightarrow> slot k i = None" "length (task_table k') = length (task_table k)"
    "slot k i \<noteq> None \<Longrightarrow> static_of (the_proc k' i) = static_of (the_proc k i)"
proof -
  have e: "map_option static_of (slot k' i) = map_option static_of (slot k i)"
    by (simp add: statics_nth assms)
  then show "slot k' i = None \<longleftrightarrow> slot k i = None" by (metis map_option_is_None)
  show "length (task_table k') = length (task_table k)"
    using arg_cong [OF assms, of length] by (simp add: statics_def)
  show "slot k i \<noteq> None \<Longrightarrow> static_of (the_proc k' i) = static_of (the_proc k i)"
    using e by (auto simp: the_proc_def)
qed

lemma statics_projD:
  assumes "statics k' = statics k" "slot k i \<noteq> None"
  shows "p_core (the_proc k' i) = p_core (the_proc k i)" "p_pid (the_proc k' i) = p_pid (the_proc k i)"
    "p_uuid (the_proc k' i) = p_uuid (the_proc k i)" "p_type (the_proc k' i) = p_type (the_proc k i)"
    "p_father_pid (the_proc k' i) = p_father_pid (the_proc k i)" "p_space (the_proc k' i) = p_space (the_proc k i)"
  using statics_slotD(3) [OF assms] by (simp_all add: static_of_def)

lemma static_simps [simp]:
  "static_of (p\<lparr>p_state := a1\<rparr>) = static_of p"
  "static_of (p\<lparr>p_wait_for := a2\<rparr>) = static_of p"
  "static_of (p\<lparr>p_priority_count := a3\<rparr>) = static_of p"
  "static_of (p\<lparr>p_ipc_res := a4\<rparr>) = static_of p"
  "static_of (p\<lparr>p_wait_item_queued := a5\<rparr>) = static_of p"
  "static_of (p\<lparr>p_ipc_waiting_on := a6\<rparr>) = static_of p"
  "static_of (p\<lparr>p_sleep_counter := a7\<rparr>) = static_of p"
  "static_of (p\<lparr>p_run_usec_counter := a8\<rparr>) = static_of p"
  "static_of (p\<lparr>p_run_last_start_usec := a9\<rparr>) = static_of p"
  "static_of (p\<lparr>p_run_accounting_active := a10\<rparr>) = static_of p"
  "static_of (p\<lparr>p_block_by := a11\<rparr>) = static_of p"
  "static_of (p\<lparr>p_wake_by := a12\<rparr>) = static_of p"
  "static_of (p\<lparr>p_wake_pending := a13\<rparr>) = static_of p"
  "static_of (p\<lparr>p_tls_base := a14\<rparr>) = static_of p"
  "static_of (p\<lparr>p_ctx := a15\<rparr>) = static_of p"
  by (simp_all add: static_of_def)

lemma statics_ready [simp]:
  "statics (proc_track_priority_update i k) = statics k"
  "statics (proc_untrack_priority_update i k) = statics k"
  "statics (set_ready_queue c q k) = statics k"
  "statics (proc_kick_ready_core i k) = statics k"
  "statics (proc_queue_remove_all i k) = statics k"
  "statics (proc_unready_locked i st k) = statics k"
  by (simp_all add: proc_track_priority_update_def proc_untrack_priority_update_def set_ready_queue_def
      proc_kick_ready_core_def proc_queue_remove_all_def proc_unready_locked_def Let_def)

lemma statics_make_ready [simp]: "statics (make_ready i k) = statics k"
  by (simp add: make_ready_def)

lemma statics_ready_with_order [simp]: "statics (proc_ready_with_order i ph k) = statics k"
  by (simp add: proc_ready_with_order_alt Let_def)

lemma statics_ready' [simp]: "statics (proc_ready i k) = statics k"
  by (simp add: proc_ready_def)

lemma statics_account [simp]:
  "statics (proc_account_running_until p k) = statics k"
  "statics (proc_account_switch_out p k) = statics k"
  "statics (proc_account_switch_in p k) = statics k"
  by (simp_all add: proc_account_running_until_def proc_account_switch_out_def proc_account_switch_in_def
      Let_def split: option.split)

lemma statics_account' [simp]:
  "statics (set_current_proc p k) = statics k"
  "statics (proc_account_pause_current k) = statics k"
  "statics (proc_account_resume_current k) = statics k"
  by (simp_all add: set_current_proc_def proc_account_pause_current_def proc_account_resume_current_def
      Let_def split: option.split)

lemma statics_cancel_wait [simp]: "statics (proc_ipc_cancel_wait i k) = statics k"
  by (simp add: proc_ipc_cancel_wait_def Let_def split: option.split)

lemma static_latch [simp]: "static_of (latch_wake t p) = static_of p"
  by (simp add: latch_wake_def)

lemma statics_wake [simp]:
  "statics (proc_wakeup_all_state i k) = statics k"
  "statics (wake_resched i k) = statics k"
  "statics (proc_wakeup_by i t k) = statics k"
  "statics (proc_wakeup i k) = statics k"
  by (simp_all add: proc_wakeup_all_state_def wake_resched_def proc_wakeup_by_def proc_wakeup_def Let_def
      split: option.split)

lemma statics_stack [simp]:
  "statics (snd (take_alloc k)) = statics k"
  "statics (set_thread_stacks i sts k) = statics k"
  "statics (snd (thread_stack_slot i sts k)) = statics k"
  "statics (snd (thread_stack_alloc i k)) = statics k"
  by (simp_all add: take_alloc_def set_thread_stacks_def thread_stack_slot_def thread_stack_alloc_def Let_def
      split: option.split list.split prod.split)

lemma statics_inject [simp]: "statics (inject_context i k) = statics k"
  by (simp add: inject_context_def inject_interrupt_def inject_signal_def inject_ipc_def Let_def case_prod_beta
      split: option.split)


definition pstates :: "'a kernel_scheme \<Rightarrow> pstate option list" where
  "pstates k = map (map_option p_state) (task_table k)"

lemma pstates_upd_proc [simp]:
  assumes "\<And>p. p_state (f p) = p_state p"
  shows "pstates (upd_proc i f k) = pstates k"
  using assms unfolding pstates_def upd_proc_def slot_def
  by (auto intro!: nth_equalityI simp: nth_list_update option.map_comp comp_def)

lemma pstates_more [simp]:
  "pstates (k\<lparr>priority_update_queue := x1\<rparr>) = pstates k"
  "pstates (k\<lparr>ready_queue := x2\<rparr>) = pstates k"
  "pstates (k\<lparr>cpu_cores := x3\<rparr>) = pstates k"
  "pstates (k\<lparr>ipi_sent := x4\<rparr>) = pstates k"
  "pstates (k\<lparr>current_proc := x5\<rparr>) = pstates k"
  "pstates (k\<lparr>active_space := x6\<rparr>) = pstates k"
  "pstates (k\<lparr>tls_reg := x7\<rparr>) = pstates k"
  "pstates (k\<lparr>alloc_results := x8\<rparr>) = pstates k"
  "pstates (k\<lparr>halted := x9\<rparr>) = pstates k"
  "pstates (k\<lparr>interrupt_timeout_queue := x10\<rparr>) = pstates k"
  "pstates (k\<lparr>ipc_timeout_queue := x11\<rparr>) = pstates k"
  "pstates (upd_space s g k) = pstates k"
  by (simp_all add: pstates_def)

lemma pstates_nth: "map_option p_state (slot k i) = (if i < length (pstates k) then pstates k ! i else None)"
  by (simp add: pstates_def slot_def)

text \<open>The operations that neither change a run state nor a ready queue.\<close>

lemma frame_track [simp]:
  "pstates (proc_track_priority_update i k) = pstates k"
  "ready_queue (proc_track_priority_update i k) = ready_queue k"
  "pstates (proc_untrack_priority_update i k) = pstates k"
  "ready_queue (proc_untrack_priority_update i k) = ready_queue k"
  "pstates (proc_kick_ready_core i k) = pstates k"
  "ready_queue (proc_kick_ready_core i k) = ready_queue k"
  "pstates (wake_resched i k) = pstates k"
  "ready_queue (wake_resched i k) = ready_queue k"
  by (simp_all add: proc_track_priority_update_def proc_untrack_priority_update_def
      proc_kick_ready_core_def wake_resched_def Let_def)

lemma frame_account [simp]:
  "pstates (proc_account_running_until p k) = pstates k"
  "ready_queue (proc_account_running_until p k) = ready_queue k"
  "pstates (proc_account_switch_out p k) = pstates k"
  "ready_queue (proc_account_switch_out p k) = ready_queue k"
  "pstates (proc_account_switch_in p k) = pstates k"
  "ready_queue (proc_account_switch_in p k) = ready_queue k"
  by (simp_all add: proc_account_running_until_def proc_account_switch_out_def proc_account_switch_in_def
      Let_def split: option.split)

lemma frame_account' [simp]:
  "pstates (set_current_proc p k) = pstates k"
  "ready_queue (set_current_proc p k) = ready_queue k"
  "pstates (proc_account_pause_current k) = pstates k"
  "ready_queue (proc_account_pause_current k) = ready_queue k"
  "pstates (proc_account_resume_current k) = pstates k"
  "ready_queue (proc_account_resume_current k) = ready_queue k"
  by (simp_all add: set_current_proc_def proc_account_pause_current_def proc_account_resume_current_def
      Let_def split: option.split)

lemma frame_cancel_wait [simp]:
  "pstates (proc_ipc_cancel_wait i k) = pstates k"
  "ready_queue (proc_ipc_cancel_wait i k) = ready_queue k"
  by (simp_all add: proc_ipc_cancel_wait_def Let_def split: option.split)

lemma latch_state [simp]: "p_state (latch_wake t p) = p_state p"
  by (simp add: latch_wake_def)

lemma frame_stack [simp]:
  "pstates (snd (take_alloc k)) = pstates k"
  "ready_queue (snd (take_alloc k)) = ready_queue k"
  "pstates (set_thread_stacks i sts k) = pstates k"
  "ready_queue (set_thread_stacks i sts k) = ready_queue k"
  "pstates (snd (thread_stack_slot i sts k)) = pstates k"
  "ready_queue (snd (thread_stack_slot i sts k)) = ready_queue k"
  "pstates (snd (thread_stack_alloc i k)) = pstates k"
  "ready_queue (snd (thread_stack_alloc i k)) = ready_queue k"
  by (simp_all add: take_alloc_def set_thread_stacks_def thread_stack_slot_def thread_stack_alloc_def Let_def
      split: option.split list.split prod.split)

lemma frame_inject [simp]:
  "pstates (inject_context i k) = pstates k"
  "ready_queue (inject_context i k) = ready_queue k"
  by (simp_all add: inject_context_def inject_interrupt_def inject_signal_def inject_ipc_def Let_def case_prod_beta
      split: option.split)

section \<open>The scheduling invariant\<close>

text \<open>\<open>sched_inv S k\<close>: the invariant with the tasks of \<open>S\<close> excused from being queued, as the operations
  are in between; \<open>sched_ok\<close> is the invariant with nothing excused.\<close>

definition sched_inv :: "nat set \<Rightarrow> 'a kernel_scheme \<Rightarrow> bool" where
  "sched_inv S k \<longleftrightarrow> (\<forall>c. distinct (ready_queue k c) \<and>
       (\<forall>i \<in> set (ready_queue k c). \<exists>p. slot k i = Some p \<and> live_state (p_state p) \<and> p_core p = c)) \<and>
     (\<forall>i p. slot k i = Some p \<longrightarrow> p_state p = READY \<longrightarrow> i \<notin> S \<longrightarrow> i \<in> set (ready_queue k (p_core p)))"

definition sched_ok :: "'a kernel_scheme \<Rightarrow> bool" where
  "sched_ok k = sched_inv {} k"

lemma sched_invI:
  assumes "\<And>c. distinct (ready_queue k c)"
    and "\<And>c i. i \<in> set (ready_queue k c) \<Longrightarrow> \<exists>p. slot k i = Some p \<and> live_state (p_state p) \<and> p_core p = c"
    and "\<And>i p. slot k i = Some p \<Longrightarrow> p_state p = READY \<Longrightarrow> i \<notin> S \<Longrightarrow> i \<in> set (ready_queue k (p_core p))"
  shows "sched_inv S k"
  unfolding sched_inv_def by (intro conjI allI ballI impI; fact assms)

lemma sched_invD:
  assumes "sched_inv S k"
  shows "distinct (ready_queue k c)"
    and "i \<in> set (ready_queue k c) \<Longrightarrow> \<exists>p. slot k i = Some p \<and> live_state (p_state p) \<and> p_core p = c"
    and "slot k i = Some p \<Longrightarrow> p_state p = READY \<Longrightarrow> i \<notin> S \<Longrightarrow> p_core p = c \<Longrightarrow> i \<in> set (ready_queue k c)"
  using assms unfolding sched_inv_def by blast+

lemma sched_inv_mono: "sched_inv S k \<Longrightarrow> S \<subseteq> T \<Longrightarrow> sched_inv T k"
  by (rule sched_invI) (auto dest: sched_invD)

lemma slot_frame_eq:
  assumes "statics k' = statics k" "pstates k' = pstates k"
  shows "map_option (\<lambda>p. (p_core p, p_state p)) (slot k' i) = map_option (\<lambda>p. (p_core p, p_state p)) (slot k i)"
proof -
  have "map_option static_of (slot k' i) = map_option static_of (slot k i)"
    "map_option p_state (slot k' i) = map_option p_state (slot k i)"
    by (simp_all add: statics_nth pstates_nth assms)
  then show ?thesis by (cases "slot k' i"; cases "slot k i") (auto simp: static_of_def)
qed

lemma sched_inv_frame:
  assumes "statics k' = statics k" "pstates k' = pstates k" "ready_queue k' = ready_queue k"
    and "sched_inv S k"
  shows "sched_inv S k'"
proof -
  have e: "\<exists>p. slot k i = Some p \<and> p_core p = p_core q \<and> p_state p = p_state q" if "slot k' i = Some q" for i q
    using slot_frame_eq [OF assms(1,2), of i] that by (cases "slot k i") auto
  have e': "\<exists>p. slot k' i = Some p \<and> p_core p = p_core q \<and> p_state p = p_state q" if "slot k i = Some q" for i q
    using slot_frame_eq [OF assms(1,2), of i] that by (cases "slot k' i") auto
  have 1: "\<exists>p. slot k' i = Some p \<and> live_state (p_state p) \<and> p_core p = c" if "i \<in> set (ready_queue k c)" for i c
    using assms(4) that e' unfolding sched_inv_def by metis
  have 2: "i \<in> set (ready_queue k (p_core p))" if "slot k' i = Some p" "p_state p = READY" "i \<notin> S" for i p
    using assms(4) that e unfolding sched_inv_def by metis
  from 1 2 assms(4) show ?thesis unfolding sched_inv_def assms(3) by blast
qed

lemma sched_inv_upd_proc:
  assumes "sched_inv T k" "\<And>p. slot k i = Some p \<Longrightarrow> p_core (f p) = p_core p"
    "\<And>p. slot k i = Some p \<Longrightarrow> live_state (p_state p) \<Longrightarrow> live_state (p_state (f p))"
    "\<And>p. slot k i = Some p \<Longrightarrow> p_state (f p) = READY \<Longrightarrow> i \<in> S \<or> i \<notin> T \<and> p_state p = READY"
    "T \<subseteq> insert i S"
  shows "sched_inv S (upd_proc i f k)"
proof -
  have 1: "\<exists>p. slot (upd_proc i f k) j = Some p \<and> live_state (p_state p) \<and> p_core p = c"
    if "j \<in> set (ready_queue k c)" for j c
    using sched_invD(2) [OF assms(1) that] assms(2,3) by (cases "j = i") auto
  have 2: "j \<in> set (ready_queue k (p_core q))"
    if q: "slot (upd_proc i f k) j = Some q" "p_state q = READY" "j \<notin> S" for j q
  proof (cases "j = i")
    case True
    with q(1) obtain p where p: "slot k i = Some p" "q = f p" by auto
    with q True assms(4) [OF p(1)] have "i \<notin> T" "p_state p = READY" by auto
    with sched_invD(3) [OF assms(1) p(1)] p q True assms(2) show ?thesis by simp
  next
    case False
    with q assms(5) sched_invD(3) [OF assms(1)] show ?thesis by auto
  qed
  from 1 2 sched_invD(1) [OF assms(1)] show ?thesis by (auto intro!: sched_invI)
qed

lemma sched_inv_set_queue:
  assumes "sched_inv T k" "distinct q"
    "\<And>i. i \<in> set q \<Longrightarrow> \<exists>p. slot k i = Some p \<and> live_state (p_state p) \<and> p_core p = c"
    "\<And>i p. slot k i = Some p \<Longrightarrow> p_core p = c \<Longrightarrow> p_state p = READY \<Longrightarrow> i \<notin> S \<Longrightarrow> i \<in> set q"
    "\<And>i p. slot k i = Some p \<Longrightarrow> p_core p \<noteq> c \<Longrightarrow> i \<in> T \<Longrightarrow> i \<in> S"
  shows "sched_inv S (set_ready_queue c q k)"
proof (rule sched_invI)
  show "distinct (ready_queue (set_ready_queue c q k) c')" for c'
    using assms(2) sched_invD(1) [OF assms(1)] by (simp add: set_ready_queue_def)
  show "\<exists>p. slot (set_ready_queue c q k) i = Some p \<and> live_state (p_state p) \<and> p_core p = c'"
    if "i \<in> set (ready_queue (set_ready_queue c q k) c')" for c' i
    using that assms(3) sched_invD(2) [OF assms(1)] by (auto simp: set_ready_queue_def split: if_splits)
  show "i \<in> set (ready_queue (set_ready_queue c q k) (p_core p))"
    if "slot (set_ready_queue c q k) i = Some p" "p_state p = READY" "i \<notin> S" for i p
    using that assms(4,5) sched_invD(3) [OF assms(1), of i p "p_core p"] by (auto simp: set_ready_queue_def)
qed

lemma slot_set_ready_queue [simp]: "slot (set_ready_queue c q k) i = slot k i"
  by (simp add: set_ready_queue_def)

lemma sched_inv_remove_all:
  assumes "sched_inv S k"
  shows "sched_inv (insert i S) (proc_queue_remove_all i k)"
  unfolding proc_queue_remove_all_def Let_def
  by (rule sched_inv_set_queue [OF assms])
    (use sched_invD [OF assms] in auto)

lemma frame_remove_all [simp]:
  "slot (proc_queue_remove_all i k) j = slot k j"
  "the_proc (proc_queue_remove_all i k) j = the_proc k j"
  by (simp_all add: proc_queue_remove_all_def set_ready_queue_def Let_def)

lemma sched_inv_kick [simp]: "sched_inv S k \<Longrightarrow> sched_inv S (proc_kick_ready_core i k)"
  by (rule sched_inv_frame) auto

lemma sched_inv_untrack [simp]: "sched_inv S k \<Longrightarrow> sched_inv S (proc_untrack_priority_update i k)"
  by (rule sched_inv_frame) auto

lemma sched_inv_make_ready: "sched_inv S k \<Longrightarrow> sched_inv (insert i S) (make_ready i k)"
  unfolding make_ready_def
  by (rule sched_inv_frame [OF _ _ _ sched_inv_upd_proc [of S k i "\<lambda>p. p\<lparr>p_state := READY\<rparr>" "insert i S"]])
    auto

lemma sched_inv_ready_with_order:
  assumes inv: "sched_inv S k" and i: "present (statics k) i"
  shows "sched_inv (S - {i}) (proc_ready_with_order i ph k)"
proof -
  note inv1 = sched_inv_make_ready [OF inv, of i]
  define c where "c = p_core (the_proc (make_ready i k) i)"
  have rp: "\<exists>p. slot (make_ready i k) i = Some p \<and> live_state (p_state p) \<and> p_core p = c"
    using i the_proc_make_ready(1) [of k i]
    by (cases "slot (make_ready i k) i") (auto simp: c_def present_slot the_proc_def)
  have "sched_inv (S - {i}) (set_ready_queue c (ready_order i ph (ready_queue (make_ready i k) c)) (make_ready i k))"
  proof (rule sched_inv_set_queue [OF inv1])
    show "j \<in> set (ready_order i ph (ready_queue (make_ready i k) c))"
      if "slot (make_ready i k) j = Some p" "p_core p = c" "p_state p = READY" "j \<notin> S - {i}" for j p
      using sched_invD(3) [OF inv1 that(1,3) _ that(2)] that(4) by auto
  qed (use sched_invD(1,2) [OF inv1] rp in \<open>auto simp: c_def\<close>)
  then show ?thesis
    unfolding proc_ready_with_order_alt Let_def c_def by (rule sched_inv_kick)
qed

lemma sched_inv_ready:
  "sched_inv S k \<Longrightarrow> present (statics k) i \<Longrightarrow> sched_inv (S - {i}) (proc_ready i k)"
  unfolding proc_ready_def by (rule sched_inv_ready_with_order)

lemma sched_inv_unready:
  assumes "sched_inv S k" "st \<noteq> READY" "live_state st"
  shows "sched_inv (S - {i}) (proc_unready_locked i st k)"
  unfolding proc_unready_locked_def Let_def
  by (rule sched_inv_upd_proc [OF sched_inv_untrack [OF sched_inv_remove_all [OF assms(1)]]])
    (use assms in auto)

lemma sched_inv_upd_space [simp]: "sched_inv S (upd_space s g k) = sched_inv S k"
  by (simp add: sched_inv_def)

lemma sched_inv_wakeup_all_state:
  assumes "sched_inv S k" "present (statics k) i"
  shows "sched_inv S (proc_wakeup_all_state i k)"
proof -
  from sched_inv_ready_with_order [OF assms] have "sched_inv S (proc_ready_with_order i ph k)" for ph
    by (rule sched_inv_mono) auto
  with assms show ?thesis by (simp add: proc_wakeup_all_state_def Let_def split: option.split)
qed

lemma sched_inv_cancel_wait: "sched_inv S k \<Longrightarrow> sched_inv S (proc_ipc_cancel_wait i k)"
  by (rule sched_inv_frame) auto

lemma sched_inv_resched: "sched_inv S k \<Longrightarrow> sched_inv S (wake_resched i k)"
  by (rule sched_inv_frame) auto

lemma sched_inv_upd_frame:
  "sched_inv S k \<Longrightarrow> (\<And>p. static_of (f p) = static_of p) \<Longrightarrow> (\<And>p. p_state (f p) = p_state p) \<Longrightarrow>
     sched_inv S (upd_proc i f k)"
  by (rule sched_inv_frame) auto

lemma sched_inv_wakeup_by:
  assumes "sched_inv S k" "present (statics k) i"
  shows "sched_inv S (proc_wakeup_by i token k)"
  using assms unfolding proc_wakeup_by_def Let_def
  by (auto intro!: sched_inv_resched sched_inv_wakeup_all_state sched_inv_upd_frame sched_inv_cancel_wait)

lemma sched_inv_wakeup: "sched_inv S k \<Longrightarrow> present (statics k) i \<Longrightarrow> sched_inv S (proc_wakeup i k)"
  unfolding proc_wakeup_def by (rule sched_inv_wakeup_by)

lemma sched_inv_wakeup_waiting_at: "sched_inv S k \<Longrightarrow> sched_inv S (proc_wakeup_waiting_at pid i k)"
  unfolding proc_wakeup_waiting_at_def
  by (auto split: option.split intro!: sched_inv_mono [OF sched_inv_ready] sched_inv_upd_frame intro: presentI)

lemma sched_inv_wakeup_waiting: "sched_inv S k \<Longrightarrow> sched_inv S (proc_wakeup_waiting pid k)"
  unfolding proc_wakeup_waiting_def
  by (rule fold_invariant [where Q = "\<lambda>_. True"]) (auto intro: sched_inv_wakeup_waiting_at)

lemma pop_ready_spec:
  "pop_ready k q = (r, q') \<Longrightarrow> \<exists>d. q = d @ (case r of None \<Rightarrow> [] | Some i \<Rightarrow> [i]) @ q' \<and>
     (\<forall>j \<in> set d. p_state (the_proc k j) \<noteq> READY) \<and> (r = None \<longrightarrow> q' = []) \<and>
     (\<forall>i. r = Some i \<longrightarrow> p_state (the_proc k i) = READY \<or> p_state (the_proc k i) = RUNNING)"
proof (induction k q arbitrary: r q' rule: pop_ready.induct)
  case (2 k i q)
  show ?case
  proof (cases "p_state (the_proc k i) \<noteq> READY \<and> p_state (the_proc k i) \<noteq> RUNNING")
    case True
    with 2 obtain d where "q = d @ (case r of None \<Rightarrow> [] | Some i \<Rightarrow> [i]) @ q'"
      "\<forall>j \<in> set d. p_state (the_proc k j) \<noteq> READY" "r = None \<longrightarrow> q' = []"
      "\<forall>i. r = Some i \<longrightarrow> p_state (the_proc k i) = READY \<or> p_state (the_proc k i) = RUNNING" by auto
    with True show ?thesis by (intro exI [of _ "i # d"]) auto
  next
    case False
    with 2(2) show ?thesis by (intro exI [of _ "[]"]) auto
  qed
qed simp

lemma sched_inv_get_next:
  assumes inv: "sched_inv S k" and g: "proc_get_next_ready k = (r, k')"
  shows "sched_inv (S \<union> set_option r) k'" "task_table k' = task_table k"
    "r = Some i \<Longrightarrow> present (statics k) i \<and> live_state (p_state (the_proc k i))"
proof -
  obtain nxt q where pop: "pop_ready k (ready_queue k (core_id k)) = (nxt, q)" by fastforce
  obtain d where d: "ready_queue k (core_id k) = d @ (case nxt of None \<Rightarrow> [] | Some i \<Rightarrow> [i]) @ q"
    "\<forall>j \<in> set d. p_state (the_proc k j) \<noteq> READY" "nxt = None \<longrightarrow> q = []"
    using pop_ready_spec [OF pop] by blast
  have k': "k' = set_ready_queue (core_id k) q k" and r: "nxt \<noteq> None \<longrightarrow> r = nxt"
    using g pop by (auto simp: proc_get_next_ready_def Let_def split: option.splits)
  show "task_table k' = task_table k" by (simp add: k' set_ready_queue_def)
  have dq: "distinct (ready_queue k (core_id k))" by (rule sched_invD(1) [OF inv])
  show "sched_inv (S \<union> set_option r) k'"
    unfolding k'
  proof (rule sched_inv_set_queue [OF inv])
    show "distinct q" using dq d(1) by simp
    show "\<exists>p. slot k i = Some p \<and> live_state (p_state p) \<and> p_core p = core_id k" if "i \<in> set q" for i
      using sched_invD(2) [OF inv, of i "core_id k"] that d(1) by simp
    show "i \<in> set q" if "slot k i = Some p" "p_core p = core_id k" "p_state p = READY" "i \<notin> S \<union> set_option r" for i p
    proof -
      have "i \<in> set (ready_queue k (core_id k))"
        using sched_invD(3) [OF inv that(1,3) _ that(2)] that(4) by simp
      moreover have "i \<notin> set d" using d(2) that(1,3) by (auto simp: the_proc_def)
      ultimately show ?thesis using d(1,3) r that(4) by (cases nxt) auto
    qed
  qed auto
  show "r = Some i \<Longrightarrow> present (statics k) i \<and> live_state (p_state (the_proc k i))"
  proof (cases nxt)
    case (Some j)
    then show "r = Some i \<Longrightarrow> present (statics k) i \<and> live_state (p_state (the_proc k i))"
      using r sched_invD(2) [OF inv, of i "core_id k"] d(1) by (auto simp: the_proc_def present_slot)
  next
    case None
    assume "r = Some i"
    with None g pop have "get_current_proc (set_ready_queue (core_id k) q k) = Some i"
      by (auto simp: proc_get_next_ready_def Let_def split: option.splits if_splits)
    then show "present (statics k) i \<and> live_state (p_state (the_proc k i))"
      by (auto simp: get_current_proc_alt the_proc_def present_slot dest!: proc_get_SomeD)
  qed
qed


lemma the_proc_set_ready_queue [simp]: "the_proc (set_ready_queue c q k) i = the_proc k i"
  by (simp add: the_proc_def)

lemma sched_inv_save_ctx:
  "sched_inv S k \<Longrightarrow> sched_inv S (snd (switch_save_ctx c ctx k))"
  by (rule sched_inv_frame) (auto simp: switch_save_ctx_def Let_def split: option.split)

lemma statics_switch [simp]:
  "statics (snd (switch_save_ctx c ctx k)) = statics k"
  "statics (switch_activate c t k) = statics k"
  "statics (switch_requeue c t quick k) = statics k"
  by (auto simp: switch_save_ctx_def switch_activate_def switch_requeue_def Let_def split: option.split)

lemma frame_switch [simp]:
  "pstates (snd (switch_save_ctx c ctx k)) = pstates k"
  "pstates (switch_activate c t k) = pstates k"
  "ready_queue (snd (switch_save_ctx c ctx k)) = ready_queue k"
  "ready_queue (switch_activate c t k) = ready_queue k"
  by (auto simp: switch_save_ctx_def switch_activate_def Let_def split: option.split)

lemma sched_inv_requeue:
  assumes "sched_inv S k" "\<And>i. c = Some i \<Longrightarrow> present (statics k) i"
  shows "sched_inv S (switch_requeue c to quick k)"
proof (cases c)
  case (Some i)
  define k1 where "k1 = upd_proc i (\<lambda>p. p\<lparr>p_state := READY\<rparr>) (proc_queue_remove_all i k)"
  have inv1: "sched_inv (insert i S) k1"
    unfolding k1_def by (rule sched_inv_upd_proc [OF sched_inv_remove_all [OF assms(1)]]) auto
  have pr: "present (statics k1) i" using assms(2) Some by (simp add: k1_def)
  have co: "p_core (the_proc k1 i) = p_core (the_proc k i)" and st: "p_state (the_proc k1 i) = READY"
    using assms(2) [OF Some] by (auto simp: k1_def present_slot)
  have ni: "i \<notin> set (ready_queue k1 (p_core (the_proc k i)))"
    by (simp add: k1_def proc_queue_remove_all_def set_ready_queue_def Let_def)
  have "sched_inv S (set_ready_queue (p_core (the_proc k1 i)) q k1)"
    if "distinct q" "set q = insert i (set (ready_queue k1 (p_core (the_proc k1 i))))" for q
  proof (rule sched_inv_set_queue [OF inv1 that(1)])
    show "j \<in> set q" if "slot k1 j = Some p" "p_core p = p_core (the_proc k1 i)" "p_state p = READY" "j \<notin> S" for j p
      using sched_invD(3) [OF inv1 that(1,3) _ that(2)] that(4) \<open>set q = _\<close> by auto
  qed (use that(2) sched_invD(2) [OF inv1] pr st in \<open>auto elim!: presentE\<close>)
  from this [of "i # ready_queue k1 (p_core (the_proc k1 i))"] this [of "ready_queue k1 (p_core (the_proc k1 i)) @ [i]"]
  show ?thesis using assms(1) ni sched_invD(1) [OF inv1] co Some
    by (auto simp: switch_requeue_def Let_def k1_def [symmetric])
qed (use assms in \<open>simp add: switch_requeue_def\<close>)

lemma sched_inv_switch:
  assumes "sched_inv (insert to S) k" "present (statics k) to"
  shows "sched_inv (S - {to}) (snd (proc_switch ctx to quick k))"
    and "statics (snd (proc_switch ctx to quick k)) = statics k"
proof -
  obtain ctx1 k1 where k1: "switch_save_ctx (get_current_proc k) ctx (proc_queue_remove_all to k) = (ctx1, k1)"
    by fastforce
  define k2 where "k2 = switch_requeue (get_current_proc k) to quick (inject_context to (switch_activate (get_current_proc k) to k1))"
  have st1: "statics k1 = statics k" using statics_switch(1) [of "get_current_proc k" ctx "proc_queue_remove_all to k"]
    by (simp add: k1)
  have "sched_inv (insert to S) k1"
    using sched_inv_save_ctx [OF sched_inv_remove_all [OF assms(1), of to], of "get_current_proc k" ctx]
    by (simp add: k1)
  then have "sched_inv (insert to S) (inject_context to (switch_activate (get_current_proc k) to k1))"
    by (rule sched_inv_frame [rotated 3]) auto
  then have inv2: "sched_inv (insert to S) k2"
    unfolding k2_def by (rule sched_inv_requeue) (auto simp: st1 dest: current_present)
  have st2: "statics k2 = statics k" by (simp add: k2_def st1)
  define k3 where "k3 = upd_proc to (\<lambda>p. p\<lparr>p_state := RUNNING\<rparr>) k2"
  have inv3: "sched_inv (S - {to}) k3"
    unfolding k3_def by (rule sched_inv_upd_proc [OF inv2]) auto
  have "statics (snd (proc_switch ctx to quick k)) = statics k3 \<and> pstates (snd (proc_switch ctx to quick k)) = pstates k3
    \<and> ready_queue (snd (proc_switch ctx to quick k)) = ready_queue k3"
    by (simp add: proc_switch_def k1 k2_def k3_def Let_def split: option.split)
  then show "sched_inv (S - {to}) (snd (proc_switch ctx to quick k))"
    "statics (snd (proc_switch ctx to quick k)) = statics k"
    using sched_inv_frame [OF _ _ _ inv3] st2 by (auto simp: k3_def)
qed


lemma sched_ok_D: "sched_ok k \<Longrightarrow> sched_inv S k"
  unfolding sched_ok_def by (rule sched_inv_mono) auto

text \<open>The idle tasks of the cores; no scheduler operation replaces them.\<close>

definition idles :: "'a kernel_scheme \<Rightarrow> nat \<Rightarrow> nat option" where
  "idles k = (\<lambda>c. cc_idle_proc (cpu_cores k c))"

lemma idles_cong: "cpu_cores k' = cpu_cores k \<Longrightarrow> idles k' = idles k"
  by (simp add: idles_def)

lemma idles_more [simp]:
  "idles (k\<lparr>priority_update_queue := x1\<rparr>) = idles k"
  "idles (k\<lparr>ready_queue := x2\<rparr>) = idles k"
  "idles (k\<lparr>ipi_sent := x4\<rparr>) = idles k"
  "idles (k\<lparr>current_proc := x5\<rparr>) = idles k"
  "idles (k\<lparr>active_space := x6\<rparr>) = idles k"
  "idles (k\<lparr>tls_reg := x7\<rparr>) = idles k"
  "idles (k\<lparr>alloc_results := x8\<rparr>) = idles k"
  "idles (k\<lparr>halted := x9\<rparr>) = idles k"
  "idles (upd_space s g k) = idles k"
  "idles (upd_proc i f k) = idles k"
  "idles (set_ready_queue c q k) = idles k"
  by (simp_all add: idles_def set_ready_queue_def)

lemma idles_ready [simp]:
  "idles (proc_track_priority_update i k) = idles k"
  "idles (proc_untrack_priority_update i k) = idles k"
  "idles (proc_kick_ready_core i k) = idles k"
  "idles (wake_resched i k) = idles k"
  "idles (proc_queue_remove_all i k) = idles k"
  "idles (proc_unready_locked i st k) = idles k"
  by (simp_all add: proc_track_priority_update_def proc_untrack_priority_update_def proc_kick_ready_core_def
      wake_resched_def proc_queue_remove_all_def proc_unready_locked_def Let_def)
    (auto simp: idles_def)

lemma idles_ready_with_order [simp]: "idles (proc_ready_with_order i ph k) = idles k"
  by (simp add: proc_ready_with_order_def Let_def)

lemma idles_account [simp]:
  "idles (proc_account_running_until p k) = idles k"
  "idles (proc_account_switch_out p k) = idles k"
  "idles (proc_account_switch_in p k) = idles k"
  by (simp_all add: proc_account_running_until_def proc_account_switch_out_def proc_account_switch_in_def
      Let_def split: option.split)

lemma idles_account' [simp]:
  "idles (set_current_proc p k) = idles k"
  "idles (proc_account_pause_current k) = idles k"
  "idles (proc_account_resume_current k) = idles k"
  by (simp_all add: set_current_proc_def proc_account_pause_current_def proc_account_resume_current_def
      Let_def split: option.split)

lemma idles_stack [simp]:
  "idles (snd (take_alloc k)) = idles k"
  "idles (set_thread_stacks i sts k) = idles k"
  "idles (snd (thread_stack_slot i sts k)) = idles k"
  "idles (snd (thread_stack_alloc i k)) = idles k"
  by (simp_all add: take_alloc_def set_thread_stacks_def thread_stack_slot_def thread_stack_alloc_def Let_def
      split: option.split list.split prod.split)

lemma idles_switch [simp]:
  "idles (inject_context i k) = idles k"
  "idles (snd (switch_save_ctx c ctx k)) = idles k"
  "idles (switch_activate c t k) = idles k"
  "idles (switch_requeue c t quick k) = idles k"
  by (simp_all add: inject_context_def inject_interrupt_def inject_signal_def inject_ipc_def case_prod_beta
      switch_save_ctx_def switch_activate_def switch_requeue_def Let_def split: option.split)

lemma idles_proc_switch [simp]: "idles (snd (proc_switch ctx to quick k)) = idles k"
  by (simp add: proc_switch_def Let_def case_prod_beta split: option.split)

lemma idles_wake [simp]:
  "idles (proc_ipc_cancel_wait i k) = idles k"
  "idles (proc_wakeup_all_state i k) = idles k"
  "idles (proc_wakeup_by i t k) = idles k"
  "idles (proc_wakeup i k) = idles k"
  by (simp_all add: proc_ipc_cancel_wait_def proc_wakeup_all_state_def proc_wakeup_by_def proc_wakeup_def Let_def
      split: option.split)

lemma idles_schedule [simp]: "idles (snd (schedule ctx k)) = idles k"
  by (simp add: schedule_def proc_get_next_ready_def Let_def case_prod_beta split: option.split)

definition idle_ok :: "'a kernel_scheme \<Rightarrow> bool" where
  "idle_ok k \<longleftrightarrow> (\<forall>c d. idles k c = Some d \<longrightarrow> present (statics k) d)"

lemma idle_ok_frame: "idles k' = idles k \<Longrightarrow> statics k' = statics k \<Longrightarrow> idle_ok k \<Longrightarrow> idle_ok k'"
  by (simp add: idle_ok_def)

lemma sched_inv_schedule:
  assumes ok: "sched_inv {} k" and idle: "idle_ok k"
  shows "sched_ok (snd (schedule ctx k)) \<and> statics (snd (schedule ctx k)) = statics k"
proof -
  define d where "d = cc_idle_proc (cpu_cores k (core_id k))"
  define k1 where "k1 = (case d of None \<Rightarrow> k | Some d \<Rightarrow> upd_proc d (\<lambda>p. p\<lparr>p_state := WAIT, p_wait_for := 0\<rparr>) k)"
  have inv1: "sched_inv {} k1"
    using ok unfolding k1_def by (auto split: option.split intro!: sched_inv_upd_proc [OF ok])
  have st1: "statics k1 = statics k" by (simp add: k1_def split: option.split)
  obtain r k2 where g: "proc_get_next_ready k1 = (r, k2)" by fastforce
  note gn = sched_inv_get_next [OF inv1 g]
  have st2: "statics k2 = statics k" using gn(2) st1 by (simp add: statics_def)
  have sw: "sched_ok (snd (proc_switch ctx n False (upd_proc n (\<lambda>p. p\<lparr>p_state := RUNNING\<rparr>) k2))) \<and>
      statics (snd (proc_switch ctx n False (upd_proc n (\<lambda>p. p\<lparr>p_state := RUNNING\<rparr>) k2))) = statics k"
    if n: "present (statics k) n" "r = None \<or> r = Some n" for n
  proof -
    have "sched_inv {n} k2" by (rule sched_inv_mono [OF gn(1)]) (use n(2) in auto)
    then have "sched_inv {n} (upd_proc n (\<lambda>p. p\<lparr>p_state := RUNNING\<rparr>) k2)"
      by (rule sched_inv_upd_proc) auto
    from sched_inv_switch [of n "{}", OF this] n st2 show ?thesis by (auto simp: sched_ok_def)
  qed
  have sch: "schedule ctx k = (case (if r = None then d else r) of
      Some n \<Rightarrow> proc_switch ctx n False (upd_proc n (\<lambda>p. p\<lparr>p_state := RUNNING\<rparr>) k2)
    | None \<Rightarrow> (ctx, k2\<lparr>halted := True\<rparr>))"
    using g by (cases d; cases r) (simp_all add: schedule_def d_def [symmetric] k1_def Let_def)
  show ?thesis
  proof (cases r)
    case (Some n)
    then show ?thesis using sw [of n] gn(3) [of n] st1 by (simp add: sch)
  next
    case None
    from gn(1) None have "sched_inv {} k2" by simp
    then have halt: "sched_ok (k2\<lparr>halted := True\<rparr>)"
      unfolding sched_ok_def by (rule sched_inv_frame [rotated 3]) auto
    with None show ?thesis
      using sw idle st2 by (cases d) (auto simp: sch idle_ok_def idles_def d_def)
  qed
qed

text \<open>Invariant and idle tasks together: what the operations of the scheduler keep.\<close>

definition sched_good :: "'a kernel_scheme \<Rightarrow> bool" where
  "sched_good k \<longleftrightarrow> sched_inv {} k \<and> idle_ok k"

lemma sched_goodI: "sched_inv {} k' \<Longrightarrow> statics k' = statics k \<Longrightarrow> idles k' = idles k \<Longrightarrow> sched_good k \<Longrightarrow> sched_good k'"
  by (simp add: sched_good_def idle_ok_def)

lemma sched_good_frame:
  "sched_good k \<Longrightarrow> statics k' = statics k \<Longrightarrow> pstates k' = pstates k \<Longrightarrow> ready_queue k' = ready_queue k \<Longrightarrow>
     idles k' = idles k \<Longrightarrow> sched_good k'"
  unfolding sched_good_def by (auto intro: sched_inv_frame idle_ok_frame)

lemma sched_good_schedule: "sched_good k \<Longrightarrow> sched_good (snd (schedule ctx k))"
  using sched_inv_schedule [of k ctx] by (simp add: sched_good_def sched_ok_def idle_ok_def)

lemma statics_schedule: "sched_good k \<Longrightarrow> statics (snd (schedule ctx k)) = statics k"
  using sched_inv_schedule [of k ctx] by (simp add: sched_good_def)

lemma sched_good_pause:
  "sched_good k \<Longrightarrow> sched_good (proc_account_pause_current k)"
  "sched_good k \<Longrightarrow> sched_good (proc_account_resume_current k)"
  by (erule sched_good_frame; simp)+

lemma sched_good_upd_state:
  assumes "sched_good k" "\<And>p. static_of (f p) = static_of p"
    "\<And>p. p_state (f p) = p_state p \<or> p_state (f p) \<noteq> READY \<and> live_state (p_state (f p))"
  shows "sched_good (upd_proc i f k)"
proof (rule sched_goodI [OF _ _ _ assms(1)])
  have "p_core (f p) = p_core p" for p using assms(2) [of p] by (simp add: static_of_def)
  moreover have "p_state (f p) = READY \<Longrightarrow> p_state p = READY"
    "live_state (p_state p) \<Longrightarrow> live_state (p_state (f p))" for p using assms(3) [of p] by auto
  ultimately show "sched_inv {} (upd_proc i f k)"
    using assms(1) by (intro sched_inv_upd_proc [of "{}"]) (auto simp: sched_good_def)
qed (use assms in auto)

lemma sched_good_unready:
  "sched_good k \<Longrightarrow> st \<noteq> READY \<Longrightarrow> live_state st \<Longrightarrow> sched_good (proc_unready_locked i st k)"
  by (rule sched_goodI) (use sched_inv_unready [of "{}" k st i] in \<open>auto simp: sched_good_def\<close>)

lemma sched_good_ready_with_order:
  "sched_good k \<Longrightarrow> present (statics k) i \<Longrightarrow> sched_good (proc_ready_with_order i ph k)"
  by (rule sched_goodI) (use sched_inv_ready_with_order [of "{}" k i ph] in \<open>auto simp: sched_good_def\<close>)

lemma sched_good_ready: "sched_good k \<Longrightarrow> present (statics k) i \<Longrightarrow> sched_good (proc_ready i k)"
  unfolding proc_ready_def by (rule sched_good_ready_with_order)

lemma sched_good_kick: "sched_good k \<Longrightarrow> sched_good (proc_kick_ready_core i k)"
  by (erule sched_good_frame; simp)

lemma sched_good_wakeup_by:
  "sched_good k \<Longrightarrow> present (statics k) i \<Longrightarrow> sched_good (proc_wakeup_by i t k)"
  by (rule sched_goodI) (use sched_inv_wakeup_by [of "{}" k i t] in \<open>auto simp: sched_good_def\<close>)

lemma static_block_run_now [simp]:
  "static_of (snd (block_run_now any_ok t p)) = static_of p"
  "p_state (snd (block_run_now any_ok t p)) = p_state p"
  by (simp_all add: block_run_now_def Let_def)

lemma sched_good_block:
  assumes "sched_good k" "present (statics k) i"
  shows "sched_good (snd (proc_block_common any_ok sl ctx i t k))"
proof -
  obtain r p where r: "block_run_now any_ok t (the_proc k i) = (r, p)" by fastforce
  have p: "static_of p = static_of (the_proc k i)" "p_state p = p_state (the_proc k i)"
    using static_block_run_now [of any_ok t "the_proc k i"] by (simp_all add: r)
  have good1: "sched_good (upd_proc i (\<lambda>_. p) k)"
  proof -
    from assms(2) have "upd_proc i (\<lambda>_. p) k = upd_proc i (\<lambda>q. if q = the_proc k i then p else q) k"
      by (auto simp: upd_proc_def elim!: presentE)
    moreover have "sched_good (upd_proc i (\<lambda>q. if q = the_proc k i then p else q) k)"
      by (rule sched_good_upd_state [OF assms(1)]) (auto simp: p)
    ultimately show ?thesis by simp
  qed
  define k1 where "k1 = proc_unready_locked i BLOCK (upd_proc i (\<lambda>p. p\<lparr>p_block_by := t, p_sleep_counter := sl\<rparr>) (upd_proc i (\<lambda>_. p) k))"
  have "sched_good k1" unfolding k1_def
    by (intro sched_good_unready sched_good_upd_state good1) auto
  then have good2: "sched_good (if get_current_proc k1 = Some i then proc_account_pause_current k1 else k1)"
    by (simp add: sched_good_pause)
  obtain ctx3 k3 where k3: "schedule ctx (if get_current_proc k1 = Some i then proc_account_pause_current k1 else k1) = (ctx3, k3)"
    by fastforce
  have block: "sched_good k3" "sched_good (proc_account_resume_current k3)"
    using sched_good_schedule [OF good2, of ctx] by (simp_all add: k3 sched_good_pause)
  have "sched_good (upd_proc i (\<lambda>p. p\<lparr>p_state := (if p_state p = READY then RUNNING else p_state p), p_block_by := 0\<rparr>)
    (upd_proc i (\<lambda>_. p) k))"
    by (rule sched_good_upd_state [OF good1]) auto
  then show ?thesis
    using block by (simp add: proc_block_common_def r Let_def k1_def [symmetric] k3 cong: if_cong)
qed

lemma sched_good_usleep: "sched_good k \<Longrightarrow> sched_good (snd (proc_usleep ctx n k))"
  unfolding proc_usleep_def Let_def
  by (auto simp: case_prod_beta split: option.split
      intro!: sched_good_pause sched_good_schedule sched_good_unready sched_good_upd_state)

lemma sched_good_renew_sleep_at: "sched_good (snd rk) \<Longrightarrow> sched_good (snd (renew_sleep_at us i rk))"
  unfolding renew_sleep_at_def Let_def
  by (auto simp: case_prod_beta split: option.split
      intro!: sched_good_kick sched_good_ready sched_good_upd_state intro: presentI)

lemma sched_good_renew_sleep: "sched_good k \<Longrightarrow> sched_good (snd (renew_sleep_counter us k))"
  unfolding renew_sleep_counter_def
  by (rule fold_invariant [where Q = "\<lambda>_. True" and P = "\<lambda>rk. sched_good (snd rk)"])
    (auto intro: sched_good_renew_sleep_at)

lemma sched_good_switch:
  "sched_good k \<Longrightarrow> present (statics k) to \<Longrightarrow> sched_good (snd (proc_switch ctx to quick k))"
  by (rule sched_goodI)
    (use sched_inv_switch [of to "{}" k ctx quick] in \<open>auto simp: sched_good_def intro: sched_inv_mono\<close>)

lemma sched_good_wakeup_all_state:
  "sched_good k \<Longrightarrow> present (statics k) i \<Longrightarrow> sched_good (proc_wakeup_all_state i k)"
  by (rule sched_goodI) (use sched_inv_wakeup_all_state [of "{}" k i] in \<open>auto simp: sched_good_def\<close>)

lemma sched_good_multi_core:
  "sched_good k \<Longrightarrow> present (statics k) to \<Longrightarrow> sched_good (snd (proc_switch_multi_core ctx to c k))"
  unfolding proc_switch_multi_core_def Let_def proc_wakeup_def
  by (auto intro!: sched_good_switch sched_good_wakeup_all_state sched_good_wakeup_by)

lemma sched_good_signal_send:
  assumes "sched_good k" "\<And>i. p = Some i \<Longrightarrow> present (statics k) i"
  shows "sched_good (snd (proc_signal_send ctx p sig quick k))"
proof (cases p)
  case (Some i)
  have sp: "sched_good (upd_space s g k)" for s g by (rule sched_good_frame [OF assms(1)]) auto
  have "present (statics (upd_space s g k)) i" for s g using assms(2) [OF Some] by simp
  with sp Some assms(1) show ?thesis
    by (auto simp: proc_signal_send_def Let_def split: option.split
        intro!: sched_good_multi_core sched_good_ready)
qed (use assms in \<open>simp add: proc_signal_send_def\<close>)

lemma sched_inv_ready_anew:
  assumes "sched_good k" "present (statics k) i" "\<And>p. static_of (f p) = static_of p" "\<And>p. live_state (p_state (f p))"
  shows "sched_good (proc_ready i (upd_proc i f k))"
proof (rule sched_goodI [OF _ _ _ assms(1)])
  have "p_core (f p) = p_core p" for p using assms(3) [of p] by (simp add: static_of_def)
  then have "sched_inv {i} (upd_proc i f k)"
    using assms(1,4) by (intro sched_inv_upd_proc [of "{}"]) (auto simp: sched_good_def)
  from sched_inv_ready [OF this, of i] assms(2,3) show "sched_inv {} (proc_ready i (upd_proc i f k))" by simp
qed (use assms(3) in \<open>auto simp: proc_ready_def\<close>)

text \<open>The signal record of the running task holds what a signal delivery saved: a live state, and for
  a state that is re-queued on return a signal number that re-queues it.\<close>

definition signal_frame_ok :: "'a kernel_scheme \<Rightarrow> bool" where
  "signal_frame_ok k = (case get_current_proc k of None \<Rightarrow> True
     | Some c \<Rightarrow> (case proc_space_of k c of None \<Rightarrow> True
        | Some sp \<Rightarrow> let ss = ss_state (sg_saved_state (sp_signal sp)); n = sg_sig_no (sp_signal sp)
            in live_state ss \<and> (ss = READY \<longrightarrow> n = SYS_SIG_STOP \<or> n = SYS_SIG_KILL)))"

lemma upd_proc_const: "present (statics k) i \<Longrightarrow> upd_proc i (\<lambda>_. f (the_proc k i)) k = upd_proc i f k"
  by (auto simp: upd_proc_def elim!: presentE)

lemma upd_proc_upd_space: "upd_proc i f (upd_space s g k) = upd_space s g (upd_proc i f k)"
  by (simp add: upd_proc_def upd_space_def slot_def split: option.split)

lemma sched_good_signal_end:
  assumes "sched_good k" "signal_frame_ok k"
  shows "sched_good (snd (proc_signal_end ctx k))"
proof (cases "get_current_proc k")
  case (Some c)
  note pr = current_present [OF Some]
  show ?thesis
  proof (cases "proc_space_of k c")
    case sp: (Some sp)
    define ss where "ss = sg_saved_state (sp_signal sp)"
    define res where "res = sg_saved_ipc_res (sp_signal sp)"
    define f :: "proc \<Rightarrow> proc" where "f = (\<lambda>p. p\<lparr>p_state := ss_state ss, p_sleep_counter := uint (ss_sleep_counter ss),
        p_ipc_res := ipc_res_snapshot_copy (p_ipc_res p) res\<rparr>)"
    have f: "static_of (f p) = static_of p" "p_state (f p) = ss_state ss" for p by (simp_all add: f_def)
    have live: "live_state (ss_state ss)"
      "ss_state ss = READY \<Longrightarrow> sg_sig_no (sp_signal sp) = SYS_SIG_STOP \<or> sg_sig_no (sp_signal sp) = SYS_SIG_KILL"
      using assms(2) Some sp by (auto simp: signal_frame_ok_def ss_def Let_def)
    have up: "upd_proc c (\<lambda>_. (the_proc k c)\<lparr>p_state := ss_state ss, p_sleep_counter := uint (ss_sleep_counter ss),
        p_ipc_res := ipc_res_snapshot_copy (p_ipc_res (the_proc k c)) res\<rparr>) k = upd_proc c f k"
      using upd_proc_const [OF pr, of f] by (simp add: f_def)
    have r: "sched_good (proc_ready c (upd_space s g (upd_proc c f k)))" for s g
      unfolding upd_proc_upd_space [symmetric]
      by (rule sched_inv_ready_anew) (use assms(1) pr live f in \<open>auto intro: sched_good_frame\<close>)
    have n: "sched_good (upd_space s g (upd_proc c f k))" if "ss_state ss \<noteq> READY" for s g
      unfolding upd_proc_upd_space [symmetric]
      by (rule sched_good_upd_state) (use assms(1) that live f in \<open>auto intro: sched_good_frame\<close>)
    show ?thesis
      using r n live(2) assms(1)
      by (auto simp: proc_signal_end_def Some sp proc_restore_state_def Let_def ss_def [symmetric] res_def [symmetric] up
          intro!: sched_good_schedule)
  qed (use Some assms in \<open>simp add: proc_signal_end_def\<close>)
qed (use assms in \<open>simp add: proc_signal_end_def\<close>)

lemma sched_good_renew_priority_at:
  assumes "sched_good k" "present (statics k) i"
  shows "sched_good (renew_priority_at i k)"
proof -
  define k1 where "k1 = upd_proc i (\<lambda>p. if p_priority_count p > 0 then p\<lparr>p_priority_count := p_priority_count p - 1\<rparr> else p) k"
  have g1: "sched_good k1" "present (statics k1) i"
    unfolding k1_def using assms by (auto intro!: sched_good_upd_state split: if_splits)
  have g2: "sched_good (upd_proc i (\<lambda>p. p\<lparr>p_priority_count := p_priority p\<rparr>) k1)"
    by (rule sched_good_upd_state [OF g1(1)]) auto
  have g3: "sched_good (proc_untrack_priority_update i k)" by (rule sched_good_frame [OF assms(1)]) auto
  show ?thesis
    unfolding renew_priority_at_def Let_def k1_def [symmetric]
    using g1 g2 g3 sched_good_ready [OF g1] by auto
qed

lemma statics_renew_priority_at [simp]: "statics (renew_priority_at i k) = statics k"
  unfolding renew_priority_at_def Let_def by simp

lemma sched_good_renew_priority:
  assumes "sched_good k" "\<forall>i \<in> set (priority_update_queue k). present (statics k) i"
  shows "sched_good (renew_priority_counter k)"
proof -
  have "sched_good (fold renew_priority_at q k')" if "sched_good k'" "\<forall>i \<in> set q. present (statics k') i" for q and k' :: "'a kernel_scheme"
    using that by (induction q arbitrary: k') (auto simp: sched_good_renew_priority_at)
  with assms show ?thesis by (simp add: renew_priority_counter_def)
qed

section \<open>The scheduler as a step relation\<close>

inductive sched_step :: "'a kernel_scheme \<Rightarrow> 'a kernel_scheme \<Rightarrow> bool" where
  step_schedule: "sched_step k (snd (schedule ctx k))"
| step_switch: "present (statics k) to \<Longrightarrow> sched_step k (snd (proc_switch_multi_core ctx to c k))"
| step_block: "present (statics k) i \<Longrightarrow> sched_step k (snd (proc_block_by ctx i token k))"
| step_block_timeout: "present (statics k) i \<Longrightarrow> sched_step k (snd (proc_block_by_timeout ctx i token usec k))"
| step_usleep: "sched_step k (snd (proc_usleep ctx usec k))"
| step_wakeup: "present (statics k) i \<Longrightarrow> sched_step k (proc_wakeup_by i token k)"
| step_wakeup_waiting: "sched_step k (proc_wakeup_waiting pid k)"
| step_tick: "sched_step k (snd (renew_sleep_counter usec k))"
| step_priority: "\<forall>i \<in> set (priority_update_queue k). present (statics k) i \<Longrightarrow> sched_step k (renew_priority_counter k)"
| step_signal_send: "(case p of None \<Rightarrow> True | Some i \<Rightarrow> present (statics k) i) \<Longrightarrow>
    sched_step k (snd (proc_signal_send ctx p sig quick k))"
| step_signal_end: "signal_frame_ok k \<Longrightarrow> sched_step k (snd (proc_signal_end ctx k))"

lemma idles_fold_wait: "idles (fold (proc_wakeup_waiting_at pid) is k) = idles k \<and>
  statics (fold (proc_wakeup_waiting_at pid) is k) = statics k"
  by (induction "is" arbitrary: k) (auto simp: proc_wakeup_waiting_at_def proc_ready_def split: option.split)

lemma sched_good_wakeup_waiting: "sched_good k \<Longrightarrow> sched_good (proc_wakeup_waiting pid k)"
  by (rule sched_goodI) (use sched_inv_wakeup_waiting [of "{}" k pid] idles_fold_wait [of pid] in
    \<open>auto simp: sched_good_def proc_wakeup_waiting_def\<close>)

lemma sched_step_good: "sched_step k k' \<Longrightarrow> sched_good k \<Longrightarrow> sched_good k'"
proof (induction rule: sched_step.induct)
  case (step_signal_send p k ctx sig quick)
  then show ?case by (intro sched_good_signal_send) auto
qed (auto simp: proc_block_by_def proc_block_by_timeout_def intro: sched_good_schedule sched_good_multi_core
    sched_good_block sched_good_usleep sched_good_wakeup_by sched_good_wakeup_waiting sched_good_renew_sleep
    sched_good_renew_priority sched_good_signal_end)

lemma sched_steps_good: "sched_step\<^sup>*\<^sup>* k k' \<Longrightarrow> sched_good k \<Longrightarrow> sched_good k'"
  by (induction rule: rtranclp_induct) (auto intro: sched_step_good)

end
