(* ===== verification/Sched_Wake.thy ===== *)
theory Sched_Wake
  imports Sched_Props
begin

text \<open>
  What the scheduler's operations do to one task, and the scheduler's properties: consistency of the
  ready queues, wakes that are not lost and that are scoped to their node, the sleep timer, and the
  round robin of \<open>schedule\<close>.
\<close>

section \<open>What the operations do to one task\<close>

lemma space_at_upd_proc [simp]: "space_at (upd_proc i f k) s = space_at k s"
  by (simp add: space_at_def split: option.split)

definition readied :: "proc \<Rightarrow> proc" where
  "readied p = (if p_priority_count p = 0 then p\<lparr>p_state := READY, p_priority_count := p_priority p\<rparr>
     else p\<lparr>p_state := READY\<rparr>)"

lemma readied_simps [simp]:
  "p_state (readied p) = READY" "p_block_by (readied p) = p_block_by p" "p_wake_by (readied p) = p_wake_by p"
  "p_wake_pending (readied p) = p_wake_pending p" "p_sleep_counter (readied p) = p_sleep_counter p"
  "static_of (readied p) = static_of p" "p_core (readied p) = p_core p" "p_space (readied p) = p_space p"
  "p_ctx (readied p) = p_ctx p" "p_pid (readied p) = p_pid p"
  by (simp_all add: readied_def static_of_def)

lemma slot_track_kick [simp]:
  "slot (proc_track_priority_update i k) j = slot k j"
  "slot (proc_kick_ready_core i k) j = slot k j"
  "slot (proc_untrack_priority_update i k) j = slot k j"
  "slot (wake_resched i k) j = slot k j"
  by (simp_all add: proc_track_priority_update_def proc_kick_ready_core_def proc_untrack_priority_update_def
      wake_resched_def Let_def)

lemma the_proc_of_slot: "slot k' i = slot k i \<Longrightarrow> the_proc k' i = the_proc k i"
  by (simp add: the_proc_def)

lemma slot_ready_with_order:
  "slot (proc_ready_with_order i ph k) j = (if j = i then map_option readied (slot k i) else slot k j)"
  by (cases "slot k i")
    (auto simp: proc_ready_with_order_alt make_ready_def Let_def readied_def slot_upd_proc)

lemma queued_ready_with_order:
  "present (statics k) i \<Longrightarrow> i \<in> set (ready_queue (proc_ready_with_order i ph k) (p_core (the_proc k i)))"
  by (simp add: proc_ready_with_order_alt Let_def set_ready_queue_def present_slot)

lemma spaces_ready_with_order [simp]: "spaces (proc_ready_with_order i ph k) = spaces k"
  by (simp add: proc_ready_with_order_alt make_ready_def Let_def set_ready_queue_def proc_kick_ready_core_def
      proc_track_priority_update_def)

lemma slot_wakeup_all_state:
  "slot (proc_wakeup_all_state i k) j =
     (if j = i \<and> proc_space_of k i \<noteq> None then map_option readied (slot k i) else slot k j)"
  by (auto simp: proc_wakeup_all_state_def Let_def slot_ready_with_order split: option.split)

lemma slot_cancel_wait:
  "slot (proc_ipc_cancel_wait i k) j = (if j = i then map_option (\<lambda>p.
      if p_ipc_waiting_on p \<noteq> None \<and> proc_space_of k (the (p_ipc_waiting_on p)) \<noteq> None
      then p\<lparr>p_wait_item_queued := False, p_ipc_waiting_on := None\<rparr> else p) (slot k i) else slot k j)"
  by (cases "slot k i")
    (auto simp: proc_ipc_cancel_wait_def Let_def slot_upd_proc the_proc_def split: option.split)

lemma cancel_wait_fields:
  assumes "present (statics k) i"
  shows "p_state (the_proc (proc_ipc_cancel_wait i k) i) = p_state (the_proc k i)"
    "p_block_by (the_proc (proc_ipc_cancel_wait i k) i) = p_block_by (the_proc k i)"
    "p_wake_by (the_proc (proc_ipc_cancel_wait i k) i) = p_wake_by (the_proc k i)"
    "p_wake_pending (the_proc (proc_ipc_cancel_wait i k) i) = p_wake_pending (the_proc k i)"
    "p_sleep_counter (the_proc (proc_ipc_cancel_wait i k) i) = p_sleep_counter (the_proc k i)"
    "p_space (the_proc (proc_ipc_cancel_wait i k) i) = p_space (the_proc k i)"
    "p_core (the_proc (proc_ipc_cancel_wait i k) i) = p_core (the_proc k i)"
  using assms by (auto simp: the_proc_def slot_cancel_wait present_slot split: if_splits)

lemma space_cancel_wait:
  "present (statics k) i \<Longrightarrow> (proc_space_of (proc_ipc_cancel_wait i k) i = None) = (proc_space_of k i = None)"
  unfolding proc_space_of_def cancel_wait_fields
  by (auto simp: proc_ipc_cancel_wait_def Let_def space_at_def upd_space_def split: option.splits)


lemma latch_fields [simp]:
  "p_wake_pending (latch_wake t p)"
  "p_wake_by (latch_wake t p) = 0 \<longleftrightarrow> t = 0 \<and> (p_wake_pending p \<longrightarrow> p_wake_by p = 0)"
  by (auto simp: latch_wake_def)







section \<open>Properties\<close>


definition ex_sched :: kernel where
  "ex_sched = (procs_init 4 1 8 0)\<lparr>task_table := [None,
     Some (zero_proc\<lparr>p_pid := 1, p_uuid := 11, p_state := RUNNING, p_space := Some 0\<rparr>),
     Some (zero_proc\<lparr>p_pid := 2, p_uuid := 12, p_state := BLOCK, p_space := Some 1, p_block_by := 5\<rparr>),
     Some (zero_proc\<lparr>p_pid := 3, p_uuid := 13, p_state := READY, p_space := Some 2\<rparr>)],
     spaces := (\<lambda>s. if s < 3 then Some zero_space else None),
     ready_queue := (\<lambda>c. if c = 0 then [3] else []), current_proc := (\<lambda>c. if c = 0 then 1 else -1)\<rparr>"

lemmas ex_sched_simps = ex_sched_def procs_init_def zero_proc_def zero_core_def the_proc_def slot_def
  proc_get_alt live_state_def proc_space_of_def space_at_def

lemma ex_sched_slots:
  "slot ex_sched 1 \<noteq> None" "slot ex_sched 2 \<noteq> None" "slot ex_sched 3 \<noteq> None"
  by (simp_all add: ex_sched_simps)

lemma ex_sched_good: "sched_good ex_sched"
  unfolding sched_good_def idle_ok_def idles_def
  by (auto intro!: sched_invI simp: ex_sched_simps nth_Cons split: if_splits nat.splits)





text \<open>Wakes are scoped to their node. A task blocked on a node ignores a wake for another node: it
  stays blocked on its node with its deadline and its latch as they were, and no ready queue changes.\<close>

theorem wakeup_foreign_node:
  assumes "present (statics k) i" "p_state (the_proc k i) = BLOCK"
    and "token \<noteq> 0" "p_block_by (the_proc k i) \<noteq> 0" "p_block_by (the_proc k i) \<noteq> token"
  shows "let k' = proc_wakeup_by i token k in
    p_state (the_proc k' i) = BLOCK \<and> p_block_by (the_proc k' i) = p_block_by (the_proc k i) \<and>
    p_sleep_counter (the_proc k' i) = p_sleep_counter (the_proc k i) \<and>
    p_wake_pending (the_proc k' i) = p_wake_pending (the_proc k i) \<and> ready_queue k' = ready_queue k"
  using assms by (simp add: proc_wakeup_by_def cancel_wait_fields Let_def)

theorem wakeup_foreign_node_witness:
  "p_state (the_proc (proc_wakeup_by 2 6 ex_sched) 2) = BLOCK"
  using wakeup_foreign_node [of ex_sched 2 6] ex_sched_slots
  by (simp add: present_slot Let_def) (simp add: ex_sched_simps)

text \<open>C18: a wake for the node a task is blocked on, a generic wake, or any wake of a tokenless block
  releases the task: it becomes \<open>READY\<close> on its core's queue, with the block token, the deadline and
  the latch cleared.\<close>

theorem wakeup_releases:
  assumes "present (statics k) i" "p_state (the_proc k i) = BLOCK" "proc_space_of k i \<noteq> None"
    and "token = 0 \<or> p_block_by (the_proc k i) = 0 \<or> p_block_by (the_proc k i) = token"
  shows "let k' = proc_wakeup_by i token k in
    p_state (the_proc k' i) = READY \<and> i \<in> set (ready_queue k' (p_core (the_proc k' i))) \<and>
    p_block_by (the_proc k' i) = 0 \<and> p_sleep_counter (the_proc k' i) = 0 \<and>
    \<not> p_wake_pending (the_proc k' i) \<and> (\<forall>j. j \<noteq> i \<longrightarrow> slot k' j = slot k j)"
proof -
  define k1 where "k1 = proc_ipc_cancel_wait i k"
  define k2 where "k2 = upd_proc i (\<lambda>p. p\<lparr>p_block_by := 0, p_sleep_counter := 0, p_wake_by := 0, p_wake_pending := False\<rparr>) k1"
  obtain q where q: "slot k1 i = Some q" "slot k2 i = Some (q\<lparr>p_block_by := 0, p_sleep_counter := 0, p_wake_by := 0, p_wake_pending := False\<rparr>)"
    using assms(1) by (auto simp: k1_def k2_def present_slot slot_cancel_wait)
  have sp: "proc_space_of k2 i \<noteq> None"
    using assms(3) space_cancel_wait [OF assms(1)] q
    by (auto simp: k1_def [symmetric] proc_space_of_def the_proc_def k2_def)
  have eq: "proc_wakeup_by i token k = wake_resched i (proc_wakeup_all_state i k2)"
    using assms by (auto simp: proc_wakeup_by_def cancel_wait_fields Let_def k1_def k2_def)
  have mem: "i \<in> set (ready_queue (proc_wakeup_all_state i k2) (p_core (the_proc k2 i)))"
    using sp queued_ready_with_order [of k2 i] q
    by (auto simp: proc_wakeup_all_state_def Let_def present_slot split: option.splits)
  show ?thesis
    unfolding eq Let_def using sp mem q
    by (auto simp: the_proc_def slot_wakeup_all_state) (auto simp: k2_def k1_def slot_cancel_wait)
qed

theorem wakeup_releases_witness:
  "p_state (the_proc (proc_wakeup_by 2 5 ex_sched) 2) = READY"
  using wakeup_releases [of ex_sched 2 5] ex_sched_slots
  by (simp add: present_slot Let_def) (simp add: ex_sched_simps)

section \<open>The sleep timer\<close>

lemma slot_renew_other:
  "j \<noteq> i \<Longrightarrow> slot (snd (renew_sleep_at us j rk)) i = slot (snd rk) i"
  by (auto simp: renew_sleep_at_def Let_def case_prod_beta proc_ready_def slot_ready_with_order split: option.split)

lemma slot_renew_fold_other:
  "i \<notin> set js \<Longrightarrow> slot (snd (fold (renew_sleep_at us) js rk)) i = slot (snd rk) i"
  by (induction js arbitrary: rk) (auto simp: slot_renew_other)

definition slept :: "u32 \<Rightarrow> proc \<Rightarrow> proc" where
  "slept us p =
     (if p_state p = SLEEPING \<or> p_state p = BLOCK \<and> p_sleep_counter p > 0 then
        if p_sleep_counter p \<le> uint us
        then readied (if p_state p = SLEEPING then p\<lparr>p_sleep_counter := 0\<rparr> else p\<lparr>p_sleep_counter := 0, p_block_by := 0\<rparr>)
        else p\<lparr>p_sleep_counter := p_sleep_counter p - uint us\<rparr>
      else p)"

lemma slot_renew_self: "slot (snd (renew_sleep_at us i rk)) i = map_option (slept us) (slot (snd rk) i)"
  by (cases "slot (snd rk) i")
    (auto simp: renew_sleep_at_def Let_def case_prod_beta proc_ready_def slot_ready_with_order slept_def)

lemma slot_renew_sleep: "slot (snd (renew_sleep_counter us k)) i = map_option (slept us) (slot k i)"
proof (cases "i < length (task_table k)")
  case True
  then have "[0..<length (task_table k)] = [0..<i] @ i # [Suc i..<length (task_table k)]"
    using upt_add_eq_append [of 0 i "length (task_table k) - i"] by (simp add: upt_conv_Cons)
  then show ?thesis
    by (simp add: renew_sleep_counter_def slot_renew_fold_other slot_renew_self)
next
  case False
  then have "slot (snd (renew_sleep_counter us k)) i = slot k i"
    by (simp add: renew_sleep_counter_def slot_renew_fold_other)
  with False show ?thesis by (simp add: slot_def)
qed

lemma slot_ticks:
  "slot (((\<lambda>k. snd (renew_sleep_counter us k)) ^^ n) k) i = map_option (slept us ^^ n) (slot k i)"
  by (induction n arbitrary: k) (auto simp: slot_renew_sleep option.map_comp option.map_id comp_def)

lemma slept_ticks:
  assumes "p_state p = SLEEPING" "0 < n" "p_sleep_counter p \<le> int n * uint us"
  shows "p_state ((slept us ^^ n) p) = READY"
  using assms
proof (induction n arbitrary: p)
  case (Suc n)
  have stay: "p_state ((slept us ^^ m) q) = READY" if "p_state q = READY" for m q
    using that by (induction m) (auto simp: slept_def)
  show ?case
  proof (cases "p_sleep_counter p \<le> uint us")
    case True
    then have "p_state (slept us p) = READY" using Suc.prems by (simp add: slept_def)
    then show ?thesis using stay by (simp add: funpow_swap1 del: funpow.simps(2) add: funpow_Suc_right)
  next
    case False
    then have s: "slept us p = p\<lparr>p_sleep_counter := p_sleep_counter p - uint us\<rparr>" using Suc.prems by (simp add: slept_def)
    have n: "0 < n" using False Suc.prems by (cases n) auto
    have "p_state ((slept us ^^ n) (slept us p)) = READY"
      by (rule Suc.IH) (use Suc.prems n in \<open>auto simp: s algebra_simps\<close>)
    then show ?thesis by (simp add: funpow_Suc_right del: funpow.simps(2))
  qed
qed simp

lemma sched_good_ticks: "sched_good k \<Longrightarrow> sched_good (((\<lambda>k. snd (renew_sleep_counter us k)) ^^ n) k)"
  by (induction n) (auto intro: sched_good_renew_sleep)

text \<open>C19: the sleep timer wakes on time. A tick takes its length off the counter of every sleeping task
  and of every block with a deadline, makes exactly those ready whose time is up (a timed block is
  released from its node too) and leaves all others alone; so a sleeping task is ready, and queued on
  its core, after as many ticks as cover its remaining time.\<close>

theorem sleep_timer:
  assumes "sched_good k" "slot k i = Some p"
  shows "slot (snd (renew_sleep_counter us k)) i = Some (slept us p) \<and>
    (p_state p = SLEEPING \<and> 0 < n \<and> p_sleep_counter p \<le> int n * uint us \<longrightarrow>
      (let k' = ((\<lambda>k. snd (renew_sleep_counter us k)) ^^ n) k in
       p_state (the_proc k' i) = READY \<and> i \<in> set (ready_queue k' (p_core (the_proc k' i)))))"
proof -
  have "i \<in> set (ready_queue k' (p_core (the_proc k' i)))"
    if "sched_good k'" "slot k' i = Some q" "p_state q = READY" for k' :: "'a kernel_scheme" and q
    using that sched_invD(3) [of "{}" k' i q] by (auto simp: sched_good_def the_proc_def)
  from this [OF sched_good_ticks [OF assms(1)]] assms(2) show ?thesis
    by (auto simp: slot_renew_sleep slot_ticks the_proc_def slept_ticks Let_def)
qed

theorem sleep_timer_witness:
  "p_state (the_proc (((\<lambda>k. snd (renew_sleep_counter 10 k)) ^^ 3)
     (upd_proc 1 (\<lambda>p. p\<lparr>p_state := SLEEPING, p_sleep_counter := 25\<rparr>) ex_sched)) 1) = READY"
proof -
  let ?k = "upd_proc 1 (\<lambda>p. p\<lparr>p_state := SLEEPING, p_sleep_counter := 25\<rparr>) ex_sched"
  have good: "sched_good ?k" by (rule sched_good_upd_state [OF ex_sched_good]) auto
  obtain p where p: "slot ?k 1 = Some p" "p_state p = SLEEPING" "p_sleep_counter p = 25"
    using ex_sched_slots(1) by auto
  from sleep_timer [OF good p(1), of 10 3] p show ?thesis by (simp add: Let_def)
qed

text \<open>No handler is due for a task, and no restored context is pending.\<close>

definition quiet :: "'a kernel_scheme \<Rightarrow> nat \<Rightarrow> bool" where
  "quiet k i = (case proc_space_of k i of None \<Rightarrow> True
     | Some sp \<Rightarrow> pi_state (sp_interrupt sp) \<noteq> INTR_STATE_START \<and> \<not> sg_do_switch (sp_signal sp) \<and>
         \<not> is_do_switch (sp_ipc_server sp) \<and> \<not> pi_restore_pending (sp_interrupt sp) \<and>
         \<not> is_restore_pending (sp_ipc_server sp))"

lemma quiet_inject: "quiet k i \<Longrightarrow> inject_context i k = k"
  by (cases "proc_space_of k i") (auto simp: quiet_def inject_context_def)

lemma quiet_save_ctx: "quiet k c \<Longrightarrow> switch_save_ctx (Some c) ctx k = (ctx, upd_proc c (\<lambda>p. p\<lparr>p_ctx := ctx\<rparr>) k)"
  by (cases "proc_space_of k c") (auto simp: quiet_def switch_save_ctx_def)

lemma quiet_frame:
  "spaces k' = spaces k \<Longrightarrow> statics k' = statics k \<Longrightarrow> present (statics k) i \<Longrightarrow> quiet k' i = quiet k i"
  using statics_projD(6) [of k' k i]
  by (cases "p_space (the_proc k i)") (simp_all add: quiet_def proc_space_of_def space_at_def present_slot)

text \<open>A task without its run-time accounting fields.\<close>

definition acct0 :: "proc \<Rightarrow> proc" where
  "acct0 p = p\<lparr>p_run_usec_counter := 0, p_run_last_start_usec := 0, p_run_accounting_active := False\<rparr>"

lemma acct0_fields_simp [simp]:
  "acct0 (p\<lparr>p_run_usec_counter := a\<rparr>) = acct0 p"
  "acct0 (p\<lparr>p_run_last_start_usec := a\<rparr>) = acct0 p"
  "acct0 (p\<lparr>p_run_accounting_active := b\<rparr>) = acct0 p"
  by (simp_all add: acct0_def)

lemma the_proc_upd_field: "(\<And>p. g (f p) = g p) \<Longrightarrow> g (the_proc (upd_proc i f k) j) = g (the_proc k j)"
  by (cases "slot k i") (auto simp: the_proc_def slot_upd_proc)

lemma acct0_upd [simp]: "(\<And>p. acct0 (f p) = acct0 p) \<Longrightarrow> acct0 (the_proc (upd_proc i f k) j) = acct0 (the_proc k j)"
  by (rule the_proc_upd_field)

lemma acct0_account [simp]:
  "acct0 (the_proc (proc_account_running_until p k) j) = acct0 (the_proc k j)"
  "acct0 (the_proc (proc_account_switch_out p k) j) = acct0 (the_proc k j)"
  "acct0 (the_proc (proc_account_switch_in p k) j) = acct0 (the_proc k j)"
  by (simp_all add: proc_account_running_until_def proc_account_switch_out_def proc_account_switch_in_def Let_def
      split: option.split)

lemma acct0_set_current [simp]: "acct0 (the_proc (set_current_proc p k) j) = acct0 (the_proc k j)"
  by (simp add: set_current_proc_def Let_def split: option.split)

lemma acct0_fields: "acct0 p = acct0 q \<Longrightarrow> p_ctx p = p_ctx q \<and> p_state p = p_state q \<and> p_tls_base p = p_tls_base q"
  by (cases p; cases q) (simp add: acct0_def)


lemma set_current_proc_core:
  "p_core (the_proc k i) = core_id k \<Longrightarrow> present (statics k) i \<Longrightarrow>
     current_proc (set_current_proc (Some i) k) = (current_proc k)(core_id k := p_pid (the_proc k i)) \<and>
     core_id (set_current_proc (Some i) k) = core_id k"
proof -
  assume c: "p_core (the_proc k i) = core_id k" and pr: "present (statics k) i"
  have cur: "current_proc (proc_account_switch_out p k) = current_proc k"
    "core_id (proc_account_switch_out p k) = core_id k" for p
    by (simp_all add: proc_account_switch_out_def proc_account_running_until_def Let_def split: option.split)
  have cur': "current_proc (proc_account_switch_in p k') = current_proc k'"
    "core_id (proc_account_switch_in p k') = core_id k'" for p and k' :: "'a kernel_scheme"
    by (simp_all add: proc_account_switch_in_def split: option.split)
  have st: "p_core (the_proc (proc_account_switch_out p k) i) = p_core (the_proc k i)"
    "p_pid (the_proc (proc_account_switch_out p k) i) = p_pid (the_proc k i)" for p
    using pr statics_projD(1,2) [OF statics_account(2) [of p k], of i] by (simp_all add: present_slot)
  show ?thesis using c by (simp add: set_current_proc_def Let_def cur cur' st)
qed

text \<open>C17: round robin. When the running task's core has a ready task at the head of its queue, \<open>schedule\<close>
  switches to that task: it becomes current and running, its saved registers are loaded, the registers
  of the preempted task are saved, and the preempted task goes ready to the tail of the queue.\<close>

theorem schedule_round_robin:
  assumes good: "sched_good k" and cur: "get_current_proc k = Some c" "p_state (the_proc k c) = RUNNING"
    and q: "ready_queue k (core_id k) = i # q" "p_state (the_proc k i) = READY" "c \<notin> set q"
    and core: "p_core (the_proc k c) = core_id k"
    and idle: "idles k (core_id k) \<noteq> Some c" "idles k (core_id k) \<noteq> Some i"
    and quiet: "quiet k c" "quiet k i"
  shows "let (ctx', k') = schedule ctx k in
    ctx' = p_ctx (the_proc k i) \<and> p_ctx (the_proc k' c) = ctx \<and>
    current_proc k' (core_id k) = p_pid (the_proc k i) \<and> p_state (the_proc k' i) = RUNNING \<and>
    p_state (the_proc k' c) = READY \<and> ready_queue k' (core_id k) = q @ [c]"
proof -
  have pi: "present (statics k) i" and ci: "p_core (the_proc k i) = core_id k"
    using good sched_invD(2) [of "{}" k i "core_id k"] q(1) by (auto simp: sched_good_def present_slot the_proc_def)
  have dq: "i \<notin> set q" using good sched_invD(1) [of "{}" k "core_id k"] q(1) by (auto simp: sched_good_def)
  have pc: "present (statics k) c" by (rule current_present [OF cur(1)])
  have ne: "c \<noteq> i" using cur(2) q(2) by auto
  define k1 where "k1 = (case idles k (core_id k) of None \<Rightarrow> k | Some d \<Rightarrow> upd_proc d (\<lambda>p. p\<lparr>p_state := WAIT, p_wait_for := 0\<rparr>) k)"
  have s1: "slot k1 c = slot k c" "slot k1 i = slot k i" "statics k1 = statics k" "spaces k1 = spaces k"
    "ready_queue k1 = ready_queue k" "core_id k1 = core_id k" "current_proc k1 = current_proc k" "idles k1 = idles k"
    "length (task_table k1) = length (task_table k)"
    using idle by (auto simp: k1_def split: option.split)
  have g: "proc_get_next_ready k1 = (Some i, set_ready_queue (core_id k) q k1)"
    by (simp add: proc_get_next_ready_def s1 q Let_def the_proc_def [of k1] the_proc_def [of k, symmetric])
  have sch: "schedule ctx k = proc_switch ctx i False (upd_proc i (\<lambda>p. p\<lparr>p_state := RUNNING\<rparr>) (set_ready_queue (core_id k) q k1))"
    using g by (simp add: schedule_def Let_def idles_def k1_def split: option.splits)
  define k3 where "k3 = upd_proc i (\<lambda>p. p\<lparr>p_state := RUNNING\<rparr>) (set_ready_queue (core_id k) q k1)"
  define k4 where "k4 = proc_queue_remove_all i k3"
  define k5 where "k5 = upd_proc c (\<lambda>p. p\<lparr>p_ctx := ctx\<rparr>) k4"
  define k6 where "k6 = switch_activate (Some c) i k5"
  obtain pi' pc' where sl: "slot k i = Some pi'" "slot k c = Some pc'" using pi pc by (auto simp: present_slot)
  have cur3: "get_current_proc k3 = Some c"
    using cur(1) ne sl s1 by (auto simp: get_current_proc_alt proc_get_alt k3_def set_ready_queue_def split: if_splits)
  have s4: "slot k4 c = Some pc'" "slot k4 i = Some (pi'\<lparr>p_state := RUNNING\<rparr>)" "statics k4 = statics k" "spaces k4 = spaces k"
    "ready_queue k4 (core_id k) = q" "core_id k4 = core_id k" "idles k4 = idles k"
    using ne sl s1 ci dq by (simp_all add: k4_def k3_def proc_queue_remove_all_def set_ready_queue_def Let_def the_proc_def)
  have sv: "switch_save_ctx (Some c) ctx k4 = (ctx, k5)"
    unfolding k5_def by (rule quiet_save_ctx) (use quiet_frame [of k4 k c] s4 pc quiet in simp)
  have s6: "slot k6 c = Some (pc'\<lparr>p_ctx := ctx\<rparr>)" "slot k6 i = Some (pi'\<lparr>p_state := RUNNING\<rparr>)" "statics k6 = statics k" "spaces k6 = spaces k"
    "ready_queue k6 (core_id k) = q" "core_id k6 = core_id k" "idles k6 = idles k"
    using ne s4 by (simp_all add: k6_def switch_activate_def k5_def)
  have inj: "inject_context i k6 = k6"
    by (rule quiet_inject) (use quiet_frame [of k6 k i] s6 pi quiet in simp)
  define k7 where "k7 = switch_requeue (Some c) i False k6"
  have pst: "p_state pc' = RUNNING" "p_core pc' = core_id k" "p_core pi' = core_id k"
    using cur(2) core ci sl by (auto simp: the_proc_def)
  have "cc_idle_proc (cpu_cores k6 x) = idles k x" for x using s6(7) by (metis idles_def)
  then have nidle: "\<not> is_idle_of_core k6 c"
    using idle(1) s6(1) pst by (simp add: is_idle_of_core_def the_proc_def)
  have s7: "slot k7 c = Some (pc'\<lparr>p_ctx := ctx, p_state := READY\<rparr>)" "slot k7 i = Some (pi'\<lparr>p_state := RUNNING\<rparr>)"
    "statics k7 = statics k" "ready_queue k7 (core_id k) = q @ [c]" "core_id k7 = core_id k"
    using ne s6 pst nidle q(3)
    by (simp_all add: k7_def switch_requeue_def Let_def proc_queue_remove_all_def set_ready_queue_def the_proc_def)
  define k8 where "k8 = proc_track_priority_update i (upd_proc i (\<lambda>p. p\<lparr>p_state := RUNNING\<rparr>) k7)"
  have s8: "slot k8 c = Some (pc'\<lparr>p_ctx := ctx, p_state := READY\<rparr>)" "slot k8 i = Some (pi'\<lparr>p_state := RUNNING\<rparr>)"
    "statics k8 = statics k" "ready_queue k8 (core_id k) = q @ [c]" "core_id k8 = core_id k"
    using ne s7 by (simp_all add: k8_def proc_track_priority_update_def)
  define k9 where "k9 = set_current_proc (Some i) k8"
  have s9: "statics k9 = statics k" "ready_queue k9 (core_id k) = q @ [c]" "core_id k9 = core_id k"
    "current_proc k9 (core_id k) = p_pid pi'" "acct0 (the_proc k9 i) = acct0 (pi'\<lparr>p_state := RUNNING\<rparr>)"
    "acct0 (the_proc k9 c) = acct0 (pc'\<lparr>p_ctx := ctx, p_state := READY\<rparr>)"
    using s8 set_current_proc_core [of k8 i] pst pi by (simp_all add: k9_def the_proc_def [of k8])
  have res: "schedule ctx k = (p_ctx (the_proc (upd_proc c (\<lambda>p. p\<lparr>p_tls_base := tls_reg k9 (core_id k9)\<rparr>) k9) i),
    (upd_proc c (\<lambda>p. p\<lparr>p_tls_base := tls_reg k9 (core_id k9)\<rparr>) k9)\<lparr>tls_reg := (tls_reg k9)(core_id k :=
      p_tls_base (the_proc (upd_proc c (\<lambda>p. p\<lparr>p_tls_base := tls_reg k9 (core_id k9)\<rparr>) k9) i))\<rparr>)"
    using ne s9(3) unfolding sch k3_def [symmetric] proc_switch_def
    by (simp add: cur3 k4_def [symmetric] sv Let_def k6_def [symmetric] inj k7_def [symmetric] k8_def [symmetric] k9_def [symmetric])
  have pres9: "slot k9 c \<noteq> None" using s9(1) pc by (metis present_slot)
  show ?thesis
    unfolding res using ne s9 sl pres9 acct0_fields [OF s9(5)] acct0_fields [OF s9(6)]
    by (simp add: the_proc_def [of k])
qed


theorem schedule_round_robin_witness:
  "ready_queue (snd (schedule zero_ctx ex_sched)) 0 = [1] \<and> current_proc (snd (schedule zero_ctx ex_sched)) 0 = 3"
proof -
  have a: "core_id ex_sched = 0" "get_current_proc ex_sched = Some 1" "p_state (the_proc ex_sched 1) = RUNNING"
    "ready_queue ex_sched 0 = 3 # []" "p_state (the_proc ex_sched 3) = READY" "p_core (the_proc ex_sched 1) = 0"
    "idles ex_sched 0 = None" "quiet ex_sched 1" "quiet ex_sched 3" "p_pid (the_proc ex_sched 3) = 3"
    by (simp_all add: idles_def quiet_def get_current_proc_alt ex_sched_simps zero_space_def zero_interrupt_def
        zero_signal_def zero_ipc_server_def)
  from schedule_round_robin [OF ex_sched_good, of 1 3 "[]" zero_ctx] a
  show ?thesis by (simp add: case_prod_beta)
qed

end
