(* ===== verification/Semaphore.thy ===== *)
theory Semaphore
  imports Sched_Wake
begin

text \<open>
  The kernel semaphores of \<^verbatim>\<open>kernel/kernel/src/semaphore.c\<close>: counting permit pools with one shared
  table of waiters. The state of the file is \<open>sem_state\<close>; the operations also read and change the
  kernel state, through \<open>proc_get\<close>, \<open>proc_wakeup_by\<close> and the blocking calls of the scheduler.

  \<open>semaphore_enter_raw\<close> drops the proc lock between queueing and parking. Its two critical sections are
  the definitions \<open>sem_enter_locked\<close> and \<open>sem_enter_park\<close>; \<open>semaphore_enter_raw\<close> is their composition,
  and the step relation below interleaves them with the operations of other tasks.

  The lengths of the two tables stand for \<open>SEMAPHORE_MAX\<close> and \<open>SEM_WAITER_MAX\<close>, which \<open>semaphore_init\<close>
  gives them.
\<close>

section \<open>Data\<close>

record semaphore_t =
  s_creater_pid :: int
  s_occupied_pid :: int
  s_occupied :: bool
  s_count :: int
  s_max_count :: int

record sem_waiter_t =
  w_sem_id :: int
  w_pid :: int
  w_seq :: u32
  w_granted :: bool

record sem_state =
  semaphores :: "semaphore_t list"
  waiters :: "sem_waiter_t list"
  waiter_seq :: u32
  sem_base :: u64

definition SEMAPHORE_MAX :: nat where "SEMAPHORE_MAX = 1024"
definition SEM_WAITER_MAX :: nat where "SEM_WAITER_MAX = 256"
definition SEMAPHORE_COUNT_MAX :: int where "SEMAPHORE_COUNT_MAX = 0x7fffffff"

definition SEM_RES_ACQUIRED :: u64 where "SEM_RES_ACQUIRED = 0"
definition SEM_RES_ERROR :: u64 where "SEM_RES_ERROR = -1"
definition SEM_RES_OCCUPIED :: u64 where "SEM_RES_OCCUPIED = -2"
definition SEM_RES_TIMEOUT :: u64 where "SEM_RES_TIMEOUT = -3"
definition SEM_RES_RETRY :: u64 where "SEM_RES_RETRY = -4"

text \<open>The address of a semaphore is its wake token; the table has 20-byte elements.\<close>

definition sem_token :: "sem_state \<Rightarrow> nat \<Rightarrow> u64" where
  "sem_token s idx = sem_base s + of_nat (20 * idx)"

definition upd_sem :: "nat \<Rightarrow> (semaphore_t \<Rightarrow> semaphore_t) \<Rightarrow> sem_state \<Rightarrow> sem_state" where
  "upd_sem idx f s = s\<lparr>semaphores := (semaphores s)[idx := f (semaphores s ! idx)]\<rparr>"

definition upd_waiter :: "nat \<Rightarrow> (sem_waiter_t \<Rightarrow> sem_waiter_t) \<Rightarrow> sem_state \<Rightarrow> sem_state" where
  "upd_waiter i f s = s\<lparr>waiters := (waiters s)[i := f (waiters s ! i)]\<rparr>"

section \<open>Helpers under the proc lock\<close>

definition sem_refresh_occupied :: "nat \<Rightarrow> sem_state \<Rightarrow> sem_state" where
  "sem_refresh_occupied idx s = upd_sem idx (\<lambda>x. x\<lparr>s_occupied := (s_count x \<le> 0)\<rparr>) s"

definition sem_valid_idx :: "sem_state \<Rightarrow> nat \<Rightarrow> bool" where
  "sem_valid_idx s idx \<longleftrightarrow> idx < length (semaphores s) \<and> s_creater_pid (semaphores s ! idx) \<noteq> -1"

definition sem_is_binary :: "sem_state \<Rightarrow> nat \<Rightarrow> bool" where
  "sem_is_binary s idx \<longleftrightarrow> s_max_count (semaphores s ! idx) = 1"

definition sem_waiter_add_locked :: "nat \<Rightarrow> int \<Rightarrow> sem_state \<Rightarrow> nat option \<times> sem_state" where
  "sem_waiter_add_locked sem_id pid s =
     (case find_index (\<lambda>w. w_sem_id w = 0) (waiters s) of
        None \<Rightarrow> (None, s)
      | Some i \<Rightarrow> (Some i, (upd_waiter i (\<lambda>w. \<lparr>w_sem_id = int sem_id, w_pid = pid, w_seq = waiter_seq s,
                                w_granted = False\<rparr>) s)\<lparr>waiter_seq := waiter_seq s + 1\<rparr>))"

definition sem_waiter_find_locked :: "nat \<Rightarrow> int \<Rightarrow> sem_state \<Rightarrow> nat option" where
  "sem_waiter_find_locked sem_id pid s =
     find_index (\<lambda>w. w_sem_id w = int sem_id \<and> w_pid w = pid) (waiters s)"

definition sem_waiter_del_locked :: "nat \<Rightarrow> int \<Rightarrow> sem_state \<Rightarrow> sem_state" where
  "sem_waiter_del_locked sl pid s =
     (if sl \<ge> length (waiters s) then s
      else if w_sem_id (waiters s ! sl) = 0 \<or> w_pid (waiters s ! sl) \<noteq> pid then s
      else upd_waiter sl (\<lambda>w. w\<lparr>w_sem_id := 0, w_pid := -1, w_granted := False\<rparr>) s)"

text \<open>The scan for the oldest ungranted waiter: \<open>best\<close> and its sequence number, updated over the table.\<close>

fun head_scan :: "int \<Rightarrow> sem_waiter_t list \<Rightarrow> nat \<Rightarrow> (nat \<times> u32) option \<Rightarrow> (nat \<times> u32) option" where
  "head_scan sem_id [] i best = best"
| "head_scan sem_id (w # ws) i best =
     (if w_sem_id w \<noteq> sem_id \<or> w_granted w then head_scan sem_id ws (Suc i) best
      else case best of
        None \<Rightarrow> head_scan sem_id ws (Suc i) (Some (i, w_seq w))
      | Some (b, best_seq) \<Rightarrow>
        if w_seq w < best_seq then head_scan sem_id ws (Suc i) (Some (i, w_seq w))
        else head_scan sem_id ws (Suc i) best)"

definition sem_waiter_head_locked :: "sem_state \<Rightarrow> nat \<Rightarrow> nat option" where
  "sem_waiter_head_locked s idx = map_option fst (head_scan (int idx + 1) (waiters s) 0 None)"

definition live_waiters :: "sem_state \<Rightarrow> nat" where
  "live_waiters s = length (filter (\<lambda>w. w_sem_id w \<noteq> 0) (waiters s))"

definition waits_on :: "int \<Rightarrow> sem_waiter_t \<Rightarrow> bool" where
  "waits_on sem_id w \<longleftrightarrow> w_sem_id w = sem_id \<and> \<not> w_granted w"

definition scan_ok :: "int \<Rightarrow> sem_waiter_t list \<Rightarrow> (nat \<times> u32) option \<Rightarrow> bool" where
  "scan_ok sem_id ws best = (case best of
      None \<Rightarrow> \<forall>w \<in> set ws. \<not> waits_on sem_id w
    | Some (b, q) \<Rightarrow> b < length ws \<and> waits_on sem_id (ws ! b) \<and> w_seq (ws ! b) = q \<and>
        (\<forall>w \<in> set ws. waits_on sem_id w \<longrightarrow> q \<le> w_seq w))"

lemma scan_ok_snoc:
  "scan_ok sem_id ws best \<Longrightarrow> \<not> waits_on sem_id w \<Longrightarrow> scan_ok sem_id (ws @ [w]) best"
  "scan_ok sem_id ws best \<Longrightarrow> waits_on sem_id w \<Longrightarrow>
     scan_ok sem_id (ws @ [w]) (case best of None \<Rightarrow> Some (length ws, w_seq w)
       | Some (b, q) \<Rightarrow> if w_seq w < q then Some (length ws, w_seq w) else best)"
  by (auto simp: scan_ok_def nth_append split: option.splits prod.splits)

lemma head_scan_ok:
  "scan_ok sem_id pre best \<Longrightarrow> scan_ok sem_id (pre @ ws) (head_scan sem_id ws (length pre) best)"
proof (induction ws arbitrary: pre best)
  case (Cons w ws)
  show ?case
  proof (cases "waits_on sem_id w")
    case False
    with Cons.IH [OF scan_ok_snoc(1) [OF Cons.prems False]] show ?thesis by (simp add: waits_on_def)
  next
    case True
    with Cons.IH [OF scan_ok_snoc(2) [OF Cons.prems True]] show ?thesis
      by (auto simp: waits_on_def split: option.splits if_splits)
  qed
qed simp

lemma sem_waiter_head_spec:
  "case sem_waiter_head_locked s idx of
     None \<Rightarrow> \<forall>w \<in> set (waiters s). \<not> waits_on (int idx + 1) w
   | Some b \<Rightarrow> b < length (waiters s) \<and> waits_on (int idx + 1) (waiters s ! b) \<and>
       (\<forall>w \<in> set (waiters s). waits_on (int idx + 1) w \<longrightarrow> w_seq (waiters s ! b) \<le> w_seq w)"
  using head_scan_ok [of "int idx + 1" "[]" None "waiters s"]
  by (auto simp: sem_waiter_head_locked_def scan_ok_def split: option.splits)

lemma sem_waiter_head_SomeD:
  assumes "sem_waiter_head_locked s idx = Some b"
  shows "b < length (waiters s)" "waits_on (int idx + 1) (waiters s ! b)"
    "w_sem_id (waiters s ! b) = int idx + 1" "\<not> w_granted (waiters s ! b)"
    "w \<in> set (waiters s) \<Longrightarrow> waits_on (int idx + 1) w \<Longrightarrow> w_seq (waiters s ! b) \<le> w_seq w"
  using sem_waiter_head_spec [of s idx] assms by (auto simp: waits_on_def)

lemma live_waiters_del:
  assumes "b < length (waiters s)" "w_sem_id (waiters s ! b) \<noteq> 0"
  shows "live_waiters (sem_waiter_del_locked b (w_pid (waiters s ! b)) s) < live_waiters s"
  using length_filter_update [OF assms(1), of "\<lambda>w. w_sem_id w \<noteq> 0"
      "(waiters s ! b)\<lparr>w_sem_id := 0, w_pid := -1, w_granted := False\<rparr>"] assms
  by (simp add: live_waiters_def sem_waiter_del_locked_def upd_waiter_def)

function sem_handoff_locked :: "nat \<Rightarrow> sem_state \<Rightarrow> 'a kernel_scheme \<Rightarrow> sem_state \<times> 'a kernel_scheme" where
  "sem_handoff_locked idx s k =
     (if \<not> s_count (semaphores s ! idx) > 0 then (s, k)
      else case sem_waiter_head_locked s idx of
        None \<Rightarrow> (s, k)
      | Some sl \<Rightarrow>
        (case proc_get k (w_pid (waiters s ! sl)) of
           None \<Rightarrow> sem_handoff_locked idx (sem_waiter_del_locked sl (w_pid (waiters s ! sl)) s) k
         | Some waiter \<Rightarrow>
           let s = upd_sem idx (\<lambda>x. x\<lparr>s_count := s_count x - 1\<rparr>) s;
               s = upd_waiter sl (\<lambda>w. w\<lparr>w_granted := True\<rparr>) s;
               s = (if sem_is_binary s idx
                    then upd_sem idx (\<lambda>x. x\<lparr>s_occupied_pid := w_pid (waiters s ! sl)\<rparr>) s else s);
               s = sem_refresh_occupied idx s
           in (s, proc_wakeup_by waiter (sem_token s idx) k)))"
  by pat_completeness auto

termination
  by (relation "measure (\<lambda>(idx, s, k). live_waiters s)")
    (auto simp: sem_waiter_head_SomeD(1,3) intro!: live_waiters_del)

declare sem_handoff_locked.simps [simp del]

definition sem_purge_at :: "nat \<Rightarrow> nat \<Rightarrow> sem_state \<times> 'a kernel_scheme \<Rightarrow> sem_state \<times> 'a kernel_scheme" where
  "sem_purge_at idx i sk = (case sk of (s, k) \<Rightarrow>
     if w_sem_id (waiters s ! i) \<noteq> int idx + 1 then (s, k)
     else let pid = w_pid (waiters s ! i);
              s = sem_waiter_del_locked i pid s in
          case proc_get k pid of None \<Rightarrow> (s, k) | Some waiter \<Rightarrow> (s, proc_wakeup_by waiter (sem_token s idx) k))"

definition sem_waiter_purge_locked :: "nat \<Rightarrow> sem_state \<Rightarrow> 'a kernel_scheme \<Rightarrow> sem_state \<times> 'a kernel_scheme" where
  "sem_waiter_purge_locked idx s k = fold (sem_purge_at idx) [0..<length (waiters s)] (s, k)"

definition sem_reset_locked :: "nat \<Rightarrow> sem_state \<Rightarrow> 'a kernel_scheme \<Rightarrow> sem_state \<times> 'a kernel_scheme" where
  "sem_reset_locked idx s k =
     (let (s, k) = sem_waiter_purge_locked idx s k in
      (upd_sem idx (\<lambda>_. \<lparr>s_creater_pid = -1, s_occupied_pid = -1, s_occupied = False, s_count = 0, s_max_count = 1\<rparr>) s, k))"

definition sem_try_acquire_locked :: "nat \<Rightarrow> int \<Rightarrow> sem_state \<Rightarrow> bool \<times> sem_state" where
  "sem_try_acquire_locked idx pid s =
     (if s_count (semaphores s ! idx) \<le> 0 then (False, s)
      else let s = upd_sem idx (\<lambda>x. x\<lparr>s_count := s_count x - 1\<rparr>) s;
               s = (if sem_is_binary s idx then upd_sem idx (\<lambda>x. x\<lparr>s_occupied_pid := pid\<rparr>) s else s)
           in (True, sem_refresh_occupied idx s))"

section \<open>Operations\<close>

definition semaphore_init :: "u64 \<Rightarrow> sem_state" where
  "semaphore_init base = \<lparr>semaphores = replicate SEMAPHORE_MAX \<lparr>s_creater_pid = -1, s_occupied_pid = -1,
       s_occupied = False, s_count = 0, s_max_count = 1\<rparr>,
     waiters = replicate SEM_WAITER_MAX \<lparr>w_sem_id = 0, w_pid = -1, w_seq = 0, w_granted = False\<rparr>,
     waiter_seq = 0, sem_base = base\<rparr>"

definition sem_alloc_raw :: "int \<Rightarrow> int \<Rightarrow> sem_state \<Rightarrow> 'a kernel_scheme \<Rightarrow> int \<times> sem_state" where
  "sem_alloc_raw count max_count s k =
     (case proc_get_proc k (get_current_proc k) of
        None \<Rightarrow> (0, s)
      | Some p \<Rightarrow>
        let count = (if count < 0 then 0 else count) in
        (case find_index (\<lambda>x. s_creater_pid x = -1) (semaphores s) of
           None \<Rightarrow> (0, s)
         | Some i \<Rightarrow> (int i + 1, sem_refresh_occupied i (upd_sem i (\<lambda>x. x\<lparr>s_creater_pid := p_pid (the_proc k p),
               s_count := count, s_max_count := max_count, s_occupied_pid := -1\<rparr>) s))))"

definition semaphore_alloc :: "sem_state \<Rightarrow> 'a kernel_scheme \<Rightarrow> int \<times> sem_state" where
  "semaphore_alloc s k = sem_alloc_raw 1 1 s k"

definition semaphore_alloc_count :: "u32 \<Rightarrow> sem_state \<Rightarrow> 'a kernel_scheme \<Rightarrow> int \<times> sem_state" where
  "semaphore_alloc_count count s k = sem_alloc_raw (sint count) SEMAPHORE_COUNT_MAX s k"

definition sem_clear_at :: "int \<Rightarrow> nat \<Rightarrow> sem_state \<times> 'a kernel_scheme \<Rightarrow> sem_state \<times> 'a kernel_scheme" where
  "sem_clear_at pid i sk = (case sk of (s, k) \<Rightarrow>
     if s_creater_pid (semaphores s ! i) = pid then sem_reset_locked i s k else (s, k))"

definition semaphore_clear :: "int \<Rightarrow> sem_state \<Rightarrow> 'a kernel_scheme \<Rightarrow> sem_state \<times> 'a kernel_scheme" where
  "semaphore_clear pid s k = fold (sem_clear_at pid) [0..<length (semaphores s)] (s, k)"

definition clear_waiter_at :: "int \<Rightarrow> nat \<Rightarrow> sem_state \<times> 'a kernel_scheme \<Rightarrow> sem_state \<times> 'a kernel_scheme" where
  "clear_waiter_at pid i sk = (case sk of (s, k) \<Rightarrow>
     let w = waiters s ! i in
     if w_sem_id w = 0 \<or> w_pid w \<noteq> pid then (s, k)
     else let idx = nat (w_sem_id w - 1); granted = w_granted w;
              s = sem_waiter_del_locked i pid s in
       if \<not> granted \<or> \<not> sem_valid_idx s idx then (s, k)
       else let s = upd_sem idx (\<lambda>x. if s_count x < s_max_count x then x\<lparr>s_count := s_count x + 1\<rparr> else x) s;
                s = upd_sem idx (\<lambda>x. if s_occupied_pid x = pid then x\<lparr>s_occupied_pid := -1\<rparr> else x) s;
                s = sem_refresh_occupied idx s
            in sem_handoff_locked idx s k)"

definition clear_holder_at :: "int \<Rightarrow> nat \<Rightarrow> sem_state \<times> 'a kernel_scheme \<Rightarrow> sem_state \<times> 'a kernel_scheme" where
  "clear_holder_at pid i sk = (case sk of (s, k) \<Rightarrow>
     if \<not> sem_valid_idx s i \<or> \<not> sem_is_binary s i then (s, k)
     else if \<not> s_occupied (semaphores s ! i) \<or> s_occupied_pid (semaphores s ! i) \<noteq> pid then (s, k)
     else sem_handoff_locked i (upd_sem i (\<lambda>x. x\<lparr>s_count := s_max_count x, s_occupied := False,
            s_occupied_pid := -1\<rparr>) s) k)"

definition semaphore_clear_occupied :: "int \<Rightarrow> sem_state \<Rightarrow> 'a kernel_scheme \<Rightarrow> sem_state \<times> 'a kernel_scheme" where
  "semaphore_clear_occupied pid s k =
     fold (clear_holder_at pid) [0..<length (semaphores s)]
       (fold (clear_waiter_at pid) [0..<length (waiters s)] (s, k))"

definition semaphore_free :: "u32 \<Rightarrow> sem_state \<Rightarrow> 'a kernel_scheme \<Rightarrow> sem_state \<times> 'a kernel_scheme" where
  "semaphore_free sem_id s k =
     (if sem_id = 0 \<or> unat sem_id > length (semaphores s) then (s, k)
      else let idx = unat sem_id - 1 in
        (case proc_get_proc k (get_current_proc k) of None \<Rightarrow> (s, k)
         | Some c \<Rightarrow> if s_creater_pid (semaphores s ! idx) = p_pid (the_proc k c)
                   then sem_reset_locked idx s k else (s, k)))"

text \<open>The first critical section of an enter: an answer, or the slot to park on.\<close>

datatype enter_verdict = Verdict u64 | ParkOn nat

definition sem_enter_locked :: "nat \<Rightarrow> int \<Rightarrow> sem_state \<Rightarrow> enter_verdict \<times> sem_state" where
  "sem_enter_locked idx pid s =
     (if \<not> sem_valid_idx s idx then (Verdict SEM_RES_ERROR, s)
      else let sl = sem_waiter_find_locked (Suc idx) pid s in
        if (case sl of None \<Rightarrow> False | Some i \<Rightarrow> w_granted (waiters s ! i))
        then (Verdict SEM_RES_ACQUIRED, sem_waiter_del_locked (the sl) pid s)
        else let (ok, s) = sem_try_acquire_locked idx pid s in
          if ok then (Verdict SEM_RES_ACQUIRED, (case sl of None \<Rightarrow> s | Some i \<Rightarrow> sem_waiter_del_locked i pid s))
          else (case sl of
              Some i \<Rightarrow> (ParkOn i, s)
            | None \<Rightarrow>
              (case sem_waiter_add_locked (Suc idx) pid s of
                 (None, s) \<Rightarrow> (Verdict SEM_RES_OCCUPIED, s)
               | (Some i, s) \<Rightarrow> (ParkOn i, s))))"

text \<open>After the lock is dropped: a context that serves an ipc request settles its slot and yields, any
  other task parks with the verdict of a release without a permit staged.\<close>

definition sem_enter_park ::
  "context_t \<Rightarrow> nat \<Rightarrow> nat \<Rightarrow> nat \<Rightarrow> u32 \<Rightarrow> sem_state \<Rightarrow> 'a kernel_scheme \<Rightarrow> context_t \<times> sem_state \<times> 'a kernel_scheme" where
  "sem_enter_park ctx idx sl c timeout_usec s k =
     (let pid = p_pid (the_proc k c) in
      if proc_ipc_sync_serving k c then
        let w = waiters s ! sl;
            granted = (w_sem_id w = int (Suc idx) \<and> w_pid w = pid \<and> w_granted w);
            s = sem_waiter_del_locked sl pid s in
        if granted then (set_gpr 0 SEM_RES_ACQUIRED ctx, s, k)
        else let (ctx, k) = schedule (set_gpr 0 SEM_RES_OCCUPIED ctx) k in (ctx, s, k)
      else
        let ctx = set_gpr 0 (if timeout_usec > 0 then SEM_RES_TIMEOUT else SEM_RES_RETRY) ctx;
            (ctx, k) = (if timeout_usec > 0
              then proc_block_by_timeout ctx c (sem_token s idx) timeout_usec k
              else proc_block_by ctx c (sem_token s idx) k)
        in (ctx, s, k))"

definition semaphore_enter_raw ::
  "context_t \<Rightarrow> u32 \<Rightarrow> u32 \<Rightarrow> sem_state \<Rightarrow> 'a kernel_scheme \<Rightarrow> context_t \<times> sem_state \<times> 'a kernel_scheme" where
  "semaphore_enter_raw ctx sem_id timeout_usec s k =
     (let ctx = set_gpr 0 SEM_RES_ERROR ctx in
      if sem_id = 0 \<or> unat sem_id > length (semaphores s) then (ctx, s, k)
      else let idx = unat sem_id - 1 in
        (case get_current_proc k of None \<Rightarrow> (ctx, s, k)
         | Some c \<Rightarrow>
           if \<not> sem_valid_idx s idx then (ctx, s, k)
           else (case sem_enter_locked idx (p_pid (the_proc k c)) s of
              (Verdict r, s) \<Rightarrow> (set_gpr 0 r ctx, s, k)
            | (ParkOn sl, s) \<Rightarrow> sem_enter_park ctx idx sl c timeout_usec s k)))"

definition semaphore_enter where
  "semaphore_enter ctx sem_id s k = semaphore_enter_raw ctx sem_id 0 s k"

definition semaphore_enter_timeout where
  "semaphore_enter_timeout ctx sem_id timeout_usec s k = semaphore_enter_raw ctx sem_id timeout_usec s k"

definition semaphore_try_enter ::
  "context_t \<Rightarrow> u32 \<Rightarrow> sem_state \<Rightarrow> 'a kernel_scheme \<Rightarrow> context_t \<times> sem_state" where
  "semaphore_try_enter ctx sem_id s k =
     (let ctx = set_gpr 0 SEM_RES_ERROR ctx in
      if sem_id = 0 \<or> unat sem_id > length (semaphores s) then (ctx, s)
      else let idx = unat sem_id - 1 in
        (case get_current_proc k of None \<Rightarrow> (ctx, s)
         | Some c \<Rightarrow>
           let pid = p_pid (the_proc k c) in
           if \<not> sem_valid_idx s idx then (ctx, s)
           else let sl = sem_waiter_find_locked (unat sem_id) pid s;
                    granted = (case sl of None \<Rightarrow> False | Some i \<Rightarrow> w_granted (waiters s ! i));
                    s = (case sl of None \<Rightarrow> s | Some i \<Rightarrow> sem_waiter_del_locked i pid s) in
             if granted then (set_gpr 0 SEM_RES_ACQUIRED ctx, s)
             else let (ok, s) = sem_try_acquire_locked idx pid s
               in (set_gpr 0 (if ok then SEM_RES_ACQUIRED else SEM_RES_OCCUPIED) ctx, s)))"

definition semaphore_get_count :: "u32 \<Rightarrow> sem_state \<Rightarrow> int" where
  "semaphore_get_count sem_id s =
     (if sem_id = 0 \<or> unat sem_id > length (semaphores s) then -1
      else let idx = unat sem_id - 1 in if sem_valid_idx s idx then s_count (semaphores s ! idx) else -1)"

definition semaphore_quit :: "u32 \<Rightarrow> sem_state \<Rightarrow> 'a kernel_scheme \<Rightarrow> int \<times> sem_state \<times> 'a kernel_scheme" where
  "semaphore_quit sem_id s k =
     (if sem_id = 0 \<or> unat sem_id > length (semaphores s) then (-1, s, k)
      else let idx = unat sem_id - 1 in
        (case get_current_proc k of None \<Rightarrow> (-1, s, k)
         | Some c \<Rightarrow>
           if \<not> sem_valid_idx s idx \<or> s_count (semaphores s ! idx) \<ge> s_max_count (semaphores s ! idx)
           then (-1, s, k)
           else let s = upd_sem idx (\<lambda>x. x\<lparr>s_count := s_count x + 1\<rparr>) s;
                    s = (if sem_is_binary s idx \<and> s_occupied_pid (semaphores s ! idx) = p_pid (the_proc k c)
                         then upd_sem idx (\<lambda>x. x\<lparr>s_occupied_pid := -1\<rparr>) s else s);
                    s = sem_refresh_occupied idx s
                in (0, sem_handoff_locked idx s k)))"

end
