(* ===== verification/Sem_Props.thy ===== *)
theory Sem_Props
  imports Semaphore
begin

text \<open>
  Invariant and properties of the semaphores: the permit pool of a semaphore (permits available plus
  permits handed to waiters that have not collected them) changes only by an acquisition or a release,
  the wait queue is served in order of arrival, and a permit is never free while a task waits.
\<close>

section \<open>Elementary changes\<close>

definition take_permit :: "int \<Rightarrow> semaphore_t \<Rightarrow> semaphore_t" where
  "take_permit pid x = x\<lparr>s_count := s_count x - 1, s_occupied_pid := (if s_max_count x = 1 then pid else s_occupied_pid x),
     s_occupied := (s_count x - 1 \<le> 0)\<rparr>"

definition free_waiter :: "sem_waiter_t \<Rightarrow> sem_waiter_t" where
  "free_waiter w = w\<lparr>w_sem_id := 0, w_pid := -1, w_granted := False\<rparr>"

lemma free_waiter_simps [simp]:
  "w_sem_id (free_waiter w) = 0" "\<not> w_granted (free_waiter w)" "w_pid (free_waiter w) = -1"
  by (simp_all add: free_waiter_def)

lemma sem_try_acquire_eq:
  assumes "idx < length (semaphores s)"
  shows "sem_try_acquire_locked idx pid s =
    (if s_count (semaphores s ! idx) \<le> 0 then (False, s)
     else (True, s\<lparr>semaphores := (semaphores s)[idx := take_permit pid (semaphores s ! idx)]\<rparr>))"
  using assms by (simp add: sem_try_acquire_locked_def sem_refresh_occupied_def upd_sem_def sem_is_binary_def
      take_permit_def Let_def)

lemma sem_waiter_del_eq:
  "sem_waiter_del_locked i pid s =
     (if i < length (waiters s) \<and> w_sem_id (waiters s ! i) \<noteq> 0 \<and> w_pid (waiters s ! i) = pid
      then s\<lparr>waiters := (waiters s)[i := free_waiter (waiters s ! i)]\<rparr> else s)"
  by (simp add: sem_waiter_del_locked_def upd_waiter_def free_waiter_def)

lemma sem_handoff_eq:
  assumes "idx < length (semaphores s)"
  shows "sem_handoff_locked idx s k =
     (if s_count (semaphores s ! idx) \<le> 0 then (s, k)
      else case sem_waiter_head_locked s idx of
        None \<Rightarrow> (s, k)
      | Some b \<Rightarrow>
        (case proc_get k (w_pid (waiters s ! b)) of
           None \<Rightarrow> sem_handoff_locked idx (s\<lparr>waiters := (waiters s)[b := free_waiter (waiters s ! b)]\<rparr>) k
         | Some p \<Rightarrow> (s\<lparr>semaphores := (semaphores s)[idx := take_permit (w_pid (waiters s ! b)) (semaphores s ! idx)],
               waiters := (waiters s)[b := (waiters s ! b)\<lparr>w_granted := True\<rparr>]\<rparr>,
             proc_wakeup_by p (sem_token s idx) k)))"
proof -
  have d: "sem_waiter_del_locked b (w_pid (waiters s ! b)) s = s\<lparr>waiters := (waiters s)[b := free_waiter (waiters s ! b)]\<rparr>"
    if "sem_waiter_head_locked s idx = Some b" for b
    using sem_waiter_head_SomeD [OF that] by (simp add: sem_waiter_del_eq)
  have w: "(waiters s)[b := (waiters s ! b)\<lparr>w_granted := True\<rparr>] ! b = (waiters s ! b)\<lparr>w_granted := True\<rparr>"
    if "sem_waiter_head_locked s idx = Some b" for b
    using sem_waiter_head_SomeD(1) [OF that] by simp
  show ?thesis
    using assms
    by (subst sem_handoff_locked.simps)
      (auto simp: d w Let_def upd_sem_def upd_waiter_def sem_is_binary_def sem_refresh_occupied_def take_permit_def
        sem_token_def split: option.split)
qed

section \<open>The invariant\<close>

definition count_of :: "sem_state \<Rightarrow> nat \<Rightarrow> int" where
  "count_of s idx = s_count (semaphores s ! idx)"

definition waiting :: "sem_state \<Rightarrow> nat \<Rightarrow> bool" where
  "waiting s idx \<longleftrightarrow> (\<exists>w \<in> set (waiters s). waits_on (int idx + 1) w)"

definition sems_ok :: "sem_state \<Rightarrow> bool" where
  "sems_ok s \<longleftrightarrow> (\<forall>idx. sem_valid_idx s idx \<longrightarrow>
     (let x = semaphores s ! idx in 0 \<le> s_count x \<and> s_count x \<le> s_max_count x \<and> 1 \<le> s_max_count x \<and>
        s_occupied x = (s_count x \<le> 0)))"

definition waiters_ok :: "sem_state \<Rightarrow> bool" where
  "waiters_ok s \<longleftrightarrow> (\<forall>w \<in> set (waiters s). w_sem_id w \<noteq> 0 \<longrightarrow> (\<exists>idx. w_sem_id w = int idx + 1 \<and> sem_valid_idx s idx)) \<and>
     (\<forall>i j. i < length (waiters s) \<longrightarrow> j < length (waiters s) \<longrightarrow> w_sem_id (waiters s ! i) \<noteq> 0 \<longrightarrow>
        w_sem_id (waiters s ! i) = w_sem_id (waiters s ! j) \<longrightarrow> w_pid (waiters s ! i) = w_pid (waiters s ! j) \<longrightarrow> i = j)"

text \<open>\<open>sem_inv E s\<close>: the invariant, where a semaphore of \<open>E\<close> may have one free permit although a task waits
  for it, as between a release and the hand-off that follows it.\<close>

definition sem_inv :: "nat set \<Rightarrow> sem_state \<Rightarrow> bool" where
  "sem_inv E s \<longleftrightarrow> sems_ok s \<and> waiters_ok s \<and>
     (\<forall>idx. sem_valid_idx s idx \<longrightarrow> waiting s idx \<longrightarrow> count_of s idx \<le> (if idx \<in> E then 1 else 0))"

definition granted_of :: "sem_state \<Rightarrow> nat \<Rightarrow> nat" where
  "granted_of s idx = length (filter (\<lambda>w. w_sem_id w = int idx + 1 \<and> w_granted w) (waiters s))"

definition permits :: "sem_state \<Rightarrow> nat \<Rightarrow> int" where
  "permits s idx = count_of s idx + int (granted_of s idx)"

lemma sem_inv_weaken:
  assumes "sem_inv E s" "\<And>j. j \<in> E \<Longrightarrow> j \<notin> F \<Longrightarrow> waiting s j \<Longrightarrow> count_of s j \<le> 0"
  shows "sem_inv F s"
proof -
  have "count_of s j \<le> (if j \<in> F then 1 else 0)" if "sem_valid_idx s j" "waiting s j" for j
  proof -
    have "count_of s j \<le> (if j \<in> E then 1 else 0)" using assms(1) that unfolding sem_inv_def by blast
    with assms(2) [of j] that show ?thesis by (auto split: if_splits)
  qed
  with assms(1) show ?thesis unfolding sem_inv_def by blast
qed

lemma sem_inv_mono: "sem_inv E s \<Longrightarrow> E \<subseteq> F \<Longrightarrow> sem_inv F s"
  by (rule sem_inv_weaken) auto

lemma valid_upd_sem:
  "s_creater_pid y = s_creater_pid (semaphores s ! idx) \<Longrightarrow>
     sem_valid_idx (s\<lparr>semaphores := (semaphores s)[idx := y]\<rparr>) j = sem_valid_idx s j"
  by (cases "j = idx") (auto simp: sem_valid_idx_def)

lemma valid_waiters [simp]: "sem_valid_idx (s\<lparr>waiters := ws\<rparr>) j = sem_valid_idx s j"
  by (simp add: sem_valid_idx_def)

lemma waiting_sems [simp]:
  "waiting (s\<lparr>semaphores := x\<rparr>) j = waiting s j" "granted_of (s\<lparr>semaphores := x\<rparr>) j = granted_of s j"
  "waiting (s\<lparr>waiter_seq := q\<rparr>) j = waiting s j" "granted_of (s\<lparr>waiter_seq := q\<rparr>) j = granted_of s j"
  "count_of (s\<lparr>waiters := ws\<rparr>) j = count_of s j" "count_of (s\<lparr>waiter_seq := q\<rparr>) j = count_of s j"
  by (simp_all add: waiting_def granted_of_def count_of_def)

text \<open>A change of one semaphore that keeps its owner.\<close>

lemma sem_inv_upd_sem:
  assumes "sem_inv E s" "s_creater_pid y = s_creater_pid (semaphores s ! idx)" "idx < length (semaphores s)"
    and "sem_valid_idx s idx \<Longrightarrow> 0 \<le> s_count y \<and> s_count y \<le> s_max_count y \<and> 1 \<le> s_max_count y \<and> s_occupied y = (s_count y \<le> 0)"
    and "sem_valid_idx s idx \<Longrightarrow> waiting s idx \<Longrightarrow> s_count y \<le> (if idx \<in> F then 1 else 0)" "E \<subseteq> insert idx F"
  shows "sem_inv F (s\<lparr>semaphores := (semaphores s)[idx := y]\<rparr>)"
proof -
  let ?s = "s\<lparr>semaphores := (semaphores s)[idx := y]\<rparr>"
  note v = valid_upd_sem [OF assms(2)]
  have "sems_ok ?s"
    using assms(1,4) assms(3) unfolding sem_inv_def sems_ok_def v by (auto simp: nth_list_update Let_def)
  moreover have "waiters_ok ?s"
    using assms(1) unfolding sem_inv_def waiters_ok_def v by simp
  moreover have "count_of ?s j \<le> (if j \<in> F then 1 else 0)" if "sem_valid_idx s j" "waiting s j" for j
  proof (cases "j = idx")
    case False
    have "count_of s j \<le> (if j \<in> E then 1 else 0)" using assms(1) that unfolding sem_inv_def by blast
    with False assms(6) show ?thesis by (auto simp: count_of_def split: if_splits)
  qed (use assms(3,5) that in \<open>simp add: count_of_def\<close>)
  ultimately show ?thesis unfolding sem_inv_def v by simp
qed

text \<open>A change of one waiter slot that frees it or grants it.\<close>

lemma sem_inv_upd_waiter:
  assumes "sem_inv E s" "b < length (waiters s)"
    "w' = free_waiter (waiters s ! b) \<or> w' = (waiters s ! b)\<lparr>w_granted := True\<rparr>"
  shows "sem_inv E (s\<lparr>waiters := (waiters s)[b := w']\<rparr>)"
proof -
  let ?s = "s\<lparr>waiters := (waiters s)[b := w']\<rparr>"
  have id: "w_sem_id w' \<noteq> 0 \<Longrightarrow> w_sem_id w' = w_sem_id (waiters s ! b) \<and> w_pid w' = w_pid (waiters s ! b)"
    using assms(3) by auto
  have nw: "waits_on n w' \<Longrightarrow> n = 0" for n using assms(3) by (auto simp: waits_on_def)
  have "waiting s idx" if "waiting ?s idx" for idx
    using that nw [of "int idx + 1"] assms(2) by (auto simp: waiting_def in_set_list_update_iff) (metis nth_mem)
  moreover have "waiters_ok ?s"
    unfolding waiters_ok_def
  proof (intro conjI)
    show "\<forall>w \<in> set (waiters ?s). w_sem_id w \<noteq> 0 \<longrightarrow> (\<exists>idx. w_sem_id w = int idx + 1 \<and> sem_valid_idx ?s idx)"
      using assms(1,2) id unfolding sem_inv_def waiters_ok_def
      by (auto simp: in_set_list_update_iff)
    show "\<forall>i j. i < length (waiters ?s) \<longrightarrow> j < length (waiters ?s) \<longrightarrow> w_sem_id (waiters ?s ! i) \<noteq> 0 \<longrightarrow>
        w_sem_id (waiters ?s ! i) = w_sem_id (waiters ?s ! j) \<longrightarrow> w_pid (waiters ?s ! i) = w_pid (waiters ?s ! j) \<longrightarrow> i = j"
      using assms(1,2) id unfolding sem_inv_def waiters_ok_def
      by (auto simp: nth_list_update split: if_splits)
  qed
  ultimately show ?thesis
    using assms(1) unfolding sem_inv_def sems_ok_def by auto
qed

lemma granted_upd_waiter:
  assumes "b < length (waiters s)"
  shows "int (granted_of (s\<lparr>waiters := (waiters s)[b := w']\<rparr>) idx) = int (granted_of s idx)
    - (if w_sem_id (waiters s ! b) = int idx + 1 \<and> w_granted (waiters s ! b) then 1 else 0)
    + (if w_sem_id w' = int idx + 1 \<and> w_granted w' then 1 else 0)"
  using length_filter_update [OF assms, of "\<lambda>w. w_sem_id w = int idx + 1 \<and> w_granted w" w']
  by (auto simp: granted_of_def split: if_splits)

lemma count_upd_sem:
  "idx < length (semaphores s) \<Longrightarrow> count_of (s\<lparr>semaphores := (semaphores s)[idx := y]\<rparr>) j = (if j = idx then s_count y else count_of s j)"
  by (simp add: count_of_def nth_list_update)


lemma sem_invD:
  assumes "sem_inv E s" "sem_valid_idx s idx"
  shows "0 \<le> s_count (semaphores s ! idx)" "s_count (semaphores s ! idx) \<le> s_max_count (semaphores s ! idx)"
    "1 \<le> s_max_count (semaphores s ! idx)" "s_occupied (semaphores s ! idx) = (s_count (semaphores s ! idx) \<le> 0)"
    "waiting s idx \<Longrightarrow> s_count (semaphores s ! idx) \<le> (if idx \<in> E then 1 else 0)"
  using assms unfolding sem_inv_def sems_ok_def Let_def count_of_def by blast+

lemma validD: "sem_valid_idx s idx \<Longrightarrow> idx < length (semaphores s)"
  by (simp add: sem_valid_idx_def)

text \<open>What every internal step keeps: the tables' sizes, which semaphores exist, and the permit pools.\<close>

definition pools_kept :: "sem_state \<Rightarrow> sem_state \<Rightarrow> bool" where
  "pools_kept s s' \<longleftrightarrow> length (semaphores s') = length (semaphores s) \<and> length (waiters s') = length (waiters s) \<and>
     sem_base s' = sem_base s \<and> (\<forall>j. sem_valid_idx s' j = sem_valid_idx s j) \<and>
     (\<forall>j. s_max_count (semaphores s' ! j) = s_max_count (semaphores s ! j)) \<and> (\<forall>j. permits s' j = permits s j)"

lemma pools_kept_refl [simp]: "pools_kept s s"
  by (simp add: pools_kept_def)

lemma pools_kept_trans: "pools_kept s t \<Longrightarrow> pools_kept t u \<Longrightarrow> pools_kept s u"
  by (auto simp: pools_kept_def)

lemma pools_kept_free:
  "b < length (waiters s) \<Longrightarrow> \<not> w_granted (waiters s ! b) \<Longrightarrow>
     pools_kept s (s\<lparr>waiters := (waiters s)[b := free_waiter (waiters s ! b)]\<rparr>)"
  by (simp add: pools_kept_def permits_def granted_upd_waiter)

lemma take_permit_simps [simp]:
  "s_creater_pid (take_permit pid x) = s_creater_pid x" "s_max_count (take_permit pid x) = s_max_count x"
  "s_count (take_permit pid x) = s_count x - 1" "s_occupied (take_permit pid x) = (s_count x - 1 \<le> 0)"
  by (simp_all add: take_permit_def)

lemma handoff_inv:
  assumes "sem_inv E s" "sem_valid_idx s idx" "E \<subseteq> insert idx F" "idx \<notin> F"
  shows "sem_inv F (fst (sem_handoff_locked idx s k)) \<and> pools_kept s (fst (sem_handoff_locked idx s k))"
  using assms
proof (induction idx s k rule: sem_handoff_locked.induct)
  case (1 idx s k)
  note inv = sem_invD [OF "1.prems"(1,2)] and len = validD [OF "1.prems"(2)]
  show ?case
  proof (cases "s_count (semaphores s ! idx) \<le> 0")
    case True
    have "sem_inv F s"
      by (rule sem_inv_weaken [OF "1.prems"(1)]) (use "1.prems"(3) True in \<open>auto simp: count_of_def\<close>)
    with True show ?thesis by (simp add: sem_handoff_eq [OF len])
  next
    case pos: False
    show ?thesis
    proof (cases "sem_waiter_head_locked s idx")
      case None
      then have nw: "\<not> waiting s idx" using sem_waiter_head_spec [of s idx] by (simp add: waiting_def)
      have "sem_inv F s"
        by (rule sem_inv_weaken [OF "1.prems"(1)]) (use "1.prems"(3) nw in auto)
      with None pos show ?thesis by (simp add: sem_handoff_eq [OF len])
    next
      case (Some b)
      note h = sem_waiter_head_SomeD [OF Some]
      show ?thesis
      proof (cases "proc_get k (w_pid (waiters s ! b))")
        case None
        let ?s = "s\<lparr>waiters := (waiters s)[b := free_waiter (waiters s ! b)]\<rparr>"
        have del: "sem_waiter_del_locked b (w_pid (waiters s ! b)) s = ?s" using h by (simp add: sem_waiter_del_eq)
        have i: "sem_inv E ?s" by (rule sem_inv_upd_waiter [OF "1.prems"(1) h(1)]) simp
        have p: "pools_kept s ?s" by (rule pools_kept_free [OF h(1,4)])
        from "1.IH" [of b] pos Some None i "1.prems"(2-4) have
          "sem_inv F (fst (sem_handoff_locked idx ?s k)) \<and> pools_kept ?s (fst (sem_handoff_locked idx ?s k))"
          by (simp add: del)
        with p pools_kept_trans [OF p] pos Some None show ?thesis by (simp add: sem_handoff_eq [OF len])
      next
        case p: (Some q)
        let ?y = "take_permit (w_pid (waiters s ! b)) (semaphores s ! idx)"
        let ?t = "s\<lparr>semaphores := (semaphores s)[idx := ?y]\<rparr>"
        have w: "waiting s idx" using h by (auto simp: waiting_def)
        have "sem_inv F ?t"
          by (rule sem_inv_upd_sem [OF "1.prems"(1) _ len]) (use inv pos w "1.prems"(3,4) in \<open>auto split: if_splits\<close>)
        then have i: "sem_inv F (?t\<lparr>waiters := (waiters s)[b := (waiters s ! b)\<lparr>w_granted := True\<rparr>]\<rparr>)"
          using sem_inv_upd_waiter [of F ?t b] h(1) by simp
        have "pools_kept s (?t\<lparr>waiters := (waiters s)[b := (waiters s ! b)\<lparr>w_granted := True\<rparr>]\<rparr>)"
          using granted_upd_waiter [of b ?t "(waiters s ! b)\<lparr>w_granted := True\<rparr>"] h count_upd_sem [OF len, of ?y] len
          by (auto simp: pools_kept_def permits_def valid_upd_sem nth_list_update count_of_def)
        with i p pos Some show ?thesis by (simp add: sem_handoff_eq [OF len])
      qed
    qed
  qed
qed

section \<open>The operations\<close>

text \<open>The permit pool of one semaphore moved by \<open>d\<close>, everything else kept.\<close>

definition pools_moved :: "int \<Rightarrow> nat \<Rightarrow> sem_state \<Rightarrow> sem_state \<Rightarrow> bool" where
  "pools_moved d idx s s' \<longleftrightarrow> length (semaphores s') = length (semaphores s) \<and> length (waiters s') = length (waiters s) \<and>
     (\<forall>j. sem_valid_idx s' j = sem_valid_idx s j) \<and> (\<forall>j. permits s' j = permits s j + (if j = idx then d else 0))"

lemma pools_moved_kept: "pools_kept s s' \<Longrightarrow> pools_moved 0 idx s s'"
  by (simp add: pools_moved_def pools_kept_def)

lemma pools_moved_trans: "pools_moved d idx s t \<Longrightarrow> pools_moved e idx t u \<Longrightarrow> pools_moved (d + e) idx s u"
  by (auto simp: pools_moved_def)

lemma pools_moved_free:
  assumes "b < length (waiters s)" "w_sem_id (waiters s ! b) = int idx + 1"
  shows "pools_moved (if w_granted (waiters s ! b) then -1 else 0) idx s
    (s\<lparr>waiters := (waiters s)[b := free_waiter (waiters s ! b)]\<rparr>)"
  using assms by (auto simp: pools_moved_def permits_def granted_upd_waiter)

lemma pools_moved_sem:
  assumes "idx < length (semaphores s)" "s_creater_pid y = s_creater_pid (semaphores s ! idx)"
  shows "pools_moved (s_count y - s_count (semaphores s ! idx)) idx s (s\<lparr>semaphores := (semaphores s)[idx := y]\<rparr>)"
  using assms by (auto simp: pools_moved_def permits_def count_upd_sem valid_upd_sem) (simp add: count_of_def)

lemma find_waiter:
  assumes "sem_waiter_find_locked (Suc idx) pid s = Some i"
  shows "i < length (waiters s)" "w_sem_id (waiters s ! i) = int idx + 1" "w_pid (waiters s ! i) = pid"
  using find_index_SomeD [OF assms [unfolded sem_waiter_find_locked_def]] by auto

lemma del_found:
  "sem_waiter_find_locked (Suc idx) pid s = Some i \<Longrightarrow>
     sem_waiter_del_locked i pid s = s\<lparr>waiters := (waiters s)[i := free_waiter (waiters s ! i)]\<rparr>"
  using find_waiter [of idx pid s i] by (simp add: sem_waiter_del_eq)

lemma acquire_inv:
  assumes "sem_inv {} s" "sem_valid_idx s idx" "s_count (semaphores s ! idx) > 0"
  shows "sem_inv {} (s\<lparr>semaphores := (semaphores s)[idx := take_permit pid (semaphores s ! idx)]\<rparr>) \<and>
    pools_moved (-1) idx s (s\<lparr>semaphores := (semaphores s)[idx := take_permit pid (semaphores s ! idx)]\<rparr>)"
proof
  show "sem_inv {} (s\<lparr>semaphores := (semaphores s)[idx := take_permit pid (semaphores s ! idx)]\<rparr>)"
    by (rule sem_inv_upd_sem [OF assms(1) _ validD [OF assms(2)]])
      (use sem_invD [OF assms(1,2)] assms(3) in auto)
  show "pools_moved (-1) idx s (s\<lparr>semaphores := (semaphores s)[idx := take_permit pid (semaphores s ! idx)]\<rparr>)"
    using pools_moved_sem [OF validD [OF assms(2)], of "take_permit pid (semaphores s ! idx)"] by simp
qed

lemma add_waiter_inv:
  assumes inv: "sem_inv {} s" and v: "sem_valid_idx s idx" and c: "s_count (semaphores s ! idx) \<le> 0"
    and nf: "sem_waiter_find_locked (Suc idx) pid s = None"
    and add: "sem_waiter_add_locked (Suc idx) pid s = (r, s')"
  shows "sem_inv {} s' \<and> pools_moved 0 idx s s'"
proof (cases r)
  case (Some i)
  define w where "w = \<lparr>w_sem_id = int (Suc idx), w_pid = pid, w_seq = waiter_seq s, w_granted = False\<rparr>"
  have i: "i < length (waiters s)" "w_sem_id (waiters s ! i) = 0"
    and s': "s' = s\<lparr>waiters := (waiters s)[i := w], waiter_seq := waiter_seq s + 1\<rparr>"
    using add Some by (auto simp: sem_waiter_add_locked_def upd_waiter_def w_def find_index_Some_iff split: option.splits)
  have other: "w_sem_id (waiters s ! j) \<noteq> int (Suc idx) \<or> w_pid (waiters s ! j) \<noteq> pid" if "j < length (waiters s)" for j
    using nf that by (auto simp: sem_waiter_find_locked_def find_index_None_iff)
  have wait: "waiting s' j \<Longrightarrow> j = idx \<or> waiting s j" for j
    using i by (auto simp: s' waiting_def in_set_list_update_iff waits_on_def w_def)
  have "waiters_ok s'"
    unfolding waiters_ok_def
  proof (intro conjI)
    show "\<forall>x \<in> set (waiters s'). w_sem_id x \<noteq> 0 \<longrightarrow> (\<exists>idx. w_sem_id x = int idx + 1 \<and> sem_valid_idx s' idx)"
    proof (intro ballI impI)
      fix x assume "x \<in> set (waiters s')" "w_sem_id x \<noteq> 0"
      then have "x = w \<or> x \<in> set (waiters s)" by (auto simp: s' dest: set_update_subset_insert [THEN subsetD])
      moreover have "\<exists>idx. w_sem_id w = int idx + 1 \<and> sem_valid_idx s' idx"
        using v by (intro exI [of _ idx]) (simp add: w_def s' sem_valid_idx_def)
      ultimately show "\<exists>idx. w_sem_id x = int idx + 1 \<and> sem_valid_idx s' idx"
        using inv \<open>w_sem_id x \<noteq> 0\<close> by (auto simp: sem_inv_def waiters_ok_def s' sem_valid_idx_def)
    qed
    show "\<forall>i j. i < length (waiters s') \<longrightarrow> j < length (waiters s') \<longrightarrow> w_sem_id (waiters s' ! i) \<noteq> 0 \<longrightarrow>
        w_sem_id (waiters s' ! i) = w_sem_id (waiters s' ! j) \<longrightarrow> w_pid (waiters s' ! i) = w_pid (waiters s' ! j) \<longrightarrow> i = j"
      using inv i other unfolding sem_inv_def waiters_ok_def
      by (auto simp: s' nth_list_update w_def split: if_splits) blast
  qed
  moreover have "count_of s' j \<le> 0" if "sem_valid_idx s' j" "waiting s' j" for j
    using inv c wait [OF that(2)] that(1) unfolding sem_inv_def
    by (auto simp: count_of_def s' sem_valid_idx_def)
  moreover have "sems_ok s'" using inv by (simp add: sem_inv_def sems_ok_def s' sem_valid_idx_def)
  moreover have "pools_moved 0 idx s s'"
    using i granted_upd_waiter [OF i(1), of w] by (auto simp: pools_moved_def permits_def s' w_def sem_valid_idx_def)
  ultimately show ?thesis by (simp add: sem_inv_def)
next
  case None
  then have "s' = s" using add by (auto simp: sem_waiter_add_locked_def split: option.splits)
  with inv show ?thesis by (simp add: pools_moved_kept)
qed

lemma enter_locked_inv:
  assumes inv: "sem_inv {} s" and e: "sem_enter_locked idx pid s = (v, s')"
  shows "sem_inv {} s' \<and> pools_moved (if v = Verdict SEM_RES_ACQUIRED then -1 else 0) idx s s'"
proof (cases "sem_valid_idx s idx")
  case True
  note len = validD [OF True]
  define sl where "sl = sem_waiter_find_locked (Suc idx) pid s"
  note ne = SEM_RES_ACQUIRED_def SEM_RES_OCCUPIED_def SEM_RES_ERROR_def
  have fr: "sem_inv {} (s\<lparr>waiters := (waiters s)[i := free_waiter (waiters s ! i)]\<rparr>) \<and>
      pools_moved (if w_granted (waiters s ! i) then -1 else 0) idx s (s\<lparr>waiters := (waiters s)[i := free_waiter (waiters s ! i)]\<rparr>)"
    if "sl = Some i" for i
    using sem_inv_upd_waiter [OF inv, of i "free_waiter (waiters s ! i)"]
      pools_moved_free [of i s idx] find_waiter [of idx pid s i] that by (auto simp: sl_def)
  show ?thesis
  proof (cases "\<exists>i. sl = Some i \<and> w_granted (waiters s ! i)")
    case g: True
    then obtain i where i: "sl = Some i" "w_granted (waiters s ! i)" by blast
    then have "v = Verdict SEM_RES_ACQUIRED" "s' = s\<lparr>waiters := (waiters s)[i := free_waiter (waiters s ! i)]\<rparr>"
      using e True by (auto simp: sem_enter_locked_def sl_def [symmetric] Let_def del_found [of idx pid s i])
    with fr [OF i(1)] i(2) show ?thesis by simp
  next
    case ng: False
    show ?thesis
    proof (cases "s_count (semaphores s ! idx) \<le> 0")
      case False
      let ?t = "s\<lparr>semaphores := (semaphores s)[idx := take_permit pid (semaphores s ! idx)]\<rparr>"
      have acq: "sem_inv {} ?t" "pools_moved (-1) idx s ?t" using acquire_inv [OF inv True] False by auto
      have v: "v = Verdict SEM_RES_ACQUIRED"
        and s': "s' = (case sl of None \<Rightarrow> ?t | Some i \<Rightarrow> sem_waiter_del_locked i pid ?t)"
        using e True ng False
        by (auto simp: sem_enter_locked_def sl_def [symmetric] Let_def sem_try_acquire_eq [OF len] split: option.splits)
      show ?thesis
      proof (cases sl)
        case None then show ?thesis using acq v s' by simp
      next
        case (Some i)
        have f: "i < length (waiters s)" "w_sem_id (waiters s ! i) = int idx + 1" "w_pid (waiters s ! i) = pid"
          using find_waiter [of idx pid s i] Some by (auto simp: sl_def)
        have s'': "s' = ?t\<lparr>waiters := (waiters ?t)[i := free_waiter (waiters ?t ! i)]\<rparr>"
          using s' Some f by (simp add: sem_waiter_del_eq)
        have "sem_inv {} s'" unfolding s'' by (rule sem_inv_upd_waiter [OF acq(1)]) (use f in auto)
        moreover have "pools_moved (-1 + 0) idx s s'"
          unfolding s'' by (rule pools_moved_trans [OF acq(2)])
            (use pools_moved_free [of i ?t idx] f ng Some in auto)
        ultimately show ?thesis using v by simp
      qed
    next
      case c: True
      show ?thesis
      proof (cases sl)
        case (Some i)
        then show ?thesis using e True ng c inv
          by (auto simp: sem_enter_locked_def sl_def [symmetric] Let_def sem_try_acquire_eq [OF len] pools_moved_kept)
      next
        case None
        obtain r t where a: "sem_waiter_add_locked (Suc idx) pid s = (r, t)" by fastforce
        have "s' = t" "v \<noteq> Verdict SEM_RES_ACQUIRED"
          using e True ng c None a
          by (auto simp: sem_enter_locked_def sl_def [symmetric] Let_def sem_try_acquire_eq [OF len] ne split: option.splits)
        with add_waiter_inv [OF inv True c _ a] None show ?thesis by (simp add: sl_def)
      qed
    qed
  qed
next
  case False
  then show ?thesis using e inv by (auto simp: sem_enter_locked_def pools_moved_kept SEM_RES_ERROR_def SEM_RES_ACQUIRED_def)
qed


lemma del_inv:
  assumes inv: "sem_inv {} s" and sid: "w_sem_id (waiters s ! b) = int idx + 1 \<or> \<not> w_granted (waiters s ! b)"
  shows "sem_inv {} (sem_waiter_del_locked b pid s) \<and>
    pools_moved (if b < length (waiters s) \<and> w_sem_id (waiters s ! b) = int idx + 1 \<and> w_pid (waiters s ! b) = pid \<and>
      w_granted (waiters s ! b) then -1 else 0) idx s (sem_waiter_del_locked b pid s)"
  using sem_inv_upd_waiter [OF inv, of b "free_waiter (waiters s ! b)"] pools_moved_free [of b s idx]
    pools_moved_kept [OF pools_kept_free] pools_moved_kept [OF pools_kept_refl] assms
  by (auto simp: sem_waiter_del_eq)

lemma try_enter_inv:
  assumes inv: "sem_inv {} s" and e: "semaphore_try_enter ctx sem_id s k = (ctx', s')"
  shows "sem_inv {} s' \<and> pools_moved (if ctx_gpr ctx' 0 = SEM_RES_ACQUIRED then -1 else 0) (unat sem_id - 1) s s'"
proof -
  note ne = SEM_RES_ACQUIRED_def SEM_RES_OCCUPIED_def SEM_RES_ERROR_def set_gpr_def
  define idx where "idx = unat sem_id - 1"
  show ?thesis
  proof (cases "sem_id = 0 \<or> unat sem_id > length (semaphores s) \<or> get_current_proc k = None \<or> \<not> sem_valid_idx s idx")
    case True
    then have "semaphore_try_enter ctx sem_id s k = (set_gpr 0 SEM_RES_ERROR ctx, s)"
      by (auto simp: semaphore_try_enter_def idx_def Let_def split: option.split)
    then show ?thesis using e inv by (auto simp: ne pools_moved_kept)
  next
    case False
    then obtain c where c: "get_current_proc k = Some c" and v: "sem_valid_idx s idx" by auto
    have id: "unat sem_id = Suc idx" using False unat_gt_0 [of sem_id] by (simp add: idx_def)
    define pid where "pid = p_pid (the_proc k c)"
    define sl where "sl = sem_waiter_find_locked (Suc idx) pid s"
    define s1 where "s1 = (case sl of None \<Rightarrow> s | Some i \<Rightarrow> sem_waiter_del_locked i pid s)"
    define granted where "granted = (case sl of None \<Rightarrow> False | Some i \<Rightarrow> w_granted (waiters s ! i))"
    have 1: "sem_inv {} s1" "pools_moved (if granted then -1 else 0) idx s s1"
    proof -
      have "sem_inv {} s1 \<and> pools_moved (if granted then -1 else 0) idx s s1"
      proof (cases sl)
        case (Some i)
        with del_inv [OF inv, of i idx pid] find_waiter [of idx pid s i] show ?thesis
          by (simp add: s1_def granted_def sl_def)
      qed (use inv in \<open>simp add: s1_def granted_def pools_moved_kept\<close>)
      then show "sem_inv {} s1" "pools_moved (if granted then -1 else 0) idx s s1" by auto
    qed
    have v1: "sem_valid_idx s1 idx" using 1(2) v by (simp add: pools_moved_def)
    have e': "(ctx', s') = (if granted then (set_gpr 0 SEM_RES_ACQUIRED (set_gpr 0 SEM_RES_ERROR ctx), s1)
        else let (ok, s) = sem_try_acquire_locked idx pid s1
          in (set_gpr 0 (if ok then SEM_RES_ACQUIRED else SEM_RES_OCCUPIED) (set_gpr 0 SEM_RES_ERROR ctx), s))"
      unfolding e [symmetric] s1_def
      using False c id by (simp add: semaphore_try_enter_def idx_def [symmetric] Let_def pid_def [symmetric]
          sl_def [symmetric] granted_def [symmetric])
    have two: "pools_moved (if granted then -1 else 0 + d) idx s t" if "pools_moved d idx s1 t" "\<not> granted" for d t
      using pools_moved_trans [OF 1(2) that(1)] that(2) by simp
    show ?thesis
      unfolding idx_def [symmetric] using e' 1 acquire_inv [OF 1(1) v1, of pid] two
      by (auto simp: sem_try_acquire_eq [OF validD [OF v1]] ne split: if_splits)
  qed
qed

lemma quit_fails:
  "semaphore_quit sem_id s k = (r, s', k') \<Longrightarrow> r \<noteq> 0 \<Longrightarrow> s' = s"
  by (auto simp: semaphore_quit_def Let_def split: option.splits if_splits)

lemma quit_success:
  assumes inv: "sem_inv {} s" and e: "semaphore_quit sem_id s k = (0, s', k')" and idx: "idx = unat sem_id - 1"
  obtains t where "sem_handoff_locked idx t k = (s', k')" "sem_inv {idx} t" "pools_moved 1 idx s t" "sem_valid_idx s idx"
    "waiters t = waiters s" "sem_base t = sem_base s" "count_of t idx = count_of s idx + 1"
proof -
  have c: "sem_id \<noteq> 0" "\<not> unat sem_id > length (semaphores s)" "sem_valid_idx s idx"
    "s_count (semaphores s ! idx) < s_max_count (semaphores s ! idx)"
    using e idx by (auto simp: semaphore_quit_def Let_def split: option.splits if_splits)
  obtain c where cur: "get_current_proc k = Some c"
    using e c(1,2) by (auto simp: semaphore_quit_def Let_def split: option.splits)
  note len = validD [OF c(3)]
  define x where "x = semaphores s ! idx"
  define y where "y = x\<lparr>s_count := s_count x + 1,
    s_occupied_pid := (if s_max_count x = 1 \<and> s_occupied_pid x = p_pid (the_proc k c) then -1 else s_occupied_pid x),
    s_occupied := (s_count x + 1 \<le> 0)\<rparr>"
  define t where "t = s\<lparr>semaphores := (semaphores s)[idx := y]\<rparr>"
  have "semaphore_quit sem_id s k = (0, sem_handoff_locked idx t k)"
    using c cur len by (simp add: semaphore_quit_def idx [symmetric] Let_def upd_sem_def sem_is_binary_def
        sem_refresh_occupied_def t_def y_def x_def del: One_nat_def)
  with e have h: "sem_handoff_locked idx t k = (s', k')" by simp
  have it: "sem_inv {idx} t"
    unfolding t_def by (rule sem_inv_upd_sem [OF inv _ len])
      (use sem_invD [OF inv c(3)] c(4) in \<open>auto simp: y_def x_def\<close>)
  have mt: "pools_moved 1 idx s t"
    using pools_moved_sem [OF len, of y] by (simp add: t_def y_def x_def)
  have ct: "count_of t idx = count_of s idx + 1" using len by (simp add: t_def count_of_def y_def x_def)
  show thesis by (rule that [OF h it mt c(3) _ _ ct]) (simp_all add: t_def)
qed

lemma quit_inv:
  assumes inv: "sem_inv {} s" and e: "semaphore_quit sem_id s k = (r, s', k')"
  shows "sem_inv {} s' \<and> pools_moved (if r = 0 then 1 else 0) (unat sem_id - 1) s s'"
proof (cases "r = 0")
  case True
  with e obtain t where t: "sem_handoff_locked (unat sem_id - 1) t k = (s', k')" "sem_inv {unat sem_id - 1} t"
    "pools_moved 1 (unat sem_id - 1) s t" "sem_valid_idx s (unat sem_id - 1)"
    using quit_success [OF inv, of sem_id k s' k' "unat sem_id - 1"] by metis
  then have "sem_valid_idx t (unat sem_id - 1)" by (simp add: pools_moved_def)
  from handoff_inv [OF t(2) this, of "{}" k] t(1) have "sem_inv {} s'" "pools_moved 0 (unat sem_id - 1) t s'"
    by (auto simp: pools_moved_kept)
  with pools_moved_trans [OF t(3) this(2)] True show ?thesis by simp
next
  case False
  with quit_fails [OF e] inv show ?thesis by (simp add: pools_moved_kept)
qed

text \<open>A parking task that serves an ipc request collects a permit that reached its slot meanwhile.\<close>

definition park_collects :: "nat \<Rightarrow> nat \<Rightarrow> nat \<Rightarrow> sem_state \<Rightarrow> 'a kernel_scheme \<Rightarrow> bool" where
  "park_collects idx b c s k \<longleftrightarrow> proc_ipc_sync_serving k c \<and> w_sem_id (waiters s ! b) = int (Suc idx) \<and>
     w_pid (waiters s ! b) = p_pid (the_proc k c) \<and> w_granted (waiters s ! b)"

lemma park_inv:
  assumes inv: "sem_inv {} s" and e: "sem_enter_park ctx idx b c timeout s k = (ctx', s', k')" and b: "b < length (waiters s)"
    and own: "w_pid (waiters s ! b) = p_pid (the_proc k c) \<Longrightarrow> w_sem_id (waiters s ! b) = int (Suc idx) \<or> \<not> w_granted (waiters s ! b)"
  shows "sem_inv {} s' \<and> pools_moved (if park_collects idx b c s k then -1 else 0) idx s s' \<and>
    (park_collects idx b c s k \<longrightarrow> ctx' = set_gpr 0 SEM_RES_ACQUIRED ctx)"
proof (cases "proc_ipc_sync_serving k c")
  case True
  have s': "s' = sem_waiter_del_locked b (p_pid (the_proc k c)) s"
    using e True by (auto simp: sem_enter_park_def Let_def case_prod_beta split: if_splits)
  have "sem_inv {} s' \<and> pools_moved (if park_collects idx b c s k then -1 else 0) idx s s'"
  proof (cases "w_pid (waiters s ! b) = p_pid (the_proc k c)")
    case pid: True
    with own del_inv [OF inv, of b idx "p_pid (the_proc k c)"] b True show ?thesis
      by (auto simp: s' park_collects_def algebra_simps)
  next
    case False
    then show ?thesis using inv by (simp add: s' sem_waiter_del_eq park_collects_def pools_moved_kept)
  qed
  with True e show ?thesis by (auto simp: sem_enter_park_def Let_def park_collects_def split: if_splits)
next
  case False
  then show ?thesis using e inv
    by (auto simp: sem_enter_park_def Let_def case_prod_beta park_collects_def pools_moved_kept)
qed


text \<open>Teardown: after the purge no slot names the semaphore.\<close>

lemma purge_at_inv:
  assumes "sem_inv E (fst sk)" "i < length (waiters (fst sk))"
  shows "sem_inv E (fst (sem_purge_at idx i sk)) \<and> length (waiters (fst (sem_purge_at idx i sk))) = length (waiters (fst sk)) \<and>
    semaphores (fst (sem_purge_at idx i sk)) = semaphores (fst sk) \<and>
    (\<forall>j. j < length (waiters (fst sk)) \<longrightarrow> waiters (fst (sem_purge_at idx i sk)) ! j =
      (if j = i \<and> w_sem_id (waiters (fst sk) ! i) = int idx + 1 then free_waiter (waiters (fst sk) ! i) else waiters (fst sk) ! j))"
proof -
  obtain s k where sk: "sk = (s, k)" by fastforce
  have "fst (sem_purge_at idx i sk) = (if w_sem_id (waiters s ! i) = int idx + 1
      then s\<lparr>waiters := (waiters s)[i := free_waiter (waiters s ! i)]\<rparr> else s)"
    using assms(2) by (auto simp: sk sem_purge_at_def Let_def sem_waiter_del_eq split: option.split)
  then show ?thesis using assms sem_inv_upd_waiter [of E s i "free_waiter (waiters s ! i)"]
    by (auto simp: sk nth_list_update)
qed

lemma purge_fold:
  assumes "sem_inv E (fst sk)" "n \<le> length (waiters (fst sk))"
  shows "let sk' = fold (sem_purge_at idx) [0..<n] sk in
    sem_inv E (fst sk') \<and> length (waiters (fst sk')) = length (waiters (fst sk)) \<and> semaphores (fst sk') = semaphores (fst sk) \<and>
    (\<forall>j. j < length (waiters (fst sk)) \<longrightarrow> waiters (fst sk') ! j =
      (if j < n \<and> w_sem_id (waiters (fst sk) ! j) = int idx + 1 then free_waiter (waiters (fst sk) ! j) else waiters (fst sk) ! j))"
  using assms
proof (induction n)
  case (Suc n)
  define sk1 where "sk1 = fold (sem_purge_at idx) [0..<n] sk"
  have ih: "sem_inv E (fst sk1)" "length (waiters (fst sk1)) = length (waiters (fst sk))" "semaphores (fst sk1) = semaphores (fst sk)"
    "\<forall>j. j < length (waiters (fst sk)) \<longrightarrow> waiters (fst sk1) ! j =
      (if j < n \<and> w_sem_id (waiters (fst sk) ! j) = int idx + 1 then free_waiter (waiters (fst sk) ! j) else waiters (fst sk) ! j)"
    using Suc by (auto simp: Let_def sk1_def)
  have n: "n < length (waiters (fst sk1))" using Suc.prems ih(2) by simp
  from purge_at_inv [OF ih(1) n, of idx] ih n show ?case
    by (simp add: Let_def sk1_def [symmetric]) (metis less_Suc_eq less_irrefl)
qed (use assms in \<open>simp add: Let_def\<close>)

lemma reset_inv:
  assumes inv: "sem_inv {} s" and idx: "idx < length (semaphores s)"
  shows "sem_inv {} (fst (sem_reset_locked idx s k)) \<and>
    length (semaphores (fst (sem_reset_locked idx s k))) = length (semaphores s) \<and>
    (\<forall>j. sem_valid_idx (fst (sem_reset_locked idx s k)) j = (sem_valid_idx s j \<and> j \<noteq> idx)) \<and>
    (\<forall>w \<in> set (waiters (fst (sem_reset_locked idx s k))). w_sem_id w \<noteq> int idx + 1)"
proof -
  obtain t k' where t: "sem_waiter_purge_locked idx s k = (t, k')" by fastforce
  have p: "sem_inv {} t" "length (waiters t) = length (waiters s)" "semaphores t = semaphores s"
    "\<forall>j. j < length (waiters s) \<longrightarrow> waiters t ! j =
      (if w_sem_id (waiters s ! j) = int idx + 1 then free_waiter (waiters s ! j) else waiters s ! j)"
    using purge_fold [of "{}" "(s, k)" "length (waiters s)" idx] inv t by (auto simp: Let_def sem_waiter_purge_locked_def)
  have none: "w_sem_id w \<noteq> int idx + 1" if "w \<in> set (waiters t)" for w
  proof -
    from that p(2) obtain j where "j < length (waiters s)" "w = waiters t ! j" by (auto simp: in_set_conv_nth)
    with p(4) [rule_format, of j] show ?thesis by (auto split: if_splits)
  qed
  define u where "u = fst (sem_reset_locked idx s k)"
  have u: "u = t\<lparr>semaphores := (semaphores s)[idx := \<lparr>s_creater_pid = -1, s_occupied_pid = -1, s_occupied = False, s_count = 0, s_max_count = 1\<rparr>]\<rparr>"
    by (simp add: u_def sem_reset_locked_def t upd_sem_def p(3))
  have v: "sem_valid_idx u j = (sem_valid_idx s j \<and> j \<noteq> idx)" for j
    using idx by (auto simp: u sem_valid_idx_def nth_list_update)
  have vt: "sem_valid_idx t j = sem_valid_idx s j" for j by (simp add: sem_valid_idx_def p(3))
  have "sems_ok u" using p(1) unfolding sem_inv_def sems_ok_def v vt by (auto simp: u p(3) Let_def)
  moreover have "waiters_ok u"
  proof -
    have "w_sem_id w \<noteq> 0 \<Longrightarrow> \<exists>j. w_sem_id w = int j + 1 \<and> sem_valid_idx u j" if "w \<in> set (waiters t)" for w
      using p(1) that none [OF that] unfolding sem_inv_def waiters_ok_def v vt by metis
    then show ?thesis using p(1) unfolding sem_inv_def waiters_ok_def by (simp add: u [symmetric]) (simp add: u)
  qed
  moreover have "count_of u j \<le> 0" if "sem_valid_idx u j" "waiting u j" for j
  proof -
    have "count_of t j \<le> 0" using p(1) that unfolding sem_inv_def v by (auto simp: vt) (simp add: u)
    moreover have "j \<noteq> idx" using that(1) v by blast
    ultimately show ?thesis by (simp add: u count_of_def p(3))
  qed
  ultimately show ?thesis using v none idx unfolding u_def [symmetric] sem_inv_def by (auto simp: u)
qed


lemma fold_inv:
  "P x \<Longrightarrow> (\<And>i y. i \<in> set is \<Longrightarrow> P y \<Longrightarrow> P (f i y)) \<Longrightarrow> P (fold f is x)"
  by (induction "is" arbitrary: x) auto

lemma clear_inv:
  assumes "sem_inv {} s"
  shows "sem_inv {} (fst (semaphore_clear pid s k))"
proof -
  have "sem_inv {} (fst sk) \<and> length (semaphores (fst sk)) = length (semaphores s)"
    if "sk = semaphore_clear pid s k" for sk :: "sem_state \<times> 'a kernel_scheme"
    unfolding that semaphore_clear_def
    by (rule fold_inv [where P = "\<lambda>sk. sem_inv {} (fst sk) \<and> length (semaphores (fst sk)) = length (semaphores s)"])
      (use assms in \<open>auto simp: sem_clear_at_def reset_inv split: prod.splits\<close>)
  then show ?thesis by blast
qed

lemma free_inv:
  assumes "sem_inv {} s"
  shows "sem_inv {} (fst (semaphore_free sem_id s k))"
proof (cases "sem_id = 0 \<or> unat sem_id > length (semaphores s)")
  case False
  then have "unat sem_id - 1 < length (semaphores s)" using unat_gt_0 [of sem_id] by auto
  with reset_inv [OF assms this, of k] assms False show ?thesis
    by (simp add: semaphore_free_def Let_def split: option.split)
qed (use assms in \<open>auto simp: semaphore_free_def\<close>)

lemma clear_waiter_at_inv:
  assumes inv: "sem_inv {} (fst sk)" and i: "i < length (waiters (fst sk))"
  shows "sem_inv {} (fst (clear_waiter_at pid i sk)) \<and>
    length (waiters (fst (clear_waiter_at pid i sk))) = length (waiters (fst sk)) \<and>
    (\<forall>j. sem_valid_idx (fst (clear_waiter_at pid i sk)) j = sem_valid_idx (fst sk) j)"
proof -
  obtain s k where sk: "sk = (s, k)" by fastforce
  define w where "w = waiters s ! i"
  define idx where "idx = nat (w_sem_id w - 1)"
  show ?thesis
  proof (cases "w_sem_id w = 0 \<or> w_pid w \<noteq> pid")
    case True
    then show ?thesis using inv by (auto simp: sk clear_waiter_at_def w_def)
  next
    case False
    let ?s = "s\<lparr>waiters := (waiters s)[i := free_waiter (waiters s ! i)]\<rparr>"
    have d: "sem_waiter_del_locked i pid s = ?s" using False i by (simp add: sk sem_waiter_del_eq w_def)
    have i1: "sem_inv {} ?s" by (rule sem_inv_upd_waiter) (use inv i in \<open>auto simp: sk\<close>)
    show ?thesis
    proof (cases "w_granted w \<and> sem_valid_idx s idx")
      case True
      then have v: "sem_valid_idx ?s idx" by simp
      define x where "x = semaphores s ! idx"
      define y where "y = x\<lparr>s_count := (if s_count x < s_max_count x then s_count x + 1 else s_count x),
        s_occupied_pid := (if s_occupied_pid x = pid then -1 else s_occupied_pid x),
        s_occupied := ((if s_count x < s_max_count x then s_count x + 1 else s_count x) \<le> 0)\<rparr>"
      define t where "t = ?s\<lparr>semaphores := (semaphores s)[idx := y]\<rparr>"
      have len: "idx < length (semaphores s)" using True by (simp add: validD)
      have e: "clear_waiter_at pid i sk = sem_handoff_locked idx t k"
        using False True len
        by (simp add: sk clear_waiter_at_def Let_def w_def [symmetric] idx_def [symmetric] d)
          (simp add: upd_sem_def sem_refresh_occupied_def t_def y_def x_def w_def)
      have it: "sem_inv {idx} t"
        using sem_inv_upd_sem [OF i1, of y idx "{idx}"] len sem_invD [OF i1 v]
        by (auto simp: t_def y_def x_def)
      have vt: "sem_valid_idx t j = sem_valid_idx s j" for j
        using len by (auto simp: t_def y_def x_def sem_valid_idx_def nth_list_update)
      have "length (waiters t) = length (waiters s)" by (simp add: t_def)
      with handoff_inv [OF it, of idx "{}" k] vt True show ?thesis
        unfolding e by (auto simp: pools_kept_def vt sk)
    next
      case F: False
      then have "clear_waiter_at pid i sk = (?s, k)"
        using False by (auto simp: sk clear_waiter_at_def Let_def w_def [symmetric] idx_def [symmetric] d)
      with i1 show ?thesis by (simp add: sk)
    qed
  qed
qed

lemma clear_holder_at_inv:
  assumes inv: "sem_inv {} (fst sk)"
  shows "sem_inv {} (fst (clear_holder_at pid i sk)) \<and>
    (\<forall>j. sem_valid_idx (fst (clear_holder_at pid i sk)) j = sem_valid_idx (fst sk) j)"
proof -
  obtain s k where sk: "sk = (s, k)" by fastforce
  show ?thesis
  proof (cases "sem_valid_idx s i \<and> sem_is_binary s i \<and> s_occupied (semaphores s ! i) \<and> s_occupied_pid (semaphores s ! i) = pid")
    case True
    define y where "y = (semaphores s ! i)\<lparr>s_count := s_max_count (semaphores s ! i), s_occupied := False, s_occupied_pid := -1\<rparr>"
    define t where "t = s\<lparr>semaphores := (semaphores s)[i := y]\<rparr>"
    have v: "sem_valid_idx s i" and inv': "sem_inv {} s" using True inv by (auto simp: sk)
    have e: "clear_holder_at pid i sk = sem_handoff_locked i t k"
      using True by (simp add: sk clear_holder_at_def upd_sem_def t_def y_def)
    have it: "sem_inv {i} t"
      using sem_inv_upd_sem [OF inv', of y i "{i}"] validD [OF v] sem_invD [OF inv' v] True
      by (auto simp: t_def y_def sem_is_binary_def)
    have vt: "sem_valid_idx t j = sem_valid_idx s j" for j unfolding t_def by (rule valid_upd_sem) (simp add: y_def)
    from handoff_inv [OF it, of i "{}" k] vt v show ?thesis unfolding e by (auto simp: pools_kept_def vt sk)
  next
    case False
    then have "clear_holder_at pid i sk = sk" by (auto simp: sk clear_holder_at_def)
    with inv show ?thesis by simp
  qed
qed

lemma clear_occupied_inv:
  assumes "sem_inv {} s"
  shows "sem_inv {} (fst (semaphore_clear_occupied pid s k)) \<and>
    (\<forall>j. sem_valid_idx (fst (semaphore_clear_occupied pid s k)) j = sem_valid_idx s j)"
proof -
  define sk where "sk = fold (clear_waiter_at pid) [0..<length (waiters s)] (s, k)"
  have "sem_inv {} (fst sk) \<and> length (waiters (fst sk)) = length (waiters s) \<and> (\<forall>j. sem_valid_idx (fst sk) j = sem_valid_idx s j)"
    unfolding sk_def
    by (rule fold_inv [where P = "\<lambda>sk. sem_inv {} (fst sk) \<and> length (waiters (fst sk)) = length (waiters s) \<and>
        (\<forall>j. sem_valid_idx (fst sk) j = sem_valid_idx s j)"])
      (use assms in \<open>auto simp: clear_waiter_at_inv\<close>)
  then have "sem_inv {} (fst (fold (clear_holder_at pid) [0..<length (semaphores s)] sk)) \<and>
    (\<forall>j. sem_valid_idx (fst (fold (clear_holder_at pid) [0..<length (semaphores s)] sk)) j = sem_valid_idx s j)"
    by (intro fold_inv [where P = "\<lambda>sk. sem_inv {} (fst sk) \<and> (\<forall>j. sem_valid_idx (fst sk) j = sem_valid_idx s j)"])
      (auto simp: clear_holder_at_inv)
  then show ?thesis by (simp add: semaphore_clear_occupied_def sk_def)
qed

lemma alloc_raw_inv:
  assumes inv: "sem_inv {} s" and a: "sem_alloc_raw count max_count s k = (r, s')"
    and c: "count \<le> max_count" "1 \<le> max_count" and cur: "p_pid (the_proc k (the (proc_get_proc k (get_current_proc k)))) \<noteq> -1"
  shows "sem_inv {} s'"
    and "r \<noteq> 0 \<Longrightarrow> \<exists>idx. r = int idx + 1 \<and> sem_valid_idx s' idx \<and> permits s' idx = (if count < 0 then 0 else count)"
proof -
  have "sem_inv {} s' \<and> (r \<noteq> 0 \<longrightarrow> (\<exists>idx. r = int idx + 1 \<and> sem_valid_idx s' idx \<and> permits s' idx = (if count < 0 then 0 else count)))"
  proof (cases "r = 0")
    case True
    then have "s' = s" using a by (auto simp: sem_alloc_raw_def Let_def split: option.splits)
    with inv True show ?thesis by simp
  next
    case False
    then obtain i p where i: "find_index (\<lambda>x. s_creater_pid x = -1) (semaphores s) = Some i" and r: "r = int i + 1"
      and p: "proc_get_proc k (get_current_proc k) = Some p"
      using a by (auto simp: sem_alloc_raw_def Let_def split: option.splits)
    define n where "n = (if count < 0 then 0 else count)"
    define y where "y = (semaphores s ! i)\<lparr>s_creater_pid := p_pid (the_proc k p), s_count := n, s_max_count := max_count,
      s_occupied_pid := -1, s_occupied := (n \<le> 0)\<rparr>"
    have len: "i < length (semaphores s)" and iv: "\<not> sem_valid_idx s i"
      using find_index_SomeD [OF i] by (auto simp: sem_valid_idx_def)
    have s': "s' = s\<lparr>semaphores := (semaphores s)[i := y]\<rparr>"
      using a i p len by (auto simp: sem_alloc_raw_def Let_def upd_sem_def sem_refresh_occupied_def y_def n_def)
    have v: "sem_valid_idx s' j = (j = i \<or> sem_valid_idx s j)" for j
      using len cur p by (auto simp: s' sem_valid_idx_def y_def nth_list_update)
    have no: "w_sem_id w \<noteq> int i + 1" if "w \<in> set (waiters s)" for w
      using inv that iv unfolding sem_inv_def waiters_ok_def by (metis add_right_cancel of_nat_eq_iff add.commute add_cancel_right_left int_Suc nat.simps(3) of_nat_0_eq_iff)
    have "sems_ok s'"
      using inv len c unfolding sem_inv_def sems_ok_def v by (auto simp: s' y_def n_def Let_def nth_list_update)
    moreover have "waiters_ok s'" using inv unfolding sem_inv_def waiters_ok_def v by (fastforce simp: s')
    moreover have "count_of s' j \<le> 0" if "sem_valid_idx s' j" "waiting s' j" for j
    proof -
      have w: "waiting s j" using that(2) by (simp add: s')
      then have ne: "j \<noteq> i" using no by (auto simp: waiting_def waits_on_def)
      with v that(1) have "sem_valid_idx s j" by blast
      with w inv have "count_of s j \<le> 0" unfolding sem_inv_def by auto
      with ne show ?thesis by (simp add: s' count_of_def)
    qed
    moreover have "granted_of s' i = 0" using no by (auto simp: granted_of_def s')
    ultimately show ?thesis using r v len by (simp add: sem_inv_def permits_def count_of_def s' y_def n_def)
  qed
  then show "sem_inv {} s'" and "r \<noteq> 0 \<Longrightarrow> \<exists>idx. r = int idx + 1 \<and> sem_valid_idx s' idx \<and> permits s' idx = (if count < 0 then 0 else count)"
    by auto
qed


section \<open>Traces of semaphore operations\<close>

text \<open>The operations of all tasks, interleaved at the critical sections. An event records what happened
  to a semaphore's permits; the kernel state may change in any way between the operations. A task
  parks on the slot its first critical section gave it; the slot may have been freed and reused by
  another waiter since, but not by the same task for another semaphore.\<close>

datatype sem_event = Acquired nat | Released nat | Internal | Admin

inductive sem_step :: "sem_state \<times> 'a kernel_scheme \<Rightarrow> sem_event \<Rightarrow> sem_state \<times> 'a kernel_scheme \<Rightarrow> bool" where
  step_enter: "sem_enter_locked idx pid s = (v, s') \<Longrightarrow>
    sem_step (s, k) (if v = Verdict SEM_RES_ACQUIRED then Acquired idx else Internal) (s', k)"
| step_park: "sem_enter_park ctx idx b c timeout s k = (ctx', s', k') \<Longrightarrow> b < length (waiters s) \<Longrightarrow>
    (w_pid (waiters s ! b) = p_pid (the_proc k c) \<longrightarrow> w_sem_id (waiters s ! b) = int (Suc idx) \<or> \<not> w_granted (waiters s ! b)) \<Longrightarrow>
    sem_step (s, k) (if park_collects idx b c s k then Acquired idx else Internal) (s', k')"
| step_try: "semaphore_try_enter ctx sem_id s k = (ctx', s') \<Longrightarrow>
    sem_step (s, k) (if ctx_gpr ctx' 0 = SEM_RES_ACQUIRED then Acquired (unat sem_id - 1) else Internal) (s', k)"
| step_quit: "semaphore_quit sem_id s k = (r, s', k') \<Longrightarrow>
    sem_step (s, k) (if r = 0 then Released (unat sem_id - 1) else Internal) (s', k')"
| step_kernel: "sem_step (s, k) Internal (s, k')"
| step_alloc: "semaphore_alloc s k = (r, s') \<Longrightarrow> p_pid (the_proc k (the (proc_get_proc k (get_current_proc k)))) \<noteq> -1 \<Longrightarrow>
    sem_step (s, k) Admin (s', k)"
| step_alloc_count: "semaphore_alloc_count n s k = (r, s') \<Longrightarrow>
    p_pid (the_proc k (the (proc_get_proc k (get_current_proc k)))) \<noteq> -1 \<Longrightarrow> sem_step (s, k) Admin (s', k)"
| step_free: "sem_step (s, k) Admin (semaphore_free sem_id s k)"
| step_clear: "sem_step (s, k) Admin (semaphore_clear pid s k)"
| step_clear_occupied: "sem_step (s, k) Admin (semaphore_clear_occupied pid s k)"

inductive sem_run :: "sem_state \<times> 'a kernel_scheme \<Rightarrow> sem_event list \<Rightarrow> sem_state \<times> 'a kernel_scheme \<Rightarrow> bool" where
  run_nil: "sem_run x [] x"
| run_snoc: "sem_run x es y \<Longrightarrow> sem_step y e z \<Longrightarrow> sem_run x (es @ [e]) z"

lemma sem_step_inv: "sem_step x e y \<Longrightarrow> sem_inv {} (fst x) \<Longrightarrow> sem_inv {} (fst y)"
proof (induction rule: sem_step.induct)
  case (step_alloc s k r s')
  then show ?case using alloc_raw_inv(1) [of s 1 1 k r s'] by (simp add: semaphore_alloc_def)
next
  case (step_alloc_count n s k r s')
  have "sint n \<le> SEMAPHORE_COUNT_MAX"
    using sint_less [of n] by (simp add: SEMAPHORE_COUNT_MAX_def)
  then show ?case using step_alloc_count alloc_raw_inv(1) [of s "sint n" SEMAPHORE_COUNT_MAX k r s']
    by (simp add: semaphore_alloc_count_def SEMAPHORE_COUNT_MAX_def)
next
  case (step_enter idx pid s v s' k)
  then show ?case using enter_locked_inv [OF _ step_enter.hyps] by simp
next
  case (step_park ctx idx b c timeout s k ctx' s' k')
  then show ?case using park_inv [of s ctx idx b c timeout k ctx' s' k'] by auto
next
  case (step_try ctx sem_id s k ctx' s')
  then show ?case using try_enter_inv [OF _ step_try.hyps] by simp
next
  case (step_quit sem_id s k r s' k')
  then show ?case using quit_inv [OF _ step_quit.hyps] by simp
qed (simp_all add: free_inv clear_inv clear_occupied_inv)

lemma sem_run_inv: "sem_run x es y \<Longrightarrow> sem_inv {} (fst x) \<Longrightarrow> sem_inv {} (fst y)"
  by (induction rule: sem_run.induct) (auto intro: sem_step_inv)

definition ev_delta :: "nat \<Rightarrow> sem_event \<Rightarrow> int" where
  "ev_delta idx e = (if e = Acquired idx then -1 else if e = Released idx then 1 else 0)"

lemma pools_moved_delta:
  "pools_moved (if b then d else 0) idx s s' \<Longrightarrow> permits s' j = permits s j + (if b \<and> j = idx then d else 0) \<and>
     sem_valid_idx s' j = sem_valid_idx s j"
  by (auto simp: pools_moved_def)

lemma sem_step_permits:
  assumes "sem_step x e y" "sem_inv {} (fst x)" "e \<noteq> Admin"
  shows "permits (fst y) j = permits (fst x) j + ev_delta j e \<and> sem_valid_idx (fst y) j = sem_valid_idx (fst x) j"
  using assms
proof (induction rule: sem_step.induct)
  case (step_enter idx pid s v s' k)
  then have "sem_inv {} s" by simp
  from pools_moved_delta [OF conjunct2 [OF enter_locked_inv [OF this step_enter.hyps]], of j] show ?case by (auto simp: ev_delta_def)
next
  case (step_park ctx idx b c timeout s k ctx' s' k')
  have "pools_moved (if park_collects idx b c s k then -1 else 0) idx s s'"
    using park_inv [of s ctx idx b c timeout k ctx' s' k'] step_park by auto
  from pools_moved_delta [OF this, of j] show ?case by (auto simp: ev_delta_def)
next
  case (step_try ctx sem_id s k ctx' s')
  then have "sem_inv {} s" by simp
  from pools_moved_delta [OF conjunct2 [OF try_enter_inv [OF this step_try.hyps]], of j] show ?case by (auto simp: ev_delta_def)
next
  case (step_quit sem_id s k r s' k')
  then have "sem_inv {} s" by simp
  from pools_moved_delta [OF conjunct2 [OF quit_inv [OF this step_quit.hyps]], of j] show ?case by (auto simp: ev_delta_def)
qed (auto simp: ev_delta_def)

lemma sem_run_permits:
  "sem_run x es y \<Longrightarrow> sem_inv {} (fst x) \<Longrightarrow> Admin \<notin> set es \<Longrightarrow>
     permits (fst y) j = permits (fst x) j + sum_list (map (ev_delta j) es) \<and>
     sem_valid_idx (fst y) j = sem_valid_idx (fst x) j"
proof (induction rule: sem_run.induct)
  case (run_snoc x es y e z)
  then show ?case using sem_step_permits [OF run_snoc.hyps(2) sem_run_inv [OF run_snoc.hyps(1) run_snoc.prems(1)], of j]
    by auto
qed simp

lemma sum_ev_delta:
  "sum_list (map (ev_delta j) es) = int (count_list es (Released j)) - int (count_list es (Acquired j))"
  by (induction es) (auto simp: ev_delta_def)

lemma permits_nonneg: "sem_inv {} s \<Longrightarrow> sem_valid_idx s j \<Longrightarrow> 0 \<le> permits s j"
  using sem_invD(1) [of "{}" s j] by (simp add: permits_def count_of_def)


section \<open>Hand-off in order of arrival\<close>

text \<open>A hand-off with a live waiter grants the oldest live one and wakes it; waiters whose task is gone
  are dropped on the way.\<close>

lemma handoff_grants:
  assumes "idx < length (semaphores s)" "s_count (semaphores s ! idx) > 0"
    "w \<in> set (waiters s)" "waits_on (int idx + 1) w" "proc_get k (w_pid w) \<noteq> None"
  shows "\<exists>b p. b < length (waiters s) \<and> waits_on (int idx + 1) (waiters s ! b) \<and> proc_get k (w_pid (waiters s ! b)) = Some p \<and>
    (\<forall>w \<in> set (waiters s). waits_on (int idx + 1) w \<and> proc_get k (w_pid w) \<noteq> None \<longrightarrow> w_seq (waiters s ! b) \<le> w_seq w) \<and>
    waiters (fst (sem_handoff_locked idx s k)) ! b = (waiters s ! b)\<lparr>w_granted := True\<rparr> \<and>
    count_of (fst (sem_handoff_locked idx s k)) idx = count_of s idx - 1 \<and>
    snd (sem_handoff_locked idx s k) = proc_wakeup_by p (sem_token s idx) k"
  using assms
proof (induction idx s k rule: sem_handoff_locked.induct)
  case (1 idx s k)
  note len = "1.prems"(1)
  from "1.prems"(3,4) obtain b where b: "sem_waiter_head_locked s idx = Some b"
    using sem_waiter_head_spec [of s idx] by (cases "sem_waiter_head_locked s idx") auto
  note h = sem_waiter_head_SomeD [OF b]
  have pos: "\<not> s_count (semaphores s ! idx) \<le> 0" using "1.prems"(2) by simp
  show ?case
  proof (cases "proc_get k (w_pid (waiters s ! b))")
    case (Some p)
    then have e: "sem_handoff_locked idx s k = (s\<lparr>semaphores := (semaphores s)[idx := take_permit (w_pid (waiters s ! b)) (semaphores s ! idx)],
        waiters := (waiters s)[b := (waiters s ! b)\<lparr>w_granted := True\<rparr>]\<rparr>, proc_wakeup_by p (sem_token s idx) k)"
      using pos b by (simp add: sem_handoff_eq [OF len])
    show ?thesis
      by (rule exI [of _ b], rule exI [of _ p]) (use e h Some len in \<open>auto simp: count_of_def\<close>)
  next
    case None
    let ?s = "s\<lparr>waiters := (waiters s)[b := free_waiter (waiters s ! b)]\<rparr>"
    have e: "sem_handoff_locked idx s k = sem_handoff_locked idx ?s k" using pos b None by (simp add: sem_handoff_eq [OF len])
    have del: "sem_waiter_del_locked b (w_pid (waiters s ! b)) s = ?s" using h by (simp add: sem_waiter_del_eq)
    have nth: "waiters ?s ! j = (if j = b then free_waiter (waiters s ! b) else waiters s ! j)" for j
      using h(1) by (simp add: nth_list_update)
    have fr: "\<not> waits_on (int idx + 1) (free_waiter (waiters s ! b))" by (simp add: waits_on_def)
    have keep: "w' \<in> set (waiters ?s)" if "w' \<in> set (waiters s)" "proc_get k (w_pid w') \<noteq> None" for w'
    proof -
      from that(1) obtain j where j: "j < length (waiters s)" "w' = waiters s ! j" by (auto simp: in_set_conv_nth)
      with None that(2) have "j \<noteq> b" by auto
      with j h(1) show ?thesis by (auto simp: in_set_list_update_iff)
    qed
    obtain c p where c: "c < length (waiters ?s)" "waits_on (int idx + 1) (waiters ?s ! c)" "proc_get k (w_pid (waiters ?s ! c)) = Some p"
      "\<forall>w \<in> set (waiters ?s). waits_on (int idx + 1) w \<and> proc_get k (w_pid w) \<noteq> None \<longrightarrow> w_seq (waiters ?s ! c) \<le> w_seq w"
      "waiters (fst (sem_handoff_locked idx ?s k)) ! c = (waiters ?s ! c)\<lparr>w_granted := True\<rparr>"
      "count_of (fst (sem_handoff_locked idx ?s k)) idx = count_of ?s idx - 1"
      "snd (sem_handoff_locked idx ?s k) = proc_wakeup_by p (sem_token ?s idx) k"
      using "1.IH" [OF _ b None] "1.prems" keep [OF "1.prems"(3,5)] pos unfolding del by auto
    have cb: "waiters ?s ! c = waiters s ! c" using c(2) fr nth by metis
    show ?thesis
      by (rule exI [of _ c], rule exI [of _ p]) (use c [unfolded cb] keep in \<open>auto simp: e sem_token_def\<close>)
  qed
qed


lemma handoff_keys:
  assumes "idx < length (semaphores s)" "j < length (waiters s)"
  shows "w_sem_id (waiters (fst (sem_handoff_locked idx s k)) ! j) = 0 \<or>
    w_sem_id (waiters (fst (sem_handoff_locked idx s k)) ! j) = w_sem_id (waiters s ! j) \<and>
    w_pid (waiters (fst (sem_handoff_locked idx s k)) ! j) = w_pid (waiters s ! j)"
  using assms
proof (induction idx s k rule: sem_handoff_locked.induct)
  case (1 idx s k)
  note len = "1.prems"(1)
  show ?case
  proof (cases "s_count (semaphores s ! idx) \<le> 0 \<or> sem_waiter_head_locked s idx = None")
    case False
    then obtain b where b: "sem_waiter_head_locked s idx = Some b" and pos: "\<not> s_count (semaphores s ! idx) \<le> 0" by auto
    note h = sem_waiter_head_SomeD [OF b]
    show ?thesis
    proof (cases "proc_get k (w_pid (waiters s ! b))")
      case None
      let ?s = "s\<lparr>waiters := (waiters s)[b := free_waiter (waiters s ! b)]\<rparr>"
      have del: "sem_waiter_del_locked b (w_pid (waiters s ! b)) s = ?s" using h by (simp add: sem_waiter_del_eq)
      have "w_sem_id (waiters (fst (sem_handoff_locked idx ?s k)) ! j) = 0 \<or>
          w_sem_id (waiters (fst (sem_handoff_locked idx ?s k)) ! j) = w_sem_id (waiters ?s ! j) \<and>
          w_pid (waiters (fst (sem_handoff_locked idx ?s k)) ! j) = w_pid (waiters ?s ! j)"
        using "1.IH" [OF _ b None] "1.prems" pos unfolding del by simp
      then show ?thesis using pos b None h(1) "1.prems"(2)
        by (auto simp: sem_handoff_eq [OF len] nth_list_update split: if_splits)
    qed (use pos b h(1) "1.prems"(2) in \<open>auto simp: sem_handoff_eq [OF len] nth_list_update\<close>)
  qed (auto simp: sem_handoff_eq [OF len])
qed

lemma enter_granted:
  assumes "sem_inv {} s" "sem_valid_idx s idx" "b < length (waiters s)" "w_sem_id (waiters s ! b) = int idx + 1" "w_granted (waiters s ! b)"
  shows "fst (sem_enter_locked idx (w_pid (waiters s ! b)) s) = Verdict SEM_RES_ACQUIRED"
proof -
  have "sem_waiter_find_locked (Suc idx) (w_pid (waiters s ! b)) s \<noteq> None"
    using assms(3,4) by (auto simp: sem_waiter_find_locked_def find_index_None_iff in_set_conv_nth intro!: bexI [of _ "waiters s ! b"])
  then obtain i where i: "sem_waiter_find_locked (Suc idx) (w_pid (waiters s ! b)) s = Some i" by auto
  have "i = b" using find_waiter [OF i] assms unfolding sem_inv_def waiters_ok_def by auto
  with i assms show ?thesis by (simp add: sem_enter_locked_def)
qed

lemma enter_drained:
  assumes "s_count (semaphores s ! idx) \<le> 0" "sem_waiter_find_locked (Suc idx) pid s = None"
  shows "fst (sem_enter_locked idx pid s) \<noteq> Verdict SEM_RES_ACQUIRED"
  using assms by (auto simp: sem_enter_locked_def Let_def sem_try_acquire_locked_def SEM_RES_ACQUIRED_def
      SEM_RES_ERROR_def SEM_RES_OCCUPIED_def split: option.splits prod.splits)

section \<open>Properties\<close>

text \<open>C20: the semaphore tables stay well formed under every operation of every task, in any interleaving:
  counts stay between zero and the ceiling, the occupied flag says whether permits are left, a task
  has at most one place per queue, every place belongs to an existing semaphore, and no permit is
  free while a task waits for it.\<close>

theorem semaphore_invariant:
  assumes "sem_run (semaphore_init base, k) es (s, k')"
  shows "(\<forall>idx. sem_valid_idx s idx \<longrightarrow> 0 \<le> s_count (semaphores s ! idx) \<and>
      s_count (semaphores s ! idx) \<le> s_max_count (semaphores s ! idx) \<and>
      s_occupied (semaphores s ! idx) = (s_count (semaphores s ! idx) = 0) \<and>
      (waiting s idx \<longrightarrow> s_count (semaphores s ! idx) = 0)) \<and>
    (\<forall>w \<in> set (waiters s). w_sem_id w \<noteq> 0 \<longrightarrow> (\<exists>idx. w_sem_id w = int idx + 1 \<and> sem_valid_idx s idx)) \<and>
    (\<forall>i < length (waiters s). \<forall>j < length (waiters s). w_sem_id (waiters s ! i) \<noteq> 0 \<longrightarrow>
       w_sem_id (waiters s ! i) = w_sem_id (waiters s ! j) \<longrightarrow> w_pid (waiters s ! i) = w_pid (waiters s ! j) \<longrightarrow> i = j)"
proof -
  have "sem_inv {} (semaphore_init base)"
    by (auto simp: sem_inv_def sems_ok_def waiters_ok_def semaphore_init_def sem_valid_idx_def)
  with sem_run_inv [OF assms] have inv: "sem_inv {} s" by simp
  have "0 \<le> s_count (semaphores s ! idx) \<and> s_count (semaphores s ! idx) \<le> s_max_count (semaphores s ! idx) \<and>
      s_occupied (semaphores s ! idx) = (s_count (semaphores s ! idx) = 0) \<and>
      (waiting s idx \<longrightarrow> s_count (semaphores s ! idx) = 0)" if "sem_valid_idx s idx" for idx
    using sem_invD [OF inv that] by auto
  with inv show ?thesis unfolding sem_inv_def waiters_ok_def by blast
qed

text \<open>C8: permits are conserved, and a binary semaphore is a mutex. From the allocation on, however the
  enters, timed enters, tries and quits of all tasks are interleaved, permits free plus permits handed
  over but not yet collected equal one minus acquisitions plus releases; so acquisitions never exceed
  releases by more than one, and at most one task holds the lock.\<close>

theorem semaphore_mutual_exclusion:
  assumes "sem_inv {} s0" "semaphore_alloc s0 k0 = (sem_id, s)" "sem_id \<noteq> 0"
    and "p_pid (the_proc k0 (the (proc_get_proc k0 (get_current_proc k0)))) \<noteq> -1"
    and "sem_run (s, k) es (s', k')" "Admin \<notin> set es"
  shows "let idx = nat (sem_id - 1); acquired = int (count_list es (Acquired idx)); released = int (count_list es (Released idx)) in
    permits s' idx = 1 - acquired + released \<and> acquired \<le> released + 1"
proof -
  have a: "sem_alloc_raw 1 1 s0 k0 = (sem_id, s)" using assms(2) by (simp add: semaphore_alloc_def)
  from alloc_raw_inv [OF assms(1) a _ _ assms(4)] assms(3) obtain idx where
    idx: "sem_id = int idx + 1" "sem_valid_idx s idx" "permits s idx = 1" and inv: "sem_inv {} s" by auto
  have "permits s' idx = 1 + sum_list (map (ev_delta idx) es)" and v: "sem_valid_idx s' idx"
    using sem_run_permits [OF assms(5) _ assms(6), of idx] idx inv by auto
  moreover have "0 \<le> permits s' idx" using permits_nonneg [OF _ v] sem_run_inv [OF assms(5)] inv by simp
  ultimately show ?thesis by (simp add: Let_def idx(1) sum_ev_delta)
qed

text \<open>C21: a released permit goes straight to the oldest waiter. When a task releases a semaphore while
  living tasks wait, the waiter with the smallest arrival number among them is granted the permit and
  woken, its next enter acquires, and no other task can take the permit before it.\<close>

theorem semaphore_handoff_fifo:
  assumes inv: "sem_inv {} s" and q: "semaphore_quit sem_id s k = (0, s', k')" and idx: "idx = unat sem_id - 1"
    and w: "w \<in> set (waiters s)" "waits_on (int idx + 1) w" "proc_get k (w_pid w) \<noteq> None"
  shows "\<exists>b p. waits_on (int idx + 1) (waiters s ! b) \<and> proc_get k (w_pid (waiters s ! b)) = Some p \<and>
    (\<forall>w \<in> set (waiters s). waits_on (int idx + 1) w \<and> proc_get k (w_pid w) \<noteq> None \<longrightarrow> w_seq (waiters s ! b) \<le> w_seq w) \<and>
    k' = proc_wakeup_by p (sem_token s idx) k \<and>
    fst (sem_enter_locked idx (w_pid (waiters s ! b)) s') = Verdict SEM_RES_ACQUIRED \<and>
    (\<forall>pid. sem_waiter_find_locked (Suc idx) pid s = None \<longrightarrow> fst (sem_enter_locked idx pid s') \<noteq> Verdict SEM_RES_ACQUIRED)"
proof -
  obtain t where t: "sem_handoff_locked idx t k = (s', k')" "sem_inv {idx} t" "pools_moved 1 idx s t" "sem_valid_idx s idx"
    "waiters t = waiters s" "sem_base t = sem_base s" "count_of t idx = count_of s idx + 1"
    by (rule quit_success [OF inv q idx])
  have vt: "sem_valid_idx t idx" using t(3,4) by (simp add: pools_moved_def)
  have c0: "count_of s idx = 0"
    using sem_invD(1,5) [OF inv t(4)] w(1,2) by (auto simp: waiting_def count_of_def)
  then have ct: "s_count (semaphores t ! idx) > 0" using t(7) by (simp add: count_of_def)
  obtain b p where b: "b < length (waiters s)" "waits_on (int idx + 1) (waiters s ! b)" "proc_get k (w_pid (waiters s ! b)) = Some p"
    "\<forall>w \<in> set (waiters s). waits_on (int idx + 1) w \<and> proc_get k (w_pid w) \<noteq> None \<longrightarrow> w_seq (waiters s ! b) \<le> w_seq w"
    "waiters s' ! b = (waiters s ! b)\<lparr>w_granted := True\<rparr>" "count_of s' idx = 0" "k' = proc_wakeup_by p (sem_token s idx) k"
    using handoff_grants [OF validD [OF vt] ct, of w k] w t(1,5,6,7) c0 by (auto simp: sem_token_def)
  have inv': "sem_inv {} s'" and v': "sem_valid_idx s' idx" and l': "length (waiters s') = length (waiters s)"
    using handoff_inv [OF t(2) vt, of "{}" k] vt t(1,5) by (auto simp: pools_kept_def)
  have "fst (sem_enter_locked idx (w_pid (waiters s ! b)) s') = Verdict SEM_RES_ACQUIRED"
    using enter_granted [OF inv' v', of b] b(1,2,5) l' by (simp add: waits_on_def)
  moreover have "fst (sem_enter_locked idx pid s') \<noteq> Verdict SEM_RES_ACQUIRED"
    if nf: "sem_waiter_find_locked (Suc idx) pid s = None" for pid
  proof (rule enter_drained)
    show "s_count (semaphores s' ! idx) \<le> 0" using b(6) by (simp add: count_of_def)
    show "sem_waiter_find_locked (Suc idx) pid s' = None"
      using nf handoff_keys [OF validD [OF vt], of _ k] t(1,5) l'
      by (fastforce simp: sem_waiter_find_locked_def find_index_None_iff in_set_conv_nth)
  qed
  ultimately show ?thesis using b by blast
qed

lemma ex_sched_current: "get_current_proc ex_sched = Some (Suc 0)" "p_pid (the_proc ex_sched (Suc 0)) = 1"
  "proc_get_proc ex_sched (Some (Suc 0)) = Some (Suc 0)"
  by (simp_all add: get_current_proc_alt proc_get_proc_def ex_sched_simps)

theorem semaphore_invariant_witness:
  "let s = snd (semaphore_alloc (semaphore_init 0) ex_sched) in
     s_count (semaphores s ! 0) \<le> s_max_count (semaphores s ! 0) \<and> s_occupied (semaphores s ! 0) = (s_count (semaphores s ! 0) = 0)"
proof -
  obtain r s where s: "semaphore_alloc (semaphore_init 0) ex_sched = (r, s)" by fastforce
  have st: "sem_step (semaphore_init 0, ex_sched) Admin (s, ex_sched)"
    by (rule step_alloc [OF s]) (simp add: ex_sched_current)
  have run: "sem_run (semaphore_init 0, ex_sched) ([] @ [Admin]) (s, ex_sched)"
    by (rule run_snoc [OF run_nil st])
  have "find_index (\<lambda>x. s_creater_pid x = -1) (semaphores (semaphore_init 0)) = Some 0"
    by (simp add: find_index_Some_iff semaphore_init_def SEMAPHORE_MAX_def)
  then have "sem_valid_idx s 0"
    using s by (auto simp: semaphore_alloc_def sem_alloc_raw_def ex_sched_current sem_valid_idx_def upd_sem_def
        sem_refresh_occupied_def semaphore_init_def SEMAPHORE_MAX_def)
  with semaphore_invariant [OF run] s show ?thesis by simp
qed

definition ex_sem :: sem_state where
  "ex_sem = \<lparr>semaphores = [\<lparr>s_creater_pid = 1, s_occupied_pid = 1, s_occupied = True, s_count = 0, s_max_count = 1\<rparr>,
       \<lparr>s_creater_pid = -1, s_occupied_pid = -1, s_occupied = False, s_count = 0, s_max_count = 1\<rparr>],
     waiters = [\<lparr>w_sem_id = 1, w_pid = 3, w_seq = 8, w_granted = False\<rparr>, \<lparr>w_sem_id = 1, w_pid = 2, w_seq = 7, w_granted = False\<rparr>],
     waiter_seq = 9, sem_base = 0x4000001000\<rparr>"

lemma ex_sem_inv: "sem_inv {} ex_sem"
  by (auto simp: sem_inv_def sems_ok_def waiters_ok_def sem_valid_idx_def ex_sem_def waiting_def count_of_def
      waits_on_def nth_Cons less_Suc_eq split: nat.splits)

theorem semaphore_mutual_exclusion_witness:
  "permits (snd (sem_enter_locked 1 2 (snd (semaphore_alloc ex_sem ex_sched)))) 1 = 0"
proof -
  obtain s where s: "semaphore_alloc ex_sem ex_sched = (2, s)"
    by (simp add: semaphore_alloc_def sem_alloc_raw_def ex_sched_current ex_sem_def)
  obtain s' where s': "sem_enter_locked 1 2 s = (Verdict SEM_RES_ACQUIRED, s')"
    using s by (auto simp: semaphore_alloc_def sem_alloc_raw_def ex_sched_current ex_sem_def sem_enter_locked_def
      sem_valid_idx_def upd_sem_def sem_refresh_occupied_def sem_waiter_find_locked_def sem_try_acquire_locked_def Let_def)
  have run: "sem_run (s, ex_sched) ([] @ [Acquired 1]) (s', ex_sched)"
    using run_snoc [OF run_nil step_enter [OF s', of ex_sched]] by simp
  from semaphore_mutual_exclusion [OF ex_sem_inv s _ _ run] s s' show ?thesis
    by (simp add: ex_sched_current Let_def)
qed

theorem semaphore_handoff_fifo_witness:
  "\<exists>b p. waits_on 1 (waiters ex_sem ! b) \<and> proc_get ex_sched (w_pid (waiters ex_sem ! b)) = Some p \<and>
     fst (sem_enter_locked 0 (w_pid (waiters ex_sem ! b)) (fst (snd (semaphore_quit 1 ex_sem ex_sched)))) = Verdict SEM_RES_ACQUIRED"
proof -
  have "fst (semaphore_quit 1 ex_sem ex_sched) = 0"
    by (simp add: semaphore_quit_def Let_def ex_sched_current sem_valid_idx_def ex_sem_def)
  then obtain s' k' where q: "semaphore_quit 1 ex_sem ex_sched = (0, s', k')" by (metis prod.exhaust fst_conv)
  have "proc_get ex_sched (w_pid (waiters ex_sem ! 1)) \<noteq> None" by (simp add: ex_sem_def ex_sched_simps)
  from semaphore_handoff_fifo [OF ex_sem_inv q refl, of "waiters ex_sem ! 1"] this q show ?thesis
    by (auto simp: ex_sem_def waits_on_def)
qed

end
