(* ===== verification/Kalloc.thy ===== *)
theory Kalloc
  imports Prelude
begin

text \<open>
  The physical page allocator of \<^verbatim>\<open>kernel/kernel/src/mm/kalloc.c\<close>: a free list of 4 KB pages, and 1 KB
  chunks split out of single pages with per-page bit masks.

  Addresses are natural numbers. The intrusive list nodes live in the free blocks themselves, so a
  free list is the list of its blocks' addresses. A metadata cell is identified by its address; the
  64 hash chains are the lists \<open>meta_buckets\<close>.
\<close>

section \<open>State\<close>

record split_page_meta =
  mt_cell :: nat
  mt_page_base :: nat
  mt_free_mask :: u32
  mt_free_count :: u32

record kalloc_state =
  free_list_page :: "nat list"
  free_list1k :: "nat list"
  free_mem_size_page :: u64
  meta_buckets :: "split_page_meta list list"
  meta_free :: "nat list"

definition KALLOC_1K_CHUNK_SIZE :: nat where "KALLOC_1K_CHUNK_SIZE = 1024"
definition KALLOC_1K_CHUNKS_PER_PAGE :: nat where "KALLOC_1K_CHUNKS_PER_PAGE = PAGE_SIZE div KALLOC_1K_CHUNK_SIZE"
definition KALLOC_1K_META_BUCKETS :: nat where "KALLOC_1K_META_BUCKETS = 64"

text \<open>The size of a metadata cell on a 64-bit target: two pointers and two 32-bit words.\<close>

definition META_SIZE :: nat where "META_SIZE = 24"

section \<open>Pages\<close>

definition page_ref_index :: "u64 \<Rightarrow> u64 \<Rightarrow> u32" where
  "page_ref_index phy_base paddr = ucast ((paddr - phy_base) div of_nat PAGE_SIZE)"

definition kalloc_reset :: "kalloc_state" where
  "kalloc_reset = \<lparr>free_list_page = [], free_list1k = [], free_mem_size_page = 0,
     meta_buckets = replicate KALLOC_1K_META_BUCKETS [], meta_free = []\<rparr>"

function append_pages :: "nat \<Rightarrow> nat \<Rightarrow> nat list \<Rightarrow> u32 \<Rightarrow> nat list \<times> u32" where
  "append_pages cur e l n =
     (if cur < e then append_pages (cur + PAGE_SIZE) e (cur # l) (n + 1) else (l, n))"
  by pat_completeness auto

termination
  by (relation "measure (\<lambda>(cur, e, l, n). e - cur)") (auto simp: PAGE_SIZE_def)

declare append_pages.simps [simp del]

definition kalloc_append :: "u64 \<Rightarrow> u64 \<Rightarrow> kalloc_state \<Rightarrow> u32 \<times> kalloc_state" where
  "kalloc_append start e st =
     (let start_address = ALIGN_UP start (of_nat PAGE_SIZE);
          end_address = ALIGN_DOWN e (of_nat PAGE_SIZE) in
      if start_address \<ge> end_address then (0, st)
      else let (l, num) = append_pages (unat start_address) (unat end_address) (free_list_page st) 0 in
        (num, st\<lparr>free_list_page := l, free_mem_size_page := free_mem_size_page st + ucast num * of_nat PAGE_SIZE\<rparr>))"

definition kalloc_page :: "kalloc_state \<Rightarrow> nat option \<times> kalloc_state" where
  "kalloc_page st = (case free_list_page st of
      [] \<Rightarrow> (None, st)
    | p # ps \<Rightarrow> (Some p, st\<lparr>free_list_page := ps, free_mem_size_page := free_mem_size_page st - of_nat PAGE_SIZE\<rparr>))"

definition kfree_page :: "nat \<Rightarrow> kalloc_state \<Rightarrow> kalloc_state" where
  "kfree_page p st = st\<lparr>free_list_page := p # free_list_page st,
     free_mem_size_page := free_mem_size_page st + of_nat PAGE_SIZE\<rparr>"

definition get_free_mem_size :: "kalloc_state \<Rightarrow> u64" where
  "get_free_mem_size st = free_mem_size_page st"

section \<open>Metadata of split pages\<close>

definition split_page_meta_hash :: "nat \<Rightarrow> nat" where
  "split_page_meta_hash page_base = (page_base div PAGE_SIZE) mod KALLOC_1K_META_BUCKETS"

definition split_page_meta_find :: "nat \<Rightarrow> kalloc_state \<Rightarrow> split_page_meta option" where
  "split_page_meta_find page_base st =
     find (\<lambda>m. mt_page_base m = page_base) (meta_buckets st ! split_page_meta_hash page_base)"

text \<open>A store through a metadata pointer.\<close>

definition upd_meta :: "split_page_meta \<Rightarrow> (split_page_meta \<Rightarrow> split_page_meta) \<Rightarrow> kalloc_state \<Rightarrow> kalloc_state" where
  "upd_meta m f st =
     (let b = split_page_meta_hash (mt_page_base m) in
      st\<lparr>meta_buckets := (meta_buckets st)[b := map (\<lambda>x. if mt_cell x = mt_cell m then f x else x) (meta_buckets st ! b)]\<rparr>)"

definition split_page_meta_grow :: "kalloc_state \<Rightarrow> int \<times> kalloc_state" where
  "split_page_meta_grow st = (case kalloc_page st of
      (None, st) \<Rightarrow> (-1, st)
    | (Some page, st) \<Rightarrow>
        (0, st\<lparr>meta_free := fold (\<lambda>i l. (page + i * META_SIZE) # l) [0..<PAGE_SIZE div META_SIZE] (meta_free st)\<rparr>))"

definition split_page_meta_alloc :: "nat \<Rightarrow> kalloc_state \<Rightarrow> split_page_meta option \<times> kalloc_state" where
  "split_page_meta_alloc page_base st =
     (let (r, st) = (if meta_free st = [] then split_page_meta_grow st else (0, st)) in
      if r \<noteq> 0 then (None, st)
      else let meta = \<lparr>mt_cell = hd (meta_free st), mt_page_base = page_base, mt_free_mask = 0, mt_free_count = 0\<rparr>;
               st = st\<lparr>meta_free := tl (meta_free st)\<rparr>;
               b = split_page_meta_hash page_base
           in (Some meta, st\<lparr>meta_buckets := (meta_buckets st)[b := meta # meta_buckets st ! b]\<rparr>))"

definition split_page_meta_free :: "split_page_meta \<Rightarrow> kalloc_state \<Rightarrow> kalloc_state" where
  "split_page_meta_free m st =
     (let b = split_page_meta_hash (mt_page_base m) in
      if (\<exists>x \<in> set (meta_buckets st ! b). mt_cell x = mt_cell m)
      then st\<lparr>meta_buckets := (meta_buckets st)[b := filter (\<lambda>x. mt_cell x \<noteq> mt_cell m) (meta_buckets st ! b)],
              meta_free := mt_cell m # meta_free st\<rparr>
      else st)"

section \<open>1 KB chunks\<close>

definition kalloc1k_page_base :: "nat \<Rightarrow> nat" where
  "kalloc1k_page_base mem = mem - mem mod PAGE_SIZE"

definition kalloc1k_chunk_index :: "nat \<Rightarrow> nat" where
  "kalloc1k_chunk_index mem = (mem - kalloc1k_page_base mem) div KALLOC_1K_CHUNK_SIZE"

definition kalloc1k_chunk_mask :: "nat \<Rightarrow> u32" where
  "kalloc1k_chunk_mask index = push_bit index 1"

definition kalloc1k_full_mask :: u32 where
  "kalloc1k_full_mask = (if KALLOC_1K_CHUNKS_PER_PAGE \<ge> 32 then 0xffffffff
     else push_bit KALLOC_1K_CHUNKS_PER_PAGE 1 - 1)"

definition kfree1k_link_only :: "nat \<Rightarrow> kalloc_state \<Rightarrow> kalloc_state" where
  "kfree1k_link_only mem st = st\<lparr>free_list1k := mem # free_list1k st\<rparr>"

definition kalloc1k_unlink_page_chunks :: "nat \<Rightarrow> kalloc_state \<Rightarrow> kalloc_state" where
  "kalloc1k_unlink_page_chunks page_base st =
     st\<lparr>free_list1k := filter (\<lambda>c. kalloc1k_page_base c \<noteq> page_base) (free_list1k st)\<rparr>"

definition kalloc1k_split_page :: "kalloc_state \<Rightarrow> int \<times> kalloc_state" where
  "kalloc1k_split_page st = (case kalloc_page st of
      (None, st) \<Rightarrow> (-1, st)
    | (Some page, st) \<Rightarrow>
      (case split_page_meta_alloc page st of
         (None, st) \<Rightarrow> (-1, kfree_page page st)
       | (Some meta, st) \<Rightarrow>
         let st = upd_meta meta (\<lambda>m. m\<lparr>mt_free_mask := kalloc1k_full_mask,
                    mt_free_count := of_nat KALLOC_1K_CHUNKS_PER_PAGE\<rparr>) st
         in (0, fold (\<lambda>i. kfree1k_link_only (page + i * KALLOC_1K_CHUNK_SIZE)) [0..<KALLOC_1K_CHUNKS_PER_PAGE] st)))"

definition kalloc1k_take :: "kalloc_state \<Rightarrow> nat option \<times> kalloc_state" where
  "kalloc1k_take st = (case free_list1k st of
      [] \<Rightarrow> (None, st)
    | c # cs \<Rightarrow>
      let st = st\<lparr>free_list1k := cs\<rparr> in
      (Some c, case split_page_meta_find (kalloc1k_page_base c) st of
          None \<Rightarrow> st
        | Some meta \<Rightarrow>
          let mask = kalloc1k_chunk_mask (kalloc1k_chunk_index c) in
          if mt_free_mask meta AND mask \<noteq> 0
          then upd_meta meta (\<lambda>m. m\<lparr>mt_free_mask := mt_free_mask m AND NOT mask,
                 mt_free_count := (if mt_free_count m > 0 then mt_free_count m - 1 else mt_free_count m)\<rparr>) st
          else st))"

definition kalloc1k :: "kalloc_state \<Rightarrow> nat option \<times> kalloc_state" where
  "kalloc1k st =
     (let (r, st) = (if free_list1k st = [] then kalloc1k_split_page st else (0, st)) in
      if r \<noteq> 0 then (None, st) else kalloc1k_take st)"

definition kfree1k :: "nat \<Rightarrow> kalloc_state \<Rightarrow> kalloc_state" where
  "kfree1k mem st =
     (let page_base = kalloc1k_page_base mem;
          mask = kalloc1k_chunk_mask (kalloc1k_chunk_index mem) in
      case split_page_meta_find page_base st of
        None \<Rightarrow> kfree1k_link_only mem st
      | Some meta \<Rightarrow>
        if mt_free_mask meta AND mask \<noteq> 0 then st
        else
          let mask' = mt_free_mask meta OR mask;
              count' = mt_free_count meta + 1;
              st = upd_meta meta (\<lambda>m. m\<lparr>mt_free_mask := mask', mt_free_count := count'\<rparr>) st;
              st = kfree1k_link_only mem st in
          if count' = of_nat KALLOC_1K_CHUNKS_PER_PAGE \<and> mask' = kalloc1k_full_mask
          then kfree_page page_base (split_page_meta_free meta (kalloc1k_unlink_page_chunks page_base st))
          else st)"

end
