(* ===== verification/Kalloc_Props.thy ===== *)
theory Kalloc_Props
  imports Kalloc
begin

text \<open>
  Correctness of the page and chunk allocator against the set of free addresses: an allocation takes a
  block out of the free set, a release puts it back, whatever splitting, coalescing and metadata
  bookkeeping happens inside. The laws are the locale \<open>region_alloc\<close>, interpreted for pages and for
  1 KB chunks.
\<close>

section \<open>Hash chains\<close>

definition cells :: "kalloc_state \<Rightarrow> nat list" where
  "cells st = map mt_cell (concat (meta_buckets st)) @ meta_free st"

definition buckets_ok :: "kalloc_state \<Rightarrow> bool" where
  "buckets_ok st \<longleftrightarrow> length (meta_buckets st) = KALLOC_1K_META_BUCKETS \<and>
     (\<forall>b < KALLOC_1K_META_BUCKETS. \<forall>m \<in> set (meta_buckets st ! b). split_page_meta_hash (mt_page_base m) = b) \<and>
     (\<forall>b < KALLOC_1K_META_BUCKETS. distinct (map mt_page_base (meta_buckets st ! b))) \<and> distinct (cells st)"

abbreviation meta_at :: "kalloc_state \<Rightarrow> nat \<Rightarrow> split_page_meta option" where
  "meta_at st b \<equiv> split_page_meta_find b st"

lemma hash_less [simp]: "split_page_meta_hash b < KALLOC_1K_META_BUCKETS"
  by (simp add: split_page_meta_hash_def KALLOC_1K_META_BUCKETS_def)

lemma meta_at_SomeD:
  "meta_at st b = Some m \<Longrightarrow> mt_page_base m = b \<and> m \<in> set (meta_buckets st ! split_page_meta_hash b)"
  by (auto simp: split_page_meta_find_def find_Some_iff)

lemma find_map_eq:
  assumes "\<And>x. P (f x) = P x"
  shows "find P (map f xs) = map_option f (find P xs)"
  using assms by (induction xs) auto

lemma find_distinct_key:
  "distinct (map key xs) \<Longrightarrow> x \<in> set xs \<Longrightarrow> key x = a \<Longrightarrow> find (\<lambda>y. key y = a) xs = Some x"
  by (induction xs) auto

lemma find_filter_key:
  "find (\<lambda>y. key y = a) (filter P xs) = (case find (\<lambda>y. key y = a \<and> P y) xs of None \<Rightarrow> None | Some x \<Rightarrow> Some x)"
  by (induction xs) auto

lemma bucket_distinct_cells:
  "buckets_ok st \<Longrightarrow> b < KALLOC_1K_META_BUCKETS \<Longrightarrow> distinct (map mt_cell (meta_buckets st ! b))"
  unfolding buckets_ok_def cells_def by (auto simp: map_concat distinct_concat_iff)

lemma concat_update:
  assumes "b < length xss"
  shows "concat (xss[b := ys]) = concat (take b xss) @ ys @ concat (drop (Suc b) xss)"
  using assms by (simp add: upd_conv_take_nth_drop)

lemma concat_nth:
  assumes "b < length xss"
  shows "concat xss = concat (take b xss) @ xss ! b @ concat (drop (Suc b) xss)"
  using assms by (metis concat_update list_update_id)

lemma buckets_upd_meta:
  assumes ok: "buckets_ok st" and m: "meta_at st b = Some m"
    and f: "\<And>x. mt_page_base (f x) = mt_page_base x" "\<And>x. mt_cell (f x) = mt_cell x"
  shows "buckets_ok (upd_meta m f st)" and "cells (upd_meta m f st) = cells st"
    and "meta_at (upd_meta m f st) b' = (if b' = b then Some (f m) else meta_at st b')"
proof -
  define h where "h = split_page_meta_hash b"
  define g where "g = (\<lambda>x. if mt_cell x = mt_cell m then f x else x)"
  have mb: "mt_page_base m = b" "m \<in> set (meta_buckets st ! h)" using meta_at_SomeD [OF m] by (auto simp: h_def)
  have len: "h < length (meta_buckets st)" using ok by (simp add: buckets_ok_def h_def)
  have e: "upd_meta m f st = st\<lparr>meta_buckets := (meta_buckets st)[h := map g (meta_buckets st ! h)]\<rparr>"
    by (simp add: upd_meta_def Let_def mb(1) h_def g_def)
  have g: "mt_page_base (g x) = mt_page_base x" "mt_cell (g x) = mt_cell x" for x using f by (auto simp: g_def)
  show cl: "cells (upd_meta m f st) = cells st"
    using concat_update [OF len] concat_nth [OF len] by (simp add: e cells_def g comp_def)
  show "buckets_ok (upd_meta m f st)"
    using ok cl unfolding buckets_ok_def by (auto simp: e nth_update_if [OF len] g comp_def split: if_splits)
  show "meta_at (upd_meta m f st) b' = (if b' = b then Some (f m) else meta_at st b')"
  proof (cases "split_page_meta_hash b' = h")
    case True
    have "meta_at (upd_meta m f st) b' = map_option g (meta_at st b')"
      using True len by (simp add: split_page_meta_find_def e find_map_eq g)
    moreover have "g x = x" if "meta_at st b' = Some x" "b' \<noteq> b" for x
    proof -
      from meta_at_SomeD [OF that(1)] True have x: "mt_page_base x = b'" "x \<in> set (meta_buckets st ! h)" by auto
      have "inj_on mt_cell (set (meta_buckets st ! h))"
        using bucket_distinct_cells [OF ok, of h] by (simp add: distinct_map h_def)
      with x mb that(2) show ?thesis by (auto simp: g_def dest: inj_onD)
    qed
    ultimately show ?thesis using m by (cases "meta_at st b'") (auto simp: g_def)
  next
    case False
    then have "b' \<noteq> b" by (auto simp: h_def)
    with False show ?thesis by (simp add: split_page_meta_find_def e)
  qed
qed

lemma buckets_add:
  assumes ok: "buckets_ok st" and n: "meta_at st b = None" and c: "meta_free st = c # cs" and m: "mt_page_base m = b" "mt_cell m = c"
  defines "st' \<equiv> st\<lparr>meta_free := cs, meta_buckets := (meta_buckets st)[split_page_meta_hash b := m # meta_buckets st ! split_page_meta_hash b]\<rparr>"
  shows "buckets_ok st'" and "set (cells st') = set (cells st)" and "meta_at st' b' = (if b' = b then Some m else meta_at st b')"
proof -
  define h where "h = split_page_meta_hash b"
  have len: "h < length (meta_buckets st)" using ok by (simp add: buckets_ok_def h_def)
  have nin: "b \<notin> mt_page_base ` set (meta_buckets st ! h)"
    using n by (auto simp: split_page_meta_find_def h_def find_None_iff)
  have cl: "cells st' = map mt_cell (concat (take h (meta_buckets st))) @ c # map mt_cell (meta_buckets st ! h) @
      map mt_cell (concat (drop (Suc h) (meta_buckets st))) @ cs"
    using concat_update [OF len] by (simp add: st'_def cells_def h_def [symmetric] m)
  have cl0: "cells st = map mt_cell (concat (take h (meta_buckets st))) @ map mt_cell (meta_buckets st ! h) @
      map mt_cell (concat (drop (Suc h) (meta_buckets st))) @ c # cs"
    using concat_nth [OF len] by (simp add: cells_def c)
  show s: "set (cells st') = set (cells st)" unfolding cl cl0 by auto
  have d: "distinct (cells st')" using ok unfolding buckets_ok_def cl cl0 by auto
  show "buckets_ok st'"
    using ok d nin m unfolding buckets_ok_def by (auto simp: st'_def h_def [symmetric] nth_update_if [OF len] split: if_splits)
  show "meta_at st' b' = (if b' = b then Some m else meta_at st b')"
    using len m by (cases "b' = b"; cases "split_page_meta_hash b' = h")
      (auto simp: split_page_meta_find_def st'_def h_def [symmetric])
qed

lemma buckets_free:
  assumes ok: "buckets_ok st" and m: "meta_at st b = Some m"
  shows "buckets_ok (split_page_meta_free m st)" and "set (cells (split_page_meta_free m st)) = set (cells st)"
    and "meta_at (split_page_meta_free m st) b' = (if b' = b then None else meta_at st b')"
    and "free_list_page (split_page_meta_free m st) = free_list_page st" "free_list1k (split_page_meta_free m st) = free_list1k st"
    "free_mem_size_page (split_page_meta_free m st) = free_mem_size_page st"
proof -
  define h where "h = split_page_meta_hash b"
  have mb: "mt_page_base m = b" "m \<in> set (meta_buckets st ! h)" using meta_at_SomeD [OF m] by (auto simp: h_def)
  have len: "h < length (meta_buckets st)" using ok by (simp add: buckets_ok_def h_def)
  have e: "split_page_meta_free m st = st\<lparr>meta_buckets := (meta_buckets st)[h := filter (\<lambda>x. mt_cell x \<noteq> mt_cell m) (meta_buckets st ! h)],
      meta_free := mt_cell m # meta_free st\<rparr>"
    using mb(2) by (auto simp: split_page_meta_free_def Let_def mb(1) h_def)
  show "free_list_page (split_page_meta_free m st) = free_list_page st" "free_list1k (split_page_meta_free m st) = free_list1k st"
    "free_mem_size_page (split_page_meta_free m st) = free_mem_size_page st" by (simp_all add: e)
  have inj: "inj_on mt_cell (set (meta_buckets st ! h))"
    using bucket_distinct_cells [OF ok, of h] by (simp add: distinct_map h_def)
  define A where "A = map mt_cell (concat (take h (meta_buckets st)))"
  define B where "B = map mt_cell (meta_buckets st ! h)"
  define C where "C = map mt_cell (concat (drop (Suc h) (meta_buckets st)))"
  have fm: "map mt_cell (filter (\<lambda>x. mt_cell x \<noteq> mt_cell m) (meta_buckets st ! h)) = filter (\<lambda>x. x \<noteq> mt_cell m) B"
    by (simp add: B_def filter_map comp_def)
  have cl: "cells (split_page_meta_free m st) = A @ filter (\<lambda>x. x \<noteq> mt_cell m) B @ C @ mt_cell m # meta_free st"
    using concat_update [OF len] by (simp add: e cells_def fm A_def C_def)
  have cl0: "cells st = A @ B @ C @ meta_free st"
    using concat_nth [OF len] by (simp add: cells_def A_def B_def C_def)
  have inB: "mt_cell m \<in> set B" using mb(2) by (simp add: B_def)
  show "set (cells (split_page_meta_free m st)) = set (cells st)" unfolding cl cl0 using inB by auto
  have d: "distinct (cells (split_page_meta_free m st))"
    using ok inB unfolding buckets_ok_def cl cl0 by auto
  show "buckets_ok (split_page_meta_free m st)"
    using ok d unfolding buckets_ok_def
    by (auto simp: e nth_update_if [OF len] intro!: distinct_map_filter split: if_splits)
  show "meta_at (split_page_meta_free m st) b' = (if b' = b then None else meta_at st b')"
  proof (cases "split_page_meta_hash b' = h")
    case True
    have "meta_at (split_page_meta_free m st) b' = find (\<lambda>x. mt_page_base x = b' \<and> mt_cell x \<noteq> mt_cell m) (meta_buckets st ! h)"
      using True len by (simp add: split_page_meta_find_def e find_filter_key split: option.split)
    moreover have "(mt_page_base x = b' \<and> mt_cell x \<noteq> mt_cell m) = (b' \<noteq> b \<and> mt_page_base x = b')"
      if "x \<in> set (meta_buckets st ! h)" for x
    proof -
      have "distinct (map mt_page_base (meta_buckets st ! h))" using ok by (simp add: buckets_ok_def h_def)
      then have "inj_on mt_page_base (set (meta_buckets st ! h))" by (simp add: distinct_map)
      with inj that mb show ?thesis by (auto dest: inj_onD)
    qed
    ultimately have "meta_at (split_page_meta_free m st) b' = find (\<lambda>x. b' \<noteq> b \<and> mt_page_base x = b') (meta_buckets st ! h)"
      by (simp cong: find_cong)
    then show ?thesis using True by (auto simp: split_page_meta_find_def find_None_iff)
  next
    case False
    then have "b' \<noteq> b" by (auto simp: h_def)
    with False show ?thesis by (simp add: split_page_meta_find_def e)
  qed
qed


section \<open>Masks\<close>

lemma chunks_per_page [simp]: "KALLOC_1K_CHUNKS_PER_PAGE = 4"
  by (simp add: KALLOC_1K_CHUNKS_PER_PAGE_def PAGE_SIZE_def KALLOC_1K_CHUNK_SIZE_def)

lemma bit_chunk_mask: "i < 32 \<Longrightarrow> bit (kalloc1k_chunk_mask i) j \<longleftrightarrow> j = i"
  by (auto simp: kalloc1k_chunk_mask_def bit_exp_iff possible_bit_word)

lemma mask_test: "(m AND kalloc1k_chunk_mask i \<noteq> 0) \<longleftrightarrow> bit m i"
  unfolding kalloc1k_chunk_mask_def by (rule bit_iff_and_push_bit_not_eq_0 [symmetric])

definition low4 :: "u32 \<Rightarrow> bool" where
  "low4 m \<longleftrightarrow> (\<forall>j. bit m j \<longrightarrow> j < 4)"

lemma bit_full: "bit kalloc1k_full_mask j \<longleftrightarrow> j < 4"
proof -
  have e: "kalloc1k_full_mask = mask 4" by (simp add: kalloc1k_full_mask_def mask_eq_exp_minus_1)
  show ?thesis unfolding e by (auto simp: bit_mask_iff possible_bit_word simp del: mask_numeral)
qed

lemma low4_full [simp]: "low4 kalloc1k_full_mask"
  by (simp add: low4_def bit_full)

lemma full_mask_iff: "low4 m \<Longrightarrow> m = kalloc1k_full_mask \<longleftrightarrow> (\<forall>i < 4. bit m i)"
  by (auto simp: bit_eq_iff bit_full low4_def)

definition nfree :: "u32 \<Rightarrow> nat" where
  "nfree m = card {i. i < 4 \<and> bit m i}"

lemma nfree_le: "nfree m \<le> 4"
proof -
  have "card {i. i < 4 \<and> bit m i} \<le> card {..<4 :: nat}" by (rule card_mono) auto
  then show ?thesis by (simp add: nfree_def)
qed

lemma bits_set:
  assumes "i < 4"
  shows "bit (m OR kalloc1k_chunk_mask i) j \<longleftrightarrow> bit m j \<or> j = i"
    and "bit (m AND NOT (kalloc1k_chunk_mask i)) j \<longleftrightarrow> bit m j \<and> j \<noteq> i"
  using assms by (auto simp: bit_or_iff bit_and_iff bit_not_iff bit_chunk_mask possible_bit_word dest: bit_imp_le_length)

lemma nfree_set:
  assumes "i < 4" "\<not> bit m i"
  shows "nfree (m OR kalloc1k_chunk_mask i) = Suc (nfree m)"
proof -
  have "{j. j < 4 \<and> bit (m OR kalloc1k_chunk_mask i) j} = insert i {j. j < 4 \<and> bit m j}"
    using assms by (auto simp: bits_set)
  then show ?thesis using assms by (simp add: nfree_def)
qed

lemma nfree_clear:
  assumes "i < 4" "bit m i"
  shows "nfree m = Suc (nfree (m AND NOT (kalloc1k_chunk_mask i)))"
proof -
  have "{j. j < 4 \<and> bit m j} = insert i {j. j < 4 \<and> bit (m AND NOT (kalloc1k_chunk_mask i)) j}"
    using assms by (auto simp: bits_set)
  then show ?thesis using assms by (simp add: nfree_def bits_set)
qed

lemma low4_set: "i < 4 \<Longrightarrow> low4 m \<Longrightarrow> low4 (m OR kalloc1k_chunk_mask i)"
  "i < 4 \<Longrightarrow> low4 m \<Longrightarrow> low4 (m AND NOT (kalloc1k_chunk_mask i))"
  by (auto simp: low4_def bits_set)

lemma nfree_full [simp]: "nfree kalloc1k_full_mask = 4"
  by (simp add: nfree_def bit_full)

lemma nfree_4: "low4 m \<Longrightarrow> nfree m = 4 \<longleftrightarrow> m = kalloc1k_full_mask"
proof
  assume l: "low4 m" and "nfree m = 4"
  then have "card {i. i < 4 \<and> bit m i} = card {..<4 :: nat}" by (simp add: nfree_def)
  then have "{i. i < 4 \<and> bit m i} = {..<4 :: nat}" by (intro card_subset_eq) auto
  then show "m = kalloc1k_full_mask" using l by (auto simp: full_mask_iff)
qed simp

section \<open>The invariant and the free set\<close>

definition chunk_free :: "kalloc_state \<Rightarrow> nat \<Rightarrow> bool" where
  "chunk_free st c \<longleftrightarrow> (\<exists>b m i. meta_at st b = Some m \<and> i < 4 \<and> bit (mt_free_mask m) i \<and> c = b + 1024 * i)"

definition meta_ok :: "kalloc_state \<Rightarrow> nat \<Rightarrow> split_page_meta \<Rightarrow> bool" where
  "meta_ok st b m \<longleftrightarrow> PAGE_SIZE dvd b \<and> b \<notin> set (free_list_page st) \<and> low4 (mt_free_mask m) \<and>
     mt_free_count m = of_nat (nfree (mt_free_mask m))"

text \<open>\<open>full\<close>: whether a page with all chunks free may still be split, as between a split and the
  allocation it is made for.\<close>

definition kalloc_inv :: "bool \<Rightarrow> kalloc_state \<Rightarrow> bool" where
  "kalloc_inv full st \<longleftrightarrow> buckets_ok st \<and>
     distinct (free_list_page st) \<and> (\<forall>p \<in> set (free_list_page st). PAGE_SIZE dvd p) \<and>
     free_mem_size_page st = of_nat (PAGE_SIZE * length (free_list_page st)) \<and>
     (\<forall>b m. meta_at st b = Some m \<longrightarrow> meta_ok st b m \<and> (\<not> full \<longrightarrow> mt_free_mask m \<noteq> kalloc1k_full_mask)) \<and>
     distinct (free_list1k st) \<and> (\<forall>c. c \<in> set (free_list1k st) \<longleftrightarrow> chunk_free st c) \<and>
     (\<forall>c \<in> set (cells st). kalloc1k_page_base c \<notin> set (free_list_page st) \<and> meta_at st (kalloc1k_page_base c) = None)"

definition block :: "nat \<Rightarrow> nat \<Rightarrow> nat set" where
  "block sz a = {a..<a + sz}"

definition avail :: "kalloc_state \<Rightarrow> nat set" where
  "avail st = (\<Union>p \<in> set (free_list_page st). block PAGE_SIZE p) \<union> (\<Union>c \<in> set (free_list1k st). block KALLOC_1K_CHUNK_SIZE c)"

text \<open>The pages the metadata pool was carved from, and all memory not lent out.\<close>

definition pool_pages :: "kalloc_state \<Rightarrow> nat set" where
  "pool_pages st = (\<Union>c \<in> set (cells st). block PAGE_SIZE (kalloc1k_page_base c))"

definition footprint :: "kalloc_state \<Rightarrow> nat set" where
  "footprint st = avail st \<union> pool_pages st"

definition held1k :: "kalloc_state \<Rightarrow> nat \<Rightarrow> bool" where
  "held1k st a \<longleftrightarrow> (\<exists>b m i. meta_at st b = Some m \<and> i < 4 \<and> \<not> bit (mt_free_mask m) i \<and> a = b + 1024 * i)"

definition held_page :: "kalloc_state \<Rightarrow> nat \<Rightarrow> bool" where
  "held_page st p \<longleftrightarrow> PAGE_SIZE dvd p \<and> p \<notin> set (free_list_page st) \<and> meta_at st p = None \<and>
     (\<forall>c \<in> set (cells st). kalloc1k_page_base c \<noteq> p)"

lemma chunk_decomp:
  assumes "PAGE_SIZE dvd b" "i < 4"
  shows "kalloc1k_page_base (b + 1024 * i) = b" "kalloc1k_chunk_index (b + 1024 * i) = i"
proof -
  from assms(1) obtain q where q: "b = 4096 * q" by (auto simp: PAGE_SIZE_def dvd_def)
  have "(b + 1024 * i) mod 4096 = 1024 * i" using assms(2) by (simp add: q)
  then show "kalloc1k_page_base (b + 1024 * i) = b" by (simp add: kalloc1k_page_base_def PAGE_SIZE_def)
  then show "kalloc1k_chunk_index (b + 1024 * i) = i"
    by (simp add: kalloc1k_chunk_index_def KALLOC_1K_CHUNK_SIZE_def)
qed

lemma chunk_eqD:
  assumes "PAGE_SIZE dvd b" "i < 4" "PAGE_SIZE dvd b'" "i' < 4" "b + 1024 * i = b' + 1024 * i'"
  shows "b = b' \<and> i = i'"
  using chunk_decomp [OF assms(1,2)] chunk_decomp [OF assms(3,4)] assms(5) by metis

lemma block_page: "block PAGE_SIZE b = (\<Union>i<4. block KALLOC_1K_CHUNK_SIZE (b + 1024 * i))"
proof -
  have "x \<in> block PAGE_SIZE b \<longleftrightarrow> (\<exists>i<4. x \<in> block KALLOC_1K_CHUNK_SIZE (b + 1024 * i))" for x
  proof
    assume x: "x \<in> block PAGE_SIZE b"
    then show "\<exists>i<4. x \<in> block KALLOC_1K_CHUNK_SIZE (b + 1024 * i)"
      by (intro exI [of _ "(x - b) div 1024"]) (auto simp: block_def PAGE_SIZE_def KALLOC_1K_CHUNK_SIZE_def)
  qed (auto simp: block_def PAGE_SIZE_def KALLOC_1K_CHUNK_SIZE_def)
  then show ?thesis by blast
qed

lemma page_blocks_disjoint:
  assumes "PAGE_SIZE dvd p" "PAGE_SIZE dvd q" "p \<noteq> q"
  shows "block PAGE_SIZE p \<inter> block PAGE_SIZE q = {}"
proof -
  from assms obtain m n where "p = 4096 * m" "q = 4096 * n" "m \<noteq> n" by (auto simp: PAGE_SIZE_def dvd_def)
  then show ?thesis by (auto simp: block_def PAGE_SIZE_def)
qed

section \<open>Pages\<close>

lemma st_frames [simp]:
  "meta_at (st\<lparr>free_list_page := a\<rparr>) b = meta_at st b" "meta_at (st\<lparr>free_list1k := c\<rparr>) b = meta_at st b"
  "meta_at (st\<lparr>free_mem_size_page := d\<rparr>) b = meta_at st b" "meta_at (st\<lparr>meta_free := l\<rparr>) b = meta_at st b"
  "cells (st\<lparr>free_list_page := a\<rparr>) = cells st" "cells (st\<lparr>free_list1k := c\<rparr>) = cells st"
  "cells (st\<lparr>free_mem_size_page := d\<rparr>) = cells st"
  "buckets_ok (st\<lparr>free_list_page := a\<rparr>) = buckets_ok st" "buckets_ok (st\<lparr>free_list1k := c\<rparr>) = buckets_ok st"
  "buckets_ok (st\<lparr>free_mem_size_page := d\<rparr>) = buckets_ok st"
  "chunk_free (st\<lparr>free_list_page := a\<rparr>) x = chunk_free st x" "chunk_free (st\<lparr>free_list1k := c\<rparr>) x = chunk_free st x"
  "chunk_free (st\<lparr>free_mem_size_page := d\<rparr>) x = chunk_free st x"
  "held1k (st\<lparr>free_list_page := a\<rparr>) x = held1k st x" "held1k (st\<lparr>free_list1k := c\<rparr>) x = held1k st x"
  "held1k (st\<lparr>free_mem_size_page := d\<rparr>) x = held1k st x"
  by (simp_all add: split_page_meta_find_def cells_def buckets_ok_def chunk_free_def held1k_def)

lemma kalloc_invD:
  assumes "kalloc_inv full st"
  shows "buckets_ok st" "distinct (free_list_page st)" "p \<in> set (free_list_page st) \<Longrightarrow> PAGE_SIZE dvd p"
    "free_mem_size_page st = of_nat (PAGE_SIZE * length (free_list_page st))"
    "meta_at st b = Some m \<Longrightarrow> meta_ok st b m" "meta_at st b = Some m \<Longrightarrow> \<not> full \<Longrightarrow> mt_free_mask m \<noteq> kalloc1k_full_mask"
    "distinct (free_list1k st)" "c \<in> set (free_list1k st) \<longleftrightarrow> chunk_free st c"
    "c \<in> set (cells st) \<Longrightarrow> kalloc1k_page_base c \<notin> set (free_list_page st) \<and> meta_at st (kalloc1k_page_base c) = None"
  using assms unfolding kalloc_inv_def by blast+

lemma free_chunk_in_page:
  assumes "kalloc_inv full st" "c \<in> set (free_list1k st)"
  obtains b m i where "meta_at st b = Some m" "i < 4" "bit (mt_free_mask m) i" "c = b + 1024 * i" "PAGE_SIZE dvd b" "b \<notin> set (free_list_page st)"
  using kalloc_invD(8) [OF assms(1), of c] assms(2) kalloc_invD(5) [OF assms(1)]
  unfolding chunk_free_def meta_ok_def by blast

lemma chunk_sub_page: "i < 4 \<Longrightarrow> block KALLOC_1K_CHUNK_SIZE (b + 1024 * i) \<subseteq> block PAGE_SIZE b"
  unfolding block_page by blast

lemma page_chunk_disjoint:
  assumes "kalloc_inv full st" "PAGE_SIZE dvd p" "meta_at st p = None" "c \<in> set (free_list1k st)"
  shows "block PAGE_SIZE p \<inter> block KALLOC_1K_CHUNK_SIZE c = {}"
proof -
  obtain b m i where b: "meta_at st b = Some m" "i < 4" "c = b + 1024 * i" "PAGE_SIZE dvd b"
    by (rule free_chunk_in_page [OF assms(1,4)])
  then have "p \<noteq> b" using assms(3) by auto
  with page_blocks_disjoint [OF assms(2) b(4)] chunk_sub_page [OF b(2), of b] b(3) show ?thesis by blast
qed

lemma free_page_no_meta: "kalloc_inv full st \<Longrightarrow> p \<in> set (free_list_page st) \<Longrightarrow> meta_at st p = None"
  using kalloc_invD(5) [of full st p] by (cases "meta_at st p") (auto simp: meta_ok_def)

lemma kalloc_page_inv:
  assumes inv: "kalloc_inv full st" and a: "kalloc_page st = (Some p, st')"
  shows "kalloc_inv full st' \<and> held_page st' p \<and> avail st' = avail st - block PAGE_SIZE p \<and> block PAGE_SIZE p \<subseteq> avail st \<and>
    (\<forall>b. meta_at st' b = meta_at st b) \<and> cells st' = cells st \<and> free_list1k st' = free_list1k st \<and> meta_free st' = meta_free st \<and>
    free_list_page st = p # free_list_page st'"
proof -
  from a obtain ps where ps: "free_list_page st = p # ps"
    and st': "st' = st\<lparr>free_list_page := ps, free_mem_size_page := free_mem_size_page st - of_nat PAGE_SIZE\<rparr>"
    by (auto simp: kalloc_page_def split: list.splits)
  note d = kalloc_invD [OF inv]
  have i: "kalloc_inv full st'"
    unfolding kalloc_inv_def
    using d(1-4) d(7-9) ps d(5,6) by (auto simp: st' meta_ok_def)
  have nm: "meta_at st p = None" by (rule free_page_no_meta [OF inv]) (simp add: ps)
  have h: "held_page st' p"
    using d(2,3,9) nm ps unfolding held_page_def by (auto simp: st')
  have "block PAGE_SIZE p \<inter> block PAGE_SIZE q = {}" if "q \<in> set ps" for q
    by (rule page_blocks_disjoint) (use d(2,3) ps that in auto)
  moreover have "block PAGE_SIZE p \<inter> block KALLOC_1K_CHUNK_SIZE c = {}" if "c \<in> set (free_list1k st)" for c
    by (rule page_chunk_disjoint [OF inv _ nm that]) (use d(3) ps in auto)
  ultimately have "avail st' = avail st - block PAGE_SIZE p" "block PAGE_SIZE p \<subseteq> avail st"
    by (auto simp: avail_def st' ps)
  with i h show ?thesis by (simp add: st' ps)
qed

lemma kalloc_page_None: "kalloc_page st = (None, st') \<Longrightarrow> st' = st \<and> free_list_page st = []"
  by (auto simp: kalloc_page_def split: list.splits)

lemma kfree_page_inv:
  assumes inv: "kalloc_inv full st" and h: "held_page st p"
  shows "kalloc_inv full (kfree_page p st) \<and> avail (kfree_page p st) = avail st \<union> block PAGE_SIZE p \<and>
    (\<forall>b. meta_at (kfree_page p st) b = meta_at st b) \<and> cells (kfree_page p st) = cells st"
proof -
  note d = kalloc_invD [OF inv]
  have "kalloc_inv full (kfree_page p st)"
    unfolding kalloc_inv_def kfree_page_def
    using d(1-4) d(7-9) d(5,6) h by (auto simp: meta_ok_def held_page_def algebra_simps)
  then show ?thesis by (auto simp: kfree_page_def avail_def)
qed


section \<open>Releasing a chunk\<close>

lemma held1k_decomp:
  assumes "kalloc_inv full st" "held1k st c"
  obtains b m i where "meta_at st b = Some m" "i < 4" "\<not> bit (mt_free_mask m) i" "c = b + 1024 * i"
    "PAGE_SIZE dvd b" "kalloc1k_page_base c = b" "kalloc1k_chunk_index c = i" "meta_ok st b m"
proof -
  from assms(2) obtain b m i where b: "meta_at st b = Some m" "i < 4" "\<not> bit (mt_free_mask m) i" "c = b + 1024 * i"
    by (auto simp: held1k_def)
  have "meta_ok st b m" by (rule kalloc_invD(5) [OF assms(1) b(1)])
  then have "PAGE_SIZE dvd b" by (simp add: meta_ok_def)
  with chunk_decomp [OF this b(2)] b \<open>meta_ok st b m\<close> show thesis by (intro that [of b m i]) auto
qed

lemma upd_meta_fields [simp]:
  "free_list_page (upd_meta m f st) = free_list_page st" "free_list1k (upd_meta m f st) = free_list1k st"
  "free_mem_size_page (upd_meta m f st) = free_mem_size_page st" "meta_free (upd_meta m f st) = meta_free st"
  by (simp_all add: upd_meta_def Let_def)

text \<open>Changing the mask of one split page, together with the chunk list.\<close>

lemma set_mask_inv:
  assumes inv: "kalloc_inv True st" and m: "meta_at st b = Some m" and low: "low4 msk"
    and f: "\<And>x. mt_page_base (f x) = mt_page_base x" "\<And>x. mt_cell (f x) = mt_cell x"
      "mt_free_mask (f m) = msk" "mt_free_count (f m) = of_nat (nfree msk)"
    and l: "distinct l" "\<And>c. c \<in> set l \<longleftrightarrow> (if kalloc1k_page_base c = b then (\<exists>i<4. bit msk i \<and> c = b + 1024 * i) else c \<in> set (free_list1k st))"
  shows "kalloc_inv True ((upd_meta m f st)\<lparr>free_list1k := l\<rparr>) \<and>
    cells ((upd_meta m f st)\<lparr>free_list1k := l\<rparr>) = cells st \<and>
    (\<forall>b'. meta_at ((upd_meta m f st)\<lparr>free_list1k := l\<rparr>) b' = (if b' = b then Some (f m) else meta_at st b'))"
proof -
  note d = kalloc_invD [OF inv]
  let ?st = "(upd_meta m f st)\<lparr>free_list1k := l\<rparr>"
  note u = buckets_upd_meta [OF d(1) m, of f, OF f(1,2)]
  have mok: "PAGE_SIZE dvd b" "b \<notin> set (free_list_page st)" using d(5) [OF m] by (auto simp: meta_ok_def)
  have cf: "chunk_free ?st c \<longleftrightarrow> c \<in> set l" for c
  proof -
    have "chunk_free ?st c \<longleftrightarrow> (\<exists>i<4. bit msk i \<and> c = b + 1024 * i) \<or> (\<exists>b' m' i. b' \<noteq> b \<and> meta_at st b' = Some m' \<and> i < 4 \<and> bit (mt_free_mask m') i \<and> c = b' + 1024 * i)"
      unfolding chunk_free_def using u(3) f(3) by (auto split: if_splits)
    also have "\<dots> \<longleftrightarrow> (if kalloc1k_page_base c = b then (\<exists>i<4. bit msk i \<and> c = b + 1024 * i) else chunk_free st c)"
    proof -
      have h1: "kalloc1k_page_base (b' + 1024 * i) = b'" if "meta_at st b' = Some m'" "i < 4" for b' m' i
        using chunk_decomp(1) [of b' i] d(5) [OF that(1)] that(2) by (simp add: meta_ok_def)
      have h2: "kalloc1k_page_base (b + 1024 * i) = b" if "i < 4" for i using chunk_decomp(1) [OF mok(1) that] .
      show ?thesis
      proof (cases "kalloc1k_page_base c = b")
        case True
        with h1 show ?thesis by auto
      next
        case False
        with h2 have "\<not> (\<exists>i<4. bit msk i \<and> c = b + 1024 * i)" by auto
        moreover have "b' \<noteq> b" if "meta_at st b' = Some m'" "i < 4" "c = b' + 1024 * i" for b' m' i
          using h1 [OF that(1,2)] that(3) False by auto
        ultimately show ?thesis using False unfolding chunk_free_def if_not_P [OF False] by blast
      qed
    qed
    finally show ?thesis using l(2) d(8) by simp
  qed
  have "kalloc_inv True ?st"
    unfolding kalloc_inv_def
  proof (intro conjI)
    show "\<forall>b' m'. meta_at ?st b' = Some m' \<longrightarrow> meta_ok ?st b' m' \<and> (\<not> True \<longrightarrow> mt_free_mask m' \<noteq> kalloc1k_full_mask)"
      using u(3) d(5) f low mok by (auto simp: meta_ok_def)
    show "\<forall>c \<in> set (cells ?st). kalloc1k_page_base c \<notin> set (free_list_page ?st) \<and> meta_at ?st (kalloc1k_page_base c) = None"
      using d(9) u(2,3) m by auto
  qed (use u(1) d l cf in auto)
  with u(2,3) show ?thesis by simp
qed

lemma avail_chunk: "set l = insert c (set (free_list1k st)) \<Longrightarrow> free_list_page st' = free_list_page st \<Longrightarrow>
  free_list1k st' = l \<Longrightarrow> avail st' = avail st \<union> block KALLOC_1K_CHUNK_SIZE c"
  by (auto simp: avail_def)

text \<open>A page all of whose chunks are free goes back to the page list.\<close>

lemma return_page_inv:
  assumes inv: "kalloc_inv True st" and m: "meta_at st b = Some m" and full: "mt_free_mask m = kalloc1k_full_mask"
  defines "st' \<equiv> kfree_page b (split_page_meta_free m (kalloc1k_unlink_page_chunks b st))"
  shows "kalloc_inv True st' \<and> avail st' = avail st \<and> set (cells st') = set (cells st) \<and> (\<forall>b'. meta_at st' b' = (if b' = b then None else meta_at st b'))"
proof -
  note d = kalloc_invD [OF inv]
  have mok: "PAGE_SIZE dvd b" "b \<notin> set (free_list_page st)" using d(5) [OF m] by (auto simp: meta_ok_def)
  define l where "l = filter (\<lambda>c. kalloc1k_page_base c \<noteq> b) (free_list1k st)"
  define s1 where "s1 = st\<lparr>free_list1k := l\<rparr>"
  have m1: "meta_at s1 b = Some m" "buckets_ok s1" using m d(1) by (simp_all add: s1_def)
  define s2 where "s2 = split_page_meta_free m s1"
  note u = buckets_free [OF m1(2,1), folded s2_def]
  have meta2: "meta_at s2 b' = (if b' = b then None else meta_at st b')" for b' using u(3) by (simp add: s1_def)
  have cl2: "set (cells s2) = set (cells st)" using u(2) by (simp add: s1_def)
  have cf: "chunk_free s2 c \<longleftrightarrow> c \<in> set l" for c
  proof -
    have "kalloc1k_page_base (b' + 1024 * i) = b'" if "meta_at st b' = Some m'" "i < 4" for b' m' i
      using chunk_decomp(1) [of b' i] d(5) [OF that(1)] that(2) by (simp add: meta_ok_def)
    then have "chunk_free s2 c \<longleftrightarrow> chunk_free st c \<and> kalloc1k_page_base c \<noteq> b"
      unfolding chunk_free_def using meta2 by (auto split: if_splits)
    then show ?thesis using d(8) by (auto simp: l_def)
  qed
  have inv2: "kalloc_inv True s2"
    unfolding kalloc_inv_def
  proof (intro conjI)
    show "\<forall>c. c \<in> set (free_list1k s2) \<longleftrightarrow> chunk_free s2 c" using cf u(5) by (simp add: s1_def)
    show "distinct (free_list1k s2)" using d(7) u(5) by (simp add: s1_def l_def)
    show "\<forall>c \<in> set (cells s2). kalloc1k_page_base c \<notin> set (free_list_page s2) \<and> meta_at s2 (kalloc1k_page_base c) = None"
      using d(9) cl2 meta2 u(4) by (simp add: s1_def)
    show "\<forall>b' m'. meta_at s2 b' = Some m' \<longrightarrow> meta_ok s2 b' m' \<and> (\<not> True \<longrightarrow> mt_free_mask m' \<noteq> kalloc1k_full_mask)"
      using meta2 d(5) u(4) by (auto simp: meta_ok_def s1_def)
  qed (use u d in \<open>simp_all add: s1_def\<close>)
  have held: "held_page s2 b"
    using mok meta2 u(4) d(9) m cl2 by (auto simp: held_page_def s1_def)
  have st': "st' = kfree_page b s2" by (simp add: st'_def s2_def s1_def l_def kalloc1k_unlink_page_chunks_def)
  note k = kfree_page_inv [OF inv2 held]
  have "(\<Union>c \<in> set (free_list1k st). block KALLOC_1K_CHUNK_SIZE c) = (\<Union>c \<in> set l. block KALLOC_1K_CHUNK_SIZE c) \<union> block PAGE_SIZE b"
  proof -
    have "c \<in> set (free_list1k st) \<longleftrightarrow> c \<in> set l \<or> (\<exists>i<4. c = b + 1024 * i)" for c
    proof -
      have "\<exists>i<4. c = b + 1024 * i" if c: "c \<in> set (free_list1k st)" "kalloc1k_page_base c = b"
      proof -
        obtain b' m' i where x: "meta_at st b' = Some m'" "i < 4" "c = b' + 1024 * i" "PAGE_SIZE dvd b'"
          by (rule free_chunk_in_page [OF inv c(1)])
        with chunk_decomp(1) [OF x(4,2)] c(2) show ?thesis by auto
      qed
      moreover have "c \<in> set (free_list1k st)" if "i < 4" "c = b + 1024 * i" for i
      proof -
        have "chunk_free st c" unfolding chunk_free_def
          by (rule exI [of _ b], rule exI [of _ m], rule exI [of _ i]) (use m full that bit_full in simp)
        with d(8) [of c] show ?thesis by simp
      qed
      ultimately show ?thesis by (auto simp: l_def)
    qed
    then show ?thesis unfolding block_page by auto
  qed
  then have "avail st' = avail st" using k u(4,5) by (auto simp: st' avail_def s1_def)
  with k meta2 cl2 show ?thesis by (simp add: st')
qed


lemma kfree1k_inv:
  assumes inv: "kalloc_inv False st" and h: "held1k st c"
  shows "kalloc_inv False (kfree1k c st) \<and> avail (kfree1k c st) = avail st \<union> block KALLOC_1K_CHUNK_SIZE c \<and>
    set (cells (kfree1k c st)) = set (cells st) \<and>
    (\<forall>a. a \<noteq> c \<longrightarrow> held1k st a \<longrightarrow> held1k (kfree1k c st) a)"
proof -
  obtain b m i where x: "meta_at st b = Some m" "i < 4" "\<not> bit (mt_free_mask m) i" "c = b + 1024 * i"
    "PAGE_SIZE dvd b" "kalloc1k_page_base c = b" "kalloc1k_chunk_index c = i" "meta_ok st b m"
    by (rule held1k_decomp [OF inv h])
  note d = kalloc_invD [OF inv]
  have invT: "kalloc_inv True st" using inv by (auto simp: kalloc_inv_def)
  define msk where "msk = mt_free_mask m OR kalloc1k_chunk_mask i"
  define f where "f = (\<lambda>x :: split_page_meta. x\<lparr>mt_free_mask := msk, mt_free_count := mt_free_count m + 1\<rparr>)"
  have low: "low4 msk" and cnt: "mt_free_count m + 1 = of_nat (nfree msk)"
    using x(8) low4_set(1) [OF x(2)] nfree_set [OF x(2,3)] by (auto simp: meta_ok_def msk_def)
  have nin: "c \<notin> set (free_list1k st)"
  proof
    assume "c \<in> set (free_list1k st)"
    then obtain b' m' j where y: "meta_at st b' = Some m'" "j < 4" "bit (mt_free_mask m') j" "c = b' + 1024 * j" "PAGE_SIZE dvd b'"
      by (rule free_chunk_in_page [OF inv])
    from chunk_eqD [OF x(5,2) y(5,2)] x(4) y(4) have "b = b'" "i = j" by auto
    with x(1,3) y(1,3) show False by simp
  qed
  have memb: "y \<in> set (c # free_list1k st) \<longleftrightarrow> (if kalloc1k_page_base y = b then (\<exists>j<4. bit msk j \<and> y = b + 1024 * j) else y \<in> set (free_list1k st))" for y
  proof (cases "kalloc1k_page_base y = b")
    case True
    have "y \<in> set (free_list1k st) \<longleftrightarrow> (\<exists>j<4. bit (mt_free_mask m) j \<and> y = b + 1024 * j)"
    proof
      assume "y \<in> set (free_list1k st)"
      then obtain b' m' j where y: "meta_at st b' = Some m'" "j < 4" "bit (mt_free_mask m') j" "y = b' + 1024 * j" "PAGE_SIZE dvd b'"
        by (rule free_chunk_in_page [OF inv])
      with chunk_decomp(1) [OF y(5,2)] True x(1) show "\<exists>j<4. bit (mt_free_mask m) j \<and> y = b + 1024 * j" by auto
    next
      assume "\<exists>j<4. bit (mt_free_mask m) j \<and> y = b + 1024 * j"
      then have "chunk_free st y" using x(1) by (auto simp: chunk_free_def)
      then show "y \<in> set (free_list1k st)" using d(8) by simp
    qed
    then show ?thesis using True x(2,4) by (auto simp: msk_def bits_set)
  next
    case False
    then show ?thesis using x(6) by auto
  qed
  let ?s1 = "(upd_meta m f st)\<lparr>free_list1k := c # free_list1k st\<rparr>"
  have s1: "kalloc_inv True ?s1" and cl1: "cells ?s1 = cells st" and meta1: "\<And>b'. meta_at ?s1 b' = (if b' = b then Some (f m) else meta_at st b')"
    using set_mask_inv [OF invT x(1) low, of f "c # free_list1k st"] memb nin d(7) cnt by (auto simp: f_def)
  have av1: "avail ?s1 = avail st \<union> block KALLOC_1K_CHUNK_SIZE c" by (auto simp: avail_def)
  have e: "kfree1k c st = (if msk = kalloc1k_full_mask
      then kfree_page b (split_page_meta_free m (kalloc1k_unlink_page_chunks b ?s1)) else ?s1)"
  proof -
    have "mt_free_count m + 1 = of_nat KALLOC_1K_CHUNKS_PER_PAGE" if "msk = kalloc1k_full_mask"
      using cnt that by simp
    moreover have "\<not> (mt_free_mask m AND kalloc1k_chunk_mask i \<noteq> 0)" using x(3) mask_test by blast
    ultimately show ?thesis
      by (auto simp: kfree1k_def x(1,6,7) Let_def msk_def [symmetric] f_def kfree1k_link_only_def)
  qed
  have held: "held1k ?s1 a" if "held1k st a" "a \<noteq> c" for a
  proof -
    from that(1) obtain b' m' j where y: "meta_at st b' = Some m'" "j < 4" "\<not> bit (mt_free_mask m') j" "a = b' + 1024 * j"
      by (auto simp: held1k_def)
    show ?thesis
      unfolding held1k_def
      by (rule exI [of _ b'], rule exI [of _ "if b' = b then f m else m'"], rule exI [of _ j])
        (use y x that(2) meta1 in \<open>auto simp: f_def msk_def bits_set\<close>)
  qed
  show ?thesis
  proof (cases "msk = kalloc1k_full_mask")
    case True
    have mf: "meta_at ?s1 b = Some (f m)" using meta1 by simp
    have fr: "split_page_meta_free (f m) = split_page_meta_free m" by (rule ext) (simp add: split_page_meta_free_def f_def Let_def)
    have ff: "mt_free_mask (f m) = kalloc1k_full_mask" by (simp add: f_def True)
    from return_page_inv [OF s1 mf ff] True have r: "kalloc_inv True (kfree1k c st)" "avail (kfree1k c st) = avail ?s1"
      "set (cells (kfree1k c st)) = set (cells ?s1)" "\<And>b'. meta_at (kfree1k c st) b' = (if b' = b then None else meta_at ?s1 b')"
      by (simp_all add: e fr)
    have "kalloc_inv False (kfree1k c st)"
      using r(1) r(4) meta1 d(6) unfolding kalloc_inv_def by (auto split: if_splits)
    moreover have "held1k (kfree1k c st) a" if a: "held1k st a" "a \<noteq> c" for a
    proof -
      from held [OF a] obtain b' m' j where y: "meta_at ?s1 b' = Some m'" "j < 4" "\<not> bit (mt_free_mask m') j" "a = b' + 1024 * j"
        by (auto simp: held1k_def)
      have "b' \<noteq> b" using y(1-3) mf ff bit_full [of j] by auto
      then have "meta_at (kfree1k c st) b' = Some m'" using r(4) [of b'] y(1) by simp
      then show ?thesis unfolding held1k_def using y(2-4) by blast
    qed
    ultimately show ?thesis using r av1 x(6) cl1 by auto
  next
    case False
    have "kalloc_inv False ?s1"
      using s1 meta1 False d(6) unfolding kalloc_inv_def by (auto simp: f_def split: if_splits)
    with False av1 held cl1 show ?thesis by (auto simp: e)
  qed
qed


section \<open>Allocating a chunk\<close>

lemma of_nat_u32_neq_0: "0 < n \<Longrightarrow> n < 2 ^ 32 \<Longrightarrow> (of_nat n :: u32) \<noteq> 0"
  by (auto simp: word_of_nat_eq_0_iff dest: nat_dvd_not_less)

lemma kalloc1k_take_inv:
  assumes inv: "kalloc_inv True st" and t: "kalloc1k_take st = (Some c, st')"
    and full: "\<And>b m. meta_at st b = Some m \<Longrightarrow> mt_free_mask m = kalloc1k_full_mask \<Longrightarrow> b = kalloc1k_page_base (hd (free_list1k st))"
  shows "kalloc_inv False st' \<and> block KALLOC_1K_CHUNK_SIZE c \<subseteq> avail st \<and> avail st' = avail st - block KALLOC_1K_CHUNK_SIZE c \<and>
    held1k st' c \<and> cells st' = cells st \<and> (\<forall>a. held1k st a \<longrightarrow> held1k st' a)"
proof -
  note d = kalloc_invD [OF inv]
  obtain cs where l: "free_list1k st = c # cs" using t by (auto simp: kalloc1k_take_def Let_def split: list.splits)
  obtain b m i where x: "meta_at st b = Some m" "i < 4" "bit (mt_free_mask m) i" "c = b + 1024 * i" "PAGE_SIZE dvd b" "b \<notin> set (free_list_page st)"
    by (rule free_chunk_in_page [OF inv, of c]) (simp add: l)
  have cd: "kalloc1k_page_base c = b" "kalloc1k_chunk_index c = i" using chunk_decomp [OF x(5,2)] x(4) by auto
  have mok: "meta_ok st b m" by (rule d(5) [OF x(1)])
  define msk where "msk = mt_free_mask m AND NOT (kalloc1k_chunk_mask i)"
  define f where "f = (\<lambda>x :: split_page_meta. x\<lparr>mt_free_mask := mt_free_mask x AND NOT (kalloc1k_chunk_mask i),
    mt_free_count := (if mt_free_count x > 0 then mt_free_count x - 1 else mt_free_count x)\<rparr>)"
  have low: "low4 msk" using mok low4_set(2) [OF x(2)] by (auto simp: meta_ok_def msk_def)
  have nf: "nfree (mt_free_mask m) = Suc (nfree msk)" unfolding msk_def by (rule nfree_clear [OF x(2,3)])
  have cnt: "mt_free_count (f m) = of_nat (nfree msk)"
  proof -
    have "mt_free_count m = of_nat (Suc (nfree msk))" using mok nf by (simp add: meta_ok_def)
    moreover have "(of_nat (Suc (nfree msk)) :: u32) \<noteq> 0"
      by (rule of_nat_u32_neq_0) (use nfree_le [of "mt_free_mask m"] nf in auto)
    ultimately show ?thesis by (simp add: f_def word_gt_0)
  qed
  have memb: "y \<in> set cs \<longleftrightarrow> (if kalloc1k_page_base y = b then (\<exists>j<4. bit msk j \<and> y = b + 1024 * j) else y \<in> set (free_list1k st))" for y
  proof (cases "kalloc1k_page_base y = b")
    case True
    have "y \<in> set (free_list1k st) \<longleftrightarrow> (\<exists>j<4. bit (mt_free_mask m) j \<and> y = b + 1024 * j)"
    proof
      assume "y \<in> set (free_list1k st)"
      then obtain b' m' j where y: "meta_at st b' = Some m'" "j < 4" "bit (mt_free_mask m') j" "y = b' + 1024 * j" "PAGE_SIZE dvd b'"
        by (rule free_chunk_in_page [OF inv])
      with chunk_decomp(1) [OF y(5,2)] True x(1) show "\<exists>j<4. bit (mt_free_mask m) j \<and> y = b + 1024 * j" by auto
    next
      assume "\<exists>j<4. bit (mt_free_mask m) j \<and> y = b + 1024 * j"
      then have "chunk_free st y" using x(1) by (auto simp: chunk_free_def)
      then show "y \<in> set (free_list1k st)" using d(8) by simp
    qed
    then show ?thesis using True x(2,4) d(7) l by (auto simp: msk_def bits_set)
  next
    case False
    then show ?thesis using cd(1) l by auto
  qed
  have e: "st' = (upd_meta m f st)\<lparr>free_list1k := cs\<rparr>"
  proof -
    have "mt_free_mask m AND kalloc1k_chunk_mask i \<noteq> 0" using x(3) mask_test by blast
    then show ?thesis using t by (auto simp: kalloc1k_take_def l Let_def cd x(1) f_def upd_meta_def)
  qed
  have s1: "kalloc_inv True st'" and cl1: "cells st' = cells st" and meta1: "\<And>b'. meta_at st' b' = (if b' = b then Some (f m) else meta_at st b')"
    using set_mask_inv [OF inv x(1) low, of f cs] memb d(7) l cnt unfolding e by (auto simp: f_def msk_def)
  have "kalloc_inv False st'"
  proof -
    have "mt_free_mask m' \<noteq> kalloc1k_full_mask" if "meta_at st' b' = Some m'" for b' m'
    proof (cases "b' = b")
      case True
      then have "\<not> bit (mt_free_mask m') i" using that meta1 x(2) by (auto simp: f_def bits_set)
      then show ?thesis using bit_full [of i] x(2) by auto
    next
      case False
      then show ?thesis using that meta1 full [of b' m'] cd(1) l by auto
    qed
    with s1 show ?thesis unfolding kalloc_inv_def by blast
  qed
  moreover have "block KALLOC_1K_CHUNK_SIZE c \<subseteq> avail st" by (auto simp: avail_def l)
  moreover have "avail st' = avail st - block KALLOC_1K_CHUNK_SIZE c"
  proof -
    have pg: "block PAGE_SIZE p \<inter> block KALLOC_1K_CHUNK_SIZE c = {}" if "p \<in> set (free_list_page st)" for p
      using page_chunk_disjoint [OF inv d(3) [OF that] free_page_no_meta [OF inv that], of c] by (simp add: l)
    have ck: "block KALLOC_1K_CHUNK_SIZE y \<inter> block KALLOC_1K_CHUNK_SIZE c = {}" if yin: "y \<in> set cs" for y
    proof -
      obtain b' m' j where y: "meta_at st b' = Some m'" "j < 4" "bit (mt_free_mask m') j" "y = b' + 1024 * j" "PAGE_SIZE dvd b'"
        by (rule free_chunk_in_page [OF inv, of y]) (use yin l in auto)
      have pgd: "1024 dvd PAGE_SIZE" by (simp add: PAGE_SIZE_def)
      have "y \<noteq> c" using d(7) l yin by auto
      moreover have "1024 dvd y" "1024 dvd c" using dvd_trans [OF pgd y(5)] dvd_trans [OF pgd x(5)] y(4) x(4) by simp_all
      ultimately show ?thesis by (auto simp: block_def KALLOC_1K_CHUNK_SIZE_def dvd_def)
    qed
    show ?thesis using pg ck by (auto simp: avail_def e l)
  qed
  moreover have "held1k st' c"
    unfolding held1k_def by (rule exI [of _ b], rule exI [of _ "f m"], rule exI [of _ i])
      (use meta1 x in \<open>auto simp: f_def bits_set\<close>)
  moreover have "held1k st' a" if "held1k st a" for a
  proof -
    from that obtain b' m' j where y: "meta_at st b' = Some m'" "j < 4" "\<not> bit (mt_free_mask m') j" "a = b' + 1024 * j"
      by (auto simp: held1k_def)
    show ?thesis unfolding held1k_def
      by (rule exI [of _ b'], rule exI [of _ "if b' = b then f m else m'"], rule exI [of _ j])
        (use y x meta1 in \<open>auto simp: f_def bits_set\<close>)
  qed
  ultimately show ?thesis using cl1 by blast
qed


lemma avail_mono_pages: "free_list1k st' = free_list1k st \<Longrightarrow> set (free_list_page st') \<subseteq> set (free_list_page st) \<Longrightarrow> avail st' \<subseteq> avail st"
  by (auto simp: avail_def)

text \<open>A metadata cell is taken for a held page; growing the pool costs a page.\<close>

lemma cell_page:
  assumes "PAGE_SIZE dvd p" "i < PAGE_SIZE div META_SIZE"
  shows "kalloc1k_page_base (p + i * META_SIZE) = p"
proof -
  from assms(1) obtain q where q: "p = 4096 * q" by (auto simp: PAGE_SIZE_def dvd_def)
  have "i * 24 < 4096" using assms(2) by (simp add: PAGE_SIZE_def META_SIZE_def)
  then have "(p + i * 24) mod 4096 = i * 24" by (simp add: q)
  then show ?thesis by (simp add: kalloc1k_page_base_def PAGE_SIZE_def META_SIZE_def)
qed

lemma fold_cons: "fold (\<lambda>i l. g i # l) is l = rev (map g is) @ l"
  by (induction "is" arbitrary: l) auto

lemma grow_inv:
  assumes inv: "kalloc_inv full st" and g: "split_page_meta_grow st = (0, st')" and h: "held_page st p"
  shows "kalloc_inv full st' \<and> held_page st' p \<and> avail st' \<subseteq> avail st \<and> (\<forall>b. meta_at st' b = meta_at st b) \<and>
    free_list1k st' = free_list1k st \<and> footprint st' = footprint st \<and> meta_free st' \<noteq> []"
proof -
  obtain q st1 where q: "kalloc_page st = (Some q, st1)"
    and st': "st' = st1\<lparr>meta_free := fold (\<lambda>i l. (q + i * META_SIZE) # l) [0..<PAGE_SIZE div META_SIZE] (meta_free st1)\<rparr>"
    using g by (auto simp: split_page_meta_grow_def split: prod.splits option.splits)
  define new where "new = rev (map (\<lambda>i. q + i * META_SIZE) [0..<PAGE_SIZE div META_SIZE])"
  have st': "st' = st1\<lparr>meta_free := new @ meta_free st1\<rparr>" by (simp add: st' fold_cons new_def)
  note k = kalloc_page_inv [OF inv q]
  then have inv1: "kalloc_inv full st1" and hq: "held_page st1 q" by auto
  note d = kalloc_invD [OF inv1]
  have nb: "kalloc1k_page_base c = q" if "c \<in> set new" for c
    using that hq cell_page [of q] by (auto simp: new_def held_page_def)
  have cl: "cells st' = map mt_cell (concat (meta_buckets st1)) @ new @ meta_free st1" by (simp add: st' cells_def)
  have dn: "distinct new" by (auto simp: new_def distinct_map inj_on_def META_SIZE_def)
  have nq: "c \<notin> set (cells st1)" if "c \<in> set new" for c
    using hq nb [OF that] by (auto simp: held_page_def)
  have "distinct (cells st1)" using d(1) by (simp add: buckets_ok_def)
  then have "distinct (cells st')" using dn nq unfolding cl by (auto simp: cells_def [of st1])
  then have bok: "buckets_ok st'" using d(1) by (simp add: buckets_ok_def st')
  have cs: "set (cells st') = set new \<union> set (cells st1)" unfolding cl by (auto simp: cells_def)
  have "kalloc_inv full st'"
    unfolding kalloc_inv_def
    using d(2-8) bok cs nb hq d(9)
    by (auto simp: st' meta_ok_def chunk_free_def held_page_def)
  moreover have "held_page st' p"
  proof -
    have "p \<noteq> q" using h k by (auto simp: held_page_def)
    with h k cs nb show ?thesis by (auto simp: held_page_def st')
  qed
  moreover have "new \<noteq> []" by (simp add: new_def PAGE_SIZE_def META_SIZE_def)
  moreover have "avail st' \<subseteq> avail st" using k by (auto simp: st' avail_def)
  moreover have "footprint st' = footprint st"
  proof -
    have "(\<Union>c \<in> set new. block PAGE_SIZE (kalloc1k_page_base c)) = block PAGE_SIZE q"
      using nb \<open>new \<noteq> []\<close> by (auto simp: neq_Nil_conv)
    then have "pool_pages st' = pool_pages st1 \<union> block PAGE_SIZE q" by (simp add: pool_pages_def cs Un_commute)
    then show ?thesis using k by (auto simp: footprint_def pool_pages_def st' avail_def)
  qed
  ultimately show ?thesis using k by (simp add: st')
qed

lemma grow_fails: "split_page_meta_grow st = (r, st') \<Longrightarrow> r \<noteq> 0 \<Longrightarrow> st' = st"
  by (auto simp: split_page_meta_grow_def dest: kalloc_page_None split: prod.splits option.splits)

text \<open>Splitting a page.\<close>

lemma less_4: "i < 4 \<longleftrightarrow> i = 0 \<or> i = 1 \<or> i = 2 \<or> i = (3 :: nat)"
  by arith

lemma ex_less_4: "(\<exists>i < 4. P i) \<longleftrightarrow> P 0 \<or> P 1 \<or> P 2 \<or> P (3 :: nat)"
  unfolding less_4 by blast

lemma UN_less_4: "(\<Union>i < 4. f i) = f 0 \<union> f 1 \<union> f 2 \<union> f (3 :: nat)"
  unfolding lessThan_def less_4 by blast

lemma fold_link_only:
  "fold (\<lambda>i. kfree1k_link_only (g i)) is st = st\<lparr>free_list1k := rev (map g is) @ free_list1k st\<rparr>"
  by (induction "is" arbitrary: st) (auto simp: kfree1k_link_only_def)

lemma split_page_meta_alloc_inv:
  assumes inv: "kalloc_inv full st" and h: "held_page st p" and a: "split_page_meta_alloc p st = (Some m, st')"
  obtains st1 where "kalloc_inv full st1" "held_page st1 p" "avail st1 \<subseteq> avail st" "\<And>b. meta_at st1 b = meta_at st b"
    "free_list1k st1 = free_list1k st" "footprint st1 = footprint st" "meta_free st1 = mt_cell m # meta_free st'" "mt_page_base m = p"
    "mt_free_mask m = 0" "mt_free_count m = 0"
    "st' = st1\<lparr>meta_free := meta_free st', meta_buckets := (meta_buckets st1)[split_page_meta_hash p := m # meta_buckets st1 ! split_page_meta_hash p]\<rparr>"
proof -
  obtain r st1 where g: "(if meta_free st = [] then split_page_meta_grow st else (0, st)) = (r, st1)" by fastforce
  have r: "r = 0" and m: "m = \<lparr>mt_cell = hd (meta_free st1), mt_page_base = p, mt_free_mask = 0, mt_free_count = 0\<rparr>"
    and st': "st' = st1\<lparr>meta_free := tl (meta_free st1),
      meta_buckets := (meta_buckets st1)[split_page_meta_hash p := m # meta_buckets st1 ! split_page_meta_hash p]\<rparr>"
    using a by (auto simp: split_page_meta_alloc_def g Let_def split: if_splits)
  have "kalloc_inv full st1 \<and> held_page st1 p \<and> avail st1 \<subseteq> avail st \<and> (\<forall>b. meta_at st1 b = meta_at st b) \<and>
    free_list1k st1 = free_list1k st \<and> footprint st1 = footprint st \<and> meta_free st1 \<noteq> []"
  proof (cases "meta_free st = []")
    case True
    with g r have "split_page_meta_grow st = (0, st1)" by simp
    then show ?thesis by (rule grow_inv [OF inv _ h])
  next
    case False
    with g inv h show ?thesis by simp
  qed
  with that [of st1] show thesis unfolding m st' by simp
qed

lemma split_page_meta_alloc_fails:
  "split_page_meta_alloc p st = (None, st') \<Longrightarrow> st' = st"
  by (auto simp: split_page_meta_alloc_def Let_def dest: grow_fails split: if_splits prod.splits)

lemma kalloc1k_split_fails:
  assumes "kalloc1k_split_page st = (r, st')" "r \<noteq> 0"
  shows "st' = st"
proof (cases "kalloc_page st")
  case (Pair o1 st1)
  show ?thesis
  proof (cases o1)
    case None
    with assms Pair show ?thesis by (auto simp: kalloc1k_split_page_def dest: kalloc_page_None)
  next
    case (Some p)
    obtain ps where ps: "free_list_page st = p # ps"
      "st1 = st\<lparr>free_list_page := ps, free_mem_size_page := free_mem_size_page st - of_nat PAGE_SIZE\<rparr>"
      using Pair Some by (auto simp: kalloc_page_def split: list.splits)
    obtain o2 st2 where o2: "split_page_meta_alloc p st1 = (o2, st2)" by fastforce
    then have "o2 = None" using assms Pair Some by (cases o2) (auto simp: kalloc1k_split_page_def Let_def)
    with assms Pair Some o2 have "st' = kfree_page p st1"
      using split_page_meta_alloc_fails [of p st1 st2] by (auto simp: kalloc1k_split_page_def)
    with ps show ?thesis by (simp add: kfree_page_def)
  qed
qed

lemma kalloc1k_split_inv:
  assumes inv: "kalloc_inv False st" and e: "free_list1k st = []" and s: "kalloc1k_split_page st = (0, st')"
  obtains p where "kalloc_inv True st'" "avail st' \<subseteq> avail st" "footprint st' = footprint st" "free_list1k st' \<noteq> []" "kalloc1k_page_base (hd (free_list1k st')) = p"
    "\<And>b m. meta_at st' b = Some m \<Longrightarrow> mt_free_mask m = kalloc1k_full_mask \<Longrightarrow> b = p"
    "\<And>a. held1k st a \<Longrightarrow> held1k st' a"
proof -
  obtain p st1 where p: "kalloc_page st = (Some p, st1)"
    using s by (cases "kalloc_page st"; cases "fst (kalloc_page st)") (auto simp: kalloc1k_split_page_def)
  obtain m st3 where m: "split_page_meta_alloc p st1 = (Some m, st3)"
    using s p by (cases "split_page_meta_alloc p st1"; cases "fst (split_page_meta_alloc p st1)") (auto simp: kalloc1k_split_page_def)
  define f where "f = (\<lambda>m :: split_page_meta. m\<lparr>mt_free_mask := kalloc1k_full_mask, mt_free_count := of_nat KALLOC_1K_CHUNKS_PER_PAGE\<rparr>)"
  have k: "kalloc_inv False st1" "held_page st1 p" "avail st1 = avail st - block PAGE_SIZE p" "block PAGE_SIZE p \<subseteq> avail st"
    "\<And>b. meta_at st1 b = meta_at st b" "free_list1k st1 = []" "cells st1 = cells st"
    using kalloc_page_inv [OF inv p] e by auto
  obtain st2 where s2: "kalloc_inv False st2" "held_page st2 p" "avail st2 \<subseteq> avail st1" "\<And>b. meta_at st2 b = meta_at st1 b"
    "free_list1k st2 = free_list1k st1" "footprint st2 = footprint st1" "meta_free st2 = mt_cell m # meta_free st3" "mt_page_base m = p"
    "mt_free_mask m = 0" "mt_free_count m = 0"
    and st3: "st3 = st2\<lparr>meta_free := meta_free st3, meta_buckets := (meta_buckets st2)[split_page_meta_hash p := m # meta_buckets st2 ! split_page_meta_hash p]\<rparr>"
    by (rule split_page_meta_alloc_inv [OF k(1,2) m]) metis
  note d = kalloc_invD [OF s2(1)]
  have hp: "PAGE_SIZE dvd p" "p \<notin> set (free_list_page st2)" "meta_at st2 p = None" "\<And>c. c \<in> set (cells st2) \<Longrightarrow> kalloc1k_page_base c \<noteq> p"
    using s2(2) by (auto simp: held_page_def)
  have ba: "buckets_ok st3" "set (cells st3) = set (cells st2)" "\<And>b. meta_at st3 b = (if b = p then Some m else meta_at st2 b)"
    using buckets_add [OF d(1) hp(3) s2(7) s2(8) refl] st3 by metis+
  have f3: "free_list_page st3 = free_list_page st2" "free_list1k st3 = []" "free_mem_size_page st3 = free_mem_size_page st2"
    by (subst st3, simp add: s2(5) k(6))+
  have nof: "\<not> chunk_free st2 c" for c using d(8) [of c] s2(5) k(6) by simp
  have inv3: "kalloc_inv True st3"
  proof -
    have mo: "meta_ok st3 b x" if "meta_at st3 b = Some x" for b x
    proof (cases "b = p")
      case True
      then show ?thesis using that ba(3) hp s2(9,10) f3 by (simp add: meta_ok_def low4_def nfree_def)
    next
      case False
      then show ?thesis using that ba(3) d(5) [of b x] f3 by (simp add: meta_ok_def)
    qed
    have "\<not> chunk_free st3 c" for c using nof ba(3) s2(9) unfolding chunk_free_def by (auto split: if_splits)
    then show ?thesis unfolding kalloc_inv_def using ba mo f3 d(2,3,4,9) hp(4) by auto
  qed
  have m3: "meta_at st3 p = Some m" using ba(3) by simp
  define l where "l = rev (map (\<lambda>i. p + i * KALLOC_1K_CHUNK_SIZE) [0..<KALLOC_1K_CHUNKS_PER_PAGE])"
  have l: "l = [p + 1024 * 3, p + 1024 * 2, p + 1024 * 1, p + 1024 * 0]"
    by (simp add: l_def upt_rec KALLOC_1K_CHUNK_SIZE_def)
  have st': "st' = (upd_meta m f st3)\<lparr>free_list1k := l\<rparr>"
    using s p m by (simp add: kalloc1k_split_page_def Let_def fold_link_only f_def f3(2) l_def del: chunks_per_page)
  have lm: "c \<in> set l \<longleftrightarrow> (if kalloc1k_page_base c = p then (\<exists>i<4. bit kalloc1k_full_mask i \<and> c = p + 1024 * i) else c \<in> set (free_list1k st3))" for c
  proof -
    have "c \<in> set l \<longleftrightarrow> (\<exists>i<4. c = p + 1024 * i)" unfolding l ex_less_4 by auto
    then show ?thesis using chunk_decomp(1) [OF hp(1)] by (auto simp: bit_full f3(2))
  qed
  have r: "kalloc_inv True st'" and cl: "cells st' = cells st3" and mt: "\<And>b. meta_at st' b = (if b = p then Some (f m) else meta_at st3 b)"
    using set_mask_inv [OF inv3 m3 low4_full, of f l] lm unfolding st' by (auto simp: f_def l)
  show thesis
  proof (rule that [of p])
    show "kalloc_inv True st'" by (rule r)
    have pg: "avail st' = (\<Union>q \<in> set (free_list_page st2). block PAGE_SIZE q) \<union> block PAGE_SIZE p"
    proof -
      have "(\<Union>c \<in> set l. block KALLOC_1K_CHUNK_SIZE c) = block PAGE_SIZE p"
        unfolding block_page UN_less_4 by (auto simp: l)
      then show ?thesis by (simp add: avail_def st' f3)
    qed
    have av2: "avail st2 = (\<Union>q \<in> set (free_list_page st2). block PAGE_SIZE q)" using s2(5) k(6) by (simp add: avail_def)
    from av2 pg s2(3) k(3,4) show "avail st' \<subseteq> avail st" by auto
    show "footprint st' = footprint st"
    proof -
      have "footprint st' = footprint st2 \<union> block PAGE_SIZE p"
        using pg av2 ba(2) by (auto simp: footprint_def pool_pages_def cl)
      also have "\<dots> = footprint st" using s2(6) k(3,4,7) by (auto simp: footprint_def pool_pages_def)
      finally show ?thesis .
    qed
    show "free_list1k st' \<noteq> []" by (simp add: st' l)
    show "kalloc1k_page_base (hd (free_list1k st')) = p" using chunk_decomp(1) [OF hp(1), of 3] by (simp add: st' l)
    show "b = p" if "meta_at st' b = Some x" "mt_free_mask x = kalloc1k_full_mask" for b x
      using that mt [of b] ba(3) [of b] d(6) [of b x] by (auto split: if_splits)
    show "held1k st' a" if "held1k st a" for a
    proof -
      from that obtain b x i where y: "meta_at st b = Some x" "i < 4" "\<not> bit (mt_free_mask x) i" "a = b + 1024 * i"
        by (auto simp: held1k_def)
      have "b \<noteq> p" using y(1) k(5) s2(4) hp(3) by auto
      then have "meta_at st' b = Some x" using mt ba(3) s2(4) k(5) y(1) by simp
      then show ?thesis using y unfolding held1k_def by blast
    qed
  qed
qed

lemma kalloc1k_inv:
  assumes inv: "kalloc_inv False st" and a: "kalloc1k st = (Some c, st')"
  shows "kalloc_inv False st' \<and> block KALLOC_1K_CHUNK_SIZE c \<subseteq> avail st \<and> avail st' \<subseteq> avail st - block KALLOC_1K_CHUNK_SIZE c \<and>
    held1k st' c \<and> footprint st = footprint st' \<union> block KALLOC_1K_CHUNK_SIZE c \<and> (\<forall>a. held1k st a \<longrightarrow> held1k st' a)"
proof (cases "free_list1k st = []")
  case True
  obtain st1 where s: "kalloc1k_split_page st = (0, st1)" and t: "kalloc1k_take st1 = (Some c, st')"
    using a True by (cases "kalloc1k_split_page st") (auto simp: kalloc1k_def split: if_splits)
  obtain p where x: "kalloc_inv True st1" "avail st1 \<subseteq> avail st" "footprint st1 = footprint st" "kalloc1k_page_base (hd (free_list1k st1)) = p"
    "\<And>b m. meta_at st1 b = Some m \<Longrightarrow> mt_free_mask m = kalloc1k_full_mask \<Longrightarrow> b = p" "\<And>a. held1k st a \<Longrightarrow> held1k st1 a"
    by (rule kalloc1k_split_inv [OF inv True s]) metis
  from kalloc1k_take_inv [OF x(1) t] x(4,5) have "kalloc_inv False st' \<and> block KALLOC_1K_CHUNK_SIZE c \<subseteq> avail st1 \<and>
    avail st' = avail st1 - block KALLOC_1K_CHUNK_SIZE c \<and> held1k st' c \<and> cells st' = cells st1 \<and> (\<forall>a. held1k st1 a \<longrightarrow> held1k st' a)" by blast
  moreover from this have "footprint st1 = footprint st' \<union> block KALLOC_1K_CHUNK_SIZE c" by (auto simp: footprint_def pool_pages_def)
  ultimately show ?thesis using x(2,3,6) by blast
next
  case False
  then have t: "kalloc1k_take st = (Some c, st')" using a by (simp add: kalloc1k_def)
  have "kalloc_inv True st" using inv unfolding kalloc_inv_def by blast
  from kalloc1k_take_inv [OF this t] kalloc_invD(6) [OF inv] have r: "kalloc_inv False st' \<and> block KALLOC_1K_CHUNK_SIZE c \<subseteq> avail st \<and>
    avail st' = avail st - block KALLOC_1K_CHUNK_SIZE c \<and> held1k st' c \<and> cells st' = cells st \<and> (\<forall>a. held1k st a \<longrightarrow> held1k st' a)" by blast
  then have "footprint st = footprint st' \<union> block KALLOC_1K_CHUNK_SIZE c" by (auto simp: footprint_def pool_pages_def)
  with r show ?thesis by blast
qed

lemma kalloc1k_None:
  assumes "kalloc_inv False st" "kalloc1k st = (None, st')"
  shows "st' = st"
proof (cases "free_list1k st = []")
  case True
  obtain r st1 where s: "kalloc1k_split_page st = (r, st1)" by fastforce
  show ?thesis
  proof (cases "r = 0")
    case r: True
    with s have "kalloc1k_split_page st = (0, st1)" by simp
    then obtain "free_list1k st1 \<noteq> []" by (rule kalloc1k_split_inv [OF assms(1) True])
    then show ?thesis using assms(2) True s r by (cases "free_list1k st1") (auto simp: kalloc1k_def kalloc1k_take_def Let_def)
  next
    case False
    with assms(2) True s kalloc1k_split_fails [OF s] show ?thesis by (simp add: kalloc1k_def)
  qed
next
  case False
  then show ?thesis using assms(2) by (auto simp: kalloc1k_def kalloc1k_take_def Let_def split: list.splits)
qed

section \<open>Held pages\<close>

lemma held_pageI:
  assumes "held_page st q" "set (free_list_page st') \<subseteq> insert b (set (free_list_page st))" "q \<noteq> b"
    "set (cells st') = set (cells st)" "meta_at st' q = None"
  shows "held_page st' q"
  using assms by (auto simp: held_page_def)

lemma kalloc_page_held: "kalloc_inv full st \<Longrightarrow> kalloc_page st = (Some p, st') \<Longrightarrow> held_page st q \<Longrightarrow> held_page st' q \<and> q \<noteq> p"
  using kalloc_page_inv [of full st p st'] by (auto simp: held_page_def)

lemma kfree_page_held: "held_page st q \<Longrightarrow> q \<noteq> p \<Longrightarrow> held_page (kfree_page p st) q"
  by (auto simp: held_page_def kfree_page_def)

lemma kfree1k_held_page:
  assumes inv: "kalloc_inv False st" and c: "held1k st c" and q: "held_page st q"
  shows "held_page (kfree1k c st) q"
proof -
  obtain b m i where x: "meta_at st b = Some m" "i < 4" "\<not> bit (mt_free_mask m) i" "c = b + 1024 * i"
    "PAGE_SIZE dvd b" "kalloc1k_page_base c = b" "kalloc1k_chunk_index c = i" "meta_ok st b m"
    by (rule held1k_decomp [OF inv c])
  have qb: "q \<noteq> b" using q x(1) by (auto simp: held_page_def)
  define f where "f = (\<lambda>x :: split_page_meta. x\<lparr>mt_free_mask := mt_free_mask m OR kalloc1k_chunk_mask i, mt_free_count := mt_free_count m + 1\<rparr>)"
  note u = buckets_upd_meta [OF kalloc_invD(1) [OF inv] x(1), of f]
  let ?s1 = "(upd_meta m f st)\<lparr>free_list1k := c # free_list1k st\<rparr>"
  let ?s2 = "kalloc1k_unlink_page_chunks b ?s1"
  have fr: "split_page_meta_free m = split_page_meta_free (f m)" by (rule ext) (simp add: split_page_meta_free_def f_def Let_def)
  have s2: "buckets_ok ?s2" "meta_at ?s2 b = Some (f m)" "cells ?s2 = cells st"
    using u by (simp_all add: kalloc1k_unlink_page_chunks_def f_def)
  note v = buckets_free [OF s2(1,2)]
  have q2: "meta_at ?s2 q = None" using u(3) [of q] q qb by (simp add: kalloc1k_unlink_page_chunks_def f_def held_page_def)
  have h1: "held_page ?s1 q" by (rule held_pageI [OF q _ qb]) (use u q qb in \<open>auto simp: f_def held_page_def\<close>)
  have h2: "held_page (kfree_page b (split_page_meta_free m ?s2)) q"
  proof (rule kfree_page_held [OF _ qb], rule held_pageI [OF q _ qb])
    show "set (free_list_page (split_page_meta_free m ?s2)) \<subseteq> insert b (set (free_list_page st))"
      using v(4) by (auto simp: fr kalloc1k_unlink_page_chunks_def)
    show "set (cells (split_page_meta_free m ?s2)) = set (cells st)" using v(2) s2(3) by (simp add: fr)
    show "meta_at (split_page_meta_free m ?s2) q = None" using v(3) [of q] qb q2 by (simp add: fr)
  qed
  have "\<not> (mt_free_mask m AND kalloc1k_chunk_mask i \<noteq> 0)" using x(3) mask_test by blast
  then have "kfree1k c st = ?s1 \<or> kfree1k c st = kfree_page b (split_page_meta_free m ?s2)"
    by (auto simp: kfree1k_def x(1,6,7) Let_def f_def kfree1k_link_only_def)
  with h1 h2 show ?thesis by metis
qed

lemma kalloc1k_take_held_page:
  assumes inv: "kalloc_inv full st" and t: "kalloc1k_take st = (Some c, st')" and q: "held_page st q"
  shows "held_page st' q"
proof -
  obtain cs where l: "free_list1k st = c # cs" using t by (auto simp: kalloc1k_take_def Let_def split: list.splits)
  obtain b m i where x: "meta_at st b = Some m" "i < 4" "c = b + 1024 * i" "PAGE_SIZE dvd b"
    by (rule free_chunk_in_page [OF inv, of c]) (simp_all add: l)
  have cd: "kalloc1k_page_base c = b" using chunk_decomp [OF x(4,2)] x(3) by auto
  have qb: "q \<noteq> b" using q x(1) by (auto simp: held_page_def)
  define f where "f = (\<lambda>x :: split_page_meta. x\<lparr>mt_free_mask := mt_free_mask x AND NOT (kalloc1k_chunk_mask (kalloc1k_chunk_index c)),
    mt_free_count := (if mt_free_count x > 0 then mt_free_count x - 1 else mt_free_count x)\<rparr>)"
  have "st' = (upd_meta m f st)\<lparr>free_list1k := cs\<rparr> \<or> st' = st\<lparr>free_list1k := cs\<rparr>"
    using t by (auto simp: kalloc1k_take_def l Let_def cd x(1) f_def upd_meta_def)
  moreover have "held_page ((upd_meta m f st)\<lparr>free_list1k := cs\<rparr>) q"
    by (rule held_pageI [OF q _ qb])
      (use buckets_upd_meta [OF kalloc_invD(1) [OF inv] x(1), of f] q qb in \<open>auto simp: f_def held_page_def\<close>)
  ultimately show ?thesis using q by (auto simp: held_page_def)
qed

lemma split_page_meta_alloc_held:
  assumes inv: "kalloc_inv full st" and a: "split_page_meta_alloc p st = (Some m, st')" and p: "held_page st p"
    and q: "held_page st q" "q \<noteq> p"
  shows "held_page st' q" and "buckets_ok st'" and "meta_at st' p = Some m"
proof -
  obtain r st1 where g: "(if meta_free st = [] then split_page_meta_grow st else (0, st)) = (r, st1)" by fastforce
  have r: "r = 0" and m: "m = \<lparr>mt_cell = hd (meta_free st1), mt_page_base = p, mt_free_mask = 0, mt_free_count = 0\<rparr>"
    and st': "st' = st1\<lparr>meta_free := tl (meta_free st1),
      meta_buckets := (meta_buckets st1)[split_page_meta_hash p := m # meta_buckets st1 ! split_page_meta_hash p]\<rparr>"
    using a by (auto simp: split_page_meta_alloc_def g Let_def split: if_splits)
  have s1: "kalloc_inv full st1 \<and> held_page st1 q \<and> held_page st1 p \<and> meta_free st1 \<noteq> []"
  proof (cases "meta_free st = []")
    case True
    with g r have g': "split_page_meta_grow st = (0, st1)" by simp
    show ?thesis using grow_inv [OF inv g' q(1)] grow_inv [OF inv g' p] by blast
  next
    case False
    with g inv p q show ?thesis by simp
  qed
  have hp: "meta_at st1 p = None" using s1 by (simp add: held_page_def)
  have mf: "meta_free st1 = hd (meta_free st1) # tl (meta_free st1)" using s1 by simp
  have b: "buckets_ok st'" "set (cells st') = set (cells st1)" "meta_at st' x = (if x = p then Some m else meta_at st1 x)" for x
    unfolding st' by (rule buckets_add [OF _ hp mf]; use s1 m in \<open>simp add: kalloc_inv_def\<close>)+
  show "held_page st' q"
    by (rule held_pageI [of st1 q _ p]) (use s1 q(2) b in \<open>auto simp: held_page_def st'\<close>)
  show "buckets_ok st'" "meta_at st' p = Some m" using b by auto
qed

lemma kalloc1k_held_page:
  assumes inv: "kalloc_inv False st" and a: "kalloc1k st = (Some c, st')" and q: "held_page st q"
  shows "held_page st' q"
proof (cases "free_list1k st = []")
  case True
  obtain st1 where s: "kalloc1k_split_page st = (0, st1)" and t: "kalloc1k_take st1 = (Some c, st')"
    using a True by (cases "kalloc1k_split_page st") (auto simp: kalloc1k_def split: if_splits)
  have i1: "kalloc_inv True st1" by (rule kalloc1k_split_inv [OF inv True s])
  obtain p st2 where p: "kalloc_page st = (Some p, st2)"
    using s by (cases "kalloc_page st"; cases "fst (kalloc_page st)") (auto simp: kalloc1k_split_page_def)
  obtain m st3 where m: "split_page_meta_alloc p st2 = (Some m, st3)"
    using s p by (cases "split_page_meta_alloc p st2"; cases "fst (split_page_meta_alloc p st2)") (auto simp: kalloc1k_split_page_def)
  have k: "kalloc_inv False st2" "held_page st2 p" "held_page st2 q" "q \<noteq> p"
    using kalloc_page_inv [OF inv p] kalloc_page_held [OF inv p q] by auto
  note h = split_page_meta_alloc_held [OF k(1) m k(2) k(3,4)]
  define f where "f = (\<lambda>m :: split_page_meta. m\<lparr>mt_free_mask := kalloc1k_full_mask, mt_free_count := of_nat KALLOC_1K_CHUNKS_PER_PAGE\<rparr>)"
  have st1: "st1 = (upd_meta m f st3)\<lparr>free_list1k := rev (map (\<lambda>i. p + i * KALLOC_1K_CHUNK_SIZE) [0..<KALLOC_1K_CHUNKS_PER_PAGE]) @ free_list1k st3\<rparr>"
    using s p m by (simp add: kalloc1k_split_page_def Let_def fold_link_only f_def del: chunks_per_page)
  have "held_page st1 q" unfolding st1
    by (rule held_pageI [OF h(1) _ k(4)]) (use buckets_upd_meta [OF h(2,3), of f] k(4) h(1) in \<open>auto simp: f_def held_page_def\<close>)
  then show ?thesis by (rule kalloc1k_take_held_page [OF i1 t])
next
  case False
  then have "kalloc1k_take st = (Some c, st')" using a by (simp add: kalloc1k_def)
  then show ?thesis by (rule kalloc1k_take_held_page [OF inv _ q])
qed

section \<open>The allocator interface\<close>

text \<open>What a client of an allocator of \<open>sz\<close>-byte blocks relies on. \<open>held\<close> are the blocks it may release.\<close>

locale region_alloc =
  fixes inv :: "'s \<Rightarrow> bool" and free_set :: "'s \<Rightarrow> nat set" and held :: "'s \<Rightarrow> nat \<Rightarrow> bool" and sz :: nat
    and alloc :: "'s \<Rightarrow> nat option \<times> 's" and release :: "nat \<Rightarrow> 's \<Rightarrow> 's"
  assumes alloc_Some: "\<lbrakk>inv st; alloc st = (Some a, st')\<rbrakk> \<Longrightarrow>
      inv st' \<and> block sz a \<subseteq> free_set st \<and> free_set st' \<subseteq> free_set st - block sz a \<and> held st' a \<and> (\<forall>x. held st x \<longrightarrow> held st' x)"
    and alloc_None: "\<lbrakk>inv st; alloc st = (None, st')\<rbrakk> \<Longrightarrow> st' = st"
    and release: "\<lbrakk>inv st; held st a\<rbrakk> \<Longrightarrow>
      inv (release a st) \<and> free_set (release a st) = free_set st \<union> block sz a \<and> (\<forall>x. x \<noteq> a \<longrightarrow> held st x \<longrightarrow> held (release a st) x)"
    and held_busy: "\<lbrakk>inv st; held st a\<rbrakk> \<Longrightarrow> block sz a \<inter> free_set st = {}"
    and sz_pos: "0 < sz"
begin

text \<open>A client's live blocks: it may release each, and no two overlap.\<close>

definition live :: "'s \<Rightarrow> nat set \<Rightarrow> bool" where
  "live st L \<longleftrightarrow> inv st \<and> (\<forall>a \<in> L. held st a) \<and> (\<forall>a \<in> L. \<forall>b \<in> L. a \<noteq> b \<longrightarrow> block sz a \<inter> block sz b = {})"

lemma live_empty: "inv st \<Longrightarrow> live st {}"
  by (simp add: live_def)

lemma live_alloc:
  assumes "live st L" "alloc st = (Some a, st')"
  shows "live st' (insert a L)" and "a \<notin> L"
proof -
  have s: "inv st'" "block sz a \<subseteq> free_set st" "held st' a" "\<And>x. held st x \<Longrightarrow> held st' x"
    using alloc_Some [of st a st'] assms by (auto simp: live_def)
  have d: "block sz a \<inter> block sz x = {}" if "x \<in> L" for x
    using assms held_busy [of st x] s(2) that unfolding live_def by blast
  then have d': "block sz x \<inter> block sz a = {}" if "x \<in> L" for x using that by blast
  have "block sz a \<noteq> {}" using sz_pos by (simp add: block_def)
  with d show "a \<notin> L" by blast
  show "live st' (insert a L)" using assms(1) s d d' unfolding live_def by auto
qed

lemma live_release:
  assumes "live st L" "a \<in> L"
  shows "live (release a st) (L - {a})"
proof -
  have h: "inv st" "held st a" using assms by (auto simp: live_def)
  have "inv (release a st)" "\<And>x. x \<noteq> a \<Longrightarrow> held st x \<Longrightarrow> held (release a st) x" using release [OF h] by auto
  with assms show ?thesis unfolding live_def by auto
qed

lemma alloc_release:
  assumes "inv st" "alloc st = (Some a, st')"
  shows "free_set (release a st') \<subseteq> free_set st" and "block sz a \<subseteq> free_set (release a st')"
  using alloc_Some [OF assms] release [of st' a] by blast+

end

lemma held_page_busy:
  assumes inv: "kalloc_inv full st" and h: "held_page st p"
  shows "block PAGE_SIZE p \<inter> avail st = {}"
proof -
  have p: "PAGE_SIZE dvd p" "p \<notin> set (free_list_page st)" "meta_at st p = None" using h by (auto simp: held_page_def)
  have "block PAGE_SIZE p \<inter> block PAGE_SIZE q = {}" if "q \<in> set (free_list_page st)" for q
    using page_blocks_disjoint [OF p(1) kalloc_invD(3) [OF inv that]] that p(2) by blast
  moreover have "block PAGE_SIZE p \<inter> block KALLOC_1K_CHUNK_SIZE c = {}" if "c \<in> set (free_list1k st)" for c
    by (rule page_chunk_disjoint [OF inv p(1,3) that])
  ultimately show ?thesis by (auto simp: avail_def)
qed

lemma chunks_disjoint:
  assumes "1024 dvd a" "1024 dvd b" "a \<noteq> b"
  shows "block KALLOC_1K_CHUNK_SIZE a \<inter> block KALLOC_1K_CHUNK_SIZE b = {}"
  using assms by (auto simp: block_def KALLOC_1K_CHUNK_SIZE_def dvd_def)

lemma chunk_aligned: "PAGE_SIZE dvd b \<Longrightarrow> 1024 dvd b + 1024 * i"
  using dvd_trans [of 1024 PAGE_SIZE b] by (simp add: PAGE_SIZE_def)

lemma held1k_busy:
  assumes inv: "kalloc_inv full st" and h: "held1k st c"
  shows "block KALLOC_1K_CHUNK_SIZE c \<inter> avail st = {}"
proof -
  obtain b m i where x: "meta_at st b = Some m" "i < 4" "\<not> bit (mt_free_mask m) i" "c = b + 1024 * i" "PAGE_SIZE dvd b" "meta_ok st b m"
    by (rule held1k_decomp [OF inv h])
  have "block KALLOC_1K_CHUNK_SIZE c \<inter> block PAGE_SIZE q = {}" if "q \<in> set (free_list_page st)" for q
  proof -
    have "q \<noteq> b" using that x(6) by (auto simp: meta_ok_def)
    then show ?thesis
      using page_blocks_disjoint [OF kalloc_invD(3) [OF inv that] x(5)] chunk_sub_page [OF x(2), of b] x(4) by blast
  qed
  moreover have "block KALLOC_1K_CHUNK_SIZE c \<inter> block KALLOC_1K_CHUNK_SIZE e = {}" if e: "e \<in> set (free_list1k st)" for e
  proof -
    obtain b' m' j where y: "meta_at st b' = Some m'" "j < 4" "bit (mt_free_mask m') j" "e = b' + 1024 * j" "PAGE_SIZE dvd b'"
      by (rule free_chunk_in_page [OF inv e])
    have "c \<noteq> e" using chunk_eqD [OF x(5,2) y(5,2)] x(1,3,4) y(1,3,4) by auto
    with chunk_aligned [OF x(5)] chunk_aligned [OF y(5)] x(4) y(4) show ?thesis by (intro chunks_disjoint) auto
  qed
  ultimately show ?thesis by (auto simp: avail_def)
qed

interpretation pages: region_alloc "kalloc_inv False" avail held_page PAGE_SIZE kalloc_page kfree_page
proof
  show "st' = st" if "kalloc_page st = (None, st')" for st st' using kalloc_page_None [OF that] by simp
  fix st assume inv: "kalloc_inv False st"
  show "kalloc_inv False st' \<and> block PAGE_SIZE a \<subseteq> avail st \<and> avail st' \<subseteq> avail st - block PAGE_SIZE a \<and> held_page st' a \<and>
    (\<forall>x. held_page st x \<longrightarrow> held_page st' x)" if "kalloc_page st = (Some a, st')" for a st'
    using kalloc_page_inv [OF inv that] kalloc_page_held [OF inv that] by auto
  fix a assume h: "held_page st a"
  show "kalloc_inv False (kfree_page a st) \<and> avail (kfree_page a st) = avail st \<union> block PAGE_SIZE a \<and>
    (\<forall>x. x \<noteq> a \<longrightarrow> held_page st x \<longrightarrow> held_page (kfree_page a st) x)"
    using kfree_page_inv [OF inv h] kfree_page_held by blast
  show "block PAGE_SIZE a \<inter> avail st = {}" by (rule held_page_busy [OF inv h])
qed (simp add: PAGE_SIZE_def)

interpretation chunks: region_alloc "kalloc_inv False" avail held1k KALLOC_1K_CHUNK_SIZE kalloc1k kfree1k
proof
  show "0 < KALLOC_1K_CHUNK_SIZE" by (simp add: KALLOC_1K_CHUNK_SIZE_def)
  fix st assume inv: "kalloc_inv False st"
  show "st' = st" if "kalloc1k st = (None, st')" for st' by (rule kalloc1k_None [OF inv that])
  show "kalloc_inv False st' \<and> block KALLOC_1K_CHUNK_SIZE a \<subseteq> avail st \<and> avail st' \<subseteq> avail st - block KALLOC_1K_CHUNK_SIZE a \<and> held1k st' a \<and>
    (\<forall>x. held1k st x \<longrightarrow> held1k st' x)" if "kalloc1k st = (Some a, st')" for a st'
    using kalloc1k_inv [OF inv that] by auto
  fix a assume h: "held1k st a"
  show "kalloc_inv False (kfree1k a st) \<and> avail (kfree1k a st) = avail st \<union> block KALLOC_1K_CHUNK_SIZE a \<and>
    (\<forall>x. x \<noteq> a \<longrightarrow> held1k st x \<longrightarrow> held1k (kfree1k a st) x)"
    using kfree1k_inv [OF inv h] by auto
  show "block KALLOC_1K_CHUNK_SIZE a \<inter> avail st = {}" by (rule held1k_busy [OF inv h])
qed

section \<open>Runs of the allocator\<close>

text \<open>A client of both levels, with the pages \<open>P\<close> and chunks \<open>C\<close> it has not yet given back.\<close>

inductive kalloc_step :: "kalloc_state \<times> nat set \<times> nat set \<Rightarrow> kalloc_state \<times> nat set \<times> nat set \<Rightarrow> bool" where
  step_page: "kalloc_page st = (Some p, st') \<Longrightarrow> kalloc_step (st, P, C) (st', insert p P, C)"
| step_no_page: "kalloc_page st = (None, st') \<Longrightarrow> kalloc_step (st, P, C) (st', P, C)"
| step_free_page: "p \<in> P \<Longrightarrow> kalloc_step (st, P, C) (kfree_page p st, P - {p}, C)"
| step_chunk: "kalloc1k st = (Some c, st') \<Longrightarrow> kalloc_step (st, P, C) (st', P, insert c C)"
| step_no_chunk: "kalloc1k st = (None, st') \<Longrightarrow> kalloc_step (st, P, C) (st', P, C)"
| step_free_chunk: "c \<in> C \<Longrightarrow> kalloc_step (st, P, C) (kfree1k c st, P, C - {c})"

abbreviation kalloc_steps where "kalloc_steps \<equiv> kalloc_step\<^sup>*\<^sup>*"

definition lent :: "nat set \<Rightarrow> nat set \<Rightarrow> nat set" where
  "lent P C = (\<Union>p \<in> P. block PAGE_SIZE p) \<union> (\<Union>c \<in> C. block KALLOC_1K_CHUNK_SIZE c)"

definition kalloc_live :: "nat set \<Rightarrow> kalloc_state \<times> nat set \<times> nat set \<Rightarrow> bool" where
  "kalloc_live mem s \<longleftrightarrow> (case s of (st, P, C) \<Rightarrow> pages.live st P \<and> chunks.live st C \<and> footprint st \<union> lent P C = mem)"

lemma held_meta_cong: "(\<And>b. meta_at st' b = meta_at st b) \<Longrightarrow> held1k st' c = held1k st c"
  by (simp add: held1k_def)

lemma kalloc_step_live:
  assumes "kalloc_step s s'" "kalloc_live mem s"
  shows "kalloc_live mem s'"
  using assms
proof cases
  case (step_page st p st' P C)
  then have l: "pages.live st P" "chunks.live st C" "footprint st \<union> lent P C = mem" and inv: "kalloc_inv False st"
    using assms(2) by (auto simp: kalloc_live_def pages.live_def)
  note k = kalloc_page_inv [OF inv step_page(3)]
  have "chunks.live st' C" using l(2) k held_meta_cong [of st' st] by (auto simp: chunks.live_def)
  moreover have "footprint st' \<union> lent (insert p P) C = mem"
    using l(3) k by (auto simp: footprint_def pool_pages_def lent_def)
  ultimately show ?thesis using pages.live_alloc(1) [OF l(1) step_page(3)] by (simp add: step_page kalloc_live_def)
next
  case (step_no_page st st' P C)
  with assms(2) kalloc_page_None [OF step_no_page(3)] show ?thesis by simp
next
  case (step_free_page p P st C)
  then have l: "pages.live st P" "chunks.live st C" "footprint st \<union> lent P C = mem" and inv: "kalloc_inv False st" and h: "held_page st p"
    using assms(2) by (auto simp: kalloc_live_def pages.live_def)
  note k = kfree_page_inv [OF inv h]
  have "chunks.live (kfree_page p st) C" using l(2) k held_meta_cong [of "kfree_page p st" st] by (auto simp: chunks.live_def)
  moreover have "footprint (kfree_page p st) \<union> lent (P - {p}) C = mem"
    using l(3) k step_free_page(3) by (auto simp: footprint_def pool_pages_def lent_def)
  ultimately show ?thesis using pages.live_release [OF l(1) step_free_page(3)] by (simp add: step_free_page kalloc_live_def)
next
  case (step_chunk st c st' P C)
  then have l: "pages.live st P" "chunks.live st C" "footprint st \<union> lent P C = mem" and inv: "kalloc_inv False st"
    using assms(2) by (auto simp: kalloc_live_def pages.live_def)
  note k = kalloc1k_inv [OF inv step_chunk(3)]
  have "pages.live st' P" using l(1) k kalloc1k_held_page [OF inv step_chunk(3)] by (auto simp: pages.live_def)
  moreover have "footprint st' \<union> lent P (insert c C) = mem" using l(3) k by (auto simp: lent_def)
  ultimately show ?thesis using chunks.live_alloc(1) [OF l(2) step_chunk(3)] by (simp add: step_chunk kalloc_live_def)
next
  case (step_no_chunk st st' P C)
  then have "kalloc_inv False st" using assms(2) by (auto simp: kalloc_live_def pages.live_def)
  with assms(2) chunks.alloc_None [OF _ step_no_chunk(3)] step_no_chunk show ?thesis by simp
next
  case (step_free_chunk c C st P)
  then have l: "pages.live st P" "chunks.live st C" "footprint st \<union> lent P C = mem" and inv: "kalloc_inv False st" and h: "held1k st c"
    using assms(2) by (auto simp: kalloc_live_def pages.live_def chunks.live_def)
  note k = kfree1k_inv [OF inv h]
  have "pages.live (kfree1k c st) P" using l(1) k kfree1k_held_page [OF inv h] by (auto simp: pages.live_def)
  moreover have "footprint (kfree1k c st) \<union> lent P (C - {c}) = mem"
    using l(3) k step_free_chunk(3) by (auto simp: footprint_def pool_pages_def lent_def)
  ultimately show ?thesis using chunks.live_release [OF l(2) step_free_chunk(3)] by (simp add: step_free_chunk kalloc_live_def)
qed

lemma kalloc_steps_live: "kalloc_steps s s' \<Longrightarrow> kalloc_live mem s \<Longrightarrow> kalloc_live mem s'"
  by (induction rule: rtranclp_induct) (auto intro: kalloc_step_live)

lemma held_page_chunk_disjoint:
  assumes inv: "kalloc_inv full st" and p: "held_page st p" and c: "held1k st c"
  shows "block PAGE_SIZE p \<inter> block KALLOC_1K_CHUNK_SIZE c = {}"
proof -
  obtain b m i where x: "meta_at st b = Some m" "i < 4" "c = b + 1024 * i" "PAGE_SIZE dvd b"
    by (rule held1k_decomp [OF inv c])
  have "p \<noteq> b" "PAGE_SIZE dvd p" using p x(1) by (auto simp: held_page_def)
  with page_blocks_disjoint [OF _ x(4), of p] chunk_sub_page [OF x(2), of b] x(3) show ?thesis by blast
qed

section \<open>Adding memory\<close>

lemma unat_ALIGN_DOWN: "unat (ALIGN_DOWN x (of_nat PAGE_SIZE)) = unat x - unat x mod PAGE_SIZE"
proof -
  have m: "(of_nat PAGE_SIZE :: u64) - 1 = mask 12" by (simp add: PAGE_SIZE_def mask_eq_exp_minus_1)
  have "x - take_bit 12 x = x AND NOT (take_bit 12 x)"
    by (rule disjunctive_diff_eq_and_not) (simp add: bit_eq_iff bit_simps)
  also have "\<dots> = x AND NOT (mask 12)"
    by (rule bit_eqI) (auto simp: bit_simps simp del: mask_numeral)
  finally have e: "ALIGN_DOWN x (of_nat PAGE_SIZE) = x - x mod 4096"
    unfolding ALIGN_DOWN_def m by (simp add: take_bit_eq_mod)
  have "x mod 4096 \<le> x" by (simp add: word_le_nat_alt unat_mod)
  then show ?thesis unfolding e by (simp add: unat_sub unat_mod PAGE_SIZE_def)
qed

definition page_up :: "u64 \<Rightarrow> nat" where
  "page_up x = (unat x + (PAGE_SIZE - 1)) div PAGE_SIZE * PAGE_SIZE"

definition page_down :: "u64 \<Rightarrow> nat" where
  "page_down x = unat x div PAGE_SIZE * PAGE_SIZE"

lemma ALIGN_DOWN_page_down: "unat (ALIGN_DOWN x (of_nat PAGE_SIZE)) = page_down x"
  by (simp add: unat_ALIGN_DOWN page_down_def minus_mod_eq_div_mult)

lemma ALIGN_UP_page_up:
  assumes "unat x + PAGE_SIZE \<le> 2 ^ 64"
  shows "unat (ALIGN_UP x (of_nat PAGE_SIZE)) = page_up x"
proof -
  have "ALIGN_UP x (of_nat PAGE_SIZE) = ALIGN_DOWN (x + of_nat (PAGE_SIZE - 1)) (of_nat PAGE_SIZE)"
    by (simp add: ALIGN_UP_def ALIGN_DOWN_def PAGE_SIZE_def add.commute)
  moreover have "unat (x + of_nat (PAGE_SIZE - 1)) = unat x + (PAGE_SIZE - 1)"
    using assms by (simp add: unat_add_lem [THEN iffD1] PAGE_SIZE_def unat_word_ariths)
  ultimately show ?thesis
    by (simp add: unat_ALIGN_DOWN page_up_def minus_mod_eq_div_mult)
qed

fun page_run :: "nat \<Rightarrow> nat \<Rightarrow> nat list" where
  "page_run a 0 = []"
| "page_run a (Suc n) = a # page_run (a + PAGE_SIZE) n"

lemma append_pages_eq: "append_pages a (a + n * PAGE_SIZE) l k = (rev (page_run a n) @ l, k + of_nat n)"
proof (induction n arbitrary: a l k)
  case (Suc n)
  show ?case using Suc.IH [of "a + PAGE_SIZE" "a # l" "k + 1"]
    by (subst append_pages.simps) (simp add: PAGE_SIZE_def algebra_simps)
qed (simp add: append_pages.simps)

lemma page_run_map: "page_run a n = map (\<lambda>i. a + i * PAGE_SIZE) [0..<n]"
  by (induction n arbitrary: a) (simp_all add: map_upt_Suc algebra_simps del: upt_Suc)

lemma set_page_run: "set (page_run a n) = {a + i * PAGE_SIZE | i. i < n}"
  by (auto simp: page_run_map)

lemma page_run_basic: "distinct (page_run a n) \<and> length (page_run a n) = n"
  by (auto simp: page_run_map distinct_map inj_on_def PAGE_SIZE_def)

lemma page_run_blocks: "(\<Union>p \<in> set (page_run a n). block PAGE_SIZE p) = {a..<a + n * PAGE_SIZE}"
proof (induction n arbitrary: a)
  case (Suc n)
  show ?case unfolding page_run.simps list.set UN_insert Suc.IH by (auto simp: block_def)
qed simp

lemma kfree_pages_inv:
  assumes "kalloc_inv full st" "distinct ps" "\<forall>p \<in> set ps. held_page st p"
  shows "kalloc_inv full (fold kfree_page ps st) \<and> avail (fold kfree_page ps st) = avail st \<union> (\<Union>p \<in> set ps. block PAGE_SIZE p)"
  using assms
proof (induction ps arbitrary: st)
  case (Cons p ps)
  have h: "held_page st p" using Cons.prems by simp
  note k = kfree_page_inv [OF Cons.prems(1) h]
  have "\<forall>q \<in> set ps. held_page (kfree_page p st) q" using Cons.prems by (auto intro: kfree_page_held)
  with Cons.IH [of "kfree_page p st"] Cons.prems k show ?case by auto
qed simp

lemma fold_kfree_page:
  "fold kfree_page ps st = st\<lparr>free_list_page := rev ps @ free_list_page st,
     free_mem_size_page := free_mem_size_page st + of_nat (length ps) * of_nat PAGE_SIZE\<rparr>"
  by (induction ps arbitrary: st) (auto simp: kfree_page_def algebra_simps)

lemma ucast_of_nat_u64: "n < 2 ^ 32 \<Longrightarrow> (ucast (of_nat n :: u32) :: u64) = of_nat n"
  by (simp add: unsigned_of_nat take_bit_nat_eq_self)

lemma kalloc_append_eq:
  assumes s: "unat start + PAGE_SIZE \<le> 2 ^ 64" and b: "page_down e - page_up start < PAGE_SIZE * 2 ^ 32"
  defines "n \<equiv> (page_down e - page_up start) div PAGE_SIZE"
  shows "kalloc_append start e st = (of_nat n, fold kfree_page (page_run (page_up start) n) st)"
proof (cases "page_up start < page_down e")
  case True
  have dv: "page_up start + n * PAGE_SIZE = page_down e"
    using True by (simp add: n_def page_up_def page_down_def diff_mult_distrib [symmetric] PAGE_SIZE_def)
  have n: "n < 2 ^ 32" using b by (simp add: n_def PAGE_SIZE_def div_less_iff_less_mult)
  have lt: "ALIGN_UP start (of_nat PAGE_SIZE) < ALIGN_DOWN e (of_nat PAGE_SIZE)"
    using True by (simp add: word_less_nat_alt ALIGN_UP_page_up [OF s] ALIGN_DOWN_page_down)
  show ?thesis
    using lt by (simp add: kalloc_append_def Let_def ALIGN_UP_page_up [OF s] ALIGN_DOWN_page_down dv [symmetric]
      append_pages_eq fold_kfree_page page_run_basic ucast_of_nat_u64 [OF n] not_le [symmetric])
next
  case False
  then have "ALIGN_UP start (of_nat PAGE_SIZE) \<ge> ALIGN_DOWN e (of_nat PAGE_SIZE)"
    by (simp add: word_le_nat_alt ALIGN_UP_page_up [OF s] ALIGN_DOWN_page_down)
  with False show ?thesis by (simp add: kalloc_append_def n_def)
qed

lemma kalloc_reset_inv: "kalloc_inv full kalloc_reset" and kalloc_reset_avail: "avail kalloc_reset = {}"
proof -
  have m: "meta_at kalloc_reset b = None" for b
    by (simp add: split_page_meta_find_def kalloc_reset_def)
  have c: "cells kalloc_reset = []" by (simp add: cells_def kalloc_reset_def)
  have "buckets_ok kalloc_reset" by (simp add: buckets_ok_def c) (simp add: kalloc_reset_def)
  then show "kalloc_inv full kalloc_reset" by (simp add: kalloc_inv_def m c chunk_free_def) (simp add: kalloc_reset_def)
  show "avail kalloc_reset = {}" by (simp add: avail_def kalloc_reset_def)
qed

lemma kalloc_append_inv:
  assumes s: "unat start + PAGE_SIZE \<le> 2 ^ 64" and b: "page_down e - page_up start < PAGE_SIZE * 2 ^ 32"
    and inv: "kalloc_inv False st" and h: "\<forall>p \<in> {page_up start..<page_down e}. PAGE_SIZE dvd p \<longrightarrow> held_page st p"
  shows "kalloc_inv False (snd (kalloc_append start e st)) \<and>
    avail (snd (kalloc_append start e st)) = avail st \<union> {page_up start..<page_down e} \<and>
    unat (fst (kalloc_append start e st)) = (page_down e - page_up start) div PAGE_SIZE"
proof -
  define n where "n = (page_down e - page_up start) div PAGE_SIZE"
  have eq: "kalloc_append start e st = (of_nat n, fold kfree_page (page_run (page_up start) n) st)"
    unfolding n_def by (rule kalloc_append_eq [OF s b])
  have n: "n < 2 ^ 32" using b by (simp add: n_def PAGE_SIZE_def div_less_iff_less_mult)
  have dv: "PAGE_SIZE dvd page_up start" "PAGE_SIZE dvd page_down e" by (simp_all add: page_up_def page_down_def)
  then have sz: "n * PAGE_SIZE = page_down e - page_up start" by (simp add: n_def dvd_diff_nat)
  have "held_page st p" if "p \<in> set (page_run (page_up start) n)" for p
  proof -
    from that obtain i where i: "i < n" "p = page_up start + i * PAGE_SIZE" by (auto simp: set_page_run)
    then have "i * PAGE_SIZE < n * PAGE_SIZE" by (simp add: PAGE_SIZE_def)
    with i sz dv show ?thesis using h by auto
  qed
  note k = kfree_pages_inv [OF inv, of "page_run (page_up start) n"]
  have "{page_up start..<page_up start + n * PAGE_SIZE} = {page_up start..<page_down e}" using sz by auto
  with k \<open>\<And>p. p \<in> set (page_run (page_up start) n) \<Longrightarrow> held_page st p\<close> show ?thesis
    using n by (simp add: eq page_run_basic page_run_blocks n_def [symmetric] unat_of_nat take_bit_nat_eq_self)
qed

lemma held_page_reset: "held_page kalloc_reset p \<longleftrightarrow> PAGE_SIZE dvd p"
  by (simp add: held_page_def cells_def split_page_meta_find_def) (simp add: kalloc_reset_def)

definition ex_kalloc :: kalloc_state where
  "ex_kalloc = snd (kalloc_append 0x10000 0x14000 kalloc_reset)"

definition ex_kalloc1 :: kalloc_state where
  "ex_kalloc1 = snd (kalloc1k ex_kalloc)"

definition ex_kalloc2 :: kalloc_state where
  "ex_kalloc2 = snd (kalloc_page ex_kalloc1)"

section \<open>Properties\<close>

text \<open>C11: whatever sequence of page and 1 KB chunk allocations and releases a client performs, the blocks
  it holds never overlap one another, never overlap memory that is still free, and no memory is lost: the
  free memory, the pages of the metadata pool and the blocks lent out always make up the initial memory.\<close>

theorem kalloc_no_overlap:
  assumes "kalloc_inv False st" and "kalloc_steps (st, {}, {}) (st', P, C)"
  shows "kalloc_inv False st' \<and>
    (\<forall>p \<in> P. \<forall>q \<in> P. p \<noteq> q \<longrightarrow> block PAGE_SIZE p \<inter> block PAGE_SIZE q = {}) \<and>
    (\<forall>c \<in> C. \<forall>d \<in> C. c \<noteq> d \<longrightarrow> block KALLOC_1K_CHUNK_SIZE c \<inter> block KALLOC_1K_CHUNK_SIZE d = {}) \<and>
    (\<forall>p \<in> P. \<forall>c \<in> C. block PAGE_SIZE p \<inter> block KALLOC_1K_CHUNK_SIZE c = {}) \<and>
    lent P C \<inter> avail st' = {} \<and> avail st' \<union> pool_pages st' \<union> lent P C = avail st \<union> pool_pages st"
proof -
  have "kalloc_live (footprint st) (st, {}, {})"
    using assms(1) by (simp add: kalloc_live_def pages.live_empty chunks.live_empty lent_def)
  from kalloc_steps_live [OF assms(2) this] have l: "pages.live st' P" "chunks.live st' C"
    "footprint st' \<union> lent P C = footprint st" by (auto simp: kalloc_live_def)
  then have h: "kalloc_inv False st'" "\<And>p. p \<in> P \<Longrightarrow> held_page st' p" "\<And>c. c \<in> C \<Longrightarrow> held1k st' c"
    by (auto simp: pages.live_def chunks.live_def)
  have "lent P C \<inter> avail st' = {}"
    using held_page_busy [OF h(1) h(2)] held1k_busy [OF h(1) h(3)] unfolding lent_def by blast
  with l h held_page_chunk_disjoint [OF h(1)] show ?thesis
    by (simp add: pages.live_def chunks.live_def footprint_def)
qed

lemma ex_kalloc_inv: "kalloc_inv False ex_kalloc"
  unfolding ex_kalloc_def
  using kalloc_append_inv [of "0x10000" "0x14000" kalloc_reset]
  by (simp add: kalloc_reset_inv held_page_reset page_up_def page_down_def PAGE_SIZE_def)

lemma ex_kalloc_eq: "ex_kalloc = kalloc_reset\<lparr>free_list_page := [0x13000, 0x12000, 0x11000, 0x10000], free_mem_size_page := 0x4000\<rparr>"
proof -
  have "kalloc_append 0x10000 0x14000 kalloc_reset = (4, fold kfree_page (page_run 0x10000 4) kalloc_reset)"
    using kalloc_append_eq [of "0x10000" "0x14000" kalloc_reset] by (simp add: page_up_def page_down_def PAGE_SIZE_def)
  moreover have "page_run a 4 = [a, a + PAGE_SIZE, a + PAGE_SIZE + PAGE_SIZE, a + PAGE_SIZE + PAGE_SIZE + PAGE_SIZE]" for a
    by (simp add: numeral_nat)
  ultimately show ?thesis by (simp add: ex_kalloc_def kfree_page_def PAGE_SIZE_def) (simp add: kalloc_reset_def)
qed

lemmas kalloc_eval = kalloc1k_def kalloc1k_split_page_def kalloc1k_take_def split_page_meta_alloc_def
  split_page_meta_grow_def kalloc_page_def fold_cons fold_link_only Let_def

lemma ex_kalloc_chunk: "fst (kalloc1k ex_kalloc) = Some 0x13c00" "free_list_page ex_kalloc1 = [0x11000, 0x10000]"
  by (simp_all add: ex_kalloc1_def ex_kalloc_eq kalloc_reset_def kalloc_eval PAGE_SIZE_def META_SIZE_def
      KALLOC_1K_CHUNK_SIZE_def upt_rec kfree1k_link_only_def split: option.split)

lemma ex_kalloc_run: "kalloc_steps (ex_kalloc, {}, {}) (ex_kalloc2, {0x11000}, {0x13c00})"
proof -
  have "kalloc1k ex_kalloc = (Some 0x13c00, ex_kalloc1)" using ex_kalloc_chunk(1) by (simp add: ex_kalloc1_def prod_eq_iff)
  note s1 = step_chunk [OF this, of "{}" "{}"]
  have "kalloc_page ex_kalloc1 = (Some 0x11000, ex_kalloc2)" using ex_kalloc_chunk(2) by (simp add: ex_kalloc2_def kalloc_page_def)
  note s2 = step_page [OF this, of "{}" "{0x13c00}"]
  from s1 s2 show ?thesis by (meson rtranclp.rtrancl_into_rtrancl rtranclp.rtrancl_refl)
qed

theorem kalloc_no_overlap_witness:
  "block PAGE_SIZE 0x11000 \<inter> block KALLOC_1K_CHUNK_SIZE 0x13c00 = {} \<and>
   lent {0x11000} {0x13c00} \<inter> avail ex_kalloc2 = {}"
  using kalloc_no_overlap [OF ex_kalloc_inv ex_kalloc_run] by blast

text \<open>Registering a physical range adds exactly the whole pages inside it, counts them, and keeps the
  allocator consistent, for every range that does not touch the top page of the address space, holds
  fewer than \<open>2 ^ 32\<close> pages, and is not already managed.\<close>

theorem kalloc_append_adds_pages:
  assumes "unat start + PAGE_SIZE \<le> 2 ^ 64" and "page_down e - page_up start < PAGE_SIZE * 2 ^ 32"
    and "kalloc_inv False st" and "\<forall>p \<in> {page_up start..<page_down e}. PAGE_SIZE dvd p \<longrightarrow> held_page st p"
  shows "kalloc_inv False (snd (kalloc_append start e st)) \<and>
    avail (snd (kalloc_append start e st)) = avail st \<union> {page_up start..<page_down e} \<and>
    unat (fst (kalloc_append start e st)) = (page_down e - page_up start) div PAGE_SIZE \<and>
    get_free_mem_size (snd (kalloc_append start e st)) =
      of_nat (PAGE_SIZE * length (free_list_page (snd (kalloc_append start e st))))"
  using kalloc_append_inv [OF assms] kalloc_invD(4) [of False "snd (kalloc_append start e st)"]
  by (simp add: get_free_mem_size_def)

theorem kalloc_append_adds_pages_witness:
  "avail (snd (kalloc_append 0x10001 0x14fff kalloc_reset)) = {0x11000..<0x14000} \<and>
   unat (fst (kalloc_append 0x10001 0x14fff kalloc_reset)) = 3"
  using kalloc_append_adds_pages [of "0x10001" "0x14fff" kalloc_reset]
  by (simp add: kalloc_reset_inv kalloc_reset_avail held_page_reset page_up_def page_down_def PAGE_SIZE_def)

end
