(* ===== verification/Cap.thy ===== *)
theory Cap
  imports Proc
begin

text \<open>
  The capability system of \<^verbatim>\<open>kernel/kernel/src/cap.c\<close>: capability nodes, authority checks, the exec-time
  policy and the \<open>SYS_CAP_*\<close> entry points. Capabilities live in the \<open>p_cnode\<close> of a task; the policy table
  and the sid counter are the record \<open>cap_state\<close>.

  A structure in user memory is passed as its address together with its contents.
\<close>

section \<open>Types, rights and the policy table\<close>

definition CAP_INVALID :: u32 where "CAP_INVALID = 0"
definition CAP_AS :: u32 where "CAP_AS = 1"
definition CAP_FRAME :: u32 where "CAP_FRAME = 2"
definition CAP_EP :: u32 where "CAP_EP = 3"
definition CAP_PROCESS :: u32 where "CAP_PROCESS = 4"
definition CAP_ROOT :: u32 where "CAP_ROOT = 5"
definition CAP_IRQ :: u32 where "CAP_IRQ = 6"
definition CAP_DMA :: u32 where "CAP_DMA = 7"

lemmas cap_types = CAP_INVALID_def CAP_AS_def CAP_FRAME_def CAP_EP_def CAP_PROCESS_def CAP_ROOT_def
  CAP_IRQ_def CAP_DMA_def

definition CAP_R :: u32 where "CAP_R = 1"
definition CAP_W :: u32 where "CAP_W = 2"
definition CAP_X :: u32 where "CAP_X = 4"
definition CAP_GRANT :: u32 where "CAP_GRANT = 8"

definition CAP_ALL :: u32 where
  "CAP_ALL = CAP_R OR CAP_W OR CAP_X OR CAP_GRANT"

definition CAP_POLICY_RULE_MAX :: nat where "CAP_POLICY_RULE_MAX = 32"
definition CAP_POLICY_ENTRY_MAX :: nat where "CAP_POLICY_ENTRY_MAX = 16"
definition CAP_POLICY_CMD_MAX :: nat where "CAP_POLICY_CMD_MAX = 256"

record cap_mint_arg =
  ma_a :: u64
  ma_b :: u64

record cap_info =
  ci_cap :: cap_t
  ci_sid :: u64

record cap_policy_add =
  pa_a :: u64
  pa_b :: u64
  pa_type :: u32
  pa_rights :: u32
  pa_cmd :: string

record cap_policy_entry =
  pe_type :: u32
  pe_rights :: u32
  pe_a :: u64
  pe_b :: u64

text \<open>The \<open>num\<close> used entries of a rule are the list \<open>pr_entries\<close>.\<close>

record cap_policy_rule =
  pr_cmd :: string
  pr_entries :: "cap_policy_entry list"

record cap_state =
  cap_sid_seq :: u64
  cap_policy :: "cap_policy_rule list"

definition cap_new_sid :: "cap_state \<Rightarrow> u64 \<times> cap_state" where
  "cap_new_sid cs = (let s = cap_sid_seq cs + 1 in (s, cs\<lparr>cap_sid_seq := s\<rparr>))"

section \<open>Capability nodes\<close>

definition cap_cnode_init :: cnode where
  "cap_cnode_init = replicate CNODE_SLOTS zero_cap"

definition cap_cnode_copy :: "cnode \<Rightarrow> cnode \<Rightarrow> cnode" where
  "cap_cnode_copy dst src = src"

definition cap_cnode_insert :: "cnode \<Rightarrow> cap_t \<Rightarrow> int \<times> cnode" where
  "cap_cnode_insert cn c =
     (if c_type c = CAP_INVALID then (-1, cn)
      else case find_index (\<lambda>x. c_type x = CAP_INVALID) cn of
        None \<Rightarrow> (-1, cn)
      | Some i \<Rightarrow> (int i, cn[i := c]))"

definition cap_cnode_revoke :: "cnode \<Rightarrow> nat \<Rightarrow> cnode" where
  "cap_cnode_revoke cn s = (if s \<ge> CNODE_SLOTS then cn else cn[s := zero_cap])"

definition cap_rights_ok :: "cap_t \<Rightarrow> u32 \<Rightarrow> bool" where
  "cap_rights_ok c rights \<longleftrightarrow> c_type c \<noteq> CAP_INVALID \<and> c_rights c AND rights = rights"

definition cnode_has_root :: "cnode \<Rightarrow> bool" where
  "cnode_has_root cn \<longleftrightarrow> (\<exists>c \<in> set cn. c_type c = CAP_ROOT)"

section \<open>Authority checks\<close>

definition cap_owner :: "'a kernel_scheme \<Rightarrow> nat option \<Rightarrow> nat option" where
  "cap_owner k p = proc_get_proc k p"

definition proc_cap_has :: "'a kernel_scheme \<Rightarrow> nat option \<Rightarrow> u32 \<Rightarrow> u32 \<Rightarrow> bool" where
  "proc_cap_has k p ty rights = (case cap_owner k p of
      None \<Rightarrow> False
    | Some i \<Rightarrow> let cn = p_cnode (the_proc k i) in
        cnode_has_root cn \<or> (\<exists>c \<in> set cn. c_type c = ty \<and> cap_rights_ok c rights))"

definition frame_covers :: "u64 \<Rightarrow> u64 \<Rightarrow> cap_t \<Rightarrow> bool" where
  "frame_covers paddr e c = (case c_obj c of
      ObjFrame cb sz \<Rightarrow>
        let ce = cb + sz;
            ce = (if ce < cb then -1 else ce)
        in paddr \<ge> cb \<and> e \<le> ce
    | _ \<Rightarrow> False)"

definition proc_cap_check_frame :: "'a kernel_scheme \<Rightarrow> nat option \<Rightarrow> u64 \<Rightarrow> u64 \<Rightarrow> u32 \<Rightarrow> bool" where
  "proc_cap_check_frame k p paddr sz rights = (case cap_owner k p of
      None \<Rightarrow> False
    | Some i \<Rightarrow> let cn = p_cnode (the_proc k i) in
        if cnode_has_root cn then True
        else let e = paddr + sz in
          if e < paddr then False
          else \<exists>c \<in> set cn. c_type c = CAP_FRAME \<and> cap_rights_ok c rights \<and> frame_covers paddr e c)"

definition proc_cap_check_irq :: "'a kernel_scheme \<Rightarrow> nat option \<Rightarrow> u32 \<Rightarrow> u32 \<Rightarrow> bool" where
  "proc_cap_check_irq k p irq rights = (case cap_owner k p of
      None \<Rightarrow> False
    | Some i \<Rightarrow> let cn = p_cnode (the_proc k i) in
        cnode_has_root cn \<or> (\<exists>c \<in> set cn. c_type c = CAP_IRQ \<and> c_obj c = ObjIrq irq \<and> cap_rights_ok c rights))"

definition cnode_check_pid :: "'a kernel_scheme \<Rightarrow> cnode \<Rightarrow> u32 \<Rightarrow> int \<Rightarrow> u32 \<Rightarrow> bool" where
  "cnode_check_pid k cn ty target_pid rights = (case proc_get k target_pid of
      None \<Rightarrow> False
    | Some t \<Rightarrow> \<exists>c \<in> set cn. c_type c = ty \<and> cap_rights_ok c rights \<and>
        c_obj c = ObjProc target_pid (p_uuid (the_proc k t)))"

definition proc_cap_check_proc :: "'a kernel_scheme \<Rightarrow> nat option \<Rightarrow> int \<Rightarrow> u32 \<Rightarrow> bool" where
  "proc_cap_check_proc k p target_pid rights = (case cap_owner k p of
      None \<Rightarrow> False
    | Some i \<Rightarrow> let cn = p_cnode (the_proc k i) in
        if cnode_has_root cn then True else cnode_check_pid k cn CAP_PROCESS target_pid rights)"

definition proc_cap_check_ep :: "'a kernel_scheme \<Rightarrow> nat option \<Rightarrow> int \<Rightarrow> u32 \<Rightarrow> bool" where
  "proc_cap_check_ep k p serv_pid rights = (case cap_owner k p of
      None \<Rightarrow> False
    | Some i \<Rightarrow> let cn = p_cnode (the_proc k i) in
        if cnode_has_root cn then True else cnode_check_pid k cn CAP_EP serv_pid rights)"

section \<open>Exec-time policy\<close>

text \<open>A 64-bit argument narrowed to \<open>int32_t\<close>.\<close>

definition to_int32 :: "u64 \<Rightarrow> int" where
  "to_int32 a = sint (ucast a :: u32)"

definition cap_policy_build_cap :: "'a kernel_scheme \<Rightarrow> cap_policy_entry \<Rightarrow> cap_t option" where
  "cap_policy_build_cap k e =
     (let c = zero_cap\<lparr>c_type := pe_type e, c_rights := pe_rights e\<rparr>; ty = pe_type e in
      if ty = CAP_ROOT then Some c
      else if ty = CAP_FRAME then Some (c\<lparr>c_obj := ObjFrame (pe_a e) (pe_b e)\<rparr>)
      else if ty = CAP_IRQ then Some (c\<lparr>c_obj := ObjIrq (ucast (pe_a e))\<rparr>)
      else if ty = CAP_DMA then Some (c\<lparr>c_obj := ObjDma (to_int32 (pe_a e))\<rparr>)
      else if ty = CAP_EP \<or> ty = CAP_PROCESS \<or> ty = CAP_AS then
        (case proc_get k (to_int32 (pe_a e)) of
           None \<Rightarrow> None
         | Some t \<Rightarrow> Some (c\<lparr>c_obj := ObjProc (to_int32 (pe_a e)) (p_uuid (the_proc k t))\<rparr>))
      else None)"

text \<open>\<open>strncmp\<close> of the command against the rule over the rule's length, and the character after the
  match is the end of the string or a blank.\<close>

definition rule_matches :: "string \<Rightarrow> cap_policy_rule \<Rightarrow> bool" where
  "rule_matches cmd r =
     (let len = length (pr_cmd r) in
      len \<noteq> 0 \<and> take len cmd = pr_cmd r \<and> (length cmd = len \<or> cmd ! len = CHR '' ''))"

definition policy_insert_entry :: "'a kernel_scheme \<Rightarrow> cnode \<Rightarrow> cap_policy_entry \<Rightarrow> cnode" where
  "policy_insert_entry k cn e = (case cap_policy_build_cap k e of
      None \<Rightarrow> cn
    | Some c \<Rightarrow> snd (cap_cnode_insert cn c))"

definition policy_apply_rule :: "'a kernel_scheme \<Rightarrow> string \<Rightarrow> cnode \<Rightarrow> cap_policy_rule \<Rightarrow> cnode" where
  "policy_apply_rule k cmd cn r =
     (if rule_matches cmd r then foldl (policy_insert_entry k) cn (pr_entries r) else cn)"

definition cap_policy_on_exec :: "cap_state \<Rightarrow> nat \<Rightarrow> 'a kernel_scheme \<Rightarrow> 'a kernel_scheme" where
  "cap_policy_on_exec cs i k =
     (let cmd = p_cmd (the_proc k i) in
      if cmd = [] then k
      else upd_proc i (\<lambda>p. p\<lparr>p_cnode := foldl (policy_apply_rule k cmd) (p_cnode p) (cap_policy cs)\<rparr>) k)"

definition root_cap :: cap_t where
  "root_cap = zero_cap\<lparr>c_type := CAP_ROOT, c_rights := CAP_ALL\<rparr>"

definition proc_cap_grant_root :: "nat option \<Rightarrow> 'a kernel_scheme \<Rightarrow> 'a kernel_scheme" where
  "proc_cap_grant_root p k = (case p of
      None \<Rightarrow> k
    | Some i \<Rightarrow> upd_proc i (\<lambda>q. q\<lparr>p_cnode := snd (cap_cnode_insert cap_cnode_init root_cap)\<rparr>) k)"

definition proc_cap_on_exec :: "cap_state \<Rightarrow> nat option \<Rightarrow> 'a kernel_scheme \<Rightarrow> 'a kernel_scheme" where
  "proc_cap_on_exec cs p k = (case p of
      None \<Rightarrow> k
    | Some i \<Rightarrow>
        let k = (if p_uid (the_proc k i) \<le> 0 then proc_cap_grant_root (Some i) k
                 else upd_proc i (\<lambda>q. q\<lparr>p_cnode := cap_cnode_init\<rparr>) k)
        in cap_policy_on_exec cs i k)"

definition proc_cap_on_setuid :: "nat option \<Rightarrow> int \<Rightarrow> 'a kernel_scheme \<Rightarrow> 'a kernel_scheme" where
  "proc_cap_on_setuid p new_uid k = (case p of
      None \<Rightarrow> k
    | Some i \<Rightarrow> if new_uid > 0 then upd_proc i (\<lambda>q. q\<lparr>p_cnode := cap_cnode_init\<rparr>) k else k)"

section \<open>System calls\<close>

text \<open>The sizes of the user structures, with their 16-byte alignment.\<close>

definition SIZEOF_CAP_MINT_ARG :: u64 where "SIZEOF_CAP_MINT_ARG = 16"
definition SIZEOF_CAP_INFO :: u64 where "SIZEOF_CAP_INFO = 48"
definition SIZEOF_CAP_POLICY_ADD :: u64 where "SIZEOF_CAP_POLICY_ADD = 288"

definition mint_cap :: "'a kernel_scheme \<Rightarrow> u32 \<Rightarrow> u32 \<Rightarrow> u64 \<Rightarrow> u64 \<Rightarrow> cap_t option" where
  "mint_cap k ty rights a b =
     (let c = zero_cap\<lparr>c_type := ty, c_rights := rights AND CAP_ALL\<rparr> in
      if ty = CAP_FRAME then Some (c\<lparr>c_obj := ObjFrame a b\<rparr>)
      else if ty = CAP_IRQ then Some (c\<lparr>c_obj := ObjIrq (ucast a)\<rparr>)
      else if ty = CAP_EP \<or> ty = CAP_PROCESS \<or> ty = CAP_AS then
        (case proc_get k (to_int32 a) of
           None \<Rightarrow> None
         | Some t \<Rightarrow> Some (c\<lparr>c_obj := ObjProc (to_int32 a) (p_uuid (the_proc k t))\<rparr>))
      else if ty = CAP_DMA then Some (c\<lparr>c_obj := ObjDma (to_int32 a)\<rparr>)
      else None)"

definition insert_into :: "nat \<Rightarrow> cap_t \<Rightarrow> 'a kernel_scheme \<Rightarrow> int \<times> 'a kernel_scheme" where
  "insert_into i c k =
     (let (r, cn) = cap_cnode_insert (p_cnode (the_proc k i)) c in (r, upd_proc i (\<lambda>p. p\<lparr>p_cnode := cn\<rparr>) k))"

definition proc_cap_mint :: "u32 \<Rightarrow> u32 \<Rightarrow> (u64 \<times> cap_mint_arg) option \<Rightarrow> 'a kernel_scheme \<Rightarrow> int \<times> 'a kernel_scheme" where
  "proc_cap_mint ty rights uarg k = (case cap_owner k (get_current_proc k) of
      None \<Rightarrow> (-1, k)
    | Some i \<Rightarrow>
      if \<not> cnode_has_root (p_cnode (the_proc k i)) then (-1, k)
      else if (case uarg of None \<Rightarrow> False | Some (ptr, _) \<Rightarrow> \<not> user_ptr_ok k (Some i) ptr SIZEOF_CAP_MINT_ARG) then (-1, k)
      else
        let a = (case uarg of None \<Rightarrow> 0 | Some (_, arg) \<Rightarrow> ma_a arg);
            b = (case uarg of None \<Rightarrow> 0 | Some (_, arg) \<Rightarrow> ma_b arg) in
        (case mint_cap k ty rights a b of
           None \<Rightarrow> (-1, k)
         | Some c \<Rightarrow> insert_into i c k))"

definition proc_cap_grant :: "int \<Rightarrow> u32 \<Rightarrow> u32 \<Rightarrow> 'a kernel_scheme \<Rightarrow> int \<times> 'a kernel_scheme" where
  "proc_cap_grant target_pid src_slot rights_mask k =
     (case (cap_owner k (get_current_proc k), cap_owner k (proc_get k target_pid)) of
        (Some i, Some t) \<Rightarrow>
          if unat src_slot \<ge> CNODE_SLOTS then (-1, k)
          else
            let cn = p_cnode (the_proc k i);
                src = cn ! unat src_slot in
            if c_type src = CAP_INVALID then (-1, k)
            else if \<not> cnode_has_root cn \<and> c_rights src AND CAP_GRANT = 0 then (-1, k)
            else
              let c = src\<lparr>c_rights := c_rights src AND (if rights_mask = 0 then NOT 0 else rights_mask)\<rparr> in
              if c_rights c = 0 then (-1, k) else insert_into t c k
      | _ \<Rightarrow> (-1, k))"

definition proc_cap_revoke :: "u32 \<Rightarrow> 'a kernel_scheme \<Rightarrow> int \<times> 'a kernel_scheme" where
  "proc_cap_revoke s k = (case cap_owner k (get_current_proc k) of
      None \<Rightarrow> (-1, k)
    | Some i \<Rightarrow>
      if unat s \<ge> CNODE_SLOTS then (-1, k)
      else if c_type (p_cnode (the_proc k i) ! unat s) = CAP_INVALID then (-1, k)
      else (0, upd_proc i (\<lambda>p. p\<lparr>p_cnode := cap_cnode_revoke (p_cnode p) (unat s)\<rparr>) k))"

text \<open>The result structure is \<open>None\<close> when nothing is written to user memory.\<close>

definition proc_cap_get :: "int \<Rightarrow> u64 \<Rightarrow> 'a kernel_scheme \<Rightarrow> int \<times> cap_info option" where
  "proc_cap_get s uinfo k = (case cap_owner k (get_current_proc k) of
      None \<Rightarrow> (-1, None)
    | Some i \<Rightarrow>
      if uinfo = 0 then (-1, None)
      else if \<not> user_ptr_ok k (Some i) uinfo SIZEOF_CAP_INFO then (-1, None)
      else
        let info = \<lparr>ci_cap = zero_cap, ci_sid = p_sid (the_proc k i)\<rparr> in
        if s < 0 then (0, Some info)
        else if s \<ge> int CNODE_SLOTS then (-1, Some info)
        else (0, Some (info\<lparr>ci_cap := p_cnode (the_proc k i) ! nat s\<rparr>)))"

text \<open>The command of the argument is at most \<open>CAP_POLICY_CMD_MAX\<close> characters; the rule keeps one less.\<close>

definition policy_rule_index :: "string \<Rightarrow> cap_policy_rule list \<Rightarrow> nat option" where
  "policy_rule_index cmd rules = find_index (\<lambda>r. take CAP_POLICY_CMD_MAX (pr_cmd r) = take CAP_POLICY_CMD_MAX cmd) rules"

definition policy_install :: "cap_policy_add \<Rightarrow> cap_state \<Rightarrow> int \<times> cap_state" where
  "policy_install u cs =
     (let rules = cap_policy cs;
          idx = policy_rule_index (pa_cmd u) rules in
      if idx = None \<and> length rules \<ge> CAP_POLICY_RULE_MAX then (-1, cs)
      else
        let rules = (if idx = None
               then rules @ [\<lparr>pr_cmd = take (CAP_POLICY_CMD_MAX - 1) (pa_cmd u), pr_entries = []\<rparr>] else rules);
            j = (case idx of None \<Rightarrow> length rules - 1 | Some j \<Rightarrow> j);
            r = rules ! j in
        if length (pr_entries r) \<ge> CAP_POLICY_ENTRY_MAX then (-1, cs\<lparr>cap_policy := rules\<rparr>)
        else
          let e = \<lparr>pe_type = pa_type u, pe_rights = pa_rights u AND CAP_ALL, pe_a = pa_a u, pe_b = pa_b u\<rparr> in
          (0, cs\<lparr>cap_policy := rules[j := r\<lparr>pr_entries := pr_entries r @ [e]\<rparr>]\<rparr>))"

definition proc_cap_policy_add :: "(u64 \<times> cap_policy_add) option \<Rightarrow> 'a kernel_scheme \<Rightarrow> cap_state \<Rightarrow> int \<times> cap_state" where
  "proc_cap_policy_add uarg k cs = (case cap_owner k (get_current_proc k) of
      None \<Rightarrow> (-1, cs)
    | Some i \<Rightarrow>
      if \<not> cnode_has_root (p_cnode (the_proc k i)) then (-1, cs)
      else case uarg of
        None \<Rightarrow> (-1, cs)
      | Some (ptr, u) \<Rightarrow>
        if \<not> user_ptr_ok k (Some i) ptr SIZEOF_CAP_POLICY_ADD then (-1, cs)
        else if pa_cmd u = [] \<or> pa_type u = CAP_INVALID \<or> pa_type u > CAP_DMA then (-1, cs)
        else policy_install u cs)"

end
