(* ===== verification/Cap_Props.thy ===== *)
theory Cap_Props
  imports Cap
begin

text \<open>
  What the capability system guarantees: well-formed capability nodes under every operation, no
  amplification of authority, sound object checks, and the exact outcome of the exec-time policy.
\<close>

section \<open>Capability nodes\<close>

lemma find_index_insert:
  assumes "cap_cnode_insert cn c = (r, cn')"
  shows "cn' = cn \<and> r = -1 \<or> (\<exists>i < length cn. r = int i \<and> c_type c \<noteq> CAP_INVALID \<and> c_type (cn ! i) = CAP_INVALID \<and> cn' = cn[i := c])"
  using assms by (auto simp: cap_cnode_insert_def dest: find_index_SomeD split: if_splits option.splits)

lemma insert_subset: "set (snd (cap_cnode_insert cn c)) \<subseteq> insert c (set cn)"
  using find_index_insert [of cn c] set_update_subset_insert by (cases "cap_cnode_insert cn c") fastforce

lemma insert_length [simp]: "length (snd (cap_cnode_insert cn c)) = length cn"
  using find_index_insert [of cn c] by (cases "cap_cnode_insert cn c") auto

text \<open>A capability is well formed when its descriptor fits its type, its rights are real rights, and an
  empty slot is all zero.\<close>

definition obj_fits :: "u32 \<Rightarrow> cap_obj \<Rightarrow> bool" where
  "obj_fits ty ob = (case ob of
      ObjNone \<Rightarrow> ty = CAP_ROOT \<or> ty = CAP_INVALID
    | ObjFrame _ _ \<Rightarrow> ty = CAP_FRAME
    | ObjProc _ _ \<Rightarrow> ty = CAP_AS \<or> ty = CAP_EP \<or> ty = CAP_PROCESS
    | ObjIrq _ \<Rightarrow> ty = CAP_IRQ
    | ObjDma _ \<Rightarrow> ty = CAP_DMA)"

definition rights_le :: "u32 \<Rightarrow> u32 \<Rightarrow> bool" where
  "rights_le a b \<longleftrightarrow> a AND b = a"

definition cap_ok :: "cap_t \<Rightarrow> bool" where
  "cap_ok c \<longleftrightarrow> obj_fits (c_type c) (c_obj c) \<and> rights_le (c_rights c) CAP_ALL \<and> (c_type c = CAP_INVALID \<longrightarrow> c = zero_cap)"

definition cnode_ok :: "cnode \<Rightarrow> bool" where
  "cnode_ok cn \<longleftrightarrow> length cn = CNODE_SLOTS \<and> (\<forall>c \<in> set cn. cap_ok c)"

definition caps_ok :: "'a kernel_scheme \<Rightarrow> bool" where
  "caps_ok k \<longleftrightarrow> (\<forall>i p. slot k i = Some p \<longrightarrow> cnode_ok (p_cnode p))"

definition rule_ok :: "cap_policy_rule \<Rightarrow> bool" where
  "rule_ok r \<longleftrightarrow> pr_cmd r \<noteq> [] \<and> length (pr_cmd r) < CAP_POLICY_CMD_MAX \<and> length (pr_entries r) \<le> CAP_POLICY_ENTRY_MAX \<and>
     (\<forall>e \<in> set (pr_entries r). CAP_INVALID < pe_type e \<and> pe_type e \<le> CAP_DMA \<and> rights_le (pe_rights e) CAP_ALL)"

definition policy_ok :: "cap_state \<Rightarrow> bool" where
  "policy_ok cs \<longleftrightarrow> length (cap_policy cs) \<le> CAP_POLICY_RULE_MAX \<and> (\<forall>r \<in> set (cap_policy cs). rule_ok r)"

lemma rights_le_refl [simp]: "rights_le a a"
  by (simp add: rights_le_def)

lemma rights_le_trans: "rights_le a b \<Longrightarrow> rights_le b c \<Longrightarrow> rights_le a c"
  unfolding rights_le_def by (metis and.assoc)

lemma rights_le_and [simp]: "rights_le (a AND b) a" "rights_le (a AND b) b"
  by (simp_all add: rights_le_def ac_simps)

lemma zero_cap_ok [simp]: "cap_ok zero_cap"
  by (simp add: cap_ok_def zero_cap_def obj_fits_def rights_le_def CAP_INVALID_def)

lemma cnode_init_ok [simp]: "cnode_ok cap_cnode_init"
  by (auto simp: cnode_ok_def cap_cnode_init_def)

lemma cnode_insert_ok: "cnode_ok cn \<Longrightarrow> cap_ok c \<Longrightarrow> cnode_ok (snd (cap_cnode_insert cn c))"
  using insert_subset [of cn c] by (auto simp: cnode_ok_def)

lemma cnode_revoke_ok: "cnode_ok cn \<Longrightarrow> cnode_ok (cap_cnode_revoke cn s)"
  using set_update_subset_insert [of cn s zero_cap] by (auto simp: cnode_ok_def cap_cnode_revoke_def)

lemma mint_cap_ok: "mint_cap k ty rights a b = Some c \<Longrightarrow> cap_ok c \<and> c_type c = ty \<and> ty \<noteq> CAP_ROOT \<and> ty \<noteq> CAP_INVALID"
  by (auto simp: mint_cap_def Let_def cap_ok_def obj_fits_def zero_cap_def cap_types split: if_splits option.splits)

lemma policy_cap_ok:
  "cap_policy_build_cap k e = Some c \<Longrightarrow> rights_le (pe_rights e) CAP_ALL \<Longrightarrow> cap_ok c \<and> c_type c = pe_type e \<and> c_type c \<noteq> CAP_INVALID"
  by (auto simp: cap_policy_build_cap_def Let_def cap_ok_def obj_fits_def zero_cap_def cap_types split: if_splits option.splits)

lemma root_cap_ok [simp]: "cap_ok root_cap"
  by (simp add: root_cap_def cap_ok_def obj_fits_def zero_cap_def cap_types)

section \<open>Owners\<close>

lemma owner_loop_slot:
  "owner_loop n k p = Some i \<Longrightarrow> (\<And>j. p = Some j \<Longrightarrow> slot k j \<noteq> None) \<Longrightarrow> slot k i \<noteq> None"
proof (induction n k p rule: owner_loop.induct)
  case (3 n k j)
  show ?case
  proof (cases "p_type (the_proc k j) = TASK_TYPE_PROC")
    case True
    with 3 show ?thesis by simp
  next
    case False
    with "3.prems"(1) have e: "owner_loop n k (proc_get k (p_father_pid (the_proc k j))) = Some i" by simp
    show ?thesis by (rule "3.IH" [OF False e]) (use proc_get_SomeD in fastforce)
  qed
qed simp_all

lemma cap_owner_slot:
  assumes "cap_owner k (proc_get k pid) = Some i"
  shows "slot k i = Some (the_proc k i)"
proof -
  have "slot k j \<noteq> None" if "proc_get k pid = Some j" for j using proc_get_SomeD [OF that] by auto
  then have "slot k i \<noteq> None"
    using assms owner_loop_slot [of "length (task_table k) + 2" k "proc_get k pid" i]
    by (auto simp: cap_owner_def proc_get_proc_def)
  then show ?thesis by (auto simp: the_proc_def)
qed

lemma cap_owner_current: "cap_owner k (get_current_proc k) = Some i \<Longrightarrow> slot k i = Some (the_proc k i)"
  by (simp add: get_current_proc_alt cap_owner_slot)

section \<open>Effect of each operation on the capability nodes\<close>

text \<open>Every operation rewrites the node of at most one task.\<close>

lemma caps_ok_upd:
  assumes "caps_ok k" "\<And>p. slot k i = Some p \<Longrightarrow> cnode_ok (f p)"
  shows "caps_ok (upd_proc i (\<lambda>p. p\<lparr>p_cnode := f p\<rparr>) k)"
  using assms by (auto simp: caps_ok_def slot_upd_proc)

lemma caps_ok_upd_const [intro]: "caps_ok k \<Longrightarrow> cnode_ok cn \<Longrightarrow> caps_ok (upd_proc i (p_cnode_update (\<lambda>_. cn)) k)"
  by (auto simp: caps_ok_def slot_upd_proc)

lemma caps_okD: "caps_ok k \<Longrightarrow> slot k i = Some p \<Longrightarrow> cnode_ok (p_cnode p)"
  by (auto simp: caps_ok_def)

lemma insert_into_ok:
  assumes "caps_ok k" "slot k i = Some (the_proc k i)" "cap_ok c"
  shows "caps_ok (snd (insert_into i c k))"
  using caps_ok_upd [OF assms(1), of i "\<lambda>p. snd (cap_cnode_insert (p_cnode (the_proc k i)) c)"]
    cnode_insert_ok [OF caps_okD [OF assms(1,2)] assms(3)]
  by (cases "cap_cnode_insert (p_cnode (the_proc k i)) c") (auto simp: insert_into_def)

lemma mint_cases:
  assumes "proc_cap_mint ty rights uarg k = (r, k')"
  obtains "k' = k" "r = -1"
  | i a b c where "cap_owner k (get_current_proc k) = Some i" "cnode_has_root (p_cnode (the_proc k i))"
    "mint_cap k ty rights a b = Some c" "insert_into i c k = (r, k')"
  using assms by (auto simp: proc_cap_mint_def Let_def split: option.splits if_splits prod.splits)

lemma grant_cases:
  assumes "proc_cap_grant tpid s msk k = (r, k')"
  obtains "k' = k" "r = -1"
  | i t where "cap_owner k (get_current_proc k) = Some i" "cap_owner k (proc_get k tpid) = Some t" "unat s < CNODE_SLOTS"
    "c_type (p_cnode (the_proc k i) ! unat s) \<noteq> CAP_INVALID"
    "cnode_has_root (p_cnode (the_proc k i)) \<or> c_rights (p_cnode (the_proc k i) ! unat s) AND CAP_GRANT \<noteq> 0"
    "insert_into t ((p_cnode (the_proc k i) ! unat s)\<lparr>c_rights := c_rights (p_cnode (the_proc k i) ! unat s) AND (if msk = 0 then NOT 0 else msk)\<rparr>) k = (r, k')"
proof (cases "\<exists>i t. cap_owner k (get_current_proc k) = Some i \<and> cap_owner k (proc_get k tpid) = Some t")
  case True
  then obtain i t where it: "cap_owner k (get_current_proc k) = Some i" "cap_owner k (proc_get k tpid) = Some t" by blast
  let ?src = "p_cnode (the_proc k i) ! unat s"
  let ?c = "?src\<lparr>c_rights := c_rights ?src AND (if msk = 0 then NOT 0 else msk)\<rparr>"
  have e: "proc_cap_grant tpid s msk k = (if unat s \<ge> CNODE_SLOTS then (-1, k) else if c_type ?src = CAP_INVALID then (-1, k)
    else if \<not> cnode_has_root (p_cnode (the_proc k i)) \<and> c_rights ?src AND CAP_GRANT = 0 then (-1, k)
    else if c_rights ?c = 0 then (-1, k) else insert_into t ?c k)"
    by (simp only: proc_cap_grant_def it prod.case option.case Let_def)
  consider "proc_cap_grant tpid s msk k = (-1, k)"
    | "unat s < CNODE_SLOTS" "c_type ?src \<noteq> CAP_INVALID" "cnode_has_root (p_cnode (the_proc k i)) \<or> c_rights ?src AND CAP_GRANT \<noteq> 0"
      "proc_cap_grant tpid s msk k = insert_into t ?c k"
    unfolding e not_le [symmetric] by presburger
  then show thesis
  proof cases
    case 1
    with assms that(1) show thesis by simp
  next
    case 2
    with assms it that(2) show thesis by metis
  qed
next
  case False
  then have "proc_cap_grant tpid s msk k = (-1, k)"
    by (cases "cap_owner k (get_current_proc k)"; cases "cap_owner k (proc_get k tpid)") (auto simp: proc_cap_grant_def)
  with assms that(1) show thesis by simp
qed

lemma revoke_cases:
  assumes "proc_cap_revoke s k = (r, k')"
  obtains "k' = k" "r = -1"
  | i where "cap_owner k (get_current_proc k) = Some i" "unat s < CNODE_SLOTS" "r = 0"
    "k' = upd_proc i (\<lambda>p. p\<lparr>p_cnode := cap_cnode_revoke (p_cnode p) (unat s)\<rparr>) k"
  using assms by (auto simp: proc_cap_revoke_def split: option.splits if_splits)

lemma granted_cap_ok: "cap_ok c \<Longrightarrow> c_type c \<noteq> CAP_INVALID \<Longrightarrow> cap_ok (c\<lparr>c_rights := c_rights c AND m\<rparr>)"
  using rights_le_trans [OF rights_le_and(1)] by (auto simp: cap_ok_def)

lemma proc_cap_mint_ok:
  assumes "caps_ok k"
  shows "caps_ok (snd (proc_cap_mint ty rights uarg k))"
proof -
  obtain r k' where m: "proc_cap_mint ty rights uarg k = (r, k')" by fastforce
  then have "caps_ok k'"
  proof (rule mint_cases)
    fix i a b c
    assume i: "cap_owner k (get_current_proc k) = Some i" and c: "mint_cap k ty rights a b = Some c" "insert_into i c k = (r, k')"
    show "caps_ok k'" using insert_into_ok [OF assms cap_owner_current [OF i]] mint_cap_ok [OF c(1)] c(2) by (metis snd_conv)
  qed (use assms in simp)
  with m show ?thesis by simp
qed

lemma proc_cap_grant_ok:
  assumes "caps_ok k"
  shows "caps_ok (snd (proc_cap_grant tpid s msk k))"
proof (cases "proc_cap_grant tpid s msk k")
  case (Pair r k')
  from Pair show ?thesis
  proof (rule grant_cases)
    fix i t
    let ?src = "p_cnode (the_proc k i) ! unat s"
    assume i: "cap_owner k (get_current_proc k) = Some i" and t: "cap_owner k (proc_get k tpid) = Some t"
      and s: "unat s < CNODE_SLOTS" "c_type ?src \<noteq> CAP_INVALID"
      and ins: "insert_into t (?src\<lparr>c_rights := c_rights ?src AND (if msk = 0 then NOT 0 else msk)\<rparr>) k = (r, k')"
    have "cap_ok ?src" using caps_okD [OF assms cap_owner_current [OF i]] s(1) by (auto simp: cnode_ok_def)
    from insert_into_ok [OF assms cap_owner_slot [OF t] granted_cap_ok [OF this s(2)]] ins
    show ?thesis by (metis Pair snd_conv)
  qed (use assms Pair in simp)
qed

lemma proc_cap_revoke_ok:
  assumes "caps_ok k"
  shows "caps_ok (snd (proc_cap_revoke s k))"
proof -
  obtain r k' where m: "proc_cap_revoke s k = (r, k')" by fastforce
  then have "caps_ok k'"
    by (rule revoke_cases) (use assms in \<open>auto intro!: caps_ok_upd cnode_revoke_ok dest: caps_okD\<close>)
  with m show ?thesis by simp
qed

lemma foldl_keeps: "(\<And>x a. x \<in> set xs \<Longrightarrow> P a \<Longrightarrow> P (f a x)) \<Longrightarrow> P a \<Longrightarrow> P (foldl f a xs)"
  by (induction xs arbitrary: a) auto

lemma policy_insert_ok: "cnode_ok cn \<Longrightarrow> rights_le (pe_rights e) CAP_ALL \<Longrightarrow> cnode_ok (policy_insert_entry k cn e)"
  by (auto simp: policy_insert_entry_def dest: policy_cap_ok intro: cnode_insert_ok split: option.splits)

lemma policy_rules_ok:
  assumes "cnode_ok cn" "\<forall>r \<in> set rs. rule_ok r"
  shows "cnode_ok (foldl (policy_apply_rule k cmd) cn rs)"
  by (rule foldl_keeps [where P = cnode_ok])
    (use assms in \<open>auto simp: policy_apply_rule_def rule_ok_def intro!: foldl_keeps [where P = cnode_ok] policy_insert_ok\<close>)

lemma proc_cap_on_exec_ok:
  assumes "caps_ok k" "policy_ok cs"
  shows "caps_ok (proc_cap_on_exec cs p k)"
proof -
  have "caps_ok (cap_policy_on_exec cs i k')" if "caps_ok k'" for i and k' :: "'a kernel_scheme"
    using that assms(2) by (auto simp: cap_policy_on_exec_def Let_def policy_ok_def intro!: caps_ok_upd policy_rules_ok dest: caps_okD)
  then show ?thesis
    using caps_ok_upd_const [OF assms(1) cnode_init_ok] caps_ok_upd_const [OF assms(1) cnode_insert_ok [OF cnode_init_ok root_cap_ok]] assms(1)
    by (simp add: proc_cap_on_exec_def proc_cap_grant_root_def Let_def split: option.split)
qed

lemma proc_cap_on_setuid_ok: "caps_ok k \<Longrightarrow> caps_ok (proc_cap_on_setuid p u k)"
  by (auto simp: proc_cap_on_setuid_def split: option.splits)

lemma policy_install_ok:
  assumes ok: "policy_ok cs" and u: "pa_cmd u \<noteq> []" "pa_type u \<noteq> CAP_INVALID" "pa_type u \<le> CAP_DMA"
  shows "policy_ok (snd (policy_install u cs))"
proof -
  define new where "new = \<lparr>pr_cmd = take (CAP_POLICY_CMD_MAX - 1) (pa_cmd u), pr_entries = []\<rparr>"
  define e where "e = \<lparr>pe_type = pa_type u, pe_rights = pa_rights u AND CAP_ALL, pe_a = pa_a u, pe_b = pa_b u\<rparr>"
  have new: "rule_ok new" using u(1) by (auto simp: rule_ok_def new_def CAP_POLICY_CMD_MAX_def)
  have add: "rule_ok (r\<lparr>pr_entries := pr_entries r @ [e]\<rparr>)" if "rule_ok r" "length (pr_entries r) < CAP_POLICY_ENTRY_MAX" for r
    using that u(2,3) by (auto simp: rule_ok_def e_def CAP_INVALID_def word_gt_0)
  have put: "policy_ok (cs\<lparr>cap_policy := rs[j := r]\<rparr>)" if "policy_ok (cs\<lparr>cap_policy := rs\<rparr>)" "rule_ok r" for rs j r
    using that set_update_subset_insert [of rs j r] by (auto simp: policy_ok_def)
  show ?thesis
  proof (cases "policy_rule_index (pa_cmd u) (cap_policy cs)")
    case None
    have "policy_ok (cs\<lparr>cap_policy := cap_policy cs @ [new]\<rparr>)" if "length (cap_policy cs) < CAP_POLICY_RULE_MAX"
      using that ok new by (auto simp: policy_ok_def)
    moreover have "policy_ok (cs\<lparr>cap_policy := cap_policy cs @ [new\<lparr>pr_entries := [e]\<rparr>]\<rparr>)"
      if "length (cap_policy cs) < CAP_POLICY_RULE_MAX"
      using that ok add [OF new] by (auto simp: policy_ok_def new_def CAP_POLICY_ENTRY_MAX_def)
    ultimately show ?thesis using ok by (auto simp: policy_install_def Let_def None e_def [symmetric] not_le new_def)
  next
    case (Some j)
    then have "j < length (cap_policy cs)" unfolding policy_rule_index_def by (rule find_index_less)
    then have "rule_ok (cap_policy cs ! j)" using ok by (simp add: policy_ok_def)
    with ok put [of "cap_policy cs" _ j] add show ?thesis
      by (auto simp: policy_install_def Let_def Some e_def [symmetric] not_le)
  qed
qed

lemma proc_cap_policy_add_ok: "policy_ok cs \<Longrightarrow> policy_ok (snd (proc_cap_policy_add uarg k cs))"
  by (auto simp: proc_cap_policy_add_def not_less intro: policy_install_ok split: option.splits)

section \<open>Runs of the capability system\<close>

text \<open>The system calls of any running task, in any interleaving; \<open>cs_switch\<close> is a context switch.\<close>

inductive cap_call :: "kernel \<Rightarrow> kernel \<Rightarrow> bool" where
  cc_mint: "cap_call k (snd (proc_cap_mint ty rights uarg k))"
| cc_grant: "cap_call k (snd (proc_cap_grant tpid s msk k))"
| cc_revoke: "cap_call k (snd (proc_cap_revoke s k))"
| cc_setuid: "cap_call k (proc_cap_on_setuid p u k)"
| cc_switch: "cap_call k (k\<lparr>current_proc := c, core_id := n\<rparr>)"

inductive cap_step :: "kernel \<times> cap_state \<Rightarrow> kernel \<times> cap_state \<Rightarrow> bool" where
  cs_call: "cap_call k k' \<Longrightarrow> cap_step (k, cs) (k', cs)"
| cs_exec: "cap_step (k, cs) (proc_cap_on_exec cs p k, cs)"
| cs_policy: "cap_step (k, cs) (k, snd (proc_cap_policy_add uarg k cs))"

lemma caps_ok_switch [simp]: "caps_ok (k\<lparr>current_proc := c, core_id := n\<rparr>) = caps_ok k"
  by (simp add: caps_ok_def slot_def)

lemma cap_call_ok: "cap_call k k' \<Longrightarrow> caps_ok k \<Longrightarrow> caps_ok k'"
  by (induction rule: cap_call.induct)
    (auto intro: proc_cap_mint_ok proc_cap_grant_ok proc_cap_revoke_ok proc_cap_on_setuid_ok)

lemma cap_step_ok: "cap_step s s' \<Longrightarrow> caps_ok (fst s) \<and> policy_ok (snd s) \<Longrightarrow> caps_ok (fst s') \<and> policy_ok (snd s')"
  by (induction rule: cap_step.induct)
    (auto intro: cap_call_ok proc_cap_on_exec_ok proc_cap_policy_add_ok)

lemma cap_steps_ok: "cap_step\<^sup>*\<^sup>* s s' \<Longrightarrow> caps_ok (fst s) \<and> policy_ok (snd s) \<Longrightarrow> caps_ok (fst s') \<and> policy_ok (snd s')"
  by (induction rule: rtranclp_induct) (auto dest: cap_step_ok)

section \<open>Where authority comes from\<close>

definition caps_of :: "'a kernel_scheme \<Rightarrow> nat \<Rightarrow> cap_t set" where
  "caps_of k i = (case slot k i of None \<Rightarrow> {} | Some p \<Rightarrow> set (p_cnode p))"

definition derived :: "cap_t \<Rightarrow> cap_t \<Rightarrow> bool" where
  "derived c c0 \<longleftrightarrow> c_type c = c_type c0 \<and> c_obj c = c_obj c0 \<and> rights_le (c_rights c) (c_rights c0)"

definition no_root :: "'a kernel_scheme \<Rightarrow> bool" where
  "no_root k \<longleftrightarrow> (\<forall>i. \<forall>c \<in> caps_of k i. c_type c \<noteq> CAP_ROOT)"

text \<open>A capability of task \<open>i\<close> goes back to one it held before, or to a grantable one of another task.\<close>

definition from_cap :: "'a kernel_scheme \<Rightarrow> nat \<Rightarrow> cap_t \<Rightarrow> bool" where
  "from_cap k i c \<longleftrightarrow> c = zero_cap \<or> (\<exists>j. \<exists>c0 \<in> caps_of k j. derived c c0 \<and> (j = i \<or> c_rights c0 AND CAP_GRANT \<noteq> 0))"

lemma derived_refl [simp]: "derived c c"
  by (simp add: derived_def)

lemma derived_trans: "derived a b \<Longrightarrow> derived b c \<Longrightarrow> derived a c"
  by (auto simp: derived_def intro: rights_le_trans)

lemma from_capI: "c \<in> caps_of k i \<Longrightarrow> from_cap k i c"
  unfolding from_cap_def using derived_refl by blast

lemma caps_of_upd:
  "caps_of (upd_proc i (\<lambda>p. p\<lparr>p_cnode := f p\<rparr>) k) j =
    (if j = i then (case slot k i of None \<Rightarrow> {} | Some p \<Rightarrow> set (f p)) else caps_of k j)"
  by (auto simp: caps_of_def slot_upd_proc split: option.splits)

lemma caps_of_insert_into:
  assumes "slot k i = Some (the_proc k i)"
  shows "caps_of (snd (insert_into i c k)) j \<subseteq> (if j = i then insert c (caps_of k i) else caps_of k j)"
  using insert_subset [of "p_cnode (the_proc k i)" c] assms
  by (cases "cap_cnode_insert (p_cnode (the_proc k i)) c") (auto simp: insert_into_def caps_of_upd caps_of_def [of k i])

lemma has_root_caps_of: "slot k i = Some (the_proc k i) \<Longrightarrow> cnode_has_root (p_cnode (the_proc k i)) \<Longrightarrow> \<not> no_root k"
  unfolding no_root_def cnode_has_root_def caps_of_def by (metis option.case(2))

lemma grant_bit: "c_rights c AND CAP_GRANT \<noteq> 0 \<Longrightarrow> derived c c0 \<Longrightarrow> c_rights c0 AND CAP_GRANT \<noteq> 0"
  unfolding derived_def rights_le_def by (metis and.assoc bit.conj_zero_right)

lemma cap_call_from:
  assumes "cap_call k k'" "caps_ok k" "no_root k" "c \<in> caps_of k' i"
  shows "from_cap k i c"
  using assms(1)
proof cases
  case (cc_mint ty rights uarg)
  show ?thesis
  proof (cases "proc_cap_mint ty rights uarg k")
    case (Pair r k1)
    then have "k1 = k" by (rule mint_cases) (use assms(3) has_root_caps_of [OF cap_owner_current] in auto)
    with Pair cc_mint assms(4) show ?thesis by (simp add: from_capI)
  qed
next
  case (cc_grant tpid s msk)
  show ?thesis
  proof (cases "proc_cap_grant tpid s msk k")
    case (Pair r k1)
    then have k1: "k' = k1" using cc_grant by simp
    from Pair show ?thesis
    proof (rule grant_cases)
      assume "k1 = k"
      then show ?thesis using k1 assms(4) by (simp add: from_capI)
    next
      fix a t
      let ?src = "p_cnode (the_proc k a) ! unat s"
      let ?c = "?src\<lparr>c_rights := c_rights ?src AND (if msk = 0 then NOT 0 else msk)\<rparr>"
      assume a: "cap_owner k (get_current_proc k) = Some a" and t: "cap_owner k (proc_get k tpid) = Some t"
        and s: "unat s < CNODE_SLOTS"
        and g: "cnode_has_root (p_cnode (the_proc k a)) \<or> c_rights ?src AND CAP_GRANT \<noteq> 0"
        and ins: "insert_into t ?c k = (r, k1)"
      have sl: "slot k a = Some (the_proc k a)" by (rule cap_owner_current [OF a])
      have src: "?src \<in> caps_of k a" using caps_okD [OF assms(2) sl] s sl by (simp add: caps_of_def cnode_ok_def)
      have gr: "c_rights ?src AND CAP_GRANT \<noteq> 0" using g has_root_caps_of [OF sl] assms(3) by blast
      have "derived ?c ?src" by (simp add: derived_def)
      with src gr have fc: "from_cap k t ?c" unfolding from_cap_def by blast
      have "c \<in> (if i = t then insert ?c (caps_of k t) else caps_of k i)"
        by (rule subsetD [OF caps_of_insert_into [OF cap_owner_slot [OF t], of ?c i, unfolded ins snd_conv, folded k1] assms(4)])
      then show ?thesis using fc from_capI by (auto split: if_splits)
    qed
  qed
next
  case (cc_revoke s)
  show ?thesis
  proof (cases "proc_cap_revoke s k")
    case (Pair r k1)
    from Pair show ?thesis
    proof (rule revoke_cases)
      assume "k1 = k"
      then show ?thesis using Pair cc_revoke assms(4) by (simp add: from_capI)
    next
      fix a
      assume k1: "k1 = upd_proc a (\<lambda>p. p\<lparr>p_cnode := cap_cnode_revoke (p_cnode p) (unat s)\<rparr>) k"
      have sub: "set (cap_cnode_revoke cn x) \<subseteq> insert zero_cap (set cn)" for cn x
        by (simp add: cap_cnode_revoke_def set_update_subset_insert subset_insertI)
      have "c \<in> insert zero_cap (caps_of k i)"
        using assms(4) Pair unfolding cc_revoke Pair snd_conv k1 caps_of_upd
        by (auto simp: caps_of_def dest: subsetD [OF sub] split: if_splits option.splits)
      then show ?thesis using from_capI by (auto simp: from_cap_def)
    qed
  qed
next
  case (cc_setuid p u)
  have "c \<in> insert zero_cap (caps_of k i)"
    using assms(4) cc_setuid
    by (auto simp: proc_cap_on_setuid_def caps_of_upd cap_cnode_init_def split: option.splits if_splits)
  then show ?thesis using from_capI by (auto simp: from_cap_def)
next
  case (cc_switch c' n)
  have "caps_of k' i = caps_of k i" by (simp add: cc_switch caps_of_def slot_def)
  then show ?thesis using assms(4) from_capI by simp
qed

lemma from_cap_no_root: "from_cap k i c \<Longrightarrow> no_root k \<Longrightarrow> c_type c \<noteq> CAP_ROOT"
  by (auto simp: from_cap_def no_root_def derived_def zero_cap_def CAP_ROOT_def)

lemma from_cap_trans:
  assumes "from_cap k1 i c" "\<And>j c'. c' \<in> caps_of k1 j \<Longrightarrow> from_cap k0 j c'"
  shows "from_cap k0 i c"
proof (cases "c = zero_cap")
  case False
  with assms(1) obtain j c1 where c1: "c1 \<in> caps_of k1 j" "derived c c1" "j = i \<or> c_rights c1 AND CAP_GRANT \<noteq> 0"
    by (auto simp: from_cap_def)
  from assms(2) [OF c1(1)] consider "c1 = zero_cap" | l c0 where "c0 \<in> caps_of k0 l" "derived c1 c0" "l = j \<or> c_rights c0 AND CAP_GRANT \<noteq> 0"
    by (auto simp: from_cap_def)
  then show ?thesis
  proof cases
    case 1
    then have "c = zero_cap" using c1(2) by (simp add: derived_def zero_cap_def rights_le_def)
    with False show ?thesis by simp
  next
    case 2
    have "derived c c0" by (rule derived_trans [OF c1(2) 2(2)])
    moreover have "l = i \<or> c_rights c0 AND CAP_GRANT \<noteq> 0" using 2(2,3) c1(3) grant_bit by blast
    ultimately show ?thesis using 2(1) unfolding from_cap_def by blast
  qed
qed (simp add: from_cap_def)

lemma cap_calls_from:
  assumes "cap_call\<^sup>*\<^sup>* k k'" "caps_ok k" "no_root k"
  shows "caps_ok k' \<and> no_root k' \<and> (\<forall>i. \<forall>c \<in> caps_of k' i. from_cap k i c)"
  using assms
proof (induction rule: rtranclp_induct)
  case (step k1 k2)
  then have ih: "caps_ok k1" "no_root k1" "\<And>i c. c \<in> caps_of k1 i \<Longrightarrow> from_cap k i c" by auto
  have f: "from_cap k1 i c" if "c \<in> caps_of k2 i" for i c by (rule cap_call_from [OF step.hyps(2) ih(1,2) that])
  then have "no_root k2" using from_cap_no_root [OF _ ih(2)] by (auto simp: no_root_def)
  moreover have "caps_ok k2" by (rule cap_call_ok [OF step.hyps(2) ih(1)])
  ultimately show ?case using from_cap_trans [OF f ih(3)] by blast
qed (auto intro: from_capI)


section \<open>The exec-time policy\<close>

text \<open>The reference: the capabilities of the matching rules, in order, fill the node from its first slot
  and whatever does not fit is dropped.\<close>

definition policy_caps :: "'a kernel_scheme \<Rightarrow> string \<Rightarrow> cap_policy_rule list \<Rightarrow> cap_t list" where
  "policy_caps k cmd rs =
     concat (map (\<lambda>r. if rule_matches cmd r then List.map_filter (cap_policy_build_cap k) (pr_entries r) else []) rs)"

definition fill_cnode :: "cap_t list \<Rightarrow> cnode" where
  "fill_cnode cs = take CNODE_SLOTS (cs @ replicate CNODE_SLOTS zero_cap)"

lemma find_index_append: "\<forall>x \<in> set xs. \<not> P x \<Longrightarrow> find_index P (xs @ ys) = map_option (\<lambda>i. length xs + i) (find_index P ys)"
  by (cases "find_index P ys"; induction xs) auto

lemma insert_fill:
  assumes "\<forall>c \<in> set cs. c_type c \<noteq> CAP_INVALID" "c_type c \<noteq> CAP_INVALID"
  shows "snd (cap_cnode_insert (fill_cnode cs) c) = fill_cnode (cs @ [c])"
proof (cases "length cs < CNODE_SLOTS")
  case True
  define n where "n = CNODE_SLOTS - Suc (length cs)"
  have e: "fill_cnode cs = cs @ replicate (Suc n) zero_cap"
    using True by (simp add: fill_cnode_def n_def Suc_diff_Suc)
  have e': "fill_cnode (cs @ [c]) = cs @ c # replicate n zero_cap"
    using True by (simp add: fill_cnode_def n_def take_Cons')
  have "find_index (\<lambda>x. c_type x = CAP_INVALID) (replicate (Suc n) zero_cap) = Some 0"
    by (simp add: zero_cap_def CAP_INVALID_def)
  then have "find_index (\<lambda>x. c_type x = CAP_INVALID) (fill_cnode cs) = Some (length cs)"
    unfolding e using assms(1) by (subst find_index_append) auto
  then show ?thesis using assms(2) by (simp add: cap_cnode_insert_def e e')
next
  case False
  then have "fill_cnode cs = take CNODE_SLOTS cs" "fill_cnode (cs @ [c]) = take CNODE_SLOTS cs" by (simp_all add: fill_cnode_def)
  moreover have "find_index (\<lambda>x. c_type x = CAP_INVALID) (take CNODE_SLOTS cs) = None"
    using assms(1) by (auto simp: find_index_None_iff dest: in_set_takeD)
  ultimately show ?thesis by (simp add: cap_cnode_insert_def)
qed


lemma build_cap_type: "cap_policy_build_cap k e = Some c \<Longrightarrow> c_type c \<noteq> CAP_INVALID"
  by (auto simp: cap_policy_build_cap_def Let_def zero_cap_def cap_types split: if_splits option.splits)

lemma fold_entries:
  assumes "\<forall>c \<in> set cs. c_type c \<noteq> CAP_INVALID"
  shows "foldl (policy_insert_entry k) (fill_cnode cs) es = fill_cnode (cs @ List.map_filter (cap_policy_build_cap k) es)"
  using assms
proof (induction es arbitrary: cs)
  case (Cons e es)
  show ?case
  proof (cases "cap_policy_build_cap k e")
    case None
    with Cons show ?thesis by (simp add: policy_insert_entry_def List.map_filter_def)
  next
    case (Some c)
    have "\<forall>x \<in> set (cs @ [c]). c_type x \<noteq> CAP_INVALID" using Cons.prems build_cap_type [OF Some] by auto
    from Cons.IH [OF this] Some insert_fill [OF Cons.prems build_cap_type [OF Some]]
    show ?thesis by (simp add: policy_insert_entry_def List.map_filter_def)
  qed
qed (simp add: List.map_filter_def)

lemma map_filter_types: "c \<in> set (List.map_filter (cap_policy_build_cap k) es) \<Longrightarrow> c_type c \<noteq> CAP_INVALID"
  by (auto simp: List.map_filter_def dest: build_cap_type)

lemma fold_rules:
  assumes "\<forall>c \<in> set cs. c_type c \<noteq> CAP_INVALID"
  shows "foldl (policy_apply_rule k cmd) (fill_cnode cs) rs = fill_cnode (cs @ policy_caps k cmd rs)"
  using assms
proof (induction rs arbitrary: cs)
  case (Cons r rs)
  show ?case
  proof (cases "rule_matches cmd r")
    case True
    let ?e = "List.map_filter (cap_policy_build_cap k) (pr_entries r)"
    have "\<forall>c \<in> set (cs @ ?e). c_type c \<noteq> CAP_INVALID" using Cons.prems map_filter_types by fastforce
    from Cons.IH [OF this] True fold_entries [OF Cons.prems, of k "pr_entries r"] show ?thesis
      by (simp add: policy_apply_rule_def [of k cmd "fill_cnode cs"] policy_caps_def)
  next
    case False
    with Cons show ?thesis by (simp add: policy_apply_rule_def [of k cmd "fill_cnode cs"] policy_caps_def)
  qed
qed (simp add: policy_caps_def)

lemma fill_init: "cap_cnode_init = fill_cnode []" "snd (cap_cnode_insert cap_cnode_init root_cap) = fill_cnode [root_cap]"
proof -
  show e: "cap_cnode_init = fill_cnode []" by (simp add: cap_cnode_init_def fill_cnode_def)
  show "snd (cap_cnode_insert cap_cnode_init root_cap) = fill_cnode [root_cap]"
    using insert_fill [of "[]" root_cap] by (simp add: e root_cap_def zero_cap_def cap_types)
qed

lemma proc_get_upd_cnode [simp]:
  "proc_get (upd_proc i (p_cnode_update f) k) pid = proc_get k pid"
  "p_uuid (the_proc (upd_proc i (p_cnode_update f) k) j) = p_uuid (the_proc k j)"
proof -
  show "proc_get (upd_proc i (p_cnode_update f) k) pid = proc_get k pid"
    by (cases "nat pid = i") (auto simp: proc_get_alt slot_upd_proc)
  show "p_uuid (the_proc (upd_proc i (p_cnode_update f) k) j) = p_uuid (the_proc k j)"
    by (cases "j = i"; cases "slot k i") (auto simp: the_proc_def slot_upd_proc)
qed

lemma build_cap_upd [simp]: "cap_policy_build_cap (upd_proc i (p_cnode_update f) k) = cap_policy_build_cap k"
  by (rule ext) (simp add: cap_policy_build_cap_def Let_def cong: if_cong option.case_cong)

lemma policy_caps_upd [simp]: "policy_caps (upd_proc i (p_cnode_update f) k) cmd rs = policy_caps k cmd rs"
  by (simp add: policy_caps_def cong: if_cong)

lemma rule_matches_Nil [simp]: "\<not> rule_matches [] r"
  by (auto simp: rule_matches_def Let_def)

lemma policy_caps_Nil [simp]: "policy_caps k [] rs = []"
  by (simp add: policy_caps_def)

lemma upd_cnode_same [simp]:
  "p_type (the_proc (upd_proc i (p_cnode_update f) k) j) = p_type (the_proc k j)"
  "p_father_pid (the_proc (upd_proc i (p_cnode_update f) k) j) = p_father_pid (the_proc k j)"
  "p_sid (the_proc (upd_proc i (p_cnode_update f) k) j) = p_sid (the_proc k j)"
  "p_space (the_proc (upd_proc i (p_cnode_update f) k) j) = p_space (the_proc k j)"
  by (cases "j = i"; cases "slot k i"; auto simp: the_proc_def slot_upd_proc)+

lemma owner_loop_upd [simp]: "owner_loop n (upd_proc i (p_cnode_update f) k) p = owner_loop n k p"
proof (induction n arbitrary: p)
  case (Suc n)
  then show ?case by (cases p) auto
qed simp

lemma cap_owner_upd [simp]:
  "cap_owner (upd_proc i (p_cnode_update f) k) p = cap_owner k p"
  "get_current_proc (upd_proc i (p_cnode_update f) k) = get_current_proc k"
  "user_ptr_ok (upd_proc i (p_cnode_update f) k) q ptr sz = user_ptr_ok k q ptr sz"
  by (simp_all add: cap_owner_def proc_get_proc_def get_current_proc_alt user_ptr_ok_def split: option.split)


section \<open>Properties\<close>

lemma set_fill: "length cs < CNODE_SLOTS \<Longrightarrow> set (fill_cnode cs) = insert zero_cap (set cs)"
  by (auto simp: fill_cnode_def take_replicate)

lemma nth_fill: "i < length cs \<Longrightarrow> i < CNODE_SLOTS \<Longrightarrow> fill_cnode cs ! i = cs ! i"
  by (simp add: fill_cnode_def nth_append)

lemma length_fill [simp]: "length (fill_cnode cs) = CNODE_SLOTS"
  by (simp add: fill_cnode_def)

definition ex_frame_cap :: cap_t where
  "ex_frame_cap = \<lparr>c_type = CAP_FRAME, c_rights = CAP_R OR CAP_W OR CAP_GRANT, c_obj = ObjFrame 0x1000 0x2000\<rparr>"

definition ex_proc_cap :: cap_t where
  "ex_proc_cap = \<lparr>c_type = CAP_PROCESS, c_rights = CAP_W, c_obj = ObjProc 2 12\<rparr>"

definition ex_cap :: kernel where
  "ex_cap = (procs_init 4 1 8 0)\<lparr>current_proc := (\<lambda>_. 1), task_table := [None,
     Some (zero_proc\<lparr>p_pid := 1, p_uuid := 11, p_state := RUNNING, p_space := Some 0, p_uid := 5, p_cmd := ''/bin/fb x'',
       p_cnode := fill_cnode [ex_frame_cap, ex_proc_cap]\<rparr>),
     Some (zero_proc\<lparr>p_pid := 2, p_uuid := 12, p_state := READY, p_space := Some 1, p_uid := 6, p_cnode := fill_cnode []\<rparr>),
     Some (zero_proc\<lparr>p_pid := 3, p_uuid := 13, p_state := READY, p_space := Some 2, p_uid := 7, p_cnode := fill_cnode []\<rparr>)]\<rparr>"


definition ex_policy :: cap_state where
  "ex_policy = \<lparr>cap_sid_seq = 0, cap_policy = [\<lparr>pr_cmd = ''/bin/fb'', pr_entries =
     [\<lparr>pe_type = CAP_FRAME, pe_rights = CAP_R, pe_a = 0x8000, pe_b = 0x1000\<rparr>]\<rparr>]\<rparr>"

lemma ex_cap_cnodes:
  assumes "slot ex_cap i = Some p"
  shows "p_cnode p = fill_cnode [] \<or> p_cnode p = fill_cnode [ex_frame_cap, ex_proc_cap]"
proof -
  have "Some p \<in> set (task_table ex_cap)" using assms by (auto simp: slot_def split: if_splits) (metis nth_mem)
  then show ?thesis by (auto simp: ex_cap_def)
qed

lemma ex_cap_ok: "caps_ok ex_cap" "policy_ok ex_policy"
proof -
  have c: "cap_ok ex_frame_cap" "cap_ok ex_proc_cap"
    by (simp_all add: ex_frame_cap_def ex_proc_cap_def cap_ok_def obj_fits_def rights_le_def cap_types CAP_ALL_def CAP_R_def
      CAP_W_def CAP_X_def CAP_GRANT_def)
  then show "caps_ok ex_cap" unfolding caps_ok_def
    by (auto dest!: ex_cap_cnodes simp: cnode_ok_def set_fill CNODE_SLOTS_def)
  show "policy_ok ex_policy"
    by (simp add: policy_ok_def rule_ok_def ex_policy_def CAP_POLICY_RULE_MAX_def CAP_POLICY_CMD_MAX_def CAP_POLICY_ENTRY_MAX_def
      cap_types rights_le_def CAP_ALL_def CAP_R_def CAP_W_def CAP_X_def CAP_GRANT_def)
qed

lemmas ex_cap_simps = ex_cap_def procs_init_def zero_proc_def the_proc_def slot_def proc_get_alt live_state_def
  cap_owner_def get_current_proc_alt proc_get_proc_def

lemma ex_cap_facts:
  "cap_owner ex_cap (Some 1) = Some 1" "cap_owner ex_cap (get_current_proc ex_cap) = Some 1" "cap_owner ex_cap (Some 2) = Some 2"
  "slot ex_cap 2 = Some (the_proc ex_cap 2)" "p_cnode (the_proc ex_cap 1) = fill_cnode [ex_frame_cap, ex_proc_cap]"
  "p_cnode (the_proc ex_cap 2) = fill_cnode []" "proc_get ex_cap 2 = Some 2" "p_uuid (the_proc ex_cap 2) = 12"
  by (simp_all add: ex_cap_simps)

lemma ex_cap_no_root1: "\<not> cnode_has_root (fill_cnode [ex_frame_cap, ex_proc_cap])"
  by (simp add: cnode_has_root_def set_fill CNODE_SLOTS_def ex_frame_cap_def ex_proc_cap_def zero_cap_def cap_types)

text \<open>C30: the capability nodes stay well formed under every operation of the capability system: 64 slots,
  every descriptor of the kind its type calls for, only defined rights, empty slots all zero, and a policy
  table within its bounds.\<close>

theorem cap_nodes_well_formed:
  assumes "caps_ok k" "policy_ok cs" "cap_step\<^sup>*\<^sup>* (k, cs) (k', cs')"
  shows "caps_ok k' \<and> policy_ok cs'"
  using cap_steps_ok [OF assms(3)] assms(1,2) by simp

theorem cap_nodes_well_formed_witness:
  "caps_ok (proc_cap_on_exec ex_policy (Some 1) ex_cap) \<and> policy_ok ex_policy"
  by (rule cap_nodes_well_formed [OF ex_cap_ok]) (blast intro: cs_exec)

text \<open>C5: authority is never amplified. As long as no task holds the root capability, whatever
  sequence of mints, grants, revocations and setuids the tasks perform, nobody obtains it, and every
  capability a task ends up with is an attenuation of one it held at the start or of one that its holder was
  allowed to grant.\<close>

theorem cap_no_amplification:
  assumes "caps_ok k" "no_root k" "cap_call\<^sup>*\<^sup>* k k'" "c \<in> caps_of k' i" "c_type c \<noteq> CAP_INVALID"
  shows "c_type c \<noteq> CAP_ROOT \<and> (\<exists>j. \<exists>c0 \<in> caps_of k j. c_type c = c_type c0 \<and> c_obj c = c_obj c0 \<and>
    c_rights c AND c_rights c0 = c_rights c \<and> (j = i \<or> c_rights c0 AND CAP_GRANT \<noteq> 0))"
proof -
  have "no_root k'" and "from_cap k i c" using cap_calls_from [OF assms(3,1,2)] assms(4) by auto
  moreover have "c \<noteq> zero_cap" using assms(5) by (auto simp: zero_cap_def CAP_INVALID_def)
  ultimately show ?thesis using assms(4) by (auto simp: no_root_def from_cap_def derived_def rights_le_def)
qed

lemma ex_cap_no_root: "no_root ex_cap"
  by (auto simp: no_root_def caps_of_def set_fill CNODE_SLOTS_def ex_frame_cap_def ex_proc_cap_def zero_cap_def cap_types
      dest!: ex_cap_cnodes split: option.splits)

lemma ex_cap_granted: "caps_of (snd (proc_cap_grant 2 0 1 ex_cap)) 2 = {zero_cap, ex_frame_cap\<lparr>c_rights := CAP_R\<rparr>}"
proof -
  let ?c = "ex_frame_cap\<lparr>c_rights := CAP_R\<rparr>"
  have t: "c_type ?c \<noteq> CAP_INVALID" "c_rights ex_frame_cap AND 1 = CAP_R" "c_rights ex_frame_cap AND CAP_GRANT \<noteq> 0" "c_type ex_frame_cap \<noteq> CAP_INVALID"
    by (simp_all add: ex_frame_cap_def cap_types CAP_R_def CAP_W_def CAP_GRANT_def)
  have "proc_cap_grant 2 0 1 ex_cap = insert_into 2 ?c ex_cap"
    using t by (simp add: proc_cap_grant_def ex_cap_facts nth_fill CNODE_SLOTS_def CAP_R_def del: One_nat_def)
  moreover have "snd (cap_cnode_insert (fill_cnode []) ?c) = fill_cnode [?c]" using insert_fill [of "[]" ?c] t(1) by simp
  ultimately show ?thesis using ex_cap_facts(4)
    by (cases "cap_cnode_insert (fill_cnode []) ?c")
      (auto simp: insert_into_def ex_cap_facts caps_of_def slot_upd_proc set_fill CNODE_SLOTS_def)
qed

theorem cap_no_amplification_witness:
  "\<exists>j. \<exists>c0 \<in> caps_of ex_cap j. c_type c0 = CAP_FRAME \<and> CAP_R AND c_rights c0 = CAP_R \<and> (j = 2 \<or> c_rights c0 AND CAP_GRANT \<noteq> 0)"
proof -
  let ?c = "ex_frame_cap\<lparr>c_rights := CAP_R\<rparr>"
  have c: "?c \<in> caps_of (snd (proc_cap_grant 2 0 1 ex_cap)) 2" by (simp add: ex_cap_granted)
  have t: "c_type ?c = CAP_FRAME" "c_type ?c \<noteq> CAP_INVALID" by (simp_all add: ex_frame_cap_def cap_types)
  from cap_no_amplification [OF ex_cap_ok(1) ex_cap_no_root r_into_rtranclp [where r = cap_call, OF cc_grant] c t(2)] t(1)
  show ?thesis by force
qed

text \<open>C27: a physical range is authorised for a task without the root capability only if one of its frame
  capabilities with all the requested rights contains the whole range, computed without wrap-around.\<close>

theorem proc_cap_check_frame_sound:
  assumes "proc_cap_check_frame k p paddr sz rights"
    and "cap_owner k p = Some i" and "\<not> cnode_has_root (p_cnode (the_proc k i))"
  shows "\<exists>c \<in> set (p_cnode (the_proc k i)). \<exists>cb csz. c_type c = CAP_FRAME \<and> c_obj c = ObjFrame cb csz \<and>
    c_rights c AND rights = rights \<and> unat cb \<le> unat paddr \<and> unat paddr + unat sz \<le> unat cb + unat csz"
proof -
  from assms obtain c where c: "c \<in> set (p_cnode (the_proc k i))" "c_type c = CAP_FRAME" "cap_rights_ok c rights"
    "frame_covers paddr (paddr + sz) c" and w: "\<not> paddr + sz < paddr"
    by (auto simp: proc_cap_check_frame_def Let_def split: if_splits)
  from c(4) obtain cb csz where o: "c_obj c = ObjFrame cb csz" "cb \<le> paddr"
    "paddr + sz \<le> (if cb + csz < cb then -1 else cb + csz)"
    by (auto simp: frame_covers_def Let_def split: cap_obj.splits)
  have sum: "unat (paddr + sz) = unat paddr + unat sz" using w by (simp add: unat_plus_simple not_less)
  have "unat paddr + unat sz \<le> unat cb + unat csz"
  proof (cases "cb + csz < cb")
    case True
    then have "2 ^ 64 \<le> unat cb + unat csz" using no_olen_add_nat [of cb csz] by (auto simp: not_le not_less)
    then show ?thesis using sum unat_u64_less [of "paddr + sz"] by linarith
  next
    case False
    then have "unat (cb + csz) = unat cb + unat csz" by (simp add: unat_plus_simple not_less)
    then show ?thesis using False o(3) sum by (simp add: word_le_nat_alt)
  qed
  then show ?thesis using c(1-3) o(1,2) by (auto simp: cap_rights_ok_def word_le_nat_alt)
qed

theorem proc_cap_check_frame_sound_witness:
  "proc_cap_check_frame ex_cap (Some 1) 0x1800 0x800 CAP_R \<and> (\<exists>c \<in> set (p_cnode (the_proc ex_cap 1)). c_type c = CAP_FRAME)"
proof -
  have r: "\<not> cnode_has_root (p_cnode (the_proc ex_cap 1))" by (simp only: ex_cap_facts ex_cap_no_root1 not_False_eq_True)
  have "proc_cap_check_frame ex_cap (Some 1) 0x1800 0x800 CAP_R"
    by (simp add: proc_cap_check_frame_def ex_cap_facts ex_cap_no_root1 set_fill CNODE_SLOTS_def cap_rights_ok_def frame_covers_def
      ex_frame_cap_def ex_proc_cap_def zero_cap_def cap_types CAP_R_def CAP_W_def CAP_GRANT_def del: One_nat_def)
  with proc_cap_check_frame_sound [OF this ex_cap_facts(1) r] show ?thesis by blast
qed



text \<open>C26: \<open>exec\<close> leaves a task with exactly the capabilities its identity calls for. Nothing of the old node
  survives: an image run with a real uid holds the capabilities of the policy rules whose command is the
  first word of its command line, an image run with uid 0 holds the root capability as well, first.\<close>

theorem proc_cap_on_exec_exact:
  assumes "slot k i = Some p"
  shows "p_cnode (the_proc (proc_cap_on_exec cs (Some i) k) i) =
    fill_cnode ((if p_uid p \<le> 0 then [root_cap] else []) @ policy_caps k (p_cmd p) (cap_policy cs))"
proof -
  define base where "base = (if p_uid p \<le> 0 then [root_cap] else [])"
  define k1 where "k1 = upd_proc i (p_cnode_update (\<lambda>_. fill_cnode base)) k"
  have base: "\<forall>c \<in> set base. c_type c \<noteq> CAP_INVALID" by (simp add: base_def root_cap_def zero_cap_def cap_types)
  have k1: "(if p_uid (the_proc k i) \<le> 0 then proc_cap_grant_root (Some i) k else upd_proc i (\<lambda>q. q\<lparr>p_cnode := cap_cnode_init\<rparr>) k) = k1"
    using assms by (simp add: k1_def base_def proc_cap_grant_root_def fill_init(1) fill_init(2) [unfolded fill_init(1)] the_proc_def)
  have p1: "slot k1 i = Some (p\<lparr>p_cnode := fill_cnode base\<rparr>)" using assms by (simp add: k1_def)
  have "p_cnode (the_proc (cap_policy_on_exec cs i k1) i) = fill_cnode (base @ policy_caps k (p_cmd p) (cap_policy cs))"
  proof (cases "p_cmd p = []")
    case True
    then show ?thesis using p1 by (simp add: cap_policy_on_exec_def the_proc_def)
  next
    case False
    have t1: "the_proc k1 i = p\<lparr>p_cnode := fill_cnode base\<rparr>" using p1 by (simp add: the_proc_def)
    have "policy_caps k1 (p_cmd p) (cap_policy cs) = policy_caps k (p_cmd p) (cap_policy cs)" by (simp add: k1_def)
    with False fold_rules [OF base, of k1 "p_cmd p" "cap_policy cs"] p1 show ?thesis
      by (simp add: cap_policy_on_exec_def t1)
  qed
  then show ?thesis by (simp add: proc_cap_on_exec_def k1 base_def)
qed

theorem proc_cap_on_exec_exact_witness:
  "p_cnode (the_proc (proc_cap_on_exec ex_policy (Some 1) ex_cap) 1) =
    fill_cnode [\<lparr>c_type = CAP_FRAME, c_rights = CAP_R, c_obj = ObjFrame 0x8000 0x1000\<rparr>]"
proof -
  have s: "slot ex_cap 1 = Some (the_proc ex_cap 1)" by (simp add: ex_cap_simps)
  have "policy_caps ex_cap ''/bin/fb x'' (cap_policy ex_policy) = [\<lparr>c_type = CAP_FRAME, c_rights = CAP_R, c_obj = ObjFrame 0x8000 0x1000\<rparr>]"
    by (simp add: policy_caps_def ex_policy_def rule_matches_def cap_policy_build_cap_def List.map_filter_def zero_cap_def cap_types)
  with proc_cap_on_exec_exact [OF s, of ex_policy] show ?thesis by (simp add: ex_cap_simps)
qed




end
