(* ===== verification/Trunkmem.thy ===== *)
theory Trunkmem
  imports Prelude
begin

text \<open>
  The block allocator of \<^verbatim>\<open>kernel/kernel/src/mm/trunkmem.c\<close> and the kernel heap built on it in
  \<^verbatim>\<open>kernel/kernel/src/mm/kmalloc.c\<close>.

  The headers of the blocks form a doubly linked list inside the heap; the heap is the function
  \<open>m_blocks\<close> from addresses to headers, and \<open>NULL\<close> is address \<open>0\<close>. Addresses and sizes are natural
  numbers; every sum and difference that the C code computes in 64 bits, and every store into the 63-bit
  size field, is reduced as the hardware does. The callbacks of a \<open>malloc_t\<close> are the record \<open>trunk_ops\<close>
  over the state \<open>'a\<close> behind \<open>arg\<close>; \<open>kmalloc.c\<close> provides them at the end of the theory.
\<close>

section \<open>Blocks\<close>

record mem_block =
  mb_next :: nat
  mb_prev :: nat
  mb_size :: nat
  mb_used :: bool
  mb_mem :: nat

record 'a trunk_ops =
  op_expand :: "int \<Rightarrow> 'a \<Rightarrow> int \<times> 'a"
  op_shrink :: "int \<Rightarrow> 'a \<Rightarrow> 'a"
  op_get_mem_tail :: "'a \<Rightarrow> nat"
  op_get_mem_top :: "'a \<Rightarrow> nat"

record 'a malloc_t =
  m_ops :: "'a trunk_ops"
  m_arg :: 'a
  m_head :: nat
  m_tail :: nat
  m_start :: nat
  m_blocks :: "nat \<Rightarrow> mem_block"

type_synonym heap = "nat \<Rightarrow> mem_block"

definition MEM_BLOCK_SIZE :: nat where "MEM_BLOCK_SIZE = 32"

abbreviation W64 :: nat where "W64 \<equiv> 2 ^ 64"
abbreviation W63 :: nat where "W63 \<equiv> 2 ^ 63"

text \<open>A \<open>uint32_t\<close> passed as \<open>int32_t\<close>.\<close>

definition as_int32 :: "nat \<Rightarrow> int" where
  "as_int32 n = sint (of_nat n :: u32)"

definition upd_block :: "nat \<Rightarrow> (mem_block \<Rightarrow> mem_block) \<Rightarrow> 'a malloc_t \<Rightarrow> 'a malloc_t" where
  "upd_block b f m = m\<lparr>m_blocks := (m_blocks m)(b := f (m_blocks m b))\<rparr>"

section \<open>Checks\<close>

definition trunk_heap_begin :: "'a malloc_t \<Rightarrow> nat" where
  "trunk_heap_begin m = m_head m"

definition trunk_heap_end :: "'a malloc_t \<Rightarrow> nat" where
  "trunk_heap_end m = op_get_mem_tail (m_ops m) (m_arg m)"

definition trunk_heap_top :: "'a malloc_t \<Rightarrow> nat" where
  "trunk_heap_top m = op_get_mem_top (m_ops m) (m_arg m)"

definition trunk_ptr_aligned :: "nat \<Rightarrow> bool" where
  "trunk_ptr_aligned p \<longleftrightarrow> p mod 8 = 0"

definition trunk_ptr_in_heap :: "nat \<Rightarrow> nat \<Rightarrow> nat \<Rightarrow> bool" where
  "trunk_ptr_in_heap heap_begin heap_end p \<longleftrightarrow>
     heap_begin \<noteq> 0 \<and> heap_end \<noteq> 0 \<and> p \<noteq> 0 \<and> heap_begin \<le> p \<and> p < heap_end"

definition trunk_block_sane :: "heap \<Rightarrow> nat \<Rightarrow> nat \<Rightarrow> nat \<Rightarrow> nat \<Rightarrow> bool" where
  "trunk_block_sane h heap_begin heap_end prev block =
     (let mem_addr = mb_mem (h block);
          block_end = (mem_addr + mb_size (h block)) mod W64;
          nxt = mb_next (h block) in
      block \<noteq> 0 \<and>
      trunk_ptr_in_heap heap_begin heap_end block \<and> trunk_ptr_aligned block \<and>
      mem_addr = (block + MEM_BLOCK_SIZE) mod W64 \<and> mem_addr \<le> heap_end \<and>
      \<not> block_end < mem_addr \<and> block_end \<le> heap_end \<and>
      mb_prev (h block) = prev \<and> (prev \<noteq> 0 \<longrightarrow> mb_next (h prev) = block) \<and>
      (nxt \<noteq> 0 \<longrightarrow> trunk_ptr_in_heap heap_begin heap_end nxt \<and> trunk_ptr_aligned nxt \<and>
         nxt > block \<and> nxt \<ge> block_end \<and> mb_prev (h nxt) = block))"

text \<open>The walk passes only sane blocks, whose successors have greater addresses below the end of the heap.\<close>

function find_from :: "heap \<Rightarrow> nat \<Rightarrow> nat \<Rightarrow> nat \<Rightarrow> nat \<Rightarrow> nat \<Rightarrow> nat" where
  "find_from h hb he target prev block =
     (if block = 0 then 0
      else if \<not> trunk_block_sane h hb he prev block then 0
      else if block = target then block
      else find_from h hb he target block (mb_next (h block)))"
  by pat_completeness auto

termination
  by (relation "measure (\<lambda>(h, hb, he, target, prev, block). if block = 0 then 0 else Suc (he - block))")
    (auto simp: trunk_block_sane_def Let_def trunk_ptr_in_heap_def)

declare find_from.simps [simp del]

definition trunk_find_block :: "'a malloc_t \<Rightarrow> nat \<Rightarrow> nat" where
  "trunk_find_block m target =
     (let heap_begin = trunk_heap_begin m; heap_end = trunk_heap_end m in
      if target = 0 \<or> heap_begin = 0 \<or> heap_end = 0 then 0
      else find_from (m_blocks m) heap_begin heap_end target 0 (m_head m))"

section \<open>Allocation\<close>

text \<open>\<open>gen_block\<close> leaves the \<open>used\<close> bit of the header as it finds it.\<close>

definition gen_block :: "nat \<Rightarrow> nat \<Rightarrow> 'a malloc_t \<Rightarrow> 'a malloc_t" where
  "gen_block p sz = upd_block p (\<lambda>b. b\<lparr>mb_next := 0, mb_prev := 0, mb_mem := (p + MEM_BLOCK_SIZE) mod W64,
     mb_size := (sz + W64 - MEM_BLOCK_SIZE) mod W63\<rparr>)"

definition get_block :: "nat \<Rightarrow> nat" where
  "get_block p = (if p = 0 \<or> p < MEM_BLOCK_SIZE then 0 else p - MEM_BLOCK_SIZE)"

definition try_break :: "nat \<Rightarrow> nat \<Rightarrow> 'a malloc_t \<Rightarrow> 'a malloc_t" where
  "try_break block sz m =
     (if (MEM_BLOCK_SIZE + sz) mod W64 > mb_size (m_blocks m block) div 2 then m
      else
        let p = (mb_mem (m_blocks m block) + sz) mod W64;
            m = gen_block p (mb_size (m_blocks m block) - sz) m;
            m = upd_block p (\<lambda>b. b\<lparr>mb_used := False\<rparr>) m;
            m = upd_block block (\<lambda>b. b\<lparr>mb_size := sz\<rparr>) m;
            nxt = mb_next (m_blocks m block);
            m = upd_block p (\<lambda>b. b\<lparr>mb_next := nxt\<rparr>) m;
            m = (if nxt \<noteq> 0 then upd_block nxt (\<lambda>b. b\<lparr>mb_prev := p\<rparr>) m else m);
            m = upd_block p (\<lambda>b. b\<lparr>mb_prev := block\<rparr>) m;
            m = upd_block block (\<lambda>b. b\<lparr>mb_next := p\<rparr>) m
        in if m_tail m = block then m\<lparr>m_tail := p\<rparr> else m)"

text \<open>The search loop of \<open>trunk_malloc\<close>; \<open>None\<close> when it does not return.\<close>

datatype scan_res = Insane | Exhausted | Found nat

partial_function (option) trunk_scan :: "heap \<Rightarrow> nat \<Rightarrow> nat \<Rightarrow> nat \<Rightarrow> nat \<Rightarrow> nat \<Rightarrow> scan_res option" where
  "trunk_scan h hb he sz prev block =
     (if block = 0 then Some Exhausted
      else if hb \<noteq> 0 \<and> he \<noteq> 0 \<and> \<not> trunk_block_sane h hb he prev block then Some Insane
      else if mb_used (h block) \<or> mb_size (h block) < sz
        then trunk_scan h hb he sz block (mb_next (h block))
      else Some (Found block))"

definition trunk_expand :: "nat \<Rightarrow> 'a malloc_t \<Rightarrow> nat \<times> 'a malloc_t" where
  "trunk_expand sz m =
     (let expand_size = (sz + MEM_BLOCK_SIZE) mod W64;
          pages64 = expand_size div PAGE_SIZE + (if expand_size mod PAGE_SIZE > 0 then 1 else 0);
          pages = pages64 mod 2 ^ 32;
          p = op_get_mem_tail (m_ops m) (m_arg m);
          (r, a) = op_expand (m_ops m) (as_int32 pages) (m_arg m);
          m = m\<lparr>m_arg := a\<rparr> in
      if r \<noteq> 0 then (0, m)
      else
        let m = gen_block p (pages * PAGE_SIZE) m;
            m = upd_block p (\<lambda>b. b\<lparr>mb_used := True\<rparr>) m;
            m = (if m_head m = 0 then m\<lparr>m_head := p\<rparr> else m);
            m = (if m_tail m = 0 then m\<lparr>m_tail := p\<rparr>
                 else (upd_block p (\<lambda>b. b\<lparr>mb_prev := m_tail m\<rparr>)
                        (upd_block (m_tail m) (\<lambda>b. b\<lparr>mb_next := p\<rparr>) m))\<lparr>m_tail := p\<rparr>);
            m = try_break p sz m
        in (mb_mem (m_blocks m p), m\<lparr>m_start := mb_next (m_blocks m p)\<rparr>))"

definition trunk_malloc :: "u64 \<Rightarrow> 'a malloc_t \<Rightarrow> (nat \<times> 'a malloc_t) option" where
  "trunk_malloc size0 m =
     (let sz = unat (ALIGN_UP size0 16);
          heap_begin = trunk_heap_begin m;
          heap_end = trunk_heap_end m;
          found = (if m_start m = 0 then 0 else trunk_find_block m (m_start m));
          block = (if found = 0 then m_head m else found);
          prev = (if found = 0 then 0 else mb_prev (m_blocks m found)) in
      case trunk_scan (m_blocks m) heap_begin heap_end sz prev block of
        None \<Rightarrow> None
      | Some Insane \<Rightarrow> Some (0, m)
      | Some (Found b) \<Rightarrow>
          let m = upd_block b (\<lambda>x. x\<lparr>mb_used := True\<rparr>) m;
              m = try_break b sz m
          in Some (mb_mem (m_blocks m b), m\<lparr>m_start := mb_next (m_blocks m b)\<rparr>)
      | Some Exhausted \<Rightarrow> Some (trunk_expand sz m))"

section \<open>Release\<close>

text \<open>Block \<open>a\<close> takes over its successor \<open>c\<close>.\<close>

definition absorb :: "nat \<Rightarrow> nat \<Rightarrow> 'a malloc_t \<Rightarrow> 'a malloc_t" where
  "absorb a c m =
     (let nn = mb_next (m_blocks m c);
          m = upd_block a (\<lambda>x. x\<lparr>mb_size := (mb_size x + (mb_size (m_blocks m c) + MEM_BLOCK_SIZE)) mod W63,
                mb_next := nn\<rparr>) m
      in if nn \<noteq> 0 then upd_block nn (\<lambda>x. x\<lparr>mb_prev := a\<rparr>) m else m\<lparr>m_tail := a\<rparr>)"

definition try_merge :: "nat \<Rightarrow> 'a malloc_t \<Rightarrow> nat \<times> 'a malloc_t" where
  "try_merge block m =
     (let b = mb_next (m_blocks m block);
          m = (if b \<noteq> 0 \<and> \<not> mb_used (m_blocks m b) then absorb block b m else m);
          b = mb_prev (m_blocks m block)
      in if b \<noteq> 0 \<and> \<not> mb_used (m_blocks m b) then (b, absorb b block m) else (block, m))"

definition try_shrink :: "'a malloc_t \<Rightarrow> 'a malloc_t" where
  "try_shrink m =
     (let t = m_tail m in
      if t = 0 \<or> mb_used (m_blocks m t) \<or> t mod PAGE_SIZE \<noteq> 0 then m
      else
        let pages = ((mb_size (m_blocks m t) + MEM_BLOCK_SIZE) div PAGE_SIZE) mod 2 ^ 32;
            m = m\<lparr>m_tail := mb_prev (m_blocks m t)\<rparr>;
            m = (if m_tail m \<noteq> 0 then upd_block (m_tail m) (\<lambda>x. x\<lparr>mb_next := 0\<rparr>) m else m\<lparr>m_head := 0\<rparr>)
        in m\<lparr>m_arg := op_shrink (m_ops m) (as_int32 pages) (m_arg m)\<rparr>)"

definition trunk_free :: "nat \<Rightarrow> 'a malloc_t \<Rightarrow> 'a malloc_t" where
  "trunk_free p m =
     (let block = trunk_find_block m (get_block p) in
      if block = 0 then m
      else if \<not> mb_used (m_blocks m block) then m
      else
        let m = upd_block block (\<lambda>x. x\<lparr>mb_used := False\<rparr>) m;
            (block, m) = try_merge block m in
        if block = 0 \<or> trunk_find_block m block = 0 then m
        else
          let m = (if m_start m = 0 \<or> m_start m \<ge> block then m\<lparr>m_start := mb_prev (m_blocks m block)\<rparr> else m)
          in try_shrink m)"

definition trunk_msize :: "nat \<Rightarrow> 'a malloc_t \<Rightarrow> nat" where
  "trunk_msize p m =
     (let block = trunk_find_block m (get_block p) in
      if block = 0 then 0 else mb_size (m_blocks m block))"

partial_function (option) free_sum :: "heap \<Rightarrow> nat \<Rightarrow> nat \<Rightarrow> nat \<Rightarrow> nat \<Rightarrow> nat \<Rightarrow> nat option" where
  "free_sum h hb he ret prev block =
     (if block = 0 then Some ret
      else if hb \<noteq> 0 \<and> he \<noteq> 0 \<and> \<not> trunk_block_sane h hb he prev block then Some ret
      else free_sum h hb he (if mb_used (h block) then ret else (ret + mb_size (h block)) mod W64) block (mb_next (h block)))"

definition trunk_free_size :: "'a malloc_t \<Rightarrow> nat option" where
  "trunk_free_size m =
     (let heap_end = trunk_heap_end m; heap_top = trunk_heap_top m in
      if heap_top < heap_end then Some 0
      else free_sum (m_blocks m) (trunk_heap_begin m) heap_end (heap_top - heap_end) 0 (m_head m))"

section \<open>The kernel heap\<close>

record km_heap =
  kmalloc_mem_tail :: nat
  KMALLOC_BASE :: nat
  KMALLOC_END :: nat

text \<open>\<open>pages * PAGE_SIZE\<close> is an \<open>int\<close> product.\<close>

definition page_bytes :: "int \<Rightarrow> int" where
  "page_bytes pages = sint (word_of_int (pages * int PAGE_SIZE) :: u32)"

definition km_shrink :: "int \<Rightarrow> km_heap \<Rightarrow> km_heap" where
  "km_shrink pages k = k\<lparr>kmalloc_mem_tail := nat ((int (kmalloc_mem_tail k) - page_bytes pages) mod 2 ^ 64)\<rparr>"

definition km_expand :: "int \<Rightarrow> km_heap \<Rightarrow> int \<times> km_heap" where
  "km_expand pages k =
     (let to = nat ((int (kmalloc_mem_tail k) + page_bytes pages) mod 2 ^ 64) in
      if to > KMALLOC_END k then (-1, k) else (0, k\<lparr>kmalloc_mem_tail := to\<rparr>))"

definition km_get_mem_tail :: "km_heap \<Rightarrow> nat" where
  "km_get_mem_tail k = kmalloc_mem_tail k"

definition km_get_mem_top :: "km_heap \<Rightarrow> nat" where
  "km_get_mem_top k = KMALLOC_END k"

definition km_ops :: "km_heap trunk_ops" where
  "km_ops = \<lparr>op_expand = km_expand, op_shrink = km_shrink, op_get_mem_tail = km_get_mem_tail, op_get_mem_top = km_get_mem_top\<rparr>"

definition kmalloc_init :: "nat \<Rightarrow> nat \<Rightarrow> heap \<Rightarrow> km_heap malloc_t" where
  "kmalloc_init base limit h = \<lparr>m_ops = km_ops,
     m_arg = \<lparr>kmalloc_mem_tail = base, KMALLOC_BASE = base, KMALLOC_END = limit\<rparr>,
     m_head = 0, m_tail = 0, m_start = 0, m_blocks = h\<rparr>"

definition kmalloc :: "u32 \<Rightarrow> km_heap malloc_t \<Rightarrow> (nat \<times> km_heap malloc_t) option" where
  "kmalloc sz m = trunk_malloc (ucast sz) m"

text \<open>The clearing of the payload by \<open>kcalloc\<close> has no counterpart: payloads are not part of the state.\<close>

definition kcalloc :: "u32 \<Rightarrow> u32 \<Rightarrow> km_heap malloc_t \<Rightarrow> (nat \<times> km_heap malloc_t) option" where
  "kcalloc nmemb sz m = kmalloc (nmemb * sz) m"

definition kfree :: "nat \<Rightarrow> km_heap malloc_t \<Rightarrow> km_heap malloc_t" where
  "kfree p m = (if p = 0 then m else trunk_free p m)"

definition kmalloc_free_size :: "km_heap malloc_t \<Rightarrow> u32 option" where
  "kmalloc_free_size m = map_option of_nat (trunk_free_size m)"

end
