(* ===== verification/Trunk_Chain.thy ===== *)
theory Trunk_Chain
  imports Trunkmem
begin

text \<open>
  The block chain as a list: a heap region tiled by blocks whose headers link them in address order, and
  what the searches, the split and the merge do to that list.
\<close>

section \<open>Segments of the chain\<close>

definition first :: "nat list \<Rightarrow> nat \<Rightarrow> nat" where
  "first xs d = (case xs of [] \<Rightarrow> d | x # _ \<Rightarrow> x)"

definition lastp :: "nat \<Rightarrow> nat list \<Rightarrow> nat" where
  "lastp p xs = (if xs = [] then p else last xs)"

lemma first_simps [simp]: "first [] d = d" "first (x # xs) d = x" "first (xs @ ys) d = first xs (first ys d)"
  by (auto simp: first_def split: list.split)

lemma lastp_simps [simp]: "lastp p [] = p" "lastp p (x # xs) = lastp x xs" "lastp p (xs @ ys) = lastp (lastp p xs) ys"
  by (auto simp: lastp_def)

definition b_end :: "heap \<Rightarrow> nat \<Rightarrow> nat" where
  "b_end h b = b + MEM_BLOCK_SIZE + mb_size (h b)"

definition blk_ok :: "heap \<Rightarrow> nat \<Rightarrow> bool" where
  "blk_ok h b \<longleftrightarrow> 0 < b \<and> 16 dvd b \<and> mb_mem (h b) = b + MEM_BLOCK_SIZE \<and> 16 dvd mb_size (h b)"

text \<open>\<open>seg h p bs q e\<close>: the blocks \<open>bs\<close> are linked in order, after \<open>p\<close> and before \<open>q\<close>, and tile the memory
  from the first of them up to \<open>e\<close>.\<close>

fun seg :: "heap \<Rightarrow> nat \<Rightarrow> nat list \<Rightarrow> nat \<Rightarrow> nat \<Rightarrow> bool" where
  "seg h p [] q e \<longleftrightarrow> True"
| "seg h p (b # bs) q e \<longleftrightarrow> blk_ok h b \<and> mb_prev (h b) = p \<and> mb_next (h b) = first bs q \<and> b_end h b = first bs e \<and> seg h b bs q e"

lemma seg_append: "seg h p (xs @ ys) q e \<longleftrightarrow> seg h p xs (first ys q) (first ys e) \<and> seg h (lastp p xs) ys q e"
  by (induction xs arbitrary: p) auto

lemma seg_cong: "(\<And>b. b \<in> set bs \<Longrightarrow> h' b = h b) \<Longrightarrow> seg h' p bs q e = seg h p bs q e"
proof (induction bs arbitrary: p)
  case (Cons b bs)
  then show ?case by (simp add: blk_ok_def b_end_def)
qed simp

lemma seg_end: "seg h p bs q e \<Longrightarrow> first bs e \<le> e"
proof (induction bs arbitrary: p)
  case (Cons b bs)
  then have "b_end h b \<le> e" by auto
  then show ?case by (simp add: b_end_def)
qed simp

lemma seg_bounds: "seg h p bs q e \<Longrightarrow> b \<in> set bs \<Longrightarrow> first bs e \<le> b \<and> b_end h b \<le> e"
proof (induction bs arbitrary: p)
  case (Cons a bs)
  then have s: "seg h a bs q e" "b_end h a = first bs e" by auto
  have "a \<le> b_end h a" by (simp add: b_end_def)
  with s seg_end [OF s(1)] Cons.IH [OF s(1)] Cons.prems(2) show ?case by auto
qed simp

lemma seg_less: "seg h p (b # bs) q e \<Longrightarrow> c \<in> set bs \<Longrightarrow> b_end h b \<le> c"
  using seg_bounds [of h b bs q e c] by simp

lemma seg_distinct: "seg h p bs q e \<Longrightarrow> distinct bs"
proof (induction bs arbitrary: p)
  case (Cons b bs)
  then have "b \<notin> set bs" using seg_less [of h p b bs q e b] by (auto simp: b_end_def MEM_BLOCK_SIZE_def)
  with Cons show ?case by auto
qed simp

lemma seg_blocks_disjoint:
  assumes "seg h p bs q e" "b \<in> set bs" "c \<in> set bs" "b \<noteq> c"
  shows "b_end h b \<le> c \<or> b_end h c \<le> b"
  using assms
proof (induction bs arbitrary: p)
  case (Cons a bs)
  show ?case
  proof (cases "a = b \<or> a = c")
    case True
    with Cons.prems seg_less [OF Cons.prems(1)] show ?thesis by auto
  next
    case False
    with Cons show ?thesis by auto
  qed
qed simp

lemma seg_pos: "seg h p bs q e \<Longrightarrow> b \<in> set bs \<Longrightarrow> blk_ok h b"
  by (induction bs arbitrary: p) auto

lemma seg_split_distinct:
  assumes "seg h p (xs @ b # ys) q e"
  shows "b \<notin> set xs" "b \<notin> set ys" "set xs \<inter> set ys = {}"
  using seg_distinct [OF assms] by auto

section \<open>The walks\<close>

lemma seg_sane:
  assumes "seg h 0 (xs @ b # ys) 0 e" "e < W63"
  shows "trunk_block_sane h (first (xs @ b # ys) 0) e (lastp 0 xs) b"
proof -
  have sb: "seg h (lastp 0 xs) (b # ys) 0 e" and sx: "seg h 0 xs b b"
    using assms(1) by (auto simp: seg_append)
  have ok: "blk_ok h b" using sb by simp
  have bd: "first (xs @ b # ys) e \<le> b" "b_end h b \<le> e" using seg_bounds [OF assms(1), of b] by auto
  have hd: "first (xs @ b # ys) 0 = first (xs @ b # ys) e" by (simp add: first_def split: list.split)
  have hpos: "0 < first (xs @ b # ys) 0" using seg_pos [OF assms(1)] by (cases xs) (auto simp: blk_ok_def)
  have prev: "lastp 0 xs \<noteq> 0 \<longrightarrow> mb_next (h (lastp 0 xs)) = b"
  proof (cases xs rule: rev_cases)
    case (snoc zs z)
    then show ?thesis using sx by (simp add: seg_append)
  qed simp
  have nxt: "mb_next (h b) \<noteq> 0 \<longrightarrow> trunk_ptr_in_heap (first (xs @ b # ys) 0) e (mb_next (h b)) \<and> trunk_ptr_aligned (mb_next (h b)) \<and>
      mb_next (h b) > b \<and> mb_next (h b) \<ge> b_end h b \<and> mb_prev (h (mb_next (h b))) = b"
  proof (cases ys)
    case (Cons c cs)
    have "blk_ok h c" "b_end h c \<le> e" using seg_pos [OF assms(1), of c] seg_bounds [OF assms(1), of c] Cons by auto
    then have "trunk_ptr_aligned c" "c < e" "b < c"
      using sb Cons dvd_trans [of 8 16 c]
      by (auto simp: blk_ok_def trunk_ptr_aligned_def b_end_def MEM_BLOCK_SIZE_def mod_eq_0_iff_dvd)
    then show ?thesis using sb Cons bd(1) hd hpos by (auto simp: trunk_ptr_in_heap_def)
  qed (use sb in simp)
  have "8 dvd b" using ok dvd_trans [of 8 16 b] by (simp add: blk_ok_def)
  then show ?thesis
    using ok bd hd hpos prev nxt sb assms(2)
    by (auto simp: trunk_block_sane_def Let_def blk_ok_def b_end_def trunk_ptr_in_heap_def trunk_ptr_aligned_def MEM_BLOCK_SIZE_def
        mod_eq_0_iff_dvd)
qed

lemma find_from_seg:
  assumes "seg h 0 (xs @ ys) 0 e" "e < W63" "hb = first (xs @ ys) 0" "t \<noteq> 0"
  shows "find_from h hb e t (lastp 0 xs) (first ys 0) = (if t \<in> set ys then t else 0)"
  using assms
proof (induction ys arbitrary: xs)
  case Nil
  then show ?case by (subst find_from.simps) simp
next
  case (Cons b ys)
  have s: "seg h 0 (xs @ b # ys) 0 e" using Cons.prems(1) .
  have sane: "trunk_block_sane h hb e (lastp 0 xs) b" using seg_sane [OF s Cons.prems(2)] Cons.prems(3) by simp
  have n: "mb_next (h b) = first ys 0" "b \<noteq> 0" using s by (auto simp: seg_append blk_ok_def)
  show ?case
  proof (cases "b = t")
    case True
    then show ?thesis using sane n(2) by (subst find_from.simps) simp
  next
    case False
    have "find_from h hb e t b (first ys 0) = (if t \<in> set ys then t else 0)"
      using Cons.IH [of "xs @ [b]"] Cons.prems by simp
    then show ?thesis using False sane n by (subst find_from.simps) simp
  qed
qed

lemma trunk_scan_seg:
  assumes "seg h 0 (xs @ ys) 0 e" "e < W63" "hb = first (xs @ ys) 0"
  shows "trunk_scan h hb e sz (lastp 0 xs) (first ys 0) =
    Some (case find (\<lambda>b. \<not> mb_used (h b) \<and> sz \<le> mb_size (h b)) ys of None \<Rightarrow> Exhausted | Some b \<Rightarrow> Found b)"
  using assms
proof (induction ys arbitrary: xs)
  case Nil
  then show ?case by (subst trunk_scan.simps) simp
next
  case (Cons b ys)
  have s: "seg h 0 (xs @ b # ys) 0 e" using Cons.prems(1) .
  have sane: "trunk_block_sane h hb e (lastp 0 xs) b" using seg_sane [OF s Cons.prems(2)] Cons.prems(3) by simp
  have n: "mb_next (h b) = first ys 0" "b \<noteq> 0" using s by (auto simp: seg_append blk_ok_def)
  have "trunk_scan h hb e sz b (first ys 0) =
      Some (case find (\<lambda>b. \<not> mb_used (h b) \<and> sz \<le> mb_size (h b)) ys of None \<Rightarrow> Exhausted | Some b \<Rightarrow> Found b)"
    using Cons.IH [of "xs @ [b]"] Cons.prems by simp
  then show ?case using sane n by (subst trunk_scan.simps) (auto simp: not_less)
qed

lemma free_sum_seg:
  assumes "seg h 0 (xs @ ys) 0 e" "e < W63" "hb = first (xs @ ys) 0"
    and "r + (\<Sum>b \<leftarrow> ys. if mb_used (h b) then 0 else mb_size (h b)) < W64"
  shows "free_sum h hb e r (lastp 0 xs) (first ys 0) = Some (r + (\<Sum>b \<leftarrow> ys. if mb_used (h b) then 0 else mb_size (h b)))"
  using assms
proof (induction ys arbitrary: xs r)
  case Nil
  then show ?case by (subst free_sum.simps) simp
next
  case (Cons b ys)
  have s: "seg h 0 (xs @ b # ys) 0 e" using Cons.prems(1) .
  have sane: "trunk_block_sane h hb e (lastp 0 xs) b" using seg_sane [OF s Cons.prems(2)] Cons.prems(3) by simp
  have n: "mb_next (h b) = first ys 0" "b \<noteq> 0" using s by (auto simp: seg_append blk_ok_def)
  let ?r = "if mb_used (h b) then r else (r + mb_size (h b)) mod W64"
  have r: "?r = r + (if mb_used (h b) then 0 else mb_size (h b))" using Cons.prems(4) by (auto split: if_splits)
  have "free_sum h hb e ?r b (first ys 0) = Some (?r + (\<Sum>b \<leftarrow> ys. if mb_used (h b) then 0 else mb_size (h b)))"
    using Cons.IH [of "xs @ [b]" ?r] Cons.prems r by simp
  then show ?case using sane n r by (subst free_sum.simps) (cases "mb_used (h b)"; simp)
qed

section \<open>The chain of a heap\<close>

definition chain :: "'a malloc_t \<Rightarrow> nat list \<Rightarrow> bool" where
  "chain m bs \<longleftrightarrow> seg (m_blocks m) 0 bs 0 (trunk_heap_end m) \<and> m_head m = first bs 0 \<and> m_tail m = lastp 0 bs \<and>
     trunk_heap_end m < W63"

definition coal :: "heap \<Rightarrow> nat list \<Rightarrow> bool" where
  "coal h bs \<longleftrightarrow> successively (\<lambda>a b. mb_used (h a) \<or> mb_used (h b)) bs"

definition allocs :: "heap \<Rightarrow> nat list \<Rightarrow> (nat \<times> nat) set" where
  "allocs h bs = {(b, mb_size (h b)) | b. b \<in> set bs \<and> mb_used (h b)}"

lemma upd_block_simps [simp]:
  "m_blocks (upd_block b f m) = (m_blocks m)(b := f (m_blocks m b))" "m_head (upd_block b f m) = m_head m"
  "m_tail (upd_block b f m) = m_tail m" "m_start (upd_block b f m) = m_start m" "m_arg (upd_block b f m) = m_arg m"
  "m_ops (upd_block b f m) = m_ops m" "trunk_heap_end (upd_block b f m) = trunk_heap_end m"
  by (simp_all add: upd_block_def trunk_heap_end_def)

lemma heap_end_frame [simp]:
  "trunk_heap_end (m\<lparr>m_head := a\<rparr>) = trunk_heap_end m" "trunk_heap_end (m\<lparr>m_tail := a\<rparr>) = trunk_heap_end m"
  "trunk_heap_end (m\<lparr>m_start := a\<rparr>) = trunk_heap_end m" "trunk_heap_end (m\<lparr>m_blocks := h\<rparr>) = trunk_heap_end m"
  by (simp_all add: trunk_heap_end_def)

lemma chain_start [simp]: "chain (m\<lparr>m_start := a\<rparr>) bs = chain m bs"
  by (simp add: chain_def)

lemma coal_cong: "(\<And>b. b \<in> set bs \<Longrightarrow> mb_used (h' b) = mb_used (h b)) \<Longrightarrow> coal h' bs = coal h bs"
  unfolding coal_def by (rule successively_cong) auto

lemma coal_append: "coal h (xs @ ys) \<longleftrightarrow> coal h xs \<and> coal h ys \<and> (xs = [] \<or> ys = [] \<or> mb_used (h (last xs)) \<or> mb_used (h (hd ys)))"
  unfolding coal_def by (auto simp: successively_append_iff)

lemma coal_Cons: "coal h (x # ys) \<longleftrightarrow> coal h ys \<and> (ys = [] \<or> mb_used (h x) \<or> mb_used (h (hd ys)))"
  using coal_append [of h "[x]" ys] by (auto simp: coal_def)

text \<open>Relinking the ends of a segment.\<close>

lemma seg_relink:
  assumes "seg h p ys q e" "\<And>x. x \<in> set ys \<Longrightarrow> h' x = (if x = first ys 0 then (h x)\<lparr>mb_prev := p'\<rparr> else h x)"
  shows "seg h' p' ys q e"
proof (cases ys)
  case (Cons c cs)
  have c: "h' c = (h c)\<lparr>mb_prev := p'\<rparr>" using assms(2) [of c] Cons by simp
  have "c \<notin> set cs" using seg_distinct [OF assms(1)] Cons by simp
  then have "seg h' c cs q e = seg h c cs q e" by (intro seg_cong) (use assms(2) Cons in auto)
  with assms(1) Cons c show ?thesis by (simp add: blk_ok_def b_end_def)
qed simp

lemma seg_relink_last:
  assumes "seg h p (xs @ [z]) q e" "\<And>x. x \<in> set xs \<Longrightarrow> h' x = h x" "mb_prev (h' z) = mb_prev (h z)" "blk_ok h' z"
    "mb_next (h' z) = q'" "b_end h' z = e'"
  shows "seg h' p (xs @ [z]) q' e'"
proof -
  have "seg h p xs z z" "mb_prev (h z) = lastp p xs" using assms(1) by (auto simp: seg_append)
  moreover have "seg h' p xs z z = seg h p xs z z" by (rule seg_cong) (use assms(2) in auto)
  ultimately show ?thesis using assms by (simp add: seg_append)
qed

section \<open>Splitting and merging\<close>

lemma try_break_spec:
  assumes c: "chain m (xs @ b # ys)" and sz: "16 dvd sz" "sz \<le> mb_size (m_blocks m b)" and u: "mb_used (m_blocks m b)"
    and co: "coal (m_blocks m) (xs @ b # ys)" and nx: "ys = [] \<or> mb_used (m_blocks m (hd ys))"
  shows "\<exists>bs'. chain (try_break b sz m) bs' \<and> coal (m_blocks (try_break b sz m)) bs' \<and> first bs' 0 = first (xs @ b # ys) 0 \<and>
    (\<exists>z \<ge> sz. allocs (m_blocks (try_break b sz m)) bs' = insert (b, z) (allocs (m_blocks m) (xs @ ys))) \<and>
    mb_mem (m_blocks (try_break b sz m) b) = b + MEM_BLOCK_SIZE \<and>
    m_arg (try_break b sz m) = m_arg m \<and> m_ops (try_break b sz m) = m_ops m"
proof -
  define h where "h = m_blocks m"
  define e where "e = trunk_heap_end m"
  have s: "seg h 0 (xs @ b # ys) 0 e" and e: "e < W63" using c by (auto simp: chain_def h_def e_def)
  have sx: "seg h 0 xs b b" and sb: "seg h (lastp 0 xs) (b # ys) 0 e" using s by (auto simp: seg_append)
  have ok: "blk_ok h b" using sb by simp
  have be: "b_end h b = first ys e" "b_end h b \<le> e" using sb seg_bounds [OF s, of b] by auto
  show ?thesis
  proof (cases "(MEM_BLOCK_SIZE + sz) mod W64 > mb_size (m_blocks m b) div 2")
    case True
    then have t: "try_break b sz m = m" by (simp add: try_break_def)
    have "allocs h (xs @ b # ys) = insert (b, mb_size (h b)) (allocs h (xs @ ys))" using u by (auto simp: allocs_def h_def)
    then show ?thesis unfolding t using c co ok sz(2) by (intro exI [of _ "xs @ b # ys"]) (auto simp: h_def blk_ok_def)
  next
    case False
    define n where "n = b + MEM_BLOCK_SIZE + sz"
    have big: "2 * (MEM_BLOCK_SIZE + sz) \<le> mb_size (h b)"
    proof -
      have "MEM_BLOCK_SIZE + sz < W64" using sz(2) be(2) e by (simp add: h_def b_end_def MEM_BLOCK_SIZE_def)
      then show ?thesis using False by (simp add: h_def)
    qed
    have nn: "b < n" "n < b_end h b" "n < W63" using big be(2) e by (auto simp: n_def b_end_def MEM_BLOCK_SIZE_def)
    have notin: "n \<notin> set (xs @ b # ys)"
    proof
      assume n: "n \<in> set (xs @ b # ys)"
      have "n \<noteq> b" using nn by simp
      with seg_blocks_disjoint [OF s n, of b] nn show False by (auto simp: b_end_def MEM_BLOCK_SIZE_def)
    qed
    have bnot: "b \<notin> set ys" "b \<notin> set xs" "set xs \<inter> set ys = {}" using seg_split_distinct [OF s] by auto
    have fy: "first ys 0 \<noteq> b" "first ys 0 \<noteq> n" using bnot(1) notin nn ok by (cases ys; auto simp: blk_ok_def)+
    have y0: "ys \<noteq> [] \<Longrightarrow> first ys 0 \<noteq> 0" using seg_pos [OF s] by (cases ys) (auto simp: blk_ok_def)
    define m' where "m' = try_break b sz m"
    define h' where "h' = m_blocks m'"
    have nxt: "mb_next (h b) = first ys 0" "mb_mem (h b) = b + MEM_BLOCK_SIZE" using sb ok by (auto simp: blk_ok_def)
    have p: "(mb_mem (m_blocks m b) + sz) mod W64 = n" using nxt nn(3) by (simp add: h_def n_def)
    have szn: "(mb_size (h b) - sz + W64 - MEM_BLOCK_SIZE) mod W63 = mb_size (h b) - sz - MEM_BLOCK_SIZE"
    proof -
      have "mb_size (h b) - sz + W64 - MEM_BLOCK_SIZE = (mb_size (h b) - sz - MEM_BLOCK_SIZE) + 2 * W63"
        using big by (simp add: MEM_BLOCK_SIZE_def)
      moreover have "mb_size (h b) - sz - MEM_BLOCK_SIZE < W63" using be(2) e by (simp add: b_end_def)
      ultimately show ?thesis by (simp only: mod_mult_self1 mod_less)
    qed
    have ptail: "m_tail m = b \<longleftrightarrow> ys = []"
      using c bnot(1) by (cases ys rule: rev_cases) (auto simp: chain_def)
    define B where "B = (h b)\<lparr>mb_size := sz\<rparr>"
    define N where "N = (h n)\<lparr>mb_next := 0, mb_prev := 0, mb_mem := n + MEM_BLOCK_SIZE, mb_size := mb_size (h b) - sz - MEM_BLOCK_SIZE, mb_used := False\<rparr>"
    define h3 where "h3 = h(n := N, b := B)"
    define m3 where "m3 = upd_block b (\<lambda>b. b\<lparr>mb_size := sz\<rparr>) (upd_block n (\<lambda>b. b\<lparr>mb_used := False\<rparr>)
      (gen_block n (mb_size (m_blocks m b) - sz) m))"
    have nmem: "(n + MEM_BLOCK_SIZE) mod W64 = n + MEM_BLOCK_SIZE" using nn(3) by (simp add: MEM_BLOCK_SIZE_def)
    have m3: "m_blocks m3 = h3" "m_tail m3 = m_tail m" "m_head m3 = m_head m" "m_arg m3 = m_arg m" "m_ops m3 = m_ops m"
      using nn(1) szn nmem by (auto simp: m3_def gen_block_def h3_def N_def B_def h_def [symmetric])
    define m4 where "m4 = upd_block n (\<lambda>b. b\<lparr>mb_next := first ys 0\<rparr>) m3"
    define m5 where "m5 = (if first ys 0 \<noteq> 0 then upd_block (first ys 0) (\<lambda>b. b\<lparr>mb_prev := n\<rparr>) m4 else m4)"
    define m7 where "m7 = upd_block b (\<lambda>b. b\<lparr>mb_next := n\<rparr>) (upd_block n (\<lambda>x. x\<lparr>mb_prev := b\<rparr>) m5)"
    have nx3: "mb_next (m_blocks m3 b) = first ys 0" using nn nxt by (simp add: m3 h3_def B_def)
    have m': "m' = (if m_tail m7 = b then m7\<lparr>m_tail := n\<rparr> else m7)"
      using False unfolding m'_def try_break_def p m7_def m5_def m4_def nx3 [symmetric] m3_def by (simp only: Let_def if_False)
    have M: "m_head m' = m_head m" "m_arg m' = m_arg m" "m_ops m' = m_ops m" "m_tail m' = (if ys = [] then n else m_tail m)"
      using ptail by (auto simp: m' m7_def m5_def m4_def m3)
    then have E: "trunk_heap_end m' = e" by (simp add: trunk_heap_end_def e_def)
    have h': "h' = m_blocks m7" by (simp add: h'_def m')
    have H: "h' b = B\<lparr>mb_next := n\<rparr>" "h' n = N\<lparr>mb_next := first ys 0, mb_prev := b\<rparr>"
        "\<And>x. x \<noteq> b \<Longrightarrow> x \<noteq> n \<Longrightarrow> h' x = (if x = first ys 0 \<and> x \<noteq> 0 then (h x)\<lparr>mb_prev := n\<rparr> else h x)"
      using nn(1) fy by (auto simp: h' m7_def m5_def m4_def m3 h3_def)
    have xfirst: "x \<noteq> first ys 0 \<or> x = 0" if "x \<in> set xs" for x using bnot(3) that by (cases ys) auto
    have sx': "seg h' 0 xs b b"
    proof -
      have "h' x = h x" if "x \<in> set xs" for x
      proof -
        have "x \<noteq> b" "x \<noteq> n" using that bnot(2) notin by auto
        with H(3) [of x] xfirst [OF that] show ?thesis by auto
      qed
      then show ?thesis using sx seg_cong [of xs h' h] by simp
    qed
    have sy: "seg h' n ys 0 e"
    proof (rule seg_relink)
      show "seg h b ys 0 e" using sb by simp
      show "h' x = (if x = first ys 0 then (h x)\<lparr>mb_prev := n\<rparr> else h x)" if "x \<in> set ys" for x
      proof -
        have "x \<noteq> b" "x \<noteq> n" "ys \<noteq> []" using that bnot(1) notin by auto
        with H(3) [of x] y0 show ?thesis by auto
      qed
    qed
    have okb: "blk_ok h' b" "b_end h' b = n" using ok sz(1) by (auto simp: blk_ok_def H(1) B_def b_end_def n_def)
    have dv: "16 dvd n" "16 dvd mb_size (h b) - sz - MEM_BLOCK_SIZE"
      using ok sz(1) by (auto simp: blk_ok_def n_def MEM_BLOCK_SIZE_def intro!: dvd_diff_nat)
    have okn: "blk_ok h' n" using dv nn by (simp add: blk_ok_def H(2) N_def)
    have endn: "b_end h' n = first ys e"
    proof -
      have "b_end h' n = n + MEM_BLOCK_SIZE + (mb_size (h b) - sz - MEM_BLOCK_SIZE)" by (simp add: b_end_def H(2) N_def)
      moreover have "mb_size (h b) = sz + MEM_BLOCK_SIZE + (mb_size (h b) - sz - MEM_BLOCK_SIZE)" using big by simp
      ultimately show ?thesis using be(1) unfolding n_def b_end_def by linarith
    qed
    have S: "seg h' 0 (xs @ b # n # ys) 0 e"
      using sx' sy okb okn endn sb by (simp add: seg_append H(1,2) B_def)
    have used: "mb_used (h' x) = mb_used (h x)" "mb_size (h' x) = mb_size (h x)" if "x \<in> set (xs @ ys)" for x
    proof -
      have "x \<noteq> b" "x \<noteq> n" using that bnot notin by auto
      with H(3) [of x] show "mb_used (h' x) = mb_used (h x)" "mb_size (h' x) = mb_size (h x)" by auto
    qed
    have C: "chain m' (xs @ b # n # ys)"
      using S E e M c unfolding chain_def h'_def by (cases ys) auto
    have ub: "mb_used (h' b)" using u by (simp add: H(1) B_def h_def)
    have "coal h' (xs @ b # n # ys)"
    proof -
      have "coal h' xs = coal h xs" "coal h' ys = coal h ys" using used by (auto intro!: coal_cong)
      moreover have "ys = [] \<or> mb_used (h' (hd ys))" using nx used by (cases ys) (auto simp: h_def)
      ultimately show ?thesis using co ub by (auto simp: coal_append coal_Cons h_def)
    qed
    moreover have "allocs h' (xs @ b # n # ys) = insert (b, sz) (allocs h (xs @ ys))"
    proof -
      have "mb_size (h' b) = sz" "\<not> mb_used (h' n)" by (simp_all add: H(1,2) B_def N_def)
      moreover have "allocs h' (xs @ ys) = allocs h (xs @ ys)" using used unfolding allocs_def by metis
      ultimately show ?thesis using ub by (auto simp: allocs_def)
    qed
    moreover have "mb_mem (h' b) = b + MEM_BLOCK_SIZE" using okb by (simp add: blk_ok_def)
    ultimately show ?thesis using C M unfolding m'_def [symmetric] h'_def [symmetric] h_def [symmetric]
      by (intro exI [of _ "xs @ b # n # ys"]) auto
  qed
qed

lemma absorb_spec:
  assumes c: "chain m (xs @ a # b # ys)"
  defines "m' \<equiv> absorb a b m"
  shows "chain m' (xs @ a # ys)"
    and "\<And>x. mb_used (m_blocks m' x) = mb_used (m_blocks m x)"
    and "\<And>x. x \<noteq> a \<Longrightarrow> mb_size (m_blocks m' x) = mb_size (m_blocks m x)"
    and "m_arg m' = m_arg m" "m_ops m' = m_ops m" "m_start m' = m_start m" "mb_prev (m_blocks m' a) = mb_prev (m_blocks m a)"
proof -
  define h where "h = m_blocks m"
  define e where "e = trunk_heap_end m"
  define h' where "h' = m_blocks m'"
  have s: "seg h 0 (xs @ a # b # ys) 0 e" and e: "e < W63" using c by (auto simp: chain_def h_def e_def)
  have sx: "seg h 0 xs a a" and sa: "blk_ok h a" "mb_prev (h a) = lastp 0 xs" "b_end h a = b"
    and sb: "blk_ok h b" "mb_next (h b) = first ys 0" "b_end h b = first ys e" "seg h b ys 0 e"
    using s by (auto simp: seg_append)
  have d: "distinct (xs @ a # b # ys)" by (rule seg_distinct [OF s])
  have fa: "first ys 0 \<noteq> a" using d sa(1) by (cases ys) (auto simp: blk_ok_def)
  have y0: "ys \<noteq> [] \<Longrightarrow> first ys 0 \<noteq> 0" using seg_pos [OF s] by (cases ys) (auto simp: blk_ok_def)
  have be: "b_end h b \<le> e" using seg_bounds [OF s, of b] by simp
  define A where "A = (h a)\<lparr>mb_size := mb_size (h a) + (mb_size (h b) + MEM_BLOCK_SIZE), mb_next := first ys 0\<rparr>"
  have "mb_size (h a) + (mb_size (h b) + MEM_BLOCK_SIZE) < W63" using be e sa(3) by (simp add: b_end_def)
  then have szm: "(mb_size (h a) + (mb_size (h b) + MEM_BLOCK_SIZE)) mod W63 = mb_size (h a) + (mb_size (h b) + MEM_BLOCK_SIZE)" by simp
  define m1 where "m1 = upd_block a (\<lambda>x. x\<lparr>mb_size := (mb_size x + (mb_size (m_blocks m b) + MEM_BLOCK_SIZE)) mod W63, mb_next := first ys 0\<rparr>) m"
  have m1: "m_blocks m1 = h(a := A)" "m_tail m1 = m_tail m" "m_head m1 = m_head m" "m_arg m1 = m_arg m" "m_ops m1 = m_ops m" "m_start m1 = m_start m"
    using szm by (simp_all add: m1_def A_def h_def)
  have m': "m' = (if first ys 0 \<noteq> 0 then upd_block (first ys 0) (\<lambda>x. x\<lparr>mb_prev := a\<rparr>) m1 else m1\<lparr>m_tail := a\<rparr>)"
    unfolding m'_def absorb_def sb(2) [unfolded h_def] m1_def by (simp only: Let_def)
  have M: "m_head m' = m_head m" "m_arg m' = m_arg m" "m_ops m' = m_ops m" "m_start m' = m_start m"
      "m_tail m' = (if ys = [] then a else m_tail m)"
    using y0 by (auto simp: m' m1)
  then have E: "trunk_heap_end m' = e" by (simp add: trunk_heap_end_def e_def)
  have H: "h' a = A" "\<And>x. x \<noteq> a \<Longrightarrow> h' x = (if x = first ys 0 \<and> x \<noteq> 0 then (h x)\<lparr>mb_prev := a\<rparr> else h x)"
    using fa by (auto simp: h'_def m' m1)
  have xfirst: "x \<noteq> first ys 0 \<or> x = 0" if "x \<in> set xs" for x using d that by (cases ys) auto
  have sx': "seg h' 0 xs a a"
  proof -
    have "h' x = h x" if "x \<in> set xs" for x
    proof -
      have "x \<noteq> a" using that d by auto
      with H(2) [of x] xfirst [OF that] show ?thesis by auto
    qed
    then show ?thesis using sx seg_cong [of xs h' h] by simp
  qed
  have sy: "seg h' a ys 0 e"
  proof (rule seg_relink [OF sb(4)])
    show "h' x = (if x = first ys 0 then (h x)\<lparr>mb_prev := a\<rparr> else h x)" if "x \<in> set ys" for x
    proof -
      have "x \<noteq> a" "ys \<noteq> []" using that d by auto
      with H(2) [of x] y0 show ?thesis by auto
    qed
  qed
  have ea: "b_end h' a = first ys e" using sa(3) sb(3) by (simp add: b_end_def H(1) A_def)
  have oka: "blk_ok h' a" using sa(1) sb(1) by (auto simp: blk_ok_def H(1) A_def MEM_BLOCK_SIZE_def)
  have "seg h' 0 (xs @ a # ys) 0 e" using sx' sy ea oka sa(2) by (simp add: seg_append H(1) A_def)
  then show "chain m' (xs @ a # ys)" using E e M c unfolding chain_def h'_def by (cases ys) auto
  show "mb_used (m_blocks m' x) = mb_used (m_blocks m x)" for x
    using H [unfolded h'_def] by (cases "x = a") (auto simp: A_def h_def)
  show "mb_size (m_blocks m' x) = mb_size (m_blocks m x)" if "x \<noteq> a" for x
    using H(2) [unfolded h'_def, OF that] by (auto simp: h_def)
  show "m_arg m' = m_arg m" "m_ops m' = m_ops m" "m_start m' = m_start m" by (rule M)+
  show "mb_prev (m_blocks m' a) = mb_prev (m_blocks m a)" using H(1) by (simp add: h'_def [symmetric] A_def h_def)
qed

lemma chain_links:
  assumes "chain m (xs @ b # ys)"
  shows "mb_next (m_blocks m b) = first ys 0" "mb_prev (m_blocks m b) = lastp 0 xs" "0 < b"
    "ys \<noteq> [] \<Longrightarrow> 0 < first ys 0" "xs \<noteq> [] \<Longrightarrow> 0 < lastp 0 xs"
proof -
  have s: "seg (m_blocks m) 0 (xs @ b # ys) 0 (trunk_heap_end m)" using assms by (simp add: chain_def)
  then show "mb_next (m_blocks m b) = first ys 0" "mb_prev (m_blocks m b) = lastp 0 xs" "0 < b" by (auto simp: seg_append blk_ok_def)
  show "ys \<noteq> [] \<Longrightarrow> 0 < first ys 0" using seg_pos [OF s] by (cases ys) (auto simp: blk_ok_def)
  show "xs \<noteq> [] \<Longrightarrow> 0 < lastp 0 xs" using seg_pos [OF s] by (cases xs rule: rev_cases) (auto simp: blk_ok_def)
qed

text \<open>Merging a free block with its free neighbours: no two adjacent blocks stay free.\<close>

lemma try_merge_spec:
  assumes c: "chain m (xs @ b # ys)" and f: "\<not> mb_used (m_blocks m b)" and co: "coal (m_blocks m) xs" "coal (m_blocks m) ys"
    and t: "try_merge b m = (r, m')"
  shows "\<exists>us ws. chain m' (us @ r # ws) \<and> coal (m_blocks m') (us @ r # ws) \<and> \<not> mb_used (m_blocks m' r) \<and>
    first (us @ r # ws) 0 = first (xs @ b # ys) 0 \<and> allocs (m_blocks m') (us @ r # ws) = allocs (m_blocks m) (xs @ ys) \<and>
    m_arg m' = m_arg m \<and> m_ops m' = m_ops m \<and> m_start m' = m_start m"
proof -
  let ?b = "mb_next (m_blocks m b)"
  define m1 where "m1 = (if ?b \<noteq> 0 \<and> \<not> mb_used (m_blocks m ?b) then absorb b ?b m else m)"
  note l = chain_links [OF c]
  have d: "distinct (xs @ b # ys)" using c seg_distinct unfolding chain_def by blast
  obtain ws where w: "chain m1 (xs @ b # ws)" "\<And>x. mb_used (m_blocks m1 x) = mb_used (m_blocks m x)"
    "\<And>x. x \<noteq> b \<Longrightarrow> mb_size (m_blocks m1 x) = mb_size (m_blocks m x)" "m_arg m1 = m_arg m" "m_ops m1 = m_ops m" "m_start m1 = m_start m"
    "mb_prev (m_blocks m1 b) = mb_prev (m_blocks m b)" "ws = [] \<or> mb_used (m_blocks m (hd ws))"
    "ys = ws \<or> (\<exists>y. ys = y # ws \<and> \<not> mb_used (m_blocks m y))"
  proof (cases "?b \<noteq> 0 \<and> \<not> mb_used (m_blocks m ?b)")
    case True
    then obtain y zs where ys: "ys = y # zs" using l(1) by (cases ys) auto
    have y: "?b = y" "\<not> mb_used (m_blocks m y)" using l(1) ys True by auto
    have "zs = [] \<or> mb_used (m_blocks m (hd zs))" using co(2) y(2) ys by (simp add: coal_Cons)
    moreover have e: "m1 = absorb b y m" using True y(1) by (simp add: m1_def)
    ultimately show thesis using that [of zs] absorb_spec [OF c [unfolded ys]] y ys by (simp add: e)
  next
    case False
    then have "ys = [] \<or> mb_used (m_blocks m (hd ys))" using l(1,4) by (cases ys) auto
    moreover have e: "m1 = m" using False by (simp only: m1_def if_False)
    ultimately show thesis using that [of ys] c by (simp add: e)
  qed
  have cw: "coal (m_blocks m) ws" using co(2) w(9) by (auto simp: coal_Cons)
  have al: "allocs (m_blocks m) (xs @ ws) = allocs (m_blocks m) (xs @ ys)" using w(9) by (auto simp: allocs_def)
  have bw: "b \<notin> set (xs @ ws)" using d w(9) by auto
  let ?a = "mb_prev (m_blocks m1 b)"
  have pa: "?a = lastp 0 xs" using w(7) l(2) by simp
  have t': "(r, m') = (if ?a \<noteq> 0 \<and> \<not> mb_used (m_blocks m1 ?a) then (?a, absorb ?a b m1) else (b, m1))"
    using t unfolding try_merge_def m1_def Let_def by simp
  show ?thesis
  proof (cases "?a \<noteq> 0 \<and> \<not> mb_used (m_blocks m1 ?a)")
    case True
    then obtain us a where xs: "xs = us @ [a]" using pa by (cases xs rule: rev_cases) auto
    have a: "?a = a" "\<not> mb_used (m_blocks m a)" using pa xs True w(2) by auto
    have r: "r = a" "m' = absorb a b m1" using t' True a by auto
    have c1: "chain m1 (us @ a # b # ws)" using w(1) xs by simp
    note ab = absorb_spec [OF c1, folded r(2)]
    have U: "mb_used (m_blocks m' x) = mb_used (m_blocks m x)" for x using ab(2) w(2) by simp
    have S: "mb_size (m_blocks m' x) = mb_size (m_blocks m x)" if "x \<noteq> a" "x \<noteq> b" for x using ab(3) w(3) that by simp
    have cu: "coal (m_blocks m) us" "us = [] \<or> mb_used (m_blocks m (last us))" using co(1) xs a(2) by (auto simp: coal_append)
    have "coal (m_blocks m') (us @ a # ws) = coal (m_blocks m) (us @ a # ws)" by (rule coal_cong) (simp add: U)
    then have "coal (m_blocks m') (us @ a # ws)" using cu cw w(8) by (auto simp: coal_append coal_Cons)
    moreover have "allocs (m_blocks m') (us @ a # ws) = allocs (m_blocks m) (xs @ ws)"
    proof -
      have "(x, mb_size (m_blocks m' x)) = (x, mb_size (m_blocks m x))" if "x \<in> set (us @ ws)" for x
      proof -
        have "x \<noteq> a" "x \<noteq> b" using that bw xs d w(9) by auto
        then show ?thesis using S by simp
      qed
      then have "allocs (m_blocks m') (us @ ws) = allocs (m_blocks m) (us @ ws)" unfolding allocs_def U by force
      moreover have "allocs (m_blocks m') (us @ a # ws) = allocs (m_blocks m') (us @ ws)" using a(2) U by (auto simp: allocs_def)
      moreover have "allocs (m_blocks m) (xs @ ws) = allocs (m_blocks m) (us @ ws)" using a(2) xs by (auto simp: allocs_def)
      ultimately show ?thesis by simp
    qed
    ultimately show ?thesis
      using ab(1,4,5,6) w(4,5,6) a(2) U al xs unfolding r(1)
      by (intro exI [of _ us] exI [of _ ws]) simp
  next
    case False
    have r: "r = b" "m' = m1" using t' False by auto
    have xu: "xs = [] \<or> mb_used (m_blocks m (last xs))" using False pa w(2) l(5) by (cases xs rule: rev_cases) auto
    have "coal (m_blocks m1) (xs @ b # ws) = coal (m_blocks m) (xs @ b # ws)" by (rule coal_cong) (simp add: w(2))
    then have "coal (m_blocks m1) (xs @ b # ws)" using co(1) xu cw w(8) by (auto simp: coal_append coal_Cons)
    moreover have "allocs (m_blocks m1) (xs @ b # ws) = allocs (m_blocks m) (xs @ ws)"
    proof -
      have "mb_size (m_blocks m1 x) = mb_size (m_blocks m x)" if "x \<in> set (xs @ ws)" for x using w(3) [of x] that bw by auto
      then show ?thesis using f unfolding allocs_def w(2) by force
    qed
    ultimately show ?thesis using w(1,4,5,6) f w(2) al unfolding r
      by (intro exI [of _ xs] exI [of _ ws]) simp
  qed
qed

end
