(* ===== verification/Trunk_Props.thy ===== *)
theory Trunk_Props
  imports Trunk_Chain
begin

text \<open>
  Correctness of the block allocator over any provider of heap pages, and of the kernel heap in
  particular.
\<close>

section \<open>Auxiliary facts\<close>

lemma seg_cong_links:
  "(\<And>b. b \<in> set bs \<Longrightarrow> mb_next (h' b) = mb_next (h b) \<and> mb_prev (h' b) = mb_prev (h b) \<and> mb_size (h' b) = mb_size (h b) \<and>
      mb_mem (h' b) = mb_mem (h b)) \<Longrightarrow> seg h' p bs q e = seg h p bs q e"
proof (induction bs arbitrary: p)
  case (Cons b bs)
  then show ?case by (simp add: blk_ok_def b_end_def)
qed simp

lemma chain_set_used [simp]: "chain (upd_block b (\<lambda>x. x\<lparr>mb_used := u\<rparr>) m) bs = chain m bs"
proof -
  have "seg ((m_blocks m)(b := (m_blocks m b)\<lparr>mb_used := u\<rparr>)) 0 bs 0 (trunk_heap_end m) = seg (m_blocks m) 0 bs 0 (trunk_heap_end m)"
    by (rule seg_cong_links) auto
  then show ?thesis by (simp add: chain_def)
qed

lemma coal_all_free: "coal h bs \<Longrightarrow> (\<And>b. b \<in> set bs \<Longrightarrow> \<not> mb_used (h b)) \<Longrightarrow> bs = [] \<or> (\<exists>b. bs = [b])"
  by (cases bs; cases "tl bs") (auto simp: coal_Cons)

lemma allocs_empty: "allocs h bs = {} \<longleftrightarrow> (\<forall>b \<in> set bs. \<not> mb_used (h b))"
  by (auto simp: allocs_def)

lemma chain_find_block:
  assumes "chain m bs" "t \<noteq> 0"
  shows "trunk_find_block m t = (if t \<in> set bs then t else 0)"
proof (cases bs)
  case Nil
  with assms show ?thesis by (simp add: trunk_find_block_def trunk_heap_begin_def chain_def)
next
  case (Cons b cs)
  have s: "seg (m_blocks m) 0 bs 0 (trunk_heap_end m)" "trunk_heap_end m < W63" "m_head m = first bs 0" using assms(1) by (auto simp: chain_def)
  have b: "0 < b" "b < trunk_heap_end m" using seg_pos [OF s(1), of b] seg_bounds [OF s(1), of b] Cons
    by (auto simp: blk_ok_def b_end_def MEM_BLOCK_SIZE_def)
  from find_from_seg [of "m_blocks m" "[]" bs "trunk_heap_end m" "first bs 0" t] s b assms(2) Cons
  show ?thesis by (simp add: trunk_find_block_def trunk_heap_begin_def)
qed

lemma chain_find_block_0 [simp]: "trunk_find_block m 0 = 0"
  by (simp add: trunk_find_block_def)

text \<open>The search of \<open>trunk_malloc\<close> starts at the cursor when it is still a block, else at the head.\<close>

definition search_list :: "'a malloc_t \<Rightarrow> nat list \<Rightarrow> nat list" where
  "search_list m bs = (if m_start m \<in> set bs then dropWhile (\<lambda>b. b \<noteq> m_start m) bs else bs)"

lemma search_list_suffix: "\<exists>xs. bs = xs @ search_list m bs"
  unfolding search_list_def by (metis append_Nil takeWhile_dropWhile_id)

lemma malloc_scan:
  assumes c: "chain m bs"
  defines "found \<equiv> (if m_start m = 0 then 0 else trunk_find_block m (m_start m))"
  shows "trunk_scan (m_blocks m) (trunk_heap_begin m) (trunk_heap_end m) sz (if found = 0 then 0 else mb_prev (m_blocks m found))
     (if found = 0 then m_head m else found) =
    Some (case find (\<lambda>b. \<not> mb_used (m_blocks m b) \<and> sz \<le> mb_size (m_blocks m b)) (search_list m bs) of None \<Rightarrow> Exhausted | Some b \<Rightarrow> Found b)"
proof -
  have s: "seg (m_blocks m) 0 bs 0 (trunk_heap_end m)" "trunk_heap_end m < W63" "m_head m = first bs 0" using c by (auto simp: chain_def)
  have z: "0 \<notin> set bs" using seg_pos [OF s(1)] by (auto simp: blk_ok_def)
  show ?thesis
  proof (cases "m_start m \<in> set bs")
    case True
    then have nz: "m_start m \<noteq> 0" using z by metis
    then have f: "found = m_start m" "m_start m \<noteq> 0" using True chain_find_block [OF c] by (auto simp: found_def)
    obtain xs ys where bs: "bs = xs @ m_start m # ys" "m_start m \<notin> set xs" using split_list_first [OF True] by blast
    have "\<forall>x \<in> set xs. x \<noteq> m_start m" using bs(2) by blast
    then have "dropWhile (\<lambda>b. b \<noteq> m_start m) (xs @ m_start m # ys) = m_start m # ys" by (simp add: dropWhile_append2)
    then have sl: "search_list m bs = m_start m # ys" using True bs(1) by (simp add: search_list_def)
    have prev: "mb_prev (m_blocks m (m_start m)) = lastp 0 xs" using chain_links(2) c bs(1) by blast
    from trunk_scan_seg [of "m_blocks m" xs "m_start m # ys" "trunk_heap_end m" "first bs 0" sz] s bs(1) f prev sl
    show ?thesis by (simp add: trunk_heap_begin_def)
  next
    case False
    then have f: "found = 0" using chain_find_block [OF c] by (auto simp: found_def)
    have sl: "search_list m bs = bs" using False by (simp add: search_list_def)
    from trunk_scan_seg [of "m_blocks m" "[]" bs "trunk_heap_end m" "first bs 0" sz] s f sl
    show ?thesis by (simp add: trunk_heap_begin_def)
  qed
qed

lemma align16:
  assumes "unat s < W64 - 16"
  shows "16 dvd unat (ALIGN_UP s 16)" "unat s \<le> unat (ALIGN_UP s 16)" "unat (ALIGN_UP s 16) < unat s + 16"
proof -
  let ?y = "s + 15"
  have y: "unat ?y = unat s + 15" using assms by (simp add: unat_word_ariths)
  have m: "(16 :: u64) - 1 = mask 4" by (simp add: mask_eq_exp_minus_1)
  have "?y - take_bit 4 ?y = ?y AND NOT (take_bit 4 ?y)"
    by (rule disjunctive_diff_eq_and_not) (simp add: bit_eq_iff bit_simps)
  also have "\<dots> = ?y AND NOT (mask 4)" by (rule bit_eqI) (auto simp: bit_simps simp del: mask_numeral)
  finally have e: "ALIGN_UP s 16 = ?y - ?y mod 16" unfolding ALIGN_UP_def m
    by (simp add: take_bit_eq_mod add.commute)
  have "?y mod 16 \<le> ?y" by (simp add: word_le_nat_alt unat_mod)
  then have u: "unat (ALIGN_UP s 16) = unat ?y - unat ?y mod 16" unfolding e by (simp add: unat_sub unat_mod)
  show "16 dvd unat (ALIGN_UP s 16)" unfolding u by (simp add: minus_mod_eq_mult_div)
  show "unat s \<le> unat (ALIGN_UP s 16)" "unat (ALIGN_UP s 16) < unat s + 16" unfolding u y by presburger+
qed

lemma as_int32_small: "n < 2 ^ 31 \<Longrightarrow> as_int32 n = int n"
  by (simp add: as_int32_def signed_of_nat signed_take_bit_int_eq_self)


section \<open>The page provider\<close>

text \<open>What the allocator relies on: growing and shrinking by \<open>n\<close> pages moves the end of the heap by exactly
  that much, as long as the heap stays below 2 GB.\<close>

locale heap_provider =
  fixes ops :: "'a trunk_ops" and wf :: "'a \<Rightarrow> bool" and base :: "'a \<Rightarrow> nat"
  assumes tail_bounds: "wf a \<Longrightarrow> 0 < base a \<and> base a \<le> op_get_mem_tail ops a \<and> op_get_mem_tail ops a < W63 \<and>
      PAGE_SIZE dvd base a \<and> PAGE_SIZE dvd op_get_mem_tail ops a \<and> op_get_mem_tail ops a - base a < 2 ^ 31"
    and expand: "\<lbrakk>wf a; 0 < n; n < 2 ^ 19; op_expand ops (int n) a = (r, a')\<rbrakk> \<Longrightarrow> wf a' \<and> base a' = base a \<and>
      (if r = 0 then op_get_mem_tail ops a' = op_get_mem_tail ops a + n * PAGE_SIZE else a' = a)"
    and shrink: "\<lbrakk>wf a; n * PAGE_SIZE \<le> op_get_mem_tail ops a - base a\<rbrakk> \<Longrightarrow> wf (op_shrink ops (int n) a) \<and>
      base (op_shrink ops (int n) a) = base a \<and> op_get_mem_tail ops (op_shrink ops (int n) a) = op_get_mem_tail ops a - n * PAGE_SIZE"
begin

text \<open>The invariant: the chain tiles the heap from its base, no two neighbours are both free, and a heap
  without live blocks is empty.\<close>

definition tm_inv :: "'a malloc_t \<Rightarrow> nat list \<Rightarrow> bool" where
  "tm_inv m bs \<longleftrightarrow> m_ops m = ops \<and> wf (m_arg m) \<and> chain m bs \<and> coal (m_blocks m) bs \<and>
     first bs (trunk_heap_end m) = base (m_arg m) \<and> (allocs (m_blocks m) bs = {} \<longrightarrow> bs = [])"

lemma inv_end: "tm_inv m bs \<Longrightarrow> trunk_heap_end m = op_get_mem_tail ops (m_arg m)"
  by (simp add: tm_inv_def trunk_heap_end_def)

lemma first_eq: "first xs 0 = first ys 0 \<Longrightarrow> xs \<noteq> [] \<Longrightarrow> ys \<noteq> [] \<Longrightarrow> first xs d = first ys e"
  by (cases xs; cases ys) auto

lemma expand_ok:
  assumes inv: "tm_inv m bs" and sz: "16 dvd sz" "sz < 2 ^ 31 - 2 * PAGE_SIZE" and t: "trunk_expand sz m = (p, m')"
  shows "p = 0 \<and> m' = m \<or>
    p \<noteq> 0 \<and> 16 dvd p \<and> (\<exists>bs' z. tm_inv m' bs' \<and> sz \<le> z \<and> p - MEM_BLOCK_SIZE \<notin> set bs \<and>
      allocs (m_blocks m') bs' = insert (p - MEM_BLOCK_SIZE, z) (allocs (m_blocks m) bs))"
proof -
  define h where "h = m_blocks m"
  define e where "e = trunk_heap_end m"
  define n where "n = (sz + MEM_BLOCK_SIZE) div PAGE_SIZE + (if (sz + MEM_BLOCK_SIZE) mod PAGE_SIZE > 0 then 1 else 0)"
  have opsm: "m_ops m = ops" and wf: "wf (m_arg m)" and c: "chain m bs" and co: "coal h bs" and bse: "first bs e = base (m_arg m)"
    using inv by (auto simp: tm_inv_def h_def e_def)
  note tb = tail_bounds [OF wf]
  have eo: "op_get_mem_tail ops (m_arg m) = e" using inv_end [OF inv] by (simp add: e_def)
  have n1: "0 < n" "n < 2 ^ 19" "sz + MEM_BLOCK_SIZE \<le> n * PAGE_SIZE"
    using sz(2) by (auto simp: n_def PAGE_SIZE_def MEM_BLOCK_SIZE_def)
  have small: "(sz + MEM_BLOCK_SIZE) mod W64 = sz + MEM_BLOCK_SIZE" "n mod 2 ^ 32 = n" using sz(2) n1(2) by (simp_all add: MEM_BLOCK_SIZE_def)
  have i32: "as_int32 n = int n" using n1(2) by (intro as_int32_small) simp
  obtain r a where ra: "op_expand ops (int n) (m_arg m) = (r, a)" by fastforce
  note ex = expand [OF wf n1(1,2) ra]
  show ?thesis
  proof (cases "r = 0")
    case False
    then have "m' = m\<lparr>m_arg := a\<rparr>" "p = 0"
      using t False by (simp_all only: trunk_expand_def Let_def small n_def [symmetric] opsm i32 ra prod.case if_True simp_thms prod.inject)
    moreover have "a = m_arg m" using ex False by simp
    ultimately show ?thesis by simp
  next
    case True
    have a: "wf a" "base a = base (m_arg m)" "op_get_mem_tail ops a = e + n * PAGE_SIZE" using ex True eo by auto
    have bound: "e + n * PAGE_SIZE < W63" using tail_bounds [OF a(1)] a(3) by simp
    have s: "seg h 0 bs 0 e" and mh: "m_head m = first bs 0" and mt: "m_tail m = lastp 0 bs" using c by (auto simp: chain_def h_def e_def)
    have ept: "0 < e" "16 dvd e" using tb eo dvd_trans [of 16 PAGE_SIZE e] by (auto simp: PAGE_SIZE_def)
    have enot: "e \<notin> set bs" using seg_bounds [OF s, of e] by (auto simp: b_end_def MEM_BLOCK_SIZE_def)
    have hz: "m_head m = 0 \<longleftrightarrow> bs = []" "m_tail m = 0 \<longleftrightarrow> bs = []"
    proof -
      have z: "0 \<notin> set bs" using seg_pos [OF s] by (auto simp: blk_ok_def)
      show "m_head m = 0 \<longleftrightarrow> bs = []" using z mh by (cases bs) auto
      show "m_tail m = 0 \<longleftrightarrow> bs = []" using z mt by (cases bs rule: rev_cases) auto
    qed
    define E where "E = (h e)\<lparr>mb_next := 0, mb_prev := 0, mb_mem := e + MEM_BLOCK_SIZE, mb_size := n * PAGE_SIZE - MEM_BLOCK_SIZE, mb_used := True\<rparr>"
    have psz: "(n * PAGE_SIZE + W64 - MEM_BLOCK_SIZE) mod W63 = n * PAGE_SIZE - MEM_BLOCK_SIZE"
    proof -
      have "n * PAGE_SIZE + W64 - MEM_BLOCK_SIZE = (n * PAGE_SIZE - MEM_BLOCK_SIZE) + 2 * W63" using n1(3) by simp
      moreover have "n * PAGE_SIZE - MEM_BLOCK_SIZE < W63" using bound by simp
      ultimately show ?thesis by (simp only: mod_mult_self1 mod_less)
    qed
    have pmem: "(e + MEM_BLOCK_SIZE) mod W64 = e + MEM_BLOCK_SIZE" using bound by (simp add: MEM_BLOCK_SIZE_def)
    define m1 where "m1 = upd_block e (\<lambda>b. b\<lparr>mb_used := True\<rparr>) (gen_block e (n * PAGE_SIZE) (m\<lparr>m_arg := a\<rparr>))"
    have m1: "m_blocks m1 = h(e := E)" "m_head m1 = m_head m" "m_tail m1 = m_tail m" "m_arg m1 = a" "m_ops m1 = ops"
      using psz pmem opsm by (simp_all add: m1_def gen_block_def E_def h_def)
    define m2 where "m2 = (if m_head m1 = 0 then m1\<lparr>m_head := e\<rparr> else m1)"
    define m3 where "m3 = (if m_tail m2 = 0 then m2\<lparr>m_tail := e\<rparr>
      else (upd_block e (\<lambda>b. b\<lparr>mb_prev := m_tail m2\<rparr>) (upd_block (m_tail m2) (\<lambda>b. b\<lparr>mb_next := e\<rparr>) m2))\<lparr>m_tail := e\<rparr>)"
    have pm: "(p, m') = (mb_mem (m_blocks (try_break e sz m3) e), (try_break e sz m3)\<lparr>m_start := mb_next (m_blocks (try_break e sz m3) e)\<rparr>)"
      using t True unfolding m3_def m2_def m1_def
      by (simp only: trunk_expand_def small n_def [symmetric] opsm i32 ra eo Let_def prod.case if_False not_True_eq_False) simp
    have m2: "m_blocks m2 = h(e := E)" "m_head m2 = first (bs @ [e]) 0" "m_tail m2 = lastp 0 bs" "m_arg m2 = a" "m_ops m2 = ops"
      using m1 hz(1) mh mt by (auto simp: m2_def first_def split: list.split)
    have ent: "lastp 0 bs \<noteq> e" using enot ept by (cases bs rule: rev_cases) auto
    have m3: "m_head m3 = first (bs @ [e]) 0" "m_tail m3 = e" "m_arg m3 = a" "m_ops m3 = ops"
      "m_blocks m3 = (if bs = [] then h(e := E) else (h(e := E))(lastp 0 bs := (h (lastp 0 bs))\<lparr>mb_next := e\<rparr>, e := E\<lparr>mb_prev := lastp 0 bs\<rparr>))"
      using m2 hz(2) mt ent by (auto simp: m3_def)
    define h3 where "h3 = m_blocks m3"
    have e3: "trunk_heap_end m3 = e + n * PAGE_SIZE" using m3 a(3) by (simp add: trunk_heap_end_def)
    have hE: "h3 e = E\<lparr>mb_prev := lastp 0 bs\<rparr>" using ent by (auto simp: h3_def m3(5) E_def)
    have sbs: "seg h3 0 bs e e"
    proof (cases bs rule: rev_cases)
      case (snoc zs z)
      have d: "z \<notin> set zs" "z \<noteq> e" using seg_distinct [OF s] enot snoc by auto
      have hz': "h3 z = (h z)\<lparr>mb_next := e\<rparr>" using snoc d by (simp add: h3_def m3(5))
      have "blk_ok h z" "b_end h z = e" using s snoc by (auto simp: seg_append)
      then have z: "mb_prev (h3 z) = mb_prev (h z)" "blk_ok h3 z" "mb_next (h3 z) = e" "b_end h3 z = e"
        by (simp_all add: hz' blk_ok_def b_end_def)
      have zs: "h3 x = h x" if "x \<in> set zs" for x
      proof -
        have "x \<noteq> e" "x \<noteq> lastp 0 bs" using that d enot snoc by auto
        then show ?thesis by (simp add: h3_def m3(5))
      qed
      show ?thesis unfolding snoc by (rule seg_relink_last [OF s [unfolded snoc] zs z])
    qed simp
    have okE: "blk_ok h3 e" "b_end h3 e = e + n * PAGE_SIZE" using ept n1(3) by (auto simp: blk_ok_def b_end_def hE E_def PAGE_SIZE_def MEM_BLOCK_SIZE_def)
    have c3: "chain m3 (bs @ [e])"
      using sbs okE e3 bound m3 unfolding chain_def h3_def [symmetric] by (simp add: seg_append hE E_def)
    have used: "mb_used (h3 x) = mb_used (h x)" "mb_size (h3 x) = mb_size (h x)" if "x \<in> set bs" for x
      using that enot by (auto simp: h3_def m3(5))
    have uE: "mb_used (h3 e)" by (simp add: hE E_def)
    have "coal h3 bs" using co coal_cong [of bs h3 h] used by simp
    then have co3: "coal h3 (bs @ [e])" using uE by (auto simp: coal_append coal_def [of h3 "[e]"])
    have "sz \<le> mb_size (h3 e)" using n1(3) by (simp add: hE E_def)
    from try_break_spec [OF c3 sz(1) this [unfolded h3_def] uE [unfolded h3_def] co3 [unfolded h3_def]]
    obtain bs' z where b': "chain (try_break e sz m3) bs'" "coal (m_blocks (try_break e sz m3)) bs'" "first bs' 0 = first (bs @ [e]) 0"
      "sz \<le> z" "allocs (m_blocks (try_break e sz m3)) bs' = insert (e, z) (allocs (m_blocks m3) (bs @ []))"
      "mb_mem (m_blocks (try_break e sz m3) e) = e + MEM_BLOCK_SIZE" "m_arg (try_break e sz m3) = a" "m_ops (try_break e sz m3) = ops"
      using m3 by (auto simp: h3_def)
    have al: "allocs (m_blocks m3) bs = allocs h bs" using used unfolding allocs_def h3_def by metis
    have ne: "bs' \<noteq> []" using b'(5) by (auto simp: allocs_def)
    have "first bs' (trunk_heap_end m') = first (bs @ [e]) e" using first_eq [OF b'(3) ne] by simp
    then have fb: "first bs' (trunk_heap_end m') = base a" using bse a(2) by simp
    have "tm_inv m' bs'"
      using b' fb a(1) pm by (auto simp: tm_inv_def)
    then show ?thesis using pm b' al enot ept by (auto simp: h_def MEM_BLOCK_SIZE_def)
  qed
qed

lemma malloc_found:
  assumes inv: "tm_inv m bs" and sz: "16 dvd sz" and b: "b \<in> set bs" "\<not> mb_used (m_blocks m b)" "sz \<le> mb_size (m_blocks m b)"
  defines "m1 \<equiv> try_break b sz (upd_block b (\<lambda>x. x\<lparr>mb_used := True\<rparr>) m)"
  shows "mb_mem (m_blocks m1 b) = b + MEM_BLOCK_SIZE \<and> 16 dvd b \<and> (\<exists>bs' z. tm_inv (m1\<lparr>m_start := q\<rparr>) bs' \<and> sz \<le> z \<and>
    allocs (m_blocks m1) bs' = insert (b, z) (allocs (m_blocks m) bs))"
proof -
  define m0 where "m0 = upd_block b (\<lambda>x. x\<lparr>mb_used := True\<rparr>) m"
  have c: "chain m bs" and co: "coal (m_blocks m) bs" using inv by (auto simp: tm_inv_def)
  obtain xs ys where bs: "bs = xs @ b # ys" using b(1) by (auto dest: split_list)
  have s: "seg (m_blocks m) 0 (xs @ b # ys) 0 (trunk_heap_end m)" using c bs by (simp add: chain_def)
  have d: "b \<notin> set xs" "b \<notin> set ys" using seg_split_distinct [OF s] by auto
  have c0: "chain m0 (xs @ b # ys)" using c bs by (simp add: m0_def)
  have b0: "mb_used (m_blocks m0 b)" "sz \<le> mb_size (m_blocks m0 b)" "\<And>x. x \<noteq> b \<Longrightarrow> m_blocks m0 x = m_blocks m x"
    using b by (auto simp: m0_def)
  have coy: "coal (m_blocks m) xs" "coal (m_blocks m) ys" "ys = [] \<or> mb_used (m_blocks m (hd ys))" "xs = [] \<or> mb_used (m_blocks m (last xs))"
    using co bs b(2) by (auto simp: coal_append coal_Cons)
  have hdy: "ys = [] \<or> mb_used (m_blocks m0 (hd ys))" using coy(3) d b0(3) by (cases ys) auto
  have "coal (m_blocks m0) xs = coal (m_blocks m) xs" "coal (m_blocks m0) ys = coal (m_blocks m) ys"
    by (rule coal_cong; use d b0(3) in metis)+
  then have co0: "coal (m_blocks m0) (xs @ b # ys)" using coy b0(1) by (auto simp: coal_append coal_Cons)
  from try_break_spec [OF c0 sz b0(2,1) co0 hdy]
  obtain bs' z where b': "chain m1 bs'" "coal (m_blocks m1) bs'" "first bs' 0 = first (xs @ b # ys) 0" "sz \<le> z"
    "allocs (m_blocks m1) bs' = insert (b, z) (allocs (m_blocks m0) (xs @ ys))" "mb_mem (m_blocks m1 b) = b + MEM_BLOCK_SIZE"
    "m_arg m1 = m_arg m" "m_ops m1 = m_ops m"
    unfolding m1_def m0_def by auto
  have al: "allocs (m_blocks m0) (xs @ ys) = allocs (m_blocks m) bs"
  proof -
    have "m_blocks m0 x = m_blocks m x" if "x \<in> set (xs @ ys)" for x using b0(3) [of x] that d by auto
    then have "allocs (m_blocks m0) (xs @ ys) = allocs (m_blocks m) (xs @ ys)" unfolding allocs_def by metis
    also have "\<dots> = allocs (m_blocks m) bs" using bs b(2) by (auto simp: allocs_def)
    finally show ?thesis .
  qed
  have "0 < b" "16 dvd b" using seg_pos [OF s, of b] by (auto simp: blk_ok_def)
  have ne: "bs' \<noteq> []" using b'(5) by (auto simp: allocs_def)
  have "first bs' (trunk_heap_end m1) = first bs (trunk_heap_end m)" using first_eq [OF b'(3) ne] bs by simp
  then have "tm_inv (m1\<lparr>m_start := q\<rparr>) bs'" using b' inv by (simp add: tm_inv_def)
  then show ?thesis using b'(4,5,6) al \<open>16 dvd b\<close> by blast
qed

text \<open>\<open>trunk_malloc\<close> returns; it fails only by leaving the heap as it was, and a success adds one live block
  with an aligned payload of at least the requested size.\<close>

lemma trunk_malloc_ok:
  assumes inv: "tm_inv m bs" and size: "unat size0 < 2 ^ 31 - 3 * PAGE_SIZE"
  obtains p m' where "trunk_malloc size0 m = Some (p, m')"
    "p = 0 \<and> m' = m \<or> p \<noteq> 0 \<and> 16 dvd p \<and> (\<exists>bs' z. tm_inv m' bs' \<and> unat size0 \<le> z \<and>
      (\<forall>y. (p - MEM_BLOCK_SIZE, y) \<notin> allocs (m_blocks m) bs) \<and> MEM_BLOCK_SIZE \<le> p \<and>
      allocs (m_blocks m') bs' = insert (p - MEM_BLOCK_SIZE, z) (allocs (m_blocks m) bs))"
proof -
  define sz where "sz = unat (ALIGN_UP size0 16)"
  have "unat size0 < W64 - 16" using size by simp
  note a16 = align16 [OF this, folded sz_def]
  have szb: "sz < 2 ^ 31 - 2 * PAGE_SIZE" using a16(3) size by (simp add: PAGE_SIZE_def)
  have c: "chain m bs" using inv by (simp add: tm_inv_def)
  let ?P = "\<lambda>b. \<not> mb_used (m_blocks m b) \<and> sz \<le> mb_size (m_blocks m b)"
  note sc = malloc_scan [OF c, of sz]
  show thesis
  proof (cases "find ?P (search_list m bs)")
    case None
    obtain p m' where e: "trunk_expand sz m = (p, m')" by fastforce
    have t: "trunk_malloc size0 m = Some (p, m')"
      unfolding trunk_malloc_def Let_def sz_def [symmetric] sc None by (simp add: e)
    from expand_ok [OF inv a16(1) szb e]
    show thesis
    proof (elim disjE)
      assume "p = 0 \<and> m' = m"
      with that [OF t] show thesis by blast
    next
      assume r: "p \<noteq> 0 \<and> 16 dvd p \<and> (\<exists>bs' z. tm_inv m' bs' \<and> sz \<le> z \<and> p - MEM_BLOCK_SIZE \<notin> set bs \<and>
        allocs (m_blocks m') bs' = insert (p - MEM_BLOCK_SIZE, z) (allocs (m_blocks m) bs))"
      then obtain bs' z where b': "tm_inv m' bs'" "sz \<le> z" "p - MEM_BLOCK_SIZE \<notin> set bs"
        "allocs (m_blocks m') bs' = insert (p - MEM_BLOCK_SIZE, z) (allocs (m_blocks m) bs)" by blast
      have "p - MEM_BLOCK_SIZE \<in> set bs'" using b'(4) by (auto simp: allocs_def)
      moreover have "chain m' bs'" using b'(1) by (simp add: tm_inv_def)
      ultimately have "0 < p - MEM_BLOCK_SIZE" using seg_pos unfolding chain_def blk_ok_def by blast
      then have "MEM_BLOCK_SIZE \<le> p" by simp
      moreover have "\<forall>y. (p - MEM_BLOCK_SIZE, y) \<notin> allocs (m_blocks m) bs" using b'(3) by (simp add: allocs_def)
      ultimately have "\<exists>bs' z. tm_inv m' bs' \<and> unat size0 \<le> z \<and>
        (\<forall>y. (p - MEM_BLOCK_SIZE, y) \<notin> allocs (m_blocks m) bs) \<and> MEM_BLOCK_SIZE \<le> p \<and>
        allocs (m_blocks m') bs' = insert (p - MEM_BLOCK_SIZE, z) (allocs (m_blocks m) bs)"
        using b' a16(2) le_trans by blast
      with that [OF t] r show thesis by blast
    qed
  next
    case (Some b)
    have b: "b \<in> set bs" "\<not> mb_used (m_blocks m b)" "sz \<le> mb_size (m_blocks m b)"
      using Some search_list_suffix [of bs m] by (auto simp: find_Some_iff) (metis Un_iff nth_mem set_append)
    define m1 where "m1 = try_break b sz (upd_block b (\<lambda>x. x\<lparr>mb_used := True\<rparr>) m)"
    have t: "trunk_malloc size0 m = Some (mb_mem (m_blocks m1 b), m1\<lparr>m_start := mb_next (m_blocks m1 b)\<rparr>)"
      unfolding trunk_malloc_def Let_def sz_def [symmetric] sc Some by (simp add: m1_def)
    from malloc_found [OF inv a16(1) b, folded m1_def]
    obtain bs' z where r: "mb_mem (m_blocks m1 b) = b + MEM_BLOCK_SIZE" "16 dvd b" "tm_inv (m1\<lparr>m_start := mb_next (m_blocks m1 b)\<rparr>) bs'"
      "sz \<le> z" "allocs (m_blocks m1) bs' = insert (b, z) (allocs (m_blocks m) bs)" by blast
    have nb: "\<forall>y. (b, y) \<notin> allocs (m_blocks m) bs" using b(2) by (auto simp: allocs_def)
    show thesis
      by (rule that [OF t], rule disjI2) (use r a16(2) nb in \<open>auto simp: MEM_BLOCK_SIZE_def intro!: exI [of _ bs'] exI [of _ z]\<close>)
  qed
qed

lemma shrink_ok:
  assumes om: "m_ops m = ops" and w: "wf (m_arg m)" and c: "chain m bs" and co: "coal (m_blocks m) bs"
    and fb: "first bs (trunk_heap_end m) = base (m_arg m)" and ne: "bs \<noteq> []"
  shows "\<exists>bs'. tm_inv (try_shrink m) bs' \<and> allocs (m_blocks (try_shrink m)) bs' = allocs (m_blocks m) bs"
proof -
  define h where "h = m_blocks m"
  define e where "e = trunk_heap_end m"
  define t where "t = m_tail m"
  obtain vs where bs: "bs = vs @ [t]" using ne c by (cases bs rule: rev_cases) (auto simp: chain_def t_def)
  have s: "seg h 0 (vs @ [t]) 0 e" using c bs by (simp add: chain_def h_def e_def)
  have eo: "op_get_mem_tail ops (m_arg m) = e" using om by (simp add: e_def trunk_heap_end_def)
  note tb = tail_bounds [OF w, unfolded eo]
  have st: "seg h 0 vs t t" "blk_ok h t" "b_end h t = e" using s by (auto simp: seg_append)
  have tn: "t \<notin> set vs" using seg_distinct [OF s] by simp
  show ?thesis
  proof (cases "t = 0 \<or> mb_used (h t) \<or> t mod PAGE_SIZE \<noteq> 0")
    case True
    then have m': "try_shrink m = m" unfolding try_shrink_def t_def [symmetric] h_def [symmetric] Let_def by simp
    have "bs = []" if a: "allocs h bs = {}"
    proof -
      have free: "\<And>b. b \<in> set bs \<Longrightarrow> \<not> mb_used (h b)" using a by (auto simp: allocs_empty)
      from coal_all_free [OF co [folded h_def] free] bs have "bs = [t]" by auto
      with fb tb have "t mod PAGE_SIZE = 0" by (simp add: mod_eq_0_iff_dvd)
      moreover have "t \<noteq> 0" using st(2) by (simp add: blk_ok_def)
      ultimately show ?thesis using True free bs by auto
    qed
    then show ?thesis using om w c co fb m' by (intro exI [of _ bs]) (simp add: tm_inv_def h_def)
  next
    case False
    define n where "n = (mb_size (h t) + MEM_BLOCK_SIZE) div PAGE_SIZE"
    have et: "mb_size (h t) + MEM_BLOCK_SIZE = e - t" "t \<le> e" using st(3) by (auto simp: b_end_def)
    have bt: "base (m_arg m) \<le> t" using seg_bounds [OF s, of t] fb bs by (simp add: e_def)
    have "PAGE_SIZE dvd t" using False by (auto simp: mod_eq_0_iff_dvd)
    then have nz: "n * PAGE_SIZE = e - t" using tb et(1) by (simp add: n_def dvd_diff_nat)
    have nle: "n * PAGE_SIZE \<le> e - base (m_arg m)" using nz bt by simp
    then have "n < 2 ^ 19" using tb by (simp add: PAGE_SIZE_def)
    then have i32: "n mod 2 ^ 32 = n" "as_int32 n = int n" by (simp_all add: as_int32_small)
    define m1 where "m1 = m\<lparr>m_tail := mb_prev (h t)\<rparr>"
    define m2 where "m2 = (if m_tail m1 \<noteq> 0 then upd_block (m_tail m1) (\<lambda>x. x\<lparr>mb_next := 0\<rparr>) m1 else m1\<lparr>m_head := 0\<rparr>)"
    have m': "try_shrink m = m2\<lparr>m_arg := op_shrink (m_ops m2) (int n) (m_arg m2)\<rparr>"
      using False unfolding try_shrink_def t_def [symmetric] h_def [symmetric] Let_def m2_def m1_def n_def [symmetric] i32 by (simp only: if_False)
    have pt: "mb_prev (h t) = lastp 0 vs" using s by (simp add: seg_append)
    have z: "0 \<notin> set vs" using seg_pos [OF st(1)] by (auto simp: blk_ok_def)
    have lz: "lastp 0 vs = 0 \<longleftrightarrow> vs = []" using z by (cases vs rule: rev_cases) auto
    have m2: "m_head m2 = first vs 0" "m_tail m2 = lastp 0 vs" "m_arg m2 = m_arg m" "m_ops m2 = ops"
      "m_blocks m2 = (if vs = [] then h else h(lastp 0 vs := (h (lastp 0 vs))\<lparr>mb_next := 0\<rparr>))"
    proof -
      have m1: "m_tail m1 = lastp 0 vs" "m_blocks m1 = h" "m_head m1 = first vs t" "m_arg m1 = m_arg m" "m_ops m1 = ops"
        using c bs om pt by (simp_all add: m1_def chain_def h_def)
      have ft: "vs \<noteq> [] \<Longrightarrow> first vs t = first vs 0" by (cases vs) auto
      show "m_head m2 = first vs 0" "m_tail m2 = lastp 0 vs" "m_arg m2 = m_arg m" "m_ops m2 = ops"
        "m_blocks m2 = (if vs = [] then h else h(lastp 0 vs := (h (lastp 0 vs))\<lparr>mb_next := 0\<rparr>))"
        using m1 lz ft by (auto simp: m2_def)
    qed
    define a where "a = op_shrink ops (int n) (m_arg m)"
    have a: "wf a" "base a = base (m_arg m)" "op_get_mem_tail ops a = t"
      using shrink [OF w, unfolded eo, OF nle] nz et(2) by (auto simp: a_def)
    have M: "try_shrink m = m2\<lparr>m_arg := a\<rparr>" using m' m2 by (simp add: a_def)
    have E: "trunk_heap_end (try_shrink m) = t" using a(3) m2 by (simp add: M trunk_heap_end_def)
    have sv: "seg (m_blocks m2) 0 vs 0 t"
    proof (cases vs rule: rev_cases)
      case (snoc zs v)
      have d: "v \<notin> set zs" using seg_distinct [OF st(1)] snoc by simp
      have hv: "m_blocks m2 v = (h v)\<lparr>mb_next := 0\<rparr>" using snoc by (simp add: m2(5))
      have "blk_ok h v" "b_end h v = t" using st(1) snoc by (auto simp: seg_append)
      then have v: "mb_prev (m_blocks m2 v) = mb_prev (h v)" "blk_ok (m_blocks m2) v" "mb_next (m_blocks m2 v) = 0" "b_end (m_blocks m2) v = t"
        by (simp_all add: hv blk_ok_def b_end_def)
      have zs: "m_blocks m2 x = h x" if "x \<in> set zs" for x using that d snoc by (auto simp: m2(5))
      show ?thesis unfolding snoc by (rule seg_relink_last [OF st(1) [unfolded snoc] zs v])
    qed simp
    have C: "chain (try_shrink m) vs" unfolding chain_def E using sv m2 tb et(2) by (simp add: M)
    have used: "mb_used (m_blocks m2 x) = mb_used (h x)" "mb_size (m_blocks m2 x) = mb_size (h x)" for x by (auto simp: m2(5))
    have "coal h vs" using co bs by (simp add: coal_append h_def)
    then have CO: "coal (m_blocks m2) vs" using coal_cong [of vs "m_blocks m2" h] used by simp
    have AL: "allocs (m_blocks m2) vs = allocs h bs" using False bs unfolding allocs_def used by auto
    have T: "vs = []" if "allocs (m_blocks m2) vs = {}"
    proof -
      have "\<And>b. b \<in> set bs \<Longrightarrow> \<not> mb_used (h b)" using that unfolding AL allocs_empty by blast
      from coal_all_free [OF co [folded h_def] this] bs show ?thesis by auto
    qed
    have F: "first vs t = base a" using fb bs a(2) by simp
    have B: "m_blocks (try_shrink m) = m_blocks m2" "m_arg (try_shrink m) = a" "m_ops (try_shrink m) = ops" using m2(4) by (simp_all add: M)
    have "tm_inv (try_shrink m) vs" unfolding tm_inv_def B E using C CO T F a(1) by blast
    then show ?thesis using AL unfolding B h_def by blast
  qed
qed

text \<open>Releasing a live block removes exactly it; any other pointer leaves the heap alone.\<close>

lemma trunk_free_ok:
  assumes inv: "tm_inv m bs" and b: "b \<in> set bs" "mb_used (m_blocks m b)"
  shows "\<exists>bs'. tm_inv (trunk_free (b + MEM_BLOCK_SIZE) m) bs' \<and>
    allocs (m_blocks (trunk_free (b + MEM_BLOCK_SIZE) m)) bs' = allocs (m_blocks m) bs - {(b, mb_size (m_blocks m b))}"
proof -
  have c: "chain m bs" and co: "coal (m_blocks m) bs" and om: "m_ops m = ops" and w: "wf (m_arg m)"
    and fb: "first bs (trunk_heap_end m) = base (m_arg m)" using inv by (auto simp: tm_inv_def)
  obtain xs ys where bs: "bs = xs @ b # ys" using b(1) by (auto dest: split_list)
  have s: "seg (m_blocks m) 0 (xs @ b # ys) 0 (trunk_heap_end m)" using c bs by (simp add: chain_def)
  have d: "b \<notin> set xs" "b \<notin> set ys" using seg_split_distinct [OF s] by auto
  have bp: "b \<noteq> 0" using chain_links(3) c bs by fastforce
  have gb: "get_block (b + MEM_BLOCK_SIZE) = b" using bp by (simp add: get_block_def)
  have fbk: "trunk_find_block m b = b" using chain_find_block [OF c bp] b(1) by simp
  define m0 where "m0 = upd_block b (\<lambda>x. x\<lparr>mb_used := False\<rparr>) m"
  have c0: "chain m0 (xs @ b # ys)" using c bs by (simp add: m0_def)
  have f0: "\<not> mb_used (m_blocks m0 b)" by (simp add: m0_def)
  have same: "m_blocks m0 x = m_blocks m x" if "x \<in> set (xs @ ys)" for x using that d by (auto simp: m0_def)
  have "coal (m_blocks m0) xs = coal (m_blocks m) xs" "coal (m_blocks m0) ys = coal (m_blocks m) ys"
    by (rule coal_cong; use same in simp)+
  then have co0: "coal (m_blocks m0) xs" "coal (m_blocks m0) ys" using co bs by (auto simp: coal_append coal_Cons)
  obtain r m1 where t: "try_merge b m0 = (r, m1)" by fastforce
  from try_merge_spec [OF c0 f0 co0 t]
  obtain us ws where m1: "chain m1 (us @ r # ws)" "coal (m_blocks m1) (us @ r # ws)" "\<not> mb_used (m_blocks m1 r)"
    "first (us @ r # ws) 0 = first (xs @ b # ys) 0" "allocs (m_blocks m1) (us @ r # ws) = allocs (m_blocks m0) (xs @ ys)"
    "m_arg m1 = m_arg m" "m_ops m1 = ops" by (auto simp: m0_def om)
  have rp: "r \<noteq> 0" using chain_links(3) [OF m1(1)] by simp
  have fr: "trunk_find_block m1 r = r" using chain_find_block [OF m1(1) rp] by simp
  define m2 where "m2 = (if m_start m1 = 0 \<or> m_start m1 \<ge> r then m1\<lparr>m_start := mb_prev (m_blocks m1 r)\<rparr> else m1)"
  have m': "trunk_free (b + MEM_BLOCK_SIZE) m = try_shrink m2"
    using bp b(2) rp fr t unfolding trunk_free_def m2_def by (simp add: gb fbk m0_def [symmetric] Let_def)
  have m2: "chain m2 (us @ r # ws)" "m_blocks m2 = m_blocks m1" "m_arg m2 = m_arg m" "m_ops m2 = ops" using m1 by (auto simp: m2_def)
  have E: "trunk_heap_end m2 = trunk_heap_end m" using m2 om by (simp add: trunk_heap_end_def)
  have F: "first (us @ r # ws) (trunk_heap_end m2) = base (m_arg m2)"
    using first_eq [OF m1(4), of _ "trunk_heap_end m"] fb bs m2(3) by simp
  have al: "allocs (m_blocks m0) (xs @ ys) = allocs (m_blocks m) bs - {(b, mb_size (m_blocks m b))}"
  proof -
    have "allocs (m_blocks m0) (xs @ ys) = allocs (m_blocks m) (xs @ ys)" using same unfolding allocs_def by metis
    also have "\<dots> = allocs (m_blocks m) bs - {(b, mb_size (m_blocks m b))}" using bs d by (auto simp: allocs_def)
    finally show ?thesis .
  qed
  from shrink_ok [OF m2(4) _ m2(1) _ F] w m2 m1 al show ?thesis unfolding m' by simp
qed

lemma trunk_free_other:
  assumes "tm_inv m bs" "\<And>z. (p - MEM_BLOCK_SIZE, z) \<notin> allocs (m_blocks m) bs"
  shows "trunk_free p m = m"
proof -
  have c: "chain m bs" using assms(1) by (simp add: tm_inv_def)
  show ?thesis
  proof (cases "get_block p = 0")
    case True
    then show ?thesis by (simp add: trunk_free_def)
  next
    case False
    then have g: "get_block p = p - MEM_BLOCK_SIZE" by (simp add: get_block_def split: if_splits)
    show ?thesis using assms(2) chain_find_block [OF c False] by (auto simp: trunk_free_def Let_def g allocs_def)
  qed
qed

end

end
