(* ===== verification/Kmalloc_Props.thy ===== *)
theory Kmalloc_Props
  imports Trunk_Props
begin

text \<open>
  The kernel heap of \<^verbatim>\<open>kmalloc.c\<close> as a provider of pages for the block allocator, and the properties of
  \<open>kmalloc\<close> and \<open>kfree\<close> over all their runs.
\<close>

section \<open>The kernel heap\<close>

definition km_wf :: "nat \<Rightarrow> nat \<Rightarrow> km_heap \<Rightarrow> bool" where
  "km_wf b l k \<longleftrightarrow> 0 < b \<and> PAGE_SIZE dvd b \<and> l < W63 \<and> l - b < 2 ^ 31 \<and> KMALLOC_BASE k = b \<and> KMALLOC_END k = l \<and>
     b \<le> kmalloc_mem_tail k \<and> kmalloc_mem_tail k \<le> l \<and> PAGE_SIZE dvd kmalloc_mem_tail k"

lemma page_bytes_small: "n < 2 ^ 19 \<Longrightarrow> page_bytes (int n) = int (n * PAGE_SIZE)"
proof -
  assume "n < 2 ^ 19"
  then have "n * PAGE_SIZE < 2 ^ 31" by (simp add: PAGE_SIZE_def)
  then have "as_int32 (n * PAGE_SIZE) = int (n * PAGE_SIZE)" by (rule as_int32_small)
  then show ?thesis by (simp add: page_bytes_def as_int32_def)
qed

interpretation km: heap_provider km_ops "km_wf b l" KMALLOC_BASE for b l
proof
  fix a assume w: "km_wf b l a"
  then show "0 < KMALLOC_BASE a \<and> KMALLOC_BASE a \<le> op_get_mem_tail km_ops a \<and> op_get_mem_tail km_ops a < W63 \<and>
      PAGE_SIZE dvd KMALLOC_BASE a \<and> PAGE_SIZE dvd op_get_mem_tail km_ops a \<and> op_get_mem_tail km_ops a - KMALLOC_BASE a < 2 ^ 31"
    by (auto simp: km_wf_def km_ops_def km_get_mem_tail_def)
  have t63: "kmalloc_mem_tail a < W63" using w by (auto simp: km_wf_def)
  show "km_wf b l a' \<and> KMALLOC_BASE a' = KMALLOC_BASE a \<and>
      (if r = 0 then op_get_mem_tail km_ops a' = op_get_mem_tail km_ops a + n * PAGE_SIZE else a' = a)"
    if n: "0 < n" "n < 2 ^ 19" and e: "op_expand km_ops (int n) a = (r, a')" for n r a'
  proof -
    have "int (kmalloc_mem_tail a) + page_bytes (int n) = int (kmalloc_mem_tail a + n * PAGE_SIZE)"
      by (simp add: page_bytes_small [OF n(2)])
    moreover have "kmalloc_mem_tail a + n * PAGE_SIZE < 2 ^ 64" using t63 n(2) by (simp add: PAGE_SIZE_def)
    ultimately have to: "nat ((int (kmalloc_mem_tail a) + page_bytes (int n)) mod 2 ^ 64) = kmalloc_mem_tail a + n * PAGE_SIZE"
      by (simp add: nat_mod_distrib del: of_nat_add)
    have "(r, a') = (if kmalloc_mem_tail a + n * PAGE_SIZE > KMALLOC_END a then (-1, a)
        else (0, a\<lparr>kmalloc_mem_tail := kmalloc_mem_tail a + n * PAGE_SIZE\<rparr>))"
      using e unfolding km_ops_def trunk_ops.simps km_expand_def to Let_def by simp
    then show ?thesis using w by (auto simp: km_wf_def km_ops_def km_get_mem_tail_def split: if_splits)
  qed
  show "km_wf b l (op_shrink km_ops (int n) a) \<and> KMALLOC_BASE (op_shrink km_ops (int n) a) = KMALLOC_BASE a \<and>
      op_get_mem_tail km_ops (op_shrink km_ops (int n) a) = op_get_mem_tail km_ops a - n * PAGE_SIZE"
    if n: "n * PAGE_SIZE \<le> op_get_mem_tail km_ops a - KMALLOC_BASE a" for n
  proof -
    have nt: "n * PAGE_SIZE \<le> kmalloc_mem_tail a - b" using n w by (simp add: km_ops_def km_get_mem_tail_def km_wf_def)
    moreover have "kmalloc_mem_tail a - b < 2 ^ 31" using w by (auto simp: km_wf_def)
    ultimately have "n < 2 ^ 19" by (simp add: PAGE_SIZE_def)
    then have pb: "page_bytes (int n) = int (n * PAGE_SIZE)" by (rule page_bytes_small)
    have "int (kmalloc_mem_tail a) - page_bytes (int n) = int (kmalloc_mem_tail a - n * PAGE_SIZE)"
      unfolding pb using nt by (simp add: of_nat_diff)
    moreover have "kmalloc_mem_tail a - n * PAGE_SIZE < 2 ^ 64" using t63 by simp
    ultimately have "nat ((int (kmalloc_mem_tail a) - page_bytes (int n)) mod 2 ^ 64) = kmalloc_mem_tail a - n * PAGE_SIZE"
      by (simp add: nat_mod_distrib)
    then have "op_shrink km_ops (int n) a = a\<lparr>kmalloc_mem_tail := kmalloc_mem_tail a - n * PAGE_SIZE\<rparr>"
      by (simp add: km_ops_def km_shrink_def)
    moreover have "PAGE_SIZE dvd kmalloc_mem_tail a - n * PAGE_SIZE" using w by (intro dvd_diff_nat) (auto simp: km_wf_def)
    ultimately show ?thesis using w nt by (auto simp: km_wf_def km_ops_def km_get_mem_tail_def)
  qed
qed

text \<open>Runs of a client of the kernel heap, with the blocks it holds and the sizes it asked for. Requests of
  2 GB or more overflow the \<open>int\<close> arithmetic of \<open>km_expand\<close> and are left out.\<close>

definition KMALLOC_REQ_MAX :: nat where
  "KMALLOC_REQ_MAX = 2 ^ 31 - 3 * PAGE_SIZE"

inductive km_step :: "km_heap malloc_t \<times> (nat \<times> nat) set \<Rightarrow> km_heap malloc_t \<times> (nat \<times> nat) set \<Rightarrow> bool" where
  km_alloc: "unat sz < KMALLOC_REQ_MAX \<Longrightarrow> kmalloc sz m = Some (p, m') \<Longrightarrow> p \<noteq> 0 \<Longrightarrow> km_step (m, L) (m', insert (p, unat sz) L)"
| km_nomem: "unat sz < KMALLOC_REQ_MAX \<Longrightarrow> kmalloc sz m = Some (0, m') \<Longrightarrow> km_step (m, L) (m', L)"
| km_free: "(p, n) \<in> L \<Longrightarrow> km_step (m, L) (kfree p m, L - {(p, n)})"

definition km_match :: "(nat \<times> nat) set \<Rightarrow> (nat \<times> nat) set \<Rightarrow> bool" where
  "km_match A L \<longleftrightarrow>
     (\<forall>p n. (p, n) \<in> L \<longrightarrow> MEM_BLOCK_SIZE < p \<and> 16 dvd p \<and> (\<exists>z \<ge> n. (p - MEM_BLOCK_SIZE, z) \<in> A)) \<and>
     (\<forall>a z. (a, z) \<in> A \<longrightarrow> (\<exists>n. (a + MEM_BLOCK_SIZE, n) \<in> L)) \<and>
     (\<forall>p n n'. (p, n) \<in> L \<longrightarrow> (p, n') \<in> L \<longrightarrow> n = n')"

definition km_live :: "nat \<Rightarrow> nat \<Rightarrow> km_heap malloc_t \<times> (nat \<times> nat) set \<Rightarrow> bool" where
  "km_live b l s \<longleftrightarrow> (\<exists>bs. km.tm_inv b l (fst s) bs \<and> km_match (allocs (m_blocks (fst s)) bs) (snd s))"

lemma km_match_insert:
  assumes "km_match A L" "\<And>y. (p - MEM_BLOCK_SIZE, y) \<notin> A" "MEM_BLOCK_SIZE < p" "16 dvd p" "n \<le> z"
  shows "km_match (insert (p - MEM_BLOCK_SIZE, z) A) (insert (p, n) L)"
proof -
  have "(p, k) \<notin> L" for k using assms(1,2) unfolding km_match_def by blast
  then show ?thesis using assms unfolding km_match_def by (auto, blast)
qed

lemma km_match_delete:
  assumes m: "km_match A L" and f: "\<And>b z z'. (b, z) \<in> A \<Longrightarrow> (b, z') \<in> A \<Longrightarrow> z = z'" and p: "(p, n) \<in> L" "(p - MEM_BLOCK_SIZE, z) \<in> A"
  shows "km_match (A - {(p - MEM_BLOCK_SIZE, z)}) (L - {(p, n)})"
proof -
  have gt: "MEM_BLOCK_SIZE < q" if "(q, k) \<in> L" for q k using m that unfolding km_match_def by blast
  have ne: "q - MEM_BLOCK_SIZE \<noteq> p - MEM_BLOCK_SIZE" if "(q, k) \<in> L" "(q, k) \<noteq> (p, n)" for q k
  proof -
    have "q \<noteq> p" using m p(1) that unfolding km_match_def by blast
    with gt [OF that(1)] gt [OF p(1)] show ?thesis by simp
  qed
  have "\<exists>k. (a + MEM_BLOCK_SIZE, k) \<in> L - {(p, n)}" if a: "(a, y) \<in> A - {(p - MEM_BLOCK_SIZE, z)}" for a y
  proof -
    have "a \<noteq> p - MEM_BLOCK_SIZE" using a f [OF p(2)] by blast
    then have "a + MEM_BLOCK_SIZE \<noteq> p" by auto
    moreover obtain k where "(a + MEM_BLOCK_SIZE, k) \<in> L" using m a unfolding km_match_def by blast
    ultimately show ?thesis by auto
  qed
  moreover have "\<exists>y \<ge> k. (q - MEM_BLOCK_SIZE, y) \<in> A - {(p - MEM_BLOCK_SIZE, z)}" if q: "(q, k) \<in> L" "(q, k) \<noteq> (p, n)" for q k
    using m q ne [OF q] unfolding km_match_def by auto
  ultimately show ?thesis using m unfolding km_match_def by auto
qed

lemma alloc_fun: "(b, z) \<in> allocs h bs \<Longrightarrow> (b, z') \<in> allocs h bs \<Longrightarrow> z = z'"
  by (auto simp: allocs_def)

lemma kmalloc_ok:
  assumes "km.tm_inv b l m bs" "unat sz < KMALLOC_REQ_MAX"
  obtains p m' where "kmalloc sz m = Some (p, m')"
    "p = 0 \<and> m' = m \<or> p \<noteq> 0 \<and> 16 dvd p \<and> (\<exists>bs' z. km.tm_inv b l m' bs' \<and> unat sz \<le> z \<and>
      (\<forall>y. (p - MEM_BLOCK_SIZE, y) \<notin> allocs (m_blocks m) bs) \<and> MEM_BLOCK_SIZE \<le> p \<and>
      allocs (m_blocks m') bs' = insert (p - MEM_BLOCK_SIZE, z) (allocs (m_blocks m) bs))"
proof -
  have u: "unat (ucast sz :: u64) = unat sz" proof -
    have "unat sz < 2 ^ 32" using unsigned_less [of sz] by simp
    then show ?thesis by (simp add: unsigned_ucast_eq take_bit_nat_eq_self)
  qed
  show thesis
    by (rule km.trunk_malloc_ok [OF assms(1), of "ucast sz"])
      (use assms(2) that in \<open>auto simp: u KMALLOC_REQ_MAX_def kmalloc_def\<close>)
qed

lemma km_step_live:
  assumes "km_step s s'" "km_live b l s"
  shows "km_live b l s'"
  using assms
proof cases
  case (km_alloc sz m p m' L)
  from assms(2) obtain bs where bs: "km.tm_inv b l m bs" "km_match (allocs (m_blocks m) bs) L" by (auto simp: km_live_def km_alloc)
  obtain bs' z where r: "16 dvd p" "km.tm_inv b l m' bs'" "unat sz \<le> z" "\<And>y. (p - MEM_BLOCK_SIZE, y) \<notin> allocs (m_blocks m) bs"
    "allocs (m_blocks m') bs' = insert (p - MEM_BLOCK_SIZE, z) (allocs (m_blocks m) bs)"
    by (rule kmalloc_ok [OF bs(1) km_alloc(3)]) (use km_alloc(4,5) in auto)
  have "p - MEM_BLOCK_SIZE \<in> set bs'" using r(5) by (auto simp: allocs_def)
  moreover have "chain m' bs'" using r(2) by (simp add: km.tm_inv_def)
  ultimately have "MEM_BLOCK_SIZE < p" using seg_pos unfolding chain_def blk_ok_def by fastforce
  from km_match_insert [OF bs(2) r(4) this r(1,3)] r(2) show ?thesis unfolding km_alloc(2) km_live_def by (auto simp: r(5))
next
  case (km_nomem sz m m' L)
  from assms(2) obtain bs where bs: "km.tm_inv b l m bs" by (auto simp: km_live_def km_nomem)
  have "m' = m" by (rule kmalloc_ok [OF bs km_nomem(3)]) (use km_nomem(4) in auto)
  with assms(2) km_nomem show ?thesis by simp
next
  case (km_free p n L m)
  from assms(2) obtain bs where bs: "km.tm_inv b l m bs" "km_match (allocs (m_blocks m) bs) L" by (auto simp: km_live_def km_free)
  from bs(2) km_free(3) obtain z where p: "MEM_BLOCK_SIZE < p" "(p - MEM_BLOCK_SIZE, z) \<in> allocs (m_blocks m) bs"
    unfolding km_match_def by blast
  then have u: "p - MEM_BLOCK_SIZE \<in> set bs" "mb_used (m_blocks m (p - MEM_BLOCK_SIZE))" "z = mb_size (m_blocks m (p - MEM_BLOCK_SIZE))"
    by (auto simp: allocs_def)
  from km.trunk_free_ok [OF bs(1) u(1,2)] p(1)
  obtain bs' where "km.tm_inv b l (kfree p m) bs'" "allocs (m_blocks (kfree p m)) bs' = allocs (m_blocks m) bs - {(p - MEM_BLOCK_SIZE, z)}"
    by (auto simp: kfree_def u(3))
  then show ?thesis unfolding km_free(2) km_live_def using km_match_delete [OF bs(2) alloc_fun km_free(3) p(2)] by auto
qed

lemma km_steps_live: "km_step\<^sup>*\<^sup>* s s' \<Longrightarrow> km_live b l s \<Longrightarrow> km_live b l s'"
  by (induction rule: rtranclp_induct) (auto intro: km_step_live)

lemma kmalloc_init_live:
  assumes "0 < b" "PAGE_SIZE dvd b" "b \<le> l" "l < W63" "l - b < 2 ^ 31"
  shows "km_live b l (kmalloc_init b l h, {})"
proof -
  have "km.tm_inv b l (kmalloc_init b l h) []"
    unfolding km.tm_inv_def using assms by (simp add: kmalloc_init_def km_wf_def chain_def coal_def allocs_def trunk_heap_end_def km_ops_def km_get_mem_tail_def)
  then show ?thesis by (auto simp: km_live_def km_match_def allocs_def intro!: exI [of _ "[]"])
qed

section \<open>Properties\<close>


definition ex_heap :: "km_heap malloc_t" where
  "ex_heap = kmalloc_init 0x100000 0x200000 (\<lambda>_. \<lparr>mb_next = 0, mb_prev = 0, mb_size = 0, mb_used = False, mb_mem = 0\<rparr>)"



text \<open>Releasing a pointer that is not a live block of the kernel heap (never allocated, already released, or
  pointing inside a block) changes nothing.\<close>

theorem kfree_unknown_pointer:
  assumes "0 < b" "PAGE_SIZE dvd b" "b \<le> l" "l < 2 ^ 63" "l - b < 2 ^ 31"
    and "km_step\<^sup>*\<^sup>* (kmalloc_init b l h, {}) (m, L)" and "p \<notin> fst ` L"
  shows "kfree p m = m"
proof -
  obtain bs where inv: "km.tm_inv b l m bs" and mt: "km_match (allocs (m_blocks m) bs) L"
    using km_steps_live [OF assms(6) kmalloc_init_live [OF assms(1-5)]] by (auto simp: km_live_def)
  show ?thesis
  proof (cases "p < MEM_BLOCK_SIZE")
    case True
    then show ?thesis by (simp add: kfree_def trunk_free_def get_block_def)
  next
    case False
    have "(p - MEM_BLOCK_SIZE, z) \<notin> allocs (m_blocks m) bs" for z
    proof
      assume "(p - MEM_BLOCK_SIZE, z) \<in> allocs (m_blocks m) bs"
      then obtain n where "(p - MEM_BLOCK_SIZE + MEM_BLOCK_SIZE, n) \<in> L" using mt unfolding km_match_def by blast
      then show False using False assms(7) by force
    qed
    from km.trunk_free_other [OF inv this] show ?thesis by (simp add: kfree_def)
  qed
qed

theorem kfree_unknown_pointer_witness: "kfree 0x100020 ex_heap = ex_heap"
  unfolding ex_heap_def by (rule kfree_unknown_pointer [OF _ _ _ _ _ rtranclp.rtrancl_refl]) (simp_all add: PAGE_SIZE_def)

text \<open>C31: the search of \<open>kmalloc\<close> never looks at the blocks before its cursor. When the cursor names a block, no
  block from there on fits and the heap cannot grow, the request fails, whatever free blocks there are before
  the cursor.\<close>

theorem kmalloc_misses_free_block:
  assumes inv: "km.tm_inv b l m (xs @ m_start m # ys)"
    and none: "\<forall>x \<in> set (m_start m # ys). mb_used (m_blocks m x) \<or> mb_size (m_blocks m x) < unat len"
    and size: "unat len < KMALLOC_REQ_MAX" and full: "kmalloc_mem_tail (m_arg m) = l"
  shows "kmalloc len m = Some (0, m)"
proof -
  obtain p m' where r: "kmalloc len m = Some (p, m')"
    "p = 0 \<and> m' = m \<or> p \<noteq> 0 \<and> 16 dvd p \<and> (\<exists>bs' z. km.tm_inv b l m' bs' \<and> unat len \<le> z \<and>
      (\<forall>y. (p - MEM_BLOCK_SIZE, y) \<notin> allocs (m_blocks m) (xs @ m_start m # ys)) \<and> MEM_BLOCK_SIZE \<le> p \<and>
      allocs (m_blocks m') bs' = insert (p - MEM_BLOCK_SIZE, z) (allocs (m_blocks m) (xs @ m_start m # ys)))"
    by (rule kmalloc_ok [OF inv size])
  have u: "unat (ucast len :: u64) = unat len"
  proof -
    have "unat len < 2 ^ 32" using unsigned_less [of len] by simp
    then show ?thesis by (simp add: unsigned_ucast_eq take_bit_nat_eq_self)
  qed
  have c: "chain m (xs @ m_start m # ys)" and w: "km_wf b l (m_arg m)" and om: "m_ops m = km_ops" using inv by (auto simp: km.tm_inv_def)
  have s: "seg (m_blocks m) 0 (xs @ m_start m # ys) 0 (trunk_heap_end m)" using c by (simp add: chain_def)
  define sz where "sz = unat (ALIGN_UP (ucast len) 16)"
  have "unat (ucast len :: u64) < W64 - 16" using size u by (simp add: KMALLOC_REQ_MAX_def)
  note a16 = align16 [OF this, folded sz_def, unfolded u]
  have "\<forall>x \<in> set xs. x \<noteq> m_start m" using seg_split_distinct(1) [OF s] by blast
  then have sl: "search_list m (xs @ m_start m # ys) = m_start m # ys" by (simp add: search_list_def dropWhile_append2)
  have "find (\<lambda>b. \<not> mb_used (m_blocks m b) \<and> sz \<le> mb_size (m_blocks m b)) (m_start m # ys) = None"
    unfolding find_None_iff using none a16(2) by force
  note sc = malloc_scan [OF c, of sz, unfolded sl this]
  have t: "kmalloc len m = Some (trunk_expand sz m)"
    unfolding kmalloc_def trunk_malloc_def Let_def sz_def [symmetric] sc by simp
  define n where "n = (sz + MEM_BLOCK_SIZE) div PAGE_SIZE + (if (sz + MEM_BLOCK_SIZE) mod PAGE_SIZE > 0 then 1 else 0)"
  have n: "0 < n" "n < 2 ^ 19" using a16(3) size by (auto simp: n_def PAGE_SIZE_def MEM_BLOCK_SIZE_def KMALLOC_REQ_MAX_def)
  have small: "(sz + MEM_BLOCK_SIZE) mod W64 = sz + MEM_BLOCK_SIZE" "n mod 2 ^ 32 = n" "as_int32 n = int n"
    using a16(3) size n(2) as_int32_small [of n] by (simp_all add: MEM_BLOCK_SIZE_def KMALLOC_REQ_MAX_def PAGE_SIZE_def)
  obtain r a where ra: "op_expand km_ops (int n) (m_arg m) = (r, a)" by fastforce
  have "r \<noteq> 0"
  proof
    assume "r = 0"
    with km.expand [OF w n ra] have "km_wf b l a" "op_get_mem_tail km_ops a = op_get_mem_tail km_ops (m_arg m) + n * PAGE_SIZE" by auto
    then show False using full n(1) by (simp add: km_ops_def km_get_mem_tail_def km_wf_def PAGE_SIZE_def)
  qed
  then have "fst (trunk_expand sz m) = 0"
    by (simp only: trunk_expand_def Let_def small n_def [symmetric] om ra prod.case if_True simp_thms fst_conv)
  then have "p = 0" using t r(1) by (metis fst_conv option.inject)
  with r show ?thesis by blast
qed

definition ex_frag :: "km_heap malloc_t" where
  "ex_frag = \<lparr>m_ops = km_ops, m_arg = \<lparr>kmalloc_mem_tail = 0x101000, KMALLOC_BASE = 0x100000, KMALLOC_END = 0x101000\<rparr>,
     m_head = 0x100000, m_tail = 0x100420, m_start = 0x100420,
     m_blocks = (\<lambda>a. if a = 0x100000 then \<lparr>mb_next = 0x100420, mb_prev = 0, mb_size = 1024, mb_used = False, mb_mem = 0x100020\<rparr>
        else \<lparr>mb_next = 0, mb_prev = 0x100000, mb_size = 3008, mb_used = True, mb_mem = 0x100440\<rparr>)\<rparr>"

theorem kmalloc_misses_free_block_witness:
  "kmalloc 1000 ex_frag = Some (0, ex_frag) \<and> \<not> mb_used (m_blocks ex_frag 0x100000) \<and> mb_size (m_blocks ex_frag 0x100000) = 1024"
proof -
  have "km.tm_inv 0x100000 0x101000 ex_frag ([0x100000] @ m_start ex_frag # [])"
    unfolding km.tm_inv_def
    by (simp add: ex_frag_def chain_def coal_def km_wf_def trunk_heap_end_def km_ops_def km_get_mem_tail_def b_end_def blk_ok_def
      MEM_BLOCK_SIZE_def PAGE_SIZE_def allocs_empty)
  from kmalloc_misses_free_block [OF this, of 1000] show ?thesis
    by (simp add: ex_frag_def KMALLOC_REQ_MAX_def PAGE_SIZE_def)
qed

end
