(* ===== verification/Kstring.thy ===== *)
theory Kstring
  imports Prelude
begin

text \<open>
  The kernel's string library, \<^verbatim>\<open>kernel/lib/src/kstring.c\<close>, over a byte addressed memory. A pointer is
  a natural number with 0 for NULL; a scan that looks for a terminator is a \<open>partial_function\<close>
  whose value is None when it never finds one. Whether \<open>char\<close> is signed depends on the
  architecture (unsigned on ARM and RISC-V, signed on x86), so the functions that read a
  character as a number take the flag \<open>sc\<close>. \<open>__memcpy32\<close> is assembly, one routine per
  architecture: \<open>memcpy\<close> takes it as a parameter, the locale \<open>block_copy\<close> states what it promises
  and the x86 routine is the instance modelled here.
\<close>

type_synonym bytes = "nat \<Rightarrow> u8"

text \<open>A counter below a bound does not wrap when it is incremented.\<close>

lemma unat_inc_less: "(k :: u32) < n \<Longrightarrow> unat (k + 1) = Suc (unat k)"
proof -
  assume "k < n"
  then have "unat k < unat n" "unat n < 2 ^ 32"
    using unsigned_less [where ?'a = nat and w = n] by (simp_all add: word_less_nat_alt)
  then show ?thesis by (simp add: unat_word_ariths)
qed

lemma dist_dec: "(k :: u32) < n \<Longrightarrow> unat n - unat (k + 1) < unat n - unat k"
  by (simp add: unat_inc_less word_less_nat_alt)

definition char_val :: "bool \<Rightarrow> u8 \<Rightarrow> int" where
  "char_val sc c = (if sc then sint c else uint c)"

section \<open>Copying and filling\<close>

text \<open>x86 \<open>__memcpy32\<close>: \<open>rep movsq\<close> on the whole quadwords, \<open>rep movsb\<close> on the rest.\<close>

definition load64 :: "bytes \<Rightarrow> nat \<Rightarrow> u8 list" where
  "load64 m a = map (\<lambda>i. m (a + i)) [0..<8]"

definition store64 :: "bytes \<Rightarrow> nat \<Rightarrow> u8 list \<Rightarrow> bytes" where
  "store64 m a bs = (\<lambda>x. if a \<le> x \<and> x < a + 8 then bs ! (x - a) else m x)"

fun rep_movsq :: "bytes \<Rightarrow> nat \<Rightarrow> nat \<Rightarrow> nat \<Rightarrow> bytes" where
  "rep_movsq m t s 0 = m"
| "rep_movsq m t s (Suc k) = rep_movsq (store64 m t (load64 m s)) (t + 8) (s + 8) k"

fun rep_movsb :: "bytes \<Rightarrow> nat \<Rightarrow> nat \<Rightarrow> nat \<Rightarrow> bytes" where
  "rep_movsb m t s 0 = m"
| "rep_movsb m t s (Suc k) = rep_movsb (m(t := m s)) (t + 1) (s + 1) k"

definition memcpy32_x86 :: "bytes \<Rightarrow> nat \<Rightarrow> nat \<Rightarrow> nat \<Rightarrow> bytes" where
  "memcpy32_x86 m t s n =
     (let q = n div 8 in rep_movsb (rep_movsq m t s q) (t + 8 * q) (s + 8 * q) (n mod 8))"

text \<open>The tail loop \<open>while(m < n) target[m] = source[m], ++m\<close>.\<close>

function memcpy_tail :: "bytes \<Rightarrow> nat \<Rightarrow> nat \<Rightarrow> u32 \<Rightarrow> u32 \<Rightarrow> bytes" where
  "memcpy_tail mm t s k n =
     (if k < n then memcpy_tail (mm(t + unat k := mm (s + unat k))) t s (k + 1) n else mm)"
  by auto
termination
  by (relation "measure (\<lambda>(_, _, _, k, n). unat n - unat k)")
    (auto intro: dist_dec)

definition memcpy ::
    "(bytes \<Rightarrow> nat \<Rightarrow> nat \<Rightarrow> nat \<Rightarrow> bytes) \<Rightarrow> bytes \<Rightarrow> nat \<Rightarrow> nat \<Rightarrow> u32 \<Rightarrow> bytes \<times> nat" where
  "memcpy cpy32 mm target source n =
     (if target = 0 \<or> source = 0 then (mm, 0)
      else let k = n div 32;
               (mm1, k1) = (if k > 0 then (cpy32 mm target source (unat (k * 32)), k * 32) else (mm, k))
           in (memcpy_tail mm1 target source k1 n, target))"

fun set_bytes :: "bytes \<Rightarrow> nat \<Rightarrow> u8 \<Rightarrow> nat \<Rightarrow> bytes" where
  "set_bytes mm dst v 0 = mm"
| "set_bytes mm dst v (Suc k) = set_bytes (mm(dst := v)) (dst + 1) v k"

definition store32 :: "bytes \<Rightarrow> nat \<Rightarrow> u32 \<Rightarrow> bytes" where
  "store32 mm a w = mm(a := ucast w, a + 1 := ucast (drop_bit 8 w),
                       a + 2 := ucast (drop_bit 16 w), a + 3 := ucast (drop_bit 24 w))"

text \<open>\<open>while(size >= 4)\<close>: returns the memory, the cursor and the remaining size.\<close>

fun set_words :: "bytes \<Rightarrow> nat \<Rightarrow> u32 \<Rightarrow> nat \<Rightarrow> bytes \<times> nat \<times> nat" where
  "set_words mm dst w sz =
     (if sz \<ge> 4 then set_words (store32 mm dst w) (dst + 4) w (sz - 4) else (mm, dst, sz))"

declare set_words.simps [simp del]

definition splat :: "bool \<Rightarrow> u8 \<Rightarrow> u32" where
  "splat sc v = (let c = (word_of_int (char_val sc v) :: u32);
                     a = c OR push_bit 8 c
                 in a OR push_bit 16 a)"

definition memset_words :: "bool \<Rightarrow> bytes \<Rightarrow> nat \<Rightarrow> u8 \<Rightarrow> nat \<Rightarrow> bytes" where
  "memset_words sc mm dst v sz =
     (let (mm1, dst1, sz1) = set_words mm dst (splat sc v) sz in set_bytes mm1 dst1 v sz1)"

definition memset :: "bool \<Rightarrow> bytes \<Rightarrow> nat \<Rightarrow> int \<Rightarrow> u32 \<Rightarrow> bytes \<times> nat" where
  "memset sc mm target c sz0 =
     (if target = 0 then (mm, 0)
      else let v = word_of_int c :: u8; sz = unat sz0; al = target mod 4 in
        if al \<noteq> 0 then
          let al' = 4 - al in
          if sz > al' then (memset_words sc (set_bytes mm target v al') (target + al') v (sz - al'), target)
          else (set_bytes mm target v sz, target)
        else (memset_words sc mm target v sz, target))"

partial_function (option) strcpy_loop :: "bytes \<Rightarrow> nat \<Rightarrow> nat \<Rightarrow> bytes option" where
  [code]: "strcpy_loop mm t s =
     (if mm s \<noteq> 0 then strcpy_loop (mm(t := mm s)) (t + 1) (s + 1) else Some (mm(t := 0)))"

definition strcpy :: "bytes \<Rightarrow> nat \<Rightarrow> nat \<Rightarrow> (bytes \<times> nat) option" where
  "strcpy mm target source =
     (if source = 0 then Some (mm, target)
      else map_option (\<lambda>mm'. (mm', target)) (strcpy_loop mm target source))"

function sstrncpy_loop :: "bytes \<Rightarrow> nat \<Rightarrow> nat \<Rightarrow> u32 \<Rightarrow> u32 \<Rightarrow> bytes \<times> u32" where
  "sstrncpy_loop mm t s n i =
     (if i < n \<and> mm (s + unat i) \<noteq> 0
      then sstrncpy_loop (mm(t + unat i := mm (s + unat i))) t s n (i + 1)
      else (mm, i))"
  by auto
termination
  by (relation "measure (\<lambda>(_, _, _, n, i). unat n - unat i)")
    (auto intro: dist_dec)

declare memcpy_tail.simps [simp del] sstrncpy_loop.simps [simp del]

definition sstrncpy :: "bytes \<Rightarrow> nat \<Rightarrow> nat \<Rightarrow> u32 \<Rightarrow> bytes \<times> u32" where
  "sstrncpy mm target source n =
     (if source = 0 then (mm, 0)
      else let (mm1, i) = sstrncpy_loop mm target source n 0 in (mm1(target + unat i := 0), i))"

section \<open>Comparing\<close>

partial_function (option) strcmp_loop :: "bytes \<Rightarrow> nat \<Rightarrow> nat \<Rightarrow> (nat \<times> nat) option" where
  [code]: "strcmp_loop mm s1 s2 =
     (if mm s1 = mm s2 \<and> mm s1 \<noteq> 0 \<and> mm s2 \<noteq> 0 then strcmp_loop mm (s1 + 1) (s2 + 1) else Some (s1, s2))"

definition strcmp :: "bool \<Rightarrow> bytes \<Rightarrow> nat \<Rightarrow> nat \<Rightarrow> int option" where
  "strcmp sc mm s1 s2 =
     (if s1 = 0 \<or> s2 = 0 then Some (- 1)
      else map_option (\<lambda>(p, q). char_val sc (mm p) - char_val sc (mm q)) (strcmp_loop mm s1 s2))"

text \<open>The bound \<open>i < n - 1\<close> makes the loop of \<open>strncmp\<close> total.\<close>

function strncmp_loop :: "bytes \<Rightarrow> nat \<Rightarrow> nat \<Rightarrow> u32 \<Rightarrow> u32 \<Rightarrow> nat \<times> nat" where
  "strncmp_loop mm s1 s2 n i =
     (if mm s1 = mm s2 \<and> mm s1 \<noteq> 0 \<and> mm s2 \<noteq> 0 \<and> i < n - 1
      then strncmp_loop mm (s1 + 1) (s2 + 1) n (i + 1) else (s1, s2))"
  by auto
termination
  by (relation "measure (\<lambda>(_, _, _, n, i). unat (n - 1) - unat i)")
    (auto intro: dist_dec)

declare strncmp_loop.simps [simp del]

definition strncmp :: "bool \<Rightarrow> bytes \<Rightarrow> nat \<Rightarrow> nat \<Rightarrow> u32 \<Rightarrow> int" where
  "strncmp sc mm s1 s2 n =
     (if s1 = 0 \<or> s2 = 0 then - 1
      else if n = 0 then 0
      else let (p, q) = strncmp_loop mm s1 s2 n 0 in char_val sc (mm p) - char_val sc (mm q))"

text \<open>\<open>memcmp\<close> walks from the last byte to the first; its second test repeats the first, as in
  the source.\<close>

fun memcmp_loop :: "bool \<Rightarrow> bytes \<Rightarrow> nat \<Rightarrow> nat \<Rightarrow> nat \<Rightarrow> int" where
  "memcmp_loop sc mm p1 p2 0 = 0"
| "memcmp_loop sc mm p1 p2 (Suc k) =
     (if char_val sc (mm (p1 + k)) > char_val sc (mm (p2 + k)) then 1
      else if char_val sc (mm (p1 + k)) > char_val sc (mm (p2 + k)) then - 1
      else memcmp_loop sc mm p1 p2 k)"

definition memcmp :: "bool \<Rightarrow> bytes \<Rightarrow> nat \<Rightarrow> nat \<Rightarrow> u32 \<Rightarrow> int" where
  "memcmp sc mm m1 m2 sz = (if sz = 0 then 0 else memcmp_loop sc mm m1 m2 (unat sz))"

section \<open>Searching\<close>

partial_function (option) strlen_loop :: "bytes \<Rightarrow> nat \<Rightarrow> u32 \<Rightarrow> u32 option" where
  [code]: "strlen_loop mm p len = (if mm p \<noteq> 0 then strlen_loop mm (p + 1) (len + 1) else Some len)"

definition strlen :: "bytes \<Rightarrow> nat \<Rightarrow> u32 option" where
  "strlen mm str = (if str = 0 then Some 0 else strlen_loop mm str 0)"

partial_function (option) strchr_loop :: "bool \<Rightarrow> bytes \<Rightarrow> nat \<Rightarrow> int \<Rightarrow> nat option" where
  [code]: "strchr_loop sc mm p ch =
     (if mm p \<noteq> 0 \<and> char_val sc (mm p) \<noteq> ch then strchr_loop sc mm (p + 1) ch else Some p)"

definition strchr :: "bool \<Rightarrow> bytes \<Rightarrow> nat \<Rightarrow> int \<Rightarrow> nat option" where
  "strchr sc mm str ch =
     (if str = 0 then Some 0
      else map_option (\<lambda>p. if char_val sc (mm p) = ch then p else 0) (strchr_loop sc mm str ch))"

definition bc_fill :: "bytes \<Rightarrow> nat \<Rightarrow> int \<Rightarrow> (u8 \<Rightarrow> int)" where
  "bc_fill mm needle nlen =
     foldl (\<lambda>t i. t(mm (needle + i) := nlen - 1 - int i)) (\<lambda>_. nlen) [0..<nat (nlen - 1)]"

fun bmh_match :: "bytes \<Rightarrow> nat \<Rightarrow> nat \<Rightarrow> nat \<Rightarrow> bool" where
  "bmh_match mm needle hay 0 = (mm needle = mm hay)"
| "bmh_match mm needle hay (Suc i) =
     (mm (needle + Suc i) = mm (hay + Suc i) \<and> bmh_match mm needle hay i)"

partial_function (option) bmh_loop ::
    "bytes \<Rightarrow> nat \<Rightarrow> int \<Rightarrow> (u8 \<Rightarrow> int) \<Rightarrow> int \<Rightarrow> nat \<Rightarrow> nat option" where
  [code]: "bmh_loop mm needle nlen t hlen hay =
     (if hlen \<ge> nlen then
        if bmh_match mm needle hay (nat (nlen - 1)) then Some hay
        else let sh = t (mm (hay + nat (nlen - 1)))
             in bmh_loop mm needle nlen t (hlen - sh) (hay + nat sh)
      else Some 0)"

definition strstr_bmh :: "bytes \<Rightarrow> nat \<Rightarrow> nat \<Rightarrow> nat option" where
  "strstr_bmh mm haystack needle =
     (case strlen mm needle of None \<Rightarrow> None
      | Some nl \<Rightarrow> (case strlen mm haystack of None \<Rightarrow> None
         | Some hl \<Rightarrow>
             if mm needle = 0 then Some haystack
             else bmh_loop mm needle (sint nl) (bc_fill mm needle (sint nl)) (sint hl) haystack))"

definition strstr :: "bytes \<Rightarrow> nat \<Rightarrow> nat \<Rightarrow> nat option" where
  "strstr mm haystack needle = strstr_bmh mm haystack needle"

text \<open>\<open>strtok\<close> keeps its cursor in the static \<open>last\<close>; the result is the memory, the new \<open>last\<close> and
  the token. \<open>tok_scan b\<close> is both scan loops: it moves on while membership in the delimiters is
  \<open>b\<close>.\<close>

partial_function (option) tok_scan :: "bool \<Rightarrow> bool \<Rightarrow> bytes \<Rightarrow> nat \<Rightarrow> nat \<Rightarrow> nat option" where
  [code]: "tok_scan sc b mm delims p =
     (if mm p \<noteq> 0 then
        (case strchr sc mm delims (char_val sc (mm p)) of None \<Rightarrow> None
         | Some q \<Rightarrow> if (q \<noteq> 0) = b then tok_scan sc b mm delims (p + 1) else Some p)
      else Some p)"

definition strtok :: "bool \<Rightarrow> bytes \<Rightarrow> nat \<Rightarrow> nat \<Rightarrow> nat \<Rightarrow> (bytes \<times> nat \<times> nat) option" where
  "strtok sc mm last0 str delims =
     (if str = 0 then Some (mm, last0, 0)
      else case tok_scan sc True mm delims str of None \<Rightarrow> None
      | Some token \<Rightarrow>
          if mm token = 0 then Some (mm, 0, 0)
          else (case tok_scan sc False mm delims str of None \<Rightarrow> None
          | Some e \<Rightarrow> if mm e \<noteq> 0 then Some (mm(e := 0), e + 1, token) else Some (mm, e, token)))"

end
