(* ===== verification/Kstring_Props.thy ===== *)
theory Kstring_Props
  imports Kstring "HOL-Library.Sublist"
begin

text \<open>
  Correctness of the kernel string library: block copies and fills write exactly their range,
  the comparisons are the lexicographic order on NUL terminated strings, and the
  Boyer-Moore-Horspool search of \<open>strstr\<close> returns the first occurrence, as the naive search
  does.
\<close>

section \<open>Strings in memory\<close>

text \<open>The memory holds the NUL terminated string \<open>s\<close> at address \<open>p\<close>.\<close>

fun cstr_at :: "bytes \<Rightarrow> nat \<Rightarrow> u8 list \<Rightarrow> bool" where
  "cstr_at mm p [] \<longleftrightarrow> mm p = 0"
| "cstr_at mm p (c # cs) \<longleftrightarrow> c \<noteq> 0 \<and> mm p = c \<and> cstr_at mm (Suc p) cs"

text \<open>A memory with the bytes \<open>bs\<close> written at \<open>p\<close>.\<close>

definition poke :: "nat \<Rightarrow> u8 list \<Rightarrow> bytes \<Rightarrow> bytes" where
  "poke p bs mm = (\<lambda>a. if p \<le> a \<and> a < p + length bs then bs ! (a - p) else mm a)"

lemma cstr_at_nth: "cstr_at mm p s \<Longrightarrow> i < length s \<Longrightarrow> mm (p + i) = s ! i"
  by (induction mm p s arbitrary: i rule: cstr_at.induct) (auto simp: nth_Cons split: nat.splits)

lemma cstr_at_end: "cstr_at mm p s \<Longrightarrow> mm (p + length s) = 0"
  by (induction mm p s rule: cstr_at.induct) auto

lemma cstr_at_nonzero: "cstr_at mm p s \<Longrightarrow> c \<in> set s \<Longrightarrow> c \<noteq> 0"
  by (induction mm p s rule: cstr_at.induct) auto

lemma cstr_at_iff:
  "cstr_at mm p s \<longleftrightarrow> (\<forall>i < length s. mm (p + i) = s ! i \<and> s ! i \<noteq> 0) \<and> mm (p + length s) = 0"
proof (induction mm p s rule: cstr_at.induct)
  case (2 mm p c cs)
  show ?case
    by (auto simp: 2 less_Suc_eq_0_disj nth_Cons split: nat.splits)
qed simp

lemma cstr_at_nil_iff: "cstr_at mm p s \<Longrightarrow> mm p = 0 \<longleftrightarrow> s = []"
  by (cases s) auto

section \<open>Lengths and scans\<close>

lemma strlen_loop_eq: "cstr_at mm p s \<Longrightarrow> strlen_loop mm p n = Some (n + of_nat (length s))"
proof (induction s arbitrary: p n)
  case Nil
  then show ?case by (simp add: strlen_loop.simps)
next
  case (Cons c s)
  then show ?case by (subst strlen_loop.simps) (simp add: algebra_simps)
qed

lemma strlen_eq: "cstr_at mm p s \<Longrightarrow> p \<noteq> 0 \<Longrightarrow> strlen mm p = Some (of_nat (length s))"
  by (simp add: strlen_def strlen_loop_eq)

lemma sint_of_length: "n < 2 ^ 31 \<Longrightarrow> sint (of_nat n :: u32) = int n"
  by (simp add: signed_of_nat signed_take_bit_int_eq_self_iff)

lemma char_val_inj [simp]: "char_val sc a = char_val sc b \<longleftrightarrow> a = b"
  by (auto simp: char_val_def signed_word_eqI unsigned_word_eqI)

lemma char_val_zero [simp]: "char_val sc 0 = 0"
  by (simp add: char_val_def)

section \<open>The search\<close>

text \<open>The reference: try every offset in turn.\<close>

fun find_sub :: "'a list \<Rightarrow> 'a list \<Rightarrow> nat option" where
  "find_sub n [] = (if n = [] then Some 0 else None)"
| "find_sub n (c # cs) = (if prefix n (c # cs) then Some 0 else map_option Suc (find_sub n cs))"

lemma find_sub_None: "find_sub n h = None \<longleftrightarrow> (\<forall>k \<le> length h. \<not> prefix n (drop k h))"
proof (induction n h rule: find_sub.induct)
  case (2 n c cs)
  have "(\<forall>k \<le> length (c # cs). \<not> prefix n (drop k (c # cs)))
      \<longleftrightarrow> \<not> prefix n (c # cs) \<and> (\<forall>k \<le> length cs. \<not> prefix n (drop k cs))"
    by (metis Suc_le_mono bot_nat_0.extremum drop0 drop_Suc_Cons length_Cons not0_implies_Suc)
  then show ?case using 2 by auto
qed auto

lemma find_sub_Some:
  "k \<le> length h \<Longrightarrow> prefix n (drop k h) \<Longrightarrow> (\<And>j. j < k \<Longrightarrow> \<not> prefix n (drop j h)) \<Longrightarrow> find_sub n h = Some k"
proof (induction n h arbitrary: k rule: find_sub.induct)
  case (2 n c cs)
  show ?case
  proof (cases k)
    case 0
    then show ?thesis using 2 by simp
  next
    case (Suc k')
    have "\<not> prefix n (drop j cs)" if "j < k'" for j
      using 2(4) [of "Suc j"] that Suc by simp
    then have "find_sub n cs = Some k'"
      using 2 Suc by (metis Suc_le_mono drop0 drop_Suc_Cons length_Cons zero_less_Suc)
    moreover have "\<not> prefix n (c # cs)" using 2(4) [of 0] Suc by simp
    ultimately show ?thesis using Suc by simp
  qed
qed auto

lemma bmh_match_iff: "bmh_match mm n h k \<longleftrightarrow> (\<forall>i \<le> k. mm (n + i) = mm (h + i))"
  by (induction k) (auto simp: le_Suc_eq)

text \<open>The occurrence of the needle at an address, and what the shift table promises.\<close>

definition occurs :: "bytes \<Rightarrow> nat \<Rightarrow> nat \<Rightarrow> nat \<Rightarrow> bool" where
  "occurs mm needle m a \<longleftrightarrow> (\<forall>i < m. mm (needle + i) = mm (a + i))"

lemma bc_fold:
  fixes nl :: int and mm :: bytes and needle :: nat
  defines "t \<equiv> \<lambda>k. foldl (\<lambda>t i. t(mm (needle + i) := nl - 1 - int i)) (\<lambda>_. nl) [0..<k]"
  assumes "int k < nl"
  shows "nl - int k \<le> t k c \<and> t k c \<le> nl \<and> (\<forall>i < k. mm (needle + i) = c \<longrightarrow> t k c \<le> nl - 1 - int i)"
proof -
  have t: "t 0 c = nl" "\<And>k. t (Suc k) c = (if mm (needle + k) = c then nl - 1 - int k else t k c)"
    unfolding t_def by auto
  show ?thesis using assms(2)
    by (induction k) (auto simp: t less_Suc_eq)
qed

lemma bc_fill_props:
  assumes "0 < m"
  shows "1 \<le> bc_fill mm needle (int m) c" "bc_fill mm needle (int m) c \<le> int m"
    "i < m - 1 \<Longrightarrow> mm (needle + i) = c \<Longrightarrow> bc_fill mm needle (int m) c \<le> int m - 1 - int i"
proof -
  have k: "nat (int m - 1) = m - 1" "int (m - 1) < int m" using assms by auto
  note f = bc_fold [of "m - 1" "int m" mm needle c, OF k(2)]
  show "1 \<le> bc_fill mm needle (int m) c" "bc_fill mm needle (int m) c \<le> int m"
    "i < m - 1 \<Longrightarrow> mm (needle + i) = c \<Longrightarrow> bc_fill mm needle (int m) c \<le> int m - 1 - int i"
    using f assms unfolding bc_fill_def k(1) by auto
qed

text \<open>No occurrence is jumped over: one inside the shifted distance would place the last
  character of the window on an earlier character of the needle.\<close>

lemma bmh_shift_safe:
  assumes "0 < m" and "a < b" and "int b < int a + bc_fill mm needle (int m) (mm (a + (m - 1)))"
  shows "\<not> occurs mm needle m b"
proof
  assume occ: "occurs mm needle m b"
  let ?c = "mm (a + (m - 1))"
  have "int b < int a + int m" using bc_fill_props(2) [OF assms(1), of mm needle ?c] assms(3) by linarith
  then have b: "b - a \<le> m - 1" using assms(1) by auto
  define i where "i = m - 1 - (b - a)"
  have i: "i < m - 1" "b + i = a + (m - 1)" using b assms(1,2) unfolding i_def by auto
  then have "mm (needle + i) = ?c" using occ unfolding occurs_def by auto
  then have "bc_fill mm needle (int m) ?c \<le> int m - 1 - int i"
    by (rule bc_fill_props(3) [OF assms(1) i(1)])
  moreover have "int m - 1 - int i = int b - int a" using i assms(1,2) b unfolding i_def by auto
  ultimately show False using assms(3) by linarith
qed

lemma bmh_loop_spec:
  assumes "0 < m" and "a \<le> e"
  shows "\<exists>r. bmh_loop mm needle (int m) (bc_fill mm needle (int m)) (int e - int a) a = Some r \<and>
      (a \<le> r \<and> r + m \<le> e \<and> occurs mm needle m r \<and> (\<forall>b. a \<le> b \<longrightarrow> b < r \<longrightarrow> \<not> occurs mm needle m b)
       \<or> r = 0 \<and> (\<forall>b. a \<le> b \<longrightarrow> b + m \<le> e \<longrightarrow> \<not> occurs mm needle m b))"
  using assms(2)
proof (induction "e - a" arbitrary: a rule: less_induct)
  case less
  let ?t = "bc_fill mm needle (int m)"
  note unf = bmh_loop.simps [of mm needle "int m" ?t "int e - int a" a]
  have k: "nat (int m - 1) = m - 1" using assms(1) by auto
  show ?case
  proof (cases "a + m \<le> e")
    case False
    then show ?thesis using unf by auto
  next
    case in_range: True
    have match: "bmh_match mm needle a (m - 1) \<longleftrightarrow> occurs mm needle m a"
      using assms(1) by (auto simp: bmh_match_iff occurs_def)
    show ?thesis
    proof (cases "occurs mm needle m a")
      case True
      then show ?thesis using unf in_range match k by auto
    next
      case False
      define sh where "sh = nat (?t (mm (a + (m - 1))))"
      have sh: "int sh = ?t (mm (a + (m - 1)))" "1 \<le> sh" "sh \<le> m"
        using bc_fill_props(1,2) [OF assms(1), of mm needle "mm (a + (m - 1))"] unfolding sh_def by linarith+
      have "bmh_loop mm needle (int m) ?t (int e - int a) a
          = bmh_loop mm needle (int m) ?t (int e - int (a + sh)) (a + sh)"
        unfolding unf k using in_range match False sh(1) by (simp add: Let_def algebra_simps sh_def)
      moreover have le: "e - (a + sh) < e - a" "a + sh \<le> e" using sh in_range assms(1) by auto
      moreover have skip: "\<not> occurs mm needle m b" if "a \<le> b" "b < a + sh" for b
        using False bmh_shift_safe [OF assms(1), of a b mm needle] sh(1) that
        by (cases "a = b") auto
      moreover have skip': "\<not> occurs mm needle m b" if "a \<le> b" "a + sh \<le> b \<Longrightarrow> \<not> occurs mm needle m b" for b
        using skip that by (cases "b < a + sh") auto
      ultimately show ?thesis using less(1) [OF le]
        by (elim exE conjE disjE) (auto intro!: skip')
    qed
  qed
qed

lemma occurs_prefix:
  assumes "cstr_at mm h hs" "cstr_at mm n ns" "k \<le> length hs"
  shows "prefix ns (drop k hs) \<longleftrightarrow> k + length ns \<le> length hs \<and> occurs mm n (length ns) (h + k)"
proof
  assume "prefix ns (drop k hs)"
  then obtain zs where z: "drop k hs = ns @ zs" by (auto elim: prefixE)
  then have len: "length hs - k = length ns + length zs" by (metis length_append length_drop)
  have "mm (n + i) = mm (h + k + i)" if "i < length ns" for i
  proof -
    have "ns ! i = drop k hs ! i" using z that by (simp add: nth_append)
    then show ?thesis
      using cstr_at_nth [OF assms(2) that] cstr_at_nth [OF assms(1), of "k + i"] len that assms(3)
      by (simp add: add.assoc)
  qed
  then show "k + length ns \<le> length hs \<and> occurs mm n (length ns) (h + k)"
    using len assms(3) by (simp add: occurs_def)
next
  assume r: "k + length ns \<le> length hs \<and> occurs mm n (length ns) (h + k)"
  have "take (length ns) (drop k hs) = ns"
  proof (rule nth_equalityI)
    fix i assume "i < length (take (length ns) (drop k hs))"
    then have i: "i < length ns" by simp
    then show "take (length ns) (drop k hs) ! i = ns ! i"
      using r cstr_at_nth [OF assms(2) i] cstr_at_nth [OF assms(1), of "k + i"]
      by (simp add: occurs_def add.assoc)
  qed (use r in auto)
  then show "prefix ns (drop k hs)" by (metis take_is_prefix)
qed

text \<open>C32: \<open>strstr\<close> (Boyer-Moore-Horspool with its bad character table) always returns, and returns
  what the naive search returns: the address of the first occurrence of the needle in the
  haystack, or NULL when it does not occur. The strings must be shorter than \<open>2^31\<close>, the range
  of the \<open>int\<close> that holds their lengths.\<close>

theorem strstr_first_occurrence:
  assumes h: "cstr_at mm hay hs" and n: "cstr_at mm needle ns"
    and nz: "hay \<noteq> 0" "needle \<noteq> 0" and len: "length hs < 2 ^ 31" "length ns < 2 ^ 31"
  shows "strstr mm hay needle = Some (case find_sub ns hs of None \<Rightarrow> 0 | Some k \<Rightarrow> hay + k)"
proof (cases "ns = []")
  case True
  moreover have "find_sub [] hs = Some 0" by (cases hs) auto
  ultimately show ?thesis
    using n by (simp add: strstr_def strstr_bmh_def strlen_eq [OF h nz(1)] strlen_eq [OF n nz(2)])
next
  case False
  then have m: "0 < length ns" "mm needle \<noteq> 0" using cstr_at_nil_iff [OF n] by auto
  have eq: "strstr mm hay needle = bmh_loop mm needle (int (length ns))
      (bc_fill mm needle (int (length ns))) (int (hay + length hs) - int hay) hay"
    using m(2) by (simp add: strstr_def strstr_bmh_def strlen_eq [OF h nz(1)] strlen_eq [OF n nz(2)]
        sint_of_length len [simplified])
  note pre = occurs_prefix [OF h n]
  obtain r where r: "strstr mm hay needle = Some r"
    and alt: "hay \<le> r \<and> r + length ns \<le> hay + length hs \<and> occurs mm needle (length ns) r
          \<and> (\<forall>b. hay \<le> b \<longrightarrow> b < r \<longrightarrow> \<not> occurs mm needle (length ns) b)
       \<or> r = 0 \<and> (\<forall>b. hay \<le> b \<longrightarrow> b + length ns \<le> hay + length hs \<longrightarrow> \<not> occurs mm needle (length ns) b)"
    using bmh_loop_spec [OF m(1), of hay "hay + length hs" mm needle] eq by auto
  from alt show ?thesis
  proof
    assume a: "hay \<le> r \<and> r + length ns \<le> hay + length hs \<and> occurs mm needle (length ns) r
          \<and> (\<forall>b. hay \<le> b \<longrightarrow> b < r \<longrightarrow> \<not> occurs mm needle (length ns) b)"
    then obtain k where k: "r = hay + k" by (metis le_iff_add)
    have "find_sub ns hs = Some k"
      using a k pre by (intro find_sub_Some) auto
    then show ?thesis using r k by simp
  next
    assume a: "r = 0 \<and> (\<forall>b. hay \<le> b \<longrightarrow> b + length ns \<le> hay + length hs \<longrightarrow> \<not> occurs mm needle (length ns) b)"
    then have "find_sub ns hs = None" using pre by (auto simp: find_sub_None)
    then show ?thesis using r a by simp
  qed
qed

theorem strstr_first_occurrence_witness:
  "strstr (poke 10 [109, 105, 121, 111, 111] (poke 20 [111, 111] (\<lambda>_. 0))) 10 20 = Some 13"
  using strstr_first_occurrence [of "poke 10 [109, 105, 121, 111, 111] (poke 20 [111, 111] (\<lambda>_. 0))"
      10 "[109, 105, 121, 111, 111]" 20 "[111, 111]"]
  by (simp add: poke_def)

section \<open>The comparisons\<close>

text \<open>The reference: the difference at the first position where two strings differ, with the
  terminator as character 0.\<close>

fun cmp_ref :: "bool \<Rightarrow> u8 list \<Rightarrow> u8 list \<Rightarrow> int" where
  "cmp_ref sc [] [] = 0"
| "cmp_ref sc [] (b # bs) = - char_val sc b"
| "cmp_ref sc (a # as) [] = char_val sc a"
| "cmp_ref sc (a # as) (b # bs) = (if a = b then cmp_ref sc as bs else char_val sc a - char_val sc b)"

text \<open>The characters whose order does not depend on the signedness of \<open>char\<close>.\<close>

definition plain :: "bool \<Rightarrow> u8 list \<Rightarrow> bool" where
  "plain sc s \<longleftrightarrow> sc \<longrightarrow> (\<forall>c \<in> set s. c < 128)"

lemma char_val_plain: "(sc \<longrightarrow> c < 128) \<Longrightarrow> char_val sc c = uint c"
proof (cases sc)
  case True
  assume "sc \<longrightarrow> c < 128"
  then have "uint c < 128" using True by (simp add: word_less_def)
  moreover have "- 128 \<le> uint c" by (rule order_trans [OF _ uint_nonnegative]) simp
  ultimately have "sint c = uint c"
    by (simp add: sint_uint signed_take_bit_int_eq_self_iff)
  then show ?thesis using True by (simp add: char_val_def)
qed (simp add: char_val_def)

lemma cmp_ref_zero:
  "0 \<notin> set a \<Longrightarrow> 0 \<notin> set b \<Longrightarrow> cmp_ref sc a b = 0 \<longleftrightarrow> a = b"
  using char_val_inj [of sc _ 0]
  by (induction sc a b rule: cmp_ref.induct) auto

lemma cmp_ref_neg:
  "0 \<notin> set a \<Longrightarrow> 0 \<notin> set b \<Longrightarrow> plain sc a \<Longrightarrow> plain sc b \<Longrightarrow> cmp_ref sc a b < 0 \<longleftrightarrow> ord_class.lexordp a b"
proof (induction sc a b rule: cmp_ref.induct)
  case (2 sc b bs)
  then have "0 < b" by (simp add: word_neq_0_conv [symmetric])
  then have "0 < uint b" by (simp add: word_less_def)
  then show ?case using 2 by (auto simp: plain_def char_val_plain)
next
  case (3 sc a as)
  then show ?case by (auto simp: plain_def char_val_plain not_less)
next
  case (4 sc a as b bs)
  show ?case
  proof (cases "a = b")
    case False
    then have "uint a \<noteq> uint b" using unsigned_word_eqI by blast
    then show ?thesis using 4(4,5) False by (auto simp: plain_def char_val_plain word_less_def)
  qed (use 4 in \<open>auto simp: plain_def\<close>)
qed simp

lemma strcmp_loop_ref:
  "cstr_at mm p a \<Longrightarrow> cstr_at mm q b \<Longrightarrow>
   map_option (\<lambda>(p, q). char_val sc (mm p) - char_val sc (mm q)) (strcmp_loop mm p q) = Some (cmp_ref sc a b)"
proof (induction sc a b arbitrary: p q rule: cmp_ref.induct)
  case (4 sc a as b bs)
  then show ?case by (subst strcmp_loop.simps) auto
qed (subst strcmp_loop.simps; auto)+

lemma strncmp_loop_ref:
  "cstr_at mm p a \<Longrightarrow> cstr_at mm q b \<Longrightarrow> i < n \<Longrightarrow>
   (case strncmp_loop mm p q n i of (p, q) \<Rightarrow> char_val sc (mm p) - char_val sc (mm q))
   = cmp_ref sc (take (unat n - unat i) a) (take (unat n - unat i) b)"
proof (induction sc a b arbitrary: p q i rule: cmp_ref.induct)
  case (4 sc a as b bs)
  have d: "unat n - unat i = Suc (unat n - unat (i + 1))"
    using 4(4) by (simp add: unat_inc_less word_less_nat_alt)
  have last: "i < n - 1 \<longleftrightarrow> i + 1 < n" if "i < n"
    using that by unat_arith
  show ?case
  proof (cases "a = b \<and> i < n - 1")
    case True
    then show ?thesis using 4 last by (subst strncmp_loop.simps) (auto simp: d)
  next
    case False
    then have "unat n - unat (i + 1) = 0 \<or> a \<noteq> b" using 4(4) last by (auto simp: word_less_nat_alt not_less)
    then show ?thesis using False 4 by (subst strncmp_loop.simps) (auto simp: d)
  qed
qed (subst strncmp_loop.simps; auto simp: take_Cons' word_less_nat_alt)+

text \<open>\<open>strcmp\<close> returns on NUL terminated strings and orders them lexicographically: it is zero
  exactly for equal strings and negative exactly when the first is smaller; \<open>strncmp\<close> does the
  same on the first \<open>n\<close> characters. Where \<open>char\<close> is signed this needs characters below 128.\<close>

theorem string_comparison:
  assumes a: "cstr_at mm p a" and b: "cstr_at mm q b" and nz: "p \<noteq> 0" "q \<noteq> 0"
    and pl: "plain sc a" "plain sc b"
  shows "(\<exists>r. strcmp sc mm p q = Some r \<and> (r = 0 \<longleftrightarrow> a = b) \<and> (r < 0 \<longleftrightarrow> ord_class.lexordp a b))
     \<and> (strncmp sc mm p q n = 0 \<longleftrightarrow> take (unat n) a = take (unat n) b)
     \<and> (strncmp sc mm p q n < 0 \<longleftrightarrow> ord_class.lexordp (take (unat n) a) (take (unat n) b))"
proof -
  have z: "0 \<notin> set a" "0 \<notin> set b" using cstr_at_nonzero a b by blast+
  have "\<exists>r. strcmp sc mm p q = Some r \<and> (r = 0 \<longleftrightarrow> a = b) \<and> (r < 0 \<longleftrightarrow> ord_class.lexordp a b)"
    using nz by (simp add: strcmp_def strcmp_loop_ref [OF a b] cmp_ref_zero cmp_ref_neg z pl)
  moreover have t: "0 \<notin> set (take k a)" "0 \<notin> set (take k b)" "plain sc (take k a)" "plain sc (take k b)" for k
    using z pl by (auto simp: plain_def dest: in_set_takeD)
  have "strncmp sc mm p q n = cmp_ref sc (take (unat n) a) (take (unat n) b)"
    using nz strncmp_loop_ref [OF a b, of 0 n sc]
    by (cases "n = 0") (auto simp: strncmp_def word_neq_0_conv)
  ultimately show ?thesis
    using t by (simp add: cmp_ref_zero cmp_ref_neg)
qed

theorem string_comparison_witness:
  "strncmp True (poke 10 [97, 98, 99] (poke 20 [97, 98, 100] (\<lambda>_. 0))) 10 20 2 = 0"
  using string_comparison [of "poke 10 [97, 98, 99] (poke 20 [97, 98, 100] (\<lambda>_. 0))"
      10 "[97, 98, 99]" 20 "[97, 98, 100]" True 2]
  by (simp add: poke_def plain_def word_less_def)

section \<open>Block copy and fill\<close>

definition copied :: "bytes \<Rightarrow> nat \<Rightarrow> nat \<Rightarrow> nat \<Rightarrow> bytes" where
  "copied mm t s n = (\<lambda>a. if t \<le> a \<and> a < t + n then mm (s + (a - t)) else mm a)"

definition filled :: "bytes \<Rightarrow> nat \<Rightarrow> u8 \<Rightarrow> nat \<Rightarrow> bytes" where
  "filled mm t v n = (\<lambda>a. if t \<le> a \<and> a < t + n then v else mm a)"

definition apart :: "nat \<Rightarrow> nat \<Rightarrow> nat \<Rightarrow> bool" where
  "apart t s n \<longleftrightarrow> t + n \<le> s \<or> s + n \<le> t"

lemma copied_0 [simp]: "copied mm t s 0 = mm"
  by (auto simp: copied_def fun_eq_iff)

lemma copied_append:
  "apart t s (a + b) \<Longrightarrow> copied (copied mm t s a) (t + a) (s + a) b = copied mm t s (a + b)"
  by (auto simp: copied_def apart_def fun_eq_iff)

lemma copied_step:
  "apart t s n \<Longrightarrow> k < n \<Longrightarrow>
   (copied mm t s k)(t + k := copied mm t s k (s + k)) = copied mm t s (Suc k)"
  by (auto simp: copied_def apart_def fun_eq_iff)

lemma memcpy_tail_spec:
  "k \<le> n \<Longrightarrow> apart t s (unat n) \<Longrightarrow> memcpy_tail (copied mm t s (unat k)) t s k n = copied mm t s (unat n)"
proof (induction "unat n - unat k" arbitrary: k rule: less_induct)
  case less
  show ?case
  proof (cases "k < n")
    case True
    then have "copied mm t s (unat (k + 1)) = (copied mm t s (unat k))(t + unat k := copied mm t s (unat k) (s + unat k))"
      using copied_step [OF less(3), of "unat k" mm] by (simp add: unat_inc_less word_less_nat_alt)
    moreover have "k + 1 \<le> n" using True by (simp add: unat_inc_less word_le_nat_alt word_less_nat_alt)
    ultimately show ?thesis
      using True less(1) [of "k + 1"] dist_dec [OF True] less(3) by (subst memcpy_tail.simps) simp
  next
    case False
    then show ?thesis using less(2) by (subst memcpy_tail.simps) simp
  qed
qed

text \<open>What \<open>memcpy\<close> needs of the assembly routine: on ranges that do not overlap it copies
  exactly its range.\<close>

locale block_copy =
  fixes cpy32 :: "bytes \<Rightarrow> nat \<Rightarrow> nat \<Rightarrow> nat \<Rightarrow> bytes"
  assumes copies: "apart t s n \<Longrightarrow> cpy32 mm t s n = copied mm t s n"
begin

lemma memcpy_copies:
  assumes "t \<noteq> 0" "s \<noteq> 0" "apart t s (unat n)"
  shows "memcpy cpy32 mm t s n = (copied mm t s (unat n), t)"
proof -
  define k where "k = (n div 32) * 32"
  have "unat k = unat n div 32 * 32"
    using unat_mult_lem [of "n div 32" "32::u32"] unsigned_less [where ?'a = nat and w = n]
    unfolding k_def by (simp add: unat_div) linarith
  then have k: "unat k \<le> unat n" "k \<le> n" by (simp_all add: word_le_nat_alt)
  have z: "n div 32 = 0 \<Longrightarrow> k = 0" unfolding k_def by simp
  have "apart t s (unat k)" using k(1) assms(3) by (auto simp: apart_def)
  then have "cpy32 mm t s (unat k) = copied mm t s (unat k)" by (rule copies)
  then show ?thesis
    using assms memcpy_tail_spec [OF k(2) assms(3), of mm] memcpy_tail_spec [OF _ assms(3), of 0 mm] z
    by (cases "n div 32 = 0") (auto simp: memcpy_def Let_def k_def [symmetric] word_neq_0_conv)
qed

end

lemma rep_movsb_spec: "apart t s n \<Longrightarrow> rep_movsb mm t s n = copied mm t s n"
proof (induction mm t s n rule: rep_movsb.induct)
  case (2 mm t s k)
  have "apart (t + 1) (s + 1) k" using 2(2) by (auto simp: apart_def)
  then have "rep_movsb mm t s (Suc k) = copied (mm(t := mm s)) (t + 1) (s + 1) k"
    using 2(1) by (simp add: fun_upd_def)
  also have "mm(t := mm s) = copied mm t s 1" by (auto simp: copied_def fun_eq_iff)
  finally show ?case using copied_append [of t s 1 k mm] 2(2) by simp
qed simp

lemma rep_movsq_spec: "apart t s (8 * n) \<Longrightarrow> rep_movsq mm t s n = copied mm t s (8 * n)"
proof (induction mm t s n rule: rep_movsq.induct)
  case (2 mm t s k)
  have "apart (t + 8) (s + 8) (8 * k)" using 2(2) by (auto simp: apart_def)
  then have "rep_movsq mm t s (Suc k) = copied (store64 mm t (load64 mm s)) (t + 8) (s + 8) (8 * k)"
    using 2(1) by simp
  also have "store64 mm t (load64 mm s) = copied mm t s 8"
    by (auto simp: store64_def load64_def copied_def fun_eq_iff simp del: upt_rec_numeral)
  finally show ?case using copied_append [of t s 8 "8 * k" mm] 2(2) by simp
qed simp

interpretation x86: block_copy memcpy32_x86
proof
  fix t s n :: nat and mm :: bytes
  assume a: "apart t s n"
  define q where "q = n div 8"
  have n: "8 * q + n mod 8 = n" unfolding q_def by simp
  have "apart t s (8 * q)" "apart (t + 8 * q) (s + 8 * q) (n mod 8)" using a n by (auto simp: apart_def)
  then have "memcpy32_x86 mm t s n = copied (copied mm t s (8 * q)) (t + 8 * q) (s + 8 * q) (n mod 8)"
    by (simp add: memcpy32_x86_def Let_def q_def [symmetric] rep_movsq_spec rep_movsb_spec)
  also have "\<dots> = copied mm t s n" using copied_append [of t s "8 * q" "n mod 8" mm] a n by simp
  finally show "memcpy32_x86 mm t s n = copied mm t s n" .
qed

text \<open>\<open>memcpy\<close>, which hands the multiple of 32 bytes to the block routine and copies the rest
  itself, copies exactly \<open>n\<close> bytes between ranges that do not overlap and changes nothing else,
  for every routine that copies exactly its own range.\<close>

theorem memcpy_exact:
  assumes "\<And>mm t s n. apart t s n \<Longrightarrow> cpy32 mm t s n = copied mm t s n"
    and "t \<noteq> 0" "s \<noteq> 0" "apart t s (unat n)"
  shows "memcpy cpy32 mm t s n = (copied mm t s (unat n), t)"
  using assms by (intro block_copy.memcpy_copies block_copy.intro)

theorem memcpy_exact_witness:
  "fst (memcpy memcpy32_x86 (poke 10 [1, 2, 3] (\<lambda>_. 0)) 100 10 40) 102 = 3"
  using memcpy_exact [of memcpy32_x86 100 10 40 "poke 10 [1, 2, 3] (\<lambda>_. 0)", OF x86.copies]
  by (simp add: apart_def copied_def poke_def)

lemma filled_0 [simp]: "filled mm t v 0 = mm"
  by (auto simp: filled_def fun_eq_iff)

lemma filled_append: "filled (filled mm t v a) (t + a) v b = filled mm t v (a + b)"
  by (auto simp: filled_def fun_eq_iff)

lemma set_bytes_spec: "set_bytes mm t v n = filled mm t v n"
proof (induction mm t v n rule: set_bytes.induct)
  case (2 mm t v k)
  have "mm(t := v) = filled mm t v 1" by (auto simp: filled_def fun_eq_iff)
  then show ?case using 2 filled_append [of mm t v 1 k] by simp
qed simp

text \<open>The word that \<open>memset\<close> builds by shifting holds the byte four times when the promotion of
  the byte to \<open>int\<close> does not sign extend it.\<close>


lemma splat_bytes:
  assumes "sc \<longrightarrow> v < 128"
  shows "(ucast (splat sc v) :: u8) = v" "(ucast (drop_bit 8 (splat sc v)) :: u8) = v"
    "(ucast (drop_bit 16 (splat sc v)) :: u8) = v" "(ucast (drop_bit 24 (splat sc v)) :: u8) = v"
proof -
  have c: "(word_of_int (char_val sc v) :: u32) = ucast v"
    by (simp add: char_val_plain [OF assms] unsigned_of_int)
  have high: "\<not> bit v n" if "8 \<le> n" for n
    using that bit_imp_le_length [of v n] by auto
  show "(ucast (splat sc v) :: u8) = v" "(ucast (drop_bit 8 (splat sc v)) :: u8) = v"
    "(ucast (drop_bit 16 (splat sc v)) :: u8) = v" "(ucast (drop_bit 24 (splat sc v)) :: u8) = v"
    unfolding splat_def c Let_def
    by (rule bit_word_eqI; auto simp: bit_simps high)+
qed

lemma set_words_spec:
  "(sc \<longrightarrow> v < 128) \<Longrightarrow>
   (case set_words mm dst (splat sc v) sz of (mm1, dst1, sz1) \<Rightarrow> set_bytes mm1 dst1 v sz1) = filled mm dst v sz"
proof (induction mm dst "splat sc v" sz rule: set_words.induct)
  case (1 mm dst sz)
  have s32: "store32 mm dst (splat sc v) = filled mm dst v 4"
    using splat_bytes [OF 1(2)] by (auto simp: store32_def filled_def fun_eq_iff)
  show ?case
  proof (cases "sz \<ge> 4")
    case True
    then show ?thesis
      using 1(1) [OF True 1(2)] filled_append [of mm dst v 4 "sz - 4"] s32
      by (subst set_words.simps) simp
  next
    case False
    then show ?thesis by (subst set_words.simps) (simp add: set_bytes_spec)
  qed
qed

text \<open>\<open>memset\<close>, which aligns the target, then fills by words, then by bytes, writes the byte to
  exactly \<open>n\<close> addresses and changes nothing else, where \<open>char\<close> is unsigned or the byte is below
  128.\<close>

theorem memset_exact:
  assumes "t \<noteq> 0" and v: "sc \<longrightarrow> (word_of_int c :: u8) < 128"
  shows "memset sc mm t c n = (filled mm t (word_of_int c) (unat n), t)"
proof -
  have w: "memset_words sc mm d (word_of_int c) k = filled mm d (word_of_int c) k" for mm d k
    unfolding memset_words_def Let_def by (rule set_words_spec [OF v])
  show ?thesis
    using assms(1) filled_append [of mm t "word_of_int c" "4 - t mod 4" "unat n - (4 - t mod 4)"]
    by (auto simp: memset_def Let_def w set_bytes_spec)
qed

theorem memset_exact_witness:
  "fst (memset True (\<lambda>_. 0) 6 32 9) 14 = 32 \<and> fst (memset True (\<lambda>_. 0) 6 32 9) 15 = 0"
  using memset_exact [of 6 True 32 "\<lambda>_. 0" 9]
  by (simp add: filled_def word_less_def)

text \<open>Where \<open>char\<close> is signed (x86), \<open>memset\<close> with a byte of 128 or more does not fill the
  range: the promotion sign extends the byte, so an aligned fill of a word stores the byte once
  and 0xFF three times.\<close>

theorem memset_sign_extends:
  assumes "t \<noteq> 0" "t mod 4 = 0" "\<not> (word_of_int c :: u8) < 128"
  shows "fst (memset True mm t c 4) = mm(t := word_of_int c, t + 1 := 0xFF, t + 2 := 0xFF, t + 3 := 0xFF)"
proof -
  define v where "v = (word_of_int c :: u8)"
  have "128 \<le> unat v" "unat v < 256"
    using assms(3) unsigned_less [where ?'a = nat and w = v] by (simp_all add: v_def [symmetric] word_less_nat_alt)
  then have "unat v div 128 = 1" by linarith
  then have "bit (unat v) 7" by (simp add: bit_iff_odd)
  then have b7: "bit v 7" by (simp add: bit_unsigned_iff)
  have c: "(word_of_int (char_val True v) :: u32) = scast v"
    by (simp add: char_val_def signed_of_int)
  have sat: "n = 7" if "n < 8" "7 \<le> n" for n :: nat using that by simp
  have "(ucast (splat True v) :: u8) = v" "(ucast (drop_bit 8 (splat True v)) :: u8) = - 1"
    "(ucast (drop_bit 16 (splat True v)) :: u8) = - 1" "(ucast (drop_bit 24 (splat True v)) :: u8) = - 1"
    unfolding splat_def c Let_def
    by (rule bit_word_eqI, auto simp: bit_simps b7 min_def dest: sat)+
  moreover have "(- 1 :: u8) = 0xFF" by simp
  ultimately show ?thesis
    using assms(1,2)
    by (simp add: memset_def memset_words_def set_words.simps store32_def v_def [symmetric])
qed

theorem memset_sign_extends_witness: "fst (memset True (\<lambda>_. 0) 4 128 4) 5 = 0xFF"
  using memset_sign_extends [of 4 128 "\<lambda>_. 0"] by simp

section \<open>Where the code is not what its comments say\<close>

lemma memcmp_loop_eq:
  "memcmp_loop sc mm p q n = (if \<exists>i < n. char_val sc (mm (p + i)) > char_val sc (mm (q + i)) then 1 else 0)"
  by (induction n) (auto simp: less_Suc_eq)

text \<open>\<open>memcmp\<close> is not an order and does not decide equality: its second test repeats the first,
  so it returns 1 when some byte of the first block is greater than the byte of the second at the
  same place and 0 otherwise, and never a negative number, whatever the blocks hold.\<close>

theorem memcmp_one_sided:
  "memcmp sc mm p q n
   = (if \<exists>i < unat n. char_val sc (mm (p + i)) > char_val sc (mm (q + i)) then 1 else 0)"
  by (cases "n = 0") (simp_all add: memcmp_def memcmp_loop_eq)

lemma sstrncpy_loop_spec:
  assumes src: "cstr_at mm s str" and sep: "\<forall>k \<le> length str. s + k < t \<or> t + unat n < s + k"
    and i: "unat i \<le> unat n" "unat i \<le> length str"
  defines "k \<equiv> min (unat n) (length str)"
  shows "sstrncpy_loop (poke t (take (unat i) str) mm) t s n i = (poke t (take k str) mm, of_nat k)"
  using i
proof (induction "unat n - unat i" arbitrary: i rule: less_induct)
  case less
  let ?m = "poke t (take (unat i) str) mm"
  have rd: "?m (s + unat i) = mm (s + unat i)"
    using sep [rule_format, of "unat i"] less(2,3) by (auto simp: poke_def)
  show ?case
  proof (cases "i < n \<and> unat i < length str")
    case True
    then have ui: "unat (i + 1) = Suc (unat i)" by (auto intro: unat_inc_less)
    have c: "mm (s + unat i) = str ! unat i" "str ! unat i \<noteq> 0"
      using src True by (auto simp: cstr_at_iff)
    have "?m(t + unat i := str ! unat i) = poke t (take (Suc (unat i)) str) mm"
      using True by (auto simp: poke_def fun_eq_iff take_Suc_conv_app_nth nth_append)
    then show ?thesis
      using less(1) [of "i + 1"] True rd c ui dist_dec [of i n]
      by (subst sstrncpy_loop.simps) (simp add: word_less_nat_alt)
  next
    case False
    then have stop: "\<not> (i < n \<and> ?m (s + unat i) \<noteq> 0)"
      using rd cstr_at_end [OF src] less(3) by (cases "unat i = length str") auto
    have "k = unat i" unfolding k_def using False less(2,3) by (auto simp: word_less_nat_alt min_def)
    then show ?thesis using stop by (subst sstrncpy_loop.simps) auto
  qed
qed

text \<open>\<open>sstrncpy\<close> copies up to \<open>n\<close> characters (not \<open>n - 1\<close>) and then writes the terminator, so
  with a source of \<open>n\<close> or more characters it writes the byte at \<open>target + n\<close>, one past a buffer of
  size \<open>n\<close>; it returns the number of characters copied, not the length of the source.\<close>

theorem sstrncpy_behaviour:
  assumes "cstr_at mm s str" "s \<noteq> 0" "\<forall>k \<le> length str. s + k < t \<or> t + unat n < s + k"
  shows "sstrncpy mm t s n
    = (poke t (take (unat n) str @ [0]) mm, of_nat (min (unat n) (length str)))"
proof -
  let ?k = "min (unat n) (length str)"
  have "unat n < 2 ^ 32" using unsigned_less [where ?'a = nat and w = n] by simp
  then have u: "unat (of_nat ?k :: u32) = ?k" by (simp add: unat_of_nat min_def)
  have z: "poke t [] mm = mm" by (auto simp: poke_def fun_eq_iff)
  have tk: "take ?k str = take (unat n) str" by (simp add: min_def)
  have "(poke t (take (unat n) str) mm)(t + ?k := 0) = poke t (take (unat n) str @ [0]) mm"
    by (auto simp: poke_def fun_eq_iff nth_append)
  then show ?thesis
    using sstrncpy_loop_spec [OF assms(1,3), of 0] assms(2) u z tk by (simp add: sstrncpy_def)
qed

theorem sstrncpy_behaviour_witness:
  "fst (sstrncpy (poke 10 [97, 98, 99] (\<lambda>_. 0)) 20 10 2) = poke 20 [97, 98, 0] (poke 10 [97, 98, 99] (\<lambda>_. 0))"
  using sstrncpy_behaviour [of "poke 10 [97, 98, 99] (\<lambda>_. 0)" 10 "[97, 98, 99]" 20 2]
  by (simp add: poke_def le_Suc_eq numeral_3_eq_3)

end
