(* ===== verification/Interrupt.thy ===== *)
theory Interrupt
  imports Cap Sched_Wake
begin

text \<open>
  User level interrupt handlers, \<^verbatim>\<open>kernel/kernel/src/interrupt.c\<close>, their watchdog in
  \<^verbatim>\<open>kernel/kernel/src/proc.c\<close>, and the soft interrupt call of \<^verbatim>\<open>kernel/kernel/src/svc.c\<close>. A process
  registers an entry for a hardware line; a delivery saves the state of the process, marks the
  handler to be injected by \<open>proc_switch\<close>, and masks the line until \<open>interrupt_end\<close> has restored
  the state.

  The mask of the interrupt controller, which \<open>irq_enable_arch\<close> and \<open>irq_disable_arch\<close> of the
  platform write, is the set \<open>irq_masked\<close>. A dereference of a NULL pointer stops the kernel
  (\<open>halted\<close>).
\<close>

section \<open>Data\<close>

record interrupt_handler =
  ih_uuid :: int
  ih_entry :: u64
  ih_data :: u64

record interrupt_item =
  ii_handler :: interrupt_handler
  ii_irq :: u32

record intr_state =
  interrupts :: "interrupt_item list"
  irq_masked :: "u32 set"

definition IRQ_SOFT :: u32 where
  "IRQ_SOFT = 0x2000"

definition SYS_INT_MAX :: nat where
  "SYS_INT_MAX = 64"

definition INTERRUPT_TIMEOUT_USEC :: u32 where
  "INTERRUPT_TIMEOUT_USEC = 3000000"

definition zero_item :: interrupt_item where
  "zero_item = \<lparr>ii_handler = \<lparr>ih_uuid = 0, ih_entry = 0, ih_data = 0\<rparr>, ii_irq = 0\<rparr>"

definition irq_enable_arch :: "u32 \<Rightarrow> intr_state \<Rightarrow> intr_state" where
  "irq_enable_arch irq s = s\<lparr>irq_masked := irq_masked s - {irq}\<rparr>"

definition irq_disable_arch :: "u32 \<Rightarrow> intr_state \<Rightarrow> intr_state" where
  "irq_disable_arch irq s = s\<lparr>irq_masked := insert irq (irq_masked s)\<rparr>"

definition interrupt_init :: "u32 set \<Rightarrow> intr_state" where
  "interrupt_init masked = \<lparr>interrupts = replicate SYS_INT_MAX zero_item, irq_masked = masked\<rparr>"

section \<open>Registration\<close>

definition get_interrupt :: "intr_state \<Rightarrow> u32 \<Rightarrow> nat option" where
  "get_interrupt s irq = find_index (\<lambda>it. ii_irq it = irq) (interrupts s)"

text \<open>The handler's uuid field is an \<open>int32_t\<close>. Registration unmasks the line.\<close>

definition interrupt_setup :: "proc \<Rightarrow> u32 \<Rightarrow> u64 \<Rightarrow> u64 \<Rightarrow> intr_state \<Rightarrow> int \<times> intr_state" where
  "interrupt_setup cproc irq entry data s =
     (let item = get_interrupt s irq in
      if entry = 0 then
        (case item of None \<Rightarrow> (-1, s) | Some n \<Rightarrow> (0, s\<lparr>interrupts := (interrupts s)[n := zero_item]\<rparr>))
      else
        (case (if item = None then get_interrupt s 0 else item) of None \<Rightarrow> (-1, s)
         | Some n \<Rightarrow> (0, irq_enable_arch irq (s\<lparr>interrupts := (interrupts s)[n :=
             \<lparr>ii_handler = \<lparr>ih_uuid = sint (p_uuid cproc), ih_entry = entry, ih_data = data\<rparr>, ii_irq = irq\<rparr>]\<rparr>))))"

section \<open>Delivery\<close>

definition upd_intr :: "nat \<Rightarrow> (proc_interrupt \<Rightarrow> proc_interrupt) \<Rightarrow> 'a kernel_scheme \<Rightarrow> 'a kernel_scheme" where
  "upd_intr i f k = upd_space (p_space (the_proc k i)) (\<lambda>sp. sp\<lparr>sp_interrupt := f (sp_interrupt sp)\<rparr>) k"

definition proc_track_interrupt_timeout :: "nat \<Rightarrow> 'a kernel_scheme \<Rightarrow> 'a kernel_scheme" where
  "proc_track_interrupt_timeout i k =
     (case proc_space_of k i of None \<Rightarrow> k
      | Some sp \<Rightarrow> if pi_state (sp_interrupt sp) = INTR_STATE_IDLE then k
          else k\<lparr>interrupt_timeout_queue := proc_track_timeout_queue (interrupt_timeout_queue k) i\<rparr>)"

definition proc_untrack_interrupt_timeout :: "nat \<Rightarrow> 'a kernel_scheme \<Rightarrow> 'a kernel_scheme" where
  "proc_untrack_interrupt_timeout i k =
     k\<lparr>interrupt_timeout_queue := proc_untrack_timeout_queue (interrupt_timeout_queue k) i\<rparr>"

text \<open>\<open>proc_save_state\<close> into the interrupt record, and the fields of a started handler.\<close>

definition intr_start :: "proc \<Rightarrow> u32 \<Rightarrow> u64 \<Rightarrow> u64 \<Rightarrow> proc_interrupt \<Rightarrow> proc_interrupt" where
  "intr_start p irq entry data pi =
     (let sv = proc_save_state p (pi_saved_state pi, pi_saved_ipc_res pi) in
      pi\<lparr>pi_saved_state := fst sv, pi_saved_ipc_res := snd sv, pi_interrupt := irq, pi_entry := entry,
         pi_data := data, pi_state := INTR_STATE_START, pi_counter := 0, pi_pending := False,
         pi_restore_pending := False\<rparr>)"

definition intr_start_proc :: "nat \<Rightarrow> u32 \<Rightarrow> u64 \<Rightarrow> u64 \<Rightarrow> 'a kernel_scheme \<Rightarrow> 'a kernel_scheme" where
  "intr_start_proc i irq entry data k =
     proc_track_interrupt_timeout i (upd_intr i (intr_start (the_proc k i) irq entry data) k)"

type_synonym 'a intr_res = "int \<times> context_t \<times> intr_state \<times> 'a kernel_scheme"

definition interrupt_send_raw ::
  "context_t \<Rightarrow> u32 \<Rightarrow> interrupt_handler \<Rightarrow> intr_state \<Rightarrow> 'a kernel_scheme \<Rightarrow> 'a intr_res" where
  "interrupt_send_raw ctx irq h s k =
     (if ih_uuid h \<le> 0 \<or> ih_entry h = 0 then (-1, set_gpr 0 (-1) ctx, s, k)
      else case proc_get_by_uuid k (word_of_int (ih_uuid h)) of
        None \<Rightarrow> (-1, set_gpr 0 (-1) ctx, s, k)
      | Some i \<Rightarrow>
        (case proc_space_of k i of None \<Rightarrow> (-1, ctx, s, k\<lparr>halted := True\<rparr>)
         | Some sp \<Rightarrow>
           if pi_state (sp_interrupt sp) \<noteq> INTR_STATE_IDLE then
             if irq \<noteq> IRQ_SOFT
             then (0, set_gpr 0 0 ctx, irq_disable_arch irq s, upd_intr i (\<lambda>pi. pi\<lparr>pi_pending := True\<rparr>) k)
             else (-1, set_gpr 0 (-1) ctx, s, k)
           else
             let s = (if irq \<noteq> IRQ_SOFT then irq_disable_arch irq s else s);
                 k = intr_start_proc i irq (ih_entry h) (ih_data h) k in
             (case get_current_proc k of None \<Rightarrow> (-1, ctx, s, k\<lparr>halted := True\<rparr>)
              | Some c \<Rightarrow> let (ctx, k) = proc_switch_multi_core ctx i (p_core (the_proc k c)) k
                  in (0, ctx, s, k))))"

definition interrupt_send :: "context_t \<Rightarrow> u32 \<Rightarrow> intr_state \<Rightarrow> 'a kernel_scheme \<Rightarrow> 'a intr_res" where
  "interrupt_send ctx irq s k =
     (case get_interrupt s irq of None \<Rightarrow> (-1, ctx, s, k)
      | Some n \<Rightarrow> interrupt_send_raw ctx irq (ii_handler (interrupts s ! n)) s k)"

text \<open>\<open>interrupt_soft_send\<close> reads the uuid of the target without a check that there is one.\<close>

definition interrupt_soft_send :: "context_t \<Rightarrow> int \<Rightarrow> u64 \<Rightarrow> u64 \<Rightarrow> intr_state \<Rightarrow> 'a kernel_scheme \<Rightarrow> 'a intr_res" where
  "interrupt_soft_send ctx to_pid entry data s k =
     (case proc_get k to_pid of None \<Rightarrow> (-1, ctx, s, k\<lparr>halted := True\<rparr>)
      | Some i \<Rightarrow> interrupt_send_raw ctx IRQ_SOFT
          \<lparr>ih_uuid = sint (p_uuid (the_proc k i)), ih_entry = entry, ih_data = data\<rparr> s k)"

text \<open>The system call: the capability check sets a return code and does not return.\<close>

definition sys_soft_int :: "context_t \<Rightarrow> int \<Rightarrow> u64 \<Rightarrow> u64 \<Rightarrow> intr_state \<Rightarrow> 'a kernel_scheme \<Rightarrow> 'a intr_res" where
  "sys_soft_int ctx to_pid entry data s k =
     (let ctx = set_gpr 0 0 ctx;
          p = proc_get_proc k (get_current_proc k);
          ctx = (if \<not> proc_cap_has k p CAP_IRQ CAP_X then set_gpr 0 (-2) ctx else ctx) in
      interrupt_soft_send ctx to_pid entry data s k)"

section \<open>Waiters of a process in a handler\<close>

text \<open>The waiter's item comes from \<open>kmalloc\<close>; its outcome is taken from \<open>alloc_results\<close>.\<close>

definition proc_interrupt_wait :: "context_t \<Rightarrow> nat \<Rightarrow> nat \<Rightarrow> 'a kernel_scheme \<Rightarrow> int \<times> context_t \<times> 'a kernel_scheme" where
  "proc_interrupt_wait ctx sv i k =
     (let (ok, k) = take_alloc k in
      if \<not> ok then (-1, ctx, k)
      else case proc_space_of k sv of None \<Rightarrow> (-1, ctx, k\<lparr>halted := True\<rparr>)
      | Some sp \<Rightarrow>
        if pi_state (sp_interrupt sp) = INTR_STATE_IDLE then (1, ctx, k)
        else
          let k = upd_intr sv (\<lambda>pi. pi\<lparr>pi_wait_queue := pi_wait_queue pi @ [(p_pid (the_proc k i), p_uuid (the_proc k i))]\<rparr>) k;
              (ctx, k) = proc_block ctx i k in (0, ctx, k))"

definition wake_waiter :: "int \<times> u32 \<Rightarrow> 'a kernel_scheme \<Rightarrow> nat option \<times> 'a kernel_scheme" where
  "wake_waiter w k =
     (case proc_get k (fst w) of None \<Rightarrow> (None, k)
      | Some i \<Rightarrow> if p_uuid (the_proc k i) \<noteq> snd w then (None, k) else (Some i, proc_wakeup i k))"

definition proc_interrupt_wakeup :: "nat \<Rightarrow> 'a kernel_scheme \<Rightarrow> nat option \<times> 'a kernel_scheme" where
  "proc_interrupt_wakeup sv k =
     (case proc_space_of k sv of None \<Rightarrow> (None, k\<lparr>halted := True\<rparr>)
      | Some sp \<Rightarrow>
        (case pi_wait_queue (sp_interrupt sp) of [] \<Rightarrow> (None, k)
         | w # q \<Rightarrow> wake_waiter w (upd_intr sv (\<lambda>pi. pi\<lparr>pi_wait_queue := q\<rparr>) k)))"

text \<open>A wake leaves the wait queue of the interrupted process alone, so draining it is a pass over
  the queue as it is found.\<close>

definition proc_interrupt_wakeup_all :: "nat \<Rightarrow> 'a kernel_scheme \<Rightarrow> 'a kernel_scheme" where
  "proc_interrupt_wakeup_all sv k =
     (case proc_space_of k sv of None \<Rightarrow> k
      | Some sp \<Rightarrow> fold (\<lambda>w k. snd (wake_waiter w k)) (pi_wait_queue (sp_interrupt sp))
          (upd_intr sv (\<lambda>pi. pi\<lparr>pi_wait_queue := []\<rparr>) k))"

section \<open>The end of a handler\<close>

definition intr_restore :: "nat \<Rightarrow> proc_interrupt \<Rightarrow> 'a kernel_scheme \<Rightarrow> context_t \<times> 'a kernel_scheme" where
  "intr_restore i pi k =
     (let (ctx, p, ss, res) = proc_restore_state (the_proc k i) (pi_saved_state pi, pi_saved_ipc_res pi);
          k = upd_proc i (\<lambda>_. p) k in
      (ctx, upd_intr i (\<lambda>pi. pi\<lparr>pi_saved_state := ss, pi_saved_ipc_res := res\<rparr>) k))"

definition interrupt_end :: "context_t \<Rightarrow> intr_state \<Rightarrow> 'a kernel_scheme \<Rightarrow> context_t \<times> intr_state \<times> 'a kernel_scheme" where
  "interrupt_end ctx s k =
     (case get_current_proc k of None \<Rightarrow> (ctx, s, k\<lparr>halted := True\<rparr>)
      | Some c \<Rightarrow>
        (case proc_space_of k c of None \<Rightarrow> (ctx, s, k\<lparr>halted := True\<rparr>)
         | Some sp \<Rightarrow>
           let intr = sp_interrupt sp;
               k = upd_intr c (\<lambda>pi. pi\<lparr>pi_state := INTR_STATE_IDLE, pi_counter := 0, pi_pending := False,
                     pi_restore_pending := False\<rparr>) k;
               k = proc_untrack_interrupt_timeout c k in
           if p_state (the_proc k c) = UNUSED \<or> p_state (the_proc k c) = ZOMBIE then
             let (_, k) = proc_interrupt_wakeup c k; (ctx, k) = schedule ctx k in (ctx, s, k)
           else
             let (ctx, k) = intr_restore c intr k;
                 k = (if p_state (the_proc k c) = READY \<or> p_state (the_proc k c) = RUNNING then proc_ready c k else k) in
             if pi_pending intr \<and> pi_interrupt intr \<noteq> IRQ_SOFT then
               let k = upd_proc c (\<lambda>p. p\<lparr>p_ctx := ctx\<rparr>) k;
                   k = intr_start_proc c (pi_interrupt intr) (pi_entry intr) (pi_data intr) k;
                   (ctx, k) = proc_switch_multi_core ctx c (p_core (the_proc k c)) k in (ctx, s, k)
             else
               let s = (if pi_interrupt intr \<noteq> IRQ_SOFT then irq_enable_arch (pi_interrupt intr) s else s);
                   k = upd_intr c (\<lambda>pi. pi\<lparr>pi_entry := 0, pi_data := 0, pi_interrupt := 0\<rparr>) k;
                   (_, k) = proc_interrupt_wakeup c k;
                   (ctx, k) = schedule ctx k in (ctx, s, k)))"

section \<open>The watchdog\<close>

definition proc_resume_after_timeout :: "nat \<Rightarrow> 'a kernel_scheme \<Rightarrow> 'a kernel_scheme" where
  "proc_resume_after_timeout i k =
     (if p_state (the_proc k i) = READY \<or> p_state (the_proc k i) = RUNNING then proc_ready i k
      else if p_state (the_proc k i) = BLOCK \<or> p_state (the_proc k i) = SLEEPING \<or> p_state (the_proc k i) = WAIT
      then proc_wakeup i k else k)"

definition kick_remote :: "nat \<Rightarrow> 'a kernel_scheme \<Rightarrow> 'a kernel_scheme" where
  "kick_remote i k =
     (let c = p_core (the_proc k i) in
      if cc_actived (cpu_cores k c) \<and> c \<noteq> core_id k
      then k\<lparr>cpu_cores := (cpu_cores k)(c := (cpu_cores k c)\<lparr>cc_need_resched := True\<rparr>), ipi_sent := c # ipi_sent k\<rparr>
      else k)"

definition proc_interrupt_timeout :: "nat \<Rightarrow> intr_state \<Rightarrow> 'a kernel_scheme \<Rightarrow> intr_state \<times> 'a kernel_scheme" where
  "proc_interrupt_timeout i s k =
     (case proc_space_of k i of None \<Rightarrow> (s, k)
      | Some sp \<Rightarrow>
        let intr = sp_interrupt sp;
            k = upd_intr i (\<lambda>pi. pi\<lparr>pi_counter := 0, pi_state := INTR_STATE_IDLE\<rparr>) k;
            k = proc_untrack_interrupt_timeout i k;
            alive = (p_state (the_proc k i) \<noteq> UNUSED \<and> p_state (the_proc k i) \<noteq> ZOMBIE);
            restore = (alive \<and> pi_state intr = INTR_STATE_WORKING);
            k = (if alive then
                   let (ctx, k) = intr_restore i intr k;
                       k = upd_proc i (\<lambda>p. p\<lparr>p_ctx := ctx\<rparr>) k;
                       k = upd_intr i (\<lambda>pi. pi\<lparr>pi_restore_pending := restore\<rparr>) k
                   in proc_resume_after_timeout i k
                 else upd_intr i (\<lambda>pi. pi\<lparr>pi_restore_pending := False\<rparr>) k);
            k = upd_intr i (\<lambda>pi. pi\<lparr>pi_entry := 0, pi_data := 0, pi_interrupt := 0\<rparr>) k;
            s = (if pi_interrupt intr \<noteq> 0 \<and> pi_interrupt intr \<noteq> IRQ_SOFT then irq_enable_arch (pi_interrupt intr) s else s);
            (_, k) = proc_interrupt_wakeup i k in
        (s, if restore then kick_remote i k else k))"

definition renew_interrupt_at ::
  "u32 \<Rightarrow> nat \<Rightarrow> int \<times> intr_state \<times> 'a kernel_scheme \<Rightarrow> int \<times> intr_state \<times> 'a kernel_scheme" where
  "renew_interrupt_at usec i rsk = (case rsk of (res, s, k) \<Rightarrow>
     (case proc_space_of k i of None \<Rightarrow> (res, s, proc_untrack_interrupt_timeout i k)
      | Some sp \<Rightarrow>
        let st = p_state (the_proc k i); intr = sp_interrupt sp in
        if st = UNUSED \<or> st = ZOMBIE \<or> pi_state intr = INTR_STATE_IDLE then (res, s, proc_untrack_interrupt_timeout i k)
        else if st = BLOCK \<or> st = SLEEPING \<or> st = WAIT then (res, s, upd_intr i (\<lambda>pi. pi\<lparr>pi_counter := 0\<rparr>) k)
        else let k = upd_intr i (\<lambda>pi. pi\<lparr>pi_counter := pi_counter pi + usec\<rparr>) k in
          if pi_counter intr + usec \<ge> INTERRUPT_TIMEOUT_USEC
          then let (s, k) = proc_interrupt_timeout i s k in (0, s, k)
          else (res, s, k)))"

definition renew_interrupt_counter :: "u32 \<Rightarrow> intr_state \<Rightarrow> 'a kernel_scheme \<Rightarrow> int \<times> intr_state \<times> 'a kernel_scheme" where
  "renew_interrupt_counter usec s k = fold (renew_interrupt_at usec) (interrupt_timeout_queue k) (-1, s, k)"

end
