(* ===== verification/Switch_Frame.thy ===== *)
theory Switch_Frame
  imports Sched_Wake
begin

text \<open>
  What a context switch does to registers and handler records: the lemmas on which the properties of
  interrupts and of ipc rest. A switch saves the registers of the outgoing task, injects a due
  handler into the incoming one and makes it the current task; a wake leaves registers and handler
  records alone.
\<close>

section \<open>Registers and handler records across a switch\<close>

text \<open>An address space without its stacks: the three handler records.\<close>

definition handlers :: "proc_space \<Rightarrow> proc_interrupt \<times> signal_t \<times> ipc_server" where
  "handlers sp = (sp_interrupt sp, sp_signal sp, sp_ipc_server sp)"

definition handlers_at :: "'a kernel_scheme \<Rightarrow> nat option \<Rightarrow> (proc_interrupt \<times> signal_t \<times> ipc_server) option" where
  "handlers_at k s = map_option handlers (space_at k s)"

lemma handlers_at_cong: "spaces k' = spaces k \<Longrightarrow> handlers_at k' s = handlers_at k s"
  by (simp add: handlers_at_def space_at_def split: option.split)

lemma handlers_at_upd_space:
  "handlers_at (upd_space s g k) t
   = (if s \<noteq> None \<and> t = s then map_option (\<lambda>sp. handlers (g sp)) (space_at k s) else handlers_at k t)"
  by (auto simp: handlers_at_def space_at_def upd_space_def option.map_comp comp_def split: option.splits)

lemma handlers_at_upd_space_same: "(\<And>sp. handlers (g sp) = handlers sp) \<Longrightarrow> handlers_at (upd_space s g k) t = handlers_at k t"
  by (simp add: handlers_at_upd_space) (simp add: handlers_at_def)

lemma handlers_at_upd_proc [simp]: "handlers_at (upd_proc i f k) s = handlers_at k s"
  by (simp add: handlers_at_def)

lemma handlers_take_alloc [simp]:
  "spaces (snd (take_alloc k)) = spaces k" "task_table (snd (take_alloc k)) = task_table k"
  by (simp_all add: take_alloc_def split: list.split)

lemma the_proc_cong: "task_table k' = task_table k \<Longrightarrow> the_proc k' i = the_proc k i"
  by (simp add: the_proc_def slot_def)

lemma set_thread_stacks_frame:
  "task_table (set_thread_stacks i sts k) = task_table k"
  "handlers_at (set_thread_stacks i sts k) s = handlers_at k s"
  by (auto simp: set_thread_stacks_def handlers_def intro!: handlers_at_upd_space_same)

lemma thread_stack_slot_frame:
  "task_table (snd (thread_stack_slot i sts k)) = task_table k"
  "handlers_at (snd (thread_stack_slot i sts k)) s = handlers_at k s"
  by (auto simp: thread_stack_slot_def Let_def case_prod_beta set_thread_stacks_frame handlers_at_cong [of "snd (take_alloc _)"]
      split: option.split)

lemma thread_stack_alloc_frame [simp]:
  "task_table (snd (thread_stack_alloc i k)) = task_table k"
  "handlers_at (snd (thread_stack_alloc i k)) s = handlers_at k s"
  "the_proc (snd (thread_stack_alloc i k)) j = the_proc k j"
proof -
  show t: "task_table (snd (thread_stack_alloc i k)) = task_table k"
    "handlers_at (snd (thread_stack_alloc i k)) s = handlers_at k s"
    by (auto simp: thread_stack_alloc_def Let_def case_prod_beta thread_stack_slot_frame set_thread_stacks_frame
        handlers_at_cong [of "snd (take_alloc _)"] split: option.split)
  show "the_proc (snd (thread_stack_alloc i k)) j = the_proc k j" by (rule the_proc_cong) (rule t(1))
qed

text \<open>The state just before a switch makes its target running: registers saved, handler injected.\<close>

definition switched :: "context_t \<Rightarrow> nat \<Rightarrow> 'a kernel_scheme \<Rightarrow> 'a kernel_scheme" where
  "switched ctx to k = inject_context to (switch_activate (get_current_proc k) to
     (snd (switch_save_ctx (get_current_proc k) ctx (proc_queue_remove_all to k))))"

definition reg_of :: "proc \<Rightarrow> context_t \<times> ipc_res" where
  "reg_of p = (p_ctx p, p_ipc_res p)"

lemma reg_of_simps [simp]:
  "reg_of (p\<lparr>p_state := st\<rparr>) = reg_of p" "reg_of (p\<lparr>p_tls_base := a\<rparr>) = reg_of p"
  "reg_of (p\<lparr>p_wait_for := w\<rparr>) = reg_of p" "reg_of (p\<lparr>p_priority_count := c\<rparr>) = reg_of p"
  by (simp_all add: reg_of_def)

lemma reg_upd [simp]: "(\<And>p. reg_of (f p) = reg_of p) \<Longrightarrow> reg_of (the_proc (upd_proc i f k) j) = reg_of (the_proc k j)"
  by (rule the_proc_upd_field)

lemma reg_acct0: "reg_of p = reg_of (acct0 p)"
  by (simp add: reg_of_def acct0_def)

lemma reg_set_current: "reg_of (the_proc (set_current_proc p k) j) = reg_of (the_proc k j)"
  by (metis acct0_set_current reg_acct0)

lemma spaces_account:
  "spaces (proc_account_switch_out p k) = spaces k" "spaces (proc_account_switch_in p k) = spaces k"
  by (simp_all add: proc_account_switch_out_def proc_account_switch_in_def proc_account_running_until_def Let_def split: option.split)

lemma spaces_set_current: "spaces (set_current_proc p k) = spaces k"
  by (simp add: set_current_proc_def Let_def spaces_account split: option.split)

lemma requeue_frame:
  "spaces (switch_requeue c to quick k) = spaces k"
  "reg_of (the_proc (switch_requeue c to quick k) j) = reg_of (the_proc k j)"
  by (simp_all add: switch_requeue_def Let_def proc_queue_remove_all_def split: option.split)
    (simp_all add: set_ready_queue_def)

lemma track_priority_frame:
  "spaces (proc_track_priority_update i k) = spaces k"
  "the_proc (proc_track_priority_update i k) j = the_proc k j"
  by (auto simp: proc_track_priority_update_def)

lemma proc_switch_frame:
  shows "spaces (snd (proc_switch ctx to quick k)) = spaces (switched ctx to k)"
    and "reg_of (the_proc (snd (proc_switch ctx to quick k)) j) = reg_of (the_proc (switched ctx to k) j)"
    and "fst (proc_switch ctx to quick k) = p_ctx (the_proc (switched ctx to k) to)"
proof -
  obtain ctx1 k1 where k1: "switch_save_ctx (get_current_proc k) ctx (proc_queue_remove_all to k) = (ctx1, k1)"
    by fastforce
  define k2 where "k2 = switch_requeue (get_current_proc k) to quick (switched ctx to k)"
  define k3 where "k3 = proc_track_priority_update to (upd_proc to (\<lambda>p. p\<lparr>p_state := RUNNING\<rparr>) k2)"
  define k4 where "k4 = (if get_current_proc k \<noteq> Some to then set_current_proc (Some to) k3 else k3)"
  have s4: "spaces k4 = spaces (switched ctx to k)" "\<And>j. reg_of (the_proc k4 j) = reg_of (the_proc (switched ctx to k) j)"
    by (simp_all add: k4_def k3_def k2_def spaces_set_current reg_set_current track_priority_frame requeue_frame)
  define k5 where "k5 = (case get_current_proc k of None \<Rightarrow> k4
       | Some c \<Rightarrow> upd_proc c (\<lambda>p. p\<lparr>p_tls_base := tls_reg k4 (core_id k4)\<rparr>) k4)"
  have s5: "spaces k5 = spaces k4" "\<And>j. reg_of (the_proc k5 j) = reg_of (the_proc k4 j)"
    by (simp_all add: k5_def split: option.split)
  have eq: "proc_switch ctx to quick k
      = (p_ctx (the_proc k5 to), k5\<lparr>tls_reg := (tls_reg k5)(core_id k5 := p_tls_base (the_proc k5 to))\<rparr>)"
    unfolding proc_switch_def Let_def k1 prod.case k5_def k4_def k3_def k2_def switched_def snd_conv
    by (simp only: the_proc_more)
  show "spaces (snd (proc_switch ctx to quick k)) = spaces (switched ctx to k)"
    "reg_of (the_proc (snd (proc_switch ctx to quick k)) j) = reg_of (the_proc (switched ctx to k) j)"
    unfolding eq by (simp_all add: s5 s4)
  show "fst (proc_switch ctx to quick k) = p_ctx (the_proc (switched ctx to k) to)"
    unfolding eq using s5(2) [of to] s4(2) [of to] by (simp add: reg_of_def)
qed

section \<open>Injection\<close>

definition restoring :: "'a kernel_scheme \<Rightarrow> nat \<Rightarrow> bool" where
  "restoring k c \<longleftrightarrow> p_type (the_proc k c) = TASK_TYPE_PROC \<and>
     (\<exists>pi sg sv. handlers_at k (p_space (the_proc k c)) = Some (pi, sg, sv) \<and> (pi_restore_pending pi \<or> is_restore_pending sv))"

text \<open>No handler is due in the space \<open>s\<close>.\<close>

definition calm :: "'a kernel_scheme \<Rightarrow> nat option \<Rightarrow> bool" where
  "calm k s \<longleftrightarrow> (\<forall>pi sg sv. handlers_at k s = Some (pi, sg, sv) \<longrightarrow>
     pi_state pi \<noteq> INTR_STATE_START \<and> \<not> sg_do_switch sg \<and> \<not> is_do_switch sv)"

lemma handlers_at_Some: "handlers_at k s = Some (pi, sg, sv) \<longleftrightarrow>
    (\<exists>sp. space_at k s = Some sp \<and> sp_interrupt sp = pi \<and> sp_signal sp = sg \<and> sp_ipc_server sp = sv)"
  by (auto simp: handlers_at_def handlers_def)

lemma space_of_handlers: "proc_space_of k i = Some sp \<Longrightarrow>
    handlers_at k (p_space (the_proc k i)) = Some (sp_interrupt sp, sp_signal sp, sp_ipc_server sp)"
  by (simp add: proc_space_of_def handlers_at_def handlers_def)

lemma save_ctx_plain:
  "\<not> restoring k c \<Longrightarrow> switch_save_ctx (Some c) ctx k = (ctx, upd_proc c (\<lambda>p. p\<lparr>p_ctx := ctx\<rparr>) k)"
  by (cases "proc_space_of k c") (auto simp: switch_save_ctx_def restoring_def dest: space_of_handlers)

lemma remove_all_frame [simp]:
  "spaces (proc_queue_remove_all i k) = spaces k" "the_proc (proc_queue_remove_all i k) j = the_proc k j"
  "slot (proc_queue_remove_all i k) j = slot k j"
  by (simp_all add: proc_queue_remove_all_def Let_def) (simp_all add: set_ready_queue_def)

lemma activate_frame [simp]:
  "spaces (switch_activate c i k) = spaces k" "the_proc (switch_activate c i k) j = the_proc k j"
  "slot (switch_activate c i k) j = slot k j"
  by (simp_all add: switch_activate_def)

lemma restoring_cong: "spaces k' = spaces k \<Longrightarrow> the_proc k' c = the_proc k c \<Longrightarrow> restoring k' c = restoring k c"
  using handlers_at_cong [of k' k] by (simp add: restoring_def)

lemma switched_plain:
  assumes "get_current_proc k = Some c" "\<not> restoring k c"
  shows "switched ctx to k = inject_context to (switch_activate (Some c) to
    (upd_proc c (\<lambda>p. p\<lparr>p_ctx := ctx\<rparr>) (proc_queue_remove_all to k)))"
proof -
  have "\<not> restoring (proc_queue_remove_all to k) c"
    using assms(2) restoring_cong [of "proc_queue_remove_all to k" k c] by simp
  then show ?thesis using assms(1) by (simp add: switched_def save_ctx_plain)
qed

lemma inject_calm:
  assumes "calm k (p_space (the_proc k n))"
  shows "inject_context n k = k"
proof (cases "proc_space_of k n")
  case (Some sp)
  from assms space_of_handlers [OF this]
  have "pi_state (sp_interrupt sp) \<noteq> INTR_STATE_START" "\<not> sg_do_switch (sp_signal sp)" "\<not> is_do_switch (sp_ipc_server sp)"
    unfolding calm_def by blast+
  with Some show ?thesis by (simp add: inject_context_def)
qed (simp add: inject_context_def)

lemma inject_one_frame:
  assumes "f = inject_interrupt \<or> f = inject_signal \<or> f = inject_ipc"
  shows "j \<noteq> n \<Longrightarrow> the_proc (f n sp k) j = the_proc k j"
    and "p_ipc_res (the_proc (f n sp k) j) = p_ipc_res (the_proc k j)"
    and "s \<noteq> p_space (the_proc k n) \<Longrightarrow> handlers_at (f n sp k) s = handlers_at k s"
  using assms
  by (elim disjE; simp add: inject_interrupt_def inject_signal_def inject_ipc_def Let_def case_prod_beta handlers_at_upd_space
      the_proc_upd_field [of p_ipc_res] split: option.split)+

lemma inject_frame:
  "j \<noteq> n \<Longrightarrow> the_proc (inject_context n k) j = the_proc k j"
  "p_ipc_res (the_proc (inject_context n k) j) = p_ipc_res (the_proc k j)"
  "s \<noteq> p_space (the_proc k n) \<Longrightarrow> handlers_at (inject_context n k) s = handlers_at k s"
  by (simp_all add: inject_context_def inject_one_frame split: option.split)

lemma inject_started:
  assumes "slot k i \<noteq> None" "p_type (the_proc k i) = TASK_TYPE_PROC" "pi_state pi = INTR_STATE_START"
    and h: "handlers_at k (p_space (the_proc k i)) = Some (pi, sg, sv)"
  obtains st where
    "handlers_at (inject_context i k) (p_space (the_proc k i)) = Some (pi\<lparr>pi_state := INTR_STATE_WORKING,
       pi_saved_state := (pi_saved_state pi)\<lparr>ss_ctx := p_ctx (the_proc k i)\<rparr>, pi_stack := st\<rparr>, sg, sv)"
    "p_ctx (the_proc (inject_context i k) i) = enter_handler (pi_entry pi) st
       (set_gpr 1 (pi_data pi) (set_gpr 0 (ucast (pi_interrupt pi)) (p_ctx (the_proc k i))))"
proof -
  obtain sp where sp: "proc_space_of k i = Some sp" "sp_interrupt sp = pi" "sp_signal sp = sg" "sp_ipc_server sp = sv"
    using h by (auto simp: handlers_at_Some proc_space_of_def)
  obtain x where x: "p_space (the_proc k i) = Some x" using sp(1) by (auto simp: proc_space_of_def space_at_def split: option.splits)
  define k1 where "k1 = upd_space (Some x) (\<lambda>sp. sp\<lparr>sp_interrupt := (sp_interrupt sp)\<lparr>pi_state := INTR_STATE_WORKING,
                pi_saved_state := (pi_saved_state (sp_interrupt sp))\<lparr>ss_ctx := p_ctx (the_proc k i)\<rparr>\<rparr>\<rparr>) k"
  obtain st k2 where a: "(if pi_stack pi = 0 then thread_stack_alloc i k1 else (pi_stack pi, k1)) = (st, k2)" by fastforce
  have k2: "handlers_at k2 (Some x) = handlers_at k1 (Some x)" "the_proc k2 i = the_proc k1 i" "task_table k2 = task_table k1"
    using thread_stack_alloc_frame(1) [of i k1] thread_stack_alloc_frame(2) [of i k1 "Some x"] thread_stack_alloc_frame(3) [of i k1 i] a
    by (cases "pi_stack pi = 0"; simp)+
  have h1: "handlers_at k1 (Some x) = Some (pi\<lparr>pi_state := INTR_STATE_WORKING,
     pi_saved_state := (pi_saved_state pi)\<lparr>ss_ctx := p_ctx (the_proc k i)\<rparr>\<rparr>, sg, sv)"
    using sp x by (simp add: k1_def handlers_at_upd_space handlers_def proc_space_of_def)
  obtain sp2 where sp2: "space_at k2 (Some x) = Some sp2" using k2(1) h1 by (auto simp: handlers_at_def)
  have hs2: "handlers sp2 = (pi\<lparr>pi_state := INTR_STATE_WORKING,
     pi_saved_state := (pi_saved_state pi)\<lparr>ss_ctx := p_ctx (the_proc k i)\<rparr>\<rparr>, sg, sv)"
    using k2(1) h1 sp2 by (auto simp: handlers_at_def)
  have eq: "inject_context i k = upd_proc i (\<lambda>p. p\<lparr>p_ctx := enter_handler (pi_entry pi) st
        (set_gpr 1 (pi_data pi) (set_gpr 0 (ucast (pi_interrupt pi)) (p_ctx p)))\<rparr>)
      (upd_space (Some x) (\<lambda>sp. sp\<lparr>sp_interrupt := (sp_interrupt sp)\<lparr>pi_stack := st\<rparr>\<rparr>) k2)"
    using assms(2,3) sp x a
    by (cases "pi_stack pi = 0") (simp_all add: inject_context_def inject_interrupt_def Let_def k1_def [symmetric])
  show thesis
  proof (rule that)
    show "handlers_at (inject_context i k) (p_space (the_proc k i)) = Some (pi\<lparr>pi_state := INTR_STATE_WORKING,
       pi_saved_state := (pi_saved_state pi)\<lparr>ss_ctx := p_ctx (the_proc k i)\<rparr>, pi_stack := st\<rparr>, sg, sv)"
      using hs2 sp2 by (simp add: eq x handlers_at_upd_space) (simp add: handlers_def)
    have "slot k2 i = slot k i" using k2(3) by (simp add: k1_def slot_def)
    then show "p_ctx (the_proc (inject_context i k) i) = enter_handler (pi_entry pi) st
       (set_gpr 1 (pi_data pi) (set_gpr 0 (ucast (pi_interrupt pi)) (p_ctx (the_proc k i))))"
      using assms(1) k2(2) by (simp add: eq k1_def)
  qed
qed

section \<open>Wakes and the current task\<close>

lemma wakeup_all_state_frame:
  assumes "handlers_at k (p_space (the_proc k i)) = Some (pi, sg, sv)" "slot k i \<noteq> None"
  obtains sg' sv' where "handlers_at (proc_wakeup_all_state i k) (p_space (the_proc k i)) =
      Some (pi\<lparr>pi_saved_state := (pi_saved_state pi)\<lparr>ss_state := READY\<rparr>\<rparr>, sg', sv')"
    "sg_do_switch sg' = sg_do_switch sg" "is_do_switch sv' = is_do_switch sv" "is_restore_pending sv' = is_restore_pending sv"
proof -
  obtain sp where sp: "proc_space_of k i = Some sp" "sp_interrupt sp = pi" "sp_signal sp = sg" "sp_ipc_server sp = sv"
    using assms(1) by (auto simp: handlers_at_Some proc_space_of_def)
  define k1 where "k1 = proc_ready_with_order i (pi_state pi = INTR_STATE_START) k"
  have ps: "p_space (the_proc k1 i) = p_space (the_proc k i)"
    using assms(2) by (auto simp: k1_def the_proc_def slot_ready_with_order)
  have sk: "space_at k1 (p_space (the_proc k i)) = Some sp"
    using sp(1) by (simp add: proc_space_of_def space_at_def k1_def split: option.splits)
  have ne: "p_space (the_proc k i) \<noteq> None" using sk by (auto simp: space_at_def split: option.splits)
  show thesis
    by (rule that [of "sg\<lparr>sg_saved_state := (sg_saved_state sg)\<lparr>ss_state := READY\<rparr>\<rparr>"
          "if \<not> is_do_switch sv then sv\<lparr>is_saved_state := (is_saved_state sv)\<lparr>ss_state := READY\<rparr>\<rparr> else sv"])
      (use sp sk ne in \<open>simp_all add: proc_wakeup_all_state_def Let_def k1_def [symmetric] ps handlers_at_upd_space handlers_def\<close>)
qed

lemma reg_readied [simp]: "reg_of (readied p) = reg_of p"
  by (simp add: readied_def)

lemma reg_ready: "reg_of (the_proc (proc_ready_with_order i ph k) j) = reg_of (the_proc k j)"
  by (cases "slot k i") (auto simp: the_proc_def slot_ready_with_order)

lemma wakeup_all_state_regs: "reg_of (the_proc (proc_wakeup_all_state i k) j) = reg_of (the_proc k j)"
  by (simp add: proc_wakeup_all_state_def Let_def reg_ready split: option.split)

lemma get_current_cong:
  assumes "current_proc k' = current_proc k" "core_id k' = core_id k"
    and "\<And>j. map_option (\<lambda>p. live_state (p_state p)) (slot k' j) = map_option (\<lambda>p. live_state (p_state p)) (slot k j)"
  shows "get_current_proc k' = get_current_proc k"
proof -
  have "(\<exists>p. slot k' j = Some p \<and> live_state (p_state p)) = (\<exists>p. slot k j = Some p \<and> live_state (p_state p))" for j
    using assms(3) [of j] by (cases "slot k' j"; cases "slot k j") auto
  then show ?thesis unfolding get_current_proc_alt proc_get_alt assms(1,2) by simp
qed

text \<open>The executing core and the current tasks.\<close>

definition here :: "'a kernel_scheme \<Rightarrow> nat \<times> (nat \<Rightarrow> int)" where
  "here k = (core_id k, current_proc k)"

lemma here_simps [simp]:
  "here (upd_proc i f k) = here k" "here (upd_space s g k) = here k" "here (k\<lparr>ready_queue := a\<rparr>) = here k"
  "here (k\<lparr>priority_update_queue := b\<rparr>) = here k" "here (k\<lparr>cpu_cores := c\<rparr>) = here k" "here (k\<lparr>ipi_sent := d\<rparr>) = here k"
  "here (k\<lparr>alloc_results := e\<rparr>) = here k" "here (k\<lparr>active_space := f1\<rparr>) = here k" "here (k\<lparr>tls_reg := g1\<rparr>) = here k"
  "here (k\<lparr>interrupt_timeout_queue := h1\<rparr>) = here k" "here (k\<lparr>ipc_timeout_queue := i1\<rparr>) = here k"
  by (simp_all add: here_def)

lemma here_ready [simp]:
  "here (proc_track_priority_update i k) = here k" "here (proc_kick_ready_core i k) = here k"
  "here (set_ready_queue c q k) = here k" "here (proc_queue_remove_all i k) = here k"
  "here (wake_resched i k) = here k" "here (proc_untrack_priority_update i k) = here k"
  by (simp_all add: proc_track_priority_update_def proc_kick_ready_core_def set_ready_queue_def proc_queue_remove_all_def
      wake_resched_def proc_untrack_priority_update_def Let_def)

lemma here_ready_with_order [simp]: "here (proc_ready_with_order i ph k) = here k" "here (proc_ready i k) = here k"
  by (simp_all add: proc_ready_with_order_def proc_ready_def Let_def)

lemma here_wake_state [simp]:
  "here (proc_ipc_cancel_wait i k) = here k" "here (proc_wakeup_all_state i k) = here k"
  by (simp_all add: proc_ipc_cancel_wait_def proc_wakeup_all_state_def Let_def split: option.split)

lemma here_wake [simp]: "here (proc_wakeup_by i t k) = here k" "here (proc_wakeup i k) = here k"
  by (simp_all add: proc_wakeup_by_def proc_wakeup_def Let_def)

lemma here_alloc [simp]:
  "here (snd (take_alloc k)) = here k" "here (set_thread_stacks i sts k) = here k"
  "here (snd (thread_stack_slot i sts k)) = here k"
  by (simp_all add: take_alloc_def set_thread_stacks_def thread_stack_slot_def Let_def case_prod_beta split: option.split list.split)

lemma here_stack_alloc [simp]: "here (snd (thread_stack_alloc i k)) = here k"
  by (simp add: thread_stack_alloc_def Let_def case_prod_beta split: option.split)

lemma here_switch [simp]:
  "here (inject_context i k) = here k" "here (snd (switch_save_ctx c ctx k)) = here k"
  "here (switch_activate c t k) = here k" "here (switch_requeue c t quick k) = here k"
  by (simp_all add: inject_context_def inject_interrupt_def inject_signal_def inject_ipc_def case_prod_beta
      switch_save_ctx_def switch_activate_def switch_requeue_def Let_def split: option.split)

text \<open>After a switch the target is the current task of the executing core.\<close>

lemma current_after_switch:
  assumes "present (statics k) i" "p_core (the_proc k i) = core_id k" "p_pid (the_proc k i) = int i"
  shows "get_current_proc (snd (proc_switch ctx i quick k)) = Some i \<and> core_id (snd (proc_switch ctx i quick k)) = core_id k"
proof -
  obtain ctx1 k1 where k1: "switch_save_ctx (get_current_proc k) ctx (proc_queue_remove_all i k) = (ctx1, k1)"
    by fastforce
  have h1: "here k1 = here k" "statics k1 = statics k"
    using here_switch(2) [of "get_current_proc k" ctx "proc_queue_remove_all i k"]
      statics_switch(1) [of "get_current_proc k" ctx "proc_queue_remove_all i k"] k1 by simp_all
  define k2 where "k2 = switch_requeue (get_current_proc k) i quick (inject_context i (switch_activate (get_current_proc k) i k1))"
  define k3 where "k3 = proc_track_priority_update i (upd_proc i (\<lambda>p. p\<lparr>p_state := RUNNING\<rparr>) k2)"
  define k4 where "k4 = (if get_current_proc k \<noteq> Some i then set_current_proc (Some i) k3 else k3)"
  have h3: "here k3 = here k" "statics k3 = statics k" by (simp_all add: k3_def k2_def h1 statics_ready)
  have c3: "core_id k3 = core_id k" "current_proc k3 = current_proc k" using h3(1) by (simp_all add: here_def)
  have pr: "slot k i \<noteq> None" using assms(1) by (simp add: present_slot)
  have st3: "p_state (the_proc k3 i) = RUNNING" "p_core (the_proc k3 i) = core_id k3" "p_pid (the_proc k3 i) = int i"
    using statics_slotD(1) [of k2 k i] statics_projD(1,2) [OF h3(2) pr] assms(2,3) pr h1
    by (simp_all add: k3_def track_priority_frame k2_def c3 [unfolded k3_def k2_def])
  have st4: "statics k4 = statics k" by (simp add: k4_def h3)
  have p4: "p_state (the_proc k4 i) = RUNNING"
    using st3(1) acct0_fields [OF acct0_set_current [of "Some i" k3 i]] by (simp add: k4_def)
  have c4: "core_id k4 = core_id k \<and> current_proc k4 (core_id k) = int i"
  proof (cases "get_current_proc k = Some i")
    case True
    then have "current_proc k (core_id k) = int i" by (auto simp: get_current_proc_alt dest!: proc_get_SomeD)
    then show ?thesis using True c3 by (simp add: k4_def)
  next
    case False
    then show ?thesis
      using set_current_proc_core [of k3 i] st3(2,3) h3 assms(1) c3 by (simp add: k4_def)
  qed
  define k5 where "k5 = (case get_current_proc k of None \<Rightarrow> k4
       | Some c \<Rightarrow> upd_proc c (\<lambda>p. p\<lparr>p_tls_base := tls_reg k4 (core_id k4)\<rparr>) k4)"
  have s5: "core_id k5 = core_id k" "current_proc k5 (core_id k) = int i" "p_state (the_proc k5 i) = RUNNING" "slot k5 i \<noteq> None"
    using c4 p4 pr statics_slotD(1) [OF st4, of i] by (auto simp: k5_def the_proc_upd_field [of p_state] slot_upd_proc split: option.split)
  have eq: "snd (proc_switch ctx i quick k) = k5\<lparr>tls_reg := (tls_reg k5)(core_id k5 := p_tls_base (the_proc k5 i))\<rparr>"
    unfolding proc_switch_def Let_def k1 prod.case k5_def k4_def k3_def k2_def switched_def snd_conv by (rule refl)
  show ?thesis unfolding eq using s5 by (simp add: get_current_proc_alt proc_get_int)
qed

text \<open>A started handler on the executing core: the switch saves the registers of the interrupted
  process in the interrupt record and enters the handler.\<close>

lemma started_switch:
  fixes ctx :: context_t and k :: "'a kernel_scheme"
  assumes cur: "get_current_proc k = Some c" and pr: "slot k i \<noteq> None"
    and i: "p_type (the_proc k i) = TASK_TYPE_PROC" "p_core (the_proc k i) = core_id k" "p_pid (the_proc k i) = int i"
    and h: "handlers_at k (p_space (the_proc k i)) = Some (pi, sg, sv)" and st: "pi_state pi = INTR_STATE_START"
    and nr: "\<not> restoring k c"
  defines "X \<equiv> if i = c then ctx else p_ctx (the_proc k i)"
  defines "r \<equiv> proc_switch ctx i True k"
  obtains stk where
    "fst r = enter_handler (pi_entry pi) stk (set_gpr 1 (pi_data pi) (set_gpr 0 (ucast (pi_interrupt pi)) X))"
    "handlers_at (snd r) (p_space (the_proc k i)) = Some (pi\<lparr>pi_state := INTR_STATE_WORKING,
       pi_saved_state := (pi_saved_state pi)\<lparr>ss_ctx := X\<rparr>, pi_stack := stk\<rparr>, sg, sv)"
    "get_current_proc (snd r) = Some i" "core_id (snd r) = core_id k" "statics (snd r) = statics k"
    "p_ipc_res (the_proc (snd r) i) = p_ipc_res (the_proc k i)"
proof -
  define k1 where "k1 = switch_activate (Some c) i (upd_proc c (\<lambda>p. p\<lparr>p_ctx := ctx\<rparr>) (proc_queue_remove_all i k))"
  have sw: "switched ctx i k = inject_context i k1" unfolding k1_def by (rule switched_plain [OF cur nr])
  have prc: "slot k c \<noteq> None" using current_present [OF cur] by (simp add: present_slot)
  have k1: "spaces k1 = spaces k" "p_ctx (the_proc k1 i) = X" "slot k1 i \<noteq> None" "p_type (the_proc k1 i) = TASK_TYPE_PROC"
    "p_space (the_proc k1 i) = p_space (the_proc k i)" "p_ipc_res (the_proc k1 i) = p_ipc_res (the_proc k i)"
    using pr prc i(1) by (auto simp: k1_def X_def slot_upd_proc the_proc_upd_field [of p_space] the_proc_upd_field [of p_type]
        the_proc_upd_field [of p_ipc_res])
  have h1: "handlers_at k1 (p_space (the_proc k1 i)) = Some (pi, sg, sv)"
    using h handlers_at_cong [OF k1(1)] k1(5) by simp
  obtain stk where inj: "handlers_at (inject_context i k1) (p_space (the_proc k1 i)) = Some (pi\<lparr>pi_state := INTR_STATE_WORKING,
       pi_saved_state := (pi_saved_state pi)\<lparr>ss_ctx := p_ctx (the_proc k1 i)\<rparr>, pi_stack := stk\<rparr>, sg, sv)"
    "p_ctx (the_proc (inject_context i k1) i) = enter_handler (pi_entry pi) stk
       (set_gpr 1 (pi_data pi) (set_gpr 0 (ucast (pi_interrupt pi)) (p_ctx (the_proc k1 i))))"
    by (rule inject_started [OF k1(3,4) st h1])
  have pres: "present (statics k) i" using pr by (simp add: present_slot)
  note cu = current_after_switch [OF pres i(2,3), of ctx True]
  have stt: "statics (snd r) = statics k"
    unfolding r_def by (simp add: proc_switch_def Let_def case_prod_beta split: option.split)
  show thesis
  proof (rule that [of stk])
    show "fst r = enter_handler (pi_entry pi) stk (set_gpr 1 (pi_data pi) (set_gpr 0 (ucast (pi_interrupt pi)) X))"
      unfolding r_def proc_switch_frame(3) sw inj(2) k1(2) ..
    show "handlers_at (snd r) (p_space (the_proc k i)) = Some (pi\<lparr>pi_state := INTR_STATE_WORKING,
       pi_saved_state := (pi_saved_state pi)\<lparr>ss_ctx := X\<rparr>, pi_stack := stk\<rparr>, sg, sv)"
      using inj(1) handlers_at_cong [OF proc_switch_frame(1) [of ctx i True k]] by (simp add: r_def sw k1)
    show "get_current_proc (snd r) = Some i" "core_id (snd r) = core_id k" using cu by (simp_all add: r_def)
    show "statics (snd r) = statics k" by (rule stt)
    show "p_ipc_res (the_proc (snd r) i) = p_ipc_res (the_proc k i)"
      using proc_switch_frame(2) [of ctx i True k i] inject_frame(2) [of i k1 i] k1(6) by (simp add: r_def sw reg_of_def)
  qed
qed

section \<open>The end of a handler\<close>

lemma pop_ready_found:
  "i \<in> set q \<Longrightarrow> p_state (the_proc k i) = READY \<Longrightarrow> fst (pop_ready k q) \<noteq> None"
  by (induction k q rule: pop_ready.induct) auto

text \<open>\<open>schedule\<close> out of a task that is ready and queued saves the registers in use as the task's own.\<close>

lemma schedule_saves:
  assumes cur: "get_current_proc k = Some i" and q: "i \<in> set (ready_queue k (core_id k))" "p_state (the_proc k i) = READY"
    and idle: "idles k (core_id k) \<noteq> Some i"
    and nr: "\<not> restoring k i" and calm: "calm k (p_space (the_proc k i))"
  shows "p_ctx (the_proc (snd (schedule ctx k)) i) = ctx"
    and "p_ipc_res (the_proc (snd (schedule ctx k)) i) = p_ipc_res (the_proc k i)"
    and "handlers_at (snd (schedule ctx k)) (p_space (the_proc k i)) = handlers_at k (p_space (the_proc k i))"
proof -
  have pr: "slot k i \<noteq> None" using current_present [OF cur] by (simp add: present_slot)
  define k1 where "k1 = (case idles k (core_id k) of None \<Rightarrow> k | Some d \<Rightarrow> upd_proc d (\<lambda>p. p\<lparr>p_state := WAIT, p_wait_for := 0\<rparr>) k)"
  have s1: "slot k1 i = slot k i" "the_proc k1 i = the_proc k i" "spaces k1 = spaces k" "ready_queue k1 = ready_queue k" "here k1 = here k"
    using idle by (auto simp: k1_def the_proc_def split: option.split)
  obtain n qq where pop: "pop_ready k1 (ready_queue k1 (core_id k1)) = (n, qq)" by fastforce
  have "core_id k1 = core_id k" using s1(5) by (simp add: here_def)
  then obtain m where n: "n = Some m"
    using pop_ready_found [of i "ready_queue k1 (core_id k1)" k1] q s1 pop by auto
  define k2 where "k2 = upd_proc m (\<lambda>p. p\<lparr>p_state := RUNNING\<rparr>) (set_ready_queue (core_id k1) qq k1)"
  have sch: "schedule ctx k = proc_switch ctx m False k2"
    using pop n by (simp add: schedule_def Let_def proc_get_next_ready_def k2_def k1_def idles_def split: option.splits)
  have s2: "spaces k2 = spaces k" "here k2 = here k" "slot k2 i \<noteq> None" "reg_of (the_proc k2 i) = reg_of (the_proc k i)"
    "p_space (the_proc k2 i) = p_space (the_proc k i)" "p_type (the_proc k2 i) = p_type (the_proc k i)"
    "live_state (p_state (the_proc k2 i))"
    using s1 pr q(2) by (cases "m = i"; simp add: k2_def set_ready_queue_def; simp add: here_def)+
  have cur2: "get_current_proc k2 = Some i"
    using cur s2(2,3,7) by (auto simp: get_current_proc_alt here_def proc_get_int dest!: proc_get_SomeD)
  have nr2: "\<not> restoring k2 i"
    using nr unfolding restoring_def handlers_at_cong [OF s2(1)] s2(5,6) .
  define k3 where "k3 = switch_activate (Some i) m (upd_proc i (\<lambda>p. p\<lparr>p_ctx := ctx\<rparr>) (proc_queue_remove_all m k2))"
  have sw: "switched ctx m k2 = inject_context m k3" unfolding k3_def by (rule switched_plain [OF cur2 nr2])
  have s3: "spaces k3 = spaces k" "p_ctx (the_proc k3 i) = ctx" "p_ipc_res (the_proc k3 i) = p_ipc_res (the_proc k i)"
    using s2 by (simp_all add: k3_def reg_of_def)
  have calm3: "calm k3 (p_space (the_proc k i))" using calm unfolding calm_def handlers_at_cong [OF s3(1)] .
  have p3: "p_space (the_proc k3 i) = p_space (the_proc k i)" using s2 by (simp add: k3_def)
  have "p_ctx (the_proc (inject_context m k3) i) = ctx \<and>
      handlers_at (inject_context m k3) (p_space (the_proc k i)) = handlers_at k3 (p_space (the_proc k i))"
  proof (cases "p_space (the_proc k3 m) = p_space (the_proc k i)")
    case True
    then show ?thesis using inject_calm [of k3 m] calm3 s3 by simp
  next
    case False
    then have "m \<noteq> i" using p3 by auto
    then show ?thesis using False inject_frame(1) [of i m k3] inject_frame(3) [of _ k3 m] s3 by simp
  qed
  then show "p_ctx (the_proc (snd (schedule ctx k)) i) = ctx"
    "p_ipc_res (the_proc (snd (schedule ctx k)) i) = p_ipc_res (the_proc k i)"
    "handlers_at (snd (schedule ctx k)) (p_space (the_proc k i)) = handlers_at k (p_space (the_proc k i))"
    using proc_switch_frame(2) [of ctx m False k2 i] handlers_at_cong [OF proc_switch_frame(1) [of ctx m False k2]]
      handlers_at_cong [OF s3(1)] inject_frame(2) [of m k3 i] s3(3)
    unfolding sch sw by (simp_all add: reg_of_def)
qed

text \<open>The part of the handler records that decides about injection; a wake does not touch it.\<close>

definition hview :: "proc_interrupt \<times> signal_t \<times> ipc_server \<Rightarrow> intr_st \<times> bool \<times> bool \<times> bool \<times> bool" where
  "hview h = (case h of (pi, sg, sv) \<Rightarrow>
     (pi_state pi, pi_restore_pending pi, sg_do_switch sg, is_do_switch sv, is_restore_pending sv))"

definition view_at :: "'a kernel_scheme \<Rightarrow> nat option \<Rightarrow> (intr_st \<times> bool \<times> bool \<times> bool \<times> bool) option" where
  "view_at k s = map_option hview (handlers_at k s)"

lemma view_upd_space: "(\<And>sp. hview (handlers (g sp)) = hview (handlers sp)) \<Longrightarrow> view_at (upd_space s g k) t = view_at k t"
  by (simp add: view_at_def handlers_at_upd_space option.map_comp comp_def) (simp add: handlers_at_def option.map_comp comp_def)

lemma view_cong: "spaces k' = spaces k \<Longrightarrow> view_at k' s = view_at k s"
  unfolding view_at_def by (simp only: handlers_at_cong [of k' k])

lemma view_upd_proc [simp]: "view_at (upd_proc i f k) s = view_at k s"
  by (simp add: view_at_def)

lemma view_wakeup_all [simp]: "view_at (proc_wakeup_all_state i k) s = view_at k s"
proof (cases "proc_space_of k i")
  case (Some sp)
  have "view_at (proc_ready_with_order i ph k) s = view_at k s" for ph by (rule view_cong) simp
  then show ?thesis using Some
    by (simp add: proc_wakeup_all_state_def Let_def) (subst view_upd_space, auto simp: hview_def handlers_def)
qed (simp add: proc_wakeup_all_state_def)

lemma view_cancel_wait [simp]: "view_at (proc_ipc_cancel_wait i k) s = view_at k s"
  by (auto simp: proc_ipc_cancel_wait_def Let_def hview_def handlers_def intro!: view_upd_space split: option.split)

lemma wake_resched_spaces [simp]: "spaces (wake_resched i k) = spaces k"
  by (simp add: wake_resched_def Let_def)

lemma view_wakeup [simp]: "view_at (proc_wakeup i k) s = view_at k s"
  by (simp add: proc_wakeup_def proc_wakeup_by_def Let_def view_cong [of "wake_resched _ _"])

lemma calm_view: "calm k s \<longleftrightarrow> (\<forall>a b c d e. view_at k s = Some (a, b, c, d, e) \<longrightarrow> a \<noteq> INTR_STATE_START \<and> \<not> c \<and> \<not> d)"
  by (cases "handlers_at k s") (auto simp: calm_def view_at_def hview_def)

lemma restoring_view: "restoring k i \<longleftrightarrow> p_type (the_proc k i) = TASK_TYPE_PROC \<and>
    (\<exists>a b c d e. view_at k (p_space (the_proc k i)) = Some (a, b, c, d, e) \<and> (b \<or> e))"
  by (cases "handlers_at k (p_space (the_proc k i))") (auto simp: restoring_def view_at_def hview_def)

lemma reg_wake_fields [simp]:
  "reg_of (p\<lparr>p_block_by := a, p_sleep_counter := b, p_wake_by := c, p_wake_pending := d\<rparr>) = reg_of p"
  "reg_of (latch_wake t p) = reg_of p" "reg_of (p\<lparr>p_ipc_waiting_on := w\<rparr>) = reg_of p"
  "reg_of (p\<lparr>p_wait_item_queued := q\<rparr>) = reg_of p"
  by (auto simp: reg_of_def latch_wake_def)

lemma reg_wakeup [simp]: "reg_of (the_proc (proc_wakeup j k) i) = reg_of (the_proc k i)"
proof -
  have rs: "the_proc (wake_resched j k) i = the_proc k i" for k :: "'a kernel_scheme" by (rule the_proc_of_slot) simp
  have cw: "reg_of (the_proc (proc_ipc_cancel_wait j k) i) = reg_of (the_proc k i)"
    by (simp add: proc_ipc_cancel_wait_def Let_def split: option.split)
  show ?thesis by (simp add: proc_wakeup_def proc_wakeup_by_def Let_def rs cw wakeup_all_state_regs)
qed

lemma ready_queue_wakeup: "set (ready_queue k c) \<subseteq> set (ready_queue (proc_wakeup j k) c)"
proof -
  have kick: "ready_queue (proc_kick_ready_core j k) = ready_queue k" "ready_queue (wake_resched j k) = ready_queue k"
    for k :: "'a kernel_scheme" by (simp_all add: proc_kick_ready_core_def wake_resched_def Let_def)
  have cw: "ready_queue (proc_ipc_cancel_wait j k) = ready_queue k"
    by (simp add: proc_ipc_cancel_wait_def Let_def split: option.split)
  have "set (ready_queue k c) \<subseteq> set (ready_queue (proc_ready_with_order j ph k) c)" for ph and k :: "'a kernel_scheme"
    by (auto simp: proc_ready_with_order_alt make_ready_def Let_def kick set_ready_queue_def in_set_remove1
        proc_track_priority_update_def)
  then have w: "set (ready_queue k c) \<subseteq> set (ready_queue (proc_wakeup_all_state j k) c)" for k :: "'a kernel_scheme"
    by (simp add: proc_wakeup_all_state_def Let_def split: option.split)
  show ?thesis
    using w [of "proc_ipc_cancel_wait j k"] w [of "upd_proc j f (proc_ipc_cancel_wait j k)" for f]
    by (simp add: proc_wakeup_def proc_wakeup_by_def Let_def kick cw)
qed

lemma ready_wakeup:
  assumes "slot k i \<noteq> None" "p_state (the_proc k i) = READY"
  shows "p_state (the_proc (proc_wakeup j k) i) = READY"
proof -
  have st: "p_state (the_proc (proc_wakeup_all_state j k) i) = READY" if "p_state (the_proc k i) = READY" "slot k i \<noteq> None"
    for k :: "'a kernel_scheme" using that by (auto simp: the_proc_def slot_wakeup_all_state)
  have cw: "p_state (the_proc (proc_ipc_cancel_wait j k) i) = READY" "slot (proc_ipc_cancel_wait j k) i \<noteq> None"
    using assms by (auto simp: the_proc_def slot_cancel_wait)
  have rs: "the_proc (wake_resched j k) i = the_proc k i" for k :: "'a kernel_scheme" by (rule the_proc_of_slot) simp
  define k1 where "k1 = upd_proc j (\<lambda>p. p\<lparr>p_block_by := 0, p_sleep_counter := 0, p_wake_by := 0, p_wake_pending := False\<rparr>) (proc_ipc_cancel_wait j k)"
  have "p_state (the_proc k1 i) = READY" "slot k1 i \<noteq> None"
    using cw by (simp_all add: k1_def the_proc_upd_field [of p_state] slot_upd_proc) auto
  from st [OF this] st [OF cw] cw(1) assms(2) show ?thesis
    by (simp add: proc_wakeup_def proc_wakeup_by_def Let_def rs the_proc_upd_field [of p_state] k1_def)
qed

end
