(* ===== verification/Interrupt_Props.thy ===== *)
theory Interrupt_Props
  imports Interrupt Switch_Frame
begin

text \<open>
  The properties of user level interrupts: a delivered handler starts at its entry with its arguments,
  the end of the handler gives the interrupted process its registers back, and where the code falls
  short of that.
\<close>

section \<open>The interrupt record\<close>

lemma upd_intr_frame [simp]:
  "task_table (upd_intr i f k) = task_table k" "the_proc (upd_intr i f k) j = the_proc k j"
  "slot (upd_intr i f k) j = slot k j" "current_proc (upd_intr i f k) = current_proc k"
  "core_id (upd_intr i f k) = core_id k" "ready_queue (upd_intr i f k) = ready_queue k"
  "cpu_cores (upd_intr i f k) = cpu_cores k" "statics (upd_intr i f k) = statics k"
  by (simp_all add: upd_intr_def)

lemma handlers_upd_intr:
  "handlers_at k (p_space (the_proc k i)) = Some (pi, sg, sv) \<Longrightarrow>
   handlers_at (upd_intr i f k) (p_space (the_proc k i)) = Some (f pi, sg, sv)"
  by (cases "p_space (the_proc k i)") (auto simp: upd_intr_def handlers_def handlers_at_def space_at_def upd_space_def)

lemma track_interrupt_frame [simp]:
  "spaces (proc_track_interrupt_timeout i k) = spaces k" "task_table (proc_track_interrupt_timeout i k) = task_table k"
  "current_proc (proc_track_interrupt_timeout i k) = current_proc k" "core_id (proc_track_interrupt_timeout i k) = core_id k"
  by (simp_all add: proc_track_interrupt_timeout_def split: option.split)

lemma here_upd_intr [simp]: "here (upd_intr i f k) = here k"
  by (simp add: upd_intr_def)

text \<open>Waking the waiters of a process in a handler leaves a ready task ready and queued.\<close>

lemma interrupt_wakeup_frame:
  assumes "proc_interrupt_wakeup sv k = (w, k')" "proc_space_of k sv \<noteq> None"
  shows "view_at k' s = view_at k s" "here k' = here k" "idles k' = idles k" "reg_of (the_proc k' i) = reg_of (the_proc k i)"
    "statics k' = statics k" "set (ready_queue k c) \<subseteq> set (ready_queue k' c)"
    "slot k i \<noteq> None \<Longrightarrow> p_state (the_proc k i) = READY \<Longrightarrow> p_state (the_proc k' i) = READY"
proof -
  obtain sp where sp: "proc_space_of k sv = Some sp" using assms(2) by auto
  define k1 where "k1 = upd_intr sv (\<lambda>pi. pi\<lparr>pi_wait_queue := tl (pi_wait_queue pi)\<rparr>) k"
  have q1: "upd_intr sv (\<lambda>pi. pi\<lparr>pi_wait_queue := q\<rparr>) k = k1" if "pi_wait_queue (sp_interrupt sp) = x # q" for x q
    using sp that unfolding k1_def upd_intr_def proc_space_of_def space_at_def upd_space_def by (auto split: option.splits)
  have v1: "view_at k1 s = view_at k s" "idles k1 = idles k"
    unfolding k1_def upd_intr_def by (rule view_upd_space, simp add: hview_def handlers_def) simp
  have "k' = k \<or> k' = k1 \<or> (\<exists>j. k' = proc_wakeup j k1)"
    using assms(1) sp q1
    by (auto simp: proc_interrupt_wakeup_def wake_waiter_def split: list.splits option.splits if_splits)
  then show "view_at k' s = view_at k s" "here k' = here k" "idles k' = idles k" "reg_of (the_proc k' i) = reg_of (the_proc k i)"
    "statics k' = statics k" "set (ready_queue k c) \<subseteq> set (ready_queue k' c)"
    "slot k i \<noteq> None \<Longrightarrow> p_state (the_proc k i) = READY \<Longrightarrow> p_state (the_proc k' i) = READY"
    using v1 ready_queue_wakeup [of k1 c] ready_wakeup [of k1 i] by (auto simp: k1_def)
qed

lemma intr_restore_eq:
  "intr_restore i pi k = (ss_ctx (pi_saved_state pi),
     upd_intr i (\<lambda>pi'. pi'\<lparr>pi_saved_state := zero_saved_state, pi_saved_ipc_res := ipc_res_snapshot_clear (pi_saved_ipc_res pi)\<rparr>)
      (upd_proc i (\<lambda>_. (the_proc k i)\<lparr>p_state := ss_state (pi_saved_state pi),
        p_sleep_counter := uint (ss_sleep_counter (pi_saved_state pi)),
        p_ipc_res := ipc_res_snapshot_copy (p_ipc_res (the_proc k i)) (pi_saved_ipc_res pi)\<rparr>) k))"
  by (simp add: intr_restore_def proc_restore_state_def Let_def)

lemma interrupt_end_restores:
  assumes cur: "get_current_proc k = Some i" and h: "handlers_at k (p_space (the_proc k i)) = Some (pi, sg, sv)"
    and st: "ss_state (pi_saved_state pi) \<in> {READY, RUNNING}" and core: "p_core (the_proc k i) = core_id k"
    and idle: "idles k (core_id k) \<noteq> Some i" and np: "\<not> pi_pending pi"
    and q: "\<not> sg_do_switch sg" "\<not> is_do_switch sv" "\<not> is_restore_pending sv"
    and r: "interrupt_end ctx s k = (ctx', s', k')"
  shows "p_ctx (the_proc k' i) = ss_ctx (pi_saved_state pi)"
    and "p_ipc_res (the_proc k' i) = ipc_res_snapshot_copy (p_ipc_res (the_proc k i)) (pi_saved_ipc_res pi)"
    and "\<exists>b c d e. view_at k' (p_space (the_proc k i)) = Some (INTR_STATE_IDLE, b, c, d, e)"
    and "s' = (if pi_interrupt pi \<noteq> IRQ_SOFT then irq_enable_arch (pi_interrupt pi) s else s)"
proof -
  let ?x = "p_space (the_proc k i)"
  obtain sp where sp: "proc_space_of k i = Some sp" "sp_interrupt sp = pi" "sp_signal sp = sg" "sp_ipc_server sp = sv"
    using h by (auto simp: handlers_at_Some proc_space_of_def)
  have pr: "slot k i \<noteq> None" and live: "live_state (p_state (the_proc k i))"
    using current_present [OF cur] cur by (auto simp: present_slot get_current_proc_alt dest!: proc_get_SomeD)
  define k1 where "k1 = proc_untrack_interrupt_timeout i (upd_intr i (\<lambda>pi. pi\<lparr>pi_state := INTR_STATE_IDLE, pi_counter := 0,
     pi_pending := False, pi_restore_pending := False\<rparr>) k)"
  define k2 where "k2 = snd (intr_restore i pi k1)"
  define k3 where "k3 = proc_ready i k2"
  define k4 where "k4 = upd_intr i (\<lambda>pi. pi\<lparr>pi_entry := 0, pi_data := 0, pi_interrupt := 0\<rparr>) k3"
  obtain w k5 where w: "proc_interrupt_wakeup i k4 = (w, k5)" by fastforce
  have p1: "the_proc k1 j = the_proc k j" "slot k1 j = slot k j" "here k1 = here k" "idles k1 = idles k" "statics k1 = statics k" for j
    by (simp_all add: k1_def proc_untrack_interrupt_timeout_def here_def upd_intr_def idles_def)
  have p2: "p_state (the_proc k2 i) = ss_state (pi_saved_state pi)" "p_space (the_proc k2 i) = ?x" "slot k2 i \<noteq> None"
    "p_ipc_res (the_proc k2 i) = ipc_res_snapshot_copy (p_ipc_res (the_proc k i)) (pi_saved_ipc_res pi)"
    "p_core (the_proc k2 i) = core_id k" "here k2 = here k" "idles k2 = idles k" "p_type (the_proc k2 i) = p_type (the_proc k i)"
    using pr core p1 by (simp_all add: k2_def intr_restore_eq upd_intr_def idles_def)
  have h1: "handlers_at k1 ?x = Some (pi\<lparr>pi_state := INTR_STATE_IDLE, pi_counter := 0, pi_pending := False, pi_restore_pending := False\<rparr>, sg, sv)"
    unfolding k1_def proc_untrack_interrupt_timeout_def
    by (subst handlers_at_cong [of _ "upd_intr i _ k"]) (simp, rule handlers_upd_intr [OF h])
  have v1: "view_at k1 ?x = Some (INTR_STATE_IDLE, False, False, False, False)"
    using q by (simp add: view_at_def h1 hview_def)
  have v2: "view_at k2 ?x = Some (INTR_STATE_IDLE, False, False, False, False)"
    unfolding k2_def intr_restore_eq snd_conv upd_intr_def
    by (subst view_upd_space) (simp_all add: v1 hview_def handlers_def)
  have r3: "reg_of (the_proc k3 i) = reg_of (the_proc k2 i)" "slot k3 i \<noteq> None" "p_state (the_proc k3 i) = READY"
    "p_space (the_proc k3 i) = ?x" "here k3 = here k" "idles k3 = idles k" "i \<in> set (ready_queue k3 (core_id k))" "statics k3 = statics k2"
    using p2 queued_ready_with_order [of k2 i False]
    by (auto simp: k3_def proc_ready_def reg_ready slot_ready_with_order the_proc_def present_slot)
  have v4: "view_at k4 ?x = Some (INTR_STATE_IDLE, False, False, False, False)"
    unfolding k4_def upd_intr_def r3(4)
    by (subst view_upd_space) (use v2 view_cong [of k3 k2] in \<open>simp_all add: hview_def handlers_def k3_def proc_ready_def\<close>)
  have r4: "reg_of (the_proc k4 i) = reg_of (the_proc k2 i)" "slot k4 i \<noteq> None" "p_state (the_proc k4 i) = READY" "p_space (the_proc k4 i) = ?x"
    "here k4 = here k" "idles k4 = idles k" "i \<in> set (ready_queue k4 (core_id k))" "statics k4 = statics k2"
    using r3 by (auto simp: k4_def upd_intr_def)
  have "proc_space_of k4 i \<noteq> None" using v4 r4(4) by (auto simp: view_at_def handlers_at_def proc_space_of_def)
  note w5 = interrupt_wakeup_frame [OF w this]
  have pp: "p_space (the_proc k5 i) = ?x" using statics_projD(6) [OF w5(5) r4(2)] r4(4) by simp
  have cid: "core_id k5 = core_id k" using w5(2) r4(5) by (simp add: here_def)
  have q5: "i \<in> set (ready_queue k5 (core_id k5))" "p_state (the_proc k5 i) = READY"
    using w5(6) [of "core_id k"] w5(7) [of i] r4 cid by auto
  have s5: "slot k5 i \<noteq> None" using statics_slotD(1) [OF w5(5)] r4(2) by simp
  have cur5: "get_current_proc k5 = Some i"
    using cur w5(2) r4(5) s5 q5(2) by (auto simp: get_current_proc_alt here_def proc_get_int dest!: proc_get_SomeD)
  have v5: "view_at k5 ?x = Some (INTR_STATE_IDLE, False, False, False, False)" using w5(1) v4 by simp
  have c5: "calm k5 (p_space (the_proc k5 i))" "\<not> restoring k5 i" using v5 pp by (auto simp: calm_view restoring_view)
  have "idles k5 (core_id k5) \<noteq> Some i" using idle w5(3) r4(6) cid by simp
  note sch = schedule_saves [OF cur5 q5 this c5(2,1), of "ss_ctx (pi_saved_state pi)"]
  have eq: "interrupt_end ctx s k = (fst (schedule (ss_ctx (pi_saved_state pi)) k5),
      (if pi_interrupt pi \<noteq> IRQ_SOFT then irq_enable_arch (pi_interrupt pi) s else s), snd (schedule (ss_ctx (pi_saved_state pi)) k5))"
  proof -
    have rst: "intr_restore i pi k1 = (ss_ctx (pi_saved_state pi), k2)" by (simp add: k2_def intr_restore_eq)
    have lv: "p_state (the_proc k1 i) \<noteq> UNUSED" "p_state (the_proc k1 i) \<noteq> ZOMBIE" using live p1(1) by (auto simp: live_state_def)
    have rd: "p_state (the_proc k2 i) = READY \<or> p_state (the_proc k2 i) = RUNNING" using p2(1) st by simp
    show ?thesis
      unfolding interrupt_end_def cur sp(1) option.case Let_def sp(2) k1_def [symmetric]
      using lv np rd by (simp only: rst prod.case simp_thms if_False if_True k3_def [symmetric] k4_def [symmetric] w case_prod_beta fst_conv snd_conv)
  qed
  from r eq have e: "k' = snd (schedule (ss_ctx (pi_saved_state pi)) k5)"
    "s' = (if pi_interrupt pi \<noteq> IRQ_SOFT then irq_enable_arch (pi_interrupt pi) s else s)" by simp_all
  show "s' = (if pi_interrupt pi \<noteq> IRQ_SOFT then irq_enable_arch (pi_interrupt pi) s else s)" by (rule e(2))
  show "p_ctx (the_proc k' i) = ss_ctx (pi_saved_state pi)" using sch(1) e(1) by simp
  show "p_ipc_res (the_proc k' i) = ipc_res_snapshot_copy (p_ipc_res (the_proc k i)) (pi_saved_ipc_res pi)"
    using sch(2) e(1) w5(4) [of i] r4(1) p2(4) by (simp add: reg_of_def)
  show "\<exists>b c d e. view_at k' ?x = Some (INTR_STATE_IDLE, b, c, d, e)"
    using sch(3) v5 pp unfolding e(1) view_at_def by auto
qed

section \<open>Properties\<close>

lemma snapshot_copy_eq: "ipc_res_snapshot_copy b c = c"
  by (cases c; cases b) (simp add: ipc_res_snapshot_copy_def ipc_res_snapshot_clear_def Let_def)

text \<open>The state in which \<open>proc_switch\<close> is called, after the start of a handler.\<close>

lemma intr_started:
  fixes k :: "'a kernel_scheme" and irq :: u32 and entry data :: u64
  assumes sp: "proc_space_of k i = Some sp" and pr: "slot k i \<noteq> None" and cur: "get_current_proc k = Some c"
    and nr: "\<not> restoring k c" "\<not> is_restore_pending (sp_ipc_server sp)"
  defines "k0 \<equiv> intr_start_proc i irq entry data k"
  defines "k1 \<equiv> (if p_state (the_proc k0 i) \<noteq> RUNNING then proc_wakeup_all_state i k0 else k0)"
  obtains pi' sg' sv' where "handlers_at k1 (p_space (the_proc k i)) = Some (pi', sg', sv')"
    "pi_state pi' = INTR_STATE_START" "pi_entry pi' = entry" "pi_data pi' = data" "pi_interrupt pi' = irq" "\<not> pi_pending pi'"
    "pi_saved_ipc_res pi' = p_ipc_res (the_proc k i)" "ss_state (pi_saved_state pi') \<in> {READY, RUNNING}"
    "sg_do_switch sg' = sg_do_switch (sp_signal sp)" "is_do_switch sv' = is_do_switch (sp_ipc_server sp)"
    "\<not> is_restore_pending sv'" "\<not> restoring k1 c" "get_current_proc k1 = Some c" "get_current_proc k0 = Some c"
    "statics k1 = statics k" "reg_of (the_proc k1 i) = reg_of (the_proc k i)" "core_id k1 = core_id k" "idles k1 = idles k"
proof -
  let ?x = "p_space (the_proc k i)"
  define pi0 where "pi0 = intr_start (the_proc k i) irq entry data (sp_interrupt sp)"
  have p0: "the_proc k0 j = the_proc k j" "slot k0 j = slot k j" "here k0 = here k" "statics k0 = statics k" "idles k0 = idles k" for j
    by (simp_all add: k0_def intr_start_proc_def proc_track_interrupt_timeout_def upd_intr_def idles_def split: option.split)
  have "spaces k0 = spaces (upd_intr i (intr_start (the_proc k i) irq entry data) k)" by (simp add: k0_def intr_start_proc_def)
  then have h0: "handlers_at k0 ?x = Some (pi0, sp_signal sp, sp_ipc_server sp)"
    using handlers_upd_intr [OF space_of_handlers [OF sp]] handlers_at_cong [of k0] unfolding pi0_def by metis
  have f0: "pi_state pi0 = INTR_STATE_START" "pi_entry pi0 = entry" "pi_data pi0 = data" "pi_interrupt pi0 = irq" "\<not> pi_pending pi0"
    "\<not> pi_restore_pending pi0" "pi_saved_ipc_res pi0 = p_ipc_res (the_proc k i)" "ss_state (pi_saved_state pi0) = p_state (the_proc k i)"
    by (simp_all add: pi0_def intr_start_def Let_def proc_save_state_def snapshot_copy_eq)
  have lvc: "live_state (p_state (the_proc k c))" "slot k c \<noteq> None" "current_proc k (core_id k) = int c"
    using cur by (auto simp: get_current_proc_alt dest!: proc_get_SomeD)
  have cur0: "get_current_proc k0 = Some c"
    using lvc p0 by (simp add: get_current_proc_alt here_def proc_get_int)
  have "view_at k0 s = view_at k s" if "s \<noteq> ?x" for s
  proof -
    have "handlers_at k0 s = handlers_at k s"
      using that unfolding k0_def intr_start_proc_def
      by (subst handlers_at_cong [OF track_interrupt_frame(1)]) (simp add: upd_intr_def handlers_at_upd_space)
    then show ?thesis by (simp add: view_at_def)
  qed
  then have nr0: "\<not> restoring k0 c"
    using nr h0 f0(6) p0(1) unfolding restoring_view
    by (cases "p_space (the_proc k c) = ?x") (auto simp: view_at_def hview_def)
  show thesis
  proof (cases "p_state (the_proc k0 i) = RUNNING")
    case True
    then have "k1 = k0" by (simp add: k1_def)
    then show thesis
      using that [of pi0 "sp_signal sp" "sp_ipc_server sp"] h0 f0 nr nr0 cur0 p0 True by (simp add: here_def)
  next
    case False
    have hk: "handlers_at k0 (p_space (the_proc k0 i)) = Some (pi0, sp_signal sp, sp_ipc_server sp)" using h0 p0(1) by simp
    have "slot k0 i \<noteq> None" using pr p0(2) by simp
    from wakeup_all_state_frame [OF hk this] obtain sg' sv' where w:
      "handlers_at (proc_wakeup_all_state i k0) (p_space (the_proc k0 i)) =
        Some (pi0\<lparr>pi_saved_state := (pi_saved_state pi0)\<lparr>ss_state := READY\<rparr>\<rparr>, sg', sv')"
      "sg_do_switch sg' = sg_do_switch (sp_signal sp)" "is_do_switch sv' = is_do_switch (sp_ipc_server sp)"
      "is_restore_pending sv' = is_restore_pending (sp_ipc_server sp)" by blast
    have k1: "k1 = proc_wakeup_all_state i k0" using False by (simp add: k1_def)
    have st1: "statics k1 = statics k" "here k1 = here k" "idles k1 = idles k" using p0 by (simp_all add: k1)
    have pc: "p_type (the_proc k1 c) = p_type (the_proc k0 c)" "p_space (the_proc k1 c) = p_space (the_proc k0 c)"
      using statics_projD(4,6) [OF st1(1) lvc(2)] p0(1) by simp_all
    have "\<not> restoring k1 c" using nr0 unfolding restoring_view pc by (simp add: k1)
    moreover have "get_current_proc k1 = Some c"
      using lvc p0 st1(2) by (auto simp: get_current_proc_alt here_def proc_get_int k1 slot_wakeup_all_state the_proc_def)
    moreover have "reg_of (the_proc k1 i) = reg_of (the_proc k i)" by (simp add: k1 wakeup_all_state_regs p0)
    ultimately show thesis
      using that [of "pi0\<lparr>pi_saved_state := (pi_saved_state pi0)\<lparr>ss_state := READY\<rparr>\<rparr>" sg' sv'] w f0 nr cur0 st1 p0(1) k1
      by (simp add: here_def)
  qed
qed

text \<open>What a delivery on the executing core does: the handler is entered, and the record holds what the
  end of the handler needs.\<close>

lemma interrupt_delivered:
  assumes h: "0 < ih_uuid h" "ih_entry h \<noteq> 0" "proc_get_by_uuid k (word_of_int (ih_uuid h)) = Some i"
    and sp: "proc_space_of k i = Some sp" "pi_state (sp_interrupt sp) = INTR_STATE_IDLE" "\<not> is_restore_pending (sp_ipc_server sp)"
    and i: "slot k i \<noteq> None" "p_type (the_proc k i) = TASK_TYPE_PROC" "p_core (the_proc k i) = core_id k" "p_pid (the_proc k i) = int i"
    and c: "get_current_proc k = Some c" "p_core (the_proc k c) = core_id k" "\<not> restoring k c"
    and send: "interrupt_send_raw ctx irq h s k = (r, ctx1, s1, k1)"
  obtains pi sg sv stk where "r = 0"
    "ctx1 = enter_handler (ih_entry h) stk (set_gpr 1 (ih_data h) (set_gpr 0 (ucast irq) (if i = c then ctx else p_ctx (the_proc k i))))"
    "s1 = (if irq \<noteq> IRQ_SOFT then irq_disable_arch irq s else s)"
    "handlers_at k1 (p_space (the_proc k1 i)) = Some (pi, sg, sv)" "pi_interrupt pi = irq" "\<not> pi_pending pi"
    "ss_ctx (pi_saved_state pi) = (if i = c then ctx else p_ctx (the_proc k i))" "ss_state (pi_saved_state pi) \<in> {READY, RUNNING}"
    "pi_saved_ipc_res pi = p_ipc_res (the_proc k i)" "sg_do_switch sg = sg_do_switch (sp_signal sp)"
    "is_do_switch sv = is_do_switch (sp_ipc_server sp)" "\<not> is_restore_pending sv"
    "get_current_proc k1 = Some i" "core_id k1 = core_id k" "p_core (the_proc k1 i) = core_id k" "idles k1 = idles k"
proof -
  let ?x = "p_space (the_proc k i)"
  define k0 where "k0 = intr_start_proc i irq (ih_entry h) (ih_data h) k"
  define ka where "ka = (if p_state (the_proc k0 i) \<noteq> RUNNING then proc_wakeup_all_state i k0 else k0)"
  obtain pi sg sv where a: "handlers_at ka ?x = Some (pi, sg, sv)"
    "pi_state pi = INTR_STATE_START" "pi_entry pi = ih_entry h" "pi_data pi = ih_data h" "pi_interrupt pi = irq" "\<not> pi_pending pi"
    "pi_saved_ipc_res pi = p_ipc_res (the_proc k i)" "ss_state (pi_saved_state pi) \<in> {READY, RUNNING}"
    "sg_do_switch sg = sg_do_switch (sp_signal sp)" "is_do_switch sv = is_do_switch (sp_ipc_server sp)" "\<not> is_restore_pending sv" "\<not> restoring ka c"
    "get_current_proc ka = Some c" "get_current_proc k0 = Some c"
    "statics ka = statics k" "reg_of (the_proc ka i) = reg_of (the_proc k i)" "core_id ka = core_id k" "idles ka = idles k"
    using intr_started [OF sp(1) i(1) c(1,3) sp(3), of irq "ih_entry h" "ih_data h", folded k0_def, folded ka_def] by metis
  note pj = statics_projD [OF a(15) i(1)]
  have pra: "slot ka i \<noteq> None" using statics_slotD(1) [OF a(15)] i(1) by simp
  have ia: "p_type (the_proc ka i) = TASK_TYPE_PROC" "p_core (the_proc ka i) = core_id ka" "p_pid (the_proc ka i) = int i"
    using pj i a(17) by simp_all
  have ha: "handlers_at ka (p_space (the_proc ka i)) = Some (pi, sg, sv)" using a(1) pj(6) by simp
  define X where "X = (if i = c then ctx else p_ctx (the_proc ka i))"
  obtain stk where d: "fst (proc_switch ctx i True ka) = enter_handler (pi_entry pi) stk (set_gpr 1 (pi_data pi) (set_gpr 0 (ucast (pi_interrupt pi)) X))"
    "handlers_at (snd (proc_switch ctx i True ka)) (p_space (the_proc ka i)) = Some (pi\<lparr>pi_state := INTR_STATE_WORKING,
       pi_saved_state := (pi_saved_state pi)\<lparr>ss_ctx := X\<rparr>, pi_stack := stk\<rparr>, sg, sv)"
    "get_current_proc (snd (proc_switch ctx i True ka)) = Some i" "core_id (snd (proc_switch ctx i True ka)) = core_id ka"
    "statics (snd (proc_switch ctx i True ka)) = statics ka"
    unfolding X_def by (rule started_switch [OF a(13) pra ia ha a(2) a(12), of ctx]) blast
  have p0: "the_proc k0 j = the_proc k j" for j
    by (simp add: k0_def intr_start_proc_def proc_track_interrupt_timeout_def upd_intr_def split: option.split)
  have snd_eq: "(r, ctx1, s1, k1) = (0, fst (proc_switch ctx i True ka), (if irq \<noteq> IRQ_SOFT then irq_disable_arch irq s else s),
      snd (proc_switch ctx i True ka))"
    using send [symmetric] h sp(1,2) a(14) c(2) i(3)
    by (simp add: interrupt_send_raw_def Let_def k0_def [symmetric] p0 proc_switch_multi_core_def case_prod_beta ka_def)
  then have e: "k1 = snd (proc_switch ctx i True ka)" "r = 0" "ctx1 = fst (proc_switch ctx i True ka)"
    "s1 = (if irq \<noteq> IRQ_SOFT then irq_disable_arch irq s else s)" by simp_all
  have pk: "p_space (the_proc k1 i) = p_space (the_proc ka i)" "p_core (the_proc k1 i) = core_id k"
    using statics_projD(1,6) [OF d(5) pra] ia(2) a(17) by (simp_all add: e)
  have X: "X = (if i = c then ctx else p_ctx (the_proc k i))" using a(16) by (simp add: X_def reg_of_def)
  show thesis
    by (rule that [of stk "pi\<lparr>pi_state := INTR_STATE_WORKING, pi_saved_state := (pi_saved_state pi)\<lparr>ss_ctx := X\<rparr>, pi_stack := stk\<rparr>" sg sv])
      (use e d pk a X in simp_all)
qed

text \<open>C33: the round trip of a user level interrupt. When an interrupt for an idle registered handler
  arrives on the process's core, the handler starts at its entry with the interrupt number and its
  data as arguments, as the current task, and with the hardware line masked; and when the handler
  ends (no further interrupt came meanwhile) the interrupted process has exactly its registers and
  its ipc reply slot back, whoever is scheduled next, and the line is unmasked.\<close>

theorem interrupt_roundtrip:
  assumes h: "0 < ih_uuid h" "ih_entry h \<noteq> 0" "proc_get_by_uuid k (word_of_int (ih_uuid h)) = Some i"
    and sp: "proc_space_of k i = Some sp" "pi_state (sp_interrupt sp) = INTR_STATE_IDLE" "\<not> sg_do_switch (sp_signal sp)"
      "\<not> is_do_switch (sp_ipc_server sp)" "\<not> is_restore_pending (sp_ipc_server sp)"
    and i: "slot k i \<noteq> None" "p_type (the_proc k i) = TASK_TYPE_PROC" "p_core (the_proc k i) = core_id k" "p_pid (the_proc k i) = int i"
      "idles k (core_id k) \<noteq> Some i"
    and c: "get_current_proc k = Some c" "p_core (the_proc k c) = core_id k" "\<not> restoring k c"
    and send: "interrupt_send_raw ctx irq h s k = (r, ctx1, s1, k1)"
    and fin: "interrupt_end hctx s1 k1 = (ctx2, s2, k2)"
  shows "r = 0 \<and> ctx_pc ctx1 = ih_entry h \<and> ctx_gpr ctx1 0 = ucast irq \<and> ctx_gpr ctx1 1 = ih_data h \<and>
    get_current_proc k1 = Some i \<and>
    p_ctx (the_proc k2 i) = (if i = c then ctx else p_ctx (the_proc k i)) \<and>
    p_ipc_res (the_proc k2 i) = p_ipc_res (the_proc k i) \<and>
    (irq \<noteq> IRQ_SOFT \<longrightarrow> irq \<in> irq_masked s1 \<and> irq \<notin> irq_masked s2)"
proof (rule interrupt_delivered [OF h sp(1,2,5) i(1-4) c send])
  fix pi sg sv stk
  assume d: "r = 0" "ctx1 = enter_handler (ih_entry h) stk (set_gpr 1 (ih_data h) (set_gpr 0 (ucast irq) (if i = c then ctx else p_ctx (the_proc k i))))"
    "s1 = (if irq \<noteq> IRQ_SOFT then irq_disable_arch irq s else s)"
    "handlers_at k1 (p_space (the_proc k1 i)) = Some (pi, sg, sv)" "pi_interrupt pi = irq" "\<not> pi_pending pi"
    "ss_ctx (pi_saved_state pi) = (if i = c then ctx else p_ctx (the_proc k i))" "ss_state (pi_saved_state pi) \<in> {READY, RUNNING}"
    "pi_saved_ipc_res pi = p_ipc_res (the_proc k i)" "sg_do_switch sg = sg_do_switch (sp_signal sp)"
    "is_do_switch sv = is_do_switch (sp_ipc_server sp)" "\<not> is_restore_pending sv"
    "get_current_proc k1 = Some i" "core_id k1 = core_id k" "p_core (the_proc k1 i) = core_id k" "idles k1 = idles k"
  have "p_core (the_proc k1 i) = core_id k1" "idles k1 (core_id k1) \<noteq> Some i" "\<not> sg_do_switch sg" "\<not> is_do_switch sv"
    using d(10,11,14-16) i(5) sp(3,4) by simp_all
  note ed = interrupt_end_restores [OF d(13,4,8) this(1,2) d(6) this(3,4) d(12) fin]
  show ?thesis
    using d ed by (simp add: enter_handler_def set_gpr_def snapshot_copy_eq irq_disable_arch_def irq_enable_arch_def)
qed

definition ex_regs :: context_t where
  "ex_regs = zero_ctx\<lparr>ctx_pc := 0x1234, ctx_sp := 0x8000\<rparr>"

definition ex_handler :: interrupt_handler where
  "ex_handler = \<lparr>ih_uuid = 11, ih_entry = 0x4000, ih_data = 7\<rparr>"

lemmas ex_intr_simps = ex_sched_simps zero_space_def zero_interrupt_def zero_signal_def zero_ipc_server_def

lemma ex_sched_target:
  "proc_get_by_uuid ex_sched 11 = Some 1" "proc_space_of ex_sched 1 = Some zero_space" "slot ex_sched 1 \<noteq> None"
  "p_type (the_proc ex_sched 1) = TASK_TYPE_PROC" "p_core (the_proc ex_sched 1) = core_id ex_sched" "p_pid (the_proc ex_sched 1) = 1"
  "idles ex_sched (core_id ex_sched) = None" "get_current_proc ex_sched = Some 1" "\<not> restoring ex_sched 1" "p_uuid (the_proc ex_sched 1) = 11"
  by (simp_all add: proc_get_by_uuid_def idles_def get_current_proc_alt restoring_def handlers_at_def handlers_def ex_intr_simps)

theorem interrupt_roundtrip_witness:
  "\<exists>r ctx1 s1 k1 ctx2 s2 k2. interrupt_send_raw ex_regs 33 ex_handler (interrupt_init {}) ex_sched = (r, ctx1, s1, k1) \<and>
     interrupt_end ctx1 s1 k1 = (ctx2, s2, k2) \<and> ctx_pc ctx1 = 0x4000 \<and> p_ctx (the_proc k2 1) = ex_regs \<and> 33 \<notin> irq_masked s2"
proof -
  obtain r ctx1 s1 k1 where s: "interrupt_send_raw ex_regs 33 ex_handler (interrupt_init {}) ex_sched = (r, ctx1, s1, k1)"
    by (metis prod_cases4)
  obtain ctx2 s2 k2 where e: "interrupt_end ctx1 s1 k1 = (ctx2, s2, k2)" by (metis prod_cases3)
  from interrupt_roundtrip [OF _ _ _ ex_sched_target(2) _ _ _ _ ex_sched_target(3-5) _ _ ex_sched_target(8,5,9) s e] s e
  show ?thesis
    using ex_sched_target by (simp add: ex_handler_def zero_space_def zero_interrupt_def zero_signal_def zero_ipc_server_def IRQ_SOFT_def)
qed

text \<open>C34: the capability check of the soft interrupt call has no effect: it sets a return code and goes
  on. A caller without the interrupt capability makes any idle process of its core run at an address
  and with an argument of the caller's choice.\<close>

theorem soft_interrupt_unchecked:
  assumes "\<not> proc_cap_has k (proc_get_proc k (get_current_proc k)) CAP_IRQ CAP_X"
    and i: "proc_get k pid = Some i" "0 < sint (p_uuid (the_proc k i))" "proc_get_by_uuid k (p_uuid (the_proc k i)) = Some i"
    and sp: "proc_space_of k i = Some sp" "pi_state (sp_interrupt sp) = INTR_STATE_IDLE" "\<not> is_restore_pending (sp_ipc_server sp)"
    and t: "p_type (the_proc k i) = TASK_TYPE_PROC" "p_core (the_proc k i) = core_id k" "p_pid (the_proc k i) = int i"
    and c: "get_current_proc k = Some c" "p_core (the_proc k c) = core_id k" "\<not> restoring k c"
    and entry: "entry \<noteq> 0" and r: "sys_soft_int ctx pid entry data s k = (r, ctx1, s1, k1)"
  shows "r = 0 \<and> get_current_proc k1 = Some i \<and> ctx_pc ctx1 = entry \<and> ctx_gpr ctx1 1 = data"
proof -
  define h where "h = \<lparr>ih_uuid = sint (p_uuid (the_proc k i)), ih_entry = entry, ih_data = data\<rparr>"
  have pr: "slot k i \<noteq> None" using proc_get_present [OF i(1)] by (simp add: present_slot)
  have send: "interrupt_send_raw (set_gpr 0 (-2) (set_gpr 0 0 ctx)) IRQ_SOFT h s k = (r, ctx1, s1, k1)"
    using r assms(1) i(1) by (simp add: sys_soft_int_def interrupt_soft_send_def h_def Let_def)
  have h: "0 < ih_uuid h" "ih_entry h \<noteq> 0" "proc_get_by_uuid k (word_of_int (ih_uuid h)) = Some i"
    using i entry by (simp_all add: h_def)
  show ?thesis
    by (rule interrupt_delivered [OF h sp pr t c send])
      (simp add: enter_handler_def set_gpr_def h_def)
qed

theorem soft_interrupt_unchecked_witness:
  "\<exists>r ctx1 s1 k1. sys_soft_int ex_regs 1 0x6660 9 (interrupt_init {}) ex_sched = (r, ctx1, s1, k1) \<and> ctx_pc ctx1 = 0x6660"
proof -
  obtain r ctx1 s1 k1 where r: "sys_soft_int ex_regs 1 0x6660 9 (interrupt_init {}) ex_sched = (r, ctx1, s1, k1)"
    by (metis prod_cases4)
  have nc: "\<not> proc_cap_has ex_sched (proc_get_proc ex_sched (get_current_proc ex_sched)) CAP_IRQ CAP_X"
    using ex_sched_target(4,8)
    by (simp add: proc_cap_has_def cap_owner_def cnode_has_root_def Let_def ex_sched_simps CNODE_SLOTS_def zero_cap_def cap_types)
  from soft_interrupt_unchecked [OF nc _ _ _ ex_sched_target(2) _ _ ex_sched_target(4,5) _ ex_sched_target(8,5,9) _ r] r
  show ?thesis
    using ex_sched_target by (auto simp: zero_space_def zero_interrupt_def zero_ipc_server_def proc_get_alt ex_sched_simps)
qed

lemma interrupt_end_mask:
  assumes "get_current_proc k = Some i" "handlers_at k (p_space (the_proc k i)) = Some (pi, sg, sv)"
    and "interrupt_end ctx s k = (ctx', s', k')"
  shows "s' = s \<or> s' = irq_enable_arch (pi_interrupt pi) s"
proof -
  obtain sp where "proc_space_of k i = Some sp" "sp_interrupt sp = pi"
    using assms(2) by (auto simp: handlers_at_Some proc_space_of_def)
  then show ?thesis using assms(1,3)
    by (auto simp: interrupt_end_def Let_def case_prod_beta split: if_splits)
qed

text \<open>The end of a handler with an interrupt pending enters the same handler again.\<close>

lemma interrupt_end_restarts:
  assumes cur: "get_current_proc k = Some i" and h: "handlers_at k (p_space (the_proc k i)) = Some (pi, sg, sv)"
    and i: "p_type (the_proc k i) = TASK_TYPE_PROC" "p_core (the_proc k i) = core_id k" "p_pid (the_proc k i) = int i"
    and st: "ss_state (pi_saved_state pi) \<in> {READY, RUNNING}" and pend: "pi_pending pi" "pi_interrupt pi \<noteq> IRQ_SOFT"
    and q: "\<not> is_restore_pending sv" and r: "interrupt_end ctx s k = (ctx', s', k')"
  obtains pi' sg' sv' where "s' = s" "ctx_pc ctx' = pi_entry pi" "ctx_gpr ctx' 0 = ucast (pi_interrupt pi)" "get_current_proc k' = Some i"
    "handlers_at k' (p_space (the_proc k' i)) = Some (pi', sg', sv')" "pi_interrupt pi' = pi_interrupt pi"
proof -
  let ?x = "p_space (the_proc k i)"
  obtain sp where sp: "proc_space_of k i = Some sp" "sp_interrupt sp = pi" "sp_signal sp = sg" "sp_ipc_server sp = sv"
    using h by (auto simp: handlers_at_Some proc_space_of_def)
  have pr: "slot k i \<noteq> None" and live: "live_state (p_state (the_proc k i))" and cp: "current_proc k (core_id k) = int i"
    using current_present [OF cur] cur by (auto simp: present_slot get_current_proc_alt dest!: proc_get_SomeD)
  define k1 where "k1 = proc_untrack_interrupt_timeout i (upd_intr i (\<lambda>pi. pi\<lparr>pi_state := INTR_STATE_IDLE, pi_counter := 0,
     pi_pending := False, pi_restore_pending := False\<rparr>) k)"
  define k2 where "k2 = snd (intr_restore i pi k1)"
  define k3 where "k3 = upd_proc i (\<lambda>p. p\<lparr>p_ctx := ss_ctx (pi_saved_state pi)\<rparr>) (proc_ready i k2)"
  have p1: "the_proc k1 j = the_proc k j" "slot k1 j = slot k j" "here k1 = here k" "statics k1 = statics k" for j
    by (simp_all add: k1_def proc_untrack_interrupt_timeout_def here_def upd_intr_def)
  have s2: "slot k2 i \<noteq> None" "here k2 = here k" "p_type (the_proc k2 i) = p_type (the_proc k i)" "p_space (the_proc k2 i) = ?x"
    "p_core (the_proc k2 i) = core_id k" "p_pid (the_proc k2 i) = int i"
    using pr p1 i by (simp_all add: k2_def intr_restore_eq)
  have h1: "handlers_at k1 ?x = Some (pi\<lparr>pi_state := INTR_STATE_IDLE, pi_counter := 0, pi_pending := False, pi_restore_pending := False\<rparr>, sg, sv)"
    unfolding k1_def proc_untrack_interrupt_timeout_def
    by (subst handlers_at_cong [of _ "upd_intr i _ k"]) (simp, rule handlers_upd_intr [OF h])
  obtain pi2 where h2: "handlers_at k2 ?x = Some (pi2, sg, sv)" "\<not> pi_restore_pending pi2"
  proof -
    let ?ku = "upd_proc i (\<lambda>_. (the_proc k1 i)\<lparr>p_state := ss_state (pi_saved_state pi),
        p_sleep_counter := uint (ss_sleep_counter (pi_saved_state pi)),
        p_ipc_res := ipc_res_snapshot_copy (p_ipc_res (the_proc k1 i)) (pi_saved_ipc_res pi)\<rparr>) k1"
    have "handlers_at ?ku (p_space (the_proc ?ku i)) = Some (pi\<lparr>pi_state := INTR_STATE_IDLE, pi_counter := 0, pi_pending := False, pi_restore_pending := False\<rparr>, sg, sv)"
      using h1 pr p1 by simp
    from handlers_upd_intr [OF this] that show thesis
      using pr p1 unfolding k2_def intr_restore_eq snd_conv by simp
  qed
  have s3: "slot k3 i \<noteq> None" "here k3 = here k" "p_type (the_proc k3 i) = TASK_TYPE_PROC" "p_space (the_proc k3 i) = ?x"
    "p_core (the_proc k3 i) = core_id k" "p_pid (the_proc k3 i) = int i" "p_state (the_proc k3 i) = READY" "spaces k3 = spaces k2"
    using s2 i statics_projD [of "proc_ready i k2" k2 i]
    by (auto simp: k3_def proc_ready_def slot_ready_with_order the_proc_def slot_upd_proc)
  have h3: "handlers_at k3 ?x = Some (pi2, sg, sv)" using h2(1) handlers_at_cong [OF s3(8)] by simp
  obtain sp3 where sp3: "proc_space_of k3 i = Some sp3" "sp_ipc_server sp3 = sv"
    using h3 s3(4) by (auto simp: handlers_at_Some proc_space_of_def)
  have cur3: "get_current_proc k3 = Some i" using s3 cp by (simp add: get_current_proc_alt here_def proc_get_int)
  have nr3: "\<not> restoring k3 i" using h3 h2(2) q s3(4) by (auto simp: restoring_def)
  define k4 where "k4 = intr_start_proc i (pi_interrupt pi) (pi_entry pi) (pi_data pi) k3"
  define k5 where "k5 = (if p_state (the_proc k4 i) \<noteq> RUNNING then proc_wakeup_all_state i k4 else k4)"
  have "\<not> is_restore_pending (sp_ipc_server sp3)" using sp3(2) q by simp
  note isx = intr_started [OF sp3(1) s3(1) cur3 nr3 this, of "pi_interrupt pi" "pi_entry pi" "pi_data pi", folded k4_def, folded k5_def]
  obtain pa sga sva where a: "handlers_at k5 (p_space (the_proc k3 i)) = Some (pa, sga, sva)" "pi_state pa = INTR_STATE_START"
    "pi_entry pa = pi_entry pi" "pi_interrupt pa = pi_interrupt pi" "\<not> restoring k5 i" "get_current_proc k5 = Some i" "statics k5 = statics k3"
    "core_id k5 = core_id k3"
    by (rule isx) blast
  note pj = statics_projD [OF a(7) s3(1)]
  have c5: "core_id k5 = core_id k" using a(8) s3(2) by (simp add: here_def)
  have i5: "slot k5 i \<noteq> None" "p_type (the_proc k5 i) = TASK_TYPE_PROC" "p_core (the_proc k5 i) = core_id k5" "p_pid (the_proc k5 i) = int i"
    "handlers_at k5 (p_space (the_proc k5 i)) = Some (pa, sga, sva)"
    using pj statics_slotD(1) [OF a(7)] s3 c5 a(1) by simp_all
  let ?c = "ss_ctx (pi_saved_state pi)"
  obtain stk where d: "fst (proc_switch ?c i True k5) = enter_handler (pi_entry pa) stk (set_gpr 1 (pi_data pa) (set_gpr 0 (ucast (pi_interrupt pa)) ?c))"
    "handlers_at (snd (proc_switch ?c i True k5)) (p_space (the_proc k5 i)) = Some (pa\<lparr>pi_state := INTR_STATE_WORKING,
       pi_saved_state := (pi_saved_state pa)\<lparr>ss_ctx := ?c\<rparr>, pi_stack := stk\<rparr>, sga, sva)"
    "get_current_proc (snd (proc_switch ?c i True k5)) = Some i" "statics (snd (proc_switch ?c i True k5)) = statics k5"
    by (rule started_switch [OF a(6) i5(1-5) a(2) a(5), of ?c]) simp
  have rst: "intr_restore i pi k1 = (?c, k2)" by (simp add: k2_def intr_restore_eq)
  have lv: "p_state (the_proc k1 i) \<noteq> UNUSED" "p_state (the_proc k1 i) \<noteq> ZOMBIE" using live p1(1) by (auto simp: live_state_def)
  have rd: "p_state (the_proc k2 i) = READY \<or> p_state (the_proc k2 i) = RUNNING"
    using st pr p1 by (simp add: k2_def intr_restore_eq)
  have p4: "the_proc k4 i = the_proc k3 i"
    by (simp add: k4_def intr_start_proc_def proc_track_interrupt_timeout_def split: option.split)
  have pm: "proc_switch_multi_core ?c i (p_core (the_proc k4 i)) k4 = proc_switch ?c i True k5"
    by (simp add: proc_switch_multi_core_def k5_def)
  have eq: "interrupt_end ctx s k = (fst (proc_switch ?c i True k5), s, snd (proc_switch ?c i True k5))"
    unfolding interrupt_end_def cur sp(1) option.case Let_def sp(2) k1_def [symmetric]
    using lv rd pend by (simp only: rst prod.case simp_thms if_False if_True k3_def [symmetric] k4_def [symmetric] pm case_prod_beta fst_conv snd_conv)
  have e: "ctx' = fst (proc_switch ?c i True k5)" "s' = s" "k' = snd (proc_switch ?c i True k5)" using r eq by simp_all
  show thesis
  proof (rule that [of "pa\<lparr>pi_state := INTR_STATE_WORKING, pi_saved_state := (pi_saved_state pa)\<lparr>ss_ctx := ?c\<rparr>, pi_stack := stk\<rparr>" sga sva])
    show "s' = s" "ctx_pc ctx' = pi_entry pi" "ctx_gpr ctx' 0 = ucast (pi_interrupt pi)" "get_current_proc k' = Some i"
      unfolding e d(1) using d(3) a(3,4) by (simp_all add: enter_handler_def set_gpr_def)
    show "handlers_at k' (p_space (the_proc k' i)) = Some (pa\<lparr>pi_state := INTR_STATE_WORKING,
       pi_saved_state := (pi_saved_state pa)\<lparr>ss_ctx := ?c\<rparr>, pi_stack := stk\<rparr>, sga, sva)"
      unfolding e using d(2) statics_projD(6) [OF d(4) i5(1)] by simp
  qed (simp add: a(4))
qed

text \<open>C35: an interrupt of a second line that arrives while the process handles a first one is lost and
  its line stays masked: the kernel masks the second line and remembers only that something is
  pending, the end of the first handler runs the first handler again, with the first number, and
  the end of that run unmasks the first line only.\<close>

theorem interrupt_second_line_masked:
  assumes h: "0 < ih_uuid h" "ih_entry h \<noteq> 0" "proc_get_by_uuid k (word_of_int (ih_uuid h)) = Some i"
    and cur: "get_current_proc k = Some i" and sp: "proc_space_of k i = Some sp" "pi_state (sp_interrupt sp) = INTR_STATE_WORKING"
      "ss_state (pi_saved_state (sp_interrupt sp)) \<in> {READY, RUNNING}" "\<not> is_restore_pending (sp_ipc_server sp)"
    and i: "p_type (the_proc k i) = TASK_TYPE_PROC" "p_core (the_proc k i) = core_id k" "p_pid (the_proc k i) = int i"
    and irq: "irq \<noteq> IRQ_SOFT" "pi_interrupt (sp_interrupt sp) \<noteq> IRQ_SOFT" "irq \<noteq> pi_interrupt (sp_interrupt sp)"
    and send: "interrupt_send_raw ctx irq h s k = (r, ctx1, s1, k1)"
    and fin: "interrupt_end hctx s1 k1 = (ctx2, s2, k2)" "interrupt_end hctx2 s2 k2 = (ctx3, s3, k3)"
  shows "r = 0 \<and> ctx_gpr ctx2 0 = ucast (pi_interrupt (sp_interrupt sp)) \<and> ctx_pc ctx2 = pi_entry (sp_interrupt sp) \<and>
    irq \<in> irq_masked s2 \<and> irq \<in> irq_masked s3"
proof -
  let ?pi = "(sp_interrupt sp)\<lparr>pi_pending := True\<rparr>"
  have e: "r = 0" "s1 = irq_disable_arch irq s" "k1 = upd_intr i (\<lambda>pi. pi\<lparr>pi_pending := True\<rparr>) k"
    using send h sp(1,2) irq(1) by (simp_all add: interrupt_send_raw_def)
  have cur1: "get_current_proc k1 = Some i"
    unfolding e(3) by (rule trans [OF get_current_cong cur]) simp_all
  have h1: "handlers_at k1 (p_space (the_proc k1 i)) = Some (?pi, sp_signal sp, sp_ipc_server sp)"
    using handlers_upd_intr [OF space_of_handlers [OF sp(1)]] by (simp add: e(3))
  have i1: "p_type (the_proc k1 i) = TASK_TYPE_PROC" "p_core (the_proc k1 i) = core_id k1" "p_pid (the_proc k1 i) = int i"
    using i by (simp_all add: e(3))
  obtain pi' sg' sv' where d: "s2 = s1" "ctx_pc ctx2 = pi_entry ?pi" "ctx_gpr ctx2 0 = ucast (pi_interrupt ?pi)" "get_current_proc k2 = Some i"
    "handlers_at k2 (p_space (the_proc k2 i)) = Some (pi', sg', sv')" "pi_interrupt pi' = pi_interrupt ?pi"
    by (rule interrupt_end_restarts [OF cur1 h1 i1 _ _ _ sp(4) fin(1)]) (use sp(3) irq(2) in simp_all)
  from interrupt_end_mask [OF d(4,5) fin(2)] d irq(3) e show ?thesis
    by (auto simp: irq_disable_arch_def irq_enable_arch_def)
qed

definition ex_in_handler :: kernel where
  "ex_in_handler = ex_sched\<lparr>spaces := (\<lambda>s. if s = 0 then Some (zero_space\<lparr>sp_interrupt := zero_interrupt\<lparr>pi_state := INTR_STATE_WORKING,
     pi_interrupt := 33, pi_entry := 0x4000, pi_saved_state := zero_saved_state\<lparr>ss_state := RUNNING\<rparr>\<rparr>\<rparr>) else None)\<rparr>"

theorem interrupt_second_line_masked_witness:
  "\<exists>r ctx1 s1 k1 ctx2 s2 k2 ctx3 s3 k3.
     interrupt_send_raw ex_regs 34 ex_handler (interrupt_init {}) ex_in_handler = (r, ctx1, s1, k1) \<and>
     interrupt_end ctx1 s1 k1 = (ctx2, s2, k2) \<and> interrupt_end ctx2 s2 k2 = (ctx3, s3, k3) \<and> 34 \<in> irq_masked s3"
proof -
  obtain r ctx1 s1 k1 where s: "interrupt_send_raw ex_regs 34 ex_handler (interrupt_init {}) ex_in_handler = (r, ctx1, s1, k1)"
    by (metis prod_cases4)
  obtain ctx2 s2 k2 where e2: "interrupt_end ctx1 s1 k1 = (ctx2, s2, k2)" by (metis prod_cases3)
  obtain ctx3 s3 k3 where e3: "interrupt_end ctx2 s2 k2 = (ctx3, s3, k3)" by (metis prod_cases3)
  have t: "proc_get_by_uuid ex_in_handler 11 = Some 1" "get_current_proc ex_in_handler = Some 1"
    "p_type (the_proc ex_in_handler 1) = TASK_TYPE_PROC" "p_core (the_proc ex_in_handler 1) = core_id ex_in_handler"
    "p_pid (the_proc ex_in_handler 1) = 1" "\<exists>sp. proc_space_of ex_in_handler 1 = Some sp \<and> pi_state (sp_interrupt sp) = INTR_STATE_WORKING \<and>
       pi_interrupt (sp_interrupt sp) = 33 \<and> ss_state (pi_saved_state (sp_interrupt sp)) = RUNNING \<and> \<not> is_restore_pending (sp_ipc_server sp)"
    by (simp_all add: ex_in_handler_def proc_get_by_uuid_def get_current_proc_alt ex_intr_simps)
  from t(6) interrupt_second_line_masked [OF _ _ _ t(2) _ _ _ _ t(3,4) _ _ _ _ s e2 e3] s e2 e3
  show ?thesis using t by (auto simp: ex_handler_def IRQ_SOFT_def)
qed

end
