(* ===== verification/Ipc.thy ===== *)
theory Ipc
  imports Interrupt
begin

text \<open>
  Inter-process calls, \<^verbatim>\<open>kernel/kernel/src/ipc.c\<close> and the reply slots and the watchdog of
  \<^verbatim>\<open>kernel/kernel/src/proc.c\<close>: the task slots of a server, the queue of clients that wait for
  capacity, the reply slots of a client, and the system calls of both sides. The worker pool and the
  calls that use it are theory \<open>Ipc_Pool\<close>.

  A server is named by its process, a task slot by its index in the server's \<open>tasks\<close>. A \<open>proto_t\<close>
  inside the kernel is the list of its bytes (what \<open>proto_copy\<close> copied last); copies of up to 512
  bytes use the inline buffer and larger ones are taken to get their memory. A \<open>proto_t\<close> of the
  caller is an \<open>uproto\<close>: its address, its fields, and the bytes its \<open>data\<close> pointer leads to. The
  counter \<open>_ipc_uid\<close> is passed as a value.
\<close>

section \<open>Packages of the caller\<close>

record uproto =
  up_addr :: u64
  up_data :: u64
  up_size :: u32
  up_total_size :: u32
  up_bytes :: "u8 list"

definition SIZEOF_PROTO :: u64 where
  "SIZEOF_PROTO = 536"

definition user_proto_ok :: "'a kernel_scheme \<Rightarrow> nat option \<Rightarrow> uproto option \<Rightarrow> bool" where
  "user_proto_ok k p d = (case d of None \<Rightarrow> True
     | Some u \<Rightarrow>
       if \<not> user_ptr_ok k p (up_addr u) SIZEOF_PROTO then False
       else if up_data u = 0 then True
       else user_ptr_ok k p (up_data u) (ucast (if up_size u > up_total_size u then up_size u else up_total_size u)))"

section \<open>The task slots of a server\<close>

definition upd_server :: "nat \<Rightarrow> (ipc_server \<Rightarrow> ipc_server) \<Rightarrow> 'a kernel_scheme \<Rightarrow> 'a kernel_scheme" where
  "upd_server sv f k = upd_space (p_space (the_proc k sv)) (\<lambda>sp. sp\<lparr>sp_ipc_server := f (sp_ipc_server sp)\<rparr>) k"

definition server_of :: "'a kernel_scheme \<Rightarrow> nat \<Rightarrow> ipc_server option" where
  "server_of k sv = map_option sp_ipc_server (proc_space_of k sv)"

definition ipc_taskq_is_empty :: "ipc_server \<Rightarrow> bool" where
  "ipc_taskq_is_empty s \<longleftrightarrow> is_task_num s = 0"

definition ipc_taskq_is_full :: "ipc_server \<Rightarrow> bool" where
  "ipc_taskq_is_full s \<longleftrightarrow> is_task_num s \<ge> IPC_CTX_MAX"

definition ipc_taskq_tail_slot :: "ipc_server \<Rightarrow> nat option" where
  "ipc_taskq_tail_slot s = (if ipc_taskq_is_full s then None else Some (is_task_tail s))"

definition ipc_taskq_push_tail :: "ipc_server \<Rightarrow> ipc_server" where
  "ipc_taskq_push_tail s = (if ipc_taskq_is_full s then s
     else s\<lparr>is_task_tail := (is_task_tail s + 1) mod IPC_CTX_MAX, is_task_num := is_task_num s + 1\<rparr>)"

definition ipc_taskq_pop_head :: "ipc_server \<Rightarrow> ipc_server" where
  "ipc_taskq_pop_head s = (if ipc_taskq_is_empty s then s
     else let s = s\<lparr>is_task_head := (is_task_head s + 1) mod IPC_CTX_MAX, is_task_num := is_task_num s - 1\<rparr> in
       if is_task_num s = 0 then s\<lparr>is_task_head := 0, is_task_tail := 0\<rparr> else s)"

definition ipc_taskq_is_head_slot :: "ipc_server \<Rightarrow> nat \<Rightarrow> bool" where
  "ipc_taskq_is_head_slot s t = (if ipc_taskq_is_empty s then False else is_task_head s = t)"

definition ipc_task_reset :: "ipc_task \<Rightarrow> ipc_task" where
  "ipc_task_reset t = t\<lparr>it_arg_ret := [], it_uid := 0, it_counter := 0, it_state := IPC_IDLE, it_client_pid := 0,
     it_client_uuid := 0, it_client_intr := False, it_call_id := 0, it_handler_pid := 0, it_handler_uuid := 0\<rparr>"

definition upd_task :: "nat \<Rightarrow> (ipc_task \<Rightarrow> ipc_task) \<Rightarrow> ipc_server \<Rightarrow> ipc_server" where
  "upd_task t f s = s\<lparr>is_tasks := (is_tasks s)[t := f (is_tasks s ! t)]\<rparr>"

definition ipc_free :: "nat \<Rightarrow> ipc_server \<Rightarrow> ipc_server" where
  "ipc_free t s = upd_task t ipc_task_reset s"

definition IPC_NON_BLOCK :: u32 where "IPC_NON_BLOCK = 0x01"
definition IPC_MULTI_TASK :: u32 where "IPC_MULTI_TASK = 0x02"
definition IPC_MULTI_CORE :: u32 where "IPC_MULTI_CORE = 0x04"
definition IPC_CAP_CHECK :: u32 where "IPC_CAP_CHECK = 0x08"
definition IPC_NON_RETURN :: u32 where "IPC_NON_RETURN = 0x80000000"
definition IPC_LAZY :: u32 where "IPC_LAZY = 0x40000000"

definition call_has :: "int \<Rightarrow> u32 \<Rightarrow> bool" where
  "call_has call_id m \<longleftrightarrow> (word_of_int call_id :: u32) AND m \<noteq> 0"

definition serv_has :: "ipc_server \<Rightarrow> u32 \<Rightarrow> bool" where
  "serv_has s m \<longleftrightarrow> is_flags s AND m \<noteq> 0"

section \<open>Lookups\<close>

definition proc_ipc_task_count :: "'a kernel_scheme \<Rightarrow> nat \<Rightarrow> nat" where
  "proc_ipc_task_count k sv = (case server_of k sv of None \<Rightarrow> 0 | Some s \<Rightarrow> is_task_num s)"

definition proc_ipc_find_task :: "'a kernel_scheme \<Rightarrow> nat option \<Rightarrow> u32 \<Rightarrow> nat option" where
  "proc_ipc_find_task k sv uid = (case sv of None \<Rightarrow> None
     | Some v \<Rightarrow> (case server_of k v of None \<Rightarrow> None
       | Some s \<Rightarrow> if uid = 0 then None
           else find_index (\<lambda>t. it_uid t = uid \<and> it_state t \<noteq> IPC_IDLE) (is_tasks s)))"

text \<open>The task a context serves: the server and the slot.\<close>

definition proc_ipc_current_task :: "'a kernel_scheme \<Rightarrow> nat \<Rightarrow> (nat \<times> nat) option" where
  "proc_ipc_current_task k i =
     (if proc_space_of k i = None then None
      else case proc_get_proc k (Some i) of None \<Rightarrow> None
      | Some w \<Rightarrow> (case server_of k w of None \<Rightarrow> None
        | Some s \<Rightarrow> map_option (Pair w) (if is_multi_task s then p_ipc_task (the_proc k i) else proc_ipc_get_task k w)))"

definition task_at :: "'a kernel_scheme \<Rightarrow> nat \<Rightarrow> nat \<Rightarrow> ipc_task" where
  "task_at k sv t = is_tasks (the (server_of k sv)) ! t"

definition proc_ipc_serving_task :: "'a kernel_scheme \<Rightarrow> nat \<Rightarrow> u32 \<Rightarrow> (nat \<times> nat) option" where
  "proc_ipc_serving_task k i uid =
     (if uid = 0 then None
      else case proc_ipc_current_task k i of None \<Rightarrow> None
      | Some (w, t) \<Rightarrow> if it_uid (task_at k w t) \<noteq> uid \<or> it_state (task_at k w t) \<noteq> IPC_BUSY then None else Some (w, t))"

definition proc_ipc_fetch :: "'a kernel_scheme \<Rightarrow> nat \<Rightarrow> u32" where
  "proc_ipc_fetch k sv = (case proc_ipc_get_task k sv of None \<Rightarrow> 0 | Some t \<Rightarrow> it_uid (task_at k sv t))"

definition proc_ipc_get_client :: "'a kernel_scheme \<Rightarrow> ipc_task \<Rightarrow> nat option" where
  "proc_ipc_get_client k t =
     (if it_client_pid t < 0 then None
      else case proc_get k (it_client_pid t) of None \<Rightarrow> None
      | Some c \<Rightarrow> if it_client_uuid t \<noteq> 0 \<and> p_uuid (the_proc k c) \<noteq> it_client_uuid t then None else Some c)"

section \<open>Reply slots\<close>

text \<open>Where a reply goes: the task's own slot, or the slot of its process for calls out of an
  interrupt handler.\<close>

datatype res_loc = ResTask nat | ResIntr nat

definition in_intr :: "'a kernel_scheme \<Rightarrow> nat \<Rightarrow> bool" where
  "in_intr k i \<longleftrightarrow> p_type (the_proc k i) = TASK_TYPE_PROC \<and>
     (case proc_space_of k i of None \<Rightarrow> False | Some sp \<Rightarrow> pi_state (sp_interrupt sp) = INTR_STATE_WORKING)"

definition proc_cur_ipc_res :: "'a kernel_scheme \<Rightarrow> nat \<Rightarrow> res_loc" where
  "proc_cur_ipc_res k i = (if in_intr k i then ResIntr i else ResTask i)"

definition proc_ipc_client_res :: "'a kernel_scheme \<Rightarrow> nat \<Rightarrow> ipc_task \<Rightarrow> res_loc" where
  "proc_ipc_client_res k c t = (if it_client_intr t \<and> proc_space_of k c \<noteq> None then ResIntr c else ResTask c)"

fun res_get :: "'a kernel_scheme \<Rightarrow> res_loc \<Rightarrow> ipc_res" where
  "res_get k (ResTask i) = p_ipc_res (the_proc k i)"
| "res_get k (ResIntr i) = pi_ipc_res (sp_interrupt (the (proc_space_of k i)))"

fun res_upd :: "res_loc \<Rightarrow> (ipc_res \<Rightarrow> ipc_res) \<Rightarrow> 'a kernel_scheme \<Rightarrow> 'a kernel_scheme" where
  "res_upd (ResTask i) f k = upd_proc i (\<lambda>p. p\<lparr>p_ipc_res := f (p_ipc_res p)\<rparr>) k"
| "res_upd (ResIntr i) f k = upd_intr i (\<lambda>pi. pi\<lparr>pi_ipc_res := f (pi_ipc_res pi)\<rparr>) k"

definition res_clear :: "ipc_res \<Rightarrow> ipc_res" where
  "res_clear r = r\<lparr>ir_uid := 0, ir_state := IPC_IDLE, ir_data := []\<rparr>"

section \<open>Requests\<close>

definition proc_track_ipc_timeout :: "nat \<Rightarrow> 'a kernel_scheme \<Rightarrow> 'a kernel_scheme" where
  "proc_track_ipc_timeout sv k =
     (if proc_space_of k sv = None \<or> proc_ipc_task_count k sv = 0 then k
      else k\<lparr>ipc_timeout_queue := proc_track_timeout_queue (ipc_timeout_queue k) sv\<rparr>)"

definition proc_untrack_ipc_timeout :: "nat \<Rightarrow> 'a kernel_scheme \<Rightarrow> 'a kernel_scheme" where
  "proc_untrack_ipc_timeout sv k = k\<lparr>ipc_timeout_queue := proc_untrack_timeout_queue (ipc_timeout_queue k) sv\<rparr>"

text \<open>The slot a request takes: any free one in a pool server, the tail of the ring otherwise.\<close>

definition req_slot :: "ipc_server \<Rightarrow> nat option" where
  "req_slot s = (if ipc_taskq_is_full s then None
     else if is_multi_task s then find_index (\<lambda>t. it_uid t = 0) (is_tasks s)
     else ipc_taskq_tail_slot s)"

definition req_task :: "'a kernel_scheme \<Rightarrow> u32 \<Rightarrow> nat \<Rightarrow> int \<Rightarrow> uproto option \<Rightarrow> ipc_task \<Rightarrow> ipc_task" where
  "req_task k uid client call_id arg t =
     (ipc_task_reset t)\<lparr>it_uid := uid, it_state := IPC_BUSY, it_client_pid := p_pid (the_proc k client),
       it_client_uuid := p_uuid (the_proc k client), it_client_intr := in_intr k client, it_call_id := call_id, it_counter := 0,
       it_arg_ret := (case arg of None \<Rightarrow> [] | Some u \<Rightarrow> if up_data u = 0 then [] else up_bytes u)\<rparr>"

definition proc_ipc_req ::
  "u32 \<Rightarrow> nat \<Rightarrow> nat \<Rightarrow> int \<Rightarrow> uproto option \<Rightarrow> 'a kernel_scheme \<Rightarrow> nat option \<times> u32 \<times> 'a kernel_scheme" where
  "proc_ipc_req uid sv client call_id arg k =
     (case server_of k sv of None \<Rightarrow> (None, uid, k)
      | Some s \<Rightarrow>
        (case req_slot s of None \<Rightarrow> (None, uid, k)
         | Some t \<Rightarrow>
           let uid = uid + 1;
               k = upd_server sv (\<lambda>s. let s = upd_task t (req_task k uid client call_id arg) s in
                     if is_multi_task s then s\<lparr>is_task_num := is_task_num s + 1\<rparr> else ipc_taskq_push_tail s) k
           in (Some t, uid, proc_track_ipc_timeout sv k)))"

definition retrack :: "nat \<Rightarrow> 'a kernel_scheme \<Rightarrow> 'a kernel_scheme" where
  "retrack sv k = (if proc_ipc_task_count k sv > 0 then proc_track_ipc_timeout sv k else k)"

definition close_slot :: "nat \<Rightarrow> ipc_server \<Rightarrow> ipc_server" where
  "close_slot t s =
     (if is_multi_task s then
        if it_uid (is_tasks s ! t) \<noteq> 0 then (ipc_free t s)\<lparr>is_task_num := is_task_num s - 1\<rparr> else s
      else if ipc_taskq_is_head_slot s t then ipc_taskq_pop_head (ipc_free t s) else s)"

definition proc_ipc_close :: "nat \<Rightarrow> nat \<Rightarrow> 'a kernel_scheme \<Rightarrow> 'a kernel_scheme" where
  "proc_ipc_close sv t k =
     (if proc_space_of k sv = None then k
      else retrack sv (upd_server sv (close_slot t) (proc_untrack_ipc_timeout sv k)))"

definition proc_ipc_finish_task :: "nat \<Rightarrow> nat \<Rightarrow> nat \<Rightarrow> 'a kernel_scheme \<Rightarrow> nat option \<times> bool \<times> 'a kernel_scheme" where
  "proc_ipc_finish_task sv worker t k =
     (case server_of k sv of None \<Rightarrow> (None, False, k)
      | Some s \<Rightarrow>
        if \<not> is_multi_task s then (None, False, k)
        else
          let k = proc_untrack_ipc_timeout sv k; x = is_tasks s ! t; w = the_proc k worker in
          if it_uid x \<noteq> 0 \<and> it_state x \<noteq> IPC_IDLE \<and> it_handler_pid x = p_pid w \<and> it_handler_uuid x = p_uuid w
          then (proc_ipc_get_client k x, \<not> call_has (it_call_id x) IPC_NON_RETURN,
                retrack sv (upd_server sv (\<lambda>s. (ipc_free t s)\<lparr>is_task_num := is_task_num s - 1\<rparr>) k))
          else (None, False, retrack sv k))"

text \<open>The worker that serves a task forgets it.\<close>

definition detach_handler :: "nat \<Rightarrow> nat \<Rightarrow> ipc_task \<Rightarrow> 'a kernel_scheme \<Rightarrow> 'a kernel_scheme" where
  "detach_handler sv t x k =
     (case proc_get k (it_handler_pid x) of None \<Rightarrow> k
      | Some h \<Rightarrow> if p_uuid (the_proc k h) = it_handler_uuid x \<and> p_ipc_task (the_proc k h) = Some t \<and>
            p_space (the_proc k h) = p_space (the_proc k sv)
          then upd_proc h (\<lambda>p. p\<lparr>p_ipc_task := None\<rparr>) k else k)"

definition wake_live :: "nat option \<Rightarrow> 'a kernel_scheme \<Rightarrow> 'a kernel_scheme" where
  "wake_live c k = (case c of None \<Rightarrow> k
     | Some i \<Rightarrow> if p_state (the_proc k i) \<noteq> UNUSED \<and> p_state (the_proc k i) \<noteq> ZOMBIE then proc_wakeup i k else k)"

definition proc_ipc_task_abort :: "nat \<Rightarrow> nat \<Rightarrow> 'a kernel_scheme \<Rightarrow> 'a kernel_scheme" where
  "proc_ipc_task_abort sv t k =
     (case server_of k sv of None \<Rightarrow> k
      | Some s \<Rightarrow>
        if \<not> is_multi_task s then k
        else let x = is_tasks s ! t in
          if it_uid x = 0 \<or> it_state x = IPC_IDLE then k
          else
            let k = detach_handler sv t x k;
                c = proc_ipc_get_client k x;
                k = (case c of None \<Rightarrow> k | Some i \<Rightarrow>
                       if ir_uid (res_get k (proc_ipc_client_res k i x)) = it_uid x
                       then res_upd (proc_ipc_client_res k i x) res_clear k else k);
                k = upd_server sv (\<lambda>s. (ipc_free t s)\<lparr>is_task_num := is_task_num s - 1\<rparr>) k
            in wake_live c k)"

text \<open>Server exit: every accepted request is dropped; its client's reply slot is cleared unless the
  reply is already there, and the clients are woken.\<close>

definition clear_at :: "nat \<Rightarrow> nat \<Rightarrow> nat list \<times> 'a kernel_scheme \<Rightarrow> nat list \<times> 'a kernel_scheme" where
  "clear_at sv t ck = (case ck of (cs, k) \<Rightarrow>
     let x = task_at k sv t in
     if it_uid x = 0 \<or> it_state x = IPC_IDLE then (cs, k)
     else
       let k = detach_handler sv t x k;
           (cs, k) = (if call_has (it_call_id x) IPC_NON_RETURN then (cs, k)
             else case proc_ipc_get_client k x of None \<Rightarrow> (cs, k)
             | Some c \<Rightarrow>
               let loc = proc_ipc_client_res k c x; r = res_get k loc in
               (cs @ [c], if ir_uid r = it_uid x \<and> ir_state r \<noteq> IPC_RETURN then res_upd loc res_clear k else k))
       in (cs, upd_server sv (ipc_free t) k))"

definition proc_ipc_clear :: "nat \<Rightarrow> 'a kernel_scheme \<Rightarrow> 'a kernel_scheme" where
  "proc_ipc_clear sv k =
     (if proc_space_of k sv = None then k
      else
        let (cs, k) = fold (clear_at sv) [0..<IPC_CTX_MAX] ([], proc_untrack_ipc_timeout sv k);
            k = upd_server sv (\<lambda>s. s\<lparr>is_task_head := 0, is_task_tail := 0, is_task_num := 0, is_do_switch := False,
                  is_restore_pending := False\<rparr>) k
        in fold proc_wakeup cs k)"

section \<open>Waiting for capacity\<close>

definition ipc_waitq_link_tail :: "nat \<Rightarrow> ipc_queue_item \<Rightarrow> 'a kernel_scheme \<Rightarrow> 'a kernel_scheme" where
  "ipc_waitq_link_tail sv it k =
     upd_proc (iq_owner it) (\<lambda>p. p\<lparr>p_wait_item_queued := True\<rparr>)
       (upd_server sv (\<lambda>s. s\<lparr>is_wait_queue := is_wait_queue s @ [it]\<rparr>) k)"

definition ipc_waitq_pop :: "nat \<Rightarrow> 'a kernel_scheme \<Rightarrow> ipc_queue_item option \<times> 'a kernel_scheme" where
  "ipc_waitq_pop sv k =
     (case server_of k sv of None \<Rightarrow> (None, k)
      | Some s \<Rightarrow> (case is_wait_queue s of [] \<Rightarrow> (None, k)
        | it # q \<Rightarrow> (Some it, upd_proc (iq_owner it) (\<lambda>p. p\<lparr>p_wait_item_queued := False\<rparr>)
            (upd_server sv (\<lambda>s. s\<lparr>is_wait_queue := q\<rparr>) k))))"

definition ipc_wait_item_clear_server :: "ipc_queue_item option \<Rightarrow> nat \<Rightarrow> 'a kernel_scheme \<Rightarrow> 'a kernel_scheme" where
  "ipc_wait_item_clear_server it sv k = (case it of None \<Rightarrow> k
     | Some x \<Rightarrow> upd_proc (iq_owner x) (\<lambda>p. if p_ipc_waiting_on p = Some sv then p\<lparr>p_ipc_waiting_on := None\<rparr> else p) k)"

text \<open>The common shape of the three waits: leave another server's queue, fill in the wait item (also
  where it is still linked), re-check under the server lock, and link and block. \<open>avail\<close> is the
  re-check.\<close>

definition ipc_park_on ::
  "('a kernel_scheme \<Rightarrow> bool \<times> 'a kernel_scheme) \<Rightarrow> context_t \<Rightarrow> nat \<Rightarrow> nat \<Rightarrow> 'a kernel_scheme \<Rightarrow> int \<times> context_t \<times> 'a kernel_scheme" where
  "ipc_park_on avail ctx sv i k =
     (let k = (case p_ipc_waiting_on (the_proc k i) of None \<Rightarrow> k
               | Some w \<Rightarrow> if w \<noteq> sv then proc_ipc_cancel_wait i k else k);
          it = \<lparr>iq_owner = i, iq_pid = p_pid (the_proc k i), iq_uuid = p_uuid (the_proc k i)\<rparr>;
          k = upd_server sv (\<lambda>s. s\<lparr>is_wait_queue := map (\<lambda>x. if iq_owner x = i then it else x) (is_wait_queue s)\<rparr>) k;
          (ok, k) = avail k in
      if ok then (1, ctx, k)
      else
        let k = (if p_wait_item_queued (the_proc k i) then k
                 else upd_proc i (\<lambda>p. p\<lparr>p_ipc_waiting_on := Some sv\<rparr>) (ipc_waitq_link_tail sv it k));
            (ctx, k) = proc_block ctx i k
        in (0, ctx, k))"

definition proc_ipc_wait :: "context_t \<Rightarrow> nat \<Rightarrow> nat \<Rightarrow> 'a kernel_scheme \<Rightarrow> int \<times> context_t \<times> 'a kernel_scheme" where
  "proc_ipc_wait ctx sv i k = ipc_park_on (\<lambda>k. (case server_of k sv of None \<Rightarrow> False
      | Some s \<Rightarrow> \<not> is_disabled s \<and> \<not> ipc_taskq_is_full s, k)) ctx sv i k"

definition IPC_WAKE_BATCH_LIMIT :: nat where
  "IPC_WAKE_BATCH_LIMIT = 2"

text \<open>A pass of the wake loop pops one waiter; the queue only shrinks, so its length bounds the number
  of passes.\<close>

fun ipc_wake_loop :: "nat \<Rightarrow> nat \<Rightarrow> nat \<Rightarrow> nat option \<Rightarrow> 'a kernel_scheme \<Rightarrow> nat option \<times> 'a kernel_scheme" where
  "ipc_wake_loop 0 budget sv first k = (first, k)"
| "ipc_wake_loop (Suc n) budget sv first k =
     (if budget = 0 then (first, k)
      else
        let (it, k) = ipc_waitq_pop sv k;
            k = ipc_wait_item_clear_server it sv k in
        case it of None \<Rightarrow> (first, k)
        | Some x \<Rightarrow>
          (case proc_get k (iq_pid x) of None \<Rightarrow> ipc_wake_loop n budget sv first k
           | Some i \<Rightarrow>
             if p_uuid (the_proc k i) \<noteq> iq_uuid x then ipc_wake_loop n budget sv first k
             else if p_state (the_proc k i) \<noteq> BLOCK \<and> p_state (the_proc k i) \<noteq> WAIT \<and> p_state (the_proc k i) \<noteq> SLEEPING
             then ipc_wake_loop n budget sv first k
             else ipc_wake_loop n (budget - 1) sv (if first = None then Some i else first) (proc_wakeup i k)))"

definition proc_ipc_wakeup :: "nat \<Rightarrow> 'a kernel_scheme \<Rightarrow> nat option \<times> 'a kernel_scheme" where
  "proc_ipc_wakeup sv k = (case server_of k sv of None \<Rightarrow> (None, k)
     | Some s \<Rightarrow> ipc_wake_loop (Suc (length (is_wait_queue s)))
         (min (IPC_CTX_MAX - is_task_num s) IPC_WAKE_BATCH_LIMIT) sv None k)"

fun ipc_wake_all_loop :: "nat \<Rightarrow> nat \<Rightarrow> 'a kernel_scheme \<Rightarrow> 'a kernel_scheme" where
  "ipc_wake_all_loop 0 sv k = k"
| "ipc_wake_all_loop (Suc n) sv k =
     (let (it, k) = ipc_waitq_pop sv k;
          k = ipc_wait_item_clear_server it sv k in
      case it of None \<Rightarrow> k
      | Some x \<Rightarrow>
        (case proc_get k (iq_pid x) of None \<Rightarrow> ipc_wake_all_loop n sv k
         | Some i \<Rightarrow> ipc_wake_all_loop n sv (if p_uuid (the_proc k i) \<noteq> iq_uuid x then k else proc_wakeup i k)))"

definition proc_ipc_wakeup_all :: "nat \<Rightarrow> 'a kernel_scheme \<Rightarrow> 'a kernel_scheme" where
  "proc_ipc_wakeup_all sv k = (case server_of k sv of None \<Rightarrow> k
     | Some s \<Rightarrow> ipc_wake_all_loop (Suc (length (is_wait_queue s))) sv k)"

section \<open>Serving in the server's own context\<close>

definition ipc_arm :: "nat \<Rightarrow> 'a kernel_scheme \<Rightarrow> 'a kernel_scheme" where
  "ipc_arm sv k = upd_server sv (\<lambda>s.
     let v = proc_save_state (the_proc k sv) (is_saved_state s, is_saved_ipc_res s) in
     s\<lparr>is_saved_state := fst v, is_saved_ipc_res := snd v, is_do_switch := True\<rparr>) k"

definition proc_ipc_do_task :: "context_t \<Rightarrow> nat \<Rightarrow> nat \<Rightarrow> 'a kernel_scheme \<Rightarrow> int \<times> context_t \<times> 'a kernel_scheme" where
  "proc_ipc_do_task ctx sv core k =
     (case proc_ipc_get_task k sv of None \<Rightarrow> (-1, ctx, k)
      | Some t \<Rightarrow>
        let x = task_at k sv t in
        if it_state x = IPC_IDLE \<or> it_uid x = 0 then (-1, ctx, k)
        else
          let k = upd_server sv (\<lambda>s. s\<lparr>is_restore_pending := False\<rparr>) (ipc_arm sv k);
              (ctx, k) = (if call_has (it_call_id x) IPC_LAZY then (ctx, k) else proc_switch_multi_core ctx sv core k)
          in (0, ctx, k))"

definition ipc_restore :: "nat \<Rightarrow> 'a kernel_scheme \<Rightarrow> context_t \<times> 'a kernel_scheme" where
  "ipc_restore sv k =
     (let s = the (server_of k sv);
          (ctx, p, ss, res) = proc_restore_state (the_proc k sv) (is_saved_state s, is_saved_ipc_res s);
          k = upd_proc sv (\<lambda>_. p) k in
      (ctx, upd_server sv (\<lambda>s. s\<lparr>is_saved_state := ss, is_saved_ipc_res := res\<rparr>) k))"

section \<open>The system calls on requests and replies\<close>

definition ret :: "int \<Rightarrow> context_t \<Rightarrow> context_t" where
  "ret v ctx = set_gpr 0 (word_of_int v) ctx"

text \<open>\<open>proto_copy\<close> into a package of the caller that is large enough. A package without a buffer gets
  its inline one when its total size is 0, and only the size otherwise.\<close>

definition up_fill :: "u8 list \<Rightarrow> uproto \<Rightarrow> uproto" where
  "up_fill bs u =
     (let u = (if up_total_size u = 0 \<and> up_data u = 0 then u\<lparr>up_data := up_addr u, up_total_size := 512\<rparr> else u);
          u = (if up_data u = 0 then u else u\<lparr>up_bytes := bs\<rparr>)
      in u\<lparr>up_size := of_nat (length bs)\<rparr>)"

definition proc_ipc_get_return ::
  "context_t \<Rightarrow> int \<Rightarrow> u32 \<Rightarrow> uproto option \<Rightarrow> 'a kernel_scheme \<Rightarrow> context_t \<times> uproto option \<times> 'a kernel_scheme" where
  "proc_ipc_get_return ctx serv_pid uid data k =
     (let ctx = ret 0 ctx in
      case get_current_proc k of None \<Rightarrow> (ret (-2) ctx, data, k)
      | Some c \<Rightarrow>
        if uid = 0 then (ret (-2) ctx, data, k)
        else if \<not> user_proto_ok k (Some c) data then (ret (-2) ctx, data, k)
        else
          let serv_pid = get_proc_pid k serv_pid; loc = proc_cur_ipc_res k c; res = res_get k loc in
          if ir_state res \<noteq> IPC_RETURN then
            (let sv = proc_get k serv_pid in
             case proc_ipc_find_task k sv uid of None \<Rightarrow> (ret (-2) ctx, data, k)
             | Some t \<Rightarrow>
               let x = task_at k (the sv) t in
               if proc_ipc_get_client k x \<noteq> Some c then (ret (-2) ctx, data, k)
               else if \<not> call_has (it_call_id x) IPC_NON_RETURN
               then (let (ctx, k) = proc_block (ret (-1) ctx) c k in (ctx, data, k))
               else (ctx, data, k))
          else if ir_uid res \<noteq> uid then (ret (-2) ctx, data, k)
          else
            (case data of
               Some u \<Rightarrow>
                 if up_data u \<noteq> 0 then
                   if unat (up_total_size u) \<ge> length (ir_data res)
                   then (ctx, Some (up_fill (ir_data res) u), res_upd loc res_clear k)
                   else (ret (int (length (ir_data res))) ctx, data, k)
                 else (ctx, data, res_upd loc res_clear k)
             | None \<Rightarrow> (ctx, data, res_upd loc res_clear k)))"

definition proc_ipc_get_arg ::
  "u32 \<Rightarrow> u64 \<Rightarrow> uproto option \<Rightarrow> 'a kernel_scheme \<Rightarrow> int \<times> (int \<times> int) option \<times> uproto option" where
  "proc_ipc_get_arg uid ipc_info arg k =
     (case get_current_proc k of None \<Rightarrow> (-1, None, arg)
      | Some c \<Rightarrow>
        (case server_of k c of None \<Rightarrow> (-1, None, arg)
         | Some s \<Rightarrow>
           if is_entry s = 0 \<or> \<not> user_ptr_ok k (Some c) ipc_info 8 \<or> \<not> user_proto_ok k (Some c) arg then (-1, None, arg)
           else case proc_ipc_serving_task k c uid of None \<Rightarrow> (-1, None, arg)
           | Some (w, t) \<Rightarrow>
             let x = task_at k w t; info = Some (it_client_pid x, it_call_id x) in
             (case arg of None \<Rightarrow> (0, info, arg)
              | Some u \<Rightarrow> if unat (up_total_size u) \<ge> length (it_arg_ret x) then (0, info, Some (up_fill (it_arg_ret x) u))
                  else (int (length (it_arg_ret x)), info, arg))))"

text \<open>\<open>proto_copy(&res->data, data->data, data->size)\<close> copies nothing when \<open>data->data\<close> is NULL but
  still records the size; \<open>stale\<close> stands for what the reply buffer holds then.\<close>

definition reply_bytes :: "(nat \<Rightarrow> u8 list) \<Rightarrow> uproto \<Rightarrow> u8 list" where
  "reply_bytes stale u = (if up_data u = 0 then stale (unat (up_size u)) else up_bytes u)"

definition proc_ipc_set_return :: "(nat \<Rightarrow> u8 list) \<Rightarrow> u32 \<Rightarrow> uproto option \<Rightarrow> 'a kernel_scheme \<Rightarrow> 'a kernel_scheme" where
  "proc_ipc_set_return stale uid data k =
     (case get_current_proc k of None \<Rightarrow> k
      | Some c \<Rightarrow>
        (case server_of k c of None \<Rightarrow> k
         | Some s \<Rightarrow>
           if is_entry s = 0 \<or> \<not> user_proto_ok k (Some c) data then k
           else case proc_ipc_serving_task k c uid of None \<Rightarrow> k
           | Some (w, t) \<Rightarrow>
             let x = task_at k w t in
             if call_has (it_call_id x) IPC_NON_RETURN then k
             else case proc_ipc_get_client k x of None \<Rightarrow> k
             | Some cl \<Rightarrow> res_upd (proc_ipc_client_res k cl x) (\<lambda>r.
                 let r = r\<lparr>ir_state := IPC_RETURN, ir_uid := uid\<rparr> in
                 case data of None \<Rightarrow> r | Some u \<Rightarrow> r\<lparr>ir_data := reply_bytes stale u\<rparr>) k))"

definition proc_ipc_disable :: "'a kernel_scheme \<Rightarrow> int \<times> 'a kernel_scheme" where
  "proc_ipc_disable k =
     (case proc_get_proc k (get_current_proc k) of None \<Rightarrow> (0, k\<lparr>halted := True\<rparr>)
      | Some c \<Rightarrow> if proc_ipc_task_count k c > 0 then (-1, k) else (0, upd_server c (\<lambda>s. s\<lparr>is_disabled := True\<rparr>) k))"

definition proc_ipc_enable :: "'a kernel_scheme \<Rightarrow> 'a kernel_scheme" where
  "proc_ipc_enable k =
     (case proc_get_proc k (get_current_proc k) of None \<Rightarrow> k\<lparr>halted := True\<rparr>
      | Some c \<Rightarrow>
        (case server_of k c of None \<Rightarrow> k\<lparr>halted := True\<rparr>
         | Some s \<Rightarrow> if \<not> is_disabled s then k
             else snd (proc_ipc_wakeup c (upd_server c (\<lambda>s. s\<lparr>is_disabled := False\<rparr>) k))))"

section \<open>The watchdog\<close>

definition IPC_TIMEOUT_USEC :: u32 where
  "IPC_TIMEOUT_USEC = 10000000"

definition proc_ipc_timeout :: "nat \<Rightarrow> 'a kernel_scheme \<Rightarrow> 'a kernel_scheme" where
  "proc_ipc_timeout sv k =
     (case server_of k sv of None \<Rightarrow> k
      | Some s \<Rightarrow>
        (case proc_ipc_get_task k sv of
           None \<Rightarrow> upd_server sv (\<lambda>s. s\<lparr>is_do_switch := False, is_restore_pending := False\<rparr>) k
         | Some t \<Rightarrow>
           let x = task_at k sv t in
           if it_state x = IPC_IDLE then upd_server sv (\<lambda>s. s\<lparr>is_do_switch := False, is_restore_pending := False\<rparr>) k
           else
             let client = (if it_client_pid x > 0 then proc_ipc_get_client k x else None);
                 client_uid = (if it_client_pid x > 0 then it_uid x else 0);
                 k = upd_server sv (\<lambda>s. s\<lparr>is_do_switch := False\<rparr>) k;
                 (ctx, k) = ipc_restore sv k;
                 k = upd_proc sv (\<lambda>p. p\<lparr>p_ctx := ctx\<rparr>) k;
                 k = upd_server sv (\<lambda>s. s\<lparr>is_restore_pending := True\<rparr>) k;
                 k = proc_resume_after_timeout sv k;
                 live = (\<lambda>k c. p_state (the_proc k c) \<noteq> UNUSED \<and> p_state (the_proc k c) \<noteq> ZOMBIE);
                 k = (case client of None \<Rightarrow> k
                      | Some c \<Rightarrow> if live k c \<and> ir_uid (res_get k (proc_ipc_client_res k c x)) = client_uid
                          then res_upd (proc_ipc_client_res k c x) res_clear k else k);
                 k = proc_ipc_close sv t k;
                 k = wake_live client k;
                 k = snd (proc_ipc_wakeup sv k);
                 k = (if proc_ipc_get_task k sv \<noteq> None then proc_resume_after_timeout sv (ipc_arm sv k) else k)
             in if is_restore_pending (the (server_of k sv)) then kick_remote sv k else k))"

definition renew_ipc_multi_at ::
  "nat \<Rightarrow> u32 \<Rightarrow> nat \<Rightarrow> int \<times> 'a kernel_scheme \<Rightarrow> int \<times> 'a kernel_scheme" where
  "renew_ipc_multi_at sv usec t rk = (case rk of (res, k) \<Rightarrow>
     let x = task_at k sv t in
     if it_uid x = 0 \<or> it_state x = IPC_IDLE then (res, k)
     else case proc_get k (it_handler_pid x) of
       None \<Rightarrow> (0, proc_ipc_task_abort sv t k)
     | Some w \<Rightarrow>
       if p_uuid (the_proc k w) \<noteq> it_handler_uuid x then (0, proc_ipc_task_abort sv t k)
       else if pi_state (sp_interrupt (the (proc_space_of k sv))) = INTR_STATE_WORKING \<or>
           p_state (the_proc k w) = BLOCK \<or> p_state (the_proc k w) = SLEEPING \<or> p_state (the_proc k w) = WAIT
       then (res, upd_server sv (upd_task t (\<lambda>x. x\<lparr>it_counter := 0\<rparr>)) k)
       else
         let k = upd_server sv (upd_task t (\<lambda>x. x\<lparr>it_counter := it_counter x + usec\<rparr>)) k in
         if it_counter x + usec \<ge> IPC_TIMEOUT_USEC then (0, proc_ipc_task_abort sv t k) else (res, k))"

definition renew_ipc_multi_counter :: "nat \<Rightarrow> u32 \<Rightarrow> 'a kernel_scheme \<Rightarrow> int \<times> 'a kernel_scheme" where
  "renew_ipc_multi_counter sv usec k =
     (let (res, k) = fold (renew_ipc_multi_at sv usec) [0..<IPC_CTX_MAX] (-1, k) in
      (res, if proc_ipc_task_count k sv = 0 then proc_untrack_ipc_timeout sv k else k))"

definition renew_ipc_at :: "u32 \<Rightarrow> nat \<Rightarrow> int \<times> 'a kernel_scheme \<Rightarrow> int \<times> 'a kernel_scheme" where
  "renew_ipc_at usec sv rk = (case rk of (res, k) \<Rightarrow>
     (case proc_space_of k sv of None \<Rightarrow> (res, proc_untrack_ipc_timeout sv k)
      | Some sp \<Rightarrow>
        let st = p_state (the_proc k sv) in
        if st = UNUSED \<or> st = ZOMBIE then (res, proc_untrack_ipc_timeout sv k)
        else if is_multi_task (sp_ipc_server sp)
        then (let (r, k) = renew_ipc_multi_counter sv usec k in (if r = 0 then 0 else res, k))
        else case proc_ipc_get_task k sv of None \<Rightarrow> (res, proc_untrack_ipc_timeout sv k)
        | Some t \<Rightarrow>
          let x = task_at k sv t in
          if it_state x = IPC_IDLE then (res, proc_untrack_ipc_timeout sv k)
          else if pi_state (sp_interrupt sp) = INTR_STATE_WORKING \<or> st = BLOCK \<or> st = SLEEPING \<or> st = WAIT
          then (res, upd_server sv (upd_task t (\<lambda>x. x\<lparr>it_counter := 0\<rparr>)) k)
          else
            let k = upd_server sv (upd_task t (\<lambda>x. x\<lparr>it_counter := it_counter x + usec\<rparr>)) k in
            if it_counter x + usec \<ge> IPC_TIMEOUT_USEC then (0, proc_ipc_timeout sv k) else (res, k)))"

definition renew_ipc_counter :: "u32 \<Rightarrow> 'a kernel_scheme \<Rightarrow> int \<times> 'a kernel_scheme" where
  "renew_ipc_counter usec k = fold (renew_ipc_at usec) (ipc_timeout_queue k) (-1, k)"

end
