(* ===== verification/Ipc_Ring.thy ===== *)
theory Ipc_Ring
  imports Ipc
begin

text \<open>
  The task slots of a server that handles its requests one at a time, as a bounded first-in first-out
  queue: the ring of \<open>task_head\<close>, \<open>task_tail\<close> and \<open>task_num\<close> refines the list of its pending requests.
\<close>

section \<open>Bounded queues\<close>

text \<open>A run of an arbitrary queue: \<open>Some r\<close> offers an item, \<open>None\<close> removes the oldest. The run yields
  the accepted items, the removed items and the final state.\<close>

fun fifo_run :: "('s \<Rightarrow> 'x list) \<Rightarrow> nat \<Rightarrow> ('r \<Rightarrow> 's \<Rightarrow> 'x) \<Rightarrow> ('r \<Rightarrow> 's \<Rightarrow> 's) \<Rightarrow> ('s \<Rightarrow> 's) \<Rightarrow>
    'r option list \<Rightarrow> 's \<Rightarrow> 'x list \<times> 'x list \<times> 's" where
  "fifo_run items cap item put pop [] s = ([], [], s)"
| "fifo_run items cap item put pop (Some r # ops) s =
     (case fifo_run items cap item put pop ops (put r s) of (a, d, s') \<Rightarrow>
       (if length (items s) < cap then item r s # a else a, d, s'))"
| "fifo_run items cap item put pop (None # ops) s =
     (case fifo_run items cap item put pop ops (pop s) of (a, d, s') \<Rightarrow> (a, take 1 (items s) @ d, s'))"

locale bounded_fifo =
  fixes ok :: "'s \<Rightarrow> bool" and items :: "'s \<Rightarrow> 'x list" and cap :: nat
    and item :: "'r \<Rightarrow> 's \<Rightarrow> 'x" and put :: "'r \<Rightarrow> 's \<Rightarrow> 's" and pop :: "'s \<Rightarrow> 's"
  assumes bound: "ok s \<Longrightarrow> length (items s) \<le> cap"
    and put_ok: "ok s \<Longrightarrow> ok (put r s)"
    and put_items: "ok s \<Longrightarrow> items (put r s) = (if length (items s) < cap then items s @ [item r s] else items s)"
    and pop_ok: "ok s \<Longrightarrow> ok (pop s)"
    and pop_items: "ok s \<Longrightarrow> items (pop s) = tl (items s)"
begin

lemma run_ok: "ok s \<Longrightarrow> fifo_run items cap item put pop ops s = (a, d, s') \<Longrightarrow> ok s'"
proof (induction ops arbitrary: s a d)
  case (Cons op ops)
  then show ?case by (cases op) (auto dest: put_ok pop_ok split: prod.splits)
qed simp

lemma run_order:
  assumes "ok s" "fifo_run items cap item put pop ops s = (a, d, s')"
  shows "items s @ a = d @ items s'"
  using assms
proof (induction ops arbitrary: s a d)
  case (Cons op ops)
  show ?case
  proof (cases op)
    case None
    obtain a1 d1 where r: "fifo_run items cap item put pop ops (pop s) = (a1, d1, s')"
      using Cons.prems(2) None by (auto split: prod.splits)
    have "tl (items s) @ a1 = d1 @ items s'"
      using Cons.IH [OF pop_ok [OF Cons.prems(1)] r] pop_items [OF Cons.prems(1)] by simp
    then show ?thesis using Cons.prems(2) None r by (cases "items s") auto
  next
    case (Some r0)
    obtain a1 d1 where r: "fifo_run items cap item put pop ops (put r0 s) = (a1, d1, s')"
      using Cons.prems(2) Some by (auto split: prod.splits)
    show ?thesis using Cons.IH [OF put_ok [OF Cons.prems(1)] r] put_items [OF Cons.prems(1), of r0] Cons.prems(2) Some r
      by (auto split: if_splits)
  qed
qed simp

end

section \<open>The ring\<close>

definition ring_ok :: "ipc_server \<Rightarrow> bool" where
  "ring_ok s \<longleftrightarrow> \<not> is_multi_task s \<and> length (is_tasks s) = IPC_CTX_MAX \<and> is_task_num s \<le> IPC_CTX_MAX \<and>
     is_task_head s < IPC_CTX_MAX \<and> is_task_tail s = (is_task_head s + is_task_num s) mod IPC_CTX_MAX"

definition ring_items :: "ipc_server \<Rightarrow> ipc_task list" where
  "ring_items s = map (\<lambda>j. is_tasks s ! ((is_task_head s + j) mod IPC_CTX_MAX)) [0..<is_task_num s]"

lemma length_ring_items [simp]: "length (ring_items s) = is_task_num s"
  by (simp add: ring_items_def)

lemma ctx_max_pos [simp]: "0 < IPC_CTX_MAX" "x mod IPC_CTX_MAX < IPC_CTX_MAX"
  by (simp_all add: IPC_CTX_MAX_def)

lemma ring_slot_inj:
  assumes "(h + i) mod IPC_CTX_MAX = (h + j) mod IPC_CTX_MAX" "i < IPC_CTX_MAX" "j < IPC_CTX_MAX"
  shows "i = j"
proof -
  have "(int h + int i) mod int IPC_CTX_MAX = (int h + int j) mod int IPC_CTX_MAX"
    using assms(1) by (metis of_nat_add of_nat_mod)
  then have "int i mod int IPC_CTX_MAX = int j mod int IPC_CTX_MAX" by (simp add: mod_add_cong mod_eq_dvd_iff)
  with assms(2,3) show ?thesis by simp
qed

lemma ring_put:
  fixes f :: "ipc_task \<Rightarrow> ipc_task"
  assumes "ring_ok s" "is_task_num s < IPC_CTX_MAX"
  defines "s' \<equiv> ipc_taskq_push_tail (upd_task (is_task_tail s) f s)"
  shows "ring_ok s'" and "ring_items s' = ring_items s @ [f (is_tasks s ! is_task_tail s)]"
proof -
  have nf: "\<not> ipc_taskq_is_full (upd_task (is_task_tail s) f s)"
    using assms(2) by (simp add: ipc_taskq_is_full_def upd_task_def)
  have tl: "is_task_tail s = (is_task_head s + is_task_num s) mod IPC_CTX_MAX" "length (is_tasks s) = IPC_CTX_MAX"
    using assms(1) by (simp_all add: ring_ok_def)
  show "ring_ok s'"
    using assms(1,2) nf by (simp add: s'_def ring_ok_def ipc_taskq_push_tail_def upd_task_def mod_Suc_eq)
  have old: "(is_tasks s)[is_task_tail s := y] ! ((is_task_head s + j) mod IPC_CTX_MAX)
      = is_tasks s ! ((is_task_head s + j) mod IPC_CTX_MAX)" if "j < is_task_num s" for j y
  proof -
    have "is_task_tail s \<noteq> (is_task_head s + j) mod IPC_CTX_MAX"
      using that assms(2) tl(1) ring_slot_inj [of "is_task_head s" j "is_task_num s"] by auto
    then show ?thesis by simp
  qed
  show "ring_items s' = ring_items s @ [f (is_tasks s ! is_task_tail s)]"
    using nf by (simp add: s'_def ring_items_def ipc_taskq_push_tail_def upd_task_def old cong: map_cong)
      (use tl in simp)
qed

lemma ring_pop:
  assumes "ring_ok s" "is_task_num s > 0"
  defines "s' \<equiv> ipc_taskq_pop_head (ipc_free (is_task_head s) s)"
  shows "ring_ok s'" and "ring_items s' = tl (ring_items s)"
proof -
  let ?h = "is_task_head s" and ?n = "is_task_num s"
  have b: "?h < IPC_CTX_MAX" "length (is_tasks s) = IPC_CTX_MAX" "?n \<le> IPC_CTX_MAX" using assms(1) by (simp_all add: ring_ok_def)
  have eq: "s' = (let u = (ipc_free ?h s)\<lparr>is_task_head := (?h + 1) mod IPC_CTX_MAX, is_task_num := ?n - 1\<rparr> in
      if ?n = 1 then u\<lparr>is_task_head := 0, is_task_tail := 0\<rparr> else u)"
    using assms(2) by (auto simp: s'_def ipc_taskq_pop_head_def ipc_taskq_is_empty_def ipc_free_def upd_task_def Let_def)
  have old: "(is_tasks s)[?h := y] ! (((?h + 1) mod IPC_CTX_MAX + j) mod IPC_CTX_MAX)
      = is_tasks s ! ((?h + Suc j) mod IPC_CTX_MAX)" if "Suc j < ?n" for j y
  proof -
    have "(?h + Suc j) mod IPC_CTX_MAX \<noteq> ?h"
      using ring_slot_inj [of ?h "Suc j" 0] that b by auto
    moreover have "((?h + 1) mod IPC_CTX_MAX + j) mod IPC_CTX_MAX = (?h + Suc j) mod IPC_CTX_MAX"
      by (simp add: mod_simps)
    ultimately show ?thesis by simp
  qed
  have tail: "is_task_tail s = ((?h + 1) mod IPC_CTX_MAX + (?n - 1)) mod IPC_CTX_MAX"
  proof -
    have "((?h + 1) mod IPC_CTX_MAX + (?n - 1)) mod IPC_CTX_MAX = (?h + 1 + (?n - 1)) mod IPC_CTX_MAX" by (rule mod_add_left_eq)
    then show ?thesis using assms(1,2) by (simp add: ring_ok_def)
  qed
  show "ring_ok s'"
    using assms(1) tail b by (auto simp: eq Let_def ring_ok_def ipc_free_def upd_task_def)
  have up: "[0..<?n] = 0 # map Suc [0..<?n - 1]" using assms(2) by (simp add: map_Suc_upt upt_conv_Cons)
  show "ring_items s' = tl (ring_items s)"
    unfolding ring_items_def up using old
    by (auto simp: eq Let_def ipc_free_def upd_task_def intro!: map_cong)
qed

section \<open>Requests and completions of the kernel\<close>

lemma server_of_upd:
  "server_of (upd_server sv f k) j
   = (if p_space (the_proc k j) = p_space (the_proc k sv) then map_option f (server_of k j) else server_of k j)"
  by (auto simp: server_of_def upd_server_def proc_space_of_def space_at_def upd_space_def option.map_comp comp_def
      the_proc_def slot_def split: option.splits)

lemma server_of_upd_same [simp]: "server_of (upd_server sv f k) sv = map_option f (server_of k sv)"
  by (simp add: server_of_upd)

lemma server_of_timeout [simp]:
  "server_of (k\<lparr>ipc_timeout_queue := q\<rparr>) j = server_of k j"
  "server_of (proc_track_ipc_timeout sv k) j = server_of k j"
  "server_of (proc_untrack_ipc_timeout sv k) j = server_of k j"
  "server_of (retrack sv k) j = server_of k j"
proof -
  show q: "server_of (k\<lparr>ipc_timeout_queue := q\<rparr>) j = server_of k j" for k :: "'a kernel_scheme" and q
    by (simp add: server_of_def proc_space_of_def space_at_def the_proc_def slot_def split: option.split)
  then show "server_of (proc_track_ipc_timeout sv k) j = server_of k j"
    "server_of (proc_untrack_ipc_timeout sv k) j = server_of k j" "server_of (retrack sv k) j = server_of k j"
    by (simp_all add: proc_track_ipc_timeout_def proc_untrack_ipc_timeout_def retrack_def)
qed

lemma server_of_space: "server_of k sv = Some s \<Longrightarrow> \<exists>sp. proc_space_of k sv = Some sp \<and> sp_ipc_server sp = s"
  by (auto simp: server_of_def)

text \<open>The requests a server has accepted and not completed, oldest first.\<close>

definition pending :: "nat \<Rightarrow> 'a kernel_scheme \<Rightarrow> ipc_task list" where
  "pending sv k = (case server_of k sv of None \<Rightarrow> [] | Some s \<Rightarrow> ring_items s)"

definition ring_state :: "nat \<Rightarrow> u32 \<times> 'a kernel_scheme \<Rightarrow> bool" where
  "ring_state sv x \<longleftrightarrow> (\<exists>s. server_of (snd x) sv = Some s \<and> ring_ok s)"

type_synonym request = "nat \<times> int \<times> uproto option"

definition the_request :: "request \<Rightarrow> u32 \<times> 'a kernel_scheme \<Rightarrow> ipc_task" where
  "the_request r x = (case r of (client, call_id, arg) \<Rightarrow> req_task (snd x) (fst x + 1) client call_id arg zero_ipc_task)"

definition accept :: "nat \<Rightarrow> request \<Rightarrow> u32 \<times> 'a kernel_scheme \<Rightarrow> u32 \<times> 'a kernel_scheme" where
  "accept sv r x = (case r of (client, call_id, arg) \<Rightarrow> snd (proc_ipc_req (fst x) sv client call_id arg (snd x)))"

definition complete :: "nat \<Rightarrow> u32 \<times> 'a kernel_scheme \<Rightarrow> u32 \<times> 'a kernel_scheme" where
  "complete sv x = (fst x, case proc_ipc_get_task (snd x) sv of None \<Rightarrow> snd x | Some t \<Rightarrow> proc_ipc_close sv t (snd x))"

lemma req_task_reset: "req_task k u c a d x = req_task k u c a d y"
  by (simp add: req_task_def ipc_task_reset_def)

lemma req_slot_ring: "ring_ok s \<Longrightarrow> req_slot s = (if is_task_num s < IPC_CTX_MAX then Some (is_task_tail s) else None)"
  by (auto simp: req_slot_def ring_ok_def ipc_taskq_is_full_def ipc_taskq_tail_slot_def)

lemma accept_server:
  assumes "server_of k sv = Some s" "ring_ok s"
  shows "server_of (snd (accept sv r (uid, k))) sv = Some (if is_task_num s < IPC_CTX_MAX
      then ipc_taskq_push_tail (upd_task (is_task_tail s) (\<lambda>_. the_request r (uid, k)) s) else s)"
proof -
  obtain client call_id arg where r: "r = (client, call_id, arg)" by (cases r)
  have "\<not> is_multi_task (upd_task t f s)" for t f using assms(2) by (simp add: ring_ok_def upd_task_def)
  moreover have "upd_task t (req_task k u c a d) s = upd_task t (\<lambda>_. req_task k u c a d zero_ipc_task) s" for t u c a d
    unfolding upd_task_def by (subst req_task_reset) (rule refl)
  ultimately show ?thesis using assms
    by (simp add: accept_def r proc_ipc_req_def req_slot_ring Let_def the_request_def)
qed

lemma complete_server:
  assumes "server_of k sv = Some s" "ring_ok s"
  shows "server_of (snd (complete sv (uid, k))) sv
    = Some (if is_task_num s > 0 then ipc_taskq_pop_head (ipc_free (is_task_head s) s) else s)"
proof -
  obtain sp where sp: "proc_space_of k sv = Some sp" "sp_ipc_server sp = s" using server_of_space [OF assms(1)] by blast
  have m: "\<not> is_multi_task s" using assms(2) by (simp add: ring_ok_def)
  show ?thesis using sp assms(1) m
    by (simp add: complete_def proc_ipc_get_task_def ipc_taskq_head_def proc_ipc_close_def close_slot_def
        ipc_taskq_is_head_slot_def ipc_taskq_is_empty_def)
qed

interpretation ring: bounded_fifo "ring_state sv" "\<lambda>x. pending sv (snd x)" IPC_CTX_MAX the_request "accept sv" "complete sv"
  for sv :: nat
proof
  fix x :: "u32 \<times> 'a kernel_scheme" and r
  obtain uid k where x: "x = (uid, k)" by (cases x)
  assume "ring_state sv x"
  then obtain s where s: "server_of k sv = Some s" "ring_ok s" by (auto simp: ring_state_def x)
  note a = accept_server [OF s, of r uid] and c = complete_server [OF s, of uid]
  show "length (pending sv (snd x)) \<le> IPC_CTX_MAX" using s by (simp add: pending_def x ring_ok_def)
  show "ring_state sv (accept sv r x)" using a s ring_put [OF s(2)] by (auto simp: ring_state_def x)
  show "pending sv (snd (accept sv r x)) =
      (if length (pending sv (snd x)) < IPC_CTX_MAX then pending sv (snd x) @ [the_request r x] else pending sv (snd x))"
    using a s(1) ring_put [OF s(2)] by (auto simp: pending_def x)
  show "ring_state sv (complete sv x)" using c s ring_pop [OF s(2)] by (auto simp: ring_state_def x)
  show "pending sv (snd (complete sv x)) = tl (pending sv (snd x))"
    using c s(1) ring_pop [OF s(2)] by (auto simp: pending_def x ring_items_def [of s])
qed

lemma get_task_ring:
  assumes "server_of k sv = Some s" "ring_ok s"
  shows "proc_ipc_get_task k sv = (if pending sv k = [] then None else Some (is_task_head s))"
    and "pending sv k \<noteq> [] \<Longrightarrow> task_at k sv (is_task_head s) = hd (pending sv k)"
proof -
  have n: "is_task_num s = 0 \<longleftrightarrow> ring_items s = []" by (metis length_0_conv length_ring_items)
  show "proc_ipc_get_task k sv = (if pending sv k = [] then None else Some (is_task_head s))"
    using assms n server_of_space [OF assms(1)] by (auto simp: proc_ipc_get_task_def ipc_taskq_head_def pending_def)
  assume "pending sv k \<noteq> []"
  then have "0 < is_task_num s" using assms n by (simp add: pending_def)
  then show "task_at k sv (is_task_head s) = hd (pending sv k)"
    using assms by (simp add: task_at_def pending_def ring_items_def upt_conv_Cons ring_ok_def)
qed

lemma close_other:
  assumes "server_of k sv = Some s" "ring_ok s" "proc_ipc_get_task k sv \<noteq> Some t"
  shows "pending sv (proc_ipc_close sv t k) = pending sv k"
proof -
  have "close_slot t s = s"
    using assms server_of_space [OF assms(1)]
    by (auto simp: close_slot_def ring_ok_def ipc_taskq_is_head_slot_def ipc_taskq_is_empty_def proc_ipc_get_task_def
        ipc_taskq_head_def split: if_splits)
  then show ?thesis using assms(1) by (simp add: pending_def proc_ipc_close_def)
qed

section \<open>Properties\<close>

text \<open>C10: the ring of task slots of a server that serves one request at a time is a bounded queue.
  For every sequence of requests and completions, the requests pending at the start followed by the
  accepted ones are the completed ones followed by those still pending, in this order; never more
  than \<open>IPC_CTX_MAX\<close> are pending, and a request to a full server changes nothing. The task offered to
  the server is the oldest one, and closing any other slot completes nothing.\<close>

theorem ipc_requests_fifo:
  fixes k :: "'a kernel_scheme"
  assumes "server_of k sv = Some s" "ring_ok s"
    and "fifo_run (\<lambda>x. pending sv (snd x)) IPC_CTX_MAX the_request (accept sv) (complete sv) ops (uid, k)
      = (accepted, served, (uid', k'))"
  shows "pending sv k @ accepted = served @ pending sv k' \<and> length (pending sv k') \<le> IPC_CTX_MAX \<and>
    (length (pending sv k') = IPC_CTX_MAX \<longrightarrow> proc_ipc_req uid' sv client call_id arg k' = (None, uid', k')) \<and>
    (pending sv k' \<noteq> [] \<longrightarrow> proc_ipc_fetch k' sv = it_uid (hd (pending sv k'))) \<and>
    (proc_ipc_get_task k' sv \<noteq> Some t \<longrightarrow> pending sv (proc_ipc_close sv t k') = pending sv k')"
proof -
  have st: "ring_state sv (uid, k)" using assms(1,2) by (simp add: ring_state_def)
  have st': "ring_state sv (uid', k')" by (rule ring.run_ok [OF st assms(3)])
  then obtain s' where s': "server_of k' sv = Some s'" "ring_ok s'" by (auto simp: ring_state_def)
  have "pending sv k @ accepted = served @ pending sv k'" using ring.run_order [OF st assms(3)] by simp
  moreover have "length (pending sv k') \<le> IPC_CTX_MAX" using ring.bound [OF st'] by simp
  moreover have "length (pending sv k') = IPC_CTX_MAX \<longrightarrow> proc_ipc_req uid' sv client call_id arg k' = (None, uid', k')"
    using s' by (simp add: proc_ipc_req_def pending_def req_slot_ring)
  moreover have "pending sv k' \<noteq> [] \<longrightarrow> proc_ipc_fetch k' sv = it_uid (hd (pending sv k'))"
    using get_task_ring [OF s'] by (simp add: proc_ipc_fetch_def)
  moreover have "proc_ipc_get_task k' sv \<noteq> Some t \<longrightarrow> pending sv (proc_ipc_close sv t k') = pending sv k'"
    using close_other [OF s'] by blast
  ultimately show ?thesis by blast
qed

text \<open>A server (1) and two clients (2 and 3), all on one core.\<close>

definition ex_ipc :: kernel where
  "ex_ipc = (procs_init 4 1 8 0)\<lparr>task_table := [None,
     Some (zero_proc\<lparr>p_pid := 1, p_uuid := 11, p_state := RUNNING, p_space := Some 0\<rparr>),
     Some (zero_proc\<lparr>p_pid := 2, p_uuid := 12, p_state := BLOCK, p_space := Some 1\<rparr>),
     Some (zero_proc\<lparr>p_pid := 3, p_uuid := 13, p_state := BLOCK, p_space := Some 2\<rparr>)],
     spaces := [0 \<mapsto> zero_space\<lparr>sp_ipc_server := zero_ipc_server\<lparr>is_entry := 0x1000\<rparr>\<rparr>, 1 \<mapsto> zero_space, 2 \<mapsto> zero_space],
     current_proc := (\<lambda>_. 1)\<rparr>"

definition ex_reqs :: "request option list" where
  "ex_reqs = [Some (2, 7, None), Some (3, 9, None), None, Some (2, 8, None)]"

lemma ex_server: "server_of ex_ipc 1 = Some (zero_ipc_server\<lparr>is_entry := 0x1000\<rparr>)"
  by (simp add: ex_ipc_def server_of_def proc_space_of_def space_at_def the_proc_def slot_def zero_proc_def zero_space_def procs_init_def)

lemma ring_ok_zero: "ring_ok (zero_ipc_server\<lparr>is_entry := e\<rparr>)"
  by (simp add: ring_ok_def zero_ipc_server_def)

theorem ipc_requests_fifo_witness:
  "\<exists>a d u k'. fifo_run (\<lambda>x. pending 1 (snd x)) IPC_CTX_MAX the_request (accept 1) (complete 1) ex_reqs (0, ex_ipc)
      = (a, d, u, k') \<and> pending 1 ex_ipc @ a = d @ pending 1 k' \<and>
    map it_uid a = [1, 2, 3] \<and> map it_uid d = [1] \<and> map it_uid (pending 1 k') = [2, 3]"
proof -
  obtain a d u k' where r: "fifo_run (\<lambda>x. pending 1 (snd x)) IPC_CTX_MAX the_request (accept 1) (complete 1) ex_reqs (0, ex_ipc)
      = (a, d, u, k')" by (metis prod.exhaust)
  have "case fifo_run (\<lambda>x. pending 1 (snd x)) IPC_CTX_MAX the_request (accept 1) (complete 1) ex_reqs (0, ex_ipc) of
    (a, d, u, k') \<Rightarrow> map it_uid a = [1, 2, 3] \<and> map it_uid d = [1] \<and> map it_uid (pending 1 k') = [2, 3]"
    by code_simp
  with r ipc_requests_fifo [OF ex_server ring_ok_zero r] show ?thesis by simp
qed

end
