(* ===== verification/Ipc_Pool.thy ===== *)
theory Ipc_Pool
  imports Ipc
begin

text \<open>
  The worker pool of an ipc server (\<open>IPC_MULTI_TASK\<close> and \<open>IPC_MULTI_CORE\<close>) and the system calls
  that start and end a request, \<^verbatim>\<open>kernel/kernel/src/ipc.c\<close>, with \<open>proc_ipc_pool_park\<close> of
  \<^verbatim>\<open>kernel/kernel/src/proc.c\<close>.

  Two operations of the process life cycle are parameters: \<open>spawn\<close> is \<open>proc_ipc_pool_spawn\<close>, which
  creates a parked worker thread on a core or fails, and \<open>pexit\<close> is \<open>proc_exit\<close>.
\<close>

type_synonym 'a spawn_op = "nat \<Rightarrow> nat \<Rightarrow> 'a kernel_scheme \<Rightarrow> nat option \<times> 'a kernel_scheme"
type_synonym 'a exit_op = "context_t \<Rightarrow> nat \<Rightarrow> int \<Rightarrow> 'a kernel_scheme \<Rightarrow> context_t \<times> 'a kernel_scheme"

section \<open>Registration\<close>

definition zero_pool_worker :: ipc_pool_worker where
  "zero_pool_worker = \<lparr>pw_pid = 0, pw_uuid = 0, pw_idle_sec = 0, pw_quit = False\<rparr>"

text \<open>The pool of a server that is not a pool server, or has not been set up, is empty; the array of a
  pool server is allocated once.\<close>

definition proc_ipc_setup :: "u64 \<Rightarrow> u64 \<Rightarrow> u32 \<Rightarrow> 'a kernel_scheme \<Rightarrow> int \<times> 'a kernel_scheme" where
  "proc_ipc_setup entry extra_data flags k =
     (case get_current_proc k of None \<Rightarrow> (0, k\<lparr>halted := True\<rparr>)
      | Some c \<Rightarrow> (0, upd_server c (\<lambda>s.
          let s = s\<lparr>is_entry := entry, is_extra_data := extra_data, is_flags := flags,
                is_multi_task := (flags AND (IPC_MULTI_TASK OR IPC_MULTI_CORE) \<noteq> 0)\<rparr> in
          if is_multi_task s \<and> is_pool s = []
          then s\<lparr>is_pool := replicate (if flags AND IPC_MULTI_CORE \<noteq> 0 then cores k else max_task_per_proc k) zero_pool_worker\<rparr>
          else s) k))"

section \<open>Pool members\<close>

definition pool_of :: "'a kernel_scheme \<Rightarrow> nat \<Rightarrow> ipc_pool_worker list" where
  "pool_of k sv = (case server_of k sv of None \<Rightarrow> [] | Some s \<Rightarrow> is_pool s)"

definition upd_pool :: "nat \<Rightarrow> nat \<Rightarrow> (ipc_pool_worker \<Rightarrow> ipc_pool_worker) \<Rightarrow> 'a kernel_scheme \<Rightarrow> 'a kernel_scheme" where
  "upd_pool sv n f k = upd_server sv (\<lambda>s. s\<lparr>is_pool := (is_pool s)[n := f (is_pool s ! n)]\<rparr>) k"

text \<open>The live worker of a pool slot; a stale slot is emptied.\<close>

definition ipc_pool_slot_worker :: "nat \<Rightarrow> nat \<Rightarrow> 'a kernel_scheme \<Rightarrow> nat option \<times> 'a kernel_scheme" where
  "ipc_pool_slot_worker sv n k =
     (let e = pool_of k sv ! n in
      if pw_pid e \<le> 0 then (None, k)
      else case proc_get k (pw_pid e) of
        Some w \<Rightarrow> if p_uuid (the_proc k w) \<noteq> pw_uuid e \<or> p_type (the_proc k w) \<noteq> TASK_TYPE_THREAD
          then (None, upd_pool sv n (\<lambda>_. zero_pool_worker) k) else (Some w, k)
      | None \<Rightarrow> (None, upd_pool sv n (\<lambda>_. zero_pool_worker) k))"

definition is_worker :: "'a kernel_scheme \<Rightarrow> nat \<Rightarrow> ipc_pool_worker \<Rightarrow> bool" where
  "is_worker k w e \<longleftrightarrow> pw_pid e = p_pid (the_proc k w) \<and> pw_uuid e = p_uuid (the_proc k w)"

definition ipc_pool_is_member :: "'a kernel_scheme \<Rightarrow> nat \<Rightarrow> nat \<Rightarrow> bool" where
  "ipc_pool_is_member k sv w \<longleftrightarrow> (\<exists>e \<in> set (pool_of k sv). is_worker k w e)"

definition count_at :: "nat \<Rightarrow> nat \<Rightarrow> nat \<times> 'a kernel_scheme \<Rightarrow> nat \<times> 'a kernel_scheme" where
  "count_at sv n ck = (case ck of (c, k) \<Rightarrow>
     (case ipc_pool_slot_worker sv n k of (None, k) \<Rightarrow> (c, k) | (Some w, k) \<Rightarrow> (c + 1, k)))"

definition ipc_pool_count_locked :: "nat \<Rightarrow> 'a kernel_scheme \<Rightarrow> nat \<times> 'a kernel_scheme" where
  "ipc_pool_count_locked sv k = fold (count_at sv) [0..<length (pool_of k sv)] (0, k)"

text \<open>A scan over the pool slots for the first live worker that satisfies a condition on its slot; all
  the searches of the pool have this shape.\<close>

fun pool_scan ::
  "(nat option \<Rightarrow> ipc_pool_worker \<Rightarrow> 'a kernel_scheme \<Rightarrow> bool) \<Rightarrow> nat \<Rightarrow> nat list \<Rightarrow> 'a kernel_scheme \<Rightarrow> (nat \<times> nat option) option \<times> 'a kernel_scheme" where
  "pool_scan P sv [] k = (None, k)"
| "pool_scan P sv (n # ns) k =
     (let (w, k) = ipc_pool_slot_worker sv n k in
      if P w (pool_of k sv ! n) k then (Some (n, w), k) else pool_scan P sv ns k)"

definition ipc_pool_register_locked :: "nat \<Rightarrow> nat \<Rightarrow> 'a kernel_scheme \<Rightarrow> bool \<times> 'a kernel_scheme" where
  "ipc_pool_register_locked sv w k =
     (case pool_scan (\<lambda>x e k. x = None) sv [0..<length (pool_of k sv)] k of
        (None, k) \<Rightarrow> (False, k)
      | (Some (n, _), k) \<Rightarrow> (True, upd_pool sv n (\<lambda>_. \<lparr>pw_pid = p_pid (the_proc k w), pw_uuid = p_uuid (the_proc k w),
            pw_idle_sec = 0, pw_quit = False\<rparr>) k))"

definition worker_sp :: "proc \<Rightarrow> u64" where
  "worker_sp p = ALIGN_DOWN (p_thread_stack_base p + of_nat (THREAD_STACK_PAGES * PAGE_SIZE)) 16"

text \<open>The first entry of a worker in the pool.\<close>

definition member_index :: "'a kernel_scheme \<Rightarrow> nat \<Rightarrow> nat \<Rightarrow> nat option" where
  "member_index k sv w = find_index (is_worker k w) (pool_of k sv)"

definition enter_worker :: "ipc_server \<Rightarrow> u32 \<Rightarrow> proc \<Rightarrow> context_t \<Rightarrow> context_t" where
  "enter_worker s uid p c = (set_gpr 1 (is_extra_data s) (set_gpr 0 (ucast uid) c))
     \<lparr>ctx_pc := is_entry s, ctx_lr := is_entry s, ctx_sp := worker_sp p\<rparr>"

definition ipc_pool_bind_locked :: "nat \<Rightarrow> nat \<Rightarrow> nat \<Rightarrow> 'a kernel_scheme \<Rightarrow> 'a kernel_scheme" where
  "ipc_pool_bind_locked sv w t k =
     (let k = (case member_index k sv w of None \<Rightarrow> k
               | Some n \<Rightarrow> upd_pool sv n (\<lambda>e. e\<lparr>pw_idle_sec := 0, pw_quit := False\<rparr>) k);
          k = upd_proc w (\<lambda>p. p\<lparr>p_ipc_task := Some t\<rparr>) k;
          k = upd_server sv (upd_task t (\<lambda>x. x\<lparr>it_handler_pid := p_pid (the_proc k w), it_handler_uuid := p_uuid (the_proc k w)\<rparr>)) k;
          s = the (server_of k sv) in
      upd_proc w (\<lambda>p. p\<lparr>p_ctx := enter_worker s (it_uid (is_tasks s ! t)) p (p_ctx p)\<rparr>) k)"

definition idle_worker :: "nat option \<Rightarrow> ipc_pool_worker \<Rightarrow> 'a kernel_scheme \<Rightarrow> bool" where
  "idle_worker w e k = (case w of None \<Rightarrow> False
     | Some i \<Rightarrow> \<not> pw_quit e \<and> p_state (the_proc k i) = BLOCK \<and> p_ipc_task (the_proc k i) = None)"

definition idle_on :: "nat \<Rightarrow> nat option \<Rightarrow> ipc_pool_worker \<Rightarrow> 'a kernel_scheme \<Rightarrow> bool" where
  "idle_on core w e k \<longleftrightarrow> idle_worker w e k \<and> p_core (the_proc k (the w)) = core"

definition ipc_pool_pick_idle_locked :: "nat \<Rightarrow> nat \<Rightarrow> nat \<Rightarrow> 'a kernel_scheme \<Rightarrow> nat option \<times> 'a kernel_scheme" where
  "ipc_pool_pick_idle_locked sv t core k =
     (case pool_scan (idle_on core) sv [0..<length (pool_of k sv)] k of
        (Some (n, Some w), k) \<Rightarrow> (Some w, ipc_pool_bind_locked sv w t k)
      | (_, k) \<Rightarrow> (None, k))"

definition ipc_pool_has_idle :: "nat \<Rightarrow> nat \<Rightarrow> 'a kernel_scheme \<Rightarrow> bool \<times> 'a kernel_scheme" where
  "ipc_pool_has_idle sv core k =
     (case pool_scan (idle_on core) sv [0..<length (pool_of k sv)] k of (r, k) \<Rightarrow> (r \<noteq> None, k))"

definition ipc_pool_core_member_locked :: "nat \<Rightarrow> nat \<Rightarrow> 'a kernel_scheme \<Rightarrow> nat option \<times> 'a kernel_scheme" where
  "ipc_pool_core_member_locked sv core k =
     (case pool_scan (\<lambda>w e k. case w of None \<Rightarrow> False | Some i \<Rightarrow> \<not> pw_quit e \<and> p_core (the_proc k i) = core)
        sv [0..<length (pool_of k sv)] k of
        (Some (n, w), k) \<Rightarrow> (w, k) | (None, k) \<Rightarrow> (None, k))"

definition ipc_server_client_busy_locked :: "'a kernel_scheme \<Rightarrow> nat \<Rightarrow> int \<Rightarrow> u32 \<Rightarrow> nat option \<Rightarrow> bool" where
  "ipc_server_client_busy_locked k sv pid uuid skip =
     (case server_of k sv of None \<Rightarrow> False
      | Some s \<Rightarrow> \<exists>t < length (is_tasks s). Some t \<noteq> skip \<and>
          (let x = is_tasks s ! t in it_uid x \<noteq> 0 \<and> it_state x \<noteq> IPC_IDLE \<and> it_client_pid x = pid \<and> it_client_uuid x = uuid))"

section \<open>Assignment\<close>

definition proc_thread_stack_available :: "'a kernel_scheme \<Rightarrow> nat \<Rightarrow> bool" where
  "proc_thread_stack_available k i =
     (case proc_space_of k i of None \<Rightarrow> False
      | Some sp \<Rightarrow> (case sp_thread_stacks sp of None \<Rightarrow> True | Some sts \<Rightarrow> \<exists>x \<in> set sts. ts_base x = 0))"

definition pool_can_grow :: "nat \<Rightarrow> 'a kernel_scheme \<Rightarrow> bool \<times> 'a kernel_scheme" where
  "pool_can_grow sv k =
     (let (c, k) = ipc_pool_count_locked sv k in
      (c < length (pool_of k sv) \<and> proc_thread_stack_available k sv, k))"

definition ipc_pool_assign :: "'a spawn_op \<Rightarrow> nat \<Rightarrow> nat \<Rightarrow> nat \<Rightarrow> 'a kernel_scheme \<Rightarrow> nat option \<times> 'a kernel_scheme" where
  "ipc_pool_assign spawn sv t core k =
     (let x = task_at k sv t; s = the (server_of k sv); mcore = serv_has s IPC_MULTI_CORE in
      if \<not> mcore \<and> ipc_server_client_busy_locked k sv (it_client_pid x) (it_client_uuid x) (Some t) then (None, k)
      else
        case ipc_pool_pick_idle_locked sv t core k of
          (Some w, k) \<Rightarrow> (Some w, proc_wakeup w k)
        | (None, k) \<Rightarrow>
          let (m, k) = (if \<not> mcore then (None, k) else ipc_pool_core_member_locked sv core k) in
          if mcore \<and> m \<noteq> None then (None, k)
          else
            let (grow, k) = pool_can_grow sv k;
                (nw, k) = (if grow then spawn sv core k else (None, k)) in
            (case nw of
               Some w \<Rightarrow>
                 let (_, k) = ipc_pool_register_locked sv w k;
                     k = ipc_pool_bind_locked sv w t k
                 in (Some w, proc_wakeup w k)
             | None \<Rightarrow>
                 (case ipc_pool_pick_idle_locked sv t core k of
                    (Some w, k) \<Rightarrow> (Some w, proc_wakeup w k) | (None, k) \<Rightarrow> (None, k))))"

definition IPC_TASK_SELF_QUIT_TIMEOUT :: u32 where
  "IPC_TASK_SELF_QUIT_TIMEOUT = 3"

definition proc_ipc_pool_shrink :: "u32 \<Rightarrow> nat \<Rightarrow> 'a kernel_scheme \<Rightarrow> 'a kernel_scheme" where
  "proc_ipc_pool_shrink uptime_sec sv k =
     (case server_of k sv of None \<Rightarrow> k
      | Some s \<Rightarrow>
        if \<not> is_multi_task s \<or> is_entry s = 0 then k
        else
          let (c, k) = ipc_pool_count_locked sv k in
          if c = 0 then k
          else case pool_scan (\<lambda>w e k. idle_worker w e k \<and> pw_idle_sec e \<noteq> 0 \<and>
                  uptime_sec - pw_idle_sec e \<ge> IPC_TASK_SELF_QUIT_TIMEOUT) sv (rev [0..<length (pool_of k sv)]) k of
            (Some (n, Some w), k) \<Rightarrow> proc_wakeup w (upd_pool sv n (\<lambda>e. e\<lparr>pw_quit := True\<rparr>) k)
          | (_, k) \<Rightarrow> k)"

section \<open>The two waits of a pool server\<close>

definition proc_ipc_wait_pool :: "context_t \<Rightarrow> nat \<Rightarrow> nat \<Rightarrow> nat \<Rightarrow> 'a kernel_scheme \<Rightarrow> int \<times> context_t \<times> 'a kernel_scheme" where
  "proc_ipc_wait_pool ctx sv i core k = ipc_park_on (\<lambda>k. case server_of k sv of None \<Rightarrow> (False, k)
      | Some s \<Rightarrow> if is_disabled s then (False, k) else ipc_pool_has_idle sv core k) ctx sv i k"

definition proc_ipc_wait_requester :: "context_t \<Rightarrow> nat \<Rightarrow> nat \<Rightarrow> 'a kernel_scheme \<Rightarrow> int \<times> context_t \<times> 'a kernel_scheme" where
  "proc_ipc_wait_requester ctx sv i k = ipc_park_on (\<lambda>k. (case server_of k sv of None \<Rightarrow> False
      | Some s \<Rightarrow> \<not> is_disabled s \<and>
          \<not> ipc_server_client_busy_locked k sv (p_pid (the_proc k i)) (p_uuid (the_proc k i)) None, k)) ctx sv i k"

section \<open>SYS_IPC_CALL\<close>

definition IPC_ERROR_RETRY :: int where "IPC_ERROR_RETRY = -1"
definition IPC_ERROR_SELF :: int where "IPC_ERROR_SELF = -2"
definition IPC_ERROR_NO_READY :: int where "IPC_ERROR_NO_READY = -3"

definition res_busy :: "nat \<Rightarrow> 'a kernel_scheme \<Rightarrow> 'a kernel_scheme" where
  "res_busy c k = res_upd (proc_cur_ipc_res k c) (\<lambda>r. r\<lparr>ir_state := IPC_BUSY\<rparr>) k"

text \<open>One pass of the loop of a call to a pool server. \<open>Inl\<close> is the return from the call, \<open>Inr\<close> the
  retry at once.\<close>

definition ipc_call_pass ::
  "'a spawn_op \<Rightarrow> nat \<Rightarrow> int \<Rightarrow> uproto option \<Rightarrow> nat \<Rightarrow> context_t \<Rightarrow> u32 \<Rightarrow> 'a kernel_scheme \<Rightarrow>
   (context_t \<times> u32 \<times> 'a kernel_scheme) + (context_t \<times> u32 \<times> 'a kernel_scheme)" where
  "ipc_call_pass spawn client call_id arg sv ctx uid k =
     (case proc_ipc_req uid sv client call_id arg k of
        (None, uid, k) \<Rightarrow>
          (let (r, ctx, k) = proc_ipc_wait (ret IPC_ERROR_RETRY ctx) sv client k in
           if r = 0 then Inl (ctx, uid, k) else Inr (ctx, uid, k))
      | (Some t, uid, k) \<Rightarrow>
          let k = res_busy client k;
              ctx = set_gpr 0 (ucast (it_uid (task_at k sv t))) ctx;
              core = p_core (the_proc k client) in
          (case ipc_pool_assign spawn sv t core k of
             (Some w, k) \<Rightarrow>
               if \<not> call_has call_id (IPC_LAZY OR IPC_NON_RETURN) \<and> p_core (the_proc k w) = p_core (the_proc k client)
               then (let (ctx, k) = proc_switch_multi_core ctx w (p_core (the_proc k client)) k in Inl (ctx, uid, k))
               else Inl (ctx, uid, k)
           | (None, k) \<Rightarrow>
               let k = proc_ipc_close sv t k; ctx = ret IPC_ERROR_RETRY ctx in
               if serv_has (the (server_of k sv)) IPC_MULTI_CORE then Inl (ctx, uid, k)
               else
                 let (r, ctx, k) =
                   (if ipc_server_client_busy_locked k sv (p_pid (the_proc k client)) (p_uuid (the_proc k client)) None
                    then proc_ipc_wait_requester ctx sv client k
                    else proc_ipc_wait_pool ctx sv client (p_core (the_proc k client)) k) in
                 if r = 0 then Inl (ctx, uid, k) else Inr (ctx, uid, k)))"

partial_function (option) ipc_call_loop ::
  "'a spawn_op \<Rightarrow> nat \<Rightarrow> int \<Rightarrow> uproto option \<Rightarrow> int \<Rightarrow> u32 \<Rightarrow> nat \<Rightarrow> context_t \<Rightarrow> u32 \<Rightarrow> 'a kernel_scheme \<Rightarrow>
   (context_t \<times> u32 \<times> 'a kernel_scheme) option" where
  [code]: "ipc_call_loop spawn client call_id arg serv_pid serv_uuid sv ctx uid k =
     (case ipc_call_pass spawn client call_id arg sv ctx uid k of
        Inl r \<Rightarrow> Some r
      | Inr (ctx, uid, k) \<Rightarrow>
        (case proc_get k serv_pid of
           None \<Rightarrow> Some (ret IPC_ERROR_NO_READY ctx, uid, k)
         | Some sv \<Rightarrow>
           (case server_of k sv of None \<Rightarrow> Some (ret IPC_ERROR_NO_READY ctx, uid, k)
            | Some s \<Rightarrow>
              if p_uuid (the_proc k sv) \<noteq> serv_uuid \<or> \<not> is_multi_task s then Some (ret IPC_ERROR_NO_READY ctx, uid, k)
              else if is_disabled s then
                (case proc_ipc_wait (ret IPC_ERROR_RETRY ctx) sv client k of
                   (r, ctx, k) \<Rightarrow> if r = 0 then Some (ctx, uid, k)
                     else ipc_call_loop spawn client call_id arg serv_pid serv_uuid sv ctx uid k)
              else ipc_call_loop spawn client call_id arg serv_pid serv_uuid sv ctx uid k)))"

text \<open>A call to a server that runs its handler in its own context.\<close>

definition ipc_call_single ::
  "nat \<Rightarrow> int \<Rightarrow> uproto option \<Rightarrow> nat \<Rightarrow> context_t \<Rightarrow> u32 \<Rightarrow> 'a kernel_scheme \<Rightarrow> context_t \<times> u32 \<times> 'a kernel_scheme" where
  "ipc_call_single client call_id arg sv ctx uid k =
     (if pi_state (sp_interrupt (the (proc_space_of k sv))) \<noteq> INTR_STATE_IDLE
      then (let (_, ctx, k) = proc_interrupt_wait (ret IPC_ERROR_RETRY ctx) sv client k in (ctx, uid, k))
      else case proc_ipc_req uid sv client call_id arg k of
        (None, uid, k) \<Rightarrow> (let (_, ctx, k) = proc_ipc_wait (ret IPC_ERROR_RETRY ctx) sv client k in (ctx, uid, k))
      | (Some t, uid, k) \<Rightarrow>
        let k = res_busy client k;
            ctx = set_gpr 0 (ucast (it_uid (task_at k sv t))) ctx in
        if proc_ipc_get_task k sv = Some t
        then (let (_, ctx, k) = proc_ipc_do_task ctx sv (p_core (the_proc k client)) k in (ctx, uid, k))
        else (ctx, uid, k))"

definition proc_ipc_call ::
  "'a spawn_op \<Rightarrow> context_t \<Rightarrow> int \<Rightarrow> int \<Rightarrow> uproto option \<Rightarrow> u32 \<Rightarrow> 'a kernel_scheme \<Rightarrow> (context_t \<times> u32 \<times> 'a kernel_scheme) option" where
  "proc_ipc_call spawn ctx serv_pid0 call_id arg uid k =
     (let ctx = ret 0 ctx in
      case get_current_proc k of None \<Rightarrow> Some (ret IPC_ERROR_NO_READY ctx, uid, k)
      | Some client \<Rightarrow>
        if \<not> user_proto_ok k (Some client) arg then Some (ret IPC_ERROR_NO_READY ctx, uid, k)
        else
          let serv_pid = get_proc_pid k serv_pid0 in
          if p_pid (the_proc k client) = serv_pid then Some (ret IPC_ERROR_SELF ctx, uid, k)
          else case proc_get k serv_pid of None \<Rightarrow> Some (ret IPC_ERROR_NO_READY ctx, uid, k)
          | Some sv \<Rightarrow>
            (case server_of k sv of None \<Rightarrow> Some (ctx, uid, k\<lparr>halted := True\<rparr>)
             | Some s \<Rightarrow>
               if is_entry s = 0 then Some (ret IPC_ERROR_NO_READY ctx, uid, k)
               else if p_space (the_proc k client) \<noteq> None \<and> p_space (the_proc k client) = p_space (the_proc k sv)
               then Some (ret IPC_ERROR_SELF ctx, uid, k)
               else if is_disabled s
               then (let (_, ctx, k) = proc_ipc_wait (ret IPC_ERROR_RETRY ctx) sv client k in Some (ctx, uid, k))
               else if serv_has s IPC_CAP_CHECK \<and> \<not> proc_cap_check_ep k (Some client) serv_pid CAP_X
               then Some (ret IPC_ERROR_NO_READY ctx, uid, k)
               else if is_multi_task s
               then ipc_call_loop spawn client call_id arg serv_pid (p_uuid (the_proc k sv)) sv ctx uid k
               else Some (ipc_call_single client call_id arg sv ctx uid k)))"

section \<open>SYS_IPC_END\<close>

definition set_idle :: "u32 \<Rightarrow> nat \<Rightarrow> nat \<Rightarrow> 'a kernel_scheme \<Rightarrow> 'a kernel_scheme" where
  "set_idle uptime_sec sv w k = (case member_index k sv w of None \<Rightarrow> k
     | Some n \<Rightarrow> upd_pool sv n (\<lambda>e. e\<lparr>pw_idle_sec := uptime_sec\<rparr>) k)"

text \<open>What \<open>proc_ipc_pool_park\<close> does after it has switched away: a member marked by the idle sweep
  leaves, any other gets its frame re-armed at the server's entry.\<close>

definition park_rearm :: "context_t \<Rightarrow> nat \<Rightarrow> nat \<Rightarrow> 'a kernel_scheme \<Rightarrow> context_t \<times> 'a kernel_scheme" where
  "park_rearm ctx w sv k =
     (let s = the (server_of k sv);
          uid = (case p_ipc_task (the_proc k w) of None \<Rightarrow> 0 | Some t \<Rightarrow> it_uid (is_tasks s ! t));
          k = upd_proc w (\<lambda>p. p\<lparr>p_ctx := enter_worker s uid p (p_ctx p)\<rparr>) k in
      if get_current_proc k = Some w
      then (enter_worker s uid (the_proc k w) ctx, proc_account_resume_current k)
      else (ctx, k))"

definition park_finish :: "'a exit_op \<Rightarrow> context_t \<Rightarrow> nat \<Rightarrow> nat \<Rightarrow> 'a kernel_scheme \<Rightarrow> context_t \<times> 'a kernel_scheme" where
  "park_finish pexit ctx w sv k =
     (case member_index k sv w of
        None \<Rightarrow> park_rearm ctx w sv k
      | Some n \<Rightarrow>
        if pw_quit (pool_of k sv ! n)
        then pexit ctx w 0 (snd (proc_ipc_wakeup sv (upd_pool sv n (\<lambda>_. zero_pool_worker) k)))
        else park_rearm ctx w sv k)"

definition proc_ipc_pool_park ::
  "'a exit_op \<Rightarrow> u32 \<Rightarrow> context_t \<Rightarrow> nat \<Rightarrow> nat \<Rightarrow> nat option \<Rightarrow> 'a kernel_scheme \<Rightarrow> context_t \<times> 'a kernel_scheme" where
  "proc_ipc_pool_park pexit uptime_sec ctx w sv wake_client k =
     (if proc_space_of k sv = None then (ctx, k)
      else
        let k = upd_proc w (\<lambda>p. p\<lparr>p_block_by := 0, p_wake_by := 0, p_wake_pending := False\<rparr>) k;
            k = proc_unready_locked w BLOCK k;
            k = set_idle uptime_sec sv w k;
            k = snd (proc_ipc_wakeup sv k);
            k = (case wake_client of None \<Rightarrow> k | Some c \<Rightarrow> proc_wakeup c k);
            k = (if get_current_proc k = Some w then proc_account_pause_current k else k);
            (ctx, k) = (case wake_client of
                Some c \<Rightarrow> if p_core (the_proc k c) = core_id k \<and> p_state (the_proc k c) = READY
                  then proc_switch ctx c True k else schedule ctx k
              | None \<Rightarrow> schedule ctx k)
        in park_finish pexit ctx w sv k)"

definition thread_stack_free :: "nat \<Rightarrow> u64 \<Rightarrow> 'a kernel_scheme \<Rightarrow> 'a kernel_scheme" where
  "thread_stack_free i base k =
     (case proc_space_of k i of None \<Rightarrow> k
      | Some sp \<Rightarrow> (case sp_thread_stacks sp of None \<Rightarrow> k
        | Some sts \<Rightarrow> (case find_index (\<lambda>x. ts_base x = base) sts of None \<Rightarrow> k
          | Some j \<Rightarrow> set_thread_stacks i (sts[j := \<lparr>ts_base = 0, ts_stacks = False\<rparr>]) k)))"

definition ipc_end_multi :: "'a exit_op \<Rightarrow> u32 \<Rightarrow> context_t \<Rightarrow> nat \<Rightarrow> nat \<Rightarrow> 'a kernel_scheme \<Rightarrow> context_t \<times> 'a kernel_scheme" where
  "ipc_end_multi pexit uptime_sec ctx w sv k =
     (let ipc = p_ipc_task (the_proc k w);
          k = upd_proc w (\<lambda>p. p\<lparr>p_ipc_task := None\<rparr>) k;
          member = ipc_pool_is_member k sv w in
      case ipc of
        Some t \<Rightarrow>
          let (client, wake, k) = proc_ipc_finish_task sv w t k in
          if member then proc_ipc_pool_park pexit uptime_sec ctx w sv (if wake then client else None) k
          else
            let k = (if p_thread_stack_base (the_proc k w) \<noteq> 0
                     then upd_proc w (\<lambda>p. p\<lparr>p_thread_stack_base := 0\<rparr>) (thread_stack_free w (p_thread_stack_base (the_proc k w)) k)
                     else k);
                k = snd (proc_ipc_wakeup sv k);
                k = (case client of Some c \<Rightarrow> if wake then proc_wakeup c k else k | None \<Rightarrow> k)
            in pexit ctx w 0 k
      | None \<Rightarrow>
          if member then proc_ipc_pool_park pexit uptime_sec ctx w sv None k
          else if p_type (the_proc k w) = TASK_TYPE_THREAD then pexit ctx w 0 k
          else (ctx, k))"

definition ipc_end_single :: "context_t \<Rightarrow> nat \<Rightarrow> 'a kernel_scheme \<Rightarrow> context_t \<times> 'a kernel_scheme" where
  "ipc_end_single ctx0 sv k =
     (case proc_ipc_get_task k sv of None \<Rightarrow> (ctx0, k)
      | Some t \<Rightarrow>
        let x = task_at k sv t;
            client = proc_ipc_get_client k x;
            wake = \<not> call_has (it_call_id x) IPC_NON_RETURN;
            throughput = serv_has (the (server_of k sv)) IPC_NON_BLOCK;
            k = upd_server sv (\<lambda>s. s\<lparr>is_restore_pending := False\<rparr>) k;
            (ctx, k) = ipc_restore sv k;
            k = (if p_state (the_proc k sv) = BLOCK then upd_proc sv (\<lambda>p. p\<lparr>p_state := READY\<rparr>) k else k);
            k = (if p_state (the_proc k sv) = READY \<or> p_state (the_proc k sv) = RUNNING then proc_ready sv k else k);
            k = proc_ipc_close sv t k;
            k = snd (proc_ipc_wakeup sv k);
            next_ipc = proc_ipc_get_task k sv;
            wk = (wake \<and> (case client of None \<Rightarrow> False
                    | Some c \<Rightarrow> p_state (the_proc k c) \<noteq> UNUSED \<and> p_state (the_proc k c) \<noteq> ZOMBIE));
            k = (if wk then proc_wakeup (the client) k else k) in
        if wk \<and> \<not> throughput \<and> next_ipc = None \<and> p_core (the_proc k (the client)) = p_core (the_proc k sv)
        then proc_switch_multi_core ctx (the client) (p_core (the_proc k sv)) k
        else if next_ipc \<noteq> None then snd (proc_ipc_do_task ctx sv (p_core (the_proc k sv)) k)
        else schedule ctx k)"

definition proc_ipc_end :: "'a exit_op \<Rightarrow> u32 \<Rightarrow> context_t \<Rightarrow> 'a kernel_scheme \<Rightarrow> context_t \<times> 'a kernel_scheme" where
  "proc_ipc_end pexit uptime_sec ctx k =
     (case get_current_proc k of None \<Rightarrow> (ctx, k)
      | Some c \<Rightarrow>
        (case proc_get_proc k (Some c) of None \<Rightarrow> (ctx, k)
         | Some sv \<Rightarrow>
           (case server_of k sv of None \<Rightarrow> (ctx, k)
            | Some s \<Rightarrow>
              if is_entry s = 0 then (ctx, k)
              else if is_multi_task s then ipc_end_multi pexit uptime_sec ctx c sv k
              else ipc_end_single ctx sv k)))"

end
