(* ===== verification/Ipc_Frame.thy ===== *)
theory Ipc_Frame
  imports Ipc_Ring Ipc_Pool Switch_Frame
begin

text \<open>
  What the wakes inside the ipc calls leave alone: the executing core and its current task, the
  identity and liveness of every task, its registers and its reply slot, and of every address space
  the handler flags, the reply slot of its interrupt handler and its server but for the saved state
  and the wait queue.
\<close>

definition core_server :: "ipc_server \<Rightarrow> ipc_server" where
  "core_server s = s\<lparr>is_saved_state := zero_saved_state, is_wait_queue := []\<rparr>"

definition space_view :: "proc_space \<Rightarrow> (intr_st \<times> bool \<times> bool \<times> bool \<times> bool) \<times> ipc_res \<times> ipc_server" where
  "space_view sp = (hview (handlers sp), pi_ipc_res (sp_interrupt sp), core_server (sp_ipc_server sp))"

definition spaces_view ::
  "'a kernel_scheme \<Rightarrow> nat option \<Rightarrow> ((intr_st \<times> bool \<times> bool \<times> bool \<times> bool) \<times> ipc_res \<times> ipc_server) option" where
  "spaces_view k s = map_option space_view (space_at k s)"

definition lives :: "'a kernel_scheme \<Rightarrow> nat \<Rightarrow> bool option" where
  "lives k i = map_option (\<lambda>p. live_state (p_state p)) (slot k i)"

definition quiet :: "'a kernel_scheme \<Rightarrow> 'a kernel_scheme \<Rightarrow> bool" where
  "quiet k' k \<longleftrightarrow> here k' = here k \<and> statics k' = statics k \<and> lives k' = lives k \<and>
     (\<forall>i. reg_of (the_proc k' i) = reg_of (the_proc k i)) \<and> spaces_view k' = spaces_view k"

lemma quiet_refl [simp]: "quiet k k"
  by (simp add: quiet_def)

lemma quiet_trans [trans]: "quiet k2 k1 \<Longrightarrow> quiet k1 k \<Longrightarrow> quiet k2 k"
  by (simp add: quiet_def)

lemma spaces_view_upd_space:
  "spaces_view (upd_space s g k) t
   = (if s \<noteq> None \<and> t = s then map_option (\<lambda>sp. space_view (g sp)) (space_at k s) else spaces_view k t)"
  by (auto simp: spaces_view_def space_at_def upd_space_def option.map_comp comp_def split: option.splits)

lemma spaces_view_same: "(\<And>sp. space_view (g sp) = space_view sp) \<Longrightarrow> spaces_view (upd_space s g k) = spaces_view k"
  by (rule ext) (simp add: spaces_view_upd_space, simp add: spaces_view_def)

lemma spaces_view_cong: "spaces k' = spaces k \<Longrightarrow> spaces_view k' = spaces_view k"
  by (rule ext) (simp add: spaces_view_def space_at_def split: option.split)

lemma spaces_view_simps [simp]:
  "spaces_view (upd_proc i f k) = spaces_view k" "spaces_view (proc_ready_with_order i ph k) = spaces_view k"
  "spaces_view (wake_resched i k) = spaces_view k"
  by (rule spaces_view_cong; simp)+

lemma lives_upd:
  "(\<And>p. live_state (p_state (f p)) = live_state (p_state p)) \<Longrightarrow> lives (upd_proc i f k) = lives k"
  by (rule ext) (auto simp: lives_def slot_upd_proc option.map_comp comp_def)

lemma quiet_upd_proc:
  assumes "\<And>p. static_of (f p) = static_of p" "\<And>p. reg_of (f p) = reg_of p"
    and "\<And>p. live_state (p_state (f p)) = live_state (p_state p)"
  shows "quiet (upd_proc i f k) k"
  using assms by (simp add: quiet_def lives_upd)

lemma lives_upd_space [simp]: "lives (upd_space s g k) = lives k"
  by (rule ext) (simp add: lives_def)

lemma quiet_upd_space: "(\<And>sp. space_view (g sp) = space_view sp) \<Longrightarrow> quiet (upd_space s g k) k"
  by (simp add: quiet_def spaces_view_same)

lemma live_simps [simp]: "live_state READY" "live_state BLOCK" "live_state RUNNING" "live_state SLEEPING" "live_state WAIT"
  by (simp_all add: live_state_def)

lemma quiet_ready:
  assumes "lives k i \<noteq> Some False"
  shows "quiet (proc_ready_with_order i ph k) k"
proof -
  have "lives (proc_ready_with_order i ph k) = lives k"
    using assms by (cases "slot k i") (auto simp: lives_def slot_ready_with_order readied_def fun_eq_iff)
  then show ?thesis by (simp add: quiet_def reg_ready)
qed

lemma quiet_wakeup_all:
  assumes "lives k i \<noteq> Some False"
  shows "quiet (proc_wakeup_all_state i k) k"
proof (cases "proc_space_of k i")
  case (Some sp)
  show ?thesis unfolding proc_wakeup_all_state_def Some option.case Let_def
    by (rule quiet_trans [OF quiet_upd_space quiet_ready [OF assms]])
      (simp add: space_view_def hview_def handlers_def core_server_def)
qed (simp add: proc_wakeup_all_state_def)

lemma quiet_cancel_wait: "quiet (proc_ipc_cancel_wait i k) k"
proof -
  have u: "quiet (upd_proc i (\<lambda>p. p\<lparr>p_wait_item_queued := False\<rparr>) k) k" "quiet (upd_proc i (\<lambda>p. p\<lparr>p_ipc_waiting_on := None\<rparr>) k) k"
    for k :: "'a kernel_scheme" by (rule quiet_upd_proc; simp)+
  have s: "quiet (upd_space s (\<lambda>sp. sp\<lparr>sp_ipc_server := (sp_ipc_server sp)\<lparr>is_wait_queue := q sp\<rparr>\<rparr>) k) k"
    for k :: "'a kernel_scheme" and s q
    by (rule quiet_upd_space) (simp add: space_view_def hview_def handlers_def core_server_def)
  show ?thesis
    using quiet_trans [OF u(2) quiet_trans [OF u(1) s]] u(2)
    by (simp add: proc_ipc_cancel_wait_def Let_def split: option.split)
qed

lemma quiet_resched [simp]: "quiet (wake_resched i k) k"
  by (simp add: quiet_def) (simp add: wake_resched_def Let_def lives_def the_proc_def slot_def fun_eq_iff)

lemma lives_quiet: "quiet k' k \<Longrightarrow> lives k' = lives k"
  by (simp add: quiet_def)

lemma quiet_wakeup [simp]: "quiet (proc_wakeup i k) k"
proof (cases "lives k i \<noteq> Some False")
  case True
  let ?k = "proc_ipc_cancel_wait i k"
  have c: "quiet ?k k" by (rule quiet_cancel_wait)
  have l: "lives ?k i \<noteq> Some False" using True lives_quiet [OF c] by simp
  let ?w = "upd_proc i (\<lambda>p. p\<lparr>p_block_by := 0, p_sleep_counter := 0, p_wake_by := 0, p_wake_pending := False\<rparr>) ?k"
  have w: "quiet ?w ?k" by (rule quiet_upd_proc) simp_all
  have lw: "lives ?w i \<noteq> Some False" using l lives_quiet [OF w] by simp
  have la: "quiet (upd_proc i (latch_wake 0) k) k" for k :: "'a kernel_scheme" by (rule quiet_upd_proc) simp_all
  show ?thesis unfolding proc_wakeup_def proc_wakeup_by_def Let_def
    using quiet_trans [OF quiet_resched quiet_trans [OF quiet_wakeup_all [OF lw] quiet_trans [OF w c]]]
      quiet_trans [OF quiet_resched quiet_trans [OF la quiet_trans [OF quiet_wakeup_all [OF l] c]]] c by simp
next
  case False
  then show ?thesis
    by (cases "slot k i") (auto simp: lives_def live_state_def the_proc_def proc_wakeup_def proc_wakeup_by_def)
qed

lemma quiet_waitq_pop: "quiet (snd (ipc_waitq_pop sv k)) k"
proof -
  have u: "quiet (upd_proc i (\<lambda>p. p\<lparr>p_wait_item_queued := False\<rparr>) k) k" for i and k :: "'a kernel_scheme" by (rule quiet_upd_proc) simp_all
  have s: "quiet (upd_server sv (\<lambda>s. s\<lparr>is_wait_queue := q\<rparr>) k) k" for q
    unfolding upd_server_def by (rule quiet_upd_space) (simp add: space_view_def hview_def handlers_def core_server_def)
  show ?thesis unfolding ipc_waitq_pop_def by (auto split: option.split list.split intro: quiet_trans [OF u s])
qed

lemma quiet_clear_server: "quiet (ipc_wait_item_clear_server it sv k) k"
proof (cases it)
  case (Some x)
  show ?thesis unfolding ipc_wait_item_clear_server_def Some option.case by (rule quiet_upd_proc) simp_all
qed (simp add: ipc_wait_item_clear_server_def)

lemma wake_loop_cases:
  assumes "ipc_waitq_pop sv k = (it, k1)" "b \<noteq> 0"
  shows "\<exists>b' f'. ipc_wake_loop (Suc n) b sv f k = (f, ipc_wait_item_clear_server it sv k1) \<or>
    ipc_wake_loop (Suc n) b sv f k = ipc_wake_loop n b sv f (ipc_wait_item_clear_server it sv k1) \<or>
    (\<exists>i. ipc_wake_loop (Suc n) b sv f k = ipc_wake_loop n b' sv f' (proc_wakeup i (ipc_wait_item_clear_server it sv k1)))"
  using assms by (auto simp: Let_def split: option.split)

lemma quiet_wake_loop: "quiet (snd (ipc_wake_loop n b sv f k)) k"
proof (induction n arbitrary: b f k)
  case (Suc n)
  obtain it k1 where p: "ipc_waitq_pop sv k = (it, k1)" by fastforce
  define k2 where "k2 = ipc_wait_item_clear_server it sv k1"
  have q: "quiet k2 k" unfolding k2_def using quiet_trans [OF quiet_clear_server quiet_waitq_pop [of sv k]] p by simp
  show ?case
  proof (cases "b = 0")
    case False
    from wake_loop_cases [OF p False, of n f] obtain b' f' i where
      "ipc_wake_loop (Suc n) b sv f k = (f, k2) \<or> ipc_wake_loop (Suc n) b sv f k = ipc_wake_loop n b sv f k2 \<or>
       ipc_wake_loop (Suc n) b sv f k = ipc_wake_loop n b' sv f' (proc_wakeup i k2)"
      unfolding k2_def by blast
    then show ?thesis using q quiet_trans [OF Suc.IH q] quiet_trans [OF Suc.IH quiet_trans [OF quiet_wakeup q]] by force
  qed simp
qed simp

lemma quiet_ipc_wakeup [simp]: "quiet (snd (proc_ipc_wakeup sv k)) k"
  by (simp add: proc_ipc_wakeup_def quiet_wake_loop del: ipc_wake_loop.simps split: option.split)

lemma quiet_fold_wakeup [simp]: "quiet (fold proc_wakeup cs k) k"
proof (induction cs arbitrary: k)
  case (Cons c cs)
  show ?case using quiet_trans [OF Cons.IH quiet_wakeup] by simp
qed simp

section \<open>What follows\<close>

lemma lives_proc_get:
  fixes k k' :: "'a kernel_scheme"
  assumes "lives k' = lives k"
  shows "proc_get k' = proc_get k"
proof -
  from assms have "lives k' i = lives k i" for i by simp
  moreover have "(\<exists>p. slot k i = Some p \<and> live_state (p_state p)) \<longleftrightarrow> lives k i = Some True" for i and k :: "'a kernel_scheme"
    by (auto simp: lives_def)
  ultimately have "(\<exists>p. slot k' i = Some p \<and> live_state (p_state p)) = (\<exists>p. slot k i = Some p \<and> live_state (p_state p))" for i
    by simp
  then show ?thesis by (auto simp: proc_get_alt fun_eq_iff)
qed

lemma quiet_proc_get: "quiet k' k \<Longrightarrow> proc_get k' = proc_get k"
  using lives_proc_get [of k' k] by (simp add: quiet_def)

lemma quiet_current: "quiet k' k \<Longrightarrow> get_current_proc k' = get_current_proc k"
  using quiet_proc_get [of k' k] by (simp add: get_current_proc_alt quiet_def here_def)

lemma view_of_spaces: "view_at k u = map_option fst (spaces_view k u)"
  by (simp add: view_at_def handlers_at_def spaces_view_def space_view_def option.map_comp comp_def)

lemma quiet_view: "quiet k' k \<Longrightarrow> view_at k' s = view_at k s"
  by (simp add: view_of_spaces quiet_def)

lemma quiet_server:
  assumes "quiet k' k" "slot k sv \<noteq> None"
  shows "map_option core_server (server_of k' sv) = map_option core_server (server_of k sv)"
proof -
  have p: "p_space (the_proc k' sv) = p_space (the_proc k sv)"
    using assms statics_projD [of k' k sv] by (simp add: quiet_def)
  have "spaces_view k' (p_space (the_proc k sv)) = spaces_view k (p_space (the_proc k sv))" using assms(1) by (simp add: quiet_def)
  then show ?thesis
    by (auto simp: server_of_def proc_space_of_def p spaces_view_def space_view_def map_option_case split: option.splits)
qed

section \<open>A switch to a task without a due handler\<close>

lemma switch_calm:
  assumes "get_current_proc k = Some c" "\<not> restoring k c" "c \<noteq> n" "slot k n \<noteq> None"
    and "calm k (p_space (the_proc k n))" "p_core (the_proc k n) = core_id k" "p_pid (the_proc k n) = int n"
    and "proc_switch ctx n True k = (ctx', k')"
  shows "get_current_proc k' = Some n" "ctx' = p_ctx (the_proc k n)" "spaces k' = spaces k" "statics k' = statics k"
    "reg_of (the_proc k' n) = reg_of (the_proc k n)" "reg_of (the_proc k' c) = (ctx, p_ipc_res (the_proc k c))"
proof -
  define f where "f = switch_activate (Some c) n (upd_proc c (\<lambda>p. p\<lparr>p_ctx := ctx\<rparr>) (proc_queue_remove_all n k))"
  have sf: "spaces f = spaces k" "p_space (the_proc f n) = p_space (the_proc k n)"
    by (simp_all add: f_def the_proc_upd_field [of p_space])
  have "calm f (p_space (the_proc f n))" using assms(5) unfolding sf calm_def handlers_at_cong [OF sf(1)] .
  then have swd: "switched ctx n k = f" using switched_plain [OF assms(1,2), of ctx n] inject_calm [of f n] by (simp add: f_def)
  have k': "k' = snd (proc_switch ctx n True k)" "ctx' = fst (proc_switch ctx n True k)" using assms(8) by simp_all
  have pr: "present (statics k) n" "slot k c \<noteq> None" using assms(4) current_present [OF assms(1)] by (simp_all add: present_slot)
  show "get_current_proc k' = Some n" using current_after_switch [OF pr(1) assms(6,7), of ctx True] unfolding k'(1) ..
  show "spaces k' = spaces k" unfolding k'(1) proc_switch_frame(1) swd sf(1) ..
  show "statics k' = statics k" unfolding k'(1) by (simp add: proc_switch_def Let_def case_prod_beta split: option.split)
  have rk: "reg_of (the_proc k' j) = reg_of (the_proc f j)" for j unfolding k'(1) proc_switch_frame(2) swd ..
  have rn: "reg_of (the_proc f n) = reg_of (the_proc k n)" using assms(3) by (simp add: f_def)
  then show "reg_of (the_proc k' n) = reg_of (the_proc k n)" by (simp add: rk)
  show "reg_of (the_proc k' c) = (ctx, p_ipc_res (the_proc k c))" using pr(2) unfolding rk by (simp add: f_def reg_of_def)
  show "ctx' = p_ctx (the_proc k n)" using rn by (simp add: k'(2) proc_switch_frame(3) swd reg_of_def)
qed

end
