(* ===== verification/Ipc_Reply.thy ===== *)
theory Ipc_Reply
  imports Ipc_Frame
begin

text \<open>
  The way of a reply: the server publishes it, ends the request and is put back where the request
  found it; the client runs again with its own registers and collects the bytes.
\<close>

section \<open>The end of a request\<close>

lemma the_proc_const: "slot k i \<noteq> None \<Longrightarrow> the_proc (upd_proc i (\<lambda>_. p) k) i = p"
  by simp

lemma snapshot_copy [simp]: "ipc_res_snapshot_copy d r = r"
  by (cases r) (simp add: ipc_res_snapshot_copy_def ipc_res_snapshot_clear_def Let_def)

text \<open>The server is put back: what \<open>proc_ipc_end\<close> does before it closes the request.\<close>

definition end_restored :: "nat \<Rightarrow> 'a kernel_scheme \<Rightarrow> context_t \<times> 'a kernel_scheme" where
  "end_restored sv k =
     (let k = upd_server sv (\<lambda>s. s\<lparr>is_restore_pending := False\<rparr>) k;
          (ctx, k) = ipc_restore sv k;
          k = (if p_state (the_proc k sv) = BLOCK then upd_proc sv (\<lambda>p. p\<lparr>p_state := READY\<rparr>) k else k)
      in (ctx, if p_state (the_proc k sv) = READY \<or> p_state (the_proc k sv) = RUNNING then proc_ready sv k else k))"

lemma upd_server_frame [simp]:
  "the_proc (upd_server sv f k) i = the_proc k i" "slot (upd_server sv f k) i = slot k i" "here (upd_server sv f k) = here k"
  "statics (upd_server sv f k) = statics k" "lives (upd_server sv f k) = lives k"
  by (simp_all add: upd_server_def)

lemma server_of_upd_proc [simp]:
  "(\<And>p. p_space (f p) = p_space p) \<Longrightarrow> server_of (upd_proc i f k) j = server_of k j"
  by (simp add: server_of_def proc_space_of_def the_proc_upd_field [of p_space] space_at_def split: option.split)

lemma upd_proc_at: "f (the_proc k i) = g (the_proc k i) \<Longrightarrow> upd_proc i f k = upd_proc i g k"
  by (cases "slot k i") (simp_all add: upd_proc_def the_proc_def)

lemma proc_space_of_cong:
  assumes "spaces k' = spaces k" "statics k' = statics k" "slot k j \<noteq> None"
  shows "proc_space_of k' j = proc_space_of k j"
  using statics_projD(6) [OF assms(2,3)] assms(1) by (simp add: proc_space_of_def space_at_def split: option.split)

definition unsaved :: "ipc_server \<Rightarrow> ipc_server" where
  "unsaved s = s\<lparr>is_restore_pending := False, is_saved_state := zero_saved_state,
     is_saved_ipc_res := ipc_res_snapshot_clear (is_saved_ipc_res s)\<rparr>"

lemma end_restored_frame:
  assumes "server_of k sv = Some s" "slot k sv \<noteq> None" "live_state (ss_state (is_saved_state s))"
    and "end_restored sv k = (ctx, k')"
  shows "ctx = ss_ctx (is_saved_state s)" "here k' = here k" "statics k' = statics k"
    and "lives k' j = (if j = sv then Some True else lives k j)"
    and "reg_of (the_proc k' j) = (if j = sv then (p_ctx (the_proc k sv), is_saved_ipc_res s) else reg_of (the_proc k j))"
    and "server_of k' sv = Some (unsaved s)"
    and "t \<noteq> p_space (the_proc k sv) \<Longrightarrow> spaces_view k' t = spaces_view k t"
    and "map_option sp_interrupt (proc_space_of k' sv) = map_option sp_interrupt (proc_space_of k sv)"
proof -
  define st where "st = ss_state (is_saved_state s)"
  define f where "f p = p\<lparr>p_state := st, p_sleep_counter := uint (ss_sleep_counter (is_saved_state s)), p_ipc_res := is_saved_ipc_res s\<rparr>" for p :: proc
  define k1 where "k1 = upd_server sv (\<lambda>x. x\<lparr>is_saved_state := zero_saved_state, is_saved_ipc_res := ipc_res_snapshot_clear (is_saved_ipc_res s)\<rparr>)
     (upd_proc sv f (upd_server sv (\<lambda>s. s\<lparr>is_restore_pending := False\<rparr>) k))"
  have r: "ipc_restore sv (upd_server sv (\<lambda>s. s\<lparr>is_restore_pending := False\<rparr>) k) = (ss_ctx (is_saved_state s), k1)"
    unfolding ipc_restore_def k1_def by (simp add: assms(1) proc_restore_state_def case_prod_beta)
      (rule arg_cong [where f = "upd_server sv _"], rule upd_proc_at, simp add: f_def st_def)
  have p1: "the_proc k1 sv = f (the_proc k sv)" "slot k1 sv \<noteq> None" using assms(2) by (simp_all add: k1_def)
  define k2 where "k2 = (if st = BLOCK then upd_proc sv (\<lambda>p. p\<lparr>p_state := READY\<rparr>) k1 else k1)"
  have k': "ctx = ss_ctx (is_saved_state s)" "k' = (if p_state (the_proc k2 sv) \<in> {READY, RUNNING} then proc_ready sv k2 else k2)"
    using assms(4) p1 by (auto simp: end_restored_def Let_def r k2_def f_def)
  have s1: "server_of k1 sv = Some (unsaved s)" using assms(1)
    by (simp add: k1_def f_def) (simp add: unsaved_def)
  have sp1: "t \<noteq> p_space (the_proc k sv) \<Longrightarrow> spaces_view k1 t = spaces_view k t" for t
    by (simp add: k1_def upd_server_def spaces_view_upd_space f_def the_proc_upd_field [of p_space])
  show "ctx = ss_ctx (is_saved_state s)" by (rule k'(1))
  have b: "here k1 = here k" "statics k1 = statics k" by (simp_all add: k1_def f_def)
  show "here k' = here k" "statics k' = statics k" by (simp_all add: k'(2) k2_def b)
  have l2: "lives k2 j = (if j = sv then Some True else lives k j)" for j
    using p1 assms(2,3) by (auto simp: k2_def k1_def lives_def f_def st_def slot_upd_proc)
  then show "lives k' j = (if j = sv then Some True else lives k j)" for j
    using lives_quiet [OF quiet_ready [of k2 sv False]] by (simp add: k'(2) proc_ready_def)
  have "reg_of (the_proc k2 j) = (if j = sv then (p_ctx (the_proc k sv), is_saved_ipc_res s) else reg_of (the_proc k j))"
    using p1 assms(2) by (auto simp: k2_def k1_def) (simp_all add: reg_of_def f_def)
  then show "reg_of (the_proc k' j) = (if j = sv then (p_ctx (the_proc k sv), is_saved_ipc_res s) else reg_of (the_proc k j))"
    by (auto simp: k'(2) proc_ready_def reg_ready)
  have sl2: "slot k2 sv \<noteq> None" using p1(2) by (simp add: k2_def)
  have sp2: "proc_space_of (proc_ready sv k2) sv = proc_space_of k2 sv"
    by (rule proc_space_of_cong [OF _ _ sl2]) (simp_all add: proc_ready_def)
  then have "server_of (proc_ready sv k2) sv = server_of k2 sv" by (simp add: server_of_def)
  then show "server_of k' sv = Some (unsaved s)" using s1 by (simp add: k'(2) k2_def)
  show "t \<noteq> p_space (the_proc k sv) \<Longrightarrow> spaces_view k' t = spaces_view k t"
    using sp1 by (simp add: k'(2) k2_def proc_ready_def)
  show "map_option sp_interrupt (proc_space_of k' sv) = map_option sp_interrupt (proc_space_of k sv)"
  proof -
    have "map_option sp_interrupt (proc_space_of (upd_server sv g k) sv) = map_option sp_interrupt (proc_space_of k sv)"
      for g and k :: "'a kernel_scheme"
      by (auto simp: upd_server_def proc_space_of_def space_at_def upd_space_def option.map_comp comp_def the_proc_def slot_def
          split: option.split)
    moreover have "proc_space_of (upd_proc sv g k) sv = proc_space_of k sv" if "\<And>p. p_space (g p) = p_space p"
      for g and k :: "'a kernel_scheme"
      using that by (simp add: proc_space_of_def the_proc_upd_field [of p_space] space_at_def split: option.split)
    ultimately have "map_option sp_interrupt (proc_space_of k2 sv) = map_option sp_interrupt (proc_space_of k sv)"
      by (simp add: k2_def k1_def f_def)
    then show ?thesis by (simp add: k'(2) sp2)
  qed
qed

lemma ipc_end_single_alt:
  "ipc_end_single ctx0 sv k =
     (case proc_ipc_get_task k sv of None \<Rightarrow> (ctx0, k)
      | Some t \<Rightarrow>
        let x = task_at k sv t;
            client = proc_ipc_get_client k x;
            wake = \<not> call_has (it_call_id x) IPC_NON_RETURN;
            throughput = serv_has (the (server_of k sv)) IPC_NON_BLOCK;
            (ctx, k) = end_restored sv k;
            k = snd (proc_ipc_wakeup sv (proc_ipc_close sv t k));
            next_ipc = proc_ipc_get_task k sv;
            wk = (wake \<and> (case client of None \<Rightarrow> False
                    | Some c \<Rightarrow> p_state (the_proc k c) \<noteq> UNUSED \<and> p_state (the_proc k c) \<noteq> ZOMBIE));
            k = (if wk then proc_wakeup (the client) k else k) in
        if wk \<and> \<not> throughput \<and> next_ipc = None \<and> p_core (the_proc k (the client)) = p_core (the_proc k sv)
        then proc_switch_multi_core ctx (the client) (p_core (the_proc k sv)) k
        else if next_ipc \<noteq> None then snd (proc_ipc_do_task ctx sv (p_core (the_proc k sv)) k)
        else schedule ctx k)"
  unfolding ipc_end_single_def end_restored_def Let_def case_prod_beta fst_conv snd_conv ..

lemma close_frame:
  "here (proc_ipc_close sv t k) = here k" "statics (proc_ipc_close sv t k) = statics k" "lives (proc_ipc_close sv t k) = lives k"
  "the_proc (proc_ipc_close sv t k) j = the_proc k j"
  "u \<noteq> p_space (the_proc k sv) \<Longrightarrow> spaces_view (proc_ipc_close sv t k) u = spaces_view k u"
  "view_at (proc_ipc_close sv t k) u = view_at k u"
proof -
  have q: "here (k\<lparr>ipc_timeout_queue := x\<rparr>) = here k" "statics (k\<lparr>ipc_timeout_queue := x\<rparr>) = statics k"
    "lives (k\<lparr>ipc_timeout_queue := x\<rparr>) = lives k" "the_proc (k\<lparr>ipc_timeout_queue := x\<rparr>) j = the_proc k j"
    "spaces_view (k\<lparr>ipc_timeout_queue := x\<rparr>) u = spaces_view k u" "view_at (k\<lparr>ipc_timeout_queue := x\<rparr>) u = view_at k u"
    for k :: "'a kernel_scheme" and x
    by (simp_all add: lives_def slot_def fun_eq_iff the_proc_def spaces_view_def space_at_def view_at_def handlers_at_def split: option.split)
  have c: "is_do_switch (close_slot t s) = is_do_switch s" "is_restore_pending (close_slot t s) = is_restore_pending s" for s
    by (simp_all add: close_slot_def ipc_free_def upd_task_def ipc_taskq_pop_head_def Let_def)
  have v: "view_at (upd_server sv (close_slot t) k) u = view_at k u" for k :: "'a kernel_scheme"
    unfolding upd_server_def by (rule view_upd_space) (simp add: hview_def handlers_def c)
  have s: "u \<noteq> p_space (the_proc k sv) \<Longrightarrow> spaces_view (upd_server sv (close_slot t) k) u = spaces_view k u" for k :: "'a kernel_scheme"
    by (simp add: upd_server_def spaces_view_upd_space)
  note defs = proc_ipc_close_def retrack_def proc_track_ipc_timeout_def proc_untrack_ipc_timeout_def
  show "here (proc_ipc_close sv t k) = here k" "statics (proc_ipc_close sv t k) = statics k" "lives (proc_ipc_close sv t k) = lives k"
    "the_proc (proc_ipc_close sv t k) j = the_proc k j" "view_at (proc_ipc_close sv t k) u = view_at k u"
    by (simp_all add: defs q v)
  assume "u \<noteq> p_space (the_proc k sv)"
  then show "spaces_view (proc_ipc_close sv t k) u = spaces_view k u" by (simp add: defs q s)
qed

lemma current_lives: "here k' = here k \<Longrightarrow> lives k' = lives k \<Longrightarrow> get_current_proc k' = get_current_proc k"
  by (rule get_current_cong) (simp_all add: here_def lives_def fun_eq_iff)

lemma ring_unsaved: "ring_ok s \<Longrightarrow> ring_ok (unsaved s)" "ring_items (unsaved s) = ring_items s"
  "is_task_head (unsaved s) = is_task_head s"
  by (simp_all add: ring_ok_def ring_items_def unsaved_def)

text \<open>The end of the only request of a server, out of the server's own context: the client on the
  same core runs next.\<close>

lemma end_single_returns:
  assumes cur: "get_current_proc k = Some sv" and srv: "server_of k sv = Some s" "ring_ok s" "ring_items s = [x]"
    and x: "\<not> call_has (it_call_id x) IPC_NON_RETURN" "\<not> serv_has s IPC_NON_BLOCK" "proc_ipc_get_client k x = Some cl"
    and saved: "live_state (ss_state (is_saved_state s))"
      "\<And>sp. proc_space_of k sv = Some sp \<Longrightarrow> \<not> pi_restore_pending (sp_interrupt sp)"
    and cl: "p_pid (the_proc k cl) = int cl" "p_core (the_proc k cl) = core_id k" "p_core (the_proc k sv) = core_id k"
      "p_space (the_proc k cl) \<noteq> p_space (the_proc k sv)" "calm k (p_space (the_proc k cl))"
    and r: "ipc_end_single ctx0 sv k = (ctx', k')"
  shows "get_current_proc k' = Some cl \<and> ctx' = p_ctx (the_proc k cl) \<and> statics k' = statics k \<and>
    p_ipc_res (the_proc k' cl) = p_ipc_res (the_proc k cl) \<and>
    p_ctx (the_proc k' sv) = ss_ctx (is_saved_state s) \<and> p_ipc_res (the_proc k' sv) = is_saved_ipc_res s \<and>
    view_at k' (p_space (the_proc k cl)) = view_at k (p_space (the_proc k cl)) \<and> pending sv k' = []"
proof -
  let ?t = "is_task_head s" and ?c = "p_space (the_proc k cl)" and ?v = "p_space (the_proc k sv)"
  have pr: "slot k sv \<noteq> None" "slot k cl \<noteq> None" "lives k sv = Some True" "lives k cl = Some True"
    using current_present [OF cur] x(3) cur
    by (auto simp: present_slot proc_ipc_get_client_def lives_def get_current_proc_alt split: if_splits option.splits dest!: proc_get_SomeD)
  have t: "proc_ipc_get_task k sv = Some ?t" "task_at k sv ?t = x"
    using get_task_ring [OF srv(1,2)] srv(3) by (simp_all add: pending_def srv(1))
  obtain ctx1 a where a: "end_restored sv k = (ctx1, a)" by fastforce
  note fa = end_restored_frame [OF srv(1) pr(1) saved(1) a]
  have la: "lives a = lives k" using fa(4) pr(3) by (auto simp: fun_eq_iff)
  define b where "b = proc_ipc_close sv ?t a"
  have pa: "p_space (the_proc a sv) = ?v" by (rule statics_projD(6) [OF fa(3) pr(1)])
  have fb: "here b = here k" "statics b = statics k" "lives b = lives k" "\<And>j. reg_of (the_proc b j) = reg_of (the_proc a j)"
    "\<And>u. u \<noteq> ?v \<Longrightarrow> spaces_view b u = spaces_view k u" "\<And>u. view_at b u = view_at a u"
    using close_frame [where sv = sv and t = ?t and k = a] fa la pa by (simp_all add: b_def)
  have nb: "pending sv b = []"
  proof -
    have g: "proc_ipc_get_task a sv = Some ?t"
      using get_task_ring(1) [OF fa(6) ring_unsaved(1) [OF srv(2)]] srv(3) by (simp add: pending_def fa(6) ring_unsaved)
    show ?thesis
      using ring.pop_items [where sv = sv and s = "(0, a)"] fa(6) ring_unsaved(1) [OF srv(2)] ring_unsaved(2) [of s] srv(3)
      by (auto simp: ring_state_def complete_def g b_def pending_def)
  qed
  define c where "c = snd (proc_ipc_wakeup sv b)"
  define d where "d = proc_wakeup cl c"
  have qd: "quiet d b" "quiet c b" unfolding d_def c_def using quiet_trans [OF quiet_wakeup quiet_ipc_wakeup] by simp_all
  have sb: "slot b sv \<noteq> None" "slot b cl \<noteq> None" using statics_slotD(1) [OF fb(2)] pr by auto
  have pend: "pending sv e = []" if "quiet e b" for e
    using quiet_server [OF that sb(1)] nb
    by (auto simp: pending_def ring_items_def core_server_def split: option.splits dest!: arg_cong [where f = is_task_num])
  have nc: "proc_ipc_get_task c sv = None"
    using pend [OF qd(2)] by (auto simp: pending_def proc_ipc_get_task_def server_of_def ipc_taskq_head_def ring_items_def split: option.splits)
  have lc: "p_state (the_proc c cl) \<noteq> UNUSED" "p_state (the_proc c cl) \<noteq> ZOMBIE"
  proof -
    have "lives c cl = Some True" using lives_quiet [OF qd(2)] fb(3) pr(4) by simp
    then show "p_state (the_proc c cl) \<noteq> UNUSED" "p_state (the_proc c cl) \<noteq> ZOMBIE"
      by (auto simp: lives_def the_proc_def live_state_def)
  qed
  have std: "statics d = statics k" using qd(1) fb(2) by (simp add: quiet_def)
  have core: "p_core (the_proc d cl) = core_id k" "p_core (the_proc d sv) = core_id k"
    using statics_projD(1) [OF std] pr cl by simp_all
  have eq: "(ctx', k') = proc_switch_multi_core ctx1 cl (core_id k) d"
    using r t x core nc lc srv(1) unfolding ipc_end_single_alt
    by (simp add: Let_def a b_def [symmetric] c_def [symmetric] d_def [symmetric])
  define e where "e = (if p_state (the_proc d cl) \<noteq> RUNNING then proc_wakeup_all_state cl d else d)"
  have ld: "lives d = lives k" using lives_quiet [OF qd(1)] fb(3) by simp
  have qe: "quiet e b"
    unfolding e_def using quiet_trans [OF quiet_wakeup_all [of d cl] qd(1)] qd(1) ld pr(4) by simp
  have sw: "(ctx', k') = proc_switch ctx1 cl True e" unfolding eq proc_switch_multi_core_def by (simp add: core e_def)
  have he: "here e = here k" "lives e = lives k" "statics e = statics k" "\<And>j. reg_of (the_proc e j) = reg_of (the_proc a j)"
    using qe fb by (auto simp: quiet_def)
  have ve: "view_at e u = view_at a u" for u using quiet_view [OF qe] fb(6) by simp
  have cure: "get_current_proc e = Some sv" using current_lives [OF he(1,2)] cur by simp
  have vc: "view_at e ?c = view_at k ?c" using ve fb(5) [OF cl(4)] fb(6) [of ?c] by (simp add: view_of_spaces)
  have pe: "p_space (the_proc e cl) = ?c" "p_space (the_proc e sv) = ?v" "p_core (the_proc e cl) = core_id e" "p_pid (the_proc e cl) = int cl"
    using statics_projD [OF he(3) pr(1)] statics_projD [OF he(3) pr(2)] cl(1,2) he(1) by (simp_all add: here_def)
  have nr: "\<not> restoring e sv"
  proof -
    obtain sp where sp: "proc_space_of a sv = Some sp" "sp_ipc_server sp = unsaved s" using server_of_space [OF fa(6)] by blast
    have "\<not> pi_restore_pending (sp_interrupt sp)" using fa(8) sp(1) saved(2) by (cases "proc_space_of k sv") auto
    moreover have "view_at e ?v = Some (hview (sp_interrupt sp, sp_signal sp, unsaved s))"
      unfolding ve unfolding view_at_def space_of_handlers [OF sp(1), unfolded pa] by (simp add: sp(2))
    ultimately show ?thesis by (auto simp: restoring_view pe hview_def unsaved_def)
  qed
  have ce: "calm e ?c" using cl(5) unfolding calm_view vc .
  have ne: "sv \<noteq> cl" using cl(4) by auto
  have se: "slot e sv \<noteq> None" "slot e cl \<noteq> None" using statics_slotD(1) [OF he(3)] pr by auto
  note k' = switch_calm [OF cure nr ne se(2) ce [folded pe(1)] pe(3,4) sw [symmetric]]
  have regs: "reg_of (the_proc e cl) = reg_of (the_proc k cl)" "p_ipc_res (the_proc e sv) = is_saved_ipc_res s"
    using he(4) [of cl] he(4) [of sv] fa(5) [of cl] fa(5) [of sv] ne by (simp_all add: reg_of_def)
  have "server_of k' sv = server_of e sv"
    unfolding server_of_def using proc_space_of_cong [OF k'(3,4) se(1)] by simp
  then have "pending sv k' = []" using pend [OF qe] by (simp add: pending_def)
  moreover have "view_at k' ?c = view_at k ?c" using view_cong [OF k'(3)] vc by simp
  ultimately show ?thesis using k' regs fa(1) he(3) by (simp add: reg_of_def)
qed

section \<open>Publishing and collecting a reply\<close>

lemma in_intr_view: "in_intr k i \<longleftrightarrow> p_type (the_proc k i) = TASK_TYPE_PROC \<and>
    (\<exists>v. view_at k (p_space (the_proc k i)) = Some (INTR_STATE_WORKING, v))"
  by (auto simp: in_intr_def view_at_def handlers_at_def proc_space_of_def handlers_def hview_def split: option.splits)

lemma user_proto_ok_cong:
  "p_space (the_proc k' i) = p_space (the_proc k i) \<Longrightarrow> user_proto_ok k' (Some i) = user_proto_ok k (Some i)"
  by (auto simp: user_proto_ok_def user_ptr_ok_def fun_eq_iff split: option.split)

lemma set_return_publishes:
  assumes cur: "get_current_proc k = Some sv" "p_type (the_proc k sv) = TASK_TYPE_PROC"
    and srv: "server_of k sv = Some s" "ring_ok s" "ring_items s = x # xs" "is_entry s \<noteq> 0"
    and x: "it_uid x = uid" "uid \<noteq> 0" "it_state x = IPC_BUSY" "\<not> call_has (it_call_id x) IPC_NON_RETURN" "\<not> it_client_intr x"
      "proc_ipc_get_client k x = Some cl"
    and u: "user_proto_ok k (Some sv) (Some u)" "up_data u \<noteq> 0"
  shows "proc_ipc_set_return stale uid (Some u) k
    = upd_proc cl (\<lambda>p. p\<lparr>p_ipc_res := \<lparr>ir_uid = uid, ir_state = IPC_RETURN, ir_data = up_bytes u\<rparr>\<rparr>) k"
proof -
  have t: "proc_ipc_get_task k sv = Some (is_task_head s)" "task_at k sv (is_task_head s) = x"
    using get_task_ring [OF srv(1,2)] srv(3) by (simp_all add: pending_def srv(1))
  have m: "\<not> is_multi_task s" using srv(2) by (simp add: ring_ok_def)
  have sp: "proc_space_of k sv \<noteq> None" using server_of_space [OF srv(1)] by auto
  have st: "proc_ipc_serving_task k sv uid = Some (sv, is_task_head s)"
    using t x(1,2,3) m sp cur(2) srv(1) by (simp add: proc_ipc_serving_task_def proc_ipc_current_task_def)
  have "proc_ipc_set_return stale uid (Some u) k
    = upd_proc cl (\<lambda>p. p\<lparr>p_ipc_res := (p_ipc_res p)\<lparr>ir_state := IPC_RETURN, ir_uid := uid, ir_data := up_bytes u\<rparr>\<rparr>) k"
    using cur srv(1,4) u st t(2) x(4,5,6) by (simp add: proc_ipc_set_return_def proc_ipc_client_res_def reply_bytes_def Let_def)
  moreover have "r\<lparr>ir_state := IPC_RETURN, ir_uid := uid, ir_data := bs\<rparr> = \<lparr>ir_uid = uid, ir_state = IPC_RETURN, ir_data = bs\<rparr>" for r :: ipc_res and bs
    by (cases r) simp
  ultimately show ?thesis by simp
qed

lemma get_return_collects:
  assumes "get_current_proc k = Some cl" "\<not> in_intr k cl" "uid \<noteq> 0"
    and "p_ipc_res (the_proc k cl) = \<lparr>ir_uid = uid, ir_state = IPC_RETURN, ir_data = bs\<rparr>"
    and "user_proto_ok k (Some cl) (Some v)" "up_data v \<noteq> 0" "length bs \<le> unat (up_total_size v)"
  shows "proc_ipc_get_return ctx serv_pid uid (Some v) k
    = (ret 0 ctx, Some (v\<lparr>up_bytes := bs, up_size := of_nat (length bs)\<rparr>), upd_proc cl (\<lambda>p. p\<lparr>p_ipc_res := res_clear (p_ipc_res p)\<rparr>) k)"
  using assms by (simp add: proc_ipc_get_return_def proc_cur_ipc_res_def up_fill_def Let_def)

text \<open>C9: the reply to a synchronous call arrives. When the server of a single pending request
  publishes a reply and ends the request, the client on its core runs next with the registers it
  had; collecting the reply gives it exactly the bytes the server sent, with return code 0, and
  empties its reply slot. The server has its own registers and its own reply slot back as they were
  when the request interrupted it, and nothing is pending.\<close>

theorem ipc_reply_roundtrip:
  fixes k :: "'a kernel_scheme"
  assumes cur: "get_current_proc k = Some sv" "p_type (the_proc k sv) = TASK_TYPE_PROC"
    and srv: "server_of k sv = Some s" "ring_ok s" "ring_items s = [x]" "is_entry s \<noteq> 0" "\<not> serv_has s IPC_NON_BLOCK"
    and x: "it_uid x = uid" "uid \<noteq> 0" "it_state x = IPC_BUSY" "\<not> call_has (it_call_id x) IPC_NON_RETURN" "\<not> it_client_intr x"
    and saved: "live_state (ss_state (is_saved_state s))"
      "\<forall>sp. proc_space_of k sv = Some sp \<longrightarrow> \<not> pi_restore_pending (sp_interrupt sp)"
    and cl: "proc_ipc_get_client k x = Some cl" "p_pid (the_proc k cl) = int cl" "p_core (the_proc k cl) = core_id k"
      "p_core (the_proc k sv) = core_id k" "p_space (the_proc k cl) \<noteq> p_space (the_proc k sv)"
      "calm k (p_space (the_proc k cl))" "\<not> in_intr k cl"
    and u: "user_proto_ok k (Some sv) (Some u)" "up_data u \<noteq> 0" "length (up_bytes u) = unat (up_size u)"
    and v: "user_proto_ok k (Some cl) (Some v)" "up_data v \<noteq> 0" "up_size u \<le> up_total_size v"
    and fin: "proc_ipc_end pexit uptime ctx0 (proc_ipc_set_return stale uid (Some u) k) = (ctx1, k1)"
  shows "get_current_proc k1 = Some cl \<and> ctx1 = p_ctx (the_proc k cl) \<and> pending sv k1 = [] \<and>
    p_ctx (the_proc k1 sv) = ss_ctx (is_saved_state s) \<and> p_ipc_res (the_proc k1 sv) = is_saved_ipc_res s \<and>
    (\<exists>v' k2. proc_ipc_get_return ctx serv_pid uid (Some v) k1 = (ret 0 ctx, Some v', k2) \<and>
       up_bytes v' = up_bytes u \<and> up_size v' = up_size u \<and> ir_state (p_ipc_res (the_proc k2 cl)) = IPC_IDLE)"
proof -
  define R where "R = \<lparr>ir_uid = uid, ir_state = IPC_RETURN, ir_data = up_bytes u\<rparr>"
  define k0 where "k0 = upd_proc cl (\<lambda>p. p\<lparr>p_ipc_res := R\<rparr>) k"
  have k0: "proc_ipc_set_return stale uid (Some u) k = k0"
    using set_return_publishes [OF cur srv(1-4) x cl(1) u(1,2)] by (simp add: k0_def R_def)
  have pr: "slot k sv \<noteq> None" "slot k cl \<noteq> None"
    using current_present [OF cur(1)] cl(1)
    by (auto simp: present_slot proc_ipc_get_client_def split: if_splits option.splits dest!: proc_get_SomeD)
  have fr: "here k0 = here k" "statics k0 = statics k" "lives k0 = lives k" "spaces k0 = spaces k" "server_of k0 sv = Some s"
    using srv(1) by (simp_all add: k0_def lives_upd)
  note pj = statics_projD [OF fr(2) pr(1)] statics_projD [OF fr(2) pr(2)]
  have c0: "get_current_proc k0 = Some sv" using current_lives [OF fr(1,3)] cur(1) by simp
  have pg: "proc_get k0 = proc_get k"
    by (rule lives_proc_get) (rule fr(3))
  have g0: "proc_ipc_get_client k0 x = Some cl"
    using cl(1) pj(9) by (auto simp: proc_ipc_get_client_def pg split: if_splits option.splits)
  have s0: "proc_space_of k0 sv = proc_space_of k sv" "proc_space_of k0 cl = proc_space_of k cl"
    using proc_space_of_cong [OF fr(4,2)] pr by simp_all
  have calm0: "calm k0 (p_space (the_proc k0 cl))" using cl(6) unfolding calm_def handlers_at_cong [OF fr(4)] pj .
  have ci: "core_id k0 = core_id k" using fr(1) by (simp add: here_def)
  have e: "ipc_end_single ctx0 sv k0 = (ctx1, k1)"
    using fin srv(2,4) c0 fr(5) cur(2) pj(4) by (simp add: k0 proc_ipc_end_def ring_ok_def)
  note es = end_single_returns [OF c0 fr(5) srv(2,3) x(4) srv(5) g0 saved(1) _ _ _ _ _ calm0 e]
  have f: "get_current_proc k1 = Some cl" "ctx1 = p_ctx (the_proc k0 cl)" "statics k1 = statics k0" "p_ipc_res (the_proc k1 cl) = R"
    "p_ctx (the_proc k1 sv) = ss_ctx (is_saved_state s)" "p_ipc_res (the_proc k1 sv) = is_saved_ipc_res s"
    "view_at k1 (p_space (the_proc k cl)) = view_at k (p_space (the_proc k cl))" "pending sv k1 = []"
    using es saved(2) s0 cl pj ci pr(2) view_cong [OF fr(4)] by (auto simp: k0_def [symmetric]) (simp add: k0_def)
  have p1: "p_space (the_proc k1 cl) = p_space (the_proc k cl)" "p_type (the_proc k1 cl) = p_type (the_proc k cl)"
    using statics_projD(4,6) [OF f(3), of cl] pj pr(2) by (simp_all add: k0_def)
  have i1: "\<not> in_intr k1 cl" using cl(7) f(7) by (simp add: in_intr_view p1)
  have u1: "user_proto_ok k1 (Some cl) (Some v)" using v(1) user_proto_ok_cong [OF p1(1)] by simp
  have le: "length (up_bytes u) \<le> unat (up_total_size v)" using u(3) v(3) by (simp add: word_le_nat_alt)
  have sl: "slot k1 cl \<noteq> None" using statics_slotD(1) [OF f(3)] pr(2) by (simp add: k0_def slot_upd_proc)
  have "p_ctx (the_proc k0 cl) = p_ctx (the_proc k cl)" by (simp add: k0_def the_proc_upd_field [of p_ctx])
  then show ?thesis
    using f get_return_collects [OF f(1) i1 x(2) f(4) [unfolded R_def] u1 v(2) le, of ctx serv_pid] u(3) sl
    by (simp add: res_clear_def)
qed

text \<open>The server of \<open>ex_ipc\<close> while it handles a call of client 2.\<close>

definition ex_serving :: kernel where
  "ex_serving = upd_server 1 (\<lambda>s. s\<lparr>is_saved_state := \<lparr>ss_state = READY, ss_sleep_counter = 0, ss_ctx = zero_ctx\<lparr>ctx_pc := 0x2000\<rparr>\<rparr>\<rparr>)
     (snd (accept 1 (2, 7, None) (0, ex_ipc)))"

definition ex_reply :: uproto where
  "ex_reply = \<lparr>up_addr = 0x8000, up_data = 0x9000, up_size = 3, up_total_size = 512, up_bytes = [65, 66, 67]\<rparr>"

definition ex_buffer :: uproto where
  "ex_buffer = \<lparr>up_addr = 0x8000, up_data = 0x8000, up_size = 0, up_total_size = 512, up_bytes = []\<rparr>"

definition ex_task :: ipc_task where
  "ex_task = zero_ipc_task\<lparr>it_uid := 1, it_state := IPC_BUSY, it_client_pid := 2, it_client_uuid := 12, it_call_id := 7\<rparr>"

lemma ex_serving_server: "server_of ex_serving 1 = Some (the (server_of ex_serving 1))"
proof -
  have "\<not> Option.is_none (server_of ex_serving 1)" by code_simp
  then show ?thesis by (simp add: Option.is_none_def)
qed

lemma ex_serving_facts:
  "get_current_proc ex_serving = Some 1" "p_type (the_proc ex_serving 1) = TASK_TYPE_PROC"
  "ring_ok (the (server_of ex_serving 1))" "ring_items (the (server_of ex_serving 1)) = [ex_task]"
  "is_entry (the (server_of ex_serving 1)) \<noteq> 0" "\<not> serv_has (the (server_of ex_serving 1)) IPC_NON_BLOCK"
  "it_uid ex_task = 1" "it_state ex_task = IPC_BUSY" "\<not> call_has (it_call_id ex_task) IPC_NON_RETURN" "\<not> it_client_intr ex_task"
  "live_state (ss_state (is_saved_state (the (server_of ex_serving 1))))"
  "proc_ipc_get_client ex_serving ex_task = Some 2" "p_pid (the_proc ex_serving 2) = int 2"
  "p_core (the_proc ex_serving 2) = core_id ex_serving" "p_core (the_proc ex_serving 1) = core_id ex_serving"
  "p_space (the_proc ex_serving 2) \<noteq> p_space (the_proc ex_serving 1)" "\<not> in_intr ex_serving 2"
  "user_proto_ok ex_serving (Some 1) (Some ex_reply)" "user_proto_ok ex_serving (Some 2) (Some ex_buffer)"
  "view_at ex_serving (p_space (the_proc ex_serving 2)) = Some (INTR_STATE_IDLE, False, False, False, False)"
  "view_at ex_serving (p_space (the_proc ex_serving 1)) = Some (INTR_STATE_IDLE, False, False, False, False)"
  by code_simp+

theorem ipc_reply_roundtrip_witness:
  "\<exists>ctx1 k1 v' k2. proc_ipc_end (\<lambda>c w r k. (c, k)) 0 zero_ctx (proc_ipc_set_return (\<lambda>_. []) 1 (Some ex_reply) ex_serving) = (ctx1, k1) \<and>
     get_current_proc k1 = Some 2 \<and> ctx_pc (p_ctx (the_proc k1 1)) = 0x2000 \<and>
     proc_ipc_get_return zero_ctx 1 1 (Some ex_buffer) k1 = (ret 0 zero_ctx, Some v', k2) \<and> up_bytes v' = [65, 66, 67]"
proof -
  note f = ex_serving_facts
  obtain ctx1 k1 where e: "proc_ipc_end (\<lambda>c w r k. (c, k)) 0 zero_ctx (proc_ipc_set_return (\<lambda>_. []) 1 (Some ex_reply) ex_serving) = (ctx1, k1)"
    by fastforce
  have sp: "\<forall>sp. proc_space_of ex_serving 1 = Some sp \<longrightarrow> \<not> pi_restore_pending (sp_interrupt sp)"
    using f(21) by (auto simp: view_at_def handlers_at_def proc_space_of_def hview_def handlers_def)
  have calm: "calm ex_serving (p_space (the_proc ex_serving 2))" using f(20) by (simp add: calm_view)
  have pc: "ctx_pc (ss_ctx (is_saved_state (the (server_of ex_serving 1)))) = 0x2000" by code_simp
  have b: "up_data ex_reply \<noteq> 0" "length (up_bytes ex_reply) = unat (up_size ex_reply)" "up_data ex_buffer \<noteq> 0"
    "up_size ex_reply \<le> up_total_size ex_buffer" by (simp_all add: ex_reply_def ex_buffer_def)
  from ipc_reply_roundtrip [OF f(1,2) ex_serving_server f(3-7) _ f(8-11) sp f(12-16) calm f(17,18) b(1,2) f(19) b(3,4) e,
      of zero_ctx 1] e pc
  show ?thesis by (auto simp: ex_reply_def)
qed

end
