(* ===== verification/Ipc_Exit.thy ===== *)
theory Ipc_Exit
  imports Ipc_Frame
begin

text \<open>
  The end of a server: \<open>proc_ipc_clear\<close> drops every accepted request, and no client is left blocked on
  a reply that cannot come.
\<close>

section \<open>One slot\<close>

definition busy_task :: "ipc_task \<Rightarrow> bool" where
  "busy_task x \<longleftrightarrow> it_uid x \<noteq> 0 \<and> it_state x \<noteq> IPC_IDLE"

text \<open>Nothing but the reply slots, the task slots of servers and the \<open>ipc_task\<close> links has changed.\<close>

definition settled :: "'a kernel_scheme \<Rightarrow> 'a kernel_scheme \<Rightarrow> bool" where
  "settled k' k \<longleftrightarrow> statics k' = statics k \<and> lives k' = lives k \<and> pstates k' = pstates k \<and>
     (\<forall>s. (space_at k' s = None) = (space_at k s = None)) \<and>
     (\<forall>loc. ir_state (res_get k loc) = IPC_RETURN \<longrightarrow> res_get k' loc = res_get k loc)"

lemma settled_refl [simp]: "settled k k"
  by (simp add: settled_def)

lemma settled_trans: "settled k2 k1 \<Longrightarrow> settled k1 k \<Longrightarrow> settled k2 k"
  by (simp add: settled_def)

lemma space_cell_upd_proc [simp]: "space_at (upd_proc i f k) s = space_at k s"
  by (simp add: space_at_def split: option.split)

lemma space_at_upd_space:
  "space_at (upd_space s g k) u = (if u = s then map_option g (space_at k s) else space_at k u)"
  by (auto simp: space_at_def upd_space_def split: option.splits)

lemma res_get_upd_proc:
  "(\<And>p. p_ipc_res (f p) = p_ipc_res p) \<Longrightarrow> (\<And>p. p_space (f p) = p_space p) \<Longrightarrow> res_get (upd_proc i f k) loc = res_get k loc"
  by (cases loc) (simp_all add: the_proc_upd_field [of p_ipc_res] the_proc_upd_field [of p_space] proc_space_of_def)

lemma settled_detach: "settled (detach_handler sv t x k) k"
proof -
  have "settled (upd_proc h (\<lambda>p. p\<lparr>p_ipc_task := None\<rparr>) k) k" for h
    by (simp add: settled_def lives_upd res_get_upd_proc static_of_def)
  then show ?thesis by (simp add: detach_handler_def split: option.split)
qed

lemma settled_server: "settled (upd_server sv f k) k"
proof -
  have "res_get (upd_server sv f k) loc = res_get k loc" for loc
  proof (cases loc)
    case (ResIntr i)
    show ?thesis by (auto simp: ResIntr proc_space_of_def upd_server_def space_at_upd_space map_option_case split: option.split)
  qed (simp add: upd_server_def)
  then show ?thesis by (simp add: settled_def upd_server_def space_at_upd_space)
qed

lemma settled_clear:
  assumes "ir_state (res_get k loc) \<noteq> IPC_RETURN"
  shows "settled (res_upd loc res_clear k) k"
proof (cases loc)
  case (ResTask i)
  have "res_get (res_upd loc res_clear k) l = res_get k l" if "ir_state (res_get k l) = IPC_RETURN" for l
  proof (cases l)
    case (ResTask j)
    then have "j \<noteq> i" using that assms \<open>loc = ResTask i\<close> by auto
    then show ?thesis using ResTask \<open>loc = ResTask i\<close> by simp
  qed (simp add: \<open>loc = ResTask i\<close> proc_space_of_def the_proc_upd_field [of p_space])
  then show ?thesis by (simp add: settled_def ResTask lives_upd)
next
  case (ResIntr i)
  have "res_get (res_upd loc res_clear k) l = res_get k l" if "ir_state (res_get k l) = IPC_RETURN" for l
    using that assms ResIntr by (cases l) (auto simp: upd_intr_def proc_space_of_def space_at_upd_space)
  then show ?thesis by (simp add: settled_def ResIntr upd_intr_def space_at_upd_space)
qed

lemma settled_untrack: "settled (proc_untrack_ipc_timeout sv k) k"
proof -
  have "res_get (k\<lparr>ipc_timeout_queue := q\<rparr>) loc = res_get k loc" "lives (k\<lparr>ipc_timeout_queue := q\<rparr>) = lives k"
    "space_at (k\<lparr>ipc_timeout_queue := q\<rparr>) s = space_at k s" for q loc s
    by (cases loc; simp add: the_proc_def slot_def proc_space_of_def space_at_def lives_def fun_eq_iff split: option.split)+
  then show ?thesis by (simp add: settled_def proc_untrack_ipc_timeout_def)
qed

lemma settled_client: "settled k' k \<Longrightarrow> proc_ipc_get_client k' x = proc_ipc_get_client k x"
proof -
  assume s: "settled k' k"
  have g: "proc_get k' = proc_get k" using s by (intro lives_proc_get) (simp add: settled_def)
  have "p_uuid (the_proc k' c) = p_uuid (the_proc k c)" if "proc_get k pid = Some c" for pid c
    using s that by (intro statics_projD(3)) (auto simp: settled_def dest: proc_get_SomeD)
  then show ?thesis by (auto simp: proc_ipc_get_client_def g split: option.split)
qed

lemma server_of_detach [simp]: "server_of (detach_handler sv t x k) j = server_of k j"
  by (simp add: detach_handler_def server_of_def proc_space_of_def the_proc_upd_field [of p_space] split: option.split)

lemma server_of_res [simp]: "server_of (res_upd loc f k) j = server_of k j"
  by (cases loc) (auto simp: server_of_def proc_space_of_def the_proc_upd_field [of p_space] upd_intr_def space_at_upd_space
      option.map_comp comp_def)

definition waits :: "'a kernel_scheme \<Rightarrow> ipc_task \<Rightarrow> nat \<Rightarrow> bool" where
  "waits k x c \<longleftrightarrow> busy_task x \<and> \<not> call_has (it_call_id x) IPC_NON_RETURN \<and> proc_ipc_get_client k x = Some c"

lemma clear_at_step:
  assumes "server_of k sv = Some s" "clear_at sv t (cs, k) = (cs', k')"
  shows "settled k' k" "set cs \<subseteq> set cs'" "waits k (is_tasks s ! t) c \<Longrightarrow> c \<in> set cs'"
    and "server_of k' sv = Some (if busy_task (is_tasks s ! t) then ipc_free t s else s)"
proof -
  let ?x = "is_tasks s ! t" and ?k = "detach_handler sv t (is_tasks s ! t) k"
  have x: "task_at k sv t = ?x" using assms(1) by (simp add: task_at_def)
  have cl: "proc_ipc_get_client ?k ?x = proc_ipc_get_client k ?x" by (rule settled_client) (rule settled_detach)
  have all: "settled k' k \<and> set cs \<subseteq> set cs' \<and> (waits k ?x c \<longrightarrow> c \<in> set cs') \<and>
     server_of k' sv = Some (if busy_task ?x then ipc_free t s else s)" for c
  proof (cases "busy_task ?x")
    case False
    then show ?thesis using assms x by (auto simp: clear_at_def waits_def busy_task_def)
  next
    case True
    define r where "r = (if call_has (it_call_id ?x) IPC_NON_RETURN then (cs, ?k)
             else case proc_ipc_get_client ?k ?x of None \<Rightarrow> (cs, ?k)
             | Some c \<Rightarrow>
               let loc = proc_ipc_client_res ?k c ?x; r = res_get ?k loc in
               (cs @ [c], if ir_uid r = it_uid ?x \<and> ir_state r \<noteq> IPC_RETURN then res_upd loc res_clear ?k else ?k))"
    have eq: "cs' = fst r" "k' = upd_server sv (ipc_free t) (snd r)"
      using assms(2) True unfolding clear_at_def prod.case x
      by (cases "proc_ipc_get_client ?k ?x"; auto simp: busy_task_def r_def Let_def case_prod_beta)+
    have sr: "settled (snd r) ?k"
      by (auto simp: r_def Let_def intro: settled_clear split: option.split)
    have "settled k' k" unfolding eq by (rule settled_trans [OF settled_server settled_trans [OF sr settled_detach]])
    moreover have "server_of (snd r) sv = server_of k sv" by (auto simp: r_def Let_def split: option.split)
    moreover have "set cs \<subseteq> set (fst r)" "waits k ?x c \<longrightarrow> c \<in> set (fst r)"
      by (auto simp: r_def Let_def waits_def cl split: option.split)
    ultimately show ?thesis using True assms(1) by (simp add: eq)
  qed
  show "settled k' k" "set cs \<subseteq> set cs'" "waits k ?x c \<Longrightarrow> c \<in> set cs'"
    "server_of k' sv = Some (if busy_task ?x then ipc_free t s else s)" using all [of c] by blast+
qed

section \<open>All slots\<close>

lemma waits_settled: "settled k' k \<Longrightarrow> waits k' x c = waits k x c"
  by (simp add: waits_def settled_client)

lemma clear_all:
  assumes "server_of k sv = Some s" "distinct ts" "set ts \<subseteq> {..<length (is_tasks s)}"
    and "fold (clear_at sv) ts (cs, k) = (cs', k')"
  shows "settled k' k \<and> set cs \<subseteq> set cs' \<and> (\<forall>t \<in> set ts. \<forall>c. waits k (is_tasks s ! t) c \<longrightarrow> c \<in> set cs') \<and>
    (\<exists>s'. server_of k' sv = Some s' \<and> length (is_tasks s') = length (is_tasks s) \<and>
      (\<forall>t < length (is_tasks s). is_tasks s' ! t = (if t \<in> set ts \<and> busy_task (is_tasks s ! t) then ipc_task_reset (is_tasks s ! t) else is_tasks s ! t)))"
  using assms
proof (induction ts arbitrary: k s cs)
  case (Cons t ts)
  obtain cs1 k1 where c1: "clear_at sv t (cs, k) = (cs1, k1)" by fastforce
  note st = clear_at_step [OF Cons.prems(1) c1]
  define s1 where "s1 = (if busy_task (is_tasks s ! t) then ipc_free t s else s)"
  have t1: "length (is_tasks s1) = length (is_tasks s)" "\<And>j. j < length (is_tasks s) \<Longrightarrow>
      is_tasks s1 ! j = (if j = t \<and> busy_task (is_tasks s ! t) then ipc_task_reset (is_tasks s ! t) else is_tasks s ! j)"
    by (auto simp: s1_def ipc_free_def upd_task_def nth_list_update)
  have "fold (clear_at sv) ts (cs1, k1) = (cs', k')" using Cons.prems(4) c1 by simp
  from Cons.IH [OF st(4) [folded s1_def] _ _ this] Cons.prems t1
  have ih: "settled k' k1" "set cs1 \<subseteq> set cs'" "\<forall>j \<in> set ts. \<forall>c. waits k1 (is_tasks s1 ! j) c \<longrightarrow> c \<in> set cs'"
    "\<exists>s'. server_of k' sv = Some s' \<and> length (is_tasks s') = length (is_tasks s1) \<and>
      (\<forall>t < length (is_tasks s1). is_tasks s' ! t = (if t \<in> set ts \<and> busy_task (is_tasks s1 ! t) then ipc_task_reset (is_tasks s1 ! t) else is_tasks s1 ! t))"
    by auto
  have "settled k' k" by (rule settled_trans [OF ih(1) st(1)])
  moreover have "\<forall>j \<in> set (t # ts). \<forall>c. waits k (is_tasks s ! j) c \<longrightarrow> c \<in> set cs'"
  proof -
    have "is_tasks s1 ! j = is_tasks s ! j" if "j \<in> set ts" for j using that t1(2) Cons.prems(2,3) by auto
    then show ?thesis using ih(2,3) st(3) waits_settled [OF st(1)] by auto
  qed
  moreover have "\<exists>s'. server_of k' sv = Some s' \<and> length (is_tasks s') = length (is_tasks s) \<and>
      (\<forall>j < length (is_tasks s). is_tasks s' ! j = (if j \<in> set (t # ts) \<and> busy_task (is_tasks s ! j) then ipc_task_reset (is_tasks s ! j) else is_tasks s ! j))"
    using ih(4) t1 Cons.prems(2) by auto
  ultimately show ?case using ih(2) st(2) by blast
qed simp

section \<open>The wakes\<close>

lemma wakeup_ready:
  assumes "lives k c = Some True" "proc_space_of k c \<noteq> None"
  shows "p_state (the_proc (proc_wakeup c k) c) = READY"
proof -
  have pr: "present (statics k) c" using assms(1) by (auto simp: lives_def present_slot)
  have sp: "proc_space_of (proc_ipc_cancel_wait c k) c \<noteq> None" using space_cancel_wait [OF pr] assms(2) by simp
  obtain q where q: "slot (proc_ipc_cancel_wait c k) c = Some q" "live_state (p_state q)"
    using assms(1) by (auto simp: lives_def slot_cancel_wait)
  have all: "p_state (the_proc (proc_wakeup_all_state c k) c) = READY" if "proc_space_of k c \<noteq> None" "slot k c \<noteq> None"
    for k :: "'a kernel_scheme" using that by (auto simp: the_proc_def slot_wakeup_all_state readied_def)
  have rs: "the_proc (wake_resched c k) c = the_proc k c" for k :: "'a kernel_scheme" by (rule the_proc_of_slot) simp
  define w where "w = upd_proc c (\<lambda>p. p\<lparr>p_block_by := 0, p_sleep_counter := 0, p_wake_by := 0, p_wake_pending := False\<rparr>) (proc_ipc_cancel_wait c k)"
  have spw: "proc_space_of w c \<noteq> None" "slot w c \<noteq> None"
    using sp q by (simp_all add: w_def proc_space_of_def the_proc_upd_field [of p_space])
  have l: "live_state (p_state (the_proc k c))" using assms(1) by (auto simp: lives_def the_proc_def)
  show ?thesis using all [OF sp] all [OF spw] q l
    by (simp add: proc_wakeup_def proc_wakeup_by_def Let_def rs w_def [symmetric] the_proc_upd_field [of p_state] live_state_def)
qed

lemma fold_ready: "slot k c \<noteq> None \<Longrightarrow> p_state (the_proc k c) = READY \<Longrightarrow> p_state (the_proc (fold proc_wakeup cs k) c) = READY"
proof (induction cs arbitrary: k)
  case (Cons d cs)
  have "slot (proc_wakeup d k) c \<noteq> None" using Cons.prems(1) statics_slotD(1) [of "proc_wakeup d k" k c] by simp
  then show ?case using Cons.IH ready_wakeup [OF Cons.prems, of d] by simp
qed simp

lemma quiet_space: "quiet k' k \<Longrightarrow> slot k c \<noteq> None \<Longrightarrow> (proc_space_of k' c = None) = (proc_space_of k c = None)"
proof -
  assume q: "quiet k' k" "slot k c \<noteq> None"
  have "p_space (the_proc k' c) = p_space (the_proc k c)" using q by (intro statics_projD(6)) (simp_all add: quiet_def)
  moreover have "spaces_view k' (p_space (the_proc k c)) = spaces_view k (p_space (the_proc k c))" using q(1) by (simp add: quiet_def)
  ultimately show ?thesis by (auto simp: proc_space_of_def spaces_view_def map_option_case split: option.splits)
qed

lemma wakes_ready:
  "c \<in> set cs \<Longrightarrow> lives k c = Some True \<Longrightarrow> proc_space_of k c \<noteq> None \<Longrightarrow> p_state (the_proc (fold proc_wakeup cs k) c) = READY"
proof (induction cs arbitrary: k)
  case (Cons d cs)
  have sl: "slot k c \<noteq> None" using Cons.prems(2) by (auto simp: lives_def)
  have l: "lives (proc_wakeup d k) c = Some True" using lives_quiet [OF quiet_wakeup [of d k]] Cons.prems(2) by simp
  then have sl': "slot (proc_wakeup d k) c \<noteq> None" by (auto simp: lives_def)
  show ?case
  proof (cases "d = c")
    case True
    then show ?thesis using fold_ready [OF sl'] wakeup_ready [OF Cons.prems(2,3)] by simp
  next
    case False
    then show ?thesis using Cons.IH [OF _ l] Cons.prems(1,3) quiet_space [OF quiet_wakeup sl] by simp
  qed
qed simp

lemma quiet_res: "quiet k' k \<Longrightarrow> res_get k' loc = res_get k loc"
proof -
  assume q: "quiet k' k"
  have p: "p_space (the_proc k' i) = p_space (the_proc k i)" for i
    using statics_projD(6) [of k' k i] statics_slotD(1) [of k' k i] q
    by (cases "slot k i = None") (auto simp: quiet_def the_proc_def)
  have "pi_ipc_res (sp_interrupt (the (space_at k' s))) = pi_ipc_res (sp_interrupt (the (space_at k s)))" for s
  proof -
    have "map_option (fst \<circ> snd) (spaces_view k' s) = map_option (fst \<circ> snd) (spaces_view k s)" using q by (simp add: quiet_def)
    then show ?thesis by (cases "space_at k' s"; cases "space_at k s") (simp_all add: spaces_view_def space_view_def)
  qed
  then show ?thesis using q p by (cases loc) (simp_all add: quiet_def reg_of_def proc_space_of_def)
qed

section \<open>Properties\<close>

text \<open>C16: when a server exits, no client hangs. After \<open>proc_ipc_clear\<close> no task slot of the server holds
  a request, so a client that asks again for its reply is told that the request is gone instead of
  being blocked; every live client that was waiting for a reply is ready to run; and replies that
  had been published before are still there to be collected.\<close>

theorem ipc_server_exit:
  assumes "server_of k sv = Some s" "length (is_tasks s) = IPC_CTX_MAX" "slot k sv \<noteq> None"
  shows "proc_ipc_task_count (proc_ipc_clear sv k) sv = 0 \<and>
    (\<forall>uid. proc_ipc_find_task (proc_ipc_clear sv k) (Some sv) uid = None) \<and>
    (\<forall>x c. x \<in> set (is_tasks s) \<longrightarrow> waits k x c \<longrightarrow> proc_space_of k c \<noteq> None \<longrightarrow>
       p_state (the_proc (proc_ipc_clear sv k) c) = READY) \<and>
    (\<forall>loc. ir_state (res_get k loc) = IPC_RETURN \<longrightarrow> res_get (proc_ipc_clear sv k) loc = res_get k loc)"
proof -
  obtain cs k1 where f: "fold (clear_at sv) [0..<IPC_CTX_MAX] ([], proc_untrack_ipc_timeout sv k) = (cs, k1)" by fastforce
  let ?k = "proc_untrack_ipc_timeout sv k"
  have un: "settled ?k k" by (rule settled_untrack)
  have all: "set [0..<IPC_CTX_MAX] \<subseteq> {..<length (is_tasks s)}" using assms(2) by auto
  from clear_all [OF _ _ all f] assms(1,2)
  obtain s1 where a: "settled k1 ?k" "\<forall>t < IPC_CTX_MAX. \<forall>c. waits ?k (is_tasks s ! t) c \<longrightarrow> c \<in> set cs"
    and s1: "server_of k1 sv = Some s1" "length (is_tasks s1) = IPC_CTX_MAX"
      "\<forall>t < IPC_CTX_MAX. is_tasks s1 ! t = (if busy_task (is_tasks s ! t) then ipc_task_reset (is_tasks s ! t) else is_tasks s ! t)"
    by auto
  define g where "g = (\<lambda>s :: ipc_server. s\<lparr>is_task_head := 0, is_task_tail := 0, is_task_num := 0, is_do_switch := False, is_restore_pending := False\<rparr>)"
  define k2 where "k2 = upd_server sv g k1"
  have st: "settled k2 k" unfolding k2_def by (rule settled_trans [OF settled_server settled_trans [OF a(1) un]])
  have k': "proc_ipc_clear sv k = fold proc_wakeup cs k2"
    using f server_of_space [OF assms(1)] by (auto simp: proc_ipc_clear_def Let_def k2_def g_def)
  have q: "quiet (proc_ipc_clear sv k) k2" unfolding k' by (rule quiet_fold_wakeup)
  have s2: "server_of k2 sv = Some (g s1)" using s1(1) by (simp add: k2_def)
  have sl: "slot k2 sv \<noteq> None" using statics_slotD(1) [of k2 k sv] st assms(3) by (simp add: settled_def)
  obtain s' where s': "server_of (proc_ipc_clear sv k) sv = Some s'" "core_server s' = core_server (g s1)"
    using quiet_server [OF q sl] s2 by auto
  have tk: "is_tasks s' = is_tasks s1" "is_task_num s' = 0"
    using arg_cong [OF s'(2), of is_tasks] arg_cong [OF s'(2), of is_task_num] by (simp_all add: core_server_def g_def)
  have "\<not> busy_task x" if "x \<in> set (is_tasks s')" for x
    using that s1(2,3) unfolding tk by (auto simp: in_set_conv_nth busy_task_def ipc_task_reset_def)
  then have "proc_ipc_find_task (proc_ipc_clear sv k) (Some sv) uid = None" for uid
    using s'(1) by (auto simp: proc_ipc_find_task_def find_index_None_iff busy_task_def)
  moreover have "p_state (the_proc (proc_ipc_clear sv k) c) = READY"
    if x: "x \<in> set (is_tasks s)" "waits k x c" "proc_space_of k c \<noteq> None" for x c
  proof -
    have "c \<in> set cs" using a(2) x(1,2) assms(2) waits_settled [OF un] by (auto simp: in_set_conv_nth)
    moreover have "lives k c = Some True"
      using x(2) by (auto simp: waits_def proc_ipc_get_client_def lives_def split: if_splits option.splits dest!: proc_get_SomeD)
    moreover from this have "p_space (the_proc k2 c) = p_space (the_proc k c)"
      using st by (intro statics_projD(6)) (auto simp: settled_def lives_def)
    ultimately show ?thesis unfolding k' using st x(3) by (intro wakes_ready) (auto simp: settled_def proc_space_of_def)
  qed
  moreover have "res_get (proc_ipc_clear sv k) loc = res_get k loc" if "ir_state (res_get k loc) = IPC_RETURN" for loc
    using that st quiet_res [OF q] by (simp add: settled_def)
  ultimately show ?thesis using s'(1) tk(2) by (simp add: proc_ipc_task_count_def)
qed

definition ex_exit :: kernel where
  "ex_exit = snd (accept 1 (3, 9, None) (accept 1 (2, 7, None) (0, ex_ipc)))"

lemma ex_exit_server: "server_of ex_exit 1 = Some (the (server_of ex_exit 1))"
proof -
  have "\<not> Option.is_none (server_of ex_exit 1)" by code_simp
  then show ?thesis by (simp add: Option.is_none_def)
qed

theorem ipc_server_exit_witness:
  "p_state (the_proc ex_exit 3) = BLOCK \<and> p_state (the_proc (proc_ipc_clear 1 ex_exit) 3) = READY \<and>
   proc_ipc_find_task (proc_ipc_clear 1 ex_exit) (Some 1) 2 = None"
proof -
  have l: "length (is_tasks (the (server_of ex_exit 1))) = IPC_CTX_MAX" by code_simp
  have sl: "slot ex_exit 1 \<noteq> None" "proc_space_of ex_exit 3 \<noteq> None"
  proof -
    have "\<not> Option.is_none (slot ex_exit 1)" "\<not> Option.is_none (proc_space_of ex_exit 3)" by code_simp+
    then show "slot ex_exit 1 \<noteq> None" "proc_space_of ex_exit 3 \<noteq> None" by (simp_all add: Option.is_none_def)
  qed
  have x: "is_tasks (the (server_of ex_exit 1)) ! 1 \<in> set (is_tasks (the (server_of ex_exit 1)))"
    using l by (simp add: IPC_CTX_MAX_def)
  have w: "waits ex_exit (is_tasks (the (server_of ex_exit 1)) ! 1) 3" by code_simp
  have "p_state (the_proc ex_exit 3) = BLOCK" by code_simp
  with ipc_server_exit [OF ex_exit_server l sl(1)] x w sl(2) show ?thesis by blast
qed

end
