(* ===== verification/System.thy ===== *)
theory System
  imports Ipc_Pool Semaphore Cap
begin

text \<open>
  The kernel with all its global tables: the scheduler's state extended by the semaphores, the
  interrupt registrations, the capability state, the kernel event queue and the counters of the
  process life cycle. Every operation of the other theories works on it unchanged.

  What a life-cycle operation asks of the memory managers of \<^verbatim>\<open>kernel/kernel/src/mm/\<close> whose state is not
  modelled is recorded in \<open>sy_mm\<close>, newest first. The kernel event queue is
  \<^verbatim>\<open>kernel/kernel/src/kevqueue.c\<close>.
\<close>

section \<open>State\<close>

datatype mm_call =
    DmaRelease int
  | DmaForgetPeer int
  | StackUnmap nat
  | HeapRelease nat u64
  | WindowRelease nat
  | ShmUnmapAll nat
  | ShmReleaseOrphans int
  | PageTablesFree nat
  | CowShare nat nat u64
  | StackCopy nat nat

definition KEV_PROC_EXIT :: u32 where "KEV_PROC_EXIT = 1"
definition KEV_PROC_CREATED :: u32 where "KEV_PROC_CREATED = 2"
definition KEV_PROC_CORE_DUMP :: u32 where "KEV_PROC_CORE_DUMP = 3"

record kev_core_dump =
  cd_pid :: int
  cd_core :: u32
  cd_reason :: u32
  cd_status :: u32
  cd_fault_addr :: u64
  cd_pc :: u64
  cd_sp :: u64
  cd_cmd :: string
  cd_regs :: context_t

record kevent =
  kv_type :: u32
  kv_data0 :: u32
  kv_data1 :: u32
  kv_data2 :: u32
  kv_core_dump :: "kev_core_dump option"

record system = kernel +
  sy_last_create_pid :: nat
  sy_proc_uuid :: u32
  sy_vm_mark :: "bool list"
  sy_sems :: sem_state
  sy_intrs :: intr_state
  sy_caps :: cap_state
  sy_kevq :: "kevent list"
  sy_vsyscall :: "nat \<Rightarrow> int \<times> u32 \<times> task_type"
  sy_uptime_sec :: u32
  sy_use_core_id :: nat
  sy_core_proc_ready :: bool
  sy_mm :: "mm_call list"

definition crash :: "system \<Rightarrow> system" where
  "crash k = k\<lparr>halted := True\<rparr>"

definition mm_log :: "mm_call list \<Rightarrow> system \<Rightarrow> system" where
  "mm_log cs k = k\<lparr>sy_mm := rev cs @ sy_mm k\<rparr>"

text \<open>Operations on the semaphores run on the component of the system state.\<close>

definition with_sems :: "(sem_state \<Rightarrow> system \<Rightarrow> sem_state \<times> system) \<Rightarrow> system \<Rightarrow> system" where
  "with_sems f k = (case f (sy_sems k) k of (s, k) \<Rightarrow> k\<lparr>sy_sems := s\<rparr>)"

section \<open>The kernel event queue\<close>

definition kev_init :: "system \<Rightarrow> system" where
  "kev_init k = k\<lparr>sy_kevq := []\<rparr>"

definition kev_wake :: "system \<Rightarrow> system" where
  "kev_wake k = (if core_proc_pid k \<ge> 0
     then case proc_get k (core_proc_pid k) of None \<Rightarrow> k | Some c \<Rightarrow> proc_wakeup c k else k)"

text \<open>The result of \<open>kmalloc\<close> is written through without a check.\<close>

definition kev_enqueue :: "kevent \<Rightarrow> system \<Rightarrow> system" where
  "kev_enqueue e k = (let (ok, k) = take_alloc k in
     if \<not> ok then crash k else kev_wake (k\<lparr>sy_kevq := sy_kevq k @ [e]\<rparr>))"

definition kev_push :: "u32 \<Rightarrow> u32 \<Rightarrow> u32 \<Rightarrow> u32 \<Rightarrow> system \<Rightarrow> system" where
  "kev_push type arg0 arg1 arg2 k =
     kev_enqueue \<lparr>kv_type = type, kv_data0 = arg0, kv_data1 = arg1, kv_data2 = arg2, kv_core_dump = None\<rparr> k"

definition kev_push_core_dump :: "kev_core_dump \<Rightarrow> system \<Rightarrow> system" where
  "kev_push_core_dump dump k =
     kev_enqueue \<lparr>kv_type = KEV_PROC_CORE_DUMP, kv_data0 = of_int (cd_pid dump), kv_data1 = cd_reason dump, kv_data2 = 0,
       kv_core_dump = Some dump\<rparr> k"

definition kev_pop :: "system \<Rightarrow> kevent option \<times> system" where
  "kev_pop k =
     (case get_current_proc k of None \<Rightarrow> (None, crash k)
      | Some c \<Rightarrow>
        if p_pid (the_proc k c) \<noteq> core_proc_pid k then (None, k)
        else case sy_kevq k of [] \<Rightarrow> (None, k) | e # q \<Rightarrow> (Some e, k\<lparr>sy_kevq := q\<rparr>))"

end
