(* ===== verification/Lifecycle.thy ===== *)
theory Lifecycle
  imports System
begin

text \<open>
  The life of a task, \<^verbatim>\<open>kernel/kernel/src/proc.c\<close>: creation and fork, termination, the burial of
  zombies, waiting for a child, and the system calls of \<^verbatim>\<open>kernel/kernel/src/svc.c\<close> on top of them.

  An address space is named by its page-directory slot, which is its own while the space lives. A
  zombie taken out of the task table is passed on as the \<open>proc\<close> value it was.
\<close>

section \<open>Creation\<close>

definition get_free_pde :: "system \<Rightarrow> nat option \<times> system" where
  "get_free_pde k = (case find_index Not (sy_vm_mark k) of None \<Rightarrow> (None, k)
     | Some i \<Rightarrow> (Some i, k\<lparr>sy_vm_mark := (sy_vm_mark k)[i := True]\<rparr>))"

definition proc_init_space :: "nat \<Rightarrow> system \<Rightarrow> bool \<times> system" where
  "proc_init_space i k =
     (case get_free_pde k of (None, k) \<Rightarrow> (False, k)
      | (Some pde, k) \<Rightarrow>
        let (ok, k) = take_alloc k in
        if \<not> ok then (False, k\<lparr>sy_vm_mark := (sy_vm_mark k)[pde := False]\<rparr>)
        else (True, upd_proc i (\<lambda>p. p\<lparr>p_space := Some pde\<rparr>)
          (k\<lparr>spaces := (spaces k)(pde \<mapsto> zero_space\<lparr>sp_pde_index := pde\<rparr>)\<rparr>)))"

text \<open>The slots of the task table in the order \<open>proc_create\<close> tries them.\<close>

definition slot_order :: "nat \<Rightarrow> nat \<Rightarrow> nat list" where
  "slot_order n start = map (\<lambda>i. let at = i + start in if at \<ge> n then at mod n else at) [0..<n]"

definition free_task_slot :: "system \<Rightarrow> nat option" where
  "free_task_slot k = find (\<lambda>i. task_table k ! i = None) (slot_order (length (task_table k)) (sy_last_create_pid k))"

definition new_task :: "nat \<Rightarrow> task_type \<Rightarrow> u32 \<Rightarrow> u64 \<Rightarrow> proc" where
  "new_task i type uuid sid = zero_proc\<lparr>p_wait_for := -1, p_uuid := uuid, p_pid := int i, p_type := type, p_father_pid := -1,
     p_state := CREATED, p_sid := sid\<rparr>"

definition create_caps :: "nat \<Rightarrow> nat option \<Rightarrow> system \<Rightarrow> system" where
  "create_caps i parent k = (case parent of
      None \<Rightarrow> proc_cap_grant_root (Some i) k
    | Some p \<Rightarrow> (case proc_get_proc k (Some p) of
        None \<Rightarrow> proc_cap_grant_root (Some i) k
      | Some w \<Rightarrow> upd_proc i (\<lambda>q. q\<lparr>p_cnode := cap_cnode_copy (p_cnode q) (p_cnode (the_proc k w))\<rparr>) k))"

definition upd_refs :: "nat option \<Rightarrow> (int \<Rightarrow> int) \<Rightarrow> system \<Rightarrow> system" where
  "upd_refs s f k = upd_space s (\<lambda>sp. sp\<lparr>sp_refs := f (sp_refs sp)\<rparr>) k"

text \<open>The address space of a new task: its own, or a share of its parent's. Only a process may be
  created without a parent.\<close>

definition create_space :: "task_type \<Rightarrow> nat \<Rightarrow> nat option \<Rightarrow> system \<Rightarrow> bool \<times> system" where
  "create_space type i parent k =
     (if type = TASK_TYPE_PROC then proc_init_space i k
      else case parent of None \<Rightarrow> (False, crash k)
      | Some p \<Rightarrow>
        (case proc_space_of k p of None \<Rightarrow> (False, crash k)
         | Some sp \<Rightarrow>
           let (ok, k) = (case sp_thread_stacks sp of Some _ \<Rightarrow> (True, k)
                | None \<Rightarrow>
                  let (ok, k) = take_alloc k in
                  (ok, if ok then set_thread_stacks p (replicate (max_task_per_proc k) \<lparr>ts_base = 0, ts_stacks = False\<rparr>) k else k)) in
           if \<not> ok then (False, k)
           else (True, upd_refs (p_space (the_proc k p)) (\<lambda>r. r + 1)
             (upd_proc i (\<lambda>q. q\<lparr>p_space := p_space (the_proc k p)\<rparr>) k))))"

definition create_inherit :: "nat \<Rightarrow> nat option \<Rightarrow> system \<Rightarrow> system" where
  "create_inherit i parent k = (case parent of None \<Rightarrow> k
     | Some p \<Rightarrow> let q = the_proc k p in
         upd_proc i (\<lambda>x. x\<lparr>p_father_pid := p_pid q, p_uid := p_uid q, p_gid := p_gid q, p_cmd := p_cmd q\<rparr>) k)"

definition proc_init_user_stack :: "nat \<Rightarrow> system \<Rightarrow> bool \<times> system" where
  "proc_init_user_stack i k =
     (if p_type (the_proc k i) = TASK_TYPE_THREAD
      then let (base, k) = thread_stack_alloc i k in (base \<noteq> 0, upd_proc i (\<lambda>p. p\<lparr>p_thread_stack_base := base\<rparr>) k)
      else take_alloc k)"

definition free_space :: "nat \<Rightarrow> system \<Rightarrow> system" where
  "free_space s k = k\<lparr>spaces := (spaces k)(s := None), sy_vm_mark := (sy_vm_mark k)[s := False]\<rparr>"

definition drop_task :: "nat \<Rightarrow> system \<Rightarrow> system" where
  "drop_task i k = k\<lparr>task_table := (task_table k)[i := None]\<rparr>"

text \<open>No memory for the stack: undo the creation.\<close>

definition create_unwind :: "task_type \<Rightarrow> nat \<Rightarrow> system \<Rightarrow> system" where
  "create_unwind type i k =
     (let s = p_space (the_proc k i) in
      drop_task i (if type = TASK_TYPE_PROC
        then (case s of None \<Rightarrow> k | Some x \<Rightarrow> free_space x (mm_log [PageTablesFree x] k))
        else upd_refs s (\<lambda>r. r - 1) k))"

definition proc_update_vsyscall :: "proc \<Rightarrow> system \<Rightarrow> system" where
  "proc_update_vsyscall p k = (if p_pid p < 0 then k
     else k\<lparr>sy_vsyscall := (sy_vsyscall k)(nat (p_pid p) := (p_father_pid p, p_uuid p, p_type p))\<rparr>)"

definition proc_create :: "task_type \<Rightarrow> nat option \<Rightarrow> system \<Rightarrow> nat option \<times> system" where
  "proc_create type parent k =
     (case free_task_slot k of None \<Rightarrow> (None, k)
      | Some i \<Rightarrow>
        let (ok, k) = take_alloc k in
        if \<not> ok then (None, k)
        else
          let (sid, cs) = cap_new_sid (sy_caps k);
              k = k\<lparr>sy_last_create_pid := i + 1, sy_proc_uuid := sy_proc_uuid k + 1, sy_caps := cs\<rparr>;
              k = k\<lparr>task_table := (task_table k)[i := Some (new_task i type (sy_proc_uuid k) sid)]\<rparr>;
              (ok, k) = create_space type i parent (create_caps i parent k) in
          if \<not> ok then (None, drop_task i k)
          else
            let (ok, k) = proc_init_user_stack i (create_inherit i parent k) in
            if \<not> ok then (None, create_unwind type i k)
            else
              let k = upd_proc i (\<lambda>p. p\<lparr>p_start_sec := sy_uptime_sec k\<rparr>) k
              in (Some i, proc_update_vsyscall (the_proc k i) k))"

section \<open>Termination\<close>

definition pid32 :: "int \<Rightarrow> u32" where
  "pid32 pid = of_int pid"

text \<open>What every dying task does first and last.\<close>

definition term_begin :: "nat \<Rightarrow> system \<Rightarrow> system" where
  "term_begin i k =
     (let k = proc_unready_locked i ZOMBIE k;
          k = upd_proc i (\<lambda>p. p\<lparr>p_zombie_since_usec := now_usec k\<rparr>) k;
          k = proc_untrack_interrupt_timeout i k;
          k = proc_untrack_ipc_timeout i k;
          k = kev_push KEV_PROC_EXIT (pid32 (p_pid (the_proc k i))) 0 0 k
      in proc_ipc_cancel_wait i k)"

definition term_end :: "nat \<Rightarrow> system \<Rightarrow> system" where
  "term_end i k =
     (let k = proc_wakeup_waiting (p_pid (the_proc k i)) k;
          k = upd_proc i (\<lambda>p. p\<lparr>p_uuid := 0\<rparr>) k
      in proc_update_vsyscall (the_proc k i) k)"

definition term_thread :: "nat \<Rightarrow> system \<Rightarrow> system" where
  "term_thread i k =
     (let k = (case p_ipc_task (the_proc k i) of None \<Rightarrow> k
               | Some t \<Rightarrow>
                 let k = (case proc_get_proc k (Some i) of None \<Rightarrow> k
                      | Some w \<Rightarrow> (case server_of k w of None \<Rightarrow> k
                        | Some s \<Rightarrow> if is_multi_task s then proc_ipc_task_abort w t k else k))
                 in upd_proc i (\<lambda>p. p\<lparr>p_ipc_task := None\<rparr>) k);
          k = with_sems (semaphore_clear_occupied (p_pid (the_proc k i))) k
      in upd_proc i (\<lambda>p. p\<lparr>p_father_pid := 0\<rparr>) k)"

text \<open>\<open>proc_terminate\<close> of a task that is not a process; a process applies it to its threads.\<close>

definition terminate_task :: "nat \<Rightarrow> system \<Rightarrow> system" where
  "terminate_task i k =
     (if p_state (the_proc k i) = ZOMBIE \<or> p_state (the_proc k i) = UNUSED then k
      else term_end i ((if p_type (the_proc k i) = TASK_TYPE_THREAD then term_thread i else id) (term_begin i k)))"

definition terminate_child_at :: "int \<Rightarrow> nat \<Rightarrow> context_t \<times> system \<Rightarrow> context_t \<times> system" where
  "terminate_child_at pid j ck = (case ck of (ctx, k) \<Rightarrow>
     (case slot k j of None \<Rightarrow> (ctx, k)
      | Some p \<Rightarrow>
        if p_father_pid p \<noteq> pid then (ctx, k)
        else if p_type p = TASK_TYPE_PROC then proc_signal_send ctx (Some j) (uint SYS_SIG_STOP) False k
        else (ctx, terminate_task j k)))"

definition term_interrupt :: "nat \<Rightarrow> system \<Rightarrow> system" where
  "term_interrupt i k =
     (case proc_space_of k i of None \<Rightarrow> k
      | Some sp \<Rightarrow>
        if pi_state (sp_interrupt sp) = INTR_STATE_IDLE then k
        else
          let irq = pi_interrupt (sp_interrupt sp);
              k = (if irq \<noteq> IRQ_SOFT then k\<lparr>sy_intrs := irq_enable_arch irq (sy_intrs k)\<rparr> else k)
          in upd_intr i (\<lambda>pi. pi\<lparr>pi_state := INTR_STATE_IDLE\<rparr>) k)"

definition term_proc :: "context_t \<Rightarrow> nat \<Rightarrow> system \<Rightarrow> context_t \<times> system" where
  "term_proc ctx i k =
     (let pid = p_pid (the_proc k i);
          k = with_sems (semaphore_clear pid) k;
          k = with_sems (semaphore_clear_occupied pid) k;
          (ctx, k) = fold (terminate_child_at pid) [0..<length (task_table k)] (ctx, k);
          k = proc_ipc_clear i k;
          k = proc_ipc_wakeup_all i k;
          k = proc_interrupt_wakeup_all i k
      in (ctx, term_interrupt i k))"

definition proc_terminate :: "context_t \<Rightarrow> nat \<Rightarrow> system \<Rightarrow> context_t \<times> system" where
  "proc_terminate ctx i k =
     (if p_state (the_proc k i) = ZOMBIE \<or> p_state (the_proc k i) = UNUSED then (ctx, k)
      else if p_type (the_proc k i) = TASK_TYPE_PROC
      then (let (ctx, k) = term_proc ctx i (term_begin i k) in (ctx, term_end i k))
      else (ctx, terminate_task i k))"

definition proc_exit :: "context_t \<Rightarrow> nat option \<Rightarrow> int \<Rightarrow> system \<Rightarrow> context_t \<times> system" where
  "proc_exit ctx p res k =
     (let p = (case p of None \<Rightarrow> get_current_proc k | Some i \<Rightarrow> Some i);
          (ctx, k) = (case p of None \<Rightarrow> (ctx, k)
            | Some i \<Rightarrow> if p_state (the_proc k i) \<noteq> UNUSED \<and> p_state (the_proc k i) \<noteq> ZOMBIE
                then proc_terminate ctx i k else (ctx, k))
      in schedule ctx k)"

section \<open>Burial\<close>

text \<open>\<open>thread_stack_free\<close> on behalf of a task that has left the table.\<close>

definition stack_free_in :: "nat \<Rightarrow> u64 \<Rightarrow> system \<Rightarrow> system" where
  "stack_free_in s base k =
     (case spaces k s of None \<Rightarrow> k
      | Some sp \<Rightarrow> (case sp_thread_stacks sp of None \<Rightarrow> k
        | Some sts \<Rightarrow> (case find_index (\<lambda>x. ts_base x = base) sts of None \<Rightarrow> k
          | Some j \<Rightarrow> upd_space (Some s) (\<lambda>sp. sp\<lparr>sp_thread_stacks := Some (sts[j := \<lparr>ts_base = 0, ts_stacks = False\<rparr>])\<rparr>) k)))"

definition proc_free_user_stack :: "proc \<Rightarrow> nat \<Rightarrow> system \<Rightarrow> system" where
  "proc_free_user_stack p s k =
     (if p_type p = TASK_TYPE_THREAD
      then if p_thread_stack_base p \<noteq> 0 then stack_free_in s (p_thread_stack_base p) k else k
      else mm_log [StackUnmap s] k)"

definition proc_wake_thread_stack_waiters :: "nat \<Rightarrow> system \<Rightarrow> system" where
  "proc_wake_thread_stack_waiters s k =
     (case find_index (\<lambda>x. case x of None \<Rightarrow> False | Some p \<Rightarrow> p_space p = Some s \<and> p_type p = TASK_TYPE_PROC) (task_table k) of
        None \<Rightarrow> k
      | Some i \<Rightarrow> (case server_of k i of None \<Rightarrow> k
          | Some sv \<Rightarrow> if is_multi_task sv then snd (proc_ipc_wakeup i k) else k))"

definition free_handler_stacks :: "nat \<Rightarrow> proc_space \<Rightarrow> system \<Rightarrow> system" where
  "free_handler_stacks s sp k =
     (let k = (if pi_stack (sp_interrupt sp) \<noteq> 0 then stack_free_in s (pi_stack (sp_interrupt sp)) k else k);
          k = (if sg_stack (sp_signal sp) \<noteq> 0 then stack_free_in s (sg_stack (sp_signal sp)) k else k)
      in if is_stack (sp_ipc_server sp) \<noteq> 0 then stack_free_in s (is_stack (sp_ipc_server sp)) k else k)"

text \<open>The two halves of \<open>proc_funeral\<close>: a process takes its address space with it, any other task gives
  its stack slot back.\<close>

definition bury_space :: "proc \<Rightarrow> nat \<Rightarrow> proc_space \<Rightarrow> system \<Rightarrow> system" where
  "bury_space p s sp k =
     (let k = free_handler_stacks s sp k;
          k = mm_log [HeapRelease s (sp_heap_size sp), WindowRelease s, ShmUnmapAll s, ShmReleaseOrphans (p_pid p), PageTablesFree s] k
      in free_space s k)"

definition bury_task :: "proc \<Rightarrow> nat \<Rightarrow> system \<Rightarrow> system" where
  "bury_task p s k =
     (let k = (if p_thread_stack_base p \<noteq> 0 then stack_free_in s (p_thread_stack_base p) k else k);
          k = mm_log [ShmReleaseOrphans (p_pid p)] k
      in if p_type p = TASK_TYPE_THREAD \<and> p_thread_stack_base p \<noteq> 0 then proc_wake_thread_stack_waiters s k else k)"

definition proc_funeral :: "proc \<Rightarrow> system \<Rightarrow> system" where
  "proc_funeral p k =
     (case get_current_proc k of None \<Rightarrow> k
      | Some c \<Rightarrow>
        if p_state p = UNUSED then k
        else case p_space p of None \<Rightarrow> drop_task (nat (p_pid p)) k
        | Some s \<Rightarrow>
          (case spaces k s of None \<Rightarrow> crash k
           | Some sp \<Rightarrow>
             if p_type p = TASK_TYPE_PROC \<and> sp_refs sp > 0 then k
             else
               let k = (if p_type p \<noteq> TASK_TYPE_PROC \<and> sp_refs sp > 0 then upd_refs (Some s) (\<lambda>r. r - 1) k else k) in
               if p_type p = TASK_TYPE_PROC \<and> sp_pde_index sp \<ge> length (sy_vm_mark k) then drop_task (nat (p_pid p)) k
               else
                 let k = mm_log [DmaRelease (p_pid p), DmaForgetPeer (p_pid p)] k;
                     k = proc_free_user_stack p s k;
                     k = (if p_type p = TASK_TYPE_PROC then bury_space p s sp k else bury_task p s k);
                     k = k\<lparr>active_space := (active_space k)(core_id k := p_space (the_proc k c))\<rparr>
                 in drop_task (nat (p_pid p)) k))"

definition proc_can_reap_locked :: "system \<Rightarrow> proc option \<Rightarrow> bool" where
  "proc_can_reap_locked k p = (case p of None \<Rightarrow> False
     | Some q \<Rightarrow>
       if p_state q \<noteq> ZOMBIE then False
       else if p_type q = TASK_TYPE_PROC \<and> (case space_at k (p_space q) of None \<Rightarrow> False | Some sp \<Rightarrow> sp_refs sp > 0) then False
       else True)"

definition proc_take_zombie_by_pid :: "int \<Rightarrow> system \<Rightarrow> proc option \<times> system" where
  "proc_take_zombie_by_pid pid k =
     (if pid < 0 \<or> pid \<ge> int (length (task_table k)) then (None, k)
      else if proc_can_reap_locked k (task_table k ! nat pid) then (task_table k ! nat pid, drop_task (nat pid) k)
      else (None, k))"

definition ZOMBIE_TIMEOUT :: u64 where
  "ZOMBIE_TIMEOUT = 3000000"

text \<open>A zombie process is kept for its parent until the parent is gone or the grace time is over.\<close>

definition in_grace :: "system \<Rightarrow> proc \<Rightarrow> bool" where
  "in_grace k q \<longleftrightarrow> p_type q = TASK_TYPE_PROC \<and> p_father_pid q > 0 \<and> p_father_pid q < int (length (task_table k)) \<and>
     (case task_table k ! nat (p_father_pid q) of None \<Rightarrow> False
      | Some f \<Rightarrow> p_state f \<noteq> UNUSED \<and> p_state f \<noteq> ZOMBIE \<and> now_usec k - p_zombie_since_usec q < ZOMBIE_TIMEOUT)"

definition proc_take_next_zombie :: "bool \<Rightarrow> system \<Rightarrow> proc option \<times> system" where
  "proc_take_next_zombie force k =
     (case find_index (\<lambda>x. proc_can_reap_locked k x \<and> (force \<or> \<not> in_grace k (the x))) (task_table k) of
        None \<Rightarrow> (None, k)
      | Some i \<Rightarrow> (task_table k ! i, drop_task i k))"

text \<open>Each pass takes a task out of the table and none puts one in, so the size of the table bounds the
  number of passes.\<close>

fun zombie_loop :: "nat \<Rightarrow> bool \<Rightarrow> system \<Rightarrow> system" where
  "zombie_loop 0 force k = k"
| "zombie_loop (Suc n) force k =
     (case proc_take_next_zombie force k of (None, k) \<Rightarrow> k | (Some p, k) \<Rightarrow> zombie_loop n force (proc_funeral p k))"

definition proc_zombie_funeral :: "bool \<Rightarrow> system \<Rightarrow> system" where
  "proc_zombie_funeral force k = zombie_loop (Suc (length (task_table k))) force k"

definition proc_waitpid :: "context_t \<Rightarrow> int \<Rightarrow> system \<Rightarrow> context_t \<times> system" where
  "proc_waitpid ctx pid k =
     (let ctx = set_gpr 0 (-1) ctx in
      case get_current_proc k of None \<Rightarrow> (ctx, k)
      | Some c \<Rightarrow>
        if pid < 0 \<or> pid \<ge> int (length (task_table k)) then (ctx, k)
        else case task_table k ! nat pid of None \<Rightarrow> (ctx, k)
        | Some p \<Rightarrow>
          if p_state p = UNUSED then (ctx, k)
          else if p_state p = ZOMBIE
          then (case proc_take_zombie_by_pid pid k of
                  (None, k) \<Rightarrow> (set_gpr 0 0 ctx, k) | (Some q, k) \<Rightarrow> (set_gpr 0 0 ctx, proc_funeral q k))
          else
            let k = upd_proc c (\<lambda>q. q\<lparr>p_wait_for := pid\<rparr>) k;
                k = proc_account_pause_current (proc_unready_locked c WAIT k);
                (ctx, k) = schedule (set_gpr 0 0 ctx) k;
                k = proc_account_resume_current k in
            (case proc_take_zombie_by_pid pid k of (None, k) \<Rightarrow> (ctx, k) | (Some q, k) \<Rightarrow> (ctx, proc_funeral q k)))"

section \<open>Choice of a core\<close>

definition refresh_at :: "bool \<Rightarrow> bool \<Rightarrow> nat \<Rightarrow> system \<Rightarrow> system" where
  "refresh_at refresh_idle refresh_non_idle i k =
     (case slot k i of None \<Rightarrow> k
      | Some p \<Rightarrow>
        if p_state p = UNUSED \<or> p_state p = ZOMBIE then k
        else if p_is_core_idle p \<and> \<not> refresh_idle then k
        else if \<not> p_is_core_idle p \<and> \<not> refresh_non_idle then k
        else
          let k = proc_account_running_until (Some i) k
          in upd_proc i (\<lambda>p. p\<lparr>p_run_usec := proc_run_usec_snapshot_at k i\<rparr>) k)"

definition proc_refresh_runtime_stats_internal :: "bool \<Rightarrow> bool \<Rightarrow> system \<Rightarrow> system" where
  "proc_refresh_runtime_stats_internal refresh_idle refresh_non_idle k =
     fold (refresh_at refresh_idle refresh_non_idle) [0..<length (task_table k)] k"

definition proc_refresh_runtime_stats :: "system \<Rightarrow> system" where
  "proc_refresh_runtime_stats k = proc_refresh_runtime_stats_internal False True k"

definition core_task_count_locked :: "system \<Rightarrow> nat \<Rightarrow> nat" where
  "core_task_count_locked k c = length (filter (\<lambda>x. case x of None \<Rightarrow> False
     | Some p \<Rightarrow> p_state p \<noteq> UNUSED \<and> p_state p \<noteq> ZOMBIE \<and> \<not> p_is_core_idle p \<and> p_core p = c) (task_table k))"

text \<open>The scan of \<open>core_fetch\<close>: \<open>Inl\<close> is the core whose idle task has not started yet, \<open>Inr\<close> the best
  core so far with its number of tasks and its idle time.\<close>

definition fetch_at :: "system \<Rightarrow> nat \<Rightarrow> nat + (nat \<times> nat \<times> u32) option \<Rightarrow> nat + (nat \<times> nat \<times> u32) option" where
  "fetch_at k i acc = (case acc of Inl c \<Rightarrow> Inl c
     | Inr best \<Rightarrow>
       if \<not> cc_actived (cpu_cores k i) then Inr best
       else case cc_idle_proc (cpu_cores k i) of None \<Rightarrow> Inr best
       | Some d \<Rightarrow>
         if p_state (the_proc k d) = CREATED then Inl i
         else
           let tasks = core_task_count_locked k i; idle = p_run_usec (the_proc k d) in
           (case best of None \<Rightarrow> Inr (Some (i, tasks, idle))
            | Some (b, bt, bi) \<Rightarrow> if tasks < bt \<or> (tasks = bt \<and> idle > bi) then Inr (Some (i, tasks, idle)) else Inr best))"

definition core_fetch :: "nat \<Rightarrow> system \<Rightarrow> nat \<times> system" where
  "core_fetch i k =
     (if cores k = 1 \<or> p_uid (the_proc k i) < 0 then (0, k)
      else
        let start = (if sy_use_core_id k \<ge> cores k then 0 else sy_use_core_id k);
            k = proc_refresh_runtime_stats_internal True False k in
        (case fold (fetch_at k) (map (\<lambda>off. (start + off) mod cores k) [0..<cores k]) (Inr None) of
           Inl c \<Rightarrow> (c, k\<lparr>sy_use_core_id := (c + 1) mod cores k\<rparr>)
         | Inr None \<Rightarrow> (0, k)
         | Inr (Some (c, _)) \<Rightarrow> (c, k\<lparr>sy_use_core_id := (c + 1) mod cores k\<rparr>)))"

definition core_attach :: "nat option \<Rightarrow> system \<Rightarrow> system" where
  "core_attach p k = (case p of None \<Rightarrow> k
     | Some i \<Rightarrow> let (c, k) = core_fetch i k in upd_proc i (\<lambda>p. p\<lparr>p_core := c\<rparr>) k)"

section \<open>Fork\<close>

text \<open>The child shares the parent's heap pages and gets a copy of its stack; the clone of the mapping
  window may run out of memory.\<close>

definition proc_clone :: "nat \<Rightarrow> nat \<Rightarrow> system \<Rightarrow> bool \<times> system" where
  "proc_clone child parent k =
     (case (p_space (the_proc k child), p_space (the_proc k parent), proc_space_of k parent) of
        (Some cs, Some ps, Some sp) \<Rightarrow>
          let pages = sp_heap_size sp div of_nat PAGE_SIZE + (if sp_heap_size sp mod of_nat PAGE_SIZE \<noteq> 0 then 1 else 0);
              k = mm_log [CowShare ps cs pages, StackCopy ps cs] k;
              k = upd_space (Some cs) (\<lambda>x. x\<lparr>sp_heap_size := pages * of_nat PAGE_SIZE, sp_heap_used := sp_heap_used sp,
                    sp_malloc_base := sp_malloc_base sp, sp_rw_heap_base := sp_rw_heap_base sp\<rparr>) k
          in take_alloc k
      | _ \<Rightarrow> (False, crash k))"

definition kfork_raw :: "context_t option \<Rightarrow> task_type \<Rightarrow> nat \<Rightarrow> system \<Rightarrow> nat option \<times> system" where
  "kfork_raw ctx type parent k =
     (let (child, k) = proc_create type (Some parent) k;
          (child, k) = (if child = None then proc_create type (Some parent) (proc_zombie_funeral True k) else (child, k)) in
      case child of None \<Rightarrow> (None, k)
      | Some i \<Rightarrow>
        let k = upd_proc i (\<lambda>p. p\<lparr>p_ctx := set_gpr 0 0 (case ctx of Some c \<Rightarrow> c | None \<Rightarrow> p_ctx (the_proc k parent))\<rparr>) k in
        if type = TASK_TYPE_PROC
        then let (ok, k) = proc_clone i parent k in (if ok then Some i else None, k)
        else (Some i, upd_proc i (\<lambda>p. p\<lparr>p_ctx := (p_ctx p)\<lparr>ctx_sp := worker_sp p\<rparr>\<rparr>) k))"

text \<open>A failed fork is not checked for before the child's type is read.\<close>

definition kfork :: "context_t \<Rightarrow> task_type \<Rightarrow> system \<Rightarrow> nat option \<times> system" where
  "kfork ctx type k =
     (case get_current_proc k of None \<Rightarrow> (None, crash k)
      | Some c \<Rightarrow>
        let (child, k) = kfork_raw (Some ctx) type c k;
            k = core_attach child k in
        case child of
          None \<Rightarrow> (None, if sy_core_proc_ready k then crash k else k)
        | Some i \<Rightarrow>
          (Some i, if \<not> (sy_core_proc_ready k \<and> p_type (the_proc k i) = TASK_TYPE_PROC) then proc_ready i k else k))"

definition proc_ipc_pool_spawn :: "nat \<Rightarrow> nat \<Rightarrow> system \<Rightarrow> nat option \<times> system" where
  "proc_ipc_pool_spawn sv core k =
     (case server_of k sv of None \<Rightarrow> (None, k)
      | Some s \<Rightarrow>
        if is_entry s = 0 then (None, k)
        else case kfork_raw None TASK_TYPE_THREAD sv k of (None, k) \<Rightarrow> (None, k)
        | (Some w, k) \<Rightarrow>
          if p_thread_stack_base (the_proc k w) = 0 then (None, snd (proc_terminate zero_ctx w k))
          else if core \<ge> cores k then (None, snd (proc_terminate zero_ctx w k))
          else (Some w, upd_proc w (\<lambda>p. p\<lparr>p_core := core, p_state := BLOCK,
                 p_ctx := set_gpr 1 (is_extra_data s) ((p_ctx p)\<lparr>ctx_pc := is_entry s, ctx_lr := is_entry s\<rparr>)\<rparr>) k))"

section \<open>System calls\<close>

definition sys_exit :: "context_t \<Rightarrow> int \<Rightarrow> system \<Rightarrow> context_t \<times> system" where
  "sys_exit ctx res k = proc_exit (set_gpr 0 0 ctx) (get_current_proc k) res k"

definition sys_signal :: "context_t \<Rightarrow> int \<Rightarrow> int \<Rightarrow> system \<Rightarrow> context_t \<times> system" where
  "sys_signal ctx pid sig k =
     (let ctx = set_gpr 0 (-1) ctx in
      case proc_get k pid of None \<Rightarrow> (ctx, k)
      | Some i \<Rightarrow>
        if p_uid (the_proc k i) < 0 then (ctx, k)
        else case get_current_proc k of None \<Rightarrow> (ctx, crash k)
        | Some c \<Rightarrow>
          if p_uid (the_proc k c) > 0 \<and> p_uid (the_proc k c) \<noteq> p_uid (the_proc k i) \<and> \<not> proc_cap_check_proc k (Some c) pid CAP_W
          then (ctx, k)
          else
            let ctx = set_gpr 0 0 ctx in
            if (sig = uint SYS_SIG_KILL \<or> sig = uint SYS_SIG_STOP) \<and> i \<noteq> c \<and>
               p_state (the_proc k i) \<noteq> RUNNING \<and> p_state (the_proc k i) \<noteq> READY
            then proc_exit ctx (Some i) 0 k
            else proc_signal_send ctx (Some i) sig True k)"

definition sys_fork :: "context_t \<Rightarrow> system \<Rightarrow> context_t \<times> system" where
  "sys_fork ctx k =
     (case kfork ctx TASK_TYPE_PROC k of (None, k) \<Rightarrow> (set_gpr 0 (-1) ctx, k)
      | (Some i, k) \<Rightarrow>
        let k = upd_proc i (\<lambda>p. p\<lparr>p_ctx := set_gpr 0 0 ctx\<rparr>) k;
            pid = of_int (p_pid (the_proc k i)) :: u64;
            ctx = set_gpr 0 pid ctx in
        if p_state (the_proc k i) = CREATED \<and> sy_core_proc_ready k
        then (case get_current_proc k of None \<Rightarrow> (ctx, crash k)
          | Some c \<Rightarrow>
            let k = upd_proc i (\<lambda>p. p\<lparr>p_state := BLOCK\<rparr>) k;
                k = upd_proc c (\<lambda>p. p\<lparr>p_state := BLOCK, p_ctx := set_gpr 0 pid (p_ctx p)\<rparr>) k;
                k = kev_push KEV_PROC_CREATED (pid32 (p_pid (the_proc k c))) (pid32 (p_pid (the_proc k i))) 0 k
            in schedule ctx k)
        else (ctx, k))"

definition sys_detach :: "system \<Rightarrow> system" where
  "sys_detach k = (case get_current_proc k of None \<Rightarrow> crash k
     | Some c \<Rightarrow> upd_proc c (\<lambda>p. p\<lparr>p_father_pid := 0\<rparr>) k)"

definition sys_thread :: "context_t \<Rightarrow> u64 \<Rightarrow> u64 \<Rightarrow> u64 \<Rightarrow> system \<Rightarrow> context_t \<times> system" where
  "sys_thread ctx entry func arg k =
     (let ctx = set_gpr 0 (-1) ctx in
      case kfork ctx TASK_TYPE_THREAD k of (None, k) \<Rightarrow> (ctx, k)
      | (Some i, k) \<Rightarrow>
        (set_gpr 0 (of_int (p_pid (the_proc k i))) ctx,
         upd_proc i (\<lambda>p. p\<lparr>p_ctx := set_gpr 1 arg (set_gpr 0 func ((p_ctx p)\<lparr>ctx_pc := entry, ctx_lr := entry\<rparr>))\<rparr>) k))"

definition sys_waitpid :: "context_t \<Rightarrow> int \<Rightarrow> system \<Rightarrow> context_t \<times> system" where
  "sys_waitpid ctx pid k = proc_waitpid ctx pid k"

text \<open>The ipc calls with the life-cycle operations they use.\<close>

definition sys_ipc_call :: "context_t \<Rightarrow> int \<Rightarrow> int \<Rightarrow> uproto option \<Rightarrow> u32 \<Rightarrow> system \<Rightarrow> (context_t \<times> u32 \<times> system) option" where
  "sys_ipc_call = proc_ipc_call proc_ipc_pool_spawn"

definition sys_ipc_end :: "context_t \<Rightarrow> system \<Rightarrow> context_t \<times> system" where
  "sys_ipc_end ctx k = proc_ipc_end (\<lambda>ctx w. proc_exit ctx (Some w)) (sy_uptime_sec k) ctx k"

section \<open>The kernel's clocks\<close>

definition KERNEL_PROC_RUN_RECOUNT_SEC :: u64 where
  "KERNEL_PROC_RUN_RECOUNT_SEC = 2"

definition shrink_at :: "nat \<Rightarrow> system \<Rightarrow> system" where
  "shrink_at i k = (case slot k i of None \<Rightarrow> k
     | Some p \<Rightarrow>
       if p_type p = TASK_TYPE_PROC \<and> p_state p \<noteq> UNUSED \<and> p_state p \<noteq> ZOMBIE \<and>
          (case server_of k i of None \<Rightarrow> False | Some s \<Rightarrow> is_multi_task s)
       then proc_ipc_pool_shrink (sy_uptime_sec k) i k else k)"

definition recount_at :: "nat \<Rightarrow> system \<Rightarrow> system" where
  "recount_at i k = (case slot k i of None \<Rightarrow> k
     | Some p \<Rightarrow>
       if p_state p \<noteq> UNUSED \<and> p_state p \<noteq> ZOMBIE
       then upd_proc i (\<lambda>p. p\<lparr>p_run_usec_counter := 0, p_run_usec := 0,
              p_run_last_start_usec := (if p_run_accounting_active p then now_usec k else p_run_last_start_usec p)\<rparr>) k
       else k)"

definition renew_kernel_sec :: "system \<Rightarrow> system" where
  "renew_kernel_sec k =
     (let k = proc_zombie_funeral False k;
          k = proc_refresh_runtime_stats k;
          k = fold shrink_at [0..<length (task_table k)] k in
      if now_usec k - run_window_start_usec k \<ge> KERNEL_PROC_RUN_RECOUNT_SEC * 1000000
      then (fold recount_at [0..<length (task_table k)] k)\<lparr>run_window_start_usec := now_usec k\<rparr>
      else k)"

definition renew_kernel_tic :: "u32 \<Rightarrow> system \<Rightarrow> int \<times> system" where
  "renew_kernel_tic usec k =
     (let k = renew_priority_counter k;
          (_, s, k) = renew_interrupt_counter usec (sy_intrs k) k;
          k = k\<lparr>sy_intrs := s\<rparr>;
          (_, k) = renew_ipc_counter usec k
      in renew_sleep_counter usec k)"

end
