(* ===== verification/Life_Frame.thy ===== *)
theory Life_Frame
  imports Lifecycle Ipc_Exit
begin

text \<open>
  Ownership of address spaces. \<open>owns\<close> is what the life of a task is about: who is in the task table
  with which address space, and which address spaces exist with how many references. No operation of
  the scheduler, of the ipc and of the interrupt paths changes it.
\<close>

named_theorems owns_frame "operations that leave the ownership of address spaces alone"

definition own_of :: "proc \<Rightarrow> int \<times> task_type \<times> nat option" where
  "own_of p = (p_pid p, p_type p, p_space p)"

definition hold_of :: "proc_space \<Rightarrow> int \<times> nat" where
  "hold_of sp = (sp_refs sp, sp_pde_index sp)"

definition owners :: "'a kernel_scheme \<Rightarrow> (int \<times> task_type \<times> nat option) option list" where
  "owners k = map (map_option own_of) (task_table k)"

definition holds :: "'a kernel_scheme \<Rightarrow> nat \<Rightarrow> (int \<times> nat) option" where
  "holds k s = map_option hold_of (spaces k s)"

definition owns :: "'a kernel_scheme \<Rightarrow> (int \<times> task_type \<times> nat option) option list \<times> (nat \<Rightarrow> (int \<times> nat) option) \<times> 'a" where
  "owns k = (owners k, holds k, kernel.more k)"

lemma owns_upd_proc [simp, owns_frame]: "(\<And>p. own_of (f p) = own_of p) \<Longrightarrow> owns (upd_proc i f k) = owns k"
  by (auto simp: owns_def owners_def holds_def fun_eq_iff upd_proc_def slot_def nth_list_update option.map_comp comp_def
      intro!: nth_equalityI)

lemma owns_upd_const:
  assumes "own_of p = own_of (the_proc k i)"
  shows "owns (upd_proc i (\<lambda>_. p) k) = owns k"
proof -
  have "upd_proc i (\<lambda>_. p) k = upd_proc i (\<lambda>q. if q = the_proc k i then p else q) k"
    by (cases "slot k i") (simp_all add: upd_proc_def the_proc_def)
  then show ?thesis using assms by simp
qed

lemma owns_upd_space [simp, owns_frame]: "(\<And>sp. hold_of (g sp) = hold_of sp) \<Longrightarrow> owns (upd_space s g k) = owns k"
  by (auto simp: owns_def owners_def holds_def fun_eq_iff upd_space_def option.map_comp comp_def split: option.split)

lemma owns_more [simp, owns_frame]:
  "owns (k\<lparr>priority_update_queue := x1\<rparr>) = owns k"
  "owns (k\<lparr>ready_queue := x2\<rparr>) = owns k"
  "owns (k\<lparr>cpu_cores := x3\<rparr>) = owns k"
  "owns (k\<lparr>ipi_sent := x4\<rparr>) = owns k"
  "owns (k\<lparr>current_proc := x5\<rparr>) = owns k"
  "owns (k\<lparr>active_space := x6\<rparr>) = owns k"
  "owns (k\<lparr>tls_reg := x7\<rparr>) = owns k"
  "owns (k\<lparr>alloc_results := x8\<rparr>) = owns k"
  "owns (k\<lparr>halted := x9\<rparr>) = owns k"
  "owns (k\<lparr>interrupt_timeout_queue := x10\<rparr>) = owns k"
  "owns (k\<lparr>ipc_timeout_queue := x11\<rparr>) = owns k"
  "owns (k\<lparr>run_window_start_usec := x12\<rparr>) = owns k"
  by (simp_all add: owns_def owners_def holds_def fun_eq_iff)

lemma own_simps [simp]:
  "own_of (p\<lparr>p_state := a1\<rparr>) = own_of p" "own_of (p\<lparr>p_wait_for := a2\<rparr>) = own_of p"
  "own_of (p\<lparr>p_priority_count := a3\<rparr>) = own_of p" "own_of (p\<lparr>p_ipc_res := a4\<rparr>) = own_of p"
  "own_of (p\<lparr>p_wait_item_queued := a5\<rparr>) = own_of p" "own_of (p\<lparr>p_ipc_waiting_on := a6\<rparr>) = own_of p"
  "own_of (p\<lparr>p_sleep_counter := a7\<rparr>) = own_of p" "own_of (p\<lparr>p_run_usec_counter := a8\<rparr>) = own_of p"
  "own_of (p\<lparr>p_run_last_start_usec := a9\<rparr>) = own_of p" "own_of (p\<lparr>p_run_accounting_active := b1\<rparr>) = own_of p"
  "own_of (p\<lparr>p_block_by := b2\<rparr>) = own_of p" "own_of (p\<lparr>p_wake_by := b3\<rparr>) = own_of p"
  "own_of (p\<lparr>p_wake_pending := b4\<rparr>) = own_of p" "own_of (p\<lparr>p_tls_base := b5\<rparr>) = own_of p"
  "own_of (p\<lparr>p_ctx := b6\<rparr>) = own_of p" "own_of (p\<lparr>p_uuid := b7\<rparr>) = own_of p"
  "own_of (p\<lparr>p_core := b8\<rparr>) = own_of p" "own_of (p\<lparr>p_father_pid := b9\<rparr>) = own_of p"
  "own_of (p\<lparr>p_ipc_task := c1\<rparr>) = own_of p" "own_of (p\<lparr>p_zombie_since_usec := c2\<rparr>) = own_of p"
  "own_of (p\<lparr>p_run_usec := c3\<rparr>) = own_of p" "own_of (p\<lparr>p_start_sec := c4\<rparr>) = own_of p"
  "own_of (p\<lparr>p_thread_stack_base := c5\<rparr>) = own_of p" "own_of (p\<lparr>p_cnode := c6\<rparr>) = own_of p"
  "own_of (p\<lparr>p_uid := c7\<rparr>) = own_of p" "own_of (p\<lparr>p_gid := c8\<rparr>) = own_of p"
  "own_of (p\<lparr>p_cmd := c9\<rparr>) = own_of p"
  by (simp_all add: own_of_def)

lemma hold_simps [simp]:
  "hold_of (sp\<lparr>sp_ipc_server := a1\<rparr>) = hold_of sp" "hold_of (sp\<lparr>sp_signal := a2\<rparr>) = hold_of sp"
  "hold_of (sp\<lparr>sp_interrupt := a3\<rparr>) = hold_of sp" "hold_of (sp\<lparr>sp_thread_stacks := a4\<rparr>) = hold_of sp"
  "hold_of (sp\<lparr>sp_heap_size := a5\<rparr>) = hold_of sp" "hold_of (sp\<lparr>sp_heap_used := a6\<rparr>) = hold_of sp"
  "hold_of (sp\<lparr>sp_malloc_base := a7\<rparr>) = hold_of sp" "hold_of (sp\<lparr>sp_rw_heap_base := a8\<rparr>) = hold_of sp"
  "hold_of (sp\<lparr>sp_ready_ping := a9\<rparr>) = hold_of sp"
  by (simp_all add: hold_of_def)

section \<open>The scheduler\<close>

lemma owns_fold: "(\<And>i k. owns (f i k) = owns k) \<Longrightarrow> owns (fold f xs k) = owns k"
  by (induction xs arbitrary: k) simp_all

lemma own_latch [simp]: "own_of (latch_wake t p) = own_of p"
  by (simp add: latch_wake_def)

lemma owns_proc_account_running_until [simp, owns_frame]: "owns (proc_account_running_until p k) = owns k"
  by (simp add: proc_account_running_until_def Let_def case_prod_beta split: option.split)

lemma owns_proc_account_switch_out [simp, owns_frame]: "owns (proc_account_switch_out p k) = owns k"
  by (simp add: proc_account_switch_out_def Let_def case_prod_beta split: option.split)

lemma owns_proc_account_switch_in [simp, owns_frame]: "owns (proc_account_switch_in p k) = owns k"
  by (simp add: proc_account_switch_in_def Let_def case_prod_beta split: option.split)

lemma owns_set_current_proc [simp, owns_frame]: "owns (set_current_proc p k) = owns k"
  by (simp add: set_current_proc_def Let_def case_prod_beta split: option.split)

lemma owns_proc_account_pause_current [simp, owns_frame]: "owns (proc_account_pause_current k) = owns k"
  by (simp add: proc_account_pause_current_def Let_def case_prod_beta split: option.split)

lemma owns_proc_account_resume_current [simp, owns_frame]: "owns (proc_account_resume_current k) = owns k"
  by (simp add: proc_account_resume_current_def Let_def case_prod_beta split: option.split)

lemma owns_proc_track_priority_update [simp, owns_frame]: "owns (proc_track_priority_update i k) = owns k"
  by (simp add: proc_track_priority_update_def Let_def case_prod_beta split: option.split)

lemma owns_proc_untrack_priority_update [simp, owns_frame]: "owns (proc_untrack_priority_update i k) = owns k"
  by (simp add: proc_untrack_priority_update_def Let_def case_prod_beta split: option.split)

lemma owns_set_ready_queue [simp, owns_frame]: "owns (set_ready_queue c q k) = owns k"
  by (simp add: set_ready_queue_def Let_def case_prod_beta split: option.split)

lemma owns_proc_queue_remove_all [simp, owns_frame]: "owns (proc_queue_remove_all i k) = owns k"
  by (simp add: proc_queue_remove_all_def Let_def case_prod_beta split: option.split)

lemma owns_proc_kick_ready_core [simp, owns_frame]: "owns (proc_kick_ready_core i k) = owns k"
  by (simp add: proc_kick_ready_core_def Let_def case_prod_beta split: option.split)

lemma owns_proc_ready_with_order [simp, owns_frame]: "owns (proc_ready_with_order i h k) = owns k"
  by (simp add: proc_ready_with_order_def Let_def case_prod_beta split: option.split)

lemma owns_proc_ready [simp, owns_frame]: "owns (proc_ready i k) = owns k"
  by (simp add: proc_ready_def Let_def case_prod_beta split: option.split)

lemma owns_proc_get_next_ready [simp, owns_frame]: "owns (snd (proc_get_next_ready k)) = owns k"
  by (simp add: proc_get_next_ready_def Let_def case_prod_beta split: option.split)

lemma owns_proc_unready_locked [simp, owns_frame]: "owns (proc_unready_locked i st k) = owns k"
  by (simp add: proc_unready_locked_def Let_def case_prod_beta split: option.split)

lemma owns_proc_wakeup_waiting_at [simp, owns_frame]: "owns (proc_wakeup_waiting_at pid i k) = owns k"
  by (simp add: proc_wakeup_waiting_at_def Let_def case_prod_beta split: option.split)

lemma owns_proc_wakeup_waiting [simp, owns_frame]: "owns (proc_wakeup_waiting pid k) = owns k"
  by (simp add: proc_wakeup_waiting_def owns_fold Let_def case_prod_beta split: option.split)

lemma owns_proc_ipc_cancel_wait [simp, owns_frame]: "owns (proc_ipc_cancel_wait i k) = owns k"
  by (simp add: proc_ipc_cancel_wait_def Let_def case_prod_beta split: option.split)

lemma owns_proc_wakeup_all_state [simp, owns_frame]: "owns (proc_wakeup_all_state i k) = owns k"
  by (simp add: proc_wakeup_all_state_def Let_def case_prod_beta split: option.split)

lemma owns_wake_resched [simp, owns_frame]: "owns (wake_resched i k) = owns k"
  by (simp add: wake_resched_def Let_def case_prod_beta split: option.split)

lemma owns_proc_wakeup_by [simp, owns_frame]: "owns (proc_wakeup_by i t k) = owns k"
  by (simp add: proc_wakeup_by_def own_latch Let_def case_prod_beta split: option.split)

lemma owns_proc_wakeup [simp, owns_frame]: "owns (proc_wakeup i k) = owns k"
  by (simp add: proc_wakeup_def Let_def case_prod_beta split: option.split)

lemma owns_take_alloc [simp, owns_frame]: "owns (snd (take_alloc k)) = owns k"
  by (simp add: take_alloc_def Let_def case_prod_beta split: list.split option.split)

lemma owns_set_thread_stacks [simp, owns_frame]: "owns (set_thread_stacks i sts k) = owns k"
  by (simp add: set_thread_stacks_def Let_def case_prod_beta split: option.split)

lemma owns_thread_stack_slot [simp, owns_frame]: "owns (snd (thread_stack_slot i sts k)) = owns k"
  by (simp add: thread_stack_slot_def Let_def case_prod_beta split: option.split)

lemma owns_thread_stack_alloc [simp, owns_frame]: "owns (snd (thread_stack_alloc i k)) = owns k"
  by (simp add: thread_stack_alloc_def Let_def case_prod_beta split: option.split)

lemma owns_inject_interrupt [simp, owns_frame]: "owns (inject_interrupt i sp k) = owns k"
  by (simp add: inject_interrupt_def Let_def case_prod_beta split: option.split)

lemma owns_inject_signal [simp, owns_frame]: "owns (inject_signal i sp k) = owns k"
  by (simp add: inject_signal_def Let_def case_prod_beta split: option.split)

lemma owns_inject_ipc [simp, owns_frame]: "owns (inject_ipc i sp k) = owns k"
  by (simp add: inject_ipc_def Let_def case_prod_beta split: option.split)

lemma owns_inject_context [simp, owns_frame]: "owns (inject_context i k) = owns k"
  by (simp add: inject_context_def Let_def case_prod_beta split: option.split)

lemma owns_switch_save_ctx [simp, owns_frame]: "owns (snd (switch_save_ctx c ctx k)) = owns k"
  by (simp add: switch_save_ctx_def Let_def case_prod_beta split: option.split)

lemma owns_switch_activate [simp, owns_frame]: "owns (switch_activate c t k) = owns k"
  by (simp add: switch_activate_def Let_def case_prod_beta split: option.split)

lemma owns_switch_requeue [simp, owns_frame]: "owns (switch_requeue c t quick k) = owns k"
  by (simp add: switch_requeue_def Let_def case_prod_beta split: option.split)

lemma owns_proc_switch [simp, owns_frame]: "owns (snd (proc_switch ctx t quick k)) = owns k"
  by (simp add: proc_switch_def Let_def case_prod_beta split: option.split)

lemma owns_proc_switch_multi_core [simp, owns_frame]: "owns (snd (proc_switch_multi_core ctx t n k)) = owns k"
  by (simp add: proc_switch_multi_core_def Let_def case_prod_beta split: option.split)

lemma owns_schedule [simp, owns_frame]: "owns (snd (schedule ctx k)) = owns k"
  by (simp add: schedule_def Let_def case_prod_beta split: option.split)

lemma owns_proc_signal_send [simp, owns_frame]: "owns (snd (proc_signal_send ctx i n quick k)) = owns k"
  by (simp add: proc_signal_send_def Let_def case_prod_beta split: option.split)

lemma owns_proc_signal_end [simp, owns_frame]: "owns (snd (proc_signal_end ctx k)) = owns k"
  by (simp add: proc_signal_end_def proc_restore_state_def owns_upd_const Let_def case_prod_beta split: option.split)

section \<open>Semaphores and interrupts\<close>

lemma owns_fold_snd: "(\<And>i x. owns (snd (f i x)) = owns (snd x)) \<Longrightarrow> owns (snd (fold f xs x)) = owns (snd x)"
  by (induction xs arbitrary: x) simp_all

lemma owns_fold_snd2: "(\<And>i x. owns (snd (snd (f i x))) = owns (snd (snd x))) \<Longrightarrow> owns (snd (snd (fold f xs x))) = owns (snd (snd x))"
  by (induction xs arbitrary: x) simp_all

lemma owns_proc_block_common [simp, owns_frame]: "owns (snd (proc_block_common any_ok n ctx i t k)) = owns k"
  by (simp add: proc_block_common_def block_run_now_def owns_upd_const Let_def case_prod_beta split: option.split)

lemma owns_proc_block_by [simp, owns_frame]: "owns (snd (proc_block_by ctx i t k)) = owns k"
  by (simp add: proc_block_by_def Let_def case_prod_beta split: option.split)

lemma owns_proc_block [simp, owns_frame]: "owns (snd (proc_block ctx i k)) = owns k"
  by (simp add: proc_block_def Let_def case_prod_beta split: option.split)

lemma owns_proc_block_by_timeout [simp, owns_frame]: "owns (snd (proc_block_by_timeout ctx i t u k)) = owns k"
  by (simp add: proc_block_by_timeout_def Let_def case_prod_beta split: option.split)

lemma owns_proc_usleep [simp, owns_frame]: "owns (snd (proc_usleep ctx n k)) = owns k"
  by (simp add: proc_usleep_def Let_def case_prod_beta split: option.split)

lemma owns_renew_sleep_at [simp, owns_frame]: "owns (snd (renew_sleep_at u i x)) = owns (snd x)"
  by (simp add: renew_sleep_at_def Let_def case_prod_beta split: option.split)

lemma owns_renew_sleep_counter [simp, owns_frame]: "owns (snd (renew_sleep_counter u k)) = owns k"
  by (simp add: renew_sleep_counter_def owns_fold_snd Let_def case_prod_beta split: option.split)

lemma owns_renew_priority_at [simp, owns_frame]: "owns (renew_priority_at i k) = owns k"
  by (simp add: renew_priority_at_def Let_def case_prod_beta split: option.split)

lemma owns_renew_priority_counter [simp, owns_frame]: "owns (renew_priority_counter k) = owns k"
  by (simp add: renew_priority_counter_def owns_fold Let_def case_prod_beta split: option.split)

lemma owns_proc_signal_setup [simp, owns_frame]: "owns (snd (proc_signal_setup e k)) = owns k"
  by (simp add: proc_signal_setup_def Let_def case_prod_beta split: option.split)

lemma owns_sem_handoff_locked [simp, owns_frame]: "owns (snd (sem_handoff_locked idx s k)) = owns k"
  by (induction idx s k rule: sem_handoff_locked.induct) (subst sem_handoff_locked.simps, simp add: Let_def split: option.split)

lemma owns_sem_purge_at [simp, owns_frame]: "owns (snd (sem_purge_at idx i x)) = owns (snd x)"
  by (simp add: sem_purge_at_def Let_def case_prod_beta split: option.split)

lemma owns_sem_waiter_purge_locked [simp, owns_frame]: "owns (snd (sem_waiter_purge_locked idx s k)) = owns k"
  by (simp add: sem_waiter_purge_locked_def owns_fold_snd Let_def case_prod_beta split: option.split)

lemma owns_sem_reset_locked [simp, owns_frame]: "owns (snd (sem_reset_locked idx s k)) = owns k"
  by (simp add: sem_reset_locked_def Let_def case_prod_beta split: option.split)

lemma owns_sem_clear_at [simp, owns_frame]: "owns (snd (sem_clear_at pid i x)) = owns (snd x)"
  by (simp add: sem_clear_at_def Let_def case_prod_beta split: option.split)

lemma owns_clear_waiter_at [simp, owns_frame]: "owns (snd (clear_waiter_at pid i x)) = owns (snd x)"
  by (simp add: clear_waiter_at_def Let_def case_prod_beta split: option.split)

lemma owns_clear_holder_at [simp, owns_frame]: "owns (snd (clear_holder_at pid i x)) = owns (snd x)"
  by (simp add: clear_holder_at_def Let_def case_prod_beta split: option.split)

lemma owns_semaphore_clear [simp, owns_frame]: "owns (snd (semaphore_clear pid s k)) = owns k"
  by (simp add: semaphore_clear_def owns_fold_snd Let_def case_prod_beta split: option.split)

lemma owns_semaphore_clear_occupied [simp, owns_frame]: "owns (snd (semaphore_clear_occupied pid s k)) = owns k"
  by (simp add: semaphore_clear_occupied_def owns_fold_snd Let_def case_prod_beta split: option.split)

lemma owns_semaphore_free [simp, owns_frame]: "owns (snd (semaphore_free n s k)) = owns k"
  by (simp add: semaphore_free_def Let_def case_prod_beta split: option.split)

lemma owns_sem_enter_park [simp, owns_frame]: "owns (snd (snd (sem_enter_park ctx idx sl c t s k))) = owns k"
  by (simp add: sem_enter_park_def Let_def case_prod_beta split: option.split)

lemma owns_semaphore_enter_raw [simp, owns_frame]: "owns (snd (snd (semaphore_enter_raw ctx n t s k))) = owns k"
  by (simp add: semaphore_enter_raw_def Let_def case_prod_beta split: enter_verdict.split option.split)

lemma owns_semaphore_quit [simp, owns_frame]: "owns (snd (snd (semaphore_quit n s k))) = owns k"
  by (simp add: semaphore_quit_def Let_def case_prod_beta split: option.split)

lemma owns_upd_intr [simp, owns_frame]: "owns (upd_intr i f k) = owns k"
  by (simp add: upd_intr_def Let_def case_prod_beta split: option.split)

lemma owns_proc_track_interrupt_timeout [simp, owns_frame]: "owns (proc_track_interrupt_timeout i k) = owns k"
  by (simp add: proc_track_interrupt_timeout_def Let_def case_prod_beta split: option.split)

lemma owns_proc_untrack_interrupt_timeout [simp, owns_frame]: "owns (proc_untrack_interrupt_timeout i k) = owns k"
  by (simp add: proc_untrack_interrupt_timeout_def Let_def case_prod_beta split: option.split)

lemma owns_intr_start_proc [simp, owns_frame]: "owns (intr_start_proc i irq e d k) = owns k"
  by (simp add: intr_start_proc_def Let_def case_prod_beta split: option.split)

lemma owns_interrupt_send_raw [simp, owns_frame]: "owns (snd (snd (snd (interrupt_send_raw ctx irq h s k)))) = owns k"
  by (simp add: interrupt_send_raw_def Let_def case_prod_beta split: option.split)

lemma owns_interrupt_send [simp, owns_frame]: "owns (snd (snd (snd (interrupt_send ctx irq s k)))) = owns k"
  by (simp add: interrupt_send_def Let_def case_prod_beta split: option.split)

lemma owns_interrupt_soft_send [simp, owns_frame]: "owns (snd (snd (snd (interrupt_soft_send ctx pid e d s k)))) = owns k"
  by (simp add: interrupt_soft_send_def Let_def case_prod_beta split: option.split)

lemma owns_sys_soft_int [simp, owns_frame]: "owns (snd (snd (snd (sys_soft_int ctx pid e d s k)))) = owns k"
  by (simp add: sys_soft_int_def Let_def case_prod_beta split: option.split)

lemma owns_proc_interrupt_wait [simp, owns_frame]: "owns (snd (snd (proc_interrupt_wait ctx sv i k))) = owns k"
  by (simp add: proc_interrupt_wait_def Let_def case_prod_beta split: option.split)

lemma owns_wake_waiter [simp, owns_frame]: "owns (snd (wake_waiter w k)) = owns k"
  by (simp add: wake_waiter_def Let_def case_prod_beta split: option.split)

lemma owns_proc_interrupt_wakeup [simp, owns_frame]: "owns (snd (proc_interrupt_wakeup sv k)) = owns k"
  by (simp add: proc_interrupt_wakeup_def Let_def case_prod_beta split: list.split option.split)

lemma owns_proc_interrupt_wakeup_all [simp, owns_frame]: "owns (proc_interrupt_wakeup_all sv k) = owns k"
  by (simp add: proc_interrupt_wakeup_all_def owns_fold Let_def case_prod_beta split: option.split)

lemma owns_intr_restore [simp, owns_frame]: "owns (snd (intr_restore i p k)) = owns k"
  by (simp add: intr_restore_def proc_restore_state_def owns_upd_const Let_def case_prod_beta split: option.split)

lemma owns_interrupt_end [simp, owns_frame]: "owns (snd (snd (interrupt_end ctx s k))) = owns k"
  by (simp add: interrupt_end_def Let_def case_prod_beta split: option.split)

lemma owns_proc_resume_after_timeout [simp, owns_frame]: "owns (proc_resume_after_timeout i k) = owns k"
  by (simp add: proc_resume_after_timeout_def Let_def case_prod_beta split: option.split)

lemma owns_kick_remote [simp, owns_frame]: "owns (kick_remote i k) = owns k"
  by (simp add: kick_remote_def Let_def case_prod_beta split: option.split)

lemma owns_proc_interrupt_timeout [simp, owns_frame]: "owns (snd (proc_interrupt_timeout i s k)) = owns k"
  by (simp add: proc_interrupt_timeout_def Let_def case_prod_beta split: option.split)

lemma owns_renew_interrupt_at [simp, owns_frame]: "owns (snd (snd (renew_interrupt_at u i x))) = owns (snd (snd x))"
  by (simp add: renew_interrupt_at_def Let_def case_prod_beta split: option.split)

lemma owns_renew_interrupt_counter [simp, owns_frame]: "owns (snd (snd (renew_interrupt_counter u s k))) = owns k"
  by (simp add: renew_interrupt_counter_def owns_fold_snd2 Let_def case_prod_beta split: option.split)

section \<open>Inter-process calls\<close>

lemma owns_upd_server [simp, owns_frame]: "owns (upd_server sv f k) = owns k"
  by (simp add: upd_server_def Let_def case_prod_beta split: option.split)

lemma owns_res_upd [simp, owns_frame]: "owns (res_upd loc f k) = owns k"
  by (cases loc) simp_all

lemma owns_proc_track_ipc_timeout [simp, owns_frame]: "owns (proc_track_ipc_timeout sv k) = owns k"
  by (simp add: proc_track_ipc_timeout_def Let_def case_prod_beta split: option.split)

lemma owns_proc_untrack_ipc_timeout [simp, owns_frame]: "owns (proc_untrack_ipc_timeout sv k) = owns k"
  by (simp add: proc_untrack_ipc_timeout_def Let_def case_prod_beta split: option.split)

lemma owns_proc_ipc_req [simp, owns_frame]: "owns (snd (snd (proc_ipc_req uid sv c n arg k))) = owns k"
  by (simp add: proc_ipc_req_def Let_def case_prod_beta split: option.split)

lemma owns_retrack [simp, owns_frame]: "owns (retrack sv k) = owns k"
  by (simp add: retrack_def Let_def case_prod_beta split: option.split)

lemma owns_proc_ipc_close [simp, owns_frame]: "owns (proc_ipc_close sv t k) = owns k"
  by (simp add: proc_ipc_close_def Let_def case_prod_beta split: option.split)

lemma owns_proc_ipc_finish_task [simp, owns_frame]: "owns (snd (snd (proc_ipc_finish_task sv w t k))) = owns k"
  by (simp add: proc_ipc_finish_task_def Let_def case_prod_beta split: option.split)

lemma owns_detach_handler [simp, owns_frame]: "owns (detach_handler sv t x k) = owns k"
  by (simp add: detach_handler_def Let_def case_prod_beta split: option.split)

lemma owns_wake_live [simp, owns_frame]: "owns (wake_live c k) = owns k"
  by (simp add: wake_live_def Let_def case_prod_beta split: option.split)

lemma owns_proc_ipc_task_abort [simp, owns_frame]: "owns (proc_ipc_task_abort sv t k) = owns k"
  by (simp add: proc_ipc_task_abort_def Let_def case_prod_beta split: option.split)

lemma owns_clear_at [simp, owns_frame]: "owns (snd (clear_at sv t x)) = owns (snd x)"
  by (simp add: clear_at_def Let_def case_prod_beta split: option.split)

lemma owns_proc_ipc_clear [simp, owns_frame]: "owns (proc_ipc_clear sv k) = owns k"
  by (simp add: proc_ipc_clear_def owns_fold_snd owns_fold Let_def case_prod_beta split: option.split)

lemma owns_ipc_waitq_link_tail [simp, owns_frame]: "owns (ipc_waitq_link_tail sv it k) = owns k"
  by (simp add: ipc_waitq_link_tail_def Let_def case_prod_beta split: option.split)

lemma owns_ipc_waitq_pop [simp, owns_frame]: "owns (snd (ipc_waitq_pop sv k)) = owns k"
  by (simp add: ipc_waitq_pop_def Let_def case_prod_beta split: list.split option.split)

lemma owns_ipc_wait_item_clear_server [simp, owns_frame]: "owns (ipc_wait_item_clear_server it sv k) = owns k"
  by (simp add: ipc_wait_item_clear_server_def Let_def case_prod_beta split: option.split)

lemma owns_ipc_park_on:
  "(\<And>k. owns (snd (avail k)) = owns k) \<Longrightarrow> owns (snd (snd (ipc_park_on avail ctx sv i k))) = owns k"
  by (simp add: ipc_park_on_def Let_def case_prod_beta split: option.split)

lemma owns_proc_ipc_wait [simp, owns_frame]: "owns (snd (snd (proc_ipc_wait ctx sv i k))) = owns k"
  by (simp add: proc_ipc_wait_def owns_ipc_park_on Let_def case_prod_beta split: option.split)

lemma owns_ipc_wake_loop [simp, owns_frame]: "owns (snd (ipc_wake_loop n b sv f k)) = owns k"
  by (induction n arbitrary: b f k) (simp_all add: Let_def case_prod_beta split: option.split)

lemma owns_ipc_wake_all_loop [simp, owns_frame]: "owns (ipc_wake_all_loop n sv k) = owns k"
  by (induction n arbitrary: k) (simp_all add: Let_def case_prod_beta split: option.split)

lemma owns_proc_ipc_wakeup [simp, owns_frame]: "owns (snd (proc_ipc_wakeup sv k)) = owns k"
  by (simp add: proc_ipc_wakeup_def Let_def case_prod_beta split: option.split)

lemma owns_proc_ipc_wakeup_all [simp, owns_frame]: "owns (proc_ipc_wakeup_all sv k) = owns k"
  by (simp add: proc_ipc_wakeup_all_def Let_def case_prod_beta split: option.split)

lemma owns_ipc_arm [simp, owns_frame]: "owns (ipc_arm sv k) = owns k"
  by (simp add: ipc_arm_def Let_def case_prod_beta split: option.split)

lemma owns_proc_ipc_do_task [simp, owns_frame]: "owns (snd (snd (proc_ipc_do_task ctx sv c k))) = owns k"
  by (simp add: proc_ipc_do_task_def Let_def case_prod_beta split: option.split)

lemma owns_ipc_restore [simp, owns_frame]: "owns (snd (ipc_restore sv k)) = owns k"
  by (simp add: ipc_restore_def proc_restore_state_def owns_upd_const Let_def case_prod_beta split: option.split)

lemma owns_proc_ipc_get_return [simp, owns_frame]: "owns (snd (snd (proc_ipc_get_return ctx sv u d k))) = owns k"
  by (simp add: proc_ipc_get_return_def Let_def case_prod_beta split: option.split)

lemma owns_proc_ipc_set_return [simp, owns_frame]: "owns (proc_ipc_set_return st u d k) = owns k"
  by (simp add: proc_ipc_set_return_def Let_def case_prod_beta split: option.split)

lemma owns_proc_ipc_disable [simp, owns_frame]: "owns (snd (proc_ipc_disable k)) = owns k"
  by (simp add: proc_ipc_disable_def Let_def case_prod_beta split: option.split)

lemma owns_proc_ipc_enable [simp, owns_frame]: "owns (proc_ipc_enable k) = owns k"
  by (simp add: proc_ipc_enable_def Let_def case_prod_beta split: option.split)

lemma owns_proc_ipc_timeout [simp, owns_frame]: "owns (proc_ipc_timeout sv k) = owns k"
  by (simp add: proc_ipc_timeout_def Let_def case_prod_beta split: option.split)

lemma owns_renew_ipc_multi_at [simp, owns_frame]: "owns (snd (renew_ipc_multi_at sv u t x)) = owns (snd x)"
  by (simp add: renew_ipc_multi_at_def Let_def case_prod_beta split: option.split)

lemma owns_renew_ipc_multi_counter [simp, owns_frame]: "owns (snd (renew_ipc_multi_counter sv u k)) = owns k"
  by (simp add: renew_ipc_multi_counter_def owns_fold_snd Let_def case_prod_beta split: option.split)

lemma owns_renew_ipc_at [simp, owns_frame]: "owns (snd (renew_ipc_at u sv x)) = owns (snd x)"
  by (simp add: renew_ipc_at_def Let_def case_prod_beta split: option.split)

lemma owns_renew_ipc_counter [simp, owns_frame]: "owns (snd (renew_ipc_counter u k)) = owns k"
  by (simp add: renew_ipc_counter_def owns_fold_snd Let_def case_prod_beta split: option.split)

lemma owns_proc_ipc_setup [simp, owns_frame]: "owns (snd (proc_ipc_setup e x f k)) = owns k"
  by (simp add: proc_ipc_setup_def Let_def case_prod_beta split: option.split)

lemma owns_upd_pool [simp, owns_frame]: "owns (upd_pool sv n f k) = owns k"
  by (simp add: upd_pool_def Let_def case_prod_beta split: option.split)

lemma owns_ipc_pool_slot_worker [simp, owns_frame]: "owns (snd (ipc_pool_slot_worker sv n k)) = owns k"
  by (simp add: ipc_pool_slot_worker_def Let_def case_prod_beta split: option.split)

lemma owns_count_at [simp, owns_frame]: "owns (snd (count_at sv n x)) = owns (snd x)"
  using owns_ipc_pool_slot_worker [of sv n "snd x"] by (simp add: count_at_def case_prod_beta split: option.split)

lemma owns_ipc_pool_count_locked [simp, owns_frame]: "owns (snd (ipc_pool_count_locked sv k)) = owns k"
  by (simp add: ipc_pool_count_locked_def owns_fold_snd Let_def case_prod_beta split: option.split)

lemma owns_pool_scan [simp, owns_frame]: "owns (snd (pool_scan P sv ns k)) = owns k"
  by (induction ns arbitrary: k) (simp_all add: Let_def case_prod_beta)

lemma owns_ipc_pool_register_locked [simp, owns_frame]: "owns (snd (ipc_pool_register_locked sv w k)) = owns k"
  by (simp add: ipc_pool_register_locked_def Let_def case_prod_beta split: option.split)

lemma owns_ipc_pool_bind_locked [simp, owns_frame]: "owns (ipc_pool_bind_locked sv w t k) = owns k"
  by (simp add: ipc_pool_bind_locked_def Let_def case_prod_beta split: option.split)

lemma owns_ipc_pool_pick_idle_locked [simp, owns_frame]: "owns (snd (ipc_pool_pick_idle_locked sv t c k)) = owns k"
  by (simp add: ipc_pool_pick_idle_locked_def Let_def case_prod_beta split: option.split)

lemma owns_ipc_pool_has_idle [simp, owns_frame]: "owns (snd (ipc_pool_has_idle sv c k)) = owns k"
  by (simp add: ipc_pool_has_idle_def Let_def case_prod_beta split: option.split)

lemma owns_ipc_pool_core_member_locked [simp, owns_frame]: "owns (snd (ipc_pool_core_member_locked sv c k)) = owns k"
  by (simp add: ipc_pool_core_member_locked_def Let_def case_prod_beta split: option.split)

lemma owns_pool_can_grow [simp, owns_frame]: "owns (snd (pool_can_grow sv k)) = owns k"
  by (simp add: pool_can_grow_def Let_def case_prod_beta split: option.split)

lemma owns_proc_ipc_pool_shrink [simp, owns_frame]: "owns (proc_ipc_pool_shrink u sv k) = owns k"
  by (simp add: proc_ipc_pool_shrink_def Let_def case_prod_beta split: option.split)

lemma owns_proc_ipc_wait_pool [simp, owns_frame]: "owns (snd (snd (proc_ipc_wait_pool ctx sv i c k))) = owns k"
  by (simp add: proc_ipc_wait_pool_def owns_ipc_park_on Let_def case_prod_beta split: option.split)

lemma owns_proc_ipc_wait_requester [simp, owns_frame]: "owns (snd (snd (proc_ipc_wait_requester ctx sv i k))) = owns k"
  by (simp add: proc_ipc_wait_requester_def owns_ipc_park_on Let_def case_prod_beta split: option.split)

lemma owns_res_busy [simp, owns_frame]: "owns (res_busy c k) = owns k"
  by (simp add: res_busy_def Let_def case_prod_beta split: option.split)

lemma owns_ipc_call_single [simp, owns_frame]: "owns (snd (snd (ipc_call_single c n arg sv ctx u k))) = owns k"
  by (simp add: ipc_call_single_def Let_def case_prod_beta split: option.split)

lemma owns_set_idle [simp, owns_frame]: "owns (set_idle u sv w k) = owns k"
  by (simp add: set_idle_def Let_def case_prod_beta split: option.split)

lemma owns_park_rearm [simp, owns_frame]: "owns (snd (park_rearm ctx w sv k)) = owns k"
  by (simp add: park_rearm_def Let_def case_prod_beta split: option.split)

lemma owns_thread_stack_free [simp, owns_frame]: "owns (thread_stack_free i b k) = owns k"
  by (simp add: thread_stack_free_def Let_def case_prod_beta split: option.split)

lemma owns_ipc_end_single [simp, owns_frame]: "owns (snd (ipc_end_single ctx sv k)) = owns k"
  by (simp add: ipc_end_single_def Let_def case_prod_beta split: option.split)

end
