(* ===== verification/Life_Spaces.thy ===== *)
theory Life_Spaces
  imports Life_Frame
begin

text \<open>
  Address spaces along the life of their tasks. \<open>sowns\<close> extends \<open>owns\<close> by the table of page-directory
  slots in use. Termination leaves it alone; creation and burial are the operations that change it.
\<close>

definition mark_of :: "'b system_ext \<Rightarrow> bool list" where
  "mark_of m = sy_vm_mark (kernel.extend (undefined :: kernel) m)"

definition sowns :: "system \<Rightarrow> (int \<times> task_type \<times> nat option) option list \<times> (nat \<Rightarrow> (int \<times> nat) option) \<times> bool list" where
  "sowns k = (owners k, holds k, sy_vm_mark k)"

lemma mark_of_more: "sy_vm_mark k = mark_of (kernel.more k)" for k :: system
  by (cases k) (simp add: mark_of_def kernel.extend_def)

lemma sowns_eq: "owns k' = owns k \<Longrightarrow> sowns k' = sowns k"
  unfolding sowns_def mark_of_more by (simp add: owns_def)

lemmas sowns_frame [simp] = owns_frame [THEN sowns_eq]

lemma sowns_more [simp]:
  "sowns (k\<lparr>sy_last_create_pid := a1\<rparr>) = sowns k" "sowns (k\<lparr>sy_proc_uuid := a2\<rparr>) = sowns k"
  "sowns (k\<lparr>sy_sems := a3\<rparr>) = sowns k" "sowns (k\<lparr>sy_intrs := a4\<rparr>) = sowns k"
  "sowns (k\<lparr>sy_caps := a5\<rparr>) = sowns k" "sowns (k\<lparr>sy_kevq := a6\<rparr>) = sowns k"
  "sowns (k\<lparr>sy_vsyscall := a7\<rparr>) = sowns k" "sowns (k\<lparr>sy_uptime_sec := a8\<rparr>) = sowns k"
  "sowns (k\<lparr>sy_use_core_id := a9\<rparr>) = sowns k" "sowns (k\<lparr>sy_core_proc_ready := b1\<rparr>) = sowns k"
  "sowns (k\<lparr>sy_mm := b2\<rparr>) = sowns k"
  by (simp_all add: sowns_def owners_def holds_def fun_eq_iff)

lemma sowns_crash [simp]: "sowns (crash k) = sowns k"
  by (simp add: crash_def)

lemma sowns_mm_log [simp]: "sowns (mm_log cs k) = sowns k"
  by (simp add: mm_log_def)

lemma sowns_with_sems [simp]: "(\<And>s k. owns (snd (f s k)) = owns k) \<Longrightarrow> sowns (with_sems f k) = sowns k"
  using sowns_eq [of "snd (f (sy_sems k) k)" k] by (simp add: with_sems_def case_prod_beta)

lemma sowns_kev_wake [simp]: "sowns (kev_wake k) = sowns k"
  by (simp add: kev_wake_def split: option.split)

lemma sowns_kev_enqueue [simp]: "sowns (kev_enqueue e k) = sowns k"
  by (simp add: kev_enqueue_def case_prod_beta Let_def)

lemma sowns_kev_push [simp]: "sowns (kev_push t a b c k) = sowns k"
  by (simp add: kev_push_def)

section \<open>Termination\<close>

lemma sowns_proc_update_vsyscall [simp]: "sowns (proc_update_vsyscall p k) = sowns k"
  by (simp add: proc_update_vsyscall_def)

lemma sowns_term_begin [simp]: "sowns (term_begin i k) = sowns k"
  by (simp add: term_begin_def Let_def)

lemma sowns_term_end [simp]: "sowns (term_end i k) = sowns k"
  by (simp add: term_end_def Let_def)

lemma sowns_term_thread [simp]: "sowns (term_thread i k) = sowns k"
  by (simp add: term_thread_def Let_def split: option.split)

lemma sowns_terminate_task [simp]: "sowns (terminate_task i k) = sowns k"
  by (simp add: terminate_task_def Let_def)

lemma sowns_terminate_child_at [simp]: "sowns (snd (terminate_child_at pid j x)) = sowns (snd x)"
  by (simp add: terminate_child_at_def case_prod_beta split: option.split)

lemma sowns_fold: "(\<And>i x. sowns (f i x) = sowns x) \<Longrightarrow> sowns (fold f xs x) = sowns x"
  by (induction xs arbitrary: x) simp_all

lemma sowns_fold_snd: "(\<And>i x. sowns (snd (f i x)) = sowns (snd x)) \<Longrightarrow> sowns (snd (fold f xs x)) = sowns (snd x)"
  by (induction xs arbitrary: x) simp_all

lemma sowns_term_interrupt [simp]: "sowns (term_interrupt i k) = sowns k"
  by (simp add: term_interrupt_def Let_def split: option.split)

lemma sowns_term_proc [simp]: "sowns (snd (term_proc ctx i k)) = sowns k"
  by (simp add: term_proc_def Let_def case_prod_beta sowns_fold_snd)

lemma sowns_proc_terminate [simp]: "sowns (snd (proc_terminate ctx i k)) = sowns k"
  by (simp add: proc_terminate_def Let_def case_prod_beta)

lemma sowns_proc_exit [simp]: "sowns (snd (proc_exit ctx p r k)) = sowns k"
  by (simp add: proc_exit_def Let_def case_prod_beta split: option.split)

section \<open>The choice of a core and the clocks\<close>

lemma sowns_refresh_at [simp]: "sowns (refresh_at a b i k) = sowns k"
  by (simp add: refresh_at_def Let_def split: option.split)

lemma sowns_proc_refresh_runtime_stats_internal [simp]: "sowns (proc_refresh_runtime_stats_internal a b k) = sowns k"
  by (simp add: proc_refresh_runtime_stats_internal_def sowns_fold)

lemma sowns_proc_refresh_runtime_stats [simp]: "sowns (proc_refresh_runtime_stats k) = sowns k"
  by (simp add: proc_refresh_runtime_stats_def)

lemma sowns_core_fetch [simp]: "sowns (snd (core_fetch i k)) = sowns k"
  by (simp add: core_fetch_def Let_def case_prod_beta split: sum.split option.split)

lemma sowns_core_attach [simp]: "sowns (core_attach p k) = sowns k"
  by (simp add: core_attach_def case_prod_beta split: option.split)

lemma sowns_shrink_at [simp]: "sowns (shrink_at i k) = sowns k"
  by (simp add: shrink_at_def split: option.split)

lemma sowns_recount_at [simp]: "sowns (recount_at i k) = sowns k"
  by (simp add: recount_at_def split: option.split)

lemma sowns_renew_kernel_tic [simp]: "sowns (snd (renew_kernel_tic u k)) = sowns k"
  by (simp add: renew_kernel_tic_def Let_def case_prod_beta)

section \<open>Ownership as a state machine\<close>

type_synonym owning = "(int \<times> task_type \<times> nat option) option list \<times> (nat \<Rightarrow> (int \<times> nat) option) \<times> bool list"

definition shares :: "nat \<Rightarrow> (int \<times> task_type \<times> nat option) option \<Rightarrow> bool" where
  "shares s x = (case x of None \<Rightarrow> False | Some (pid, ty, sp) \<Rightarrow> ty \<noteq> TASK_TYPE_PROC \<and> sp = Some s)"

definition owned_by :: "nat \<Rightarrow> (int \<times> task_type \<times> nat option) option \<Rightarrow> bool" where
  "owned_by s x = (case x of None \<Rightarrow> False | Some (pid, ty, sp) \<Rightarrow> ty = TASK_TYPE_PROC \<and> sp = Some s)"

definition sharers :: "(int \<times> task_type \<times> nat option) option list \<Rightarrow> nat \<Rightarrow> nat" where
  "sharers os s = length (filter (shares s) os)"

text \<open>The steps of the abstract machine: a task leaves the table, a process arrives with a new space, a
  task arrives that shares a space, a reference is given back, a space is freed. The guards of the last
  two are what makes them safe.\<close>

inductive own_step :: "owning \<Rightarrow> owning \<Rightarrow> bool" where
  Take: "own_step (os, hs, mk) (os[i := None], hs, mk)"
| NewProc: "i < length os \<Longrightarrow> os ! i = None \<Longrightarrow> s < length mk \<Longrightarrow> \<not> mk ! s \<Longrightarrow>
    own_step (os, hs, mk) (os[i := Some (int i, TASK_TYPE_PROC, Some s)], hs(s \<mapsto> (0, s)), mk[s := True])"
| NewShare: "i < length os \<Longrightarrow> os ! i = None \<Longrightarrow> ty \<noteq> TASK_TYPE_PROC \<Longrightarrow> hs s = Some (r, d) \<Longrightarrow>
    own_step (os, hs, mk) (os[i := Some (int i, ty, Some s)], hs(s \<mapsto> (r + 1, d)), mk)"
| Release: "hs s = Some (r, d) \<Longrightarrow> int (sharers os s) < r \<Longrightarrow> own_step (os, hs, mk) (os, hs(s \<mapsto> (r - 1, d)), mk)"
| Free: "(\<And>x. x \<in> set os \<Longrightarrow> \<not> shares s x \<and> \<not> owned_by s x) \<Longrightarrow> own_step (os, hs, mk) (os, hs(s := None), mk[s := False])"

definition task_ok :: "(nat \<Rightarrow> (int \<times> nat) option) \<Rightarrow> nat \<Rightarrow> (int \<times> task_type \<times> nat option) option \<Rightarrow> bool" where
  "task_ok hs i x = (case x of None \<Rightarrow> True | Some (pid, ty, sp) \<Rightarrow> pid = int i \<and> (\<exists>s. sp = Some s \<and> hs s \<noteq> None))"

text \<open>Every task has its slot number as pid and a space that exists, no two processes have the same
  space, and a space is marked as in use and counts at least its sharers.\<close>

definition own_ok :: "owning \<Rightarrow> bool" where
  "own_ok st = (case st of (os, hs, mk) \<Rightarrow>
     (\<forall>i < length os. task_ok hs i (os ! i)) \<and>
     (\<forall>i < length os. \<forall>j < length os. \<forall>s. owned_by s (os ! i) \<longrightarrow> owned_by s (os ! j) \<longrightarrow> i = j) \<and>
     (\<forall>s r d. hs s = Some (r, d) \<longrightarrow> d = s \<and> s < length mk \<and> mk ! s \<and> int (sharers os s) \<le> r))"

lemma own_okD:
  assumes "own_ok (os, hs, mk)"
  shows "i < length os \<Longrightarrow> task_ok hs i (os ! i)"
    "i < length os \<Longrightarrow> j < length os \<Longrightarrow> owned_by s (os ! i) \<Longrightarrow> owned_by s (os ! j) \<Longrightarrow> i = j"
    "hs s = Some (r, d) \<Longrightarrow> d = s" "hs s = Some (r, d) \<Longrightarrow> s < length mk" "hs s = Some (r, d) \<Longrightarrow> mk ! s"
    "hs s = Some (r, d) \<Longrightarrow> int (sharers os s) \<le> r"
  using assms by (auto simp: own_ok_def)

lemma shares_simps [simp]: "\<not> shares s None" "\<not> owned_by s None" "task_ok hs i None"
  "shares s (Some (pid, ty, sp)) \<longleftrightarrow> ty \<noteq> TASK_TYPE_PROC \<and> sp = Some s"
  "owned_by s (Some (pid, ty, sp)) \<longleftrightarrow> ty = TASK_TYPE_PROC \<and> sp = Some s"
  by (simp_all add: shares_def owned_by_def task_ok_def)

lemma sharers_update:
  assumes "i < length os"
  shows "sharers (os[i := x]) s + (if shares s (os ! i) then 1 else 0) = sharers os s + (if shares s x then 1 else 0)"
  using assms by (simp add: sharers_def length_filter_update)

lemma sharers_None [simp]: "i < length os \<Longrightarrow> sharers (os[i := None]) s = sharers os s - (if shares s (os ! i) then 1 else 0)"
  using sharers_update [of i os None s] by auto

lemma task_ok_mono: "task_ok hs i x \<Longrightarrow> (\<And>s. hs s \<noteq> None \<Longrightarrow> hs' s \<noteq> None) \<Longrightarrow> task_ok hs' i x"
  by (auto simp: task_ok_def split: option.splits)

lemma own_okI:
  assumes "\<And>i. i < length os \<Longrightarrow> task_ok hs i (os ! i)"
    and "\<And>i j s. i < length os \<Longrightarrow> j < length os \<Longrightarrow> owned_by s (os ! i) \<Longrightarrow> owned_by s (os ! j) \<Longrightarrow> i = j"
    and "\<And>s r d. hs s = Some (r, d) \<Longrightarrow> d = s \<and> s < length mk \<and> mk ! s \<and> int (sharers os s) \<le> r"
  shows "own_ok (os, hs, mk)"
  using assms unfolding own_ok_def by blast

lemma own_ok_take: "own_ok (os, hs, mk) \<Longrightarrow> own_ok (os[i := None], hs, mk)"
proof (cases "i < length os")
  case True
  assume ok: "own_ok (os, hs, mk)"
  show ?thesis
  proof (rule own_okI)
    show "task_ok hs j (os[i := None] ! j)" if "j < length (os[i := None])" for j
      using own_okD(1) [OF ok, of j] that by (cases "j = i") auto
    show "j = l" if "j < length (os[i := None])" "l < length (os[i := None])"
      "owned_by s (os[i := None] ! j)" "owned_by s (os[i := None] ! l)" for j l s
      using own_okD(2) [OF ok, of j l s] that by (auto simp: nth_update_if [OF True] split: if_splits)
    show "d = s \<and> s < length mk \<and> mk ! s \<and> int (sharers (os[i := None]) s) \<le> r" if "hs s = Some (r, d)" for s r d
      using own_okD(3-6) [OF ok that] True by (simp split: if_splits)
  qed
qed (simp add: list_update_beyond)

text \<open>A free page-directory slot belongs to no space and so to no task.\<close>

lemma own_ok_unmarked:
  assumes "own_ok (os, hs, mk)" "\<not> mk ! s"
  shows "hs s = None" "i < length os \<Longrightarrow> \<not> shares s (os ! i)" "i < length os \<Longrightarrow> \<not> owned_by s (os ! i)"
    "sharers os s = 0"
proof -
  show h: "hs s = None" using own_okD(5) [OF assms(1)] assms(2) by (cases "hs s") auto
  show n: "\<not> shares s (os ! i)" "\<not> owned_by s (os ! i)" if "i < length os" for i
    using own_okD(1) [OF assms(1) that] h by (auto simp: task_ok_def shares_def owned_by_def split: option.splits)
  then show "sharers os s = 0" by (auto simp: sharers_def filter_empty_conv in_set_conv_nth)
qed

lemma own_ok_new:
  assumes "own_ok (os, hs, mk)" "i < length os" "os ! i = None" "s < length mk" "\<not> mk ! s"
  shows "own_ok (os[i := Some (int i, TASK_TYPE_PROC, Some s)], hs(s \<mapsto> (0, s)), mk[s := True])"
proof (rule own_okI)
  let ?x = "Some (int i, TASK_TYPE_PROC, Some s)" and ?hs = "hs(s \<mapsto> (0, s))"
  note free = own_ok_unmarked [OF assms(1,5)]
  show "task_ok ?hs j (os[i := ?x] ! j)" if "j < length (os[i := ?x])" for j
  proof (cases "j = i")
    case False
    then show ?thesis using task_ok_mono [OF own_okD(1) [OF assms(1)], of j ?hs] that by simp
  qed (simp add: task_ok_def assms(2))
  show "j = l" if "j < length (os[i := ?x])" "l < length (os[i := ?x])"
    "owned_by t (os[i := ?x] ! j)" "owned_by t (os[i := ?x] ! l)" for j l t
    using own_okD(2) [OF assms(1), of j l t] free(3) that by (auto simp: nth_update_if [OF assms(2)] split: if_splits)
  show "d = t \<and> t < length (mk[s := True]) \<and> mk[s := True] ! t \<and> int (sharers (os[i := ?x]) t) \<le> r"
    if "?hs t = Some (r, d)" for t r d
    using own_okD(3-6) [OF assms(1), of t r d] sharers_update [OF assms(2), of ?x t] free(4) that assms(3,4)
    by (auto simp: nth_update_if split: if_splits)
qed

lemma own_ok_share:
  assumes "own_ok (os, hs, mk)" "i < length os" "os ! i = None" "ty \<noteq> TASK_TYPE_PROC" "hs s = Some (r, d)"
  shows "own_ok (os[i := Some (int i, ty, Some s)], hs(s \<mapsto> (r + 1, d)), mk)"
proof (rule own_okI)
  let ?x = "Some (int i, ty, Some s)" and ?hs = "hs(s \<mapsto> (r + 1, d))"
  show "task_ok ?hs j (os[i := ?x] ! j)" if "j < length (os[i := ?x])" for j
  proof (cases "j = i")
    case False
    then show ?thesis using task_ok_mono [OF own_okD(1) [OF assms(1)], of j ?hs] that by simp
  qed (simp add: task_ok_def assms(2))
  show "j = l" if "j < length (os[i := ?x])" "l < length (os[i := ?x])"
    "owned_by t (os[i := ?x] ! j)" "owned_by t (os[i := ?x] ! l)" for j l t
    using own_okD(2) [OF assms(1), of j l t] that assms(4) by (auto simp: nth_update_if [OF assms(2)] split: if_splits)
  show "e = t \<and> t < length mk \<and> mk ! t \<and> int (sharers (os[i := ?x]) t) \<le> q" if "?hs t = Some (q, e)" for t q e
    using own_okD(3-6) [OF assms(1), of t "if t = s then r else q" e] sharers_update [OF assms(2), of ?x t] that assms(3-5)
    by (auto split: if_splits)
qed

lemma own_ok_free:
  assumes "own_ok (os, hs, mk)" "\<And>x. x \<in> set os \<Longrightarrow> \<not> shares s x \<and> \<not> owned_by s x"
  shows "own_ok (os, hs(s := None), mk[s := False])"
proof (rule own_okI)
  show "task_ok (hs(s := None)) j (os ! j)" if "j < length os" for j
    using own_okD(1) [OF assms(1) that] assms(2) [OF nth_mem [OF that]]
    by (auto simp: task_ok_def shares_def owned_by_def split: option.splits)
  show "j = l" if "j < length os" "l < length os" "owned_by t (os ! j)" "owned_by t (os ! l)" for j l t
    using own_okD(2) [OF assms(1)] that by blast
  show "d = t \<and> t < length (mk[s := False]) \<and> mk[s := False] ! t \<and> int (sharers os t) \<le> r"
    if "(hs(s := None)) t = Some (r, d)" for t r d
    using own_okD(3-6) [OF assms(1), of t r d] that by (auto split: if_splits)
qed

lemma own_step_ok: "own_step st st' \<Longrightarrow> own_ok st \<Longrightarrow> own_ok st'"
proof (induction rule: own_step.induct)
  case (Release hs s r d os mk)
  show ?case
  proof (rule own_okI)
    show "task_ok (hs(s \<mapsto> (r - 1, d))) j (os ! j)" if "j < length os" for j
      by (rule task_ok_mono [OF own_okD(1) [OF Release.prems that]]) simp
    show "j = l" if "j < length os" "l < length os" "owned_by t (os ! j)" "owned_by t (os ! l)" for j l t
      using own_okD(2) [OF Release.prems] that by blast
    show "e = t \<and> t < length mk \<and> mk ! t \<and> int (sharers os t) \<le> q" if "(hs(s \<mapsto> (r - 1, d))) t = Some (q, e)" for t q e
      using own_okD(3-6) [OF Release.prems, of t "if t = s then r else q" e] Release.hyps that by (auto split: if_splits)
  qed
qed (auto intro: own_ok_take own_ok_new own_ok_share own_ok_free)

lemma own_steps_ok: "own_step\<^sup>*\<^sup>* st st' \<Longrightarrow> own_ok st \<Longrightarrow> own_ok st'"
  by (induction rule: rtranclp_induct) (auto intro: own_step_ok)

end
