(* ===== verification/Life_Own.thy ===== *)
theory Life_Own
  imports Life_Spaces
begin

text \<open>
  Creation, fork and burial are steps of the ownership machine.
\<close>

section \<open>Effects on ownership\<close>

lemma length_owners [simp]: "length (owners k) = length (task_table k)"
  by (simp add: owners_def)

lemma owners_nth: "i < length (task_table k) \<Longrightarrow> owners k ! i = map_option own_of (task_table k ! i)"
  by (simp add: owners_def)

lemma owners_slot: "slot k i = Some p \<Longrightarrow> i < length (owners k) \<and> owners k ! i = Some (own_of p)"
  by (auto simp: owners_def slot_def split: if_splits)

lemma owners_upd_proc: "slot k i = Some p \<Longrightarrow> owners (upd_proc i f k) = (owners k)[i := Some (own_of (f p))]"
  by (auto simp: owners_def upd_proc_def map_update)

lemma holds_upd_proc [simp]: "holds (upd_proc i f k) = holds k"
  by (rule ext) (simp add: holds_def)

lemma mark_upd_proc [simp]: "sy_vm_mark (upd_proc i f k) = sy_vm_mark k"
  by (simp add: upd_proc_def)

lemma sowns_parts: "sowns k' = sowns k \<Longrightarrow> owners k' = owners k \<and> holds k' = holds k \<and> sy_vm_mark k' = sy_vm_mark k"
  by (simp add: sowns_def)

lemma sowns_drop_task: "sowns k = (os, hs, mk) \<Longrightarrow> sowns (drop_task i k) = (os[i := None], hs, mk)"
  by (auto simp: sowns_def drop_task_def owners_def map_update holds_def fun_eq_iff)

lemma sowns_free_space: "sowns k = (os, hs, mk) \<Longrightarrow> sowns (free_space s k) = (os, hs(s := None), mk[s := False])"
  by (auto simp: sowns_def free_space_def owners_def holds_def fun_eq_iff)

lemma holds_spaces: "holds k s = Some (r, d) \<longleftrightarrow> (\<exists>sp. spaces k s = Some sp \<and> sp_refs sp = r \<and> sp_pde_index sp = d)"
  by (auto simp: holds_def hold_of_def)

lemma sowns_upd_refs:
  assumes "sowns k = (os, hs, mk)" "hs s = Some (r, d)"
  shows "sowns (upd_refs (Some s) f k) = (os, hs(s \<mapsto> (f r, d)), mk)"
proof -
  obtain sp where "spaces k s = Some sp" "sp_refs sp = r" "sp_pde_index sp = d"
    using assms holds_spaces [of k s r d] by (auto simp: sowns_def)
  then show ?thesis using assms(1) by (auto simp: sowns_def upd_refs_def upd_space_def owners_def holds_def hold_of_def)
qed

lemma holds_spaces_upd [simp]:
  "owners (k\<lparr>spaces := g\<rparr>) = owners k"
  "holds (k\<lparr>spaces := (spaces k)(s \<mapsto> zero_space\<lparr>sp_pde_index := d\<rparr>)\<rparr>) = (holds k)(s \<mapsto> (0, d))"
  by (simp_all add: owners_def holds_def hold_of_def zero_space_def fun_eq_iff)

text \<open>What the invariant says of a task of the table.\<close>

lemma own_ok_slot:
  assumes "own_ok (sowns k)" "slot k i = Some p"
  obtains s sp where "p_pid p = int i" "p_space p = Some s" "spaces k s = Some sp"
  using own_okD(1) [OF assms(1) [unfolded sowns_def], of i] owners_slot [OF assms(2)]
  by (auto simp: task_ok_def own_of_def holds_def)

section \<open>Creation\<close>

lemma sowns_grant_root [simp]: "sowns (proc_cap_grant_root p k) = sowns k"
  by (simp add: proc_cap_grant_root_def Let_def case_prod_beta split: option.split)

lemma sowns_create_caps [simp]: "sowns (create_caps i parent k) = sowns k"
  by (simp add: create_caps_def split: option.split)

lemma sowns_create_inherit [simp]: "sowns (create_inherit i parent k) = sowns k"
  by (simp add: create_inherit_def Let_def split: option.split)

lemma sowns_init_user_stack [simp]: "sowns (snd (proc_init_user_stack i k)) = sowns k"
  by (simp add: proc_init_user_stack_def case_prod_beta Let_def)

text \<open>A new process gets a page-directory slot that was not in use, and a failure leaves no trace.\<close>

lemma init_space_own:
  assumes "slot k i = Some p"
  shows "case proc_init_space i k of (ok, k') \<Rightarrow>
    if ok then \<exists>s < length (sy_vm_mark k). \<not> sy_vm_mark k ! s \<and>
      sowns k' = ((owners k)[i := Some (p_pid p, p_type p, Some s)], (holds k)(s \<mapsto> (0, s)), (sy_vm_mark k)[s := True])
    else sowns k' = sowns k"
proof (cases "find_index Not (sy_vm_mark k)")
  case None
  then show ?thesis by (simp add: proc_init_space_def get_free_pde_def)
next
  case (Some s)
  define k1 where "k1 = k\<lparr>sy_vm_mark := (sy_vm_mark k)[s := True]\<rparr>"
  obtain ok k2 where k2: "take_alloc k1 = (ok, k2)" by (cases "take_alloc k1")
  have s: "s < length (sy_vm_mark k)" "\<not> sy_vm_mark k ! s" using find_index_SomeD [OF Some] by auto
  have "sowns k2 = sowns k1" using sowns_frame(1) k2 sowns_eq [OF owns_take_alloc [of k1]] by simp
  then have k2s: "sowns k2 = (owners k, holds k, (sy_vm_mark k)[s := True])"
    by (simp add: k1_def sowns_def owners_def holds_def fun_eq_iff)
  have "task_table k2 = task_table k" using k2 by (auto simp: take_alloc_def k1_def split: list.splits)
  then have sl: "slot (k2\<lparr>spaces := f\<rparr>) i = Some p" for f using assms by (simp add: slot_def split: if_splits)
  show ?thesis
  proof (cases ok)
    case True
    have "sowns (upd_proc i (\<lambda>p. p\<lparr>p_space := Some s\<rparr>) (k2\<lparr>spaces := (spaces k2)(s \<mapsto> zero_space\<lparr>sp_pde_index := s\<rparr>)\<rparr>))
      = ((owners k)[i := Some (p_pid p, p_type p, Some s)], (holds k)(s \<mapsto> (0, s)), (sy_vm_mark k)[s := True])"
      using k2s by (auto simp: sowns_def owners_upd_proc [OF sl] own_of_def)
    then show ?thesis using s True k2 Some
      by (simp add: proc_init_space_def get_free_pde_def k1_def [symmetric] case_prod_beta) blast
  next
    case False
    have "sowns (k2\<lparr>sy_vm_mark := (sy_vm_mark k2)[s := False]\<rparr>) = sowns k"
      using k2s s by (auto simp: sowns_def owners_def holds_def fun_eq_iff list_update_same_conv)
    then show ?thesis using False k2 Some
      by (simp add: proc_init_space_def get_free_pde_def k1_def [symmetric] case_prod_beta)
  qed
qed

lemma owners_space:
  assumes "owners k ! i = Some (pid, ty, sp)" "i < length (owners k)"
  obtains p where "slot k i = Some p" "the_proc k i = p" "p_pid p = pid" "p_type p = ty" "p_space p = sp"
  using assms by (auto simp: owners_nth own_of_def slot_def the_proc_def)

text \<open>A task that is not a process takes a reference on the space of its parent.\<close>

lemma share_own:
  assumes "slot k p = Some q" "p_space q = Some s" "holds k s = Some (r, d)" "slot k i = Some x" "p \<noteq> i"
  shows "sowns (upd_refs (p_space (the_proc k p)) (\<lambda>r. r + 1) (upd_proc i (\<lambda>q. q\<lparr>p_space := p_space (the_proc k p)\<rparr>) k))
    = ((owners k)[i := Some (p_pid x, p_type x, Some s)], (holds k)(s \<mapsto> (r + 1, d)), sy_vm_mark k)"
proof -
  let ?k = "upd_proc i (\<lambda>q. q\<lparr>p_space := Some s\<rparr>) k"
  have "sowns ?k = ((owners k)[i := Some (p_pid x, p_type x, Some s)], holds k, sy_vm_mark k)"
    by (simp add: sowns_def owners_upd_proc [OF assms(4)] own_of_def)
  moreover have "the_proc k p = q" using assms(1) by (simp add: the_proc_def)
  ultimately show ?thesis using sowns_upd_refs [of ?k _ "holds k" _ s r d "\<lambda>r. r + 1"] assms(2,3) by simp
qed

lemma create_space_own:
  assumes x: "slot k i = Some x" and par: "\<And>p. parent = Some p \<Longrightarrow> slot k p \<noteq> None \<and> p \<noteq> i"
  shows "case create_space type i parent k of (ok, k') \<Rightarrow>
    if \<not> ok then sowns k' = sowns k
    else if type = TASK_TYPE_PROC then \<exists>s < length (sy_vm_mark k). \<not> sy_vm_mark k ! s \<and>
      sowns k' = ((owners k)[i := Some (p_pid x, p_type x, Some s)], (holds k)(s \<mapsto> (0, s)), (sy_vm_mark k)[s := True])
    else \<exists>s r d. holds k s = Some (r, d) \<and>
      sowns k' = ((owners k)[i := Some (p_pid x, p_type x, Some s)], (holds k)(s \<mapsto> (r + 1, d)), sy_vm_mark k)"
proof (cases "type = TASK_TYPE_PROC \<or> parent = None \<or> proc_space_of k (the parent) = None")
  case True
  then show ?thesis using init_space_own [OF x] by (auto simp: create_space_def split: option.split)
next
  case False
  then obtain p sp where p: "parent = Some p" and sp: "proc_space_of k p = Some sp" by auto
  obtain q where q: "slot k p = Some q" "p \<noteq> i" using par [OF p] by auto
  then obtain s where s: "p_space q = Some s" "spaces k s = Some sp"
    using sp by (auto simp: proc_space_of_def the_proc_def space_at_def split: option.splits)
  define r where "r = (case sp_thread_stacks sp of Some _ \<Rightarrow> (True, k)
    | None \<Rightarrow> let (ok, k) = take_alloc k in
        (ok, if ok then set_thread_stacks p (replicate (max_task_per_proc k) \<lparr>ts_base = 0, ts_stacks = False\<rparr>) k else k))"
  obtain ok k1 where k1: "r = (ok, k1)" by (cases r)
  have same: "sowns k1 = sowns k" using k1 by (auto simp: r_def case_prod_beta Let_def split: option.splits if_splits)
  note o = sowns_parts [OF same]
  obtain q1 where q1: "slot k1 p = Some q1" "p_space q1 = Some s"
    using owners_space [of k1 p] owners_slot [OF q(1)] o s(1) by (auto simp: own_of_def)
  obtain x1 where x1: "slot k1 i = Some x1" "p_pid x1 = p_pid x" "p_type x1 = p_type x"
    using owners_space [of k1 i] owners_slot [OF x] o by (auto simp: own_of_def)
  have h: "holds k1 s = Some (sp_refs sp, sp_pde_index sp)" "holds k s = Some (sp_refs sp, sp_pde_index sp)"
    using s(2) o by (simp_all add: holds_def hold_of_def)
  have "create_space type i parent k = (if \<not> ok then (False, k1)
     else (True, upd_refs (p_space (the_proc k1 p)) (\<lambda>r. r + 1) (upd_proc i (\<lambda>q. q\<lparr>p_space := p_space (the_proc k1 p)\<rparr>) k1)))"
    using False p sp k1 by (simp add: create_space_def r_def [symmetric])
  then show ?thesis using share_own [OF q1 h(1) x1(1) q(2)] False x1(2,3) o same h(2) by (auto simp: sowns_def)
qed

lemma free_task_slot_SomeD:
  assumes "free_task_slot k = Some i"
  shows "i < length (task_table k)" "task_table k ! i = None" "slot k i = None"
proof -
  have "i \<in> set (slot_order (length (task_table k)) (sy_last_create_pid k))" "task_table k ! i = None"
    using assms by (auto simp: free_task_slot_def find_Some_iff in_set_conv_nth)
  then show "i < length (task_table k)" "task_table k ! i = None" "slot k i = None"
    by (auto simp: slot_order_def Let_def slot_def intro: mod_less_divisor split: if_splits)
qed

text \<open>The undoing of a creation gives back exactly what it took.\<close>

lemma unwind_proc_own:
  assumes ok: "own_ok (os, hs, mk)" and i: "i < length os" "os ! i = None" and s: "s < length mk" "\<not> mk ! s"
    and k: "sowns k = (os[i := Some (int i, TASK_TYPE_PROC, Some s)], hs(s \<mapsto> (0, s)), mk[s := True])"
  shows "sowns (create_unwind TASK_TYPE_PROC i k) = (os, hs, mk)"
proof -
  let ?k = "mm_log [PageTablesFree s] k"
  have sp: "p_space (the_proc k i) = Some s" using k i by (auto simp: sowns_def intro: owners_space [of k i])
  have "sowns ?k = (os[i := Some (int i, TASK_TYPE_PROC, Some s)], hs(s \<mapsto> (0, s)), mk[s := True])" using k by simp
  from sowns_drop_task [OF sowns_free_space [OF this]] show ?thesis
    using own_ok_unmarked(1) [OF ok s(2)] i s sp
    by (simp add: create_unwind_def list_update_same_conv fun_upd_idem)
qed

lemma unwind_share_own:
  assumes i: "i < length os" "os ! i = None" and ty: "ty \<noteq> TASK_TYPE_PROC" and h: "hs s = Some (r, d)"
    and k: "sowns k = (os[i := Some (int i, ty, Some s)], hs(s \<mapsto> (r + 1, d)), mk)"
  shows "sowns (create_unwind ty i k) = (os, hs, mk)"
proof -
  have sp: "p_space (the_proc k i) = Some s" using k i by (auto simp: sowns_def intro: owners_space [of k i])
  from sowns_drop_task [OF sowns_upd_refs [OF k, of s "r + 1" d "\<lambda>r. r - 1"], of i] show ?thesis
    using sp ty i h by (simp add: create_unwind_def list_update_same_conv fun_upd_idem)
qed

text \<open>After the address space is settled the creation succeeds or is undone.\<close>

definition create_rest :: "task_type \<Rightarrow> nat \<Rightarrow> nat option \<Rightarrow> bool \<times> system \<Rightarrow> system" where
  "create_rest type i parent bk = (case bk of (b, k) \<Rightarrow>
     if \<not> b then drop_task i k
     else let (c, k) = proc_init_user_stack i (create_inherit i parent k) in
       if \<not> c then create_unwind type i k
       else let k = upd_proc i (\<lambda>p. p\<lparr>p_start_sec := sy_uptime_sec k\<rparr>) k in proc_update_vsyscall (the_proc k i) k)"

lemma create_rest_own:
  assumes ok: "own_ok (os, hs, mk)" and i: "i < length os" "os ! i = None"
    and k: "if \<not> b then sowns k = (os[i := Some (int i, type, None)], hs, mk)
      else if type = TASK_TYPE_PROC then \<exists>s < length mk. \<not> mk ! s \<and>
        sowns k = (os[i := Some (int i, TASK_TYPE_PROC, Some s)], hs(s \<mapsto> (0, s)), mk[s := True])
      else \<exists>s r d. hs s = Some (r, d) \<and> sowns k = (os[i := Some (int i, type, Some s)], hs(s \<mapsto> (r + 1, d)), mk)"
  shows "own_step\<^sup>*\<^sup>* (os, hs, mk) (sowns (create_rest type i parent (b, k)))"
proof (cases b)
  case False
  then have "sowns k = (os[i := Some (int i, type, None)], hs, mk)" using k by simp
  from sowns_drop_task [OF this, of i] show ?thesis
    using False i list_update_id [of os i] by (simp add: create_rest_def)
next
  case True
  obtain c k5 where k5: "proc_init_user_stack i (create_inherit i parent k) = (c, k5)"
    by (cases "proc_init_user_stack i (create_inherit i parent k)")
  have s5: "sowns k5 = sowns k" using sowns_init_user_stack [of i "create_inherit i parent k"] k5 by simp
  have r: "sowns (create_rest type i parent (b, k)) = (if c then sowns k else sowns (create_unwind type i k5))"
    using True k5 s5 by (simp add: create_rest_def Let_def)
  have "own_step (os, hs, mk) (sowns k) \<and> sowns (create_unwind type i k5) = (os, hs, mk)"
  proof (cases "type = TASK_TYPE_PROC")
    case p: True
    then obtain s where s: "s < length mk" "\<not> mk ! s"
      "sowns k = (os[i := Some (int i, TASK_TYPE_PROC, Some s)], hs(s \<mapsto> (0, s)), mk[s := True])" using k True by auto
    then show ?thesis using NewProc [OF i s(1,2)] unwind_proc_own [OF ok i s(1,2), of k5] s5 p by simp
  next
    case p: False
    then obtain s r d where s: "hs s = Some (r, d)" "sowns k = (os[i := Some (int i, type, Some s)], hs(s \<mapsto> (r + 1, d)), mk)"
      using k True by auto
    then show ?thesis using NewShare [OF i p, where hs = hs and s = s] unwind_share_own [OF i p, where hs = hs and s = s and k = k5] s5 by auto
  qed
  then show ?thesis using r by auto
qed

text \<open>The new task is in the table before it has a space; its parent is another task.\<close>

definition create_insert :: "task_type \<Rightarrow> nat \<Rightarrow> nat option \<Rightarrow> system \<Rightarrow> system" where
  "create_insert type i parent k = (let (sid, cs) = cap_new_sid (sy_caps k);
     k = k\<lparr>sy_last_create_pid := i + 1, sy_proc_uuid := sy_proc_uuid k + 1, sy_caps := cs\<rparr> in
     create_caps i parent (k\<lparr>task_table := (task_table k)[i := Some (new_task i type (sy_proc_uuid k) sid)]\<rparr>))"

lemma proc_create_alt:
  "proc_create type parent k = (case free_task_slot k of None \<Rightarrow> (None, k)
     | Some i \<Rightarrow> let (a, k) = take_alloc k in
        if \<not> a then (None, k)
        else let r = create_space type i parent (create_insert type i parent k) in
          (if fst r \<and> fst (proc_init_user_stack i (create_inherit i parent (snd r))) then Some i else None, create_rest type i parent r))"
  by (simp add: proc_create_def create_insert_def create_rest_def Let_def case_prod_beta split: option.split)

lemma create_insert_own: "sowns (create_insert type i parent k) = ((owners k)[i := Some (int i, type, None)], holds k, sy_vm_mark k)"
proof -
  obtain sid cs where cs: "cap_new_sid (sy_caps k) = (sid, cs)" by (cases "cap_new_sid (sy_caps k)")
  have "own_of (new_task i type u sid) = (int i, type, None)" for u by (simp add: own_of_def new_task_def zero_proc_def)
  then show ?thesis by (simp add: create_insert_def cs) (simp add: sowns_def owners_def holds_def map_update fun_eq_iff)
qed

lemma proc_create_own:
  assumes ok: "own_ok (sowns k)" and par: "\<And>p. parent = Some p \<Longrightarrow> slot k p \<noteq> None"
  shows "own_step\<^sup>*\<^sup>* (sowns k) (sowns (snd (proc_create type parent k)))"
proof -
  obtain a k1 where k1: "take_alloc k = (a, k1)" by (cases "take_alloc k")
  have s1: "sowns k1 = sowns k" using sowns_eq [OF owns_take_alloc [of k]] k1 by simp
  show ?thesis
  proof (cases "free_task_slot k = None \<or> \<not> a")
    case True
    then show ?thesis using k1 s1 by (auto simp: proc_create_alt split: option.splits)
  next
    case False
    then obtain i where f: "free_task_slot k = Some i" and a by auto
    note i = free_task_slot_SomeD [OF f]
    let ?k = "create_insert type i parent k1"
    have k3: "owners ?k = (owners k)[i := Some (int i, type, None)]" "holds ?k = holds k" "sy_vm_mark ?k = sy_vm_mark k"
      using create_insert_own [of type i parent k1] sowns_parts [OF s1] by (simp_all add: sowns_def)
    have len: "i < length (owners k)" "owners k ! i = None" using i by (simp_all add: owners_nth)
    have len3: "length (task_table ?k) = length (owners k)" using arg_cong [OF k3(1), of length] by simp
    obtain x where x: "slot ?k i = Some x" "p_pid x = int i" "p_type x = type" using owners_space [of ?k i] k3(1) len by auto
    have "slot ?k p \<noteq> None \<and> p \<noteq> i" if pp: "parent = Some p" for p
    proof -
      obtain q where q: "slot k p = Some q" using par [OF pp] by auto
      then have "p \<noteq> i" using i(3) by auto
      then have "owners ?k ! p = Some (own_of q)" using owners_slot [OF q] k3(1) by simp
      then show ?thesis using owners_slot [OF q] len3 \<open>p \<noteq> i\<close> by (cases "own_of q") (auto elim: owners_space [of ?k p])
    qed
    note spc = create_space_own [OF x(1) this, where type = type and parent = parent, unfolded k3 x(2,3), simplified]
    obtain b k4 where k4: "create_space type i parent ?k = (b, k4)" by (cases "create_space type i parent ?k")
    have "own_step\<^sup>*\<^sup>* (sowns k) (sowns (create_rest type i parent (b, k4)))"
      unfolding sowns_def [of k]
    proof (rule create_rest_own [OF ok [unfolded sowns_def] len])
      have "sowns ?k = ((owners k)[i := Some (int i, type, None)], holds k, sy_vm_mark k)" using k3 by (simp add: sowns_def)
      then show "if \<not> b then sowns k4 = ((owners k)[i := Some (int i, type, None)], holds k, sy_vm_mark k)
        else if type = TASK_TYPE_PROC then \<exists>s < length (sy_vm_mark k). \<not> sy_vm_mark k ! s \<and>
          sowns k4 = ((owners k)[i := Some (int i, TASK_TYPE_PROC, Some s)], (holds k)(s \<mapsto> (0, s)), (sy_vm_mark k)[s := True])
        else \<exists>s r d. holds k s = Some (r, d) \<and>
          sowns k4 = ((owners k)[i := Some (int i, type, Some s)], (holds k)(s \<mapsto> (r + 1, d)), sy_vm_mark k)"
        using spc k4 by (cases b; cases "type = TASK_TYPE_PROC") simp_all
    qed
    then show ?thesis using f k1 \<open>a\<close> k4 by (simp add: proc_create_alt)
  qed
qed

section \<open>Burial\<close>

lemma sowns_stack_free_in [simp]: "sowns (stack_free_in s b k) = sowns k"
  by (simp add: stack_free_in_def split: option.split)

lemma sowns_proc_free_user_stack [simp]: "sowns (proc_free_user_stack p s k) = sowns k"
  by (simp add: proc_free_user_stack_def)

lemma sowns_proc_wake_thread_stack_waiters [simp]: "sowns (proc_wake_thread_stack_waiters s k) = sowns k"
  by (simp add: proc_wake_thread_stack_waiters_def split: option.split)

lemma sowns_free_handler_stacks [simp]: "sowns (free_handler_stacks s sp k) = sowns k"
  by (simp add: free_handler_stacks_def Let_def)

lemma sowns_bury_task [simp]: "sowns (bury_task p s k) = sowns k"
  by (simp add: bury_task_def Let_def)

lemma sowns_bury_space:
  "sowns k = (os, hs, mk) \<Longrightarrow> sowns (bury_space p s sp k) = (os, hs(s := None), mk[s := False])"
  by (simp add: bury_space_def Let_def sowns_free_space)

lemma reaped_refs:
  assumes "proc_can_reap_locked k (Some p)" "p_space p = Some s" "spaces k s = Some sp"
  shows "p_state p = ZOMBIE" "p_type p = TASK_TYPE_PROC \<Longrightarrow> sp_refs sp \<le> 0"
  using assms by (auto simp: proc_can_reap_locked_def space_at_def split: if_splits)

text \<open>Nobody is left in the space of a process that may be buried.\<close>

lemma reaped_alone:
  assumes "own_ok (os, hs, mk)" "i < length os" "os ! i = Some (pid, TASK_TYPE_PROC, Some s)" "hs s = Some (r, d)" "r \<le> 0"
    and "x \<in> set (os[i := None])"
  shows "\<not> shares s x \<and> \<not> owned_by s x"
proof
  have n: "sharers os s = 0" using own_okD(6) [OF assms(1,4)] assms(5) by simp
  obtain j where j: "j < length os" "x = os[i := None] ! j" using assms(6) by (auto simp: in_set_conv_nth)
  show "\<not> shares s x" using n j nth_mem [OF j(1)] assms(2) by (auto simp: sharers_def filter_empty_conv nth_update_if)
  show "\<not> owned_by s x"
    using j own_okD(2) [OF assms(1,2) j(1), of s] assms(2,3) by (auto simp: nth_update_if)
qed

text \<open>The reference of a task that is not a process is given back.\<close>

definition funeral_ref :: "proc \<Rightarrow> nat \<Rightarrow> proc_space \<Rightarrow> system \<Rightarrow> system" where
  "funeral_ref p s sp k = (if p_type p \<noteq> TASK_TYPE_PROC \<and> sp_refs sp > 0 then upd_refs (Some s) (\<lambda>r. r - 1) k else k)"

lemma proc_funeral_alt:
  assumes "p_state p = ZOMBIE" "p_space p = Some s" "spaces k s = Some sp" "p_type p = TASK_TYPE_PROC \<Longrightarrow> sp_refs sp \<le> 0"
  shows "sowns (proc_funeral p k) =
    (if get_current_proc k = None then sowns k
     else if p_type p = TASK_TYPE_PROC \<and> sp_pde_index sp \<ge> length (sy_vm_mark (funeral_ref p s sp k))
     then sowns (drop_task (nat (p_pid p)) (funeral_ref p s sp k))
     else sowns (drop_task (nat (p_pid p)) (let k = proc_free_user_stack p s (mm_log [DmaRelease (p_pid p), DmaForgetPeer (p_pid p)] (funeral_ref p s sp k))
       in if p_type p = TASK_TYPE_PROC then bury_space p s sp k else bury_task p s k)))"
proof -
  have d: "sowns (drop_task i (k\<lparr>active_space := a\<rparr>)) = sowns (drop_task i k)" for i a and k :: system
    by (simp add: drop_task_def sowns_def owners_def holds_def fun_eq_iff)
  show ?thesis using assms
    by (auto simp: proc_funeral_def funeral_ref_def Let_def d split: option.split)
qed

lemma funeral_own:
  assumes ok: "own_ok (sowns k)" and p: "slot k i = Some p" and reap: "proc_can_reap_locked k (Some p)"
  shows "own_step\<^sup>*\<^sup>* (sowns k) (sowns (proc_funeral p (drop_task i k)))"
proof -
  define os hs mk where st: "os = owners k" "hs = holds k" "mk = sy_vm_mark k"
  let ?k = "drop_task i k" and ?os = "os[i := None]"
  have sk: "sowns k = (os, hs, mk)" by (simp add: sowns_def st)
  obtain s sp where sp: "p_pid p = int i" "p_space p = Some s" "spaces k s = Some sp" using own_ok_slot [OF ok p] by blast
  note z = reaped_refs [OF reap sp(2,3)]
  have i: "i < length os" "os ! i = Some (int i, p_type p, Some s)" using owners_slot [OF p] sp by (simp_all add: st own_of_def)
  have h: "hs s = Some (sp_refs sp, sp_pde_index sp)" using sp(3) by (simp add: st holds_def hold_of_def)
  have k1: "sowns ?k = (?os, hs, mk)" by (rule sowns_drop_task [OF sk])
  have sp1: "spaces ?k s = Some sp" using sp(3) by (simp add: drop_task_def)
  have take: "own_step (os, hs, mk) (?os, hs, mk)" by (rule Take)
  have again: "sowns k' = (?os, hs', mk') \<Longrightarrow> sowns (drop_task (nat (p_pid p)) k') = (?os, hs', mk')" for k' hs' mk'
    using sowns_drop_task [of k' ?os hs' mk' i] sp(1) by simp
  note alt = proc_funeral_alt [OF z(1) sp(2) sp1 z(2)]
  show ?thesis
  proof (cases "get_current_proc ?k = None")
    case True
    then show ?thesis using alt take sk k1 by simp
  next
    case False
    show ?thesis
    proof (cases "p_type p = TASK_TYPE_PROC")
      case True
      have "own_step (?os, hs, mk) (?os, hs(s := None), mk[s := False])"
        using reaped_alone [OF ok [unfolded sk] i(1) _ h z(2) [OF True]] i(2) True by (intro Free) simp
      then have "own_step\<^sup>*\<^sup>* (os, hs, mk) (?os, hs(s := None), mk[s := False])"
        by (rule rtranclp.rtrancl_into_rtrancl [OF r_into_rtranclp [where r = own_step, OF take]])
      moreover have "sowns (proc_funeral p ?k) = (?os, hs, mk) \<or> sowns (proc_funeral p ?k) = (?os, hs(s := None), mk[s := False])"
        using alt False True again [OF k1] again [OF sowns_bury_space, of _ hs mk p s sp] k1 by (simp add: funeral_ref_def Let_def)
      ultimately show ?thesis using take sk by auto
    next
      case nt: False
      have n: "int (sharers os s) \<le> sp_refs sp" using own_okD(6) [OF ok [unfolded sk] h] .
      have "sharers ?os s + 1 = sharers os s" using sharers_update [OF i(1), of None s] i(2) nt by simp
      then have lt: "int (sharers ?os s) < sp_refs sp" "sp_refs sp > 0" using n by linarith+
      have "own_step (?os, hs, mk) (?os, hs(s \<mapsto> (sp_refs sp - 1, sp_pde_index sp)), mk)" by (rule Release [where hs = hs and s = s, OF h lt(1)])
      then have "own_step\<^sup>*\<^sup>* (os, hs, mk) (?os, hs(s \<mapsto> (sp_refs sp - 1, sp_pde_index sp)), mk)"
        by (rule rtranclp.rtrancl_into_rtrancl [OF r_into_rtranclp [where r = own_step, OF take]])
      then show ?thesis
        using alt False nt sk again sowns_upd_refs [OF k1, where s = s and f = "\<lambda>r. r - 1"] h lt(2) by (simp add: funeral_ref_def Let_def)
    qed
  qed
qed

lemma take_next_SomeD:
  assumes "proc_take_next_zombie force k = (Some p, k')"
  obtains i where "slot k i = Some p" "proc_can_reap_locked k (Some p)" "k' = drop_task i k"
proof -
  obtain i where i: "find_index (\<lambda>x. proc_can_reap_locked k x \<and> (force \<or> \<not> in_grace k (the x))) (task_table k) = Some i"
    "task_table k ! i = Some p" "k' = drop_task i k"
    using assms by (auto simp: proc_take_next_zombie_def split: option.splits)
  then show thesis using find_index_SomeD [OF i(1)] by (intro that) (auto simp: slot_def)
qed

lemma zombie_loop_own: "own_ok (sowns k) \<Longrightarrow> own_step\<^sup>*\<^sup>* (sowns k) (sowns (zombie_loop n force k))"
proof (induction n arbitrary: k)
  case (Suc n)
  obtain r k1 where k1: "proc_take_next_zombie force k = (r, k1)" by (cases "proc_take_next_zombie force k")
  show ?case
  proof (cases r)
    case None
    then show ?thesis using k1
      by (auto simp: proc_take_next_zombie_def proc_can_reap_locked_def dest!: find_index_SomeD split: option.splits)
  next
    case (Some p)
    obtain i where i: "slot k i = Some p" "proc_can_reap_locked k (Some p)" "k1 = drop_task i k"
      using take_next_SomeD k1 Some by blast
    have f: "own_step\<^sup>*\<^sup>* (sowns k) (sowns (proc_funeral p k1))" unfolding i(3) by (rule funeral_own [OF Suc.prems i(1,2)])
    have "own_step\<^sup>*\<^sup>* (sowns (proc_funeral p k1)) (sowns (zombie_loop n force (proc_funeral p k1)))"
      by (rule Suc.IH [OF own_steps_ok [OF f Suc.prems]])
    then show ?thesis using f k1 Some by simp
  qed
qed simp

lemma proc_zombie_funeral_own: "own_ok (sowns k) \<Longrightarrow> own_step\<^sup>*\<^sup>* (sowns k) (sowns (proc_zombie_funeral force k))"
  unfolding proc_zombie_funeral_def by (rule zombie_loop_own)

end
