(* ===== verification/Life_Steps.thy ===== *)
theory Life_Steps
  imports Life_Own
begin

text \<open>
  Every system call of the life cycle, the clocks and the calls that switch tasks are sequences of
  steps of the ownership machine.
\<close>

section \<open>Live tasks stay in the table\<close>

definition alive :: "'a kernel_scheme \<Rightarrow> nat \<Rightarrow> bool" where
  "alive k j \<longleftrightarrow> lives k j = Some True"

lemma alive_slot: "alive k j \<Longrightarrow> slot k j \<noteq> None"
  by (auto simp: alive_def lives_def)

lemma alive_current: "get_current_proc k = Some c \<Longrightarrow> alive k c"
  by (auto simp: get_current_proc_alt alive_def lives_def proc_get_alt split: if_splits option.splits)

lemma alive_proc_get: "proc_get k pid = Some i \<Longrightarrow> alive k i"
  by (auto simp: alive_def lives_def proc_get_alt split: if_splits option.splits)

lemma lives_table: "task_table k' = task_table k \<Longrightarrow> lives k' = lives k" for k k' :: "'a kernel_scheme"
  by (rule ext) (simp add: lives_def slot_def)

lemma table_mm_log [simp]: "task_table (mm_log cs k) = task_table k"
  by (simp add: mm_log_def)

lemma table_upd_space [simp]: "task_table (upd_space s f k) = task_table k"
  by (simp add: upd_space_def split: option.split)

lemma table_upd_refs [simp]: "task_table (upd_refs s f k) = task_table k"
  by (simp add: upd_refs_def)

lemma table_stack_free_in [simp]: "task_table (stack_free_in s b k) = task_table k"
  by (simp add: stack_free_in_def split: option.split)

lemma table_proc_free_user_stack [simp]: "task_table (proc_free_user_stack p s k) = task_table k"
  by (simp add: proc_free_user_stack_def)

lemma table_bury_space [simp]: "task_table (bury_space p s sp k) = task_table k"
  by (simp add: bury_space_def free_handler_stacks_def free_space_def Let_def)

lemma lives_wake_thread_stack_waiters [simp]: "lives (proc_wake_thread_stack_waiters s k) = lives k"
  by (simp add: proc_wake_thread_stack_waiters_def lives_quiet [OF quiet_ipc_wakeup] split: option.split)

lemma lives_bury_task: "lives (bury_task p s k) = lives k"
  by (simp add: bury_task_def Let_def lives_table [OF table_mm_log] lives_table [OF table_stack_free_in])

lemma lives_drop_task: "lives (drop_task i k) j = (if j = i then None else lives k j)"
  by (auto simp: lives_def slot_def drop_task_def nth_list_update)

lemma lives_funeral: "j \<noteq> nat (p_pid p) \<Longrightarrow> lives (proc_funeral p k) j = lives k j"
proof -
  assume j: "j \<noteq> nat (p_pid p)"
  have t: "lives (bury_space p s sp (proc_free_user_stack p s k)) = lives k" "lives (proc_free_user_stack p s k) = lives k"
    "lives (mm_log cs k) = lives k" "lives (upd_refs u f k) = lives k" "lives (k\<lparr>active_space := a\<rparr>) = lives k" "lives (crash k) = lives k"
    for s sp cs u f a and k :: system
    by (rule lives_table; simp add: crash_def)+
  show ?thesis using j
    by (simp add: proc_funeral_def lives_drop_task lives_bury_task t Let_def split: option.split)
qed

lemma alive_zombie_loop: "own_ok (sowns k) \<Longrightarrow> alive k j \<Longrightarrow> alive (zombie_loop n force k) j"
proof (induction n arbitrary: k)
  case (Suc n)
  obtain r k1 where k1: "proc_take_next_zombie force k = (r, k1)" by (cases "proc_take_next_zombie force k")
  show ?case
  proof (cases r)
    case None
    then show ?thesis using k1 Suc.prems
      by (auto simp: proc_take_next_zombie_def proc_can_reap_locked_def dest!: find_index_SomeD split: option.splits)
  next
    case (Some p)
    obtain i where i: "slot k i = Some p" "proc_can_reap_locked k (Some p)" "k1 = drop_task i k"
      using take_next_SomeD k1 Some by blast
    obtain s where s: "p_pid p = int i" using own_ok_slot [OF Suc.prems(1) i(1)] by blast
    have "\<not> alive k i" using i by (auto simp: alive_def lives_def proc_can_reap_locked_def split: if_splits)
    then have "j \<noteq> i" using Suc.prems(2) by auto
    then have a: "alive (proc_funeral p k1) j"
      using Suc.prems(2) s by (simp add: alive_def lives_funeral i(3) lives_drop_task)
    have "own_ok (sowns (proc_funeral p k1))" unfolding i(3)
      by (rule own_steps_ok [OF funeral_own [OF Suc.prems(1) i(1,2)] Suc.prems(1)])
    from Suc.IH [OF this a] show ?thesis using k1 Some by simp
  qed
qed simp

lemma alive_zombie_funeral: "own_ok (sowns k) \<Longrightarrow> alive k j \<Longrightarrow> alive (proc_zombie_funeral force k) j"
  unfolding proc_zombie_funeral_def by (rule alive_zombie_loop)

section \<open>Creation touches one slot\<close>

lemma slot_drop_task: "slot (drop_task i k) j = (if j = i then None else slot k j)"
  by (auto simp: drop_task_def slot_def nth_list_update)

lemma slot_table_cong: "task_table k' = task_table k \<Longrightarrow> slot k' = slot k" for k k' :: "'a kernel_scheme"
  by (rule ext) (simp add: slot_def)

lemma table_take_alloc [simp]: "task_table (snd (take_alloc k)) = task_table k"
  by (simp add: take_alloc_def split: list.split)

lemma table_set_thread_stacks [simp]: "task_table (set_thread_stacks i sts k) = task_table k"
  by (simp add: set_thread_stacks_def)

lemma table_thread_stack_alloc [simp]: "task_table (snd (thread_stack_alloc i k)) = task_table k"
  by (simp add: thread_stack_alloc_def thread_stack_slot_def Let_def case_prod_beta split: option.split)

lemma other_slot_create:
  assumes "free_task_slot k = Some i" "j \<noteq> i"
  shows "slot (snd (proc_create type parent k)) j = slot k j"
proof -
  have o: "slot (upd_proc i f k) j = slot k j" for f and k :: system using assms(2) by (simp add: slot_upd_proc)
  have insert: "slot (create_insert type i parent k) j = slot k j" for k
    using assms(2)
    by (simp add: create_insert_def create_caps_def proc_cap_grant_root_def o Let_def case_prod_beta split: option.split)
      (simp add: slot_def)
  have space: "slot (snd (create_space type i parent k)) j = slot k j" for k
    by (auto simp: create_space_def proc_init_space_def get_free_pde_def crash_def Let_def case_prod_beta o
        slot_table_cong [OF table_take_alloc] slot_table_cong [OF table_upd_refs] slot_table_cong [OF table_set_thread_stacks]
        split: option.split) (simp_all add: slot_def)
  have stack: "slot (snd (proc_init_user_stack i (create_inherit i parent k))) j = slot k j" for k
    by (simp add: proc_init_user_stack_def create_inherit_def Let_def case_prod_beta o slot_table_cong [OF table_take_alloc]
        slot_table_cong [OF table_thread_stack_alloc] split: option.split)
  have unwind: "slot (create_unwind type i k) j = slot k j" for k
    using assms(2) by (simp add: create_unwind_def slot_drop_task free_space_def slot_table_cong [OF table_upd_refs] Let_def split: option.split)
      (simp add: slot_def)
  have vs: "slot (proc_update_vsyscall p k) j = slot k j" for p k by (simp add: proc_update_vsyscall_def slot_def)
  show ?thesis
    using assms
    by (simp add: proc_create_alt create_rest_def Let_def case_prod_beta slot_drop_task insert space stack unwind vs o
        slot_table_cong [OF table_take_alloc])
qed

lemma alive_create: "alive k j \<Longrightarrow> alive (snd (proc_create type parent k)) j"
proof (cases "free_task_slot k")
  case (Some i)
  assume a: "alive k j"
  then have "j \<noteq> i" using free_task_slot_SomeD(3) [OF Some] alive_slot [of k j] by auto
  then show ?thesis using a other_slot_create [OF Some] by (simp add: alive_def lives_def)
qed (simp add: proc_create_def)

section \<open>Life-cycle operations as runs of the machine\<close>

text \<open>\<open>leads k k'\<close>: if the ownership of \<open>k\<close> is in order, \<open>k'\<close> is reached by steps of the machine.\<close>

definition leads :: "system \<Rightarrow> system \<Rightarrow> bool" where
  "leads k k' \<longleftrightarrow> (own_ok (sowns k) \<longrightarrow> own_step\<^sup>*\<^sup>* (sowns k) (sowns k'))"

lemma leads_same [intro]: "sowns k' = sowns k \<Longrightarrow> leads k k'"
  by (simp add: leads_def)

lemma leads_trans [trans]: "leads k k1 \<Longrightarrow> leads k1 k2 \<Longrightarrow> leads k k2"
  unfolding leads_def using own_steps_ok by (meson rtranclp_trans)

lemma leads_ok: "leads k k' \<Longrightarrow> own_ok (sowns k) \<Longrightarrow> own_ok (sowns k')"
  unfolding leads_def using own_steps_ok by blast

lemma leads_left: "sowns k1 = sowns k \<Longrightarrow> leads k1 k' \<Longrightarrow> leads k k'"
  by (simp add: leads_def)

lemma leads_right: "leads k k1 \<Longrightarrow> sowns k' = sowns k1 \<Longrightarrow> leads k k'"
  by (simp add: leads_def)

lemma leads_create: "alive k p \<Longrightarrow> leads k (snd (proc_create type (Some p) k))"
  unfolding leads_def using proc_create_own [of k "Some p" type] alive_slot [of k p] by auto

lemma leads_zombie_funeral [intro]: "leads k (proc_zombie_funeral force k)"
  unfolding leads_def using proc_zombie_funeral_own by blast

lemma sowns_proc_clone [simp]: "sowns (snd (proc_clone c p k)) = sowns k"
  by (simp add: proc_clone_def Let_def split: option.split)

lemma leads_kfork_raw:
  assumes "alive k p"
  shows "leads k (snd (kfork_raw ctx type p k))"
proof -
  obtain c k1 where k1: "proc_create type (Some p) k = (c, k1)" by (cases "proc_create type (Some p) k")
  define k2 where "k2 = (if c = None then snd (proc_create type (Some p) (proc_zombie_funeral True k1)) else k1)"
  have l1: "leads k k1" using leads_create [OF assms, of type] k1 by simp
  have "leads k k2"
  proof (cases "c = None \<and> own_ok (sowns k)")
    case True
    have "alive (proc_zombie_funeral True k1) p"
      using alive_create [OF assms, of type "Some p"] alive_zombie_funeral leads_ok [OF l1] True k1 by simp
    then have "leads k k2" unfolding k2_def using leads_trans [OF leads_trans [OF l1 leads_zombie_funeral] leads_create] True by simp
    then show ?thesis .
  next
    case False
    then show ?thesis using l1 by (auto simp: k2_def leads_def)
  qed
  then show ?thesis
    by (rule leads_right)
      (auto simp: kfork_raw_def k1 k2_def Let_def case_prod_beta split: option.split)
qed

lemma leads_kfork: "leads k (snd (kfork ctx type k))"
proof (cases "get_current_proc k")
  case (Some c)
  show ?thesis
    by (rule leads_right [OF leads_kfork_raw [OF alive_current [OF Some], of "Some ctx" type]])
      (simp add: kfork_def Some Let_def case_prod_beta split: option.split)
qed (auto simp: kfork_def)

lemma leads_spawn:
  assumes "alive k sv"
  shows "leads k (snd (proc_ipc_pool_spawn sv core k))"
proof (cases "\<exists>s. server_of k sv = Some s \<and> is_entry s \<noteq> 0")
  case True
  then show ?thesis
    by (intro leads_right [OF leads_kfork_raw [OF assms, of None TASK_TYPE_THREAD]])
      (auto simp: proc_ipc_pool_spawn_def case_prod_beta split: option.split prod.split)
qed (auto simp: proc_ipc_pool_spawn_def split: option.splits)

lemma leads_take:
  assumes "proc_take_zombie_by_pid pid k = (r, k1)"
  shows "case r of None \<Rightarrow> sowns k1 = sowns k | Some p \<Rightarrow> leads k (proc_funeral p k1)"
proof (cases r)
  case None
  then show ?thesis using assms
    by (auto simp: proc_take_zombie_by_pid_def proc_can_reap_locked_def split: if_splits option.splits)
next
  case (Some p)
  then have "slot k (nat pid) = Some p" "proc_can_reap_locked k (Some p)" "k1 = drop_task (nat pid) k"
    using assms by (auto simp: proc_take_zombie_by_pid_def slot_def split: if_splits)
  then show ?thesis using funeral_own [of k "nat pid" p] Some by (simp add: leads_def)
qed

lemma leads_waitpid: "leads k (snd (proc_waitpid ctx pid k))"
proof -
  have reap: "leads k (snd (case proc_take_zombie_by_pid pid k' of (None, k) \<Rightarrow> (c1, k) | (Some q, k) \<Rightarrow> (c2, proc_funeral q k)))"
    if "sowns k' = sowns k" for k' c1 c2
    using that leads_take [of pid k'] leads_left [OF that]
    by (cases "proc_take_zombie_by_pid pid k'") (auto split: option.splits)
  have same: "leads k k" by (rule leads_same) simp
  show ?thesis using same reap [OF refl]
    by (simp add: proc_waitpid_def Let_def case_prod_beta reap [unfolded case_prod_beta] split: option.split)
qed

lemma leads_sys_signal: "leads k (snd (sys_signal ctx pid sig k))"
  by (rule leads_same) (simp add: sys_signal_def Let_def split: option.split)

lemma leads_sys_exit: "leads k (snd (sys_exit ctx res k))"
  by (rule leads_same) (simp add: sys_exit_def)

lemma leads_sys_fork: "leads k (snd (sys_fork ctx k))"
  by (rule leads_right [OF leads_kfork [of k ctx TASK_TYPE_PROC]])
    (simp add: sys_fork_def Let_def case_prod_beta split: option.split)

lemma leads_sys_thread: "leads k (snd (sys_thread ctx entry func arg k))"
  by (rule leads_right [OF leads_kfork [of k "set_gpr 0 (-1) ctx" TASK_TYPE_THREAD]])
    (simp add: sys_thread_def Let_def case_prod_beta split: option.split)

lemma leads_sys_detach: "leads k (sys_detach k)"
  by (rule leads_same) (simp add: sys_detach_def split: option.split)

lemma leads_renew_kernel_sec: "leads k (renew_kernel_sec k)"
  by (rule leads_right [OF leads_zombie_funeral [of k False]]) (simp add: renew_kernel_sec_def Let_def sowns_fold)

section \<open>The ipc calls\<close>

lemma lives_queue [simp]: "lives (k\<lparr>ipc_timeout_queue := q\<rparr>) = lives k"
  by (rule lives_table) simp

lemma lives_upd_server [simp]: "lives (upd_server sv f k) = lives k"
  by (simp add: upd_server_def Let_def case_prod_beta split: option.split)

lemma lives_res_upd [simp]: "lives (res_upd loc f k) = lives k"
  by (cases loc) (simp_all add: lives_upd upd_intr_def)

lemma lives_proc_track_ipc_timeout [simp]: "lives (proc_track_ipc_timeout sv k) = lives k"
  by (simp add: proc_track_ipc_timeout_def Let_def case_prod_beta split: option.split)

lemma lives_proc_ipc_req [simp]: "lives (snd (snd (proc_ipc_req uid sv c n arg k))) = lives k"
  by (simp add: proc_ipc_req_def Let_def case_prod_beta split: option.split)

lemma lives_res_busy [simp]: "lives (res_busy c k) = lives k"
  by (simp add: res_busy_def Let_def case_prod_beta split: option.split)

lemma lives_upd_pool [simp]: "lives (upd_pool sv n f k) = lives k"
  by (simp add: upd_pool_def Let_def case_prod_beta split: option.split)

lemma lives_ipc_pool_slot_worker [simp]: "lives (snd (ipc_pool_slot_worker sv n k)) = lives k"
  by (simp add: ipc_pool_slot_worker_def Let_def case_prod_beta split: option.split)

lemma lives_pool_scan [simp]: "lives (snd (pool_scan P sv ns k)) = lives k"
  by (induction ns arbitrary: k) (simp_all add: Let_def case_prod_beta)

lemma lives_fold_snd: "(\<And>i x. lives (snd (f i x)) = lives (snd x)) \<Longrightarrow> lives (snd (fold f xs x)) = lives (snd x)"
  by (induction xs arbitrary: x) simp_all

lemma lives_count_at [simp]: "lives (snd (count_at sv n x)) = lives (snd x)"
  by (simp add: count_at_def case_prod_beta split: option.split)

lemma lives_ipc_pool_count_locked [simp]: "lives (snd (ipc_pool_count_locked sv k)) = lives k"
  by (simp add: ipc_pool_count_locked_def lives_fold_snd Let_def case_prod_beta split: option.split)

lemma lives_ipc_pool_core_member_locked [simp]: "lives (snd (ipc_pool_core_member_locked sv c k)) = lives k"
  by (simp add: ipc_pool_core_member_locked_def Let_def case_prod_beta split: option.split)

lemma lives_pool_can_grow [simp]: "lives (snd (pool_can_grow sv k)) = lives k"
  by (simp add: pool_can_grow_def Let_def case_prod_beta split: option.split)

lemma lives_ipc_pool_pick_idle_locked:
  assumes "ipc_pool_pick_idle_locked sv t c k = (None, k')"
  shows "lives k' = lives k"
proof -
  obtain r k1 where r: "pool_scan (idle_on c) sv [0..<length (pool_of k sv)] k = (r, k1)" by fastforce
  have "lives k1 = lives k" using arg_cong [OF r, of "\<lambda>x. lives (snd x)"] by simp
  then show ?thesis using assms r by (auto simp: ipc_pool_pick_idle_locked_def split: option.splits)
qed

lemma lives_proc_ipc_wait: "fst (proc_ipc_wait ctx sv i k) \<noteq> 0 \<Longrightarrow> lives (snd (snd (proc_ipc_wait ctx sv i k))) = lives k"
  by (auto simp: proc_ipc_wait_def ipc_park_on_def Let_def lives_quiet [OF quiet_cancel_wait] case_prod_beta split: if_splits option.splits)

lemma leads_pool_assign:
  assumes "alive k sv"
  shows "leads k (snd (ipc_pool_assign proc_ipc_pool_spawn sv t core k))"
proof -
  obtain r k1 where k1: "ipc_pool_pick_idle_locked sv t core k = (r, k1)" by (cases "ipc_pool_pick_idle_locked sv t core k")
  have s1: "sowns k1 = sowns k" using sowns_eq [OF owns_ipc_pool_pick_idle_locked [of sv t core k]] k1 by simp
  show ?thesis
  proof (cases r)
    case None
    have a1: "lives k1 = lives k" using lives_ipc_pool_pick_idle_locked k1 None by simp
    define mcore where "mcore = serv_has (the (server_of k sv)) IPC_MULTI_CORE"
    obtain m k2 where r2: "(if \<not> mcore then (None, k1) else ipc_pool_core_member_locked sv core k1) = (m, k2)" by fastforce
    obtain g k3 where r3: "pool_can_grow sv k2 = (g, k3)" by fastforce
    obtain nw k4 where r4: "(if g then proc_ipc_pool_spawn sv core k3 else (None, k3)) = (nw, k4)" by fastforce
    have s2: "sowns k2 = sowns k" "lives k2 = lives k"
      using arg_cong [OF r2, of "\<lambda>x. sowns (snd x)"] arg_cong [OF r2, of "\<lambda>x. lives (snd x)"] s1 a1 by (auto split: if_splits)
    then have s3: "sowns k3 = sowns k" "lives k3 = lives k"
      using arg_cong [OF r3, of "\<lambda>x. sowns (snd x)"] arg_cong [OF r3, of "\<lambda>x. lives (snd x)"] by auto
    have l4: "leads k k4"
      using leads_left [OF s3(1) leads_spawn, of sv core] assms s3 arg_cong [OF r4, of snd] by (auto simp: alive_def split: if_splits)
    obtain r5 k5 where r5: "ipc_pool_pick_idle_locked sv t core k4 = (r5, k5)" by fastforce
    have s5: "sowns k5 = sowns k4" using sowns_eq [OF owns_ipc_pool_pick_idle_locked [of sv t core k4]] r5 by simp
    have "sowns (snd (ipc_pool_assign proc_ipc_pool_spawn sv t core k)) = sowns k \<or>
      sowns (snd (ipc_pool_assign proc_ipc_pool_spawn sv t core k)) = sowns k4"
      using s2(1) s5 unfolding ipc_pool_assign_def mcore_def [symmetric] Let_def k1 None r2 r3 r4 prod.case
      by (simp add: r5 case_prod_beta split: option.split)
    then show ?thesis using l4 leads_right by auto
  next
    case (Some w)
    then show ?thesis using k1 s1 by (intro leads_same) (simp add: ipc_pool_assign_def Let_def)
  qed
qed

lemma leads_call_pass:
  assumes "alive k sv"
  shows "case ipc_call_pass proc_ipc_pool_spawn client call_id arg sv ctx uid k of
    Inl (_, _, k') \<Rightarrow> leads k k' | Inr (_, _, k') \<Rightarrow> leads k k'"
proof -
  obtain r uid1 k1 where r: "proc_ipc_req uid sv client call_id arg k = (r, uid1, k1)" by (metis prod_cases3)
  have s1: "sowns k1 = sowns k" "lives k1 = lives k"
    using arg_cong [OF r, of "\<lambda>x. sowns (snd (snd x))"] arg_cong [OF r, of "\<lambda>x. lives (snd (snd x))"] by simp_all
  show ?thesis
  proof (cases r)
    case None
    have "leads k (snd (snd (proc_ipc_wait c sv client k1)))" for c by (rule leads_same) (simp add: s1)
    then show ?thesis unfolding ipc_call_pass_def r None by (auto simp: case_prod_beta Let_def)
  next
    case (Some t)
    let ?core = "p_core (the_proc (res_busy client k1) client)"
    obtain w k2 where w: "ipc_pool_assign proc_ipc_pool_spawn sv t ?core (res_busy client k1) = (w, k2)" by fastforce
    have "alive (res_busy client k1) sv" using assms s1(2) by (simp add: alive_def)
    then have l2: "leads k k2" using leads_left [OF _ leads_pool_assign, of "res_busy client k1" k sv t ?core] s1(1) w by simp
    have l3: "sowns k' = sowns k2 \<Longrightarrow> leads k k'" for k' using leads_right [OF l2] by blast
    show ?thesis unfolding ipc_call_pass_def r Some prod.case option.case Let_def w
      by (cases w) (auto simp: case_prod_beta Let_def intro!: l3)
  qed
qed

lemma leads_call_loop:
  assumes "ipc_call_loop spawn client call_id arg serv_pid serv_uuid sv ctx uid k = Some r"
  shows "spawn = proc_ipc_pool_spawn \<longrightarrow> alive k sv \<longrightarrow> leads k (snd (snd r))"
proof (rule ipc_call_loop.raw_induct [OF _ assms, where P = "\<lambda>sp cl ci ar pid uu sv ctx uid k r.
    sp = proc_ipc_pool_spawn \<longrightarrow> alive k sv \<longrightarrow> leads k (snd (snd r))"], goal_cases)
  case (1 loop sp cl ci ar pid uu sv ctx uid k r)
  note IH = 1(1) and body = 1(2)
  show ?case
  proof (intro impI)
    assume sp: "sp = proc_ipc_pool_spawn" and a: "alive k sv"
    note pass = leads_call_pass [OF a, of cl ci ar ctx uid, folded sp]
    show "leads k (snd (snd r))"
    proof (cases "ipc_call_pass sp cl ci ar sv ctx uid k")
      case (Inl x)
      then show ?thesis using body pass by (cases x) auto
    next
      case (Inr x)
      obtain ctx1 uid1 k1 where x: "x = (ctx1, uid1, k1)" by (metis prod_cases3)
      have l1: "leads k k1" using pass Inr x by simp
      obtain n ctx2 k2 where w: "proc_ipc_wait (ret IPC_ERROR_RETRY ctx1) (the (proc_get k1 pid)) cl k1 = (n, ctx2, k2)"
        by (metis prod_cases3)
      have s2: "sowns k2 = sowns k1" using arg_cong [OF w, of "\<lambda>x. sowns (snd (snd x))"] by simp
      have a2: "n \<noteq> 0 \<Longrightarrow> lives k2 = lives k1" using lives_proc_ipc_wait [of "ret IPC_ERROR_RETRY ctx1" "the (proc_get k1 pid)" cl k1] w by simp
      have rec: "loop sp cl ci ar pid uu sv' c u k' = Some r \<Longrightarrow> sowns k' = sowns k1 \<Longrightarrow> alive k' sv' \<Longrightarrow> leads k (snd (snd r))"
        for sv' c u k'
        using IH [of sp cl ci ar pid uu sv' c u k' r] sp leads_trans [OF l1] leads_left [of k' k1] by blast
      show ?thesis
      proof (cases "proc_get k1 pid")
        case None
        then show ?thesis using body Inr x l1 by auto
      next
        case (Some sv')
        have a1: "alive k1 sv'" by (rule alive_proc_get [OF Some])
        have l2: "leads k k2" by (rule leads_right [OF l1 s2])
        have a2': "n \<noteq> 0 \<Longrightarrow> alive k2 sv'" using a1 a2 by (simp add: alive_def)
        show ?thesis
          using body l1 l2 rec [of sv' _ _ k1] rec [of sv' _ _ k2] s2 a1 a2' w
          by (auto simp: Inr x Some split: option.splits if_splits)
      qed
    qed
  qed
qed

lemma leads_ipc_call:
  assumes "sys_ipc_call ctx pid call_id arg uid k = Some (ctx', uid', k')"
  shows "leads k k'"
proof -
  have w: "leads k k1" if "proc_ipc_wait c sv i k = (n, c1, k1)" for c sv i n c1 k1
    using arg_cong [OF that, of "\<lambda>x. sowns (snd (snd x))"] by (auto intro: leads_same)
  have o: "leads k k1" if "ipc_call_single c ci ar sv ct u k = (c1, u1, k1)" for c ci ar sv ct u c1 u1 k1
    using arg_cong [OF that, of "\<lambda>x. sowns (snd (snd x))"] by (auto intro: leads_same)
  have l: "leads k k1" if "ipc_call_loop proc_ipc_pool_spawn c ci ar p uu sv ct u k = Some (c1, u1, k1)" "proc_get k p' = Some sv"
    for c ci ar p uu sv ct u c1 u1 k1 p' using leads_call_loop [OF that(1)] alive_proc_get [OF that(2)] by simp
  have r: "leads k k" "leads k (k\<lparr>halted := h\<rparr>)" for h by (rule leads_same; simp)+
  show ?thesis using assms unfolding sys_ipc_call_def proc_ipc_call_def Let_def
    by (auto simp: r split: option.splits if_splits prod.splits dest: w o l)
qed

lemma sowns_park_finish: "(\<And>c w r k. sowns (snd (pexit c w r k)) = sowns k) \<Longrightarrow> sowns (snd (park_finish pexit ctx w sv k)) = sowns k"
  by (simp add: park_finish_def split: option.split)

lemma sowns_pool_park:
  "(\<And>c w r k. sowns (snd (pexit c w r k)) = sowns k) \<Longrightarrow> sowns (snd (proc_ipc_pool_park pexit u ctx w sv cl k)) = sowns k"
  by (simp add: proc_ipc_pool_park_def Let_def case_prod_beta sowns_park_finish split: option.split)

lemma sowns_end_multi:
  "(\<And>c w r k. sowns (snd (pexit c w r k)) = sowns k) \<Longrightarrow> sowns (snd (ipc_end_multi pexit u ctx w sv k)) = sowns k"
  by (simp add: ipc_end_multi_def Let_def case_prod_beta sowns_pool_park split: option.split)

lemma sowns_ipc_end [simp]: "sowns (snd (sys_ipc_end ctx k)) = sowns k"
  by (simp add: sys_ipc_end_def proc_ipc_end_def sowns_end_multi split: option.split)

section \<open>The steps of the whole system\<close>

text \<open>System calls, interrupts and clock ticks, on any core and in any order.\<close>

inductive sys_step :: "system \<Rightarrow> system \<Rightarrow> bool" where
  boot: "sys_step k (snd (proc_create TASK_TYPE_PROC None k))"
| fork: "sys_step k (snd (sys_fork ctx k))"
| thread: "sys_step k (snd (sys_thread ctx entry func arg k))"
| exit: "sys_step k (snd (sys_exit ctx res k))"
| signal: "sys_step k (snd (sys_signal ctx pid sig k))"
| signal_end: "sys_step k (snd (proc_signal_end ctx k))"
| detach: "sys_step k (sys_detach k)"
| waitpid: "sys_step k (snd (sys_waitpid ctx pid k))"
| schedule: "sys_step k (snd (schedule ctx k))"
| usleep: "sys_step k (snd (proc_usleep ctx n k))"
| block: "sys_step k (snd (proc_block_by ctx i token k))"
| wakeup: "sys_step k (proc_wakeup_by i token k)"
| ipc_setup: "sys_step k (snd (proc_ipc_setup entry extra flags k))"
| ipc_call: "sys_ipc_call ctx pid call_id arg uid k = Some (ctx', uid', k') \<Longrightarrow> sys_step k k'"
| ipc_get_return: "sys_step k (snd (snd (proc_ipc_get_return ctx pid uid data k)))"
| ipc_set_return: "sys_step k (proc_ipc_set_return stale uid data k)"
| ipc_end: "sys_step k (snd (sys_ipc_end ctx k))"
| sem_enter: "semaphore_enter_raw ctx sem timeout (sy_sems k) k = (ctx', s, k') \<Longrightarrow> sys_step k (k'\<lparr>sy_sems := s\<rparr>)"
| sem_quit: "semaphore_quit sem (sy_sems k) k = (r, s, k') \<Longrightarrow> sys_step k (k'\<lparr>sy_sems := s\<rparr>)"
| interrupt: "interrupt_send ctx irq (sy_intrs k) k = (r, ctx', s, k') \<Longrightarrow> sys_step k (k'\<lparr>sy_intrs := s\<rparr>)"
| soft_interrupt: "sys_soft_int ctx pid entry data (sy_intrs k) k = (r, ctx', s, k') \<Longrightarrow> sys_step k (k'\<lparr>sy_intrs := s\<rparr>)"
| interrupt_end: "interrupt_end ctx (sy_intrs k) k = (ctx', s, k') \<Longrightarrow> sys_step k (k'\<lparr>sy_intrs := s\<rparr>)"
| tic: "sys_step k (snd (renew_kernel_tic usec k))"
| sec: "sys_step k (renew_kernel_sec k)"
| other_core: "sys_step k (k\<lparr>core_id := c\<rparr>)"

lemma sowns_core_id [simp]: "sowns (k\<lparr>core_id := c\<rparr>) = sowns k"
  by (simp add: sowns_def owners_def holds_def fun_eq_iff)

lemma sys_step_leads: "sys_step k k' \<Longrightarrow> leads k k'"
proof (induction rule: sys_step.induct)
  case (boot k)
  show ?case unfolding leads_def using proc_create_own [of k None] by simp
next
  case (sem_enter ctx sem timeout k ctx' s k')
  have "sowns k' = sowns k" using arg_cong [OF sem_enter.hyps, of "\<lambda>x. sowns (snd (snd x))"] by simp
  then show ?case by (auto intro: leads_same)
next
  case (sem_quit sem k r s k')
  have "sowns k' = sowns k" using arg_cong [OF sem_quit.hyps, of "\<lambda>x. sowns (snd (snd x))"] by simp
  then show ?case by (auto intro: leads_same)
next
  case (interrupt ctx irq k r ctx' s k')
  have "sowns k' = sowns k" using arg_cong [OF interrupt.hyps, of "\<lambda>x. sowns (snd (snd (snd x)))"] by simp
  then show ?case by (auto intro: leads_same)
next
  case (soft_interrupt ctx pid entry data k r ctx' s k')
  have "sowns k' = sowns k" using arg_cong [OF soft_interrupt.hyps, of "\<lambda>x. sowns (snd (snd (snd x)))"] by simp
  then show ?case by (auto intro: leads_same)
next
  case (interrupt_end ctx k ctx' s k')
  have "sowns k' = sowns k" using arg_cong [OF interrupt_end.hyps, of "\<lambda>x. sowns (snd (snd x))"] by simp
  then show ?case by (auto intro: leads_same)
qed (auto intro: leads_same leads_sys_fork leads_sys_thread leads_sys_exit leads_sys_signal leads_sys_detach leads_ipc_call
    leads_renew_kernel_sec leads_waitpid simp: sys_waitpid_def)

lemma sys_steps_ok: "sys_step\<^sup>*\<^sup>* k k' \<Longrightarrow> own_ok (sowns k) \<Longrightarrow> own_ok (sowns k')"
  by (induction rule: rtranclp_induct) (auto intro: leads_ok sys_step_leads)

end
