(* ===== verification/Life_Kin.thy ===== *)
theory Life_Kin
  imports Life_Steps
begin

text \<open>
  Who is alive and who belongs to whom: \<open>kin\<close> is a task's pid, type, father and whether it lives. Wakes do
  not raise the dead, so none of the releases a dying task performs changes it.
\<close>

definition kin_of :: "proc \<Rightarrow> int \<times> task_type \<times> int \<times> bool" where
  "kin_of p = (p_pid p, p_type p, p_father_pid p, live_state (p_state p))"

definition kin :: "'a kernel_scheme \<Rightarrow> nat \<Rightarrow> (int \<times> task_type \<times> int \<times> bool) option" where
  "kin k j = map_option kin_of (slot k j)"

lemma kin_upd_proc [simp]: "(\<And>p. kin_of (f p) = kin_of p) \<Longrightarrow> kin (upd_proc i f k) = kin k"
  by (rule ext) (simp add: kin_def slot_upd_proc option.map_comp comp_def)

lemma kin_upd_other [simp]: "j \<noteq> i \<Longrightarrow> kin (upd_proc i f k) j = kin k j"
  by (simp add: kin_def slot_upd_proc)

lemma kin_table: "task_table k' = task_table k \<Longrightarrow> kin k' = kin k" for k :: "'a kernel_scheme" and k' :: "'b kernel_scheme"
  by (rule ext) (simp add: kin_def slot_def)

lemma kin_more [simp]:
  "kin (k\<lparr>priority_update_queue := x1\<rparr>) = kin k" "kin (k\<lparr>ready_queue := x2\<rparr>) = kin k"
  "kin (k\<lparr>cpu_cores := x3\<rparr>) = kin k" "kin (k\<lparr>ipi_sent := x4\<rparr>) = kin k"
  "kin (k\<lparr>alloc_results := x8\<rparr>) = kin k" "kin (k\<lparr>halted := x9\<rparr>) = kin k"
  "kin (k\<lparr>interrupt_timeout_queue := y1\<rparr>) = kin k" "kin (k\<lparr>ipc_timeout_queue := y2\<rparr>) = kin k"
  "kin (upd_space s g k) = kin k"
  by (rule kin_table; simp)+

lemma kin_system [simp]:
  "kin (k\<lparr>sy_sems := a1\<rparr>) = kin k" "kin (k\<lparr>sy_intrs := a2\<rparr>) = kin k" "kin (k\<lparr>sy_kevq := a3\<rparr>) = kin k"
  "kin (k\<lparr>sy_vsyscall := a4\<rparr>) = kin k"
  by (rule kin_table; simp)+

lemma kin_simps [simp]:
  "kin_of (p\<lparr>p_wait_for := a2\<rparr>) = kin_of p" "kin_of (p\<lparr>p_priority_count := a3\<rparr>) = kin_of p"
  "kin_of (p\<lparr>p_ipc_res := a4\<rparr>) = kin_of p" "kin_of (p\<lparr>p_wait_item_queued := a5\<rparr>) = kin_of p"
  "kin_of (p\<lparr>p_ipc_waiting_on := a6\<rparr>) = kin_of p" "kin_of (p\<lparr>p_sleep_counter := a7\<rparr>) = kin_of p"
  "kin_of (p\<lparr>p_block_by := a8\<rparr>) = kin_of p" "kin_of (p\<lparr>p_wake_by := a9\<rparr>) = kin_of p"
  "kin_of (p\<lparr>p_wake_pending := b1\<rparr>) = kin_of p" "kin_of (p\<lparr>p_ipc_task := b2\<rparr>) = kin_of p"
  "kin_of (p\<lparr>p_zombie_since_usec := b3\<rparr>) = kin_of p" "kin_of (p\<lparr>p_uuid := b4\<rparr>) = kin_of p"
  "kin_of (latch_wake t p) = kin_of p"
  by (simp_all add: kin_of_def latch_wake_def)

lemma kin_dead: "kin k i = Some (a, b, c, d) \<Longrightarrow> d \<longleftrightarrow> live_state (p_state (the_proc k i))"
  by (auto simp: kin_def kin_of_def the_proc_def)

section \<open>Wakes\<close>

definition may_run :: "'a kernel_scheme \<Rightarrow> nat \<Rightarrow> bool" where
  "may_run k i \<longleftrightarrow> (\<forall>a b c. kin k i \<noteq> Some (a, b, c, False))"

lemma may_run_state: "live_state (p_state (the_proc k i)) \<Longrightarrow> may_run k i"
  by (auto simp: may_run_def kin_def kin_of_def the_proc_def)

lemma kin_ready: "may_run k i \<Longrightarrow> kin (proc_ready_with_order i h k) = kin k"
  by (auto simp: may_run_def kin_def fun_eq_iff slot_ready_with_order readied_def kin_of_def map_option_case split: option.splits)

lemma kin_proc_ipc_cancel_wait [simp]: "kin (proc_ipc_cancel_wait i k) = kin k"
  by (simp add: proc_ipc_cancel_wait_def Let_def split: option.split)

lemma kin_wake_resched [simp]: "kin (wake_resched i k) = kin k"
  by (simp add: wake_resched_def Let_def)

lemma kin_wakeup_all_state: "may_run k i \<Longrightarrow> kin (proc_wakeup_all_state i k) = kin k"
  by (simp add: proc_wakeup_all_state_def kin_ready Let_def split: option.split)

lemma kin_proc_wakeup_by [simp]: "kin (proc_wakeup_by i t k) = kin k"
  using may_run_state [of k i] by (simp add: proc_wakeup_by_def Let_def kin_wakeup_all_state may_run_def live_state_def)

lemma kin_proc_wakeup [simp]: "kin (proc_wakeup i k) = kin k"
  by (simp add: proc_wakeup_def Let_def case_prod_beta split: option.split)

lemma kin_proc_wakeup_waiting_at [simp]: "kin (proc_wakeup_waiting_at pid i k) = kin k"
  using may_run_state [of k i]
  by (simp add: proc_wakeup_waiting_at_def proc_ready_def kin_ready may_run_def the_proc_def live_state_def split: option.split)

lemma kin_fold: "(\<And>i k. kin (f i k) = kin k) \<Longrightarrow> kin (fold f xs k) = kin k"
  by (induction xs arbitrary: k) simp_all

lemma kin_fold_snd: "(\<And>i x. kin (snd (f i x)) = kin (snd x)) \<Longrightarrow> kin (snd (fold f xs x)) = kin (snd x)"
  by (induction xs arbitrary: x) simp_all

lemma kin_proc_wakeup_waiting [simp]: "kin (proc_wakeup_waiting pid k) = kin k"
  by (simp add: proc_wakeup_waiting_def kin_fold Let_def case_prod_beta split: option.split)

section \<open>Releases\<close>

lemma kin_sem_handoff_locked [simp]: "kin (snd (sem_handoff_locked idx s k)) = kin k"
  by (induction idx s k rule: sem_handoff_locked.induct) (subst sem_handoff_locked.simps, simp add: Let_def split: option.split)

lemma kin_sem_purge_at [simp]: "kin (snd (sem_purge_at idx i x)) = kin (snd x)"
  by (simp add: sem_purge_at_def Let_def case_prod_beta split: option.split)

lemma kin_sem_waiter_purge_locked [simp]: "kin (snd (sem_waiter_purge_locked idx s k)) = kin k"
  by (simp add: sem_waiter_purge_locked_def kin_fold_snd Let_def case_prod_beta split: option.split)

lemma kin_sem_reset_locked [simp]: "kin (snd (sem_reset_locked idx s k)) = kin k"
  by (simp add: sem_reset_locked_def Let_def case_prod_beta split: option.split)

lemma kin_sem_clear_at [simp]: "kin (snd (sem_clear_at pid i x)) = kin (snd x)"
  by (simp add: sem_clear_at_def Let_def case_prod_beta split: option.split)

lemma kin_clear_waiter_at [simp]: "kin (snd (clear_waiter_at pid i x)) = kin (snd x)"
  by (simp add: clear_waiter_at_def Let_def case_prod_beta split: option.split)

lemma kin_clear_holder_at [simp]: "kin (snd (clear_holder_at pid i x)) = kin (snd x)"
  by (simp add: clear_holder_at_def Let_def case_prod_beta split: option.split)

lemma kin_semaphore_clear [simp]: "kin (snd (semaphore_clear pid s k)) = kin k"
  by (simp add: semaphore_clear_def kin_fold_snd Let_def case_prod_beta split: option.split)

lemma kin_semaphore_clear_occupied [simp]: "kin (snd (semaphore_clear_occupied pid s k)) = kin k"
  by (simp add: semaphore_clear_occupied_def kin_fold_snd Let_def case_prod_beta split: option.split)

lemma kin_take_alloc [simp]: "kin (snd (take_alloc k)) = kin k"
  by (simp add: take_alloc_def Let_def case_prod_beta split: list.split option.split)

lemma kin_upd_intr [simp]: "kin (upd_intr i f k) = kin k"
  by (simp add: upd_intr_def Let_def case_prod_beta split: option.split)

lemma kin_upd_server [simp]: "kin (upd_server sv f k) = kin k"
  by (simp add: upd_server_def Let_def case_prod_beta split: option.split)

lemma kin_res_upd [simp]: "kin (res_upd loc f k) = kin k"
  by (cases loc) simp_all

lemma kin_proc_untrack_interrupt_timeout [simp]: "kin (proc_untrack_interrupt_timeout i k) = kin k"
  by (simp add: proc_untrack_interrupt_timeout_def Let_def case_prod_beta split: option.split)

lemma kin_proc_untrack_ipc_timeout [simp]: "kin (proc_untrack_ipc_timeout i k) = kin k"
  by (simp add: proc_untrack_ipc_timeout_def Let_def case_prod_beta split: option.split)

lemma kin_detach_handler [simp]: "kin (detach_handler sv t x k) = kin k"
  by (simp add: detach_handler_def Let_def case_prod_beta split: option.split)

lemma kin_wake_live [simp]: "kin (wake_live c k) = kin k"
  by (simp add: wake_live_def Let_def case_prod_beta split: option.split)

lemma kin_proc_ipc_task_abort [simp]: "kin (proc_ipc_task_abort sv t k) = kin k"
  by (simp add: proc_ipc_task_abort_def Let_def case_prod_beta split: option.split)

lemma kin_clear_at [simp]: "kin (snd (clear_at sv t x)) = kin (snd x)"
  by (simp add: clear_at_def Let_def case_prod_beta split: option.split)

lemma kin_proc_ipc_clear [simp]: "kin (proc_ipc_clear sv k) = kin k"
  by (simp add: proc_ipc_clear_def kin_fold_snd kin_fold Let_def case_prod_beta split: option.split)

lemma kin_ipc_waitq_pop [simp]: "kin (snd (ipc_waitq_pop sv k)) = kin k"
  by (simp add: ipc_waitq_pop_def Let_def case_prod_beta split: list.split option.split)

lemma kin_ipc_wait_item_clear_server [simp]: "kin (ipc_wait_item_clear_server it sv k) = kin k"
  by (simp add: ipc_wait_item_clear_server_def Let_def case_prod_beta split: option.split)

lemma kin_ipc_wake_all_loop [simp]: "kin (ipc_wake_all_loop n sv k) = kin k"
  by (induction n arbitrary: k) (simp_all add: Let_def case_prod_beta split: option.split)

lemma kin_proc_ipc_wakeup_all [simp]: "kin (proc_ipc_wakeup_all sv k) = kin k"
  by (simp add: proc_ipc_wakeup_all_def Let_def case_prod_beta split: option.split)

lemma kin_wake_waiter [simp]: "kin (snd (wake_waiter w k)) = kin k"
  by (simp add: wake_waiter_def Let_def case_prod_beta split: option.split)

lemma kin_proc_interrupt_wakeup_all [simp]: "kin (proc_interrupt_wakeup_all sv k) = kin k"
  by (simp add: proc_interrupt_wakeup_all_def kin_fold Let_def case_prod_beta split: option.split)

lemma kin_with_sems [simp]: "(\<And>s k. kin (snd (f s k)) = kin k) \<Longrightarrow> kin (with_sems f k) = kin k"
  by (simp add: with_sems_def case_prod_beta)

lemma kin_kev_wake [simp]: "kin (kev_wake k) = kin k"
  by (simp add: kev_wake_def Let_def case_prod_beta split: option.split)

lemma kin_crash [simp]: "kin (crash k) = kin k"
  by (simp add: crash_def Let_def case_prod_beta split: option.split)

lemma kin_kev_enqueue [simp]: "kin (kev_enqueue e k) = kin k"
  by (simp add: kev_enqueue_def Let_def case_prod_beta split: option.split)

lemma kin_kev_push [simp]: "kin (kev_push t a b c k) = kin k"
  by (simp add: kev_push_def Let_def case_prod_beta split: option.split)

lemma kin_proc_update_vsyscall [simp]: "kin (proc_update_vsyscall p k) = kin k"
  by (simp add: proc_update_vsyscall_def Let_def case_prod_beta split: option.split)

lemma kin_term_interrupt [simp]: "kin (term_interrupt i k) = kin k"
  by (simp add: term_interrupt_def Let_def case_prod_beta split: option.split)

section \<open>Termination\<close>

lemma kin_unready_dead: "kin (proc_unready_locked i ZOMBIE k) = (kin k)(i := map_option (\<lambda>(a, b, c, d). (a, b, c, False)) (kin k i))"
proof
  fix j
  have t: "task_table (proc_untrack_priority_update i (proc_queue_remove_all i k)) = task_table k"
    by (simp add: proc_untrack_priority_update_def proc_queue_remove_all_def set_ready_queue_def Let_def)
  show "kin (proc_unready_locked i ZOMBIE k) j = ((kin k)(i := map_option (\<lambda>(a, b, c, d). (a, b, c, False)) (kin k i))) j"
    using slot_table_cong [OF t]
    by (auto simp: proc_unready_locked_def Let_def kin_def slot_upd_proc kin_of_def live_state_def option.map_comp comp_def)
qed

lemma kin_term_begin: "kin (term_begin i k) = (kin k)(i := map_option (\<lambda>(a, b, c, d). (a, b, c, False)) (kin k i))"
  by (simp add: term_begin_def Let_def kin_unready_dead)

lemma kin_term_end [simp]: "kin (term_end i k) = kin k"
  by (simp add: term_end_def Let_def)

text \<open>\<open>dead k i\<close>: the slot holds a task that does not live.\<close>

definition dead :: "'a kernel_scheme \<Rightarrow> nat \<Rightarrow> bool" where
  "dead k i \<longleftrightarrow> (\<exists>a b c. kin k i = Some (a, b, c, False))"

lemma dead_slot: "dead k i \<longleftrightarrow> (\<exists>p. slot k i = Some p \<and> \<not> live_state (p_state p))"
  by (auto simp: dead_def kin_def kin_of_def)

lemma kin_term_thread: "j \<noteq> i \<Longrightarrow> kin (term_thread i k) j = kin k j" "dead k i \<Longrightarrow> dead (term_thread i k) i"
proof -
  obtain k1 where e: "term_thread i k = upd_proc i (\<lambda>p. p\<lparr>p_father_pid := 0\<rparr>) k1" and k1: "kin k1 = kin k"
  proof
    show "term_thread i k = upd_proc i (\<lambda>p. p\<lparr>p_father_pid := 0\<rparr>) (let k = (case p_ipc_task (the_proc k i) of None \<Rightarrow> k
      | Some t \<Rightarrow> let k = (case proc_get_proc k (Some i) of None \<Rightarrow> k
           | Some w \<Rightarrow> (case server_of k w of None \<Rightarrow> k | Some s \<Rightarrow> if is_multi_task s then proc_ipc_task_abort w t k else k))
         in upd_proc i (\<lambda>p. p\<lparr>p_ipc_task := None\<rparr>) k) in with_sems (semaphore_clear_occupied (p_pid (the_proc k i))) k)"
      by (simp add: term_thread_def Let_def)
  qed (simp add: Let_def split: option.split)
  show "j \<noteq> i \<Longrightarrow> kin (term_thread i k) j = kin k j" by (simp add: e k1)
  have "dead (upd_proc i (\<lambda>p. p\<lparr>p_father_pid := 0\<rparr>) k1) i" if "dead k1 i"
    using that by (auto simp: dead_slot slot_upd_proc)
  then show "dead k i \<Longrightarrow> dead (term_thread i k) i" by (simp add: e dead_def k1)
qed

lemma terminate_task_kin:
  "j \<noteq> i \<Longrightarrow> kin (terminate_task i k) j = kin k j" "slot k i \<noteq> None \<Longrightarrow> dead (terminate_task i k) i"
proof -
  show "j \<noteq> i \<Longrightarrow> kin (terminate_task i k) j = kin k j" by (simp add: terminate_task_def kin_term_thread kin_term_begin)
  assume s: "slot k i \<noteq> None"
  then have b: "dead (term_begin i k) i" by (auto simp: dead_def kin_term_begin kin_def kin_of_def)
  have "dead (term_end i k) i = dead k i" for k by (simp add: dead_def)
  then show "dead (terminate_task i k) i"
    using b kin_term_thread(2) [OF b] s by (auto simp: terminate_task_def dead_slot the_proc_def live_state_def)
qed

lemma kin_signal_other: "j \<noteq> i \<Longrightarrow> kin (snd (proc_signal_send ctx (Some i) n False k)) j = kin k j"
proof -
  have "kin (proc_ready i k) j = kin k j" if "j \<noteq> i" for k :: "'a kernel_scheme"
    using that by (simp add: kin_def proc_ready_def slot_ready_with_order)
  then show "j \<noteq> i \<Longrightarrow> ?thesis" by (simp add: proc_signal_send_def Let_def split: option.split)
qed

lemma terminate_child_kin:
  "i \<noteq> j \<Longrightarrow> kin (snd (terminate_child_at pid j x)) i = kin (snd x) i"
  "kin (snd x) j = Some (a, ty, f, l) \<Longrightarrow> f \<noteq> pid \<Longrightarrow> kin (snd (terminate_child_at pid j x)) j = kin (snd x) j"
  "kin (snd x) j = Some (a, ty, pid, l) \<Longrightarrow> ty \<noteq> TASK_TYPE_PROC \<Longrightarrow> dead (snd (terminate_child_at pid j x)) j"
    apply (simp add: terminate_child_at_def case_prod_beta kin_signal_other terminate_task_kin(1) split: option.split)
   apply (auto simp: terminate_child_at_def case_prod_beta kin_def kin_of_def split: option.split) [1]
  using terminate_task_kin(2) [of "snd x" j]
  by (auto simp: terminate_child_at_def case_prod_beta kin_def kin_of_def)

text \<open>A pass over distinct slots acts on each slot once.\<close>

lemma fold_children:
  assumes "distinct js"
  shows "j \<notin> set js \<Longrightarrow> kin (snd (fold (terminate_child_at pid) js x)) j = kin (snd x) j"
    "kin (snd x) j = Some (a, ty, f, l) \<Longrightarrow> f \<noteq> pid \<Longrightarrow> kin (snd (fold (terminate_child_at pid) js x)) j = kin (snd x) j"
    "kin (snd x) j = Some (a, ty, pid, l) \<Longrightarrow> ty \<noteq> TASK_TYPE_PROC \<Longrightarrow> j \<in> set js \<Longrightarrow> dead (snd (fold (terminate_child_at pid) js x)) j"
proof -
  show 1: "kin (snd (fold (terminate_child_at pid) js x)) j = kin (snd x) j" if "j \<notin> set js" for js x
    using that by (induction js arbitrary: x) (auto simp: terminate_child_kin(1))
  show "kin (snd (fold (terminate_child_at pid) js x)) j = kin (snd x) j" if "kin (snd x) j = Some (a, ty, f, l)" "f \<noteq> pid"
    using that
  proof (induction js arbitrary: x)
    case (Cons i js)
    have "kin (snd (terminate_child_at pid i x)) j = kin (snd x) j"
      using terminate_child_kin(1) [of j i pid x] terminate_child_kin(2) [OF Cons.prems] by (cases "i = j") auto
    then show ?case using Cons.IH [of "terminate_child_at pid i x"] Cons.prems by simp
  qed simp
  show "dead (snd (fold (terminate_child_at pid) js x)) j"
    if "kin (snd x) j = Some (a, ty, pid, l)" "ty \<noteq> TASK_TYPE_PROC" "j \<in> set js"
    using that assms
  proof (induction js arbitrary: x)
    case (Cons i js)
    show ?case
    proof (cases "i = j")
      case True
      then show ?thesis
        using terminate_child_kin(3) [OF Cons.prems(1,2)] 1 [of js "terminate_child_at pid i x"] Cons.prems(4) by (simp add: dead_def)
    next
      case False
      then show ?thesis using Cons.IH [of "terminate_child_at pid i x"] Cons.prems terminate_child_kin(1) [of j i pid x] by simp
    qed
  qed simp
qed

lemma kin_term_proc:
  "kin (snd (term_proc ctx i k)) =
   kin (snd (fold (terminate_child_at (p_pid (the_proc k i))) [0..<length (task_table k)] (ctx, with_sems (semaphore_clear_occupied (p_pid (the_proc k i)))
     (with_sems (semaphore_clear (p_pid (the_proc k i))) k))))"
proof -
  have "length (task_table (with_sems (semaphore_clear_occupied pid) (with_sems (semaphore_clear pid) k))) = length (task_table k)" for pid
  proof -
    have "sowns (with_sems (semaphore_clear_occupied pid) (with_sems (semaphore_clear pid) k)) = sowns k" by simp
    from sowns_parts [OF this] have "length (owners (with_sems (semaphore_clear_occupied pid) (with_sems (semaphore_clear pid) k))) = length (owners k)"
      by simp
    then show ?thesis by simp
  qed
  then show ?thesis by (simp add: term_proc_def Let_def case_prod_beta)
qed

lemma proc_terminate_kin:
  assumes p: "slot k i = Some p" "p_type p = TASK_TYPE_PROC" "live_state (p_state p)" "p_father_pid p \<noteq> p_pid p"
  shows "dead (snd (proc_terminate ctx i k)) i"
    "slot k j = Some q \<Longrightarrow> p_father_pid q = p_pid p \<Longrightarrow> p_type q \<noteq> TASK_TYPE_PROC \<Longrightarrow> dead (snd (proc_terminate ctx i k)) j"
proof -
  let ?k = "term_begin i k"
  define x where "x = (ctx, with_sems (semaphore_clear_occupied (p_pid p)) (with_sems (semaphore_clear (p_pid p)) ?k))"
  have x: "kin (snd x) = kin ?k" by (simp add: x_def)
  have ki: "kin ?k i = Some (p_pid p, TASK_TYPE_PROC, p_father_pid p, False)"
    using p by (simp add: kin_term_begin kin_def kin_of_def)
  then have pid: "p_pid (the_proc ?k i) = p_pid p" by (auto simp: kin_def kin_of_def the_proc_def)
  have len: "length (task_table ?k) = length (task_table k)"
    using sowns_parts [OF sowns_term_begin [of i k]] length_owners [of ?k] length_owners [of k] by simp
  have r: "kin (snd (proc_terminate ctx i k)) = kin (snd (fold (terminate_child_at (p_pid p)) [0..<length (task_table k)] x))"
    using p by (simp add: proc_terminate_def the_proc_def live_state_def Let_def case_prod_beta kin_term_proc pid [unfolded the_proc_def] len x_def)
  have "kin (snd (fold (terminate_child_at (p_pid p)) [0..<length (task_table k)] x)) i = kin ?k i"
    using fold_children(2) [of "[0..<length (task_table k)]" x i "p_pid p" TASK_TYPE_PROC "p_father_pid p" False "p_pid p"] ki p(4) x by simp
  then show "dead (snd (proc_terminate ctx i k)) i" by (simp add: dead_def r ki)
  assume q: "slot k j = Some q" "p_father_pid q = p_pid p" "p_type q \<noteq> TASK_TYPE_PROC"
  then have "i \<noteq> j" using p by auto
  then have "kin (snd x) j = Some (p_pid q, p_type q, p_pid p, live_state (p_state q))"
    using q by (simp add: x kin_term_begin) (simp add: kin_def kin_of_def)
  moreover have "j < length (task_table k)" using q(1) by (auto simp: slot_def split: if_splits)
  ultimately have "dead (snd (fold (terminate_child_at (p_pid p)) [0..<length (task_table k)] x)) j"
    using fold_children(3) [of "[0..<length (task_table k)]" x j "p_pid q" "p_type q" "p_pid p"] q(3) by simp
  then show "dead (snd (proc_terminate ctx i k)) j" by (simp add: dead_def r)
qed

section \<open>Waiting parents\<close>

definition waits_for :: "'a kernel_scheme \<Rightarrow> int \<Rightarrow> nat \<Rightarrow> bool" where
  "waits_for k pid w \<longleftrightarrow> (\<exists>q. slot k w = Some q \<and> p_state q = WAIT \<and> p_wait_for q = pid)"

lemma wakeup_waiting_at_slot:
  "slot (proc_wakeup_waiting_at pid i k) j = (if j = i \<and> waits_for k pid i
     then map_option (\<lambda>p. readied (p\<lparr>p_wait_for := -1\<rparr>)) (slot k i) else slot k j)"
  by (auto simp: proc_wakeup_waiting_at_def waits_for_def proc_ready_def slot_ready_with_order slot_upd_proc option.map_comp comp_def
      split: option.split)

lemma wakeup_waiting_at_clears: "waits_for (proc_wakeup_waiting_at pid i k) pid j \<longleftrightarrow> j \<noteq> i \<and> waits_for k pid j"
  by (auto simp: waits_for_def wakeup_waiting_at_slot readied_def)

lemma wakeup_waiting_clears: "\<not> waits_for (proc_wakeup_waiting pid k) pid w"
proof -
  have f: "waits_for (fold (proc_wakeup_waiting_at pid) ws k) pid w \<longleftrightarrow> w \<notin> set ws \<and> waits_for k pid w" for ws
    by (induction ws arbitrary: k) (auto simp: wakeup_waiting_at_clears)
  show ?thesis unfolding proc_wakeup_waiting_def f by (auto simp: waits_for_def slot_def)
qed

lemma term_end_done:
  assumes "slot k i \<noteq> None"
  shows "p_uuid (the_proc (term_end i k) i) = 0" "\<not> waits_for (term_end i k) (p_pid (the_proc k i)) w"
proof -
  let ?k = "proc_wakeup_waiting (p_pid (the_proc k i)) k"
  have t: "slot (term_end i k) j = (if j = i then map_option (\<lambda>p. p\<lparr>p_uuid := 0\<rparr>) (slot ?k i) else slot ?k j)" for j
  proof -
    have "slot (proc_update_vsyscall p k) j = slot k j" for p and k :: system by (simp add: proc_update_vsyscall_def slot_def)
    then show ?thesis by (simp add: term_end_def Let_def slot_upd_proc)
  qed
  have "kin ?k i = kin k i" by simp
  then have "slot ?k i \<noteq> None" using assms unfolding kin_def by auto
  then show "p_uuid (the_proc (term_end i k) i) = 0" by (auto simp: the_proc_def t)
  show "\<not> waits_for (term_end i k) (p_pid (the_proc k i)) w"
    using wakeup_waiting_clears [of "p_pid (the_proc k i)" k w] by (auto simp: waits_for_def t split: if_splits)
qed

lemma terminate_end:
  assumes p: "slot k i = Some p" "p_type p = TASK_TYPE_PROC" "live_state (p_state p)" "p_father_pid p \<noteq> p_pid p"
  obtains k1 where "snd (proc_terminate ctx i k) = term_end i k1" "slot k1 i \<noteq> None" "p_pid (the_proc k1 i) = p_pid p"
proof -
  define k1 where "k1 = snd (term_proc ctx i (term_begin i k))"
  have e: "snd (proc_terminate ctx i k) = term_end i k1"
    using p by (simp add: proc_terminate_def the_proc_def live_state_def Let_def case_prod_beta k1_def)
  have o: "owners k1 = owners k" using sowns_parts [of k1 k] by (simp add: k1_def)
  obtain q where "slot k1 i = Some q" "the_proc k1 i = q" "p_pid q = p_pid p"
    using owners_space [of k1 i "p_pid p" "p_type p" "p_space p"] owners_slot [OF p(1)] o by (auto simp: own_of_def)
  then show thesis using e that by simp
qed

end
