(* ===== verification/Life_Props.thy ===== *)
theory Life_Props
  imports Life_Kin
begin

text \<open>
  Properties of the life cycle: the address spaces of the tasks, what a termination leaves behind, and
  where the code loses track of a dead task.
\<close>

section \<open>Address spaces\<close>

lemma sharers_card:
  "sharers (owners k) s = card {i. \<exists>p. slot k i = Some p \<and> p_type p \<noteq> TASK_TYPE_PROC \<and> p_space p = Some s}"
proof -
  have "{i. \<exists>p. slot k i = Some p \<and> p_type p \<noteq> TASK_TYPE_PROC \<and> p_space p = Some s} =
    {i. i < length (owners k) \<and> shares s (owners k ! i)}"
    by (auto simp: owners_nth slot_def shares_def own_of_def split: option.splits if_splits)
  then show ?thesis by (simp add: sharers_def length_filter_conv_card)
qed

text \<open>C4: Whatever system calls, interrupts and clock ticks run in whatever order on whatever core, a task
  in the task table never refers to an address space that has been freed: its space exists, and the
  page-directory slot of the space is marked as in use, so that no new process gets it. Two processes
  never have the same space, and a space counts at least the threads that live in it, so that it cannot be
  freed under them.\<close>

theorem address_spaces_consistent:
  assumes "own_ok (sowns k)" "sys_step\<^sup>*\<^sup>* k k'"
  shows "(\<forall>i p. slot k' i = Some p \<longrightarrow> p_pid p = int i \<and>
      (\<exists>s sp. p_space p = Some s \<and> spaces k' s = Some sp \<and> sp_pde_index sp = s \<and> sy_vm_mark k' ! s)) \<and>
    (\<forall>i j p q. slot k' i = Some p \<and> slot k' j = Some q \<and> p_type p = TASK_TYPE_PROC \<and> p_type q = TASK_TYPE_PROC \<and>
      p_space p = p_space q \<longrightarrow> i = j) \<and>
    (\<forall>s sp. spaces k' s = Some sp \<longrightarrow>
      int (card {i. \<exists>p. slot k' i = Some p \<and> p_type p \<noteq> TASK_TYPE_PROC \<and> p_space p = Some s}) \<le> sp_refs sp)"
proof (intro conjI allI impI)
  have ok: "own_ok (owners k', holds k', sy_vm_mark k')" using sys_steps_ok [OF assms(2,1)] by (simp add: sowns_def)
  have h: "spaces k' s = Some sp \<Longrightarrow> holds k' s = Some (sp_refs sp, sp_pde_index sp)" for s sp
    by (simp add: holds_def hold_of_def)
  fix i p assume p: "slot k' i = Some p"
  obtain s sp where s: "p_pid p = int i" "p_space p = Some s" "spaces k' s = Some sp"
    using own_ok_slot [of k' i p] ok p by (auto simp: sowns_def)
  then show "p_pid p = int i" "\<exists>s sp. p_space p = Some s \<and> spaces k' s = Some sp \<and> sp_pde_index sp = s \<and> sy_vm_mark k' ! s"
    using own_okD(3,5) [OF ok h [OF s(3)]] by auto
next
  have ok: "own_ok (owners k', holds k', sy_vm_mark k')" using sys_steps_ok [OF assms(2,1)] by (simp add: sowns_def)
  fix i j p q
  assume a: "slot k' i = Some p \<and> slot k' j = Some q \<and> p_type p = TASK_TYPE_PROC \<and> p_type q = TASK_TYPE_PROC \<and> p_space p = p_space q"
  obtain s where s: "p_space p = Some s" using own_ok_slot [of k' i p] ok a by (auto simp: sowns_def)
  then have "owned_by s (owners k' ! i)" "owned_by s (owners k' ! j)" "i < length (owners k')" "j < length (owners k')"
    using a owners_slot [of k' i p] owners_slot [of k' j q] by (auto simp: own_of_def)
  then show "i = j" using own_okD(2) [OF ok] by blast
next
  have ok: "own_ok (owners k', holds k', sy_vm_mark k')" using sys_steps_ok [OF assms(2,1)] by (simp add: sowns_def)
  fix s sp assume s: "spaces k' s = Some sp"
  show "int (card {i. \<exists>p. slot k' i = Some p \<and> p_type p \<noteq> TASK_TYPE_PROC \<and> p_space p = Some s}) \<le> sp_refs sp"
    unfolding sharers_card [symmetric] by (rule own_okD(6) [OF ok, of s "sp_refs sp" "sp_pde_index sp"]) (simp add: holds_def hold_of_def s)
qed

text \<open>A process with a thread that runs on the second core.\<close>

definition ex_live :: system where
  "ex_live = kernel.extend ((procs_init 4 2 4 0)\<lparr>
     task_table := [Some (zero_proc\<lparr>p_state := RUNNING, p_uuid := 1, p_space := Some 0\<rparr>),
       Some (zero_proc\<lparr>p_pid := 1, p_type := TASK_TYPE_THREAD, p_state := RUNNING, p_uuid := 2, p_core := 1, p_father_pid := 0,
         p_space := Some 0\<rparr>), None, None],
     spaces := [0 \<mapsto> zero_space\<lparr>sp_refs := 1\<rparr>], current_proc := (\<lambda>c. if c = 0 then 0 else if c = 1 then 1 else -1),
     active_space := (\<lambda>c. if c < 2 then Some 0 else None)\<rparr>)
    (system.fields 2 2 [True, False, False, False] \<lparr>semaphores = [], waiters = [], waiter_seq = 0, sem_base = 0\<rparr>
      \<lparr>interrupts = [], irq_masked = {}\<rparr> \<lparr>cap_sid_seq = 1, cap_policy = []\<rparr> [] (\<lambda>_. (0, 0, TASK_TYPE_PROC)) 0 0 False [])"

lemma ex_live_ok: "own_ok (sowns ex_live)"
proof -
  have "sowns ex_live = ([Some (0, TASK_TYPE_PROC, Some 0), Some (1, TASK_TYPE_THREAD, Some 0), None, None],
    [0 \<mapsto> (1, 0)], [True, False, False, False])"
    by (simp add: sowns_def owners_def holds_def own_of_def hold_of_def ex_live_def kernel.extend_def system.fields_def procs_init_def
        zero_proc_def zero_space_def fun_eq_iff)
  then show ?thesis by (simp add: own_ok_def task_ok_def sharers_def less_Suc_eq all_conj_distrib nth_Cons split: nat.split)
qed

theorem address_spaces_consistent_witness:
  "(let k = snd (sys_fork zero_ctx ex_live) in
    map (map_option own_of) (task_table k) =
      [Some (0, TASK_TYPE_PROC, Some 0), Some (1, TASK_TYPE_THREAD, Some 0), Some (2, TASK_TYPE_PROC, Some 1), None] \<and>
    (\<forall>p. slot k 2 = Some p \<longrightarrow> (\<exists>s sp. p_space p = Some s \<and> spaces k s = Some sp \<and> sy_vm_mark k ! s)))"
proof -
  have e: "map (map_option own_of) (task_table (snd (sys_fork zero_ctx ex_live))) =
      [Some (0, TASK_TYPE_PROC, Some 0), Some (1, TASK_TYPE_THREAD, Some 0), Some (2, TASK_TYPE_PROC, Some 1), None]"
    by code_simp
  have "sys_step\<^sup>*\<^sup>* ex_live (snd (sys_fork zero_ctx ex_live))" by (rule r_into_rtranclp) (rule sys_step.fork)
  from address_spaces_consistent [OF ex_live_ok this] e show ?thesis unfolding Let_def by blast
qed

section \<open>Where a dead task is not dead enough\<close>

text \<open>Process 3 runs on core 0; process 1 is blocked and its thread 2 runs on core 1.\<close>

definition ex_smp :: system where
  "ex_smp = kernel.extend ((procs_init 4 2 4 0)\<lparr>
     task_table := [None, Some (zero_proc\<lparr>p_pid := 1, p_state := BLOCK, p_uuid := 1, p_space := Some 0\<rparr>),
       Some (zero_proc\<lparr>p_pid := 2, p_type := TASK_TYPE_THREAD, p_state := RUNNING, p_uuid := 2, p_core := 1, p_father_pid := 1,
         p_space := Some 0\<rparr>),
       Some (zero_proc\<lparr>p_pid := 3, p_state := RUNNING, p_uuid := 3, p_space := Some 1\<rparr>)],
     spaces := [0 \<mapsto> zero_space\<lparr>sp_refs := 1\<rparr>, 1 \<mapsto> zero_space\<lparr>sp_pde_index := 1\<rparr>],
     current_proc := (\<lambda>c. if c = 0 then 3 else if c = 1 then 2 else -1),
     cpu_cores := (\<lambda>_. zero_core\<lparr>cc_actived := True\<rparr>), active_space := (\<lambda>c. if c = 1 then Some 0 else Some 1)\<rparr>)
    (system.fields 4 4 [True, True, False, False] \<lparr>semaphores = [], waiters = [], waiter_seq = 0, sem_base = 0\<rparr>
      \<lparr>interrupts = [], irq_masked = {}\<rparr> \<lparr>cap_sid_seq = 1, cap_policy = []\<rparr> [] (\<lambda>_. (0, 0, TASK_TYPE_PROC)) 0 0 False [])"



text \<open>C37: The termination of a process sends a stop signal to each child process without a look at the
  child's state. A zombie child with a signal handler is made ready again and goes back on its ready queue,
  although it has been torn down.\<close>

theorem zombie_child_resurrected:
  assumes "slot k j = Some q" "p_father_pid q = pid" "p_type q = TASK_TYPE_PROC" "p_state q = ZOMBIE"
    and "space_at k (p_space q) = Some sp" "sg_entry (sp_signal sp) \<noteq> 0"
  shows "let k' = snd (terminate_child_at pid j (ctx, k)) in
    p_state (the_proc k' j) = READY \<and> j \<in> set (ready_queue k' (p_core q))"
proof -
  have t: "the_proc k j = q" using assms(1) by (simp add: the_proc_def)
  obtain g where g: "snd (proc_signal_send ctx (Some j) (uint SYS_SIG_STOP) False k) = proc_ready j (upd_space (p_space q) g k)"
    using assms(5,6) by (simp add: proc_signal_send_def proc_space_of_def t Let_def)
  show ?thesis
    using assms(1-3) g slot_ready_with_order [of j False "upd_space (p_space q) g k"]
      queued_ready_with_order [of "upd_space (p_space q) g k" j False]
    by (simp add: terminate_child_at_def proc_ready_def the_proc_def readied_def present_slot)
qed

lemma slot_is_some: "\<not> Option.is_none (slot k i) \<Longrightarrow> slot k i = Some (the_proc k i)"
  by (cases "slot k i") (simp_all add: the_proc_def)

theorem zombie_child_resurrected_witness:
  "let k = upd_proc 2 (\<lambda>p. p\<lparr>p_type := TASK_TYPE_PROC, p_state := ZOMBIE, p_space := Some 1\<rparr>)
         (upd_space (Some 1) (\<lambda>sp. sp\<lparr>sp_signal := (sp_signal sp)\<lparr>sg_entry := 4096\<rparr>\<rparr>) ex_smp);
       k' = snd (terminate_child_at 1 2 (zero_ctx, k)) in
    p_state (the_proc k 2) = ZOMBIE \<and> p_state (the_proc k' 2) = READY \<and> 2 \<in> set (ready_queue k' 1)"
proof -
  define k where "k = upd_proc 2 (\<lambda>p. p\<lparr>p_type := TASK_TYPE_PROC, p_state := ZOMBIE, p_space := Some 1\<rparr>)
         (upd_space (Some 1) (\<lambda>sp. sp\<lparr>sp_signal := (sp_signal sp)\<lparr>sg_entry := 4096\<rparr>\<rparr>) ex_smp)"
  have s: "slot k 2 = Some (the_proc k 2)" unfolding k_def by (rule slot_is_some) code_simp
  have f: "p_father_pid (the_proc k 2) = 1" "p_type (the_proc k 2) = TASK_TYPE_PROC" "p_state (the_proc k 2) = ZOMBIE"
    "p_core (the_proc k 2) = 1" unfolding k_def by code_simp+
  have "\<not> Option.is_none (space_at k (p_space (the_proc k 2)))" "sg_entry (sp_signal (the (space_at k (p_space (the_proc k 2))))) \<noteq> 0"
    unfolding k_def by code_simp+
  then obtain sp where sp: "space_at k (p_space (the_proc k 2)) = Some sp" "sg_entry (sp_signal sp) \<noteq> 0"
    by (cases "space_at k (p_space (the_proc k 2))") auto
  from zombie_child_resurrected [OF s f(1-3) sp, of zero_ctx] show ?thesis unfolding k_def [symmetric] Let_def using f(3,4) by simp
qed

text \<open>C38: A fork that finds the task table full of living tasks reads the type of a child that is not there:
  the kernel dereferences a null pointer. Any process that may fork can fill the table.\<close>

theorem fork_full_table_halts:
  assumes "get_current_proc k = Some c" "sy_core_proc_ready k" "\<forall>x \<in> set (task_table k). \<exists>p. x = Some p \<and> p_state p \<noteq> ZOMBIE"
  shows "halted (snd (sys_fork ctx k))"
proof -
  have full: "task_table k ! i \<noteq> None" if "i < length (task_table k)" for i using assms(3) nth_mem [OF that] by fastforce
  have f: "free_task_slot k = None"
    using full free_task_slot_SomeD(1,2) [of k] by (cases "free_task_slot k") blast+
  have "find_index (\<lambda>x. proc_can_reap_locked k x \<and> (force \<or> \<not> in_grace k (the x))) (task_table k) = None" for force
    using assms(3) by (auto simp: find_index_None_iff proc_can_reap_locked_def)
  then have z: "proc_zombie_funeral force k = k" for force by (simp add: proc_zombie_funeral_def proc_take_next_zombie_def)
  have "kfork_raw (Some ctx) TASK_TYPE_PROC c k = (None, k)" by (simp add: kfork_raw_def proc_create_def f z)
  then have "kfork ctx TASK_TYPE_PROC k = (None, crash k)" using assms(1,2) by (simp add: kfork_def core_attach_def)
  then show ?thesis by (simp add: sys_fork_def crash_def)
qed

theorem fork_full_table_halts_witness:
  "let k = ex_live\<lparr>task_table := take 2 (task_table ex_live), sy_core_proc_ready := True\<rparr> in
    \<not> halted k \<and> halted (snd (sys_fork zero_ctx k))"
proof -
  let ?k = "ex_live\<lparr>task_table := take 2 (task_table ex_live), sy_core_proc_ready := True\<rparr>"
  have c: "get_current_proc ?k = Some 0" by code_simp
  have "\<forall>x \<in> set (task_table ?k). \<exists>p. x = Some p \<and> p_state p \<noteq> ZOMBIE"
    by (simp add: ex_live_def kernel.extend_def procs_init_def zero_proc_def)
  moreover have "\<not> halted ?k" by (simp add: ex_live_def kernel.extend_def procs_init_def)
  ultimately show ?thesis unfolding Let_def using fork_full_table_halts [OF c, of zero_ctx] by simp
qed

section \<open>What a termination leaves behind\<close>



end
