(* ===== verification/Mmu.thy ===== *)
theory Mmu
  imports Kalloc
begin

text \<open>
  The three-level page tables of \<^verbatim>\<open>kernel/platform/aarch64/arch/common/src/mmu_arch.c\<close> (4 KB pages) with the
  descriptor layout of \<^verbatim>\<open>mmu_arch.h\<close> and \<^verbatim>\<open>v8/mmu_pte_flags.c\<close>, and the architecture independent helpers over
  them of \<^verbatim>\<open>kernel/kernel/src/mm/mmu.c\<close>, with the reference counts of physical pages.

  Physical memory is \<open>mm_mem\<close>: for the address of a page in the kernel's direct map its 512 words of 64 bits.
  Page tables and data pages live in the same memory and come from the same allocator. A page directory is
  named by its address in the direct map. TLB and cache maintenance has no effect on the state.
\<close>

section \<open>Descriptors\<close>

text \<open>A bit field of a 64-bit descriptor: \<open>n\<close> bits at position \<open>l\<close>.\<close>

definition get_field :: "nat \<Rightarrow> nat \<Rightarrow> u64 \<Rightarrow> u64" where
  "get_field l n w = take_bit n (drop_bit l w)"

definition set_field :: "nat \<Rightarrow> nat \<Rightarrow> u64 \<Rightarrow> u64 \<Rightarrow> u64" where
  "set_field l n v w = (w AND NOT (push_bit l (mask n))) OR push_bit l (take_bit n v)"

abbreviation EntryType :: "u64 \<Rightarrow> u64" where "EntryType \<equiv> get_field 0 2"
abbreviation set_EntryType :: "u64 \<Rightarrow> u64 \<Rightarrow> u64" where "set_EntryType \<equiv> set_field 0 2"
abbreviation MemAttr :: "u64 \<Rightarrow> u64" where "MemAttr \<equiv> get_field 2 4"
abbreviation set_MemAttr :: "u64 \<Rightarrow> u64 \<Rightarrow> u64" where "set_MemAttr \<equiv> set_field 2 4"
abbreviation S2AP :: "u64 \<Rightarrow> u64" where "S2AP \<equiv> get_field 6 2"
abbreviation set_S2AP :: "u64 \<Rightarrow> u64 \<Rightarrow> u64" where "set_S2AP \<equiv> set_field 6 2"
abbreviation SH :: "u64 \<Rightarrow> u64" where "SH \<equiv> get_field 8 2"
abbreviation set_SH :: "u64 \<Rightarrow> u64 \<Rightarrow> u64" where "set_SH \<equiv> set_field 8 2"
abbreviation AF :: "u64 \<Rightarrow> u64" where "AF \<equiv> get_field 10 1"
abbreviation set_AF :: "u64 \<Rightarrow> u64 \<Rightarrow> u64" where "set_AF \<equiv> set_field 10 1"
abbreviation PTE_NG :: "u64 \<Rightarrow> u64" where "PTE_NG \<equiv> get_field 11 1"
abbreviation set_PTE_NG :: "u64 \<Rightarrow> u64 \<Rightarrow> u64" where "set_PTE_NG \<equiv> set_field 11 1"
abbreviation PXN :: "u64 \<Rightarrow> u64" where "PXN \<equiv> get_field 53 1"
abbreviation set_PXN :: "u64 \<Rightarrow> u64 \<Rightarrow> u64" where "set_PXN \<equiv> set_field 53 1"
abbreviation UXN :: "u64 \<Rightarrow> u64" where "UXN \<equiv> get_field 54 1"
abbreviation set_UXN :: "u64 \<Rightarrow> u64 \<Rightarrow> u64" where "set_UXN \<equiv> set_field 54 1"
abbreviation NSTable :: "u64 \<Rightarrow> u64" where "NSTable \<equiv> get_field 63 1"
abbreviation set_NSTable :: "u64 \<Rightarrow> u64 \<Rightarrow> u64" where "set_NSTable \<equiv> set_field 63 1"

definition PAGE_SHIFT :: nat where "PAGE_SHIFT = 12"
definition PAGE_DIR_NUM :: nat where "PAGE_DIR_NUM = 512"

definition PTE_ADDR_VALUE_MASK :: u64 where "PTE_ADDR_VALUE_MASK = push_bit (48 - PAGE_SHIFT) 1 - 1"
definition PTE_ADDR_MASK :: u64 where "PTE_ADDR_MASK = push_bit PAGE_SHIFT PTE_ADDR_VALUE_MASK"

definition pte_get_address :: "u64 \<Rightarrow> u64" where
  "pte_get_address raw = drop_bit PAGE_SHIFT raw AND PTE_ADDR_VALUE_MASK"

definition pte_set_address :: "u64 \<Rightarrow> u64 \<Rightarrow> u64" where
  "pte_set_address raw address =
     (raw AND NOT PTE_ADDR_MASK) OR push_bit PAGE_SHIFT (address AND PTE_ADDR_VALUE_MASK)"

definition TYPE_PAGE :: u64 where "TYPE_PAGE = 3"
definition TYPE_TABLE :: u64 where "TYPE_TABLE = 3"
definition AP_RW_D :: u64 where "AP_RW_D = 0"
definition AP_RW_RW :: u64 where "AP_RW_RW = 1"
definition AP_RW_R :: u64 where "AP_RW_R = 3"
definition PTE_ATTR_WRBACK :: u64 where "PTE_ATTR_WRBACK = 0"
definition PTE_ATTR_DEV :: u64 where "PTE_ATTR_DEV = 1"
definition PTE_ATTR_NOCACHE :: u64 where "PTE_ATTR_NOCACHE = 5"
definition MT_DEVICE_NGNRNE :: u64 where "MT_DEVICE_NGNRNE = 0"
definition MT_NORMAL_NC :: u64 where "MT_NORMAL_NC = 2"
definition MT_NORMAL :: u64 where "MT_NORMAL = 3"

definition set_pte_flags :: "u64 \<Rightarrow> u64 \<Rightarrow> u64" where
  "set_pte_flags pte_attr pte =
     (let pte = set_NSTable 1 pte;
          pte = set_EntryType TYPE_PAGE pte;
          pte = set_AF 1 pte;
          pte = set_SH 3 pte;
          pte = set_PXN 0 pte;
          pte = set_UXN 0 pte
      in if pte_attr = PTE_ATTR_DEV
         then set_MemAttr MT_DEVICE_NGNRNE (set_SH 2 (set_UXN 1 (set_PXN 1 pte)))
         else if pte_attr = PTE_ATTR_NOCACHE then set_MemAttr MT_NORMAL_NC pte
         else set_MemAttr MT_NORMAL pte)"

section \<open>Page tables\<close>

record mm_state =
  mm_ka :: kalloc_state
  mm_mem :: "nat \<Rightarrow> nat \<Rightarrow> u64"
  mm_phy_offset :: u64
  mm_ref_base :: u64
  mm_refs :: "u32 list"

definition V2P :: "mm_state \<Rightarrow> u64 \<Rightarrow> u64" where
  "V2P m v = v - KERNEL_BASE + mm_phy_offset m"

definition P2V :: "mm_state \<Rightarrow> u64 \<Rightarrow> u64" where
  "P2V m p = p - mm_phy_offset m + KERNEL_BASE"

definition PAGE_L1_INDEX :: "u64 \<Rightarrow> nat" where "PAGE_L1_INDEX x = unat (drop_bit 30 x AND of_nat (PAGE_DIR_NUM - 1))"
definition PAGE_L2_INDEX :: "u64 \<Rightarrow> nat" where "PAGE_L2_INDEX x = unat (drop_bit 21 x AND of_nat (PAGE_DIR_NUM - 1))"
definition PAGE_L3_INDEX :: "u64 \<Rightarrow> nat" where "PAGE_L3_INDEX x = unat (drop_bit 12 x AND of_nat (PAGE_DIR_NUM - 1))"

definition put_word :: "nat \<Rightarrow> nat \<Rightarrow> u64 \<Rightarrow> mm_state \<Rightarrow> mm_state" where
  "put_word t i w m = m\<lparr>mm_mem := (mm_mem m)(t := (mm_mem m t)(i := w))\<rparr>"

definition zero_page :: "nat \<Rightarrow> mm_state \<Rightarrow> mm_state" where
  "zero_page p m = m\<lparr>mm_mem := (mm_mem m)(p := (\<lambda>_. 0))\<rparr>"

definition get_page :: "mm_state \<Rightarrow> nat option \<times> mm_state" where
  "get_page m = (let (p, ka) = kalloc_page (mm_ka m) in (p, m\<lparr>mm_ka := ka\<rparr>))"

definition put_page :: "nat \<Rightarrow> mm_state \<Rightarrow> mm_state" where
  "put_page p m = m\<lparr>mm_ka := kfree_page p (mm_ka m)\<rparr>"

text \<open>The kernel address of the table a descriptor refers to.\<close>

definition table_of :: "mm_state \<Rightarrow> u64 \<Rightarrow> nat" where
  "table_of m d = unat (P2V m (push_bit PAGE_SHIFT (pte_get_address d)))"

definition table_desc :: "mm_state \<Rightarrow> nat \<Rightarrow> u64 \<Rightarrow> u64" where
  "table_desc m p d =
     pte_set_address (set_AF 1 (set_EntryType TYPE_TABLE (set_NSTable 1 d))) (drop_bit PAGE_SHIFT (V2P m (of_nat p)))"

text \<open>The next level table below entry \<open>i\<close> of table \<open>t\<close>, created when the entry is not mapped yet.\<close>

definition sub_table :: "nat \<Rightarrow> nat \<Rightarrow> mm_state \<Rightarrow> nat option \<times> mm_state" where
  "sub_table t i m =
     (if EntryType (mm_mem m t i) = 0
      then (case get_page m of
              (None, m) \<Rightarrow> (None, m)
            | (Some p, m) \<Rightarrow>
                let m = zero_page p m in (Some p, put_word t i (table_desc m p (mm_mem m t i)) m))
      else (Some (table_of m (mm_mem m t i)), m))"

definition leaf_desc :: "u64 \<Rightarrow> u64 \<Rightarrow> u64 \<Rightarrow> u64 \<Rightarrow> u64 \<Rightarrow> u64" where
  "leaf_desc virtual_addr physical permissions pte_attr pte =
     (let pte = set_S2AP permissions pte;
          pte = pte_set_address pte (drop_bit PAGE_SHIFT physical);
          pte = set_pte_flags pte_attr pte
      in set_PTE_NG (if virtual_addr < KERNEL_BASE then 1 else 0) pte)"

definition map_page :: "nat \<Rightarrow> u64 \<Rightarrow> u64 \<Rightarrow> u64 \<Rightarrow> u64 \<Rightarrow> mm_state \<Rightarrow> int \<times> mm_state" where
  "map_page vm virtual_addr physical permissions pte_attr m =
     (case sub_table vm (PAGE_L1_INDEX virtual_addr) m of
        (None, m) \<Rightarrow> (-1, m)
      | (Some l2, m) \<Rightarrow> (case sub_table l2 (PAGE_L2_INDEX virtual_addr) m of
            (None, m) \<Rightarrow> (-1, m)
          | (Some l3, m) \<Rightarrow>
              (0, put_word l3 (PAGE_L3_INDEX virtual_addr)
                    (leaf_desc virtual_addr physical permissions pte_attr (mm_mem m l3 (PAGE_L3_INDEX virtual_addr))) m)))"

text \<open>The table and the index of the last level entry of an address, when both upper levels are mapped.\<close>

definition walk :: "nat \<Rightarrow> u64 \<Rightarrow> mm_state \<Rightarrow> (nat \<times> nat) option" where
  "walk vm virtual m =
     (let d1 = mm_mem m vm (PAGE_L1_INDEX virtual) in
      if EntryType d1 = 0 then None
      else let d2 = mm_mem m (table_of m d1) (PAGE_L2_INDEX virtual) in
        if EntryType d2 = 0 then None else Some (table_of m d2, PAGE_L3_INDEX virtual))"

definition unmap_page :: "nat \<Rightarrow> u64 \<Rightarrow> mm_state \<Rightarrow> mm_state" where
  "unmap_page vm virtual_addr m = (case walk vm virtual_addr m of
      None \<Rightarrow> m | Some (t, i) \<Rightarrow> put_word t i (set_EntryType 0 (mm_mem m t i)) m)"

definition get_page_table_entry :: "nat \<Rightarrow> u64 \<Rightarrow> mm_state \<Rightarrow> (nat \<times> nat) option" where
  "get_page_table_entry vm virtual m = (case walk vm virtual m of
      None \<Rightarrow> None | Some (t, i) \<Rightarrow> if EntryType (mm_mem m t i) = 0 then None else Some (t, i))"

definition resolve_phy_address :: "nat \<Rightarrow> u64 \<Rightarrow> mm_state \<Rightarrow> u64" where
  "resolve_phy_address vm virtual m = (case walk vm virtual m of
      None \<Rightarrow> 0
    | Some (t, i) \<Rightarrow> if EntryType (mm_mem m t i) = 0 then 0
        else push_bit PAGE_SHIFT (pte_get_address (mm_mem m t i)) OR (virtual AND (of_nat PAGE_SIZE - 1)))"

definition kernel_l1_base :: nat where
  "kernel_l1_base = PAGE_L1_INDEX KERNEL_BASE"

definition free_l3_tables :: "nat \<Rightarrow> mm_state \<Rightarrow> mm_state" where
  "free_l3_tables l2 m = fold (\<lambda>j m. if EntryType (mm_mem m l2 j) \<noteq> 0 then put_page (table_of m (mm_mem m l2 j)) m else m)
     [0..<PAGE_DIR_NUM] m"

definition free_page_tables :: "nat \<Rightarrow> mm_state \<Rightarrow> mm_state" where
  "free_page_tables vm m = fold (\<lambda>i m. if EntryType (mm_mem m vm i) \<noteq> 0
       then (let l2 = table_of m (mm_mem m vm i) in put_page l2 (free_l3_tables l2 m)) else m)
     [0..<kernel_l1_base] m"

section \<open>Runs of pages\<close>

text \<open>The pages of a range one after the other until one of them cannot be mapped.\<close>

fun map_run :: "nat \<Rightarrow> nat \<Rightarrow> u64 \<Rightarrow> u64 \<Rightarrow> u64 \<Rightarrow> u64 \<Rightarrow> mm_state \<Rightarrow> int \<times> mm_state" where
  "map_run 0 vm va pa perm attr m = (0, m)"
| "map_run (Suc n) vm va pa perm attr m =
     (let (r, m) = map_page vm va pa perm attr m in
      if r \<noteq> 0 then (-1, m) else map_run n vm (va + of_nat PAGE_SIZE) (pa + of_nat PAGE_SIZE) perm attr m)"

text \<open>\<open>physical_current\<close> steps from one page boundary to another, so the number of passes is the
  distance in pages.\<close>

definition map_pages :: "nat \<Rightarrow> u64 \<Rightarrow> u64 \<Rightarrow> u64 \<Rightarrow> u64 \<Rightarrow> u64 \<Rightarrow> mm_state \<Rightarrow> int \<times> mm_state" where
  "map_pages vm vaddr pstart pend permissions pte_attr m =
     (let virtual_start = ALIGN_DOWN vaddr (of_nat PAGE_SIZE);
          physical_start = ALIGN_DOWN pstart (of_nat PAGE_SIZE);
          physical_end = ALIGN_UP pend (of_nat PAGE_SIZE);
          n = (if physical_start < physical_end then unat (physical_end - physical_start) div PAGE_SIZE else 0)
      in map_run n vm virtual_start physical_start permissions pte_attr m)"

definition map_pages_size :: "nat \<Rightarrow> u64 \<Rightarrow> u64 \<Rightarrow> u32 \<Rightarrow> u64 \<Rightarrow> u64 \<Rightarrow> mm_state \<Rightarrow> int \<times> mm_state" where
  "map_pages_size vm vaddr pstart sz permissions pte_attr m =
     map_pages vm vaddr pstart (pstart + ucast sz) permissions pte_attr m"

definition unmap_pages :: "nat \<Rightarrow> u64 \<Rightarrow> nat \<Rightarrow> mm_state \<Rightarrow> mm_state" where
  "unmap_pages vm virtual_addr pages m =
     fold (\<lambda>i. unmap_page vm (virtual_addr + of_nat (PAGE_SIZE * i))) [0..<pages] m"

definition resolve_kernel_address :: "nat \<Rightarrow> u64 \<Rightarrow> mm_state \<Rightarrow> u64" where
  "resolve_kernel_address vm virtual m = P2V m (resolve_phy_address vm virtual m)"

section \<open>Reference counted mappings\<close>

definition ref_index :: "mm_state \<Rightarrow> u64 \<Rightarrow> nat" where
  "ref_index m paddr = unat (page_ref_index (mm_ref_base m) paddr)"

definition map_page_ref :: "nat \<Rightarrow> u64 \<Rightarrow> u64 \<Rightarrow> u64 \<Rightarrow> u64 \<Rightarrow> mm_state \<Rightarrow> int \<times> mm_state" where
  "map_page_ref vm vaddr paddr permissions pte_attr m =
     (let (r, m) = map_page vm vaddr paddr permissions pte_attr m in
      if r \<noteq> 0 then (-1, m)
      else let i = ref_index m paddr in
        (0, if i < length (mm_refs m) then m\<lparr>mm_refs := (mm_refs m)[i := mm_refs m ! i + 1]\<rparr> else m))"

definition unmap_page_ref :: "nat \<Rightarrow> u64 \<Rightarrow> mm_state \<Rightarrow> mm_state" where
  "unmap_page_ref vm virtual_addr m =
     (let paddr = resolve_phy_address vm virtual_addr m;
          i = ref_index m paddr;
          m = (if i < length (mm_refs m)
               then (let m = (if mm_refs m ! i > 0 then m\<lparr>mm_refs := (mm_refs m)[i := mm_refs m ! i - 1]\<rparr> else m) in
                     if mm_refs m ! i = 0 then put_page (unat (P2V m paddr)) m else m)
               else m)
      in unmap_page vm virtual_addr m)"

section \<open>Architecture hooks\<close>

definition arch_mark_pte_noexec :: "nat \<Rightarrow> u64 \<Rightarrow> mm_state \<Rightarrow> mm_state" where
  "arch_mark_pte_noexec vm vaddr m = (case get_page_table_entry vm vaddr m of
      None \<Rightarrow> m | Some (t, i) \<Rightarrow> put_word t i (set_UXN 1 (mm_mem m t i)) m)"

definition arch_mark_stack_pte_noexec :: "nat \<Rightarrow> u64 \<Rightarrow> mm_state \<Rightarrow> mm_state" where
  "arch_mark_stack_pte_noexec vm vaddr m = arch_mark_pte_noexec vm vaddr m"

definition arch_clone_pte_prot :: "nat \<Rightarrow> u64 \<Rightarrow> nat \<Rightarrow> nat \<Rightarrow> mm_state \<Rightarrow> int \<times> mm_state" where
  "arch_clone_pte_prot to_vm vaddr page from_vm m =
     (let src = map_option (\<lambda>(t, i). mm_mem m t i) (get_page_table_entry from_vm vaddr m);
          ap = (case src of None \<Rightarrow> AP_RW_RW | Some d \<Rightarrow> S2AP d);
          noexec = (case src of None \<Rightarrow> True | Some d \<Rightarrow> UXN d \<noteq> 0);
          knoexec = (case src of None \<Rightarrow> False | Some d \<Rightarrow> PXN d \<noteq> 0);
          (r, m) = map_page_ref to_vm vaddr (V2P m (of_nat page)) ap PTE_ATTR_WRBACK m in
      if r \<noteq> 0 then (-1, m)
      else (0, case get_page_table_entry to_vm vaddr m of
                 None \<Rightarrow> m
               | Some (t, i) \<Rightarrow>
                   let m = (if noexec then put_word t i (set_UXN 1 (mm_mem m t i)) m else m)
                   in (if knoexec then put_word t i (set_PXN 1 (mm_mem m t i)) m else m)))"

text \<open>A new page directory shares the upper half of the kernel's; the identity mapped DMA window and the
  private mappings a board adds (the hook \<open>arch_clone_proc_vm\<close>) go to its own half.\<close>

definition arch_set_proc_vm :: "(nat \<Rightarrow> mm_state \<Rightarrow> mm_state) \<Rightarrow> nat \<Rightarrow> u64 \<Rightarrow> u32 \<Rightarrow> nat \<Rightarrow> mm_state \<Rightarrow> mm_state" where
  "arch_set_proc_vm arch_clone_proc_vm kernel_vm dma_base dma_size vm m =
     (let m = zero_page vm m;
          m = fold (\<lambda>i m. put_word vm i (mm_mem m kernel_vm i) m) [kernel_l1_base..<PAGE_DIR_NUM] m;
          m = snd (map_pages_size vm dma_base dma_base dma_size AP_RW_D PTE_ATTR_NOCACHE m)
      in arch_clone_proc_vm vm m)"

end
