(* ===== verification/Vm.thy ===== *)
theory Vm
  imports Mmu
begin

text \<open>
  The private memory of a process: heap, stacks and the anonymous mapping window. Heap and stacks are in
  \<^verbatim>\<open>kernel/kernel/src/proc.c\<close>, copy on write is in \<^verbatim>\<open>kernel/kernel/src/irq.c\<close>, the window in \<^verbatim>\<open>kernel/kernel/src/mm/mmu.c\<close>. All of it
  is mapped by \<open>map_page_ref\<close> and released by \<open>unmap_page_ref\<close>.

  Only the memory fields of \<open>proc_space_t\<close> are kept here. Every caller passes an address space that exists, so
  the guards against a NULL space or page directory have no branch of their own. A C loop over pages or slots
  is a fold over their indices, or a recursion where it can end early. The bitmap of window slots is a list of
  booleans. \<open>proc_clone_space\<close> is the memory part of \<^verbatim>\<open>proc_clone\<close>, which \<open>Lifecycle\<close> calls in the course of fork.
\<close>

section \<open>State\<close>

record vspace =
  vs_vm :: nat
  vs_heap_size :: u64
  vs_heap_used :: u64
  vs_malloc_base :: u64
  vs_rw_heap_base :: u64
  vs_dl_used :: "bool list"

abbreviation PAGE :: u64 where "PAGE \<equiv> of_nat PAGE_SIZE"

definition MB :: u64 where "MB = 0x100000"
definition USER_STACK_BOTTOM :: u64 where "USER_STACK_BOTTOM = USER_STACK_TOP - 64 * MB"
definition SHM_BASE :: u64 where "SHM_BASE = USER_STACK_BOTTOM - 256 * MB"
definition SHM_CONTIG_BASE :: u64 where "SHM_CONTIG_BASE = SHM_BASE - 512 * MB"
definition KMALLOC_VM_BASE :: u64 where "KMALLOC_VM_BASE = SHM_CONTIG_BASE - 64 * MB"
definition DL_WINDOW_SIZE :: u64 where "DL_WINDOW_SIZE = 256 * MB"
definition DL_WINDOW_BASE :: u64 where "DL_WINDOW_BASE = KMALLOC_VM_BASE - DL_WINDOW_SIZE"
definition DL_WINDOW_END :: u64 where "DL_WINDOW_END = KMALLOC_VM_BASE"
definition DL_WINDOW_SLOT :: nat where "DL_WINDOW_SLOT = 64 * 1024"
definition DL_WINDOW_SLOTS :: nat where "DL_WINDOW_SLOTS = 4096"
definition DL_WINDOW_PAGES_PER_SLOT :: nat where "DL_WINDOW_PAGES_PER_SLOT = DL_WINDOW_SLOT div PAGE_SIZE"

definition copy_page :: "nat \<Rightarrow> nat \<Rightarrow> mm_state \<Rightarrow> mm_state" where
  "copy_page dst src m = m\<lparr>mm_mem := (mm_mem m)(dst := mm_mem m src)\<rparr>"

section \<open>The heap\<close>

fun shrink_loop :: "nat \<Rightarrow> vspace \<Rightarrow> mm_state \<Rightarrow> vspace \<times> mm_state" where
  "shrink_loop 0 s m = (s, m)"
| "shrink_loop (Suc n) s m =
     (let m = unmap_page_ref (vs_vm s) (vs_heap_size s - PAGE) m;
          s = s\<lparr>vs_heap_size := vs_heap_size s - PAGE\<rparr>
      in if vs_heap_size s = 0 then (s, m) else shrink_loop n s m)"

definition proc_shrink_mem :: "int \<Rightarrow> vspace \<Rightarrow> mm_state \<Rightarrow> vspace \<times> mm_state" where
  "proc_shrink_mem page_num s m = (if page_num \<le> 0 then (s, m) else shrink_loop (nat page_num) s m)"

text \<open>\<open>n\<close> pages are left and \<open>i\<close> have been added.\<close>

fun expand_loop :: "nat \<Rightarrow> nat \<Rightarrow> vspace \<Rightarrow> mm_state \<Rightarrow> int \<times> vspace \<times> mm_state" where
  "expand_loop 0 i s m = (0, s, m)"
| "expand_loop (Suc n) i s m =
     (case get_page m of
        (None, m) \<Rightarrow> let (s, m) = proc_shrink_mem (int i) s m in (-1, s, m)
      | (Some page, m) \<Rightarrow>
          let m = zero_page page m;
              m = snd (map_page_ref (vs_vm s) (vs_heap_size s) (V2P m (of_nat page)) AP_RW_RW PTE_ATTR_WRBACK m)
          in expand_loop n (Suc i) (s\<lparr>vs_heap_size := vs_heap_size s + PAGE\<rparr>) m)"

definition proc_expand_mem :: "u64 \<Rightarrow> int \<Rightarrow> vspace \<Rightarrow> mm_state \<Rightarrow> int \<times> vspace \<times> mm_state" where
  "proc_expand_mem dma_base page_num s m =
     (if page_num \<le> 0 then (0, s, m)
      else if dma_base > 4 * 1024 * MB \<and> vs_heap_size s + of_int page_num * PAGE > dma_base then (-1, s, m)
      else expand_loop (nat page_num) 0 s m)"

definition proc_malloc :: "u64 \<Rightarrow> u64 \<Rightarrow> vspace \<Rightarrow> mm_state \<Rightarrow> u64 \<times> vspace \<times> mm_state" where
  "proc_malloc dma_base sz s m =
     (let s = s\<lparr>vs_heap_used := vs_heap_used s + sz\<rparr>;
          delta = vs_heap_used s - vs_heap_size s in
      if delta = 0 then (vs_malloc_base s, s, m)
      else
        let shrink = sint delta < 0;
            size_abs = (if shrink then ALIGN_DOWN (- delta) PAGE else ALIGN_UP delta PAGE);
            pages = size_abs div PAGE in
        if pages = 0 then (vs_malloc_base s, s, m)
        else if shrink
        then (let (s, m) = proc_shrink_mem (sint (ucast pages :: u32)) s m in (vs_malloc_base s, s, m))
        else if pages > 0x7fffffff then (0, s\<lparr>vs_heap_used := vs_heap_used s - sz\<rparr>, m)
        else (let (r, s, m) = proc_expand_mem dma_base (sint (ucast pages :: u32)) s m in
              if r \<noteq> 0 then (0, s\<lparr>vs_heap_used := vs_heap_used s - sz\<rparr>, m) else (vs_malloc_base s, s, m)))"

definition proc_msize :: "vspace \<Rightarrow> u64" where
  "proc_msize s = vs_heap_size s - vs_malloc_base s"

definition proc_free :: "vspace \<Rightarrow> mm_state \<Rightarrow> vspace \<times> mm_state" where
  "proc_free s m = proc_shrink_mem (sint (ucast (proc_msize s div PAGE) :: u32)) s m"

definition proc_free_heap :: "vspace \<Rightarrow> mm_state \<Rightarrow> vspace \<times> mm_state" where
  "proc_free_heap s m =
     (let (s, m) = proc_shrink_mem (sint (ucast (vs_heap_size s div PAGE) :: u32)) s m in (s\<lparr>vs_heap_used := 0\<rparr>, m))"

section \<open>Stacks\<close>

text \<open>\<open>n\<close> pages are left, \<open>i\<close> is the page at hand. The result tells whether all pages were mapped, and the
  page at which the loop stopped.\<close>

fun stack_fill :: "nat \<Rightarrow> nat \<Rightarrow> nat \<Rightarrow> u64 \<Rightarrow> nat list \<Rightarrow> mm_state \<Rightarrow> bool \<times> nat \<times> nat list \<times> mm_state" where
  "stack_fill 0 i vm base stacks m = (True, i, stacks, m)"
| "stack_fill (Suc n) i vm base stacks m =
     (case get_page m of
        (None, m) \<Rightarrow> (False, i, stacks, m)
      | (Some page, m) \<Rightarrow>
          let m = zero_page page m;
              (r, m) = map_page_ref vm (base + of_nat (PAGE_SIZE * i)) (V2P m (of_nat page)) AP_RW_RW PTE_ATTR_WRBACK m in
          if r \<noteq> 0 then (False, i, stacks, put_page page m)
          else stack_fill n (Suc i) vm base (stacks[i := page]) (arch_mark_stack_pte_noexec vm (base + of_nat (PAGE_SIZE * i)) m))"

definition map_stack :: "nat \<Rightarrow> u64 \<Rightarrow> nat \<Rightarrow> nat \<Rightarrow> mm_state \<Rightarrow> int \<times> nat list \<times> mm_state" where
  "map_stack vm base pages initial_pages m =
     (let initial_pages = (if initial_pages > pages then pages else initial_pages);
          first = pages - initial_pages;
          (ok, i, stacks, m) = stack_fill initial_pages first vm base (replicate pages 0) m in
      if ok then (0, stacks, m)
      else
        let (stacks, m) = fold (\<lambda>j (stacks, m). if stacks ! j \<noteq> 0
              then (stacks[j := 0], unmap_page_ref vm (base + of_nat (PAGE_SIZE * j)) m) else (stacks, m))
              (rev [first..<i]) (stacks, m)
        in (-1, stacks, m))"

definition unmap_stack :: "nat \<Rightarrow> u64 \<Rightarrow> nat \<Rightarrow> mm_state \<Rightarrow> nat list \<times> mm_state" where
  "unmap_stack vm base pages m =
     (replicate pages 0,
      fold (\<lambda>i m. let vaddr = base + of_nat (PAGE_SIZE * i) in
              if resolve_phy_address vm vaddr m \<noteq> 0 then unmap_page_ref vm vaddr m else m) [0..<pages] m)"

section \<open>Copy on write\<close>

definition copy_on_write :: "nat \<Rightarrow> u64 \<Rightarrow> mm_state \<Rightarrow> int \<times> mm_state" where
  "copy_on_write vm v_addr m =
     (let v_addr = ALIGN_DOWN v_addr PAGE;
          phy_addr = resolve_phy_address vm v_addr m in
      case get_page m of
        (None, m) \<Rightarrow> (-1, m)
      | (Some page, m) \<Rightarrow>
          let m = (if phy_addr \<noteq> 0
                   then unmap_page_ref vm v_addr (copy_page page (unat (P2V m phy_addr)) m)
                   else zero_page page m);
              (r, m) = map_page_ref vm v_addr (V2P m (of_nat page)) AP_RW_RW PTE_ATTR_WRBACK m in
          if r \<noteq> 0 then (-1, put_page page m)
          else (0, if v_addr \<ge> USER_STACK_BOTTOM \<and> v_addr < USER_STACK_TOP
                   then arch_mark_stack_pte_noexec vm v_addr m else m))"

definition is_user_heap_or_stack_fault :: "vspace \<Rightarrow> u64 \<Rightarrow> bool" where
  "is_user_heap_or_stack_fault s addr_fault \<longleftrightarrow>
     addr_fault \<ge> vs_rw_heap_base s \<and> addr_fault < vs_heap_size s \<or>
     addr_fault \<ge> USER_STACK_BOTTOM \<and> addr_fault < USER_STACK_TOP"

text \<open>The repair of a recoverable user data fault.\<close>

definition data_fault :: "vspace \<Rightarrow> u64 \<Rightarrow> mm_state \<Rightarrow> int \<times> mm_state" where
  "data_fault s addr_fault m =
     (if is_user_heap_or_stack_fault s addr_fault then copy_on_write (vs_vm s) addr_fault m else (-1, m))"

section \<open>The anonymous mapping window\<close>

definition EWOK_PROT_READ :: u32 where "EWOK_PROT_READ = 1"
definition EWOK_PROT_WRITE :: u32 where "EWOK_PROT_WRITE = 2"
definition EWOK_PROT_EXEC :: u32 where "EWOK_PROT_EXEC = 4"

definition dl_slot_used :: "vspace \<Rightarrow> nat \<Rightarrow> bool" where
  "dl_slot_used s i = vs_dl_used s ! i"

definition dl_slot_mark :: "nat \<Rightarrow> bool \<Rightarrow> vspace \<Rightarrow> vspace" where
  "dl_slot_mark i used s = s\<lparr>vs_dl_used := (vs_dl_used s)[i := used]\<rparr>"

definition dl_prot_to_ap :: "u32 \<Rightarrow> u64" where
  "dl_prot_to_ap prot =
     (if prot AND EWOK_PROT_WRITE \<noteq> 0 then AP_RW_RW
      else if prot AND EWOK_PROT_READ \<noteq> 0 then AP_RW_R else AP_RW_D)"

definition dl_prot_ok :: "u32 \<Rightarrow> bool" where
  "dl_prot_ok prot =
     (if prot AND NOT (EWOK_PROT_READ OR EWOK_PROT_WRITE OR EWOK_PROT_EXEC) \<noteq> 0 then False
      else if prot AND EWOK_PROT_WRITE \<noteq> 0 \<and> prot AND EWOK_PROT_READ = 0 then False
      else True)"

definition dl_range_ok :: "u64 \<Rightarrow> u32 \<Rightarrow> u64 option" where
  "dl_range_ok vaddr sz =
     (let e = vaddr + ucast sz in
      if sz = 0 then None
      else if vaddr AND (PAGE - 1) \<noteq> 0 then None
      else if e < vaddr then None
      else if vaddr < DL_WINDOW_BASE \<or> e > DL_WINDOW_END then None
      else Some e)"

definition dl_map_page :: "nat \<Rightarrow> u64 \<Rightarrow> nat \<Rightarrow> u32 \<Rightarrow> mm_state \<Rightarrow> int \<times> mm_state" where
  "dl_map_page vm vaddr page prot m =
     (let (r, m) = map_page_ref vm vaddr (V2P m (of_nat page)) (dl_prot_to_ap prot) PTE_ATTR_WRBACK m in
      if r \<noteq> 0 then (-1, m)
      else (0, if prot AND EWOK_PROT_EXEC = 0 then arch_mark_pte_noexec vm vaddr m else m))"

text \<open>The length of the free run at \<open>i\<close>, cut off at \<open>n\<close> slots.\<close>

fun free_run :: "vspace \<Rightarrow> nat \<Rightarrow> nat \<Rightarrow> nat" where
  "free_run s i 0 = 0"
| "free_run s i (Suc n) = (if dl_slot_used s i then 0 else Suc (free_run s (Suc i) n))"

function dl_scan :: "vspace \<Rightarrow> nat \<Rightarrow> nat \<Rightarrow> nat option" where
  "dl_scan s slots i =
     (if i + slots \<le> DL_WINDOW_SLOTS
      then (let k = free_run s i slots in if k = slots then Some i else dl_scan s slots (i + k + 1))
      else None)"
  by pat_completeness auto

termination
  by (relation "measure (\<lambda>(s, slots, i). Suc DL_WINDOW_SLOTS - i)") auto

declare dl_scan.simps [simp del]

text \<open>\<open>n\<close> pages are left and \<open>p\<close> have been mapped; the result is the number of mapped pages and whether it is all of
  them.\<close>

fun dl_commit :: "nat \<Rightarrow> nat \<Rightarrow> nat \<Rightarrow> u64 \<Rightarrow> u32 \<Rightarrow> mm_state \<Rightarrow> nat \<times> bool \<times> mm_state" where
  "dl_commit 0 p vm vaddr prot m = (p, True, m)"
| "dl_commit (Suc n) p vm vaddr prot m =
     (case get_page m of
        (None, m) \<Rightarrow> (p, False, m)
      | (Some page, m) \<Rightarrow>
          let (r, m) = dl_map_page vm (vaddr + of_nat (p * PAGE_SIZE)) page prot (zero_page page m) in
          if r \<noteq> 0 then (p, False, put_page page m) else dl_commit n (Suc p) vm vaddr prot m)"

definition slot_addr :: "nat \<Rightarrow> u64" where
  "slot_addr i = DL_WINDOW_BASE + of_nat (i * DL_WINDOW_SLOT)"

definition dl_window_alloc :: "u32 \<Rightarrow> u32 \<Rightarrow> vspace \<Rightarrow> mm_state \<Rightarrow> u64 \<times> vspace \<times> mm_state" where
  "dl_window_alloc sz prot s m =
     (if \<not> dl_prot_ok prot then (0, s, m)
      else if sz = 0 \<or> ucast sz > DL_WINDOW_SIZE then (0, s, m)
      else
        let slots = (unat sz + DL_WINDOW_SLOT - 1) div DL_WINDOW_SLOT in
        case dl_scan s slots 0 of
          None \<Rightarrow> (0, s, m)
        | Some start \<Rightarrow>
            let pages = slots * DL_WINDOW_PAGES_PER_SLOT;
                vaddr = slot_addr start;
                (p, ok, m) = dl_commit pages 0 (vs_vm s) vaddr prot m in
            if ok then (vaddr, fold (\<lambda>i. dl_slot_mark (start + i) True) [0..<slots] s, m)
            else (0, s, fold (\<lambda>i. unmap_page_ref (vs_vm s) (vaddr + of_nat (i * PAGE_SIZE))) [0..<p] m))"

text \<open>The page addresses from \<open>vaddr\<close> up to \<open>vaddr + sz\<close>.\<close>

definition page_addrs :: "u64 \<Rightarrow> u32 \<Rightarrow> u64 list" where
  "page_addrs vaddr sz = map (\<lambda>i. vaddr + of_nat (i * PAGE_SIZE)) [0..<(unat sz + PAGE_SIZE - 1) div PAGE_SIZE]"

definition protect_page :: "nat \<Rightarrow> u32 \<Rightarrow> u64 \<Rightarrow> mm_state \<Rightarrow> mm_state" where
  "protect_page vm prot v m =
     (let phy = resolve_phy_address vm v m;
          m = snd (map_page vm v phy (dl_prot_to_ap prot) PTE_ATTR_WRBACK m)
      in if prot AND EWOK_PROT_EXEC = 0 then arch_mark_pte_noexec vm v m else m)"

definition dl_window_protect :: "u64 \<Rightarrow> u32 \<Rightarrow> u32 \<Rightarrow> vspace \<Rightarrow> mm_state \<Rightarrow> int \<times> mm_state" where
  "dl_window_protect vaddr sz prot s m =
     (if \<not> dl_prot_ok prot then (-1, m)
      else if dl_range_ok vaddr sz = None then (-1, m)
      else if \<exists>v \<in> set (page_addrs vaddr sz). resolve_phy_address (vs_vm s) v m = 0 then (-1, m)
      else (0, fold (protect_page (vs_vm s) prot) (page_addrs vaddr sz) m))"

definition release_page :: "nat \<Rightarrow> u64 \<Rightarrow> mm_state \<Rightarrow> mm_state" where
  "release_page vm v m = (if resolve_phy_address vm v m \<noteq> 0 then unmap_page_ref vm v m else m)"

definition dl_window_free :: "u64 \<Rightarrow> u32 \<Rightarrow> vspace \<Rightarrow> mm_state \<Rightarrow> int \<times> vspace \<times> mm_state" where
  "dl_window_free vaddr sz s m =
     (case dl_range_ok vaddr sz of
        None \<Rightarrow> (-1, s, m)
      | Some e \<Rightarrow>
          let m = fold (release_page (vs_vm s)) (page_addrs vaddr sz) m;
              first = unat ((vaddr - DL_WINDOW_BASE) div of_nat DL_WINDOW_SLOT);
              s = fold (\<lambda>i s. if slot_addr i \<ge> vaddr \<and> slot_addr i + of_nat DL_WINDOW_SLOT \<le> e
                              then dl_slot_mark i False s else s)
                    (takeWhile (\<lambda>i. slot_addr i < e) [first..<DL_WINDOW_SLOTS]) s
          in (0, s, m))"

definition slot_pages :: "nat \<Rightarrow> u64 list" where
  "slot_pages i = map (\<lambda>p. slot_addr i + of_nat (p * PAGE_SIZE)) [0..<DL_WINDOW_PAGES_PER_SLOT]"

definition dl_window_release :: "vspace \<Rightarrow> mm_state \<Rightarrow> vspace \<times> mm_state" where
  "dl_window_release s m =
     fold (\<lambda>i (s, m). if dl_slot_used s i
        then (dl_slot_mark i False s, fold (release_page (vs_vm s)) (slot_pages i) m) else (s, m))
       [0..<DL_WINDOW_SLOTS] (s, m)"

fun clone_pages :: "nat \<Rightarrow> nat \<Rightarrow> u64 list \<Rightarrow> mm_state \<Rightarrow> bool \<times> mm_state" where
  "clone_pages to from [] m = (True, m)"
| "clone_pages to from (v # vs) m =
     (let phy = resolve_phy_address from v m in
      if phy = 0 then clone_pages to from vs m
      else (case get_page m of
              (None, m) \<Rightarrow> (False, m)
            | (Some page, m) \<Rightarrow>
                let m = copy_page page (unat (P2V m phy)) m;
                    (r, m) = arch_clone_pte_prot to v page from m in
                if r \<noteq> 0 then (False, put_page page m) else clone_pages to from vs m))"

fun clone_slots :: "nat list \<Rightarrow> vspace \<Rightarrow> vspace \<Rightarrow> mm_state \<Rightarrow> int \<times> vspace \<times> mm_state" where
  "clone_slots [] to from m = (0, to, m)"
| "clone_slots (i # is) to from m =
     (if \<not> dl_slot_used from i then clone_slots is to from m
      else let (ok, m) = clone_pages (vs_vm to) (vs_vm from) (slot_pages i) m in
        if \<not> ok then (let (to, m) = dl_window_release to m in (-1, to, m))
        else clone_slots is (dl_slot_mark i True to) from m)"

definition dl_window_clone :: "vspace \<Rightarrow> vspace \<Rightarrow> mm_state \<Rightarrow> int \<times> vspace \<times> mm_state" where
  "dl_window_clone to from m = clone_slots [0..<DL_WINDOW_SLOTS] to from m"

section \<open>Fork\<close>

definition share_page :: "nat \<Rightarrow> nat \<Rightarrow> u64 \<Rightarrow> mm_state \<Rightarrow> mm_state" where
  "share_page child parent v_addr m =
     (let phy = resolve_phy_address parent v_addr m in
      if phy = 0 then m
      else let m = snd (map_page_ref child v_addr phy AP_RW_R PTE_ATTR_WRBACK m)
           in snd (map_page parent v_addr phy AP_RW_R PTE_ATTR_WRBACK m))"

definition proc_page_clone :: "nat \<Rightarrow> nat \<Rightarrow> u64 \<Rightarrow> mm_state \<Rightarrow> mm_state" where
  "proc_page_clone to from addr m =
     (let t = resolve_phy_address to addr m; f = resolve_phy_address from addr m in
      if t = 0 \<or> f = 0 then m else copy_page (unat (P2V m t)) (unat (P2V m f)) m)"

definition proc_clone_space :: "u64 \<Rightarrow> vspace \<Rightarrow> vspace \<Rightarrow> mm_state \<Rightarrow> int \<times> vspace \<times> mm_state" where
  "proc_clone_space user_stack_base child parent m =
     (let pages = (ucast (vs_heap_size parent div PAGE) :: u32);
          pages = unat (if vs_heap_size parent mod PAGE \<noteq> 0 then pages + 1 else pages);
          m = fold (\<lambda>p. share_page (vs_vm child) (vs_vm parent) (of_nat (p * PAGE_SIZE))) [0..<pages] m;
          m = fold (\<lambda>i. proc_page_clone (vs_vm child) (vs_vm parent) (user_stack_base + of_nat (PAGE_SIZE * i))) [0..<STACK_PAGES] m;
          child = child\<lparr>vs_heap_size := of_nat (pages * PAGE_SIZE), vs_heap_used := vs_heap_used parent,
             vs_malloc_base := vs_malloc_base parent, vs_rw_heap_base := vs_rw_heap_base parent\<rparr>
      in dl_window_clone child parent m)"

end
