(* ===== verification/Mmu_Bits.thy ===== *)
theory Mmu_Bits
  imports Mmu
begin

text \<open>
  Bit fields of descriptors: reading a field that was just written, reading another one, and what the
  descriptors the page table code builds contain.
\<close>

named_theorems field_simps \<open>bit fields after an update\<close>

lemma set_get_same [field_simps]:
  "l + n \<le> 64 \<Longrightarrow> get_field l n (set_field l n v w) = take_bit n v"
  unfolding get_field_def set_field_def
  by (rule bit_eqI) (auto simp: bit_simps)

lemma set_get_other [field_simps]:
  "l + n \<le> l' \<or> l' + n' \<le> l \<Longrightarrow> get_field l n (set_field l' n' v w) = get_field l n w"
  unfolding get_field_def set_field_def
  by (rule bit_eqI) (auto simp: bit_simps dest: bit_imp_le_length)

lemma field_zero [simp]: "get_field l n 0 = 0"
  by (simp add: get_field_def)

lemma addr_value_mask: "PTE_ADDR_VALUE_MASK = mask 36"
  by (simp add: PTE_ADDR_VALUE_MASK_def PAGE_SHIFT_def mask_eq_exp_minus_1)

lemma pte_get_address_field: "pte_get_address w = get_field 12 36 w"
  by (simp add: pte_get_address_def addr_value_mask get_field_def PAGE_SHIFT_def take_bit_eq_mask)

lemma pte_set_address_field: "pte_set_address w a = set_field 12 36 a w"
  by (simp add: pte_set_address_def PTE_ADDR_MASK_def addr_value_mask set_field_def PAGE_SHIFT_def take_bit_eq_mask)

lemmas field_defs = pte_get_address_field pte_set_address_field

lemma take_bit_1_word: "take_bit (Suc 0) (1 :: u64) = 1"
  by (simp add: take_bit_Suc)

lemma take_bit_2_three: "take_bit 2 (3 :: u64) = 3"
  by (simp add: take_bit_eq_mask mask_eq_exp_minus_1)

lemmas field_consts = take_bit_1_word take_bit_2_three TYPE_TABLE_def TYPE_PAGE_def

section \<open>The descriptor of a table\<close>

lemma table_desc_type [simp]: "EntryType (table_desc m p d) = 3"
  by (simp add: table_desc_def field_defs field_simps field_consts)

text \<open>A page the allocator may hand out: page aligned, and its physical address fits a descriptor.\<close>

definition page_ok :: "u64 \<Rightarrow> nat \<Rightarrow> bool" where
  "page_ok off p \<longleftrightarrow> p < 2 ^ 64 \<and> of_nat p - KERNEL_BASE + off < (2 ^ 48 :: u64)
     \<and> take_bit 12 (of_nat p - KERNEL_BASE + off :: u64) = 0"

lemma unat_exp: "n < 64 \<Longrightarrow> unat (2 ^ n :: u64) = 2 ^ n"
proof -
  assume "n < 64"
  then have "(2 :: nat) ^ n < 2 ^ 64" by (intro power_strict_increasing) auto
  then have "unat (of_nat (2 ^ n) :: u64) = 2 ^ n" by (simp only: unat_of_nat) simp
  then show ?thesis by simp
qed

lemma take_bit_self: "x < 2 ^ n \<Longrightarrow> n < 64 \<Longrightarrow> take_bit n x = (x :: u64)"
  by (rule word_unat_eq_iff [THEN iffD2])
    (simp add: unsigned_take_bit_eq word_less_nat_alt unat_exp take_bit_nat_eq_self_iff)

lemma take_36_drop_12:
  assumes "x < (2 ^ 48 :: u64)"
  shows "take_bit 36 (drop_bit 12 x) = drop_bit 12 x"
proof -
  have "take_bit 48 x = x"
    using assms by (simp add: take_bit_self)
  then have "drop_bit 12 x = drop_bit 12 (take_bit 48 x)" by simp
  then show ?thesis by (simp only: drop_bit_take_bit) simp
qed

lemma push_drop_12: "take_bit 12 x = (0 :: u64) \<Longrightarrow> push_bit 12 (drop_bit 12 x) = x"
  using bits_ident [of 12 x] by simp

lemma table_of_desc:
  assumes "page_ok (mm_phy_offset m) p" "mm_phy_offset m' = mm_phy_offset m"
  shows "table_of m (table_desc m' p d) = p"
proof -
  let ?x = "of_nat p - KERNEL_BASE + mm_phy_offset m :: u64"
  have "pte_get_address (table_desc m' p d) = drop_bit 12 ?x"
    using assms
    by (simp add: table_desc_def field_defs field_simps V2P_def PAGE_SHIFT_def page_ok_def take_36_drop_12)
  then have "push_bit PAGE_SHIFT (pte_get_address (table_desc m' p d)) = ?x"
    using assms by (simp add: PAGE_SHIFT_def page_ok_def push_drop_12)
  then show ?thesis
    using assms by (simp add: table_of_def P2V_def page_ok_def unat_of_nat)
qed

section \<open>The descriptor of a page\<close>

lemma set_pte_flags_type [simp]: "EntryType (set_pte_flags a d) = 3"
  by (simp add: set_pte_flags_def Let_def field_simps field_consts)

lemma set_pte_flags_address [simp]: "get_field 12 36 (set_pte_flags a d) = get_field 12 36 d"
  by (simp add: set_pte_flags_def Let_def field_simps)

lemma set_pte_flags_ap [simp]: "S2AP (set_pte_flags a d) = S2AP d"
  by (simp add: set_pte_flags_def Let_def field_simps)

lemma set_pte_flags_noexec [unfolded One_nat_def, simp]: "a \<noteq> PTE_ATTR_DEV \<Longrightarrow> UXN (set_pte_flags a d) = 0"
  by (simp add: set_pte_flags_def Let_def field_simps field_consts)

lemma leaf_desc_type [simp]: "EntryType (leaf_desc va pa perm a d) = 3"
  by (simp add: leaf_desc_def Let_def field_simps)

lemma leaf_desc_ap [simp]: "S2AP (leaf_desc va pa perm a d) = take_bit 2 perm"
  by (simp add: leaf_desc_def Let_def field_defs field_simps)

lemma leaf_desc_uxn [unfolded One_nat_def, simp]: "a \<noteq> PTE_ATTR_DEV \<Longrightarrow> UXN (leaf_desc va pa perm a d) = 0"
  by (simp add: leaf_desc_def Let_def field_simps)

text \<open>A physical page address that fits a descriptor.\<close>

definition phys_ok :: "u64 \<Rightarrow> bool" where
  "phys_ok pa \<longleftrightarrow> pa < 2 ^ 48 \<and> take_bit 12 pa = 0"

lemma phys_ok_page: "page_ok (mm_phy_offset m) p \<Longrightarrow> phys_ok (V2P m (of_nat p))"
  by (simp add: page_ok_def phys_ok_def V2P_def)

lemma leaf_desc_address:
  "phys_ok pa \<Longrightarrow> push_bit PAGE_SHIFT (pte_get_address (leaf_desc va pa perm a d)) = pa"
  by (simp add: leaf_desc_def Let_def field_defs field_simps phys_ok_def PAGE_SHIFT_def take_36_drop_12 push_drop_12)

section \<open>Indices\<close>

lemma index_mask [unfolded One_nat_def]: "x AND of_nat (PAGE_DIR_NUM - 1) = (take_bit 9 x :: u64)"
  by (simp add: PAGE_DIR_NUM_def take_bit_eq_mask mask_eq_exp_minus_1)

lemmas index_defs = PAGE_L1_INDEX_def PAGE_L2_INDEX_def PAGE_L3_INDEX_def index_mask

lemma index_less:
  "PAGE_L1_INDEX x < PAGE_DIR_NUM" "PAGE_L2_INDEX x < PAGE_DIR_NUM" "PAGE_L3_INDEX x < PAGE_DIR_NUM"
  by (simp_all add: index_defs unsigned_take_bit_eq) (simp_all add: PAGE_DIR_NUM_def take_bit_eq_mod)

lemma kernel_l1_base_value: "kernel_l1_base = 256"
  by (simp add: kernel_l1_base_def index_defs KERNEL_BASE_def)

text \<open>The page number of an address.\<close>

definition vpn :: "u64 \<Rightarrow> u64" where
  "vpn va = drop_bit 12 va"

lemma user_L1: "va < KERNEL_BASE \<Longrightarrow> PAGE_L1_INDEX va < kernel_l1_base"
proof -
  assume "va < KERNEL_BASE"
  then have "drop_bit 30 va < 256"
    by (simp add: KERNEL_BASE_def drop_bit_eq_div word_less_nat_alt unat_div)
  then have "unat (drop_bit 30 va) < 256"
    by (simp add: word_less_nat_alt)
  moreover have "unat (take_bit 9 (drop_bit 30 va)) \<le> unat (drop_bit 30 va)"
    by (simp add: unsigned_take_bit_eq)
  ultimately show "PAGE_L1_INDEX va < kernel_l1_base"
    by (simp add: index_defs kernel_l1_base_value)
qed

lemma same_index:
  assumes "va < KERNEL_BASE" "va' < KERNEL_BASE"
  shows "PAGE_L1_INDEX va = PAGE_L1_INDEX va' \<and> PAGE_L2_INDEX va = PAGE_L2_INDEX va'
      \<and> PAGE_L3_INDEX va = PAGE_L3_INDEX va' \<longleftrightarrow> vpn va = vpn va'" (is "?L \<longleftrightarrow> ?R")
proof
  assume r: ?R
  have "drop_bit 30 x = drop_bit 18 (drop_bit 12 x)" "drop_bit 21 x = drop_bit 9 (drop_bit 12 x)" for x :: u64
    by (simp_all add: drop_bit_drop_bit)
  then have "drop_bit 30 va = drop_bit 30 va'" "drop_bit 21 va = drop_bit 21 va'"
    using r by (metis vpn_def)+
  with r show ?L by (simp add: index_defs vpn_def)
next
  assume l: ?L
  have small: "\<not> bit x n" if "x < KERNEL_BASE" "n \<ge> 38" for x :: u64 and n
  proof -
    have "x < 2 ^ 38" using that by (simp add: KERNEL_BASE_def)
    then have "take_bit 38 x = x" by (simp add: take_bit_self)
    then show ?thesis using that by (metis bit_take_bit_iff not_less)
  qed
  have e: "take_bit 9 (drop_bit k va) = take_bit 9 (drop_bit k va')" if "k \<in> {12, 21, 30}" for k
    using l that by (auto simp: index_defs word_unat_eq_iff)
  have b: "bit va (k + n) = bit va' (k + n)" if "k \<in> {12, 21, 30}" "n < 9" for k n
    using arg_cong [OF e [OF that(1)], of "\<lambda>w. bit w n"] that by (simp add: bit_simps)
  show ?R
    unfolding vpn_def
  proof (rule bit_eqI)
    fix n :: nat
    consider "n < 9" | "9 \<le> n" "n < 18" | "18 \<le> n" "n < 27" | "27 \<le> n" by linarith
    then show "bit (drop_bit 12 va) n = bit (drop_bit 12 va') n"
    proof cases
      case 1 then show ?thesis using b [of 12 n] by (simp add: bit_simps)
    next
      case 2 then show ?thesis using b [of 21 "n - 9"] by (simp add: bit_simps add.commute)
    next
      case 3 then show ?thesis using b [of 30 "n - 18"] by (simp add: bit_simps add.commute)
    next
      case 4 then show ?thesis using small [of va "12 + n"] small [of va' "12 + n"] assms by (simp add: bit_simps)
    qed
  qed
qed

end
