(* ===== verification/Mmu_Tree.thy ===== *)
theory Mmu_Tree
  imports Mmu_Bits
begin

text \<open>
  The tree of page tables. A table is named by its page directory and the indices that lead to it; the
  invariant says that different names are different pages, none of them free. Creating a table adds one
  name and changes no other, and writing a page descriptor changes no name.
\<close>

section \<open>The tables of a set of page directories\<close>

type_synonym node = "nat \<times> nat list"

definition child :: "mm_state \<Rightarrow> nat \<Rightarrow> nat \<Rightarrow> nat option" where
  "child m t i = (if EntryType (mm_mem m t i) = 0 then None else Some (table_of m (mm_mem m t i)))"

definition l2_at :: "nat set \<Rightarrow> mm_state \<Rightarrow> nat \<Rightarrow> nat \<Rightarrow> nat option" where
  "l2_at R m r i = (if r \<in> R \<and> i < kernel_l1_base then child m r i else None)"

fun tab_at :: "nat set \<Rightarrow> mm_state \<Rightarrow> node \<rightharpoonup> nat" where
  "tab_at R m (r, []) = (if r \<in> R then Some r else None)"
| "tab_at R m (r, [i]) = l2_at R m r i"
| "tab_at R m (r, [i, j]) = (if j < PAGE_DIR_NUM then Option.bind (l2_at R m r i) (\<lambda>t. child m t j) else None)"
| "tab_at R m (r, i # j # k # p) = None"

abbreviation free_pages :: "mm_state \<Rightarrow> nat set" where
  "free_pages m \<equiv> set (free_list_page (mm_ka m))"

definition mmu_ok :: "nat set \<Rightarrow> mm_state \<Rightarrow> bool" where
  "mmu_ok R m \<longleftrightarrow>
     (\<forall>p q a. tab_at R m p = Some a \<longrightarrow> tab_at R m q = Some a \<longrightarrow> p = q)
   \<and> (\<forall>p a. tab_at R m p = Some a \<longrightarrow> a \<notin> free_pages m)
   \<and> (\<forall>p a. tab_at R m p = Some a \<longrightarrow> snd p \<noteq> [] \<longrightarrow> page_ok (mm_phy_offset m) a)
   \<and> (\<forall>a \<in> free_pages m. page_ok (mm_phy_offset m) a)
   \<and> distinct (free_list_page (mm_ka m))"

lemma mmu_okD:
  assumes "mmu_ok R m"
  shows "tab_at R m p = Some a \<Longrightarrow> tab_at R m q = Some a \<Longrightarrow> p = q"
    and "tab_at R m p = Some a \<Longrightarrow> a \<notin> free_pages m"
    and "tab_at R m p = Some a \<Longrightarrow> snd p \<noteq> [] \<Longrightarrow> page_ok (mm_phy_offset m) a"
    and "a \<in> free_pages m \<Longrightarrow> page_ok (mm_phy_offset m) a"
    and "distinct (free_list_page (mm_ka m))"
  using assms unfolding mmu_ok_def by blast+

text \<open>Everything the tree depends on is the content of the page directories and of the second level tables.\<close>

lemma child_cong: "mm_mem m' t i = mm_mem m t i \<Longrightarrow> mm_phy_offset m' = mm_phy_offset m \<Longrightarrow> child m' t i = child m t i"
  by (simp add: child_def table_of_def P2V_def)

lemma tab_at_cong:
  assumes off: "mm_phy_offset m' = mm_phy_offset m"
    and mem: "\<And>q a. tab_at R m q = Some a \<Longrightarrow> length (snd q) < 2 \<Longrightarrow> mm_mem m' a = mm_mem m a"
  shows "tab_at R m' = tab_at R m"
proof
  have l2: "l2_at R m' r i = l2_at R m r i" for r i
    using child_cong [of m' r i m] mem [of "(r, [])" r] off by (simp add: l2_at_def)
  fix q
  show "tab_at R m' q = tab_at R m q"
  proof (cases "(R, m, q)" rule: tab_at.cases)
    case (3 R' m'' r i j)
    show ?thesis
    proof (cases "l2_at R m r i")
      case (Some t)
      then have "mm_mem m' t = mm_mem m t" using mem [of "(r, [i])" t] by simp
      then show ?thesis using 3 Some l2 child_cong [of m' t j m] off by simp
    qed (use 3 l2 in simp)
  qed (use l2 in auto)
qed

section \<open>Creating a table\<close>

lemma get_page_cases:
  obtains "free_list_page (mm_ka m) = []" "get_page m = (None, m)"
  | p ps ka where "free_list_page (mm_ka m) = p # ps" "free_list_page ka = ps" "get_page m = (Some p, m\<lparr>mm_ka := ka\<rparr>)"
proof (cases "free_list_page (mm_ka m)")
  case Nil
  then show ?thesis using that(1) by (simp add: get_page_def kalloc_page_def)
next
  case (Cons p ps)
  then show ?thesis
    using that(2) [of p ps "snd (kalloc_page (mm_ka m))"] by (simp add: get_page_def kalloc_page_def)
qed

text \<open>The state after a table \<open>n\<close> has been linked into entry \<open>i\<close> of the table \<open>t\<close>.\<close>

definition linked :: "nat \<Rightarrow> nat \<Rightarrow> nat \<Rightarrow> kalloc_state \<Rightarrow> mm_state \<Rightarrow> mm_state" where
  "linked t i n ka m = (let m = zero_page n (m\<lparr>mm_ka := ka\<rparr>) in put_word t i (table_desc m n (mm_mem m t i)) m)"

lemma sub_table_cases:
  obtains c where "child m t i = Some c" "sub_table t i m = (Some c, m)"
  | "child m t i = None" "free_list_page (mm_ka m) = []" "sub_table t i m = (None, m)"
  | n ps ka where "child m t i = None" "free_list_page (mm_ka m) = n # ps" "free_list_page ka = ps"
      "sub_table t i m = (Some n, linked t i n ka m)"
proof (cases "EntryType (mm_mem m t i) = 0")
  case True
  then show ?thesis
    by (rule_tac m = m in get_page_cases)
      (auto simp: sub_table_def child_def linked_def Let_def intro: that)
next
  case False
  then show ?thesis using that(1) by (simp add: sub_table_def child_def)
qed

lemma linked_frame [simp]:
  "mm_ka (linked t i n ka m) = ka" "mm_phy_offset (linked t i n ka m) = mm_phy_offset m"
  "mm_refs (linked t i n ka m) = mm_refs m" "mm_ref_base (linked t i n ka m) = mm_ref_base m"
  by (simp_all add: linked_def Let_def zero_page_def put_word_def)

lemma linked_mem:
  "t \<noteq> n \<Longrightarrow> mm_mem (linked t i n ka m) a =
     (if a = n then (\<lambda>_. 0) else if a = t then (mm_mem m t)(i := table_desc m n (mm_mem m t i)) else mm_mem m a)"
  by (simp add: linked_def Let_def zero_page_def put_word_def table_desc_def V2P_def)

lemma linked_child:
  assumes "t \<noteq> n" "page_ok (mm_phy_offset m) n"
  shows "child (linked t i n ka m) a j = (if a = n then None else if a = t \<and> j = i then Some n else child m a j)"
proof (cases "a = t \<and> j = i \<and> a \<noteq> n")
  case True
  then have "mm_mem (linked t i n ka m) a j = table_desc m n (mm_mem m t i)"
    using assms by (simp add: linked_mem)
  moreover have "table_of (linked t i n ka m) (table_desc m n (mm_mem m t i)) = n"
    using assms by (intro table_of_desc) simp_all
  ultimately show ?thesis
    using True by (simp add: child_def)
next
  case False
  then show ?thesis
    using assms by (auto simp: child_def linked_mem table_of_def P2V_def)
qed

lemma linked_tab_at:
  assumes ok: "mmu_ok R m" and t: "tab_at R m (r, p) = Some t"
    and idx: "p = [] \<and> i < kernel_l1_base \<or> length p = 1 \<and> i < PAGE_DIR_NUM"
    and c: "child m t i = None" and n: "n \<in> free_pages m"
  shows "tab_at R (linked t i n ka m) = (tab_at R m)((r, p @ [i]) \<mapsto> n)"
proof -
  have nt: "tab_at R m q \<noteq> Some n" for q using mmu_okD(2) [OF ok] n by blast
  then have tn: "t \<noteq> n" using t by metis
  have pn: "page_ok (mm_phy_offset m) n" using mmu_okD(4) [OF ok n] .
  note ch = linked_child [OF tn pn, where i = i and ka = ka]
  let ?m = "linked t i n ka m"
  have inj: "tab_at R m q = Some t \<Longrightarrow> q = (r, p)" for q using mmu_okD(1) [OF ok] t by blast
  have l2: "l2_at R ?m r' j = (if (r', [j]) = (r, p @ [i]) then Some n else l2_at R m r' j)" for r' j
  proof (cases "r' \<in> R \<and> j < kernel_l1_base")
    case True
    have "r' \<noteq> n" using nt [of "(r', [])"] True by auto
    moreover have "r' = t \<longleftrightarrow> r' = r \<and> p = []"
      using inj [of "(r', [])"] t True by auto
    ultimately show ?thesis using True by (auto simp: l2_at_def ch)
  next
    case False
    then show ?thesis using idx t by (auto simp: l2_at_def split: if_splits)
  qed
  show ?thesis
  proof
    fix q
    show "tab_at R ?m q = ((tab_at R m)((r, p @ [i]) \<mapsto> n)) q"
    proof (cases "(R, m, q)" rule: tab_at.cases)
      case (3 R' m'' r' j k)
      then have q: "q = (r', [j, k])" by simp
      show ?thesis
      proof (cases "(r', [j]) = (r, p @ [i])")
        case True
        then have "l2_at R m r' j = None" using t c by (auto simp: l2_at_def split: if_splits)
        then show ?thesis using q True l2 [of r' j] ch [of n k] by auto
      next
        case False
        show ?thesis
        proof (cases "l2_at R m r' j")
          case (Some a)
          have "a \<noteq> n" using nt [of "(r', [j])"] Some by auto
          moreover have "a = t \<longleftrightarrow> (r', [j]) = (r, p)"
            using inj [of "(r', [j])"] t Some by auto
          ultimately show ?thesis using q False l2 [of r' j] Some idx ch [of a k] by auto
        qed (use q False l2 [of r' j] idx t in auto)
      qed
    qed (use l2 idx in \<open>auto simp: length_Suc_conv\<close>)
  qed
qed

lemma linked_ok:
  assumes ok: "mmu_ok R m" and t: "tab_at R m (r, p) = Some t"
    and idx: "p = [] \<and> i < kernel_l1_base \<or> length p = 1 \<and> i < PAGE_DIR_NUM"
    and c: "child m t i = None" and n: "free_list_page (mm_ka m) = n # ps" "free_list_page ka = ps"
  shows "mmu_ok R (linked t i n ka m)"
proof -
  have nf: "n \<in> free_pages m" using n by simp
  have nt: "tab_at R m q \<noteq> Some n" for q using mmu_okD(2) [OF ok] nf by blast
  have "n \<notin> set ps" "distinct ps" using mmu_okD(5) [OF ok] n by auto
  then show ?thesis
    using ok nt n mmu_okD(4) [OF ok nf]
    unfolding mmu_ok_def linked_tab_at [OF ok t idx c nf]
    by (auto split: if_splits)
qed

section \<open>Writing a page descriptor\<close>

lemma put_word_frame [simp]:
  "mm_ka (put_word t i w m) = mm_ka m" "mm_phy_offset (put_word t i w m) = mm_phy_offset m"
  "mm_refs (put_word t i w m) = mm_refs m" "mm_ref_base (put_word t i w m) = mm_ref_base m"
  by (simp_all add: put_word_def)

lemma put_word_mem: "mm_mem (put_word t i w m) a j = (if a = t \<and> j = i then w else mm_mem m a j)"
  by (simp add: put_word_def)

lemma put_leaf_tab_at:
  assumes "mmu_ok R m" "tab_at R m (r, [i, j]) = Some t"
  shows "tab_at R (put_word t k w m) = tab_at R m"
proof (rule tab_at_cong)
  fix q a
  assume "tab_at R m q = Some a" "length (snd q) < 2"
  then have "a \<noteq> t" using mmu_okD(1) [OF assms(1) assms(2), of q] by auto
  then show "mm_mem (put_word t k w m) a = mm_mem m a" by (simp add: put_word_def)
qed simp

lemma put_leaf_ok:
  assumes "mmu_ok R m" "tab_at R m (r, [i, j]) = Some t"
  shows "mmu_ok R (put_word t k w m)"
  using assms(1) unfolding mmu_ok_def put_leaf_tab_at [OF assms] by simp

declare tab_at.simps [simp del]

end
