(* ===== verification/Mmu_Props.thy ===== *)
theory Mmu_Props
  imports Mmu_Tree
begin

text \<open>
  The page tables implement address spaces: seen from outside, a page directory is a map from virtual pages
  to descriptors, \<open>map_page\<close> updates one entry of it and \<open>unmap_page\<close> removes one, and no other address space
  notices.
\<close>

section \<open>Address spaces\<close>

definition pte :: "mm_state \<Rightarrow> nat \<Rightarrow> u64 \<Rightarrow> u64 option" where
  "pte m vm va = map_option (\<lambda>(t, i). mm_mem m t i) (get_page_table_entry vm va m)"

definition space_vm :: "mm_state \<Rightarrow> nat \<Rightarrow> u64 \<rightharpoonup> u64" where
  "space_vm m vm v = (if v < vpn KERNEL_BASE then pte m vm (push_bit 12 v) else None)"

text \<open>The last level table of an address.\<close>

abbreviation leaf_node :: "nat \<Rightarrow> u64 \<Rightarrow> node" where
  "leaf_node vm va \<equiv> (vm, [PAGE_L1_INDEX va, PAGE_L2_INDEX va])"

lemma walk_tab_at:
  assumes "vm \<in> R" "va < KERNEL_BASE"
  shows "walk vm va m = map_option (\<lambda>t. (t, PAGE_L3_INDEX va)) (tab_at R m (leaf_node vm va))"
  using assms user_L1 [OF assms(2)] index_less(2) [of va]
  by (simp add: walk_def tab_at.simps l2_at_def child_def Let_def)

lemma pte_tab_at:
  assumes "vm \<in> R" "va < KERNEL_BASE"
  shows "pte m vm va = Option.bind (tab_at R m (leaf_node vm va))
     (\<lambda>t. let d = mm_mem m t (PAGE_L3_INDEX va) in if EntryType d = 0 then None else Some d)"
  by (simp add: pte_def get_page_table_entry_def walk_tab_at [OF assms] Let_def split: option.split)

lemma resolve_pte:
  "resolve_phy_address vm va m = (case pte m vm va of None \<Rightarrow> 0
     | Some d \<Rightarrow> push_bit PAGE_SHIFT (pte_get_address d) OR (va AND (of_nat PAGE_SIZE - 1)))"
  by (auto simp: resolve_phy_address_def pte_def get_page_table_entry_def split: option.split)

lemma pte_cong:
  assumes "vm \<in> R" "va < KERNEL_BASE" "tab_at R m' (leaf_node vm va) = tab_at R m (leaf_node vm va)"
    and "\<And>t. tab_at R m (leaf_node vm va) = Some t \<Longrightarrow> mm_mem m' t (PAGE_L3_INDEX va) = mm_mem m t (PAGE_L3_INDEX va)"
  shows "pte m' vm va = pte m vm va"
  unfolding pte_tab_at [OF assms(1,2)] assms(3) using assms(4) by (cases "tab_at R m (leaf_node vm va)") auto

section \<open>Writing one descriptor\<close>

lemma put_leaf_pte:
  assumes ok: "mmu_ok R m" and vm: "vm \<in> R" "va < KERNEL_BASE" and t: "tab_at R m (leaf_node vm va) = Some t"
    and o: "vm' \<in> R" "va' < KERNEL_BASE"
  shows "pte (put_word t (PAGE_L3_INDEX va) w m) vm' va' =
     (if vm' = vm \<and> vpn va' = vpn va then (if EntryType w = 0 then None else Some w) else pte m vm' va')"
proof (cases "vm' = vm \<and> vpn va' = vpn va")
  case True
  then have "PAGE_L1_INDEX va' = PAGE_L1_INDEX va \<and> PAGE_L2_INDEX va' = PAGE_L2_INDEX va \<and> PAGE_L3_INDEX va' = PAGE_L3_INDEX va"
    using same_index [OF o(2) vm(2)] by simp
  then show ?thesis
    using True t unfolding pte_tab_at [OF o] put_leaf_tab_at [OF ok t] by (simp add: put_word_mem)
next
  case False
  have "pte (put_word t (PAGE_L3_INDEX va) w m) vm' va' = pte m vm' va'"
  proof (rule pte_cong [OF o])
    fix t'
    assume t': "tab_at R m (leaf_node vm' va') = Some t'"
    have "t' = t \<Longrightarrow> leaf_node vm' va' = leaf_node vm va"
      using mmu_okD(1) [OF ok, of _ t] t t' by blast
    then have "t' = t \<Longrightarrow> PAGE_L3_INDEX va' \<noteq> PAGE_L3_INDEX va"
      using False same_index [OF o(2) vm(2)] by auto
    then show "mm_mem (put_word t (PAGE_L3_INDEX va) w m) t' (PAGE_L3_INDEX va') = mm_mem m t' (PAGE_L3_INDEX va')"
      by (auto simp: put_word_mem)
  qed (simp add: put_leaf_tab_at [OF ok t])
  with False show ?thesis by auto
qed

section \<open>Creating tables\<close>

text \<open>What page table operations leave alone: the pages that are neither free nor tables, the reference
  counts and the tables that exist. They only take pages from the free list.\<close>

definition pt_frame :: "nat set \<Rightarrow> mm_state \<Rightarrow> mm_state \<Rightarrow> bool" where
  "pt_frame R m m' \<longleftrightarrow> mmu_ok R m'
     \<and> mm_phy_offset m' = mm_phy_offset m \<and> mm_refs m' = mm_refs m \<and> mm_ref_base m' = mm_ref_base m
     \<and> (\<exists>ts. free_list_page (mm_ka m) = ts @ free_list_page (mm_ka m'))
     \<and> tab_at R m \<subseteq>\<^sub>m tab_at R m'
     \<and> (\<forall>q a. tab_at R m' q = Some a \<longrightarrow> tab_at R m q = Some a \<or> a \<in> free_pages m - free_pages m')
     \<and> (\<forall>a. a \<notin> free_pages m \<longrightarrow> (\<forall>q. tab_at R m q \<noteq> Some a) \<longrightarrow> mm_mem m' a = mm_mem m a)"

definition same_spaces :: "nat set \<Rightarrow> mm_state \<Rightarrow> mm_state \<Rightarrow> bool" where
  "same_spaces R m m' \<longleftrightarrow> (\<forall>vm \<in> R. \<forall>va < KERNEL_BASE. pte m' vm va = pte m vm va)"

definition grown :: "nat set \<Rightarrow> mm_state \<Rightarrow> mm_state \<Rightarrow> bool" where
  "grown R m m' \<longleftrightarrow> pt_frame R m m' \<and> same_spaces R m m'"

lemma pt_frame_refl: "mmu_ok R m \<Longrightarrow> pt_frame R m m"
  by (simp add: pt_frame_def)

lemma pt_frame_trans: "pt_frame R m m1 \<Longrightarrow> pt_frame R m1 m2 \<Longrightarrow> pt_frame R m m2"
  unfolding pt_frame_def
  apply (elim conjE exE)
  apply (intro conjI)
         apply simp_all
    apply (meson map_le_trans)
   apply (metis DiffD1 DiffD2 DiffI UnCI set_append)
  apply (metis Un_iff set_append map_le_def domI option.distinct(1))
  done

lemma grown_refl: "mmu_ok R m \<Longrightarrow> grown R m m"
  by (simp add: grown_def same_spaces_def pt_frame_refl)

lemma grown_trans: "grown R m m1 \<Longrightarrow> grown R m1 m2 \<Longrightarrow> grown R m m2"
  by (auto simp: grown_def same_spaces_def intro: pt_frame_trans)

lemma pt_frameD:
  assumes "pt_frame R m m'"
  shows "mmu_ok R m'" "mm_phy_offset m' = mm_phy_offset m" "mm_refs m' = mm_refs m" "mm_ref_base m' = mm_ref_base m"
    and "free_pages m' \<subseteq> free_pages m"
    and "a \<notin> free_pages m \<Longrightarrow> (\<And>q. tab_at R m q \<noteq> Some a) \<Longrightarrow> mm_mem m' a = mm_mem m a"
    and "a \<notin> free_pages m \<Longrightarrow> (\<And>q. tab_at R m q \<noteq> Some a) \<Longrightarrow> tab_at R m' p \<noteq> Some a"
proof -
  show "mmu_ok R m'" "mm_phy_offset m' = mm_phy_offset m" "mm_refs m' = mm_refs m" "mm_ref_base m' = mm_ref_base m"
    using assms by (simp_all add: pt_frame_def)
  obtain ts where "free_list_page (mm_ka m) = ts @ free_list_page (mm_ka m')" using assms by (auto simp: pt_frame_def)
  then show "free_pages m' \<subseteq> free_pages m" by simp
  show "a \<notin> free_pages m \<Longrightarrow> (\<And>q. tab_at R m q \<noteq> Some a) \<Longrightarrow> mm_mem m' a = mm_mem m a"
    using assms by (simp add: pt_frame_def)
  show "a \<notin> free_pages m \<Longrightarrow> (\<And>q. tab_at R m q \<noteq> Some a) \<Longrightarrow> tab_at R m' p \<noteq> Some a"
    using assms unfolding pt_frame_def by blast
qed

lemma put_leaf_frame:
  assumes ok: "mmu_ok R m" and t: "tab_at R m (r, [i, j]) = Some t"
  shows "pt_frame R m (put_word t k w m)"
proof -
  have "\<forall>a. (\<forall>q. tab_at R m q \<noteq> Some a) \<longrightarrow> mm_mem (put_word t k w m) a = mm_mem m a"
    using t by (auto simp: put_word_def)
  then show ?thesis
    unfolding pt_frame_def put_leaf_tab_at [OF ok t] using put_leaf_ok [OF ok t] by simp
qed

lemma sub_table_grown:
  assumes ok: "mmu_ok R m" and t: "tab_at R m (r, p) = Some t"
    and idx: "p = [] \<and> i < kernel_l1_base \<or> length p = 1 \<and> i < PAGE_DIR_NUM"
    and s: "sub_table t i m = (res, m')"
  shows "grown R m m'" and "res = Some c \<Longrightarrow> tab_at R m' (r, p @ [i]) = Some c"
    and "res = None \<Longrightarrow> m' = m \<and> free_pages m = {}"
proof -
  have idx_tab: "tab_at R m (r, p @ [i]) = child m t i"
    using idx t by (auto simp: tab_at.simps l2_at_def length_Suc_conv split: if_splits)
  show "grown R m m'" "res = Some c \<Longrightarrow> tab_at R m' (r, p @ [i]) = Some c" "res = None \<Longrightarrow> m' = m \<and> free_pages m = {}"
  proof (atomize(full), cases rule: sub_table_cases [of m t i])
    case (3 n ps ka)
    have n: "n \<in> free_pages m" using 3 by simp
    have m': "m' = linked t i n ka m" "res = Some n" using s 3 by auto
    note tab = linked_tab_at [OF ok t idx 3(1) n, of ka, folded m'(1)]
    have nt: "tab_at R m q \<noteq> Some n" for q using mmu_okD(2) [OF ok] n by blast
    have tn: "t \<noteq> n" using t nt by metis
    have mem: "a \<noteq> t \<Longrightarrow> a \<noteq> n \<Longrightarrow> mm_mem m' a = mm_mem m a" for a using tn by (simp add: m' linked_mem)
    have nps: "n \<notin> set ps" using mmu_okD(5) [OF ok] 3 by simp
    have "pte m' vm va = pte m vm va" if o: "vm \<in> R" "va < KERNEL_BASE" for vm va
    proof (cases "leaf_node vm va = (r, p @ [i])")
      case True
      then have "tab_at R m (leaf_node vm va) = None" unfolding True using idx_tab 3(1) by simp
      moreover have "mm_mem m' n = (\<lambda>_. 0)" using tn by (simp add: m' linked_mem)
      ultimately show ?thesis
        unfolding pte_tab_at [OF o] tab True by simp
    next
      case False
      show ?thesis
      proof (rule pte_cong [OF o])
        fix t' assume t': "tab_at R m (leaf_node vm va) = Some t'"
        then have "t' \<noteq> t" using mmu_okD(1) [OF ok t', of "(r, p)"] t idx by auto
        moreover have "t' \<noteq> n" using t' nt by metis
        ultimately show "mm_mem m' t' (PAGE_L3_INDEX va) = mm_mem m t' (PAGE_L3_INDEX va)" by (simp add: mem)
      qed (use False tab in auto)
    qed
    moreover have "mmu_ok R m'" using linked_ok [OF ok t idx 3(1,2,3)] m' by simp
    moreover have "tab_at R m (r, p @ [i]) = None" using idx_tab 3(1) by simp
    moreover have "mm_phy_offset m' = mm_phy_offset m" "mm_refs m' = mm_refs m" "mm_ref_base m' = mm_ref_base m"
      and fl: "free_list_page (mm_ka m') = ps" using m' 3 by simp_all
    moreover have "\<forall>a. (\<forall>q. tab_at R m q \<noteq> Some a) \<longrightarrow> a \<notin> free_pages m \<longrightarrow> mm_mem m' a = mm_mem m a"
      using mem t n by metis
    ultimately have "grown R m m'"
      unfolding grown_def pt_frame_def same_spaces_def using 3(2) nps by (auto simp: tab map_le_def)
    then show "grown R m m' \<and> (res = Some c \<longrightarrow> tab_at R m' (r, p @ [i]) = Some c) \<and> (res = None \<longrightarrow> m' = m \<and> free_pages m = {})"
      using tab m'(2) by simp
  qed (use s idx_tab grown_refl [OF ok] in auto)
qed

section \<open>Mapping and unmapping a page\<close>

lemma map_page_cases:
  assumes ok: "mmu_ok R m" and vm: "vm \<in> R" "va < KERNEL_BASE"
    and r: "map_page vm va pa perm attr m = (res, m')"
  obtains (refused) "res = -1" "grown R m m'" "free_pages m' = {}"
  | (mapped) m1 t where "res = 0" "grown R m m1" "tab_at R m1 (leaf_node vm va) = Some t"
      "m' = put_word t (PAGE_L3_INDEX va) (leaf_desc va pa perm attr (mm_mem m1 t (PAGE_L3_INDEX va))) m1"
proof -
  have root: "tab_at R m (vm, []) = Some vm" using vm by (simp add: tab_at.simps)
  obtain r1 m1 where s1: "sub_table vm (PAGE_L1_INDEX va) m = (r1, m1)" by (metis surj_pair)
  note g1 = sub_table_grown [OF ok root _ s1, simplified, OF user_L1 [OF vm(2)]]
  show ?thesis
  proof (cases r1)
    case None
    then show ?thesis using that(1) g1(1,3) s1 r by (simp add: map_page_def)
  next
    case (Some l2)
    have ok1: "mmu_ok R m1" using g1(1) by (simp add: grown_def pt_frame_def)
    obtain r2 m2 where s2: "sub_table l2 (PAGE_L2_INDEX va) m1 = (r2, m2)" by (metis surj_pair)
    note g2 = sub_table_grown [OF ok1 g1(2) [OF Some] _ s2, simplified, OF index_less(2)]
    note g = grown_trans [OF g1(1) g2(1)]
    show ?thesis
    proof (cases r2)
      case None
      then show ?thesis using that(1) g g2(3) s1 s2 Some r by (simp add: map_page_def)
    next
      case (Some l3)
      then show ?thesis using that(2) [OF _ g g2(2) [OF Some]] s1 s2 \<open>r1 = Some l2\<close> r by (simp add: map_page_def)
    qed
  qed
qed

text \<open>Two free pages are enough for the tables of a mapping.\<close>

lemma sub_table_takes_one:
  "free_list_page (mm_ka m) \<noteq> [] \<Longrightarrow> fst (sub_table t i m) \<noteq> None
     \<and> length (free_list_page (mm_ka m)) \<le> Suc (length (free_list_page (mm_ka (snd (sub_table t i m)))))"
  by (rule sub_table_cases [of m t i]) auto

lemma map_page_succeeds:
  assumes "2 \<le> length (free_list_page (mm_ka m))"
  shows "fst (map_page vm va pa perm attr m) = 0"
proof -
  have "free_list_page (mm_ka m) \<noteq> []" using assms by auto
  then obtain l2 m1 where 1: "sub_table vm (PAGE_L1_INDEX va) m = (Some l2, m1)" "free_list_page (mm_ka m1) \<noteq> []"
    using sub_table_takes_one [of m vm "PAGE_L1_INDEX va"] assms by (cases "sub_table vm (PAGE_L1_INDEX va) m") fastforce
  then obtain l3 m2 where "sub_table l2 (PAGE_L2_INDEX va) m1 = (Some l3, m2)"
    using sub_table_takes_one [of m1 l2 "PAGE_L2_INDEX va"] by (cases "sub_table l2 (PAGE_L2_INDEX va) m1") auto
  with 1 show ?thesis by (simp add: map_page_def)
qed

text \<open>The address spaces after page \<open>va\<close> of \<open>vm\<close> has got the descriptor \<open>d\<close>, or none.\<close>

definition repaged :: "nat set \<Rightarrow> mm_state \<Rightarrow> nat \<Rightarrow> u64 \<Rightarrow> u64 option \<Rightarrow> mm_state \<Rightarrow> bool" where
  "repaged R m vm va d m' \<longleftrightarrow> (\<forall>vm' \<in> R. \<forall>va' < KERNEL_BASE.
     pte m' vm' va' = (if vm' = vm \<and> vpn va' = vpn va then d else pte m vm' va'))"

lemma map_page_repages:
  assumes ok: "mmu_ok R m" and vm: "vm \<in> R" "va < KERNEL_BASE"
    and r: "map_page vm va pa perm attr m = (res, m')"
  shows "pt_frame R m m'" "res \<noteq> 0 \<Longrightarrow> res = -1 \<and> same_spaces R m m' \<and> free_pages m' = {}"
    "res = 0 \<Longrightarrow> \<exists>d0. repaged R m vm va (Some (leaf_desc va pa perm attr d0)) m'"
proof -
  have "pt_frame R m m' \<and> (res \<noteq> 0 \<longrightarrow> res = -1 \<and> same_spaces R m m' \<and> free_pages m' = {})
      \<and> (res = 0 \<longrightarrow> (\<exists>d0. repaged R m vm va (Some (leaf_desc va pa perm attr d0)) m'))"
    using ok vm r
  proof (cases rule: map_page_cases)
    case (mapped m1 t)
    have ok1: "mmu_ok R m1" using mapped by (simp add: grown_def pt_frame_def)
    have "repaged R m vm va (Some (leaf_desc va pa perm attr (mm_mem m1 t (PAGE_L3_INDEX va)))) m'"
      using mapped by (auto simp: repaged_def put_leaf_pte [OF ok1 vm mapped(3)] grown_def same_spaces_def)
    then show ?thesis
      using mapped put_leaf_frame [OF ok1 mapped(3)] by (auto simp: grown_def intro: pt_frame_trans)
  qed (simp add: grown_def)
  then show "pt_frame R m m'" "res \<noteq> 0 \<Longrightarrow> res = -1 \<and> same_spaces R m m' \<and> free_pages m' = {}"
    "res = 0 \<Longrightarrow> \<exists>d0. repaged R m vm va (Some (leaf_desc va pa perm attr d0)) m'" by auto
qed

lemma unmap_page_repages:
  assumes ok: "mmu_ok R m" and vm: "vm \<in> R" "va < KERNEL_BASE"
  shows "pt_frame R m (unmap_page vm va m)" "repaged R m vm va None (unmap_page vm va m)"
proof -
  have "pt_frame R m (unmap_page vm va m) \<and> repaged R m vm va None (unmap_page vm va m)"
  proof (cases "tab_at R m (leaf_node vm va)")
    case None
    then have "pte m vm va' = None" if "va' < KERNEL_BASE" "vpn va' = vpn va" for va'
      using that same_index [OF that(1) vm(2)] by (simp add: pte_tab_at [OF vm(1) that(1)])
    then show ?thesis
      using None pt_frame_refl [OF ok] by (simp add: unmap_page_def walk_tab_at [OF vm] repaged_def)
  next
    case (Some t)
    then show ?thesis
      using put_leaf_frame [OF ok Some]
      by (simp add: unmap_page_def walk_tab_at [OF vm] repaged_def put_leaf_pte [OF ok vm Some] field_simps)
  qed
  then show "pt_frame R m (unmap_page vm va m)" "repaged R m vm va None (unmap_page vm va m)" by auto
qed

section \<open>Releasing pages\<close>

lemma put_page_frame [simp]:
  "mm_mem (put_page p m) = mm_mem m" "mm_phy_offset (put_page p m) = mm_phy_offset m"
  "mm_refs (put_page p m) = mm_refs m" "mm_ref_base (put_page p m) = mm_ref_base m"
  "free_list_page (mm_ka (put_page p m)) = p # free_list_page (mm_ka m)"
  by (simp_all add: put_page_def kfree_page_def)

lemma tab_at_put_page [simp]: "tab_at R (put_page p m) = tab_at R m"
  by (rule tab_at_cong) simp_all

lemma pte_mem_cong:
  assumes "mm_mem m' = mm_mem m" "mm_phy_offset m' = mm_phy_offset m"
  shows "pte m' vm va = pte m vm va"
  by (simp add: assms pte_def get_page_table_entry_def walk_def table_of_def P2V_def Let_def)

lemma put_page_ok:
  assumes "mmu_ok R m" "p \<notin> free_pages m" "\<And>q. tab_at R m q \<noteq> Some p" "page_ok (mm_phy_offset m) p"
  shows "mmu_ok R (put_page p m)"
  using assms unfolding mmu_ok_def by auto

lemma fold_put_page:
  "mm_mem (fold put_page ps m) = mm_mem m" "mm_phy_offset (fold put_page ps m) = mm_phy_offset m"
  "free_list_page (mm_ka (fold put_page ps m)) = rev ps @ free_list_page (mm_ka m)"
  "tab_at R (fold put_page ps m) = tab_at R m"
  by (induction ps arbitrary: m) simp_all

lemma child_put_page [simp]: "child (put_page p m) = child m" "child (fold put_page ps m) = child m"
  by (intro ext child_cong; simp add: fold_put_page)+

lemma free_l3_tables_eq: "free_l3_tables l2 m = fold put_page (List.map_filter (child m l2) [0..<PAGE_DIR_NUM]) m"
proof -
  have "fold (\<lambda>j m. if EntryType (mm_mem m l2 j) \<noteq> 0 then put_page (table_of m (mm_mem m l2 j)) m else m) js m
      = fold put_page (List.map_filter (child m l2) js) m" for js
  proof (induction js arbitrary: m)
    case (Cons j js)
    show ?case
      using Cons [of "put_page (table_of m (mm_mem m l2 j)) m"] Cons [of m]
      by (simp add: map_filter_simps child_def [of m l2 j])
  qed (simp add: map_filter_simps)
  then show ?thesis by (simp add: free_l3_tables_def)
qed

text \<open>The paths of the private tables of a directory, in the order in which they are released.\<close>

definition table_paths :: "nat list list" where
  "table_paths = concat (map (\<lambda>i. map (\<lambda>j. [i, j]) [0..<PAGE_DIR_NUM] @ [[i]]) [0..<kernel_l1_base])"

definition tables_of :: "nat set \<Rightarrow> nat \<Rightarrow> mm_state \<Rightarrow> nat list" where
  "tables_of R vm m = List.map_filter (\<lambda>p. tab_at R m (vm, p)) table_paths"

lemma map_filter_append: "List.map_filter f (xs @ ys) = List.map_filter f xs @ List.map_filter f ys"
  by (simp add: List.map_filter_def)

lemma map_filter_map: "List.map_filter f (map g xs) = List.map_filter (f \<circ> g) xs"
  by (induction xs) (simp_all add: map_filter_simps split: option.split)

lemma map_filter_cong: "(\<And>x. x \<in> set xs \<Longrightarrow> f x = g x) \<Longrightarrow> List.map_filter f xs = List.map_filter g xs"
  by (induction xs) (simp_all add: map_filter_simps split: option.split)

lemma set_map_filter: "set (List.map_filter f xs) = {y. \<exists>x \<in> set xs. f x = Some y}"
  by (induction xs) (auto simp: map_filter_simps split: option.split)

lemma distinct_map_filter:
  "distinct xs \<Longrightarrow> (\<And>x y z. f x = Some z \<Longrightarrow> f y = Some z \<Longrightarrow> x = y) \<Longrightarrow> distinct (List.map_filter f xs)"
  by (induction xs) (auto simp: map_filter_simps set_map_filter split: option.split)

lemma map_filter_concat: "List.map_filter f (concat xss) = concat (map (List.map_filter f) xss)"
  by (induction xss) (simp_all add: map_filter_append map_filter_simps)

lemma free_page_tables_eq:
  assumes "vm \<in> R"
  shows "free_page_tables vm m = fold put_page (tables_of R vm m) m"
proof -
  let ?seg = "\<lambda>i. List.map_filter (\<lambda>p. tab_at R m (vm, p)) (map (\<lambda>j. [i, j]) [0..<PAGE_DIR_NUM] @ [[i]])"
  have seg: "?seg i = (case child m vm i of None \<Rightarrow> [] | Some l2 \<Rightarrow> List.map_filter (child m l2) [0..<PAGE_DIR_NUM] @ [l2])"
    if "i < kernel_l1_base" for i
  proof (cases "child m vm i")
    case None
    then show ?thesis
      using assms that by (simp add: map_filter_append map_filter_map map_filter_simps tab_at.simps l2_at_def o_def List.map_filter_def)
  next
    case (Some l2)
    then have l2: "l2_at R m vm i = Some l2" using assms that by (simp add: l2_at_def)
    have "List.map_filter (\<lambda>j. tab_at R m (vm, [i, j])) [0..<PAGE_DIR_NUM]
        = List.map_filter (child m l2) [0..<PAGE_DIR_NUM]"
      by (rule map_filter_cong) (simp add: tab_at.simps l2)
    then show ?thesis
      using Some l2 by (simp add: map_filter_append map_filter_map map_filter_simps tab_at.simps(2) o_def)
  qed
  have "fold (\<lambda>i m'. if EntryType (mm_mem m' vm i) \<noteq> 0
       then (let l2 = table_of m' (mm_mem m' vm i) in put_page l2 (free_l3_tables l2 m')) else m') is (fold put_page qs m)
     = fold put_page (qs @ concat (map ?seg is)) m" if "\<forall>i \<in> set is. i < kernel_l1_base" for "is" qs
    using that
  proof (induction "is" arbitrary: qs)
    case (Cons i "is")
    let ?m = "fold put_page qs m"
    show ?case
    proof (cases "child m vm i")
      case None
      then have "EntryType (mm_mem ?m vm i) = 0" by (simp add: child_def fold_put_page split: if_splits)
      then show ?thesis using Cons None seg [of i] by simp
    next
      case (Some l2)
      then have "EntryType (mm_mem ?m vm i) \<noteq> 0" "table_of ?m (mm_mem ?m vm i) = l2"
        by (auto simp: child_def fold_put_page table_of_def P2V_def split: if_splits)
      then show ?thesis
        using Cons.IH [of "qs @ List.map_filter (child m l2) [0..<PAGE_DIR_NUM] @ [l2]"] Cons.prems seg [of i] Some
        by (simp add: free_l3_tables_eq Let_def)
    qed
  qed simp
  from this [of "[0..<kernel_l1_base]" "[]"] show ?thesis
    by (simp add: free_page_tables_def tables_of_def table_paths_def map_filter_concat o_def)
qed

lemma distinct_table_paths: "distinct table_paths"
  unfolding table_paths_def
  by (rule distinct_concat) (auto simp: distinct_map inj_on_def)

lemma set_tables_of: "set (tables_of R vm m) = {a. \<exists>p. p \<noteq> [] \<and> tab_at R m (vm, p) = Some a}"
proof -
  have "p \<in> set table_paths" if "p \<noteq> []" "tab_at R m (vm, p) = Some a" for p a
    using that by (cases "(R, m, (vm, p))" rule: tab_at.cases)
      (auto simp: tab_at.simps l2_at_def table_paths_def bind_eq_Some_conv image_iff split: if_splits)
  moreover have "p \<noteq> []" if "p \<in> set table_paths" for p
    using that by (auto simp: table_paths_def)
  ultimately show ?thesis
    by (auto simp: tables_of_def set_map_filter)
qed

lemma tables_of_distinct:
  assumes "mmu_ok R m"
  shows "distinct (tables_of R vm m)"
  unfolding tables_of_def
  by (rule distinct_map_filter [OF distinct_table_paths]) (use mmu_okD(1) [OF assms] in blast)

lemma tab_at_minus: "tab_at (R - {vm}) m (r, p) = (if r = vm then None else tab_at R m (r, p))"
  by (cases "(R, m, (r, p))" rule: tab_at.cases) (auto simp: tab_at.simps l2_at_def)

lemma free_page_tables_ok:
  assumes ok: "mmu_ok R m" and vm: "vm \<in> R"
  shows "mmu_ok (R - {vm}) (free_page_tables vm m)"
proof -
  let ?ts = "tables_of R vm m"
  have new: "a \<notin> free_pages m \<and> page_ok (mm_phy_offset m) a" if "a \<in> set ?ts" for a
    using that mmu_okD(2,3) [OF ok] unfolding set_tables_of by fastforce
  then have "distinct (rev ?ts @ free_list_page (mm_ka m))"
    using tables_of_distinct [OF ok] mmu_okD(5) [OF ok] by auto
  moreover have "a \<notin> set ?ts" if "tab_at (R - {vm}) m (r, p) = Some a" for r p a
    using that mmu_okD(1) [OF ok, of "(r, p)"] by (fastforce simp: tab_at_minus set_tables_of split: if_splits)
  ultimately show ?thesis
    using ok new
    unfolding mmu_ok_def free_page_tables_eq [OF vm] fold_put_page
    by (auto simp: tab_at_minus split: if_splits)
qed

section \<open>The properties\<close>

text \<open>C6: the page tables are address spaces. In a system of page directories whose tables are disjoint, mapping
  a page into one directory either fails, for want of a free page for a table, and then changes no
  translation of any directory, or makes exactly the addresses of that page translate to the given
  physical page with the given access rights; unmapping makes exactly these addresses untranslatable.
  Directories and tables stay disjoint from each other and from the free pages.\<close>

theorem page_tables_are_address_spaces:
  assumes "mmu_ok R m" "vm \<in> R" "va < KERNEL_BASE" "phys_ok pa"
    and "map_page vm va pa perm attr m = (res, m')"
  shows "(res = 0 \<or> res = -1 \<and> free_pages m' = {}) \<and> mmu_ok R m' \<and> mmu_ok R (unmap_page vm va m)
    \<and> (\<forall>vm' \<in> R. \<forall>va' < KERNEL_BASE.
         resolve_phy_address vm' va' m' =
           (if res = 0 \<and> vm' = vm \<and> vpn va' = vpn va then pa OR (va' AND 4095) else resolve_phy_address vm' va' m)
       \<and> resolve_phy_address vm' va' (unmap_page vm va m) =
           (if vm' = vm \<and> vpn va' = vpn va then 0 else resolve_phy_address vm' va' m))
    \<and> (res = 0 \<longrightarrow> map_option S2AP (pte m' vm va) = Some (take_bit 2 perm))"
proof -
  note map = map_page_repages [OF assms(1,2,3,5)] and unmap = unmap_page_repages [OF assms(1,2,3)]
  have "res = 0 \<or> res = -1 \<and> free_pages m' = {}" using map(2) by blast
  moreover have "mmu_ok R m' \<and> mmu_ok R (unmap_page vm va m)" using map(1) unmap(1) by (simp add: pt_frame_def)
  moreover have "resolve_phy_address vm' va' m' =
       (if res = 0 \<and> vm' = vm \<and> vpn va' = vpn va then pa OR (va' AND 4095) else resolve_phy_address vm' va' m)"
    if "vm' \<in> R" "va' < KERNEL_BASE" for vm' va'
    using that map(2,3) assms(4)
    by (cases "res = 0") (auto simp: resolve_pte repaged_def same_spaces_def leaf_desc_address PAGE_SIZE_def)
  moreover have "res = 0 \<longrightarrow> map_option S2AP (pte m' vm va) = Some (take_bit 2 perm)"
    using map(3) assms(2,3) by (auto simp: repaged_def)
  moreover have "resolve_phy_address vm' va' (unmap_page vm va m) =
       (if vm' = vm \<and> vpn va' = vpn va then 0 else resolve_phy_address vm' va' m)"
    if "vm' \<in> R" "va' < KERNEL_BASE" for vm' va'
    using that unmap(2) by (simp add: resolve_pte repaged_def)
  ultimately show ?thesis by blast
qed

text \<open>Two directories, and three free pages for tables.\<close>

definition ex_mm :: mm_state where
  "ex_mm = \<lparr>mm_ka = kalloc_reset\<lparr>free_list_page := [0x4000010000, 0x4000011000, 0x4000012000]\<rparr>, mm_mem = (\<lambda>_ _. 0),
     mm_phy_offset = 0, mm_ref_base = 0x10000, mm_refs = [0, 0, 0]\<rparr>"

lemma ex_mm_ok: "mmu_ok {0x4000008000, 0x4000009000} ex_mm"
proof -
  have "tab_at R ex_mm (r, p) = (if p = [] \<and> r \<in> R then Some r else None)" for R r p
    by (cases "(R, ex_mm, (r, p))" rule: tab_at.cases) (simp_all add: tab_at.simps l2_at_def child_def ex_mm_def)
  then show ?thesis
    by (auto simp: mmu_ok_def ex_mm_def page_ok_def KERNEL_BASE_def take_bit_eq_mod split: if_splits)
qed

theorem page_tables_are_address_spaces_witness:
  "let m' = snd (map_page 0x4000008000 0x1000 0x55000 AP_RW_RW PTE_ATTR_WRBACK ex_mm) in
   mmu_ok {0x4000008000, 0x4000009000} m' \<and> resolve_phy_address 0x4000008000 0x1234 m' = 0x55234
     \<and> resolve_phy_address 0x4000009000 0x1234 m' = 0 \<and> resolve_phy_address 0x4000008000 0x2000 m' = 0"
proof -
  let ?r = "map_page 0x4000008000 0x1000 0x55000 AP_RW_RW PTE_ATTR_WRBACK ex_mm"
  have r: "fst ?r = 0"
    by (rule map_page_succeeds) (simp add: ex_mm_def)
  have z: "resolve_phy_address vm va ex_mm = 0" for vm va
    by (simp add: resolve_phy_address_def walk_def ex_mm_def)
  have "phys_ok 0x55000" "(0x1000 :: u64) < KERNEL_BASE"
    by (simp_all add: phys_ok_def take_bit_eq_mod KERNEL_BASE_def)
  from page_tables_are_address_spaces [OF ex_mm_ok _ this(2,1) prod.collapse [symmetric], of "0x4000008000" AP_RW_RW PTE_ATTR_WRBACK]
  show ?thesis
    by (simp add: Let_def r z vpn_def KERNEL_BASE_def)
qed

text \<open>C22: releasing the page tables of a dead process returns each of its private tables to the page
  allocator exactly once, and nothing else: none of them was free before, none belongs to another
  directory, and the translations of all other directories are as before.\<close>

theorem free_page_tables_exact:
  assumes "mmu_ok R m" "vm \<in> R"
  shows "(\<exists>ts. free_list_page (mm_ka (free_page_tables vm m)) = ts @ free_list_page (mm_ka m)
         \<and> distinct (ts @ free_list_page (mm_ka m))
         \<and> set ts = {a. \<exists>p. p \<noteq> [] \<and> tab_at R m (vm, p) = Some a})
    \<and> mmu_ok (R - {vm}) (free_page_tables vm m)
    \<and> (\<forall>vm' va. resolve_phy_address vm' va (free_page_tables vm m) = resolve_phy_address vm' va m)"
proof (intro conjI)
  show ok': "mmu_ok (R - {vm}) (free_page_tables vm m)" by (rule free_page_tables_ok [OF assms])
  show "\<exists>ts. free_list_page (mm_ka (free_page_tables vm m)) = ts @ free_list_page (mm_ka m)
      \<and> distinct (ts @ free_list_page (mm_ka m))
      \<and> set ts = {a. \<exists>p. p \<noteq> [] \<and> tab_at R m (vm, p) = Some a}"
    using mmu_okD(5) [OF ok']
    by (intro exI [of _ "rev (tables_of R vm m)"]) (simp add: free_page_tables_eq [OF assms(2)] fold_put_page set_tables_of)
  show "\<forall>vm' va. resolve_phy_address vm' va (free_page_tables vm m) = resolve_phy_address vm' va m"
    by (simp add: resolve_pte free_page_tables_eq [OF assms(2)] pte_mem_cong [of "fold put_page ps m" m for ps] fold_put_page)
qed

theorem free_page_tables_exact_witness:
  "let m = snd (map_page 0x4000008000 0x1000 0x55000 AP_RW_RW PTE_ATTR_WRBACK ex_mm) in
   mmu_ok {0x4000009000} (free_page_tables 0x4000008000 m)
     \<and> (\<exists>ts. free_list_page (mm_ka (free_page_tables 0x4000008000 m)) = ts @ free_list_page (mm_ka m))"
proof -
  let ?R = "{0x4000008000, 0x4000009000} :: nat set"
  let ?r = "map_page 0x4000008000 0x1000 0x55000 AP_RW_RW PTE_ATTR_WRBACK ex_mm"
  have ok: "mmu_ok ?R (snd ?r)"
    using map_page_repages(1) [OF ex_mm_ok _ _ prod.collapse [symmetric], of "0x4000008000" "0x1000"]
    by (simp add: pt_frame_def KERNEL_BASE_def)
  show ?thesis
    using free_page_tables_exact [OF ok, of "0x4000008000"] by (auto simp: Let_def)
qed

end
