(* ===== verification/Vm_Refs.thy ===== *)
theory Vm_Refs
  imports Vm Mmu_Props
begin

text \<open>
  Reference counts of physical pages. \<open>G\<close> is the set of private mappings, each a page directory and a page
  number: the count of a page is the number of its private mappings, a page with a private mapping is neither
  free nor a page table, it is mapped at one page number only, and when several spaces map it none of them may
  write to it, but for the mappings of \<open>E\<close>, which is empty between operations. This theory shows how each mapping primitive changes \<open>G\<close>.
\<close>

section \<open>Private mappings\<close>

type_synonym mapping = "nat \<times> u64"

definition pte_of :: "mm_state \<Rightarrow> mapping \<Rightarrow> u64 option" where
  "pte_of m g = pte m (fst g) (push_bit 12 (snd g))"

definition frame_of :: "mm_state \<Rightarrow> mapping \<Rightarrow> nat option" where
  "frame_of m g = map_option (table_of m) (pte_of m g)"

definition writable :: "mm_state \<Rightarrow> mapping \<Rightarrow> bool" where
  "writable m g \<longleftrightarrow> map_option S2AP (pte_of m g) = Some AP_RW_RW"

definition fidx :: "mm_state \<Rightarrow> nat \<Rightarrow> nat" where
  "fidx m p = unat (V2P m (of_nat p) - mm_ref_base m) div PAGE_SIZE"

text \<open>A page of the allocable range, which has a reference count.\<close>

definition managed :: "mm_state \<Rightarrow> nat \<Rightarrow> bool" where
  "managed m p \<longleftrightarrow> page_ok (mm_phy_offset m) p \<and> mm_ref_base m \<le> V2P m (of_nat p) \<and> fidx m p < length (mm_refs m)"

text \<open>The configuration: the range of counted pages is page aligned, has at most \<open>2 ^ 32\<close> pages and does not contain
  physical page 0, which the code takes for an unmapped address.\<close>

definition refs_config :: "nat set \<Rightarrow> mm_state \<Rightarrow> bool" where
  "refs_config R m \<longleftrightarrow> finite R \<and> card R < 2 ^ 32 \<and> take_bit 12 (mm_ref_base m) = 0 \<and> length (mm_refs m) \<le> 2 ^ 32
     \<and> length (mm_refs m) \<le> ref_index m 0"

definition data_page :: "nat set \<Rightarrow> mm_state \<Rightarrow> nat \<Rightarrow> bool" where
  "data_page R m p \<longleftrightarrow> managed m p \<and> p \<notin> free_pages m \<and> (\<forall>q. tab_at R m q \<noteq> Some p)"

definition mappers :: "mapping set \<Rightarrow> mm_state \<Rightarrow> nat \<Rightarrow> mapping set" where
  "mappers G m p = {g \<in> G. frame_of m g = Some p}"

definition user_maps :: "nat set \<Rightarrow> mapping set" where
  "user_maps R = R \<times> {v. v < vpn KERNEL_BASE}"

definition ref_ok :: "mapping set \<Rightarrow> nat set \<Rightarrow> mapping set \<Rightarrow> mm_state \<Rightarrow> bool" where
  "ref_ok E R G m \<longleftrightarrow> mmu_ok R m \<and> refs_config R m \<and> G \<subseteq> user_maps R
     \<and> (\<forall>p \<in> free_pages m. managed m p)
     \<and> (\<forall>g \<in> G. \<exists>p. frame_of m g = Some p \<and> data_page R m p)
     \<and> (\<forall>p. managed m p \<longrightarrow> mm_refs m ! fidx m p = of_nat (card (mappers G m p)))
     \<and> (\<forall>g \<in> G. \<forall>g' \<in> G. frame_of m g = frame_of m g' \<longrightarrow> snd g = snd g')
     \<and> (\<forall>g \<in> G. \<forall>g' \<in> G. frame_of m g = frame_of m g' \<longrightarrow> writable m g \<longrightarrow> g \<in> E \<or> g' = g)"

lemma ref_okD:
  assumes "ref_ok E R G m"
  shows "mmu_ok R m" "refs_config R m" "G \<subseteq> user_maps R"
    and "p \<in> free_pages m \<Longrightarrow> managed m p"
    and "g \<in> G \<Longrightarrow> \<exists>p. frame_of m g = Some p \<and> data_page R m p"
    and "managed m p \<Longrightarrow> mm_refs m ! fidx m p = of_nat (card (mappers G m p))"
    and "g \<in> G \<Longrightarrow> g' \<in> G \<Longrightarrow> frame_of m g = frame_of m g' \<Longrightarrow> snd g = snd g'"
    and "g \<in> G \<Longrightarrow> g' \<in> G \<Longrightarrow> frame_of m g = frame_of m g' \<Longrightarrow> writable m g \<Longrightarrow> g \<in> E \<or> g' = g"
  using assms unfolding ref_ok_def by blast+

lemma ref_ok_mono: "ref_ok E R G m \<Longrightarrow> E \<subseteq> E' \<Longrightarrow> ref_ok E' R G m"
  unfolding ref_ok_def by blast

lemma ref_okI:
  assumes "mmu_ok R m" "refs_config R m" "G \<subseteq> user_maps R" "\<And>p. p \<in> free_pages m \<Longrightarrow> managed m p"
    and "\<And>g. g \<in> G \<Longrightarrow> \<exists>p. frame_of m g = Some p \<and> data_page R m p"
    and "\<And>p. managed m p \<Longrightarrow> mm_refs m ! fidx m p = of_nat (card (mappers G m p))"
    and "\<And>g g'. g \<in> G \<Longrightarrow> g' \<in> G \<Longrightarrow> frame_of m g = frame_of m g' \<Longrightarrow> snd g = snd g' \<and> (writable m g \<longrightarrow> g \<in> E \<or> g' = g)"
  shows "ref_ok E R G m"
  using assms unfolding ref_ok_def by blast

section \<open>Addresses and indices\<close>

lemma vpn_bound: "va < KERNEL_BASE \<Longrightarrow> vpn va < vpn KERNEL_BASE"
  by (simp add: vpn_def KERNEL_BASE_def drop_bit_eq_div word_less_nat_alt unat_div)

lemma push_vpn:
  assumes "v < vpn KERNEL_BASE"
  shows "push_bit 12 v < KERNEL_BASE" "vpn (push_bit 12 v) = v"
proof -
  have v: "unat v < 2 ^ 26" using assms by (simp add: vpn_def KERNEL_BASE_def word_less_nat_alt)
  then have u: "unat (push_bit 12 v) = unat v * 4096"
    by (simp add: push_bit_eq_mult unat_word_ariths(2))
  show "push_bit 12 v < KERNEL_BASE" using v u by (simp add: word_less_nat_alt KERNEL_BASE_def)
  show "vpn (push_bit 12 v) = v"
    unfolding vpn_def by (rule word_unat_eq_iff [THEN iffD2]) (simp add: drop_bit_eq_div unat_div u)
qed

lemma user_map: "vm \<in> R \<Longrightarrow> va < KERNEL_BASE \<Longrightarrow> (vm, vpn va) \<in> user_maps R"
  by (simp add: user_maps_def vpn_bound)

lemma finite_user_maps: "finite R \<Longrightarrow> finite (user_maps R)"
  by (simp add: user_maps_def)

lemma pte_vpn:
  assumes "va < KERNEL_BASE"
  shows "pte_of m (vm, vpn va) = pte m vm va"
proof -
  have "walk vm (push_bit 12 (vpn va)) m = walk vm va m"
    using same_index [OF push_vpn(1) [OF vpn_bound [OF assms]] assms] push_vpn(2) [OF vpn_bound [OF assms]]
    by (simp add: walk_def Let_def)
  then show ?thesis by (simp add: pte_of_def pte_def get_page_table_entry_def)
qed

lemma phys_managed: "managed m p \<Longrightarrow> phys_ok (V2P m (of_nat p))"
  by (simp add: managed_def phys_ok_page)

lemma page_of_phys: "managed m p \<Longrightarrow> unat (P2V m (V2P m (of_nat p))) = p"
  by (simp add: managed_def page_ok_def P2V_def V2P_def unat_of_nat)

lemma table_of_leaf:
  "managed m p \<Longrightarrow> table_of m (leaf_desc va (V2P m (of_nat p)) perm attr d) = p"
  by (simp add: table_of_def leaf_desc_address phys_managed page_of_phys)

lemma ref_index_managed:
  assumes "managed m p" "refs_config R m"
  shows "ref_index m (V2P m (of_nat p)) = fidx m p"
proof -
  have "fidx m p < 2 ^ 32" using assms by (simp add: managed_def refs_config_def)
  then show ?thesis
    by (simp add: ref_index_def page_ref_index_def fidx_def PAGE_SIZE_def unsigned_ucast_eq unat_div take_bit_eq_mod)
qed

lemma aligned_unat: "take_bit 12 (x :: u64) = 0 \<Longrightarrow> unat x mod 4096 = 0"
  using unsigned_take_bit_eq [where ?'a = nat and n = 12 and w = x] by (simp add: take_bit_eq_mod)

lemma fidx_inj:
  assumes "managed m p" "managed m q" "refs_config R m" "fidx m p = fidx m q"
  shows "p = q"
proof -
  let ?b = "mm_ref_base m"
  have eq: "unat (V2P m (of_nat x)) = unat ?b + 4096 * fidx m x" if "managed m x" for x
  proof -
    have "unat (V2P m (of_nat x) - ?b) = unat (V2P m (of_nat x)) - unat ?b"
      using that by (simp add: managed_def unat_sub)
    moreover have "4096 dvd unat (V2P m (of_nat x))" "4096 dvd unat ?b"
      using that assms(3) by (auto simp: managed_def page_ok_def V2P_def refs_config_def intro!: mod_0_imp_dvd aligned_unat)
    then have "4096 dvd unat (V2P m (of_nat x)) - unat ?b" by (rule dvd_diff_nat)
    then have "4096 * ((unat (V2P m (of_nat x)) - unat ?b) div 4096) = unat (V2P m (of_nat x)) - unat ?b" by simp
    moreover have "unat ?b \<le> unat (V2P m (of_nat x))" using that by (simp add: managed_def word_le_nat_alt)
    ultimately show ?thesis unfolding fidx_def PAGE_SIZE_def by (metis le_add_diff_inverse)
  qed
  have "V2P m (of_nat p) = V2P m (of_nat q)"
    using eq [OF assms(1)] eq [OF assms(2)] assms(4) by (simp add: word_unat_eq_iff)
  then show ?thesis using page_of_phys [OF assms(1)] page_of_phys [OF assms(2)] by metis
qed

text \<open>Few enough spaces map a page that its count does not wrap.\<close>

lemma mappers_card:
  assumes "ref_ok E R G m"
  shows "card (mappers G m p) \<le> card R" "finite (mappers G m p)"
proof -
  have sub: "mappers G m p \<subseteq> user_maps R" using ref_okD(3) [OF assms] by (auto simp: mappers_def)
  have fin: "finite R" using ref_okD(2) [OF assms] by (simp add: refs_config_def)
  show "finite (mappers G m p)" using sub finite_user_maps [OF fin] by (rule finite_subset)
  have "inj_on fst (mappers G m p)"
    using ref_okD(7) [OF assms] by (intro inj_onI) (fastforce simp: mappers_def prod_eq_iff)
  moreover have "fst ` mappers G m p \<subseteq> R" using sub by (auto simp: user_maps_def)
  ultimately show "card (mappers G m p) \<le> card R" using card_inj_on_le fin by blast
qed

lemma count_unat:
  assumes "ref_ok E R G m" "managed m p"
  shows "unat (mm_refs m ! fidx m p) = card (mappers G m p)"
proof -
  have "card (mappers G m p) < 2 ^ 32"
    using mappers_card(1) [OF assms(1), of p] ref_okD(2) [OF assms(1)] by (simp add: refs_config_def)
  then show ?thesis using ref_okD(6) [OF assms] by (simp add: unat_of_nat)
qed

section \<open>States with the same configuration\<close>

definition same_config :: "mm_state \<Rightarrow> mm_state \<Rightarrow> bool" where
  "same_config m m' \<longleftrightarrow> mm_phy_offset m' = mm_phy_offset m \<and> mm_ref_base m' = mm_ref_base m
     \<and> length (mm_refs m') = length (mm_refs m)"

lemma config_cong:
  assumes "same_config m m'"
  shows "managed m' = managed m" "fidx m' = fidx m" "refs_config R m' = refs_config R m"
    "V2P m' = V2P m" "P2V m' = P2V m" "table_of m' = table_of m" "ref_index m' = ref_index m"
  using assms
  by (auto simp: same_config_def managed_def fidx_def refs_config_def V2P_def P2V_def table_of_def ref_index_def fun_eq_iff)

lemma pt_frame_config: "pt_frame R m m' \<Longrightarrow> same_config m m'"
  by (simp add: pt_frame_def same_config_def)

lemma pt_frame_data:
  assumes "pt_frame R m m'" "data_page R m p"
  shows "data_page R m' p"
  using pt_frameD(5,7) [OF assms(1)] assms(2) config_cong(1) [OF pt_frame_config [OF assms(1)]]
  unfolding data_page_def by (metis subsetD)

lemma pt_frame_mem: "pt_frame R m m' \<Longrightarrow> data_page R m p \<Longrightarrow> mm_mem m' p = mm_mem m p"
  using pt_frameD(6) unfolding data_page_def by blast

section \<open>Changing one mapping\<close>

lemma repaged_pte_of:
  assumes "repaged R m vm va d m'" "g \<in> user_maps R"
  shows "pte_of m' g = (if g = (vm, vpn va) then d else pte_of m g)"
proof -
  obtain vm' v where g: "g = (vm', v)" "vm' \<in> R" "v < vpn KERNEL_BASE" using assms(2) by (auto simp: user_maps_def)
  show ?thesis
    using assms(1) g push_vpn [OF g(3)] by (auto simp: repaged_def pte_of_def)
qed

lemma same_spaces_pte_of: "same_spaces R m m' \<Longrightarrow> g \<in> user_maps R \<Longrightarrow> pte_of m' g = pte_of m g"
  using push_vpn by (auto simp: same_spaces_def pte_of_def user_maps_def)

text \<open>The private mappings do not change.\<close>

lemma ref_ok_same:
  assumes ok: "ref_ok E R G m" and m': "mmu_ok R m'" "same_config m m'" "mm_refs m' = mm_refs m"
    and fr: "\<And>p. p \<in> free_pages m' \<Longrightarrow> managed m p"
    and data: "\<And>p g. g \<in> G \<Longrightarrow> frame_of m g = Some p \<Longrightarrow> data_page R m p \<Longrightarrow> data_page R m' p"
    and pte: "\<And>g. g \<in> G \<Longrightarrow> frame_of m' g = frame_of m g \<and> (writable m' g \<longrightarrow> writable m g)"
  shows "ref_ok E R G m'"
proof -
  note cong = config_cong [OF m'(2)]
  have "mappers G m' p = mappers G m p" for p using pte by (auto simp: mappers_def)
  then have cnt: "managed m p \<Longrightarrow> mm_refs m' ! fidx m p = of_nat (card (mappers G m' p))" for p
    using ref_okD(6) [OF ok] m'(3) by simp
  show ?thesis
  proof (rule ref_okI, unfold cong)
    show "\<exists>p. frame_of m' g = Some p \<and> data_page R m' p" if "g \<in> G" for g
      using ref_okD(5) [OF ok that] data [OF that] pte [OF that] by auto
    show "snd g = snd g' \<and> (writable m' g \<longrightarrow> g \<in> E \<or> g' = g)"
      if "g \<in> G" "g' \<in> G" "frame_of m' g = frame_of m' g'" for g g'
      using that ref_okD(7,8) [OF ok, of g g'] pte [of g] pte [of g'] by simp
  qed (fact m'(1) ref_okD(2) [OF ok] ref_okD(3) [OF ok] fr cnt)+
qed

lemma ref_ok_same_spaces:
  assumes "ref_ok E R G m" "pt_frame R m m'" "same_spaces R m m'"
  shows "ref_ok E R G m'"
proof (rule ref_ok_same [OF assms(1)])
  show "p \<in> free_pages m' \<Longrightarrow> managed m p" for p using pt_frameD(5) [OF assms(2)] ref_okD(4) [OF assms(1)] by blast
  show "frame_of m' g = frame_of m g \<and> (writable m' g \<longrightarrow> writable m g)" if "g \<in> G" for g
  proof -
    have "pte_of m' g = pte_of m g" using same_spaces_pte_of [OF assms(3), of g] that ref_okD(3) [OF assms(1)] by blast
    then show ?thesis
      using config_cong(6) [OF pt_frame_config [OF assms(2)]] by (simp add: frame_of_def writable_def)
  qed
qed (use pt_frameD [OF assms(2)] pt_frame_config [OF assms(2)] pt_frame_data [OF assms(2)] in auto)

text \<open>A page is about to be mapped at \<open>v\<close>: nobody maps it elsewhere, or may write to it.\<close>

definition mappable :: "mapping set \<Rightarrow> nat set \<Rightarrow> mapping set \<Rightarrow> mm_state \<Rightarrow> nat \<Rightarrow> u64 \<Rightarrow> u64 \<Rightarrow> bool" where
  "mappable E R G m p v perm \<longleftrightarrow> data_page R m p
     \<and> (\<forall>g \<in> mappers G m p. snd g = v \<and> (writable m g \<longrightarrow> g \<in> E) \<and> take_bit 2 perm \<noteq> AP_RW_RW)"

lemma map_page_ref_ok:
  assumes ok: "ref_ok E R G m" and vm: "vm \<in> R" "va < KERNEL_BASE" and g0: "(vm, vpn va) \<notin> G"
    and p: "mappable E R G m p (vpn va) perm"
    and r: "map_page_ref vm va (V2P m (of_nat p)) perm attr m = (res, m')"
  shows "res = 0 \<Longrightarrow> ref_ok E R (insert (vm, vpn va) G) m' \<and> frame_of m' (vm, vpn va) = Some p"
    and "res \<noteq> 0 \<Longrightarrow> ref_ok E R G m' \<and> mm_refs m' = mm_refs m \<and> same_spaces R m m' \<and> free_pages m' = {}"
    and "data_page R m q \<Longrightarrow> data_page R m' q" "same_config m m'" "free_pages m' \<subseteq> free_pages m"
    and "data_page R m q \<Longrightarrow> mm_mem m' q = mm_mem m q"
    and "g \<in> user_maps R \<Longrightarrow> g \<noteq> (vm, vpn va) \<Longrightarrow> pte_of m' g = pte_of m g"
proof -
  let ?g = "(vm, vpn va)"
  obtain r1 m1 where s: "map_page vm va (V2P m (of_nat p)) perm attr m = (r1, m1)" by (metis surj_pair)
  note mp = map_page_repages [OF ref_okD(1) [OF ok] vm s] and f1 = pt_frame_config [OF map_page_repages(1) [OF ref_okD(1) [OF ok] vm s]]
  have man: "managed m p" and cfg: "refs_config R m" using p ref_okD(2) [OF ok] by (simp_all add: mappable_def data_page_def)
  have idx: "ref_index m1 (V2P m (of_nat p)) = fidx m p" "fidx m p < length (mm_refs m1)"
    using ref_index_managed [OF man cfg] man f1 config_cong(7) [OF f1] by (simp_all add: managed_def same_config_def)
  have m': "(res, m') = (if r1 \<noteq> 0 then (-1, m1) else (0, m1\<lparr>mm_refs := (mm_refs m1)[fidx m p := mm_refs m1 ! fidx m p + 1]\<rparr>))"
    using r s idx by (auto simp: map_page_ref_def Let_def split: if_splits)
  have tab: "tab_at R m' = tab_at R m1" and fl: "mm_ka m' = mm_ka m1" and mem: "mm_mem m' = mm_mem m1"
    and off: "mm_phy_offset m' = mm_phy_offset m1" and base: "mm_ref_base m' = mm_ref_base m1"
    using m' by (auto intro: tab_at_cong split: if_splits)
  have ok1: "mmu_ok R m'" using pt_frameD(1) [OF mp(1)] unfolding mmu_ok_def tab fl off .
  show cfg': "same_config m m'" using m' f1 by (auto simp: same_config_def split: if_splits)
  note cong = config_cong [OF cfg']
  show data: "data_page R m q \<Longrightarrow> data_page R m' q" for q
    using pt_frame_data [OF mp(1), of q] config_cong(1) [OF f1] by (simp add: data_page_def tab fl cong)
  show fr: "free_pages m' \<subseteq> free_pages m" using pt_frameD(5) [OF mp(1)] by (simp add: fl)
  show "data_page R m q \<Longrightarrow> mm_mem m' q = mm_mem m q" unfolding data_page_def mem using pt_frameD(6) [OF mp(1), of q] by blast
  have pte: "pte_of m' g = pte_of m1 g" for g
    unfolding pte_of_def by (rule pte_mem_cong [OF mem off])
  show "g \<in> user_maps R \<Longrightarrow> g \<noteq> ?g \<Longrightarrow> pte_of m' g = pte_of m g" for g
    using mp(2,3) repaged_pte_of [of R m vm va _ m1 g] same_spaces_pte_of [of R m m1 g]
    by (cases "r1 = 0") (auto simp: pte)
  show "res \<noteq> 0 \<Longrightarrow> ref_ok E R G m' \<and> mm_refs m' = mm_refs m \<and> same_spaces R m m' \<and> free_pages m' = {}"
    using m' mp pt_frameD(3) [OF mp(1)] ref_ok_same_spaces [OF ok mp(1)] by (auto split: if_splits)
  assume res: "res = 0"
  then obtain d0 where rp: "repaged R m vm va (Some (leaf_desc va (V2P m (of_nat p)) perm attr d0)) m1"
    using m' mp(3) by (auto split: if_splits)
  have pg: "pte_of m' g = (if g = ?g then Some (leaf_desc va (V2P m (of_nat p)) perm attr d0) else pte_of m g)"
    if "g \<in> user_maps R" for g using repaged_pte_of [OF rp that] pte by simp
  have uG: "insert ?g G \<subseteq> user_maps R" using ref_okD(3) [OF ok] user_map [OF vm] by simp
  have frm: "frame_of m' g = (if g = ?g then Some p else frame_of m g)" if "g \<in> insert ?g G" for g
    using pg [OF subsetD [OF uG that]] by (simp add: frame_of_def cong table_of_leaf [OF man])
  have wr: "writable m' g = (if g = ?g then take_bit 2 perm = AP_RW_RW else writable m g)" if "g \<in> insert ?g G" for g
    using pg [OF subsetD [OF uG that]] by (simp add: writable_def)
  have maps: "mappers (insert ?g G) m' q = (if q = p then insert ?g (mappers G m p) else mappers G m q)" for q
    using frm g0 by (auto simp: mappers_def split: if_splits)
  have refs: "mm_refs m' = (mm_refs m)[fidx m p := mm_refs m ! fidx m p + 1]"
    using m' res pt_frameD(3) [OF mp(1)] by (auto split: if_splits)
  have cnt: "mm_refs m' ! fidx m q = of_nat (card (mappers (insert ?g G) m' q))" if "managed m q" for q
  proof (cases "q = p")
    case True
    have "?g \<notin> mappers G m p" using g0 by (simp add: mappers_def)
    then show ?thesis
      using True ref_okD(6) [OF ok man] mappers_card(2) [OF ok, of p] man by (simp add: refs maps managed_def)
  next
    case False
    then have "fidx m q \<noteq> fidx m p" using fidx_inj [OF that man cfg] by blast
    then show ?thesis using False ref_okD(6) [OF ok that] by (simp add: refs maps)
  qed
  have dp: "data_page R m' p" using p data by (simp add: mappable_def)
  have all: "\<exists>q. frame_of m' g = Some q \<and> data_page R m' q" if "g \<in> insert ?g G" for g
    using that frm [OF that] ref_okD(5) [OF ok, of g] data dp by auto
  have pm: "snd g = vpn va \<and> (writable m g \<longrightarrow> g \<in> E) \<and> take_bit 2 perm \<noteq> AP_RW_RW" if "g \<in> G" "frame_of m g = Some p" for g
    using p that unfolding mappable_def mappers_def by blast
  have same: "snd g = snd g' \<and> (writable m' g \<longrightarrow> g \<in> E \<or> g' = g)"
    if g: "g \<in> insert ?g G" "g' \<in> insert ?g G" and eq: "frame_of m' g = frame_of m' g'" for g g'
  proof -
    consider "g = ?g" "g' = ?g" | "g = ?g" "g' \<noteq> ?g" | "g \<noteq> ?g" "g' = ?g" | "g \<noteq> ?g" "g' \<noteq> ?g" by blast
    then show ?thesis
    proof cases
      case 2
      then have "g' \<in> G" "frame_of m g' = Some p" using g eq frm [OF g(1)] frm [OF g(2)] by auto
      then show ?thesis using pm [of g'] wr [OF g(1)] 2 by simp
    next
      case 3
      then have "g \<in> G" "frame_of m g = Some p" using g eq frm [OF g(1)] frm [OF g(2)] by auto
      then show ?thesis using pm [of g] wr [OF g(1)] 3 by simp
    next
      case 4
      then have "g \<in> G" "g' \<in> G" "frame_of m g = frame_of m g'" using g eq frm [OF g(1)] frm [OF g(2)] by auto
      then show ?thesis using ref_okD(7,8) [OF ok, of g g'] wr [OF g(1)] 4 by simp
    qed simp
  qed
  have "ref_ok E R (insert ?g G) m'"
  proof (rule ref_okI, unfold cong)
    show "q \<in> free_pages m' \<Longrightarrow> managed m q" for q using fr ref_okD(4) [OF ok] by blast
  qed (fact ok1 cfg uG all cnt same)+
  then show "ref_ok E R (insert ?g G) m' \<and> frame_of m' ?g = Some p" using frm by simp
qed

section \<open>Releasing a mapping\<close>

lemma tab_at_mem: "mm_mem m' = mm_mem m \<Longrightarrow> mm_phy_offset m' = mm_phy_offset m \<Longrightarrow> tab_at R m' = tab_at R m"
  by (rule tab_at_cong) simp_all

lemma resolve_aligned:
  assumes "take_bit 12 va = 0"
  shows "resolve_phy_address vm va m = (case pte m vm va of None \<Rightarrow> 0 | Some d \<Rightarrow> push_bit PAGE_SHIFT (pte_get_address d))"
proof -
  have "va AND (of_nat PAGE_SIZE - 1) = 0"
    using assms by (simp add: PAGE_SIZE_def take_bit_eq_mask mask_eq_exp_minus_1)
  then show ?thesis by (simp add: resolve_pte split: option.split)
qed

lemma resolve_frame:
  assumes "take_bit 12 va = 0" "va < KERNEL_BASE"
  shows "pte_of m (vm, vpn va) = Some d \<Longrightarrow> unat (P2V m (resolve_phy_address vm va m)) = table_of m d"
    and "pte_of m (vm, vpn va) = None \<Longrightarrow> resolve_phy_address vm va m = 0"
  by (simp_all add: resolve_aligned [OF assms(1)] pte_vpn [OF assms(2)] table_of_def)

lemma resolve_managed:
  assumes "take_bit 12 va = 0" "va < KERNEL_BASE" "frame_of m (vm, vpn va) = Some p"
  shows "resolve_phy_address vm va m = V2P m (of_nat p)"
proof -
  obtain d where d: "pte_of m (vm, vpn va) = Some d" "table_of m d = p" using assms(3) by (auto simp: frame_of_def)
  have "of_nat p = P2V m (resolve_phy_address vm va m)"
    unfolding d(2) [symmetric] resolve_frame(1) [OF assms(1,2) d(1), symmetric] by simp
  then show ?thesis by (simp add: P2V_def V2P_def)
qed

text \<open>The effect of the release on the counts, before the descriptor is removed.\<close>

definition drop_ref :: "u64 \<Rightarrow> mm_state \<Rightarrow> mm_state" where
  "drop_ref paddr m =
     (let i = ref_index m paddr in
      if i < length (mm_refs m)
      then (let m = (if mm_refs m ! i > 0 then m\<lparr>mm_refs := (mm_refs m)[i := mm_refs m ! i - 1]\<rparr> else m) in
            if mm_refs m ! i = 0 then put_page (unat (P2V m paddr)) m else m)
      else m)"

lemma unmap_page_ref_alt: "unmap_page_ref vm va m = unmap_page vm va (drop_ref (resolve_phy_address vm va m) m)"
  by (simp add: unmap_page_ref_def drop_ref_def Let_def)

lemma drop_ref_frame [simp]:
  "mm_mem (drop_ref pa m) = mm_mem m" "mm_phy_offset (drop_ref pa m) = mm_phy_offset m"
  "mm_ref_base (drop_ref pa m) = mm_ref_base m" "length (mm_refs (drop_ref pa m)) = length (mm_refs m)"
  by (simp_all add: drop_ref_def Let_def)

lemma drop_ref_config: "same_config m (drop_ref pa m)"
  by (simp add: same_config_def)

lemma drop_ref_foreign: "length (mm_refs m) \<le> ref_index m pa \<Longrightarrow> drop_ref pa m = m"
  by (simp add: drop_ref_def Let_def)

text \<open>An address that is not mapped, or whose page is not counted, keeps the counts.\<close>

lemma unmap_page_ref_foreign:
  assumes ok: "ref_ok E R G m" and vm: "vm \<in> R" "va < KERNEL_BASE" "(vm, vpn va) \<notin> G"
    and f: "length (mm_refs m) \<le> ref_index m (resolve_phy_address vm va m)"
  shows "ref_ok E R G (unmap_page_ref vm va m)" "pt_frame R m (unmap_page_ref vm va m)"
    "repaged R m vm va None (unmap_page_ref vm va m)"
proof -
  note um = unmap_page_repages [OF ref_okD(1) [OF ok] vm(1,2)]
  have eq: "unmap_page_ref vm va m = unmap_page vm va m"
    by (simp add: unmap_page_ref_alt drop_ref_foreign [OF f])
  show "pt_frame R m (unmap_page_ref vm va m)" "repaged R m vm va None (unmap_page_ref vm va m)" using um eq by simp_all
  show "ref_ok E R G (unmap_page_ref vm va m)"
    unfolding eq
  proof (rule ref_ok_same [OF ok pt_frameD(1) [OF um(1)] pt_frame_config [OF um(1)] pt_frameD(3) [OF um(1)]])
    show "p \<in> free_pages (unmap_page vm va m) \<Longrightarrow> managed m p" for p
      using pt_frameD(5) [OF um(1)] ref_okD(4) [OF ok] by blast
    show "frame_of (unmap_page vm va m) g = frame_of m g \<and> (writable (unmap_page vm va m) g \<longrightarrow> writable m g)" if "g \<in> G" for g
    proof -
      have "pte_of (unmap_page vm va m) g = pte_of m g"
        using repaged_pte_of [OF um(2), of g] that vm(3) ref_okD(3) [OF ok] by auto
      then show ?thesis
        using config_cong(6) [OF pt_frame_config [OF um(1)]] by (simp add: frame_of_def writable_def)
    qed
  qed (rule pt_frame_data [OF um(1)])
qed

lemma unmap_page_ref_ok:
  assumes ok: "ref_ok E R G m" and va: "take_bit 12 va = 0" "va < KERNEL_BASE" and g0: "(vm, vpn va) \<in> G"
  shows "ref_ok E R (G - {(vm, vpn va)}) (unmap_page_ref vm va m)"
    and "g \<in> user_maps R \<Longrightarrow> pte_of (unmap_page_ref vm va m) g = (if g = (vm, vpn va) then None else pte_of m g)"
    and "same_config m (unmap_page_ref vm va m)"
    and "data_page R m p \<Longrightarrow> frame_of m (vm, vpn va) \<noteq> Some p \<Longrightarrow> data_page R (unmap_page_ref vm va m) p"
    and "frame_of m (vm, vpn va) = Some p \<Longrightarrow> (p \<in> free_pages (unmap_page_ref vm va m)) = (mappers G m p = {(vm, vpn va)})"
    and "data_page R m p \<Longrightarrow> mm_mem (unmap_page_ref vm va m) p = mm_mem m p"
proof -
  let ?g = "(vm, vpn va)" and ?m = "unmap_page_ref vm va m"
  have vm: "vm \<in> R" using g0 ref_okD(3) [OF ok] by (auto simp: user_maps_def)
  obtain p where p: "frame_of m ?g = Some p" "data_page R m p" using ref_okD(5) [OF ok g0] by blast
  have man: "managed m p" and cfg: "refs_config R m" using p ref_okD(2) [OF ok] by (simp_all add: data_page_def)
  define m1 where "m1 = drop_ref (V2P m (of_nat p)) m"
  have m': "?m = unmap_page vm va m1"
    by (simp add: unmap_page_ref_alt resolve_managed [OF va p(1)] m1_def)
  let ?n = "card (mappers G m p)"
  have gin: "?g \<in> mappers G m p" using g0 p by (simp add: mappers_def)
  then have npos: "0 < ?n" using mappers_card(2) [OF ok] card_gt_0_iff by blast
  have nmax: "?n < 2 ^ 32" using mappers_card(1) [OF ok, of p] cfg by (simp add: refs_config_def)
  have cnt: "unat (mm_refs m ! fidx m p) = ?n" by (rule count_unat [OF ok man])
  have idx: "ref_index m (V2P m (of_nat p)) = fidx m p" "fidx m p < length (mm_refs m)"
    using ref_index_managed [OF man cfg] man by (simp_all add: managed_def)
  have gt: "mm_refs m ! fidx m p > 0" using cnt npos by (metis less_not_refl2 unat_0 word_neq_0_conv)
  have one: "mm_refs m ! fidx m p - 1 = 0 \<longleftrightarrow> ?n = 1"
    using cnt by (metis diff_eq_eq add.left_neutral unat_1 word_unat_eq_iff)
  have m1: "m1 = (let m2 = m\<lparr>mm_refs := (mm_refs m)[fidx m p := mm_refs m ! fidx m p - 1]\<rparr> in if ?n = 1 then put_page p m2 else m2)"
    using idx gt one page_of_phys [OF man]
    by (simp add: m1_def drop_ref_def Let_def P2V_def)
  have tab1: "tab_at R m1 = tab_at R m" by (rule tab_at_mem) (simp_all add: m1_def)
  have fl1: "free_list_page (mm_ka m1) = (if ?n = 1 then p # free_list_page (mm_ka m) else free_list_page (mm_ka m))"
    using m1 by (simp add: Let_def)
  have refs1: "mm_refs m1 = (mm_refs m)[fidx m p := mm_refs m ! fidx m p - 1]" using m1 by (simp add: Let_def)
  have c1: "same_config m m1" by (simp add: m1_def drop_ref_config)
  note cong1 = config_cong [OF c1]
  have ok1: "mmu_ok R m1"
    using ref_okD(1) [OF ok] p(2) man unfolding mmu_ok_def tab1 fl1 data_page_def managed_def
    using c1 by (auto simp: same_config_def)
  note um = unmap_page_repages [OF ok1 vm va(2), folded m']
  show cfg': "same_config m ?m" using pt_frame_config [OF um(1)] c1 by (simp add: same_config_def)
  note cong = config_cong [OF cfg']
  show pte: "g \<in> user_maps R \<Longrightarrow> pte_of ?m g = (if g = ?g then None else pte_of m g)" for g
    using repaged_pte_of [OF um(2), of g] pte_mem_cong [of m1 m] by (simp add: pte_of_def m1_def)
  have fl: "free_list_page (mm_ka ?m) = free_list_page (mm_ka m1)" and tab: "tab_at R ?m = tab_at R m"
    and memq: "data_page R m q \<Longrightarrow> mm_mem ?m q = mm_mem m q" for q
  proof -
    show "free_list_page (mm_ka ?m) = free_list_page (mm_ka m1)"
      unfolding m' by (simp add: unmap_page_def split: option.split)
    show "tab_at R ?m = tab_at R m"
      unfolding m' using put_leaf_tab_at [OF ok1] tab1
      by (auto simp: unmap_page_def walk_tab_at [OF vm va(2)] split: option.split)
    show "data_page R m q \<Longrightarrow> mm_mem ?m q = mm_mem m q"
      unfolding m' using tab1
      by (auto simp: unmap_page_def walk_tab_at [OF vm va(2)] data_page_def put_word_def m1_def split: option.split)
  qed
  show "data_page R m q \<Longrightarrow> mm_mem ?m q = mm_mem m q" for q by (rule memq)
  show data: "data_page R m q \<Longrightarrow> frame_of m ?g \<noteq> Some q \<Longrightarrow> data_page R ?m q" for q
    using p by (auto simp: data_page_def cong tab fl fl1)
  have data2: "data_page R ?m p" if "?n \<noteq> 1"
    using p that by (simp add: data_page_def cong tab fl fl1)
  show "frame_of m ?g = Some q \<Longrightarrow> (q \<in> free_pages ?m) = (mappers G m q = {?g})" for q
    using p gin by (auto simp: fl fl1 data_page_def card_1_singleton_iff)
  have uG: "G \<subseteq> user_maps R" by (rule ref_okD(3) [OF ok])
  have frm: "frame_of ?m g = frame_of m g \<and> writable ?m g = writable m g" if "g \<in> G - {?g}" for g
    using pte [OF subsetD [OF uG], of g] that by (simp add: frame_of_def writable_def cong)
  have maps: "mappers (G - {?g}) ?m q = mappers G m q - {?g}" for q
    using frm by (auto simp: mappers_def)
  have cnt': "mm_refs ?m ! fidx m q = of_nat (card (mappers (G - {?g}) ?m q))" if "managed m q" for q
  proof -
    have r: "mm_refs ?m = mm_refs m1" using pt_frameD(3) [OF um(1)] .
    show ?thesis
    proof (cases "q = p")
      case True
      have "card (mappers G m p - {?g}) = ?n - 1" using gin mappers_card(2) [OF ok] by simp
      moreover have "(of_nat (?n - 1) :: u32) = of_nat ?n - 1" using npos by (simp add: of_nat_diff)
      ultimately show ?thesis using True ref_okD(6) [OF ok man] idx by (simp add: r refs1 maps)
    next
      case False
      then have "fidx m q \<noteq> fidx m p" using fidx_inj [OF that man cfg] by blast
      moreover have "?g \<notin> mappers G m q" using False p by (simp add: mappers_def)
      ultimately show ?thesis using ref_okD(6) [OF ok that] by (simp add: r refs1 maps)
    qed
  qed
  have all: "\<exists>q. frame_of ?m g = Some q \<and> data_page R ?m q" if g: "g \<in> G - {?g}" for g
  proof -
    obtain q where q: "frame_of m g = Some q" "data_page R m q" using ref_okD(5) [OF ok, of g] g by blast
    have "?n \<noteq> 1" if "q = p"
    proof -
      have "{g, ?g} \<subseteq> mappers G m p" "g \<noteq> ?g" using g q gin that by (auto simp: mappers_def)
      then have "2 \<le> ?n" using card_mono [OF mappers_card(2) [OF ok, of p]] by (metis card_2_iff)
      then show ?thesis by simp
    qed
    then show ?thesis using frm [OF g] q data data2 p by auto
  qed
  show "ref_ok E R (G - {?g}) ?m"
  proof (rule ref_okI, unfold cong)
    show "managed m q" if "q \<in> free_pages ?m" for q
      using that ref_okD(4) [OF ok] man by (auto simp: fl fl1 split: if_splits)
    show "snd g = snd g' \<and> (writable ?m g \<longrightarrow> g \<in> E \<or> g' = g)"
      if "g \<in> G - {?g}" "g' \<in> G - {?g}" "frame_of ?m g = frame_of ?m g'" for g g'
      using that ref_okD(7,8) [OF ok, of g g'] frm [of g] frm [of g'] by simp
    show "G - {?g} \<subseteq> user_maps R" using uG by blast
  qed (fact pt_frameD(1) [OF um(1)] cfg all cnt')+
qed

end
