(* ===== verification/Vm_Prims.thy ===== *)
theory Vm_Prims
  imports Vm_Refs
begin

text \<open>
  The steps the memory operations are made of, on the private mappings of all page directories: taking and
  returning a page, filling it, mapping a fresh page, sharing a page, changing the rights of a mapping, and
  releasing one.
\<close>

section \<open>The private mappings of a state\<close>

text \<open>Heap, mapping window and stacks; the windows of shared memory lie in between.\<close>

definition private_page :: "u64 \<Rightarrow> bool" where
  "private_page v \<longleftrightarrow> v < vpn DL_WINDOW_END \<or> vpn USER_STACK_BOTTOM \<le> v \<and> v < vpn USER_STACK_TOP"

definition counted :: "mm_state \<Rightarrow> mapping \<Rightarrow> bool" where
  "counted m g \<longleftrightarrow> (\<exists>d. pte_of m g = Some d \<and> ref_index m (push_bit PAGE_SHIFT (pte_get_address d)) < length (mm_refs m))"

definition priv :: "nat set \<Rightarrow> mm_state \<Rightarrow> mapping set" where
  "priv R m = {g \<in> user_maps R. private_page (snd g) \<and> counted m g}"

text \<open>Only heap pages are shared.\<close>

definition unshared :: "nat set \<Rightarrow> mm_state \<Rightarrow> bool" where
  "unshared R m \<longleftrightarrow> (\<forall>g \<in> priv R m. \<forall>g' \<in> priv R m.
     frame_of m g = frame_of m g' \<longrightarrow> vpn DL_WINDOW_BASE \<le> snd g \<longrightarrow> g' = g)"

text \<open>The mapping window and the stacks hold private mappings only; in the heap's range the identity mapped DMA
  window may lie.\<close>

definition tidy :: "nat set \<Rightarrow> mm_state \<Rightarrow> bool" where
  "tidy R m \<longleftrightarrow> (\<forall>g \<in> user_maps R. vpn DL_WINDOW_BASE \<le> snd g \<longrightarrow> private_page (snd g) \<longrightarrow> pte_of m g \<noteq> None \<longrightarrow> counted m g)"

definition mem_ok :: "nat set \<Rightarrow> mm_state \<Rightarrow> bool" where
  "mem_ok R m \<longleftrightarrow> ref_ok {} R (priv R m) m \<and> unshared R m \<and> tidy R m"

lemma mem_okD: "mem_ok R m \<Longrightarrow> ref_ok {} R (priv R m) m" "mem_ok R m \<Longrightarrow> unshared R m" "mem_ok R m \<Longrightarrow> tidy R m"
  by (simp_all add: mem_ok_def)

lemma unsharedD:
  "unshared R m \<Longrightarrow> g \<in> priv R m \<Longrightarrow> g' \<in> priv R m \<Longrightarrow> frame_of m g = frame_of m g' \<Longrightarrow> vpn DL_WINDOW_BASE \<le> snd g \<Longrightarrow> g' = g"
  by (simp add: unshared_def)

lemma unshared_sub:
  assumes "unshared R m" "priv R m' \<subseteq> priv R m" "\<And>g. g \<in> priv R m' \<Longrightarrow> frame_of m' g = frame_of m g"
  shows "unshared R m'"
  unfolding unshared_def
proof (intro ballI impI)
  fix g g' assume a: "g \<in> priv R m'" "g' \<in> priv R m'" "frame_of m' g = frame_of m' g'" "vpn DL_WINDOW_BASE \<le> snd g"
  then have "g \<in> priv R m" "g' \<in> priv R m" "frame_of m g = frame_of m g'" using assms(2,3) by auto
  then show "g' = g" using unsharedD [OF assms(1)] a(4) by blast
qed

text \<open>The contents of a page as a space sees it.\<close>

definition contents :: "mm_state \<Rightarrow> mapping \<Rightarrow> (nat \<Rightarrow> u64) option" where
  "contents m g = map_option (mm_mem m) (frame_of m g)"

text \<open>Only mappings of \<open>X\<close> differ between the states, and only private pages mapped in \<open>X\<close> have other contents.\<close>

definition steps_on :: "nat set \<Rightarrow> mapping set \<Rightarrow> mm_state \<Rightarrow> mm_state \<Rightarrow> bool" where
  "steps_on R X m m' \<longleftrightarrow> mem_ok R m' \<and> same_config m m'
     \<and> (\<forall>g \<in> user_maps R. g \<notin> X \<longrightarrow> pte_of m' g = pte_of m g)
     \<and> (\<forall>g \<in> priv R m. g \<notin> X \<longrightarrow> contents m' g = contents m g)"

lemma steps_on_refl: "mem_ok R m \<Longrightarrow> steps_on R X m m"
  by (simp add: steps_on_def same_config_def)

lemma steps_on_mono: "steps_on R X m m' \<Longrightarrow> X \<subseteq> Y \<Longrightarrow> steps_on R Y m m'"
  unfolding steps_on_def by blast

lemma steps_on_ok: "steps_on R X m m' \<Longrightarrow> mem_ok R m'"
  by (simp add: steps_on_def)

lemma counted_cong:
  assumes "same_config m m'" "pte_of m' g = pte_of m g"
  shows "counted m' g = counted m g"
  unfolding counted_def assms(2) config_cong [OF assms(1)] using assms(1) by (simp add: same_config_def)

lemma tidy_keep:
  assumes "tidy R m" "same_config m m'"
    and "\<And>g. g \<in> user_maps R \<Longrightarrow> vpn DL_WINDOW_BASE \<le> snd g \<Longrightarrow> pte_of m' g \<noteq> None \<Longrightarrow>
      pte_of m' g = pte_of m g \<or> counted m' g \<or> pte_of m g \<noteq> None \<and> counted m' g = counted m g"
  shows "tidy R m'"
  using assms(1) assms(3) counted_cong [OF assms(2)] unfolding tidy_def by metis

lemma steps_on_priv:
  assumes "steps_on R X m m'" "g \<notin> X"
  shows "g \<in> priv R m' \<longleftrightarrow> g \<in> priv R m"
proof (cases "g \<in> user_maps R")
  case True
  then have "pte_of m' g = pte_of m g" "same_config m m'" using assms by (simp_all add: steps_on_def)
  then have "counted m' g = counted m g" by (intro counted_cong)
  then show ?thesis by (simp add: priv_def)
qed (simp add: priv_def)

lemma steps_on_trans:
  assumes "steps_on R X m m1" "steps_on R X m1 m2"
  shows "steps_on R X m m2"
  using assms steps_on_priv [OF assms(1)] by (simp add: steps_on_def same_config_def)

lemma steps_on_frame:
  assumes "steps_on R X m m'" "g \<in> user_maps R" "g \<notin> X"
  shows "frame_of m' g = frame_of m g"
proof -
  have "pte_of m' g = pte_of m g" "same_config m m'" using assms by (simp_all add: steps_on_def)
  then show ?thesis by (simp add: frame_of_def config_cong)
qed

lemma steps_onI:
  assumes ok: "mem_ok R m" "mem_ok R m'" and cfg: "same_config m m'"
    and pte: "\<And>g. g \<in> user_maps R \<Longrightarrow> g \<notin> X \<Longrightarrow> pte_of m' g = pte_of m g"
    and mem: "\<And>g q. g \<in> priv R m \<Longrightarrow> g \<notin> X \<Longrightarrow> frame_of m g = Some q \<Longrightarrow> data_page R m q \<Longrightarrow> mm_mem m' q = mm_mem m q"
  shows "steps_on R X m m'"
proof -
  have "contents m' g = contents m g" if g: "g \<in> priv R m" "g \<notin> X" for g
  proof -
    obtain q where q: "frame_of m g = Some q" "data_page R m q" using ref_okD(5) [OF mem_okD(1) [OF ok(1)] g(1)] by blast
    have "frame_of m' g = Some q" using q(1) pte [of g] g by (simp add: frame_of_def config_cong [OF cfg] priv_def)
    then show ?thesis using q mem [OF g q] by (simp add: contents_def)
  qed
  then show ?thesis using ok cfg pte by (simp add: steps_on_def)
qed

text \<open>One mapping has changed.\<close>

lemma priv_change:
  assumes "same_config m m'" "\<And>g. g \<in> user_maps R \<Longrightarrow> pte_of m' g = (if g = g0 then d else pte_of m g)"
  shows "priv R m' = (if g0 \<in> user_maps R \<and> private_page (snd g0) \<and> counted m' g0 then insert g0 (priv R m) else priv R m - {g0})"
proof -
  have "counted m' g = counted m g" if "g \<in> user_maps R" "g \<noteq> g0" for g
    using assms that by (intro counted_cong) auto
  then show ?thesis by (auto simp: priv_def)
qed

lemma priv_same:
  assumes "same_config m m'" "\<And>g. g \<in> user_maps R \<Longrightarrow> pte_of m' g = pte_of m g"
  shows "priv R m' = priv R m"
  using counted_cong [OF assms(1)] assms(2) by (auto simp: priv_def)

lemma counted_frame:
  assumes "managed m p" "refs_config R m" "frame_of m g = Some p"
  shows "counted m g"
proof -
  obtain d where d: "pte_of m g = Some d" "table_of m d = p" using assms(3) by (auto simp: frame_of_def)
  have "of_nat p = P2V m (push_bit PAGE_SHIFT (pte_get_address d))" unfolding d(2) [symmetric] table_of_def by simp
  then have "push_bit PAGE_SHIFT (pte_get_address d) = V2P m (of_nat p)" by (simp add: P2V_def V2P_def)
  then show ?thesis using d assms ref_index_managed [OF assms(1,2)] by (auto simp: counted_def managed_def)
qed

section \<open>Contents of a page\<close>

definition write_page :: "nat \<Rightarrow> (nat \<Rightarrow> u64) \<Rightarrow> mm_state \<Rightarrow> mm_state" where
  "write_page p f m = m\<lparr>mm_mem := (mm_mem m)(p := f)\<rparr>"

lemma zero_write: "zero_page p m = write_page p (\<lambda>_. 0) m" and copy_write: "copy_page p q m = write_page p (mm_mem m q) m"
  by (simp_all add: zero_page_def copy_page_def write_page_def)

lemma write_page_frame [simp]:
  "mm_ka (write_page p f m) = mm_ka m" "mm_phy_offset (write_page p f m) = mm_phy_offset m"
  "mm_refs (write_page p f m) = mm_refs m" "mm_ref_base (write_page p f m) = mm_ref_base m"
  "V2P (write_page p f m) = V2P m" "P2V (write_page p f m) = P2V m"
  by (simp_all add: write_page_def V2P_def P2V_def fun_eq_iff)

definition fresh :: "nat set \<Rightarrow> mm_state \<Rightarrow> nat \<Rightarrow> bool" where
  "fresh R m p \<longleftrightarrow> data_page R m p \<and> mappers (priv R m) m p = {}"

lemma write_page_steps:
  assumes ok: "mem_ok R m" and p: "data_page R m p"
  shows "mappers (priv R m) m p \<subseteq> X \<Longrightarrow> steps_on R X m (write_page p f m)" "fresh R m q \<Longrightarrow> fresh R (write_page p f m) q"
    "data_page R m q \<Longrightarrow> data_page R (write_page p f m) q" "h \<in> user_maps R \<Longrightarrow> pte_of (write_page p f m) h = pte_of m h"
proof -
  let ?m = "write_page p f m"
  have cfg: "same_config m ?m" by (simp add: same_config_def)
  note cong = config_cong [OF cfg]
  have nt: "tab_at R m q \<noteq> Some p" for q using p unfolding data_page_def by blast
  have tab: "tab_at R ?m = tab_at R m"
    by (rule tab_at_cong) (use nt in \<open>auto simp: write_page_def\<close>)
  show pte: "pte_of ?m g = pte_of m g" if g: "g \<in> user_maps R" for g
  proof -
    have u: "fst g \<in> R" "push_bit 12 (snd g) < KERNEL_BASE" using g push_vpn by (auto simp: user_maps_def)
    show ?thesis
      unfolding pte_of_def
    proof (rule pte_cong [OF u])
      fix t assume "tab_at R m (leaf_node (fst g) (push_bit 12 (snd g))) = Some t"
      then have "t \<noteq> p" using nt by metis
      then show "mm_mem ?m t (PAGE_L3_INDEX (push_bit 12 (snd g))) = mm_mem m t (PAGE_L3_INDEX (push_bit 12 (snd g)))"
        by (simp add: write_page_def)
    qed (simp add: tab)
  qed
  have pr: "priv R ?m = priv R m" by (rule priv_same [OF cfg pte])
  have fw: "frame_of ?m g = frame_of m g" "writable ?m g = writable m g" if "g \<in> priv R m" for g
    using pte [of g] that by (simp_all add: frame_of_def writable_def cong priv_def)
  have dp: "data_page R ?m q = data_page R m q" for q by (simp add: data_page_def cong tab)
  show "data_page R m q \<Longrightarrow> data_page R ?m q" by (simp add: dp)
  have "mappers (priv R ?m) ?m q = mappers (priv R m) m q" for q
    unfolding pr using fw by (auto simp: mappers_def)
  then show "fresh R m q \<Longrightarrow> fresh R ?m q" by (simp add: fresh_def dp)
  have "ref_ok {} R (priv R m) ?m"
  proof (rule ref_ok_same [OF mem_okD(1) [OF ok] _ cfg])
    show "mmu_ok R ?m" using ref_okD(1) [OF mem_okD(1) [OF ok]] unfolding mmu_ok_def tab by simp
    show "q \<in> free_pages ?m \<Longrightarrow> managed m q" for q using ref_okD(4) [OF mem_okD(1) [OF ok]] by simp
  qed (use fw dp in simp_all)
  moreover have "unshared R ?m" by (rule unshared_sub [OF mem_okD(2) [OF ok]]) (use pr fw in simp_all)
  moreover have "tidy R ?m" by (rule tidy_keep [OF mem_okD(3) [OF ok] cfg]) (simp add: pte)
  ultimately have "mem_ok R ?m" unfolding mem_ok_def pr by simp
  then show "steps_on R X m ?m" if "mappers (priv R m) m p \<subseteq> X"
    by (rule steps_onI [OF ok _ cfg pte]) (use that in \<open>auto simp: mappers_def write_page_def\<close>)
qed

lemma write_fresh_steps: "mem_ok R m \<Longrightarrow> fresh R m p \<Longrightarrow> steps_on R {} m (write_page p f m)"
  by (rule write_page_steps) (simp_all add: fresh_def)

section \<open>Taking and returning a page\<close>

lemma ka_pte_of: "pte_of (m\<lparr>mm_ka := ka\<rparr>) g = pte_of m g"
  unfolding pte_of_def by (rule pte_mem_cong) simp_all

lemma ka_tab_at: "tab_at R (m\<lparr>mm_ka := ka\<rparr>) = tab_at R m"
  by (rule tab_at_mem) simp_all

lemma ka_ok:
  assumes ok: "mem_ok R m" and mm: "mmu_ok R (m\<lparr>mm_ka := ka\<rparr>)"
    and fr: "\<And>p. p \<in> set (free_list_page ka) \<Longrightarrow> managed m p"
    and nf: "\<And>p. p \<in> set (free_list_page ka) \<Longrightarrow> p \<notin> free_pages m \<Longrightarrow> mappers (priv R m) m p = {}"
  shows "steps_on R {} m (m\<lparr>mm_ka := ka\<rparr>)"
proof -
  let ?m = "m\<lparr>mm_ka := ka\<rparr>"
  have cfg: "same_config m ?m" by (simp add: same_config_def)
  note cong = config_cong [OF cfg]
  have pr: "priv R ?m = priv R m" by (rule priv_same [OF cfg]) (simp add: ka_pte_of)
  have fw: "frame_of ?m g = frame_of m g" for g by (simp add: frame_of_def ka_pte_of cong)
  have "ref_ok {} R (priv R m) ?m"
  proof (rule ref_ok_same [OF mem_okD(1) [OF ok] mm cfg])
    show "data_page R ?m p" if g: "g \<in> priv R m" "frame_of m g = Some p" "data_page R m p" for g p
    proof -
      have "p \<notin> set (free_list_page ka)" using nf [of p] g unfolding data_page_def mappers_def by blast
      then show ?thesis using g(3) by (simp add: data_page_def cong ka_tab_at)
    qed
  qed (use fr in \<open>simp_all add: frame_of_def writable_def ka_pte_of cong\<close>)
  moreover have "unshared R ?m" by (rule unshared_sub [OF mem_okD(2) [OF ok]]) (use pr fw in simp_all)
  moreover have "tidy R ?m" by (rule tidy_keep [OF mem_okD(3) [OF ok] cfg]) (simp add: ka_pte_of)
  ultimately have "mem_ok R ?m" unfolding mem_ok_def pr by simp
  then show ?thesis by (rule steps_onI [OF ok _ cfg]) (simp_all add: ka_pte_of)
qed

lemma fresh_ka:
  assumes "fresh R m p" "p \<notin> set (free_list_page ka)"
  shows "fresh R (m\<lparr>mm_ka := ka\<rparr>) p"
proof -
  have cfg: "same_config m (m\<lparr>mm_ka := ka\<rparr>)" by (simp add: same_config_def)
  have "priv R (m\<lparr>mm_ka := ka\<rparr>) = priv R m" by (rule priv_same [OF cfg]) (simp add: ka_pte_of)
  then show ?thesis
    using assms by (simp add: fresh_def data_page_def mappers_def frame_of_def ka_pte_of ka_tab_at config_cong [OF cfg])
qed

lemma get_page_steps:
  assumes ok: "mem_ok R m" and g: "get_page m = (Some p, m')"
  shows "steps_on R {} m m'" "fresh R m' p" "mm_mem m' = mm_mem m" "free_pages m = insert p (free_pages m')" "p \<notin> free_pages m'"
proof -
  note rok = mem_okD(1) [OF ok]
  obtain ps ka where fl: "free_list_page (mm_ka m) = p # ps" "free_list_page ka = ps" and m': "m' = m\<lparr>mm_ka := ka\<rparr>"
    using g by (cases rule: get_page_cases [of m]) auto
  have d: "p \<notin> set ps" "distinct ps" using mmu_okD(5) [OF ref_okD(1) [OF rok]] fl by auto
  have mm: "mmu_ok R m'"
    using ref_okD(1) [OF rok] fl d unfolding mmu_ok_def m' ka_tab_at by auto
  have man: "managed m p" using ref_okD(4) [OF rok, of p] fl by simp
  show st: "steps_on R {} m m'"
    unfolding m' by (rule ka_ok [OF ok mm [unfolded m']]) (use ref_okD(4) [OF rok] fl in auto)
  show "mm_mem m' = mm_mem m" "free_pages m = insert p (free_pages m')" "p \<notin> free_pages m'"
    using m' fl d by simp_all
  have cfg: "same_config m m'" by (simp add: m' same_config_def)
  have "priv R m' = priv R m" by (rule priv_same [OF cfg]) (simp add: m' ka_pte_of)
  moreover have "frame_of m' g \<noteq> Some p" if "g \<in> priv R m" for g
    using ref_okD(5) [OF rok that] fl by (auto simp: m' frame_of_def ka_pte_of config_cong [OF cfg [unfolded m']] data_page_def)
  ultimately have "mappers (priv R m') m' p = {}" unfolding mappers_def by simp
  moreover have "\<forall>q. tab_at R m' q \<noteq> Some p" using mmu_okD(2) [OF ref_okD(1) [OF rok], of _ p] fl unfolding m' ka_tab_at by auto
  moreover have "managed m' p" using man by (simp add: config_cong [OF cfg])
  ultimately show "fresh R m' p" using m' fl d by (simp add: fresh_def data_page_def)
qed

lemma get_page_None: "get_page m = (None, m') \<Longrightarrow> m' = m"
  by (cases rule: get_page_cases [of m]) auto

lemma put_page_steps:
  assumes ok: "mem_ok R m" and p: "fresh R m p"
  shows "steps_on R {} m (put_page p m)"
proof -
  note rok = mem_okD(1) [OF ok]
  have pm: "managed m p" "p \<notin> free_pages m" "\<And>q. tab_at R m q \<noteq> Some p" "mappers (priv R m) m p = {}"
    using p unfolding fresh_def data_page_def by blast+
  have "mmu_ok R (put_page p m)"
    using put_page_ok [OF ref_okD(1) [OF rok] pm(2,3)] pm(1) by (simp add: managed_def)
  then show ?thesis
    unfolding put_page_def
    by (rule ka_ok [OF ok]) (use pm ref_okD(4) [OF rok] in \<open>auto simp: kfree_page_def\<close>)
qed

section \<open>Mapping a fresh page\<close>

lemma fresh_mappable: "fresh R m p \<Longrightarrow> mappable {} R (priv R m) m p v perm"
  by (simp add: fresh_def mappable_def)

lemma map_new_steps:
  assumes ok: "mem_ok R m" and vm: "vm \<in> R" "va < KERNEL_BASE" and g0: "private_page (vpn va)" "(vm, vpn va) \<notin> priv R m"
    and p: "fresh R m p" and r: "map_page_ref vm va (V2P m (of_nat p)) perm attr m = (res, m')"
  shows "steps_on R {(vm, vpn va)} m m'" "res = 0 \<Longrightarrow> frame_of m' (vm, vpn va) = Some p \<and> (vm, vpn va) \<in> priv R m'"
    "res \<noteq> 0 \<Longrightarrow> steps_on R {} m m' \<and> fresh R m' p" "data_page R m q \<Longrightarrow> data_page R m' q"
proof -
  let ?g = "(vm, vpn va)"
  note rok = mem_okD(1) [OF ok]
  note mr = map_page_ref_ok [OF rok vm g0(2) fresh_mappable [OF p] r]
  have u: "?g \<in> user_maps R" by (rule user_map [OF vm])
  show "data_page R m q \<Longrightarrow> data_page R m' q" by (rule mr(3))
  have man: "managed m' p" using p config_cong(1) [OF mr(4)] by (simp add: fresh_def data_page_def)
  have cfg: "refs_config R m'" using ref_okD(2) [OF rok] config_cong(3) [OF mr(4)] by simp
  have frm: "frame_of m' g = frame_of m g" if "g \<in> priv R m" for g
  proof -
    have "g \<noteq> ?g" "g \<in> user_maps R" using that g0(2) by (auto simp: priv_def)
    then show ?thesis using mr(7) [of g] by (simp add: frame_of_def config_cong [OF mr(4)])
  qed
  have good: "mem_ok R m' \<and> frame_of m' ?g = Some p \<and> ?g \<in> priv R m'" if "res = 0"
  proof -
    have f: "frame_of m' ?g = Some p" using mr(1) [OF that] by blast
    then have "counted m' ?g" by (rule counted_frame [OF man cfg])
    then have pr: "priv R m' = insert ?g (priv R m)"
      using priv_change [OF mr(4), of R ?g "pte_of m' ?g"] mr(7) u g0(1) by auto
    have "unshared R m'"
      unfolding unshared_def pr
    proof (intro ballI impI)
      fix g g' assume a: "g \<in> insert ?g (priv R m)" "g' \<in> insert ?g (priv R m)" "frame_of m' g = frame_of m' g'" "vpn DL_WINDOW_BASE \<le> snd g"
      have "frame_of m h \<noteq> Some p" if "h \<in> priv R m" for h using p that unfolding fresh_def mappers_def by blast
      then have "h = ?g" if "h \<in> insert ?g (priv R m)" "frame_of m' h = Some p" for h using that frm [of h] by (metis insertE)
      then show "g' = g" using a f frm unsharedD [OF mem_okD(2) [OF ok], of g g'] by (metis insertE)
    qed
    moreover have "tidy R m'" by (rule tidy_keep [OF mem_okD(3) [OF ok] mr(4)]) (use mr(7) \<open>counted m' ?g\<close> in blast)
    ultimately show ?thesis using mr(1) [OF that] f pr by (simp add: mem_ok_def)
  qed
  then show "res = 0 \<Longrightarrow> frame_of m' ?g = Some p \<and> ?g \<in> priv R m'" by blast
  have bad: "steps_on R {} m m' \<and> fresh R m' p" if "res \<noteq> 0"
  proof -
    have pte: "g \<in> user_maps R \<Longrightarrow> pte_of m' g = pte_of m g" for g using mr(2) [OF that] same_spaces_pte_of by blast
    have pr: "priv R m' = priv R m" by (rule priv_same [OF mr(4) pte])
    have "unshared R m'" by (rule unshared_sub [OF mem_okD(2) [OF ok]]) (use pr frm in simp_all)
    moreover have "tidy R m'" by (rule tidy_keep [OF mem_okD(3) [OF ok] mr(4)]) (simp add: pte)
    ultimately have "mem_ok R m'" using mr(2) [OF that] pr by (simp add: mem_ok_def)
    moreover have "mappers (priv R m') m' p = {}" using p frm unfolding pr fresh_def mappers_def by auto
    moreover have "steps_on R {} m m'"
      by (rule steps_onI [OF ok \<open>mem_ok R m'\<close> mr(4) pte mr(6)])
    ultimately show ?thesis using mr(3) p by (simp add: fresh_def)
  qed
  then show "res \<noteq> 0 \<Longrightarrow> steps_on R {} m m' \<and> fresh R m' p" .
  show "steps_on R {?g} m m'"
  proof (cases "res = 0")
    case True
    then have "mem_ok R m'" using good by blast
    then show ?thesis by (rule steps_onI [OF ok _ mr(4)]) (use mr(6,7) in simp_all)
  next
    case False
    then show ?thesis using bad steps_on_mono by blast
  qed
qed

section \<open>Releasing a page\<close>

lemma uncounted_foreign:
  assumes "take_bit 12 va = 0" "va < KERNEL_BASE" "refs_config R m" "\<not> counted m (vm, vpn va)"
  shows "length (mm_refs m) \<le> ref_index m (resolve_phy_address vm va m)"
  using assms by (cases "pte m vm va") (auto simp: resolve_aligned counted_def pte_vpn refs_config_def not_less)

lemma release_steps:
  assumes ok: "mem_ok R m" and vm: "vm \<in> R" "take_bit 12 va = 0" "va < KERNEL_BASE" "private_page (vpn va)"
  shows "steps_on R {(vm, vpn va)} m (unmap_page_ref vm va m)" "(vm, vpn va) \<notin> priv R (unmap_page_ref vm va m)"
    "pte_of (unmap_page_ref vm va m) (vm, vpn va) = None"
    "fresh R m q \<Longrightarrow> fresh R (unmap_page_ref vm va m) q"
    "data_page R m q \<Longrightarrow> mm_mem (unmap_page_ref vm va m) q = mm_mem m q"
proof -
  let ?g = "(vm, vpn va)" and ?m = "unmap_page_ref vm va m"
  note rok = mem_okD(1) [OF ok]
  have u: "?g \<in> user_maps R" by (rule user_map [OF vm(1,3)])
  have *: "ref_ok {} R (priv R m - {?g}) ?m \<and> same_config m ?m
      \<and> (\<forall>g \<in> user_maps R. pte_of ?m g = (if g = ?g then None else pte_of m g))
      \<and> (fresh R m q \<longrightarrow> data_page R ?m q) \<and> (data_page R m q \<longrightarrow> mm_mem ?m q = mm_mem m q)" for q
  proof (cases "?g \<in> priv R m")
    case True
    note um = unmap_page_ref_ok [OF rok vm(2,3) True]
    have "frame_of m ?g \<noteq> Some q" if "fresh R m q" using that True unfolding fresh_def mappers_def by blast
    then show ?thesis using um by (auto simp: fresh_def)
  next
    case False
    then have "\<not> counted m ?g" using u vm(4) by (simp add: priv_def)
    note um = unmap_page_ref_foreign [OF rok vm(1,3) False uncounted_foreign [OF vm(2,3) ref_okD(2) [OF rok] this]]
    have "data_page R m q \<Longrightarrow> mm_mem ?m q = mm_mem m q"
      using pt_frameD(6) [OF um(2), of q] unfolding data_page_def by blast
    then show ?thesis
      using um False repaged_pte_of [OF um(3)] pt_frame_config [OF um(2)] pt_frame_data [OF um(2)] by (auto simp: fresh_def)
  qed
  have cfg: "same_config m ?m" and pte: "\<And>g. g \<in> user_maps R \<Longrightarrow> pte_of ?m g = (if g = ?g then None else pte_of m g)"
    using * by auto
  have pr: "priv R ?m = priv R m - {?g}"
    using priv_change [OF cfg pte] pte [OF u] by (simp add: counted_def)
  have frm: "frame_of ?m g = frame_of m g" if "g \<in> priv R ?m" for g
  proof -
    have "g \<noteq> ?g" "g \<in> priv R m" using that by (auto simp: pr)
    moreover have "g \<in> user_maps R" using \<open>g \<in> priv R m\<close> by (simp add: priv_def)
    ultimately show ?thesis using pte [of g] by (simp add: frame_of_def config_cong [OF cfg])
  qed
  have "unshared R ?m" by (rule unshared_sub [OF mem_okD(2) [OF ok]]) (use pr frm in auto)
  moreover have "tidy R ?m" by (rule tidy_keep [OF mem_okD(3) [OF ok] cfg]) (simp add: pte split: if_splits)
  ultimately have "mem_ok R ?m" using * pr by (simp add: mem_ok_def)
  then show "steps_on R {?g} m ?m" by (rule steps_onI [OF ok _ cfg]) (use * pte in simp_all)
  show "?g \<notin> priv R ?m" by (simp add: pr)
  show "pte_of ?m ?g = None" using pte [OF u] by simp
  have "mappers (priv R ?m) ?m q \<subseteq> mappers (priv R m) m q" for q using frm pr by (auto simp: mappers_def)
  then show "fresh R m q \<Longrightarrow> fresh R ?m q" using * by (fastforce simp: fresh_def)
  show "data_page R m q \<Longrightarrow> mm_mem ?m q = mm_mem m q" using * by blast
qed

section \<open>Changing a descriptor\<close>

text \<open>A mapping keeps its page and gets another descriptor; it may become writable only when no other mapping
  shares the page.\<close>

lemma redesc_ok:
  assumes ok: "ref_ok E R G m" and f: "pt_frame R m m'" and rp: "repaged R m vm va (Some d) m'"
    and g0: "(vm, vpn va) \<in> G" "frame_of m (vm, vpn va) = Some (table_of m d)"
    and w: "S2AP d = AP_RW_RW \<Longrightarrow> writable m (vm, vpn va) \<or> mappers G m (table_of m d) = {(vm, vpn va)}"
  shows "ref_ok E R G m'" "S2AP d \<noteq> AP_RW_RW \<Longrightarrow> ref_ok (E - {(vm, vpn va)}) R G m'"
proof -
  let ?g = "(vm, vpn va)"
  note cong = config_cong [OF pt_frame_config [OF f]]
  have pte: "pte_of m' g = (if g = ?g then Some d else pte_of m g)" if "g \<in> G" for g
    using repaged_pte_of [OF rp, of g] that ref_okD(3) [OF ok] by blast
  have frm: "frame_of m' g = frame_of m g" if "g \<in> G" for g
    using pte [OF that] g0 by (auto simp: frame_of_def cong)
  have wr: "writable m' g = (if g = ?g then S2AP d = AP_RW_RW else writable m g)" if "g \<in> G" for g
    using pte [OF that] by (simp add: writable_def)
  have maps: "mappers G m' p = mappers G m p" for p using frm by (auto simp: mappers_def)
  have all: "\<exists>p. frame_of m' g = Some p \<and> data_page R m' p" if "g \<in> G" for g
    using ref_okD(5) [OF ok that] frm [OF that] pt_frame_data [OF f] by auto
  have cnt: "managed m p \<Longrightarrow> mm_refs m' ! fidx m p = of_nat (card (mappers G m' p))" for p
    using ref_okD(6) [OF ok] pt_frameD(3) [OF f] by (simp add: maps)
  have fr: "p \<in> free_pages m' \<Longrightarrow> managed m p" for p using pt_frameD(5) [OF f] ref_okD(4) [OF ok] by blast
  have same: "snd g = snd g' \<and> (writable m' g \<longrightarrow> g \<in> E - (if S2AP d = AP_RW_RW then {} else {?g}) \<or> g' = g)"
    if g: "g \<in> G" "g' \<in> G" and eq: "frame_of m' g = frame_of m' g'" for g g'
  proof -
    have eq': "frame_of m g = frame_of m g'" using eq frm g by simp
    have s: "snd g = snd g'" using ref_okD(7) [OF ok g eq'] .
    show ?thesis
    proof (cases "g = ?g")
      case True
      have "g' = ?g" if "mappers G m (table_of m d) = {?g}"
        using that g(2) eq' g0 True unfolding mappers_def by auto
      then show ?thesis using s wr [OF g(1)] True w ref_okD(8) [OF ok g eq'] by auto
    next
      case False
      then show ?thesis using s wr [OF g(1)] ref_okD(8) [OF ok g eq'] by auto
    qed
  qed
  have "ref_ok (E - (if S2AP d = AP_RW_RW then {} else {?g})) R G m'"
  proof (rule ref_okI, unfold cong)
    show "p \<in> free_pages m' \<Longrightarrow> managed m p" for p by (rule fr)
  qed (fact pt_frameD(1) [OF f] ref_okD(2) [OF ok] ref_okD(3) [OF ok] all cnt same)+
  then show "ref_ok E R G m'" "S2AP d \<noteq> AP_RW_RW \<Longrightarrow> ref_ok (E - {?g}) R G m'"
    by (auto intro: ref_ok_mono split: if_splits)
qed

text \<open>A mapping outside \<open>G\<close> changes.\<close>

lemma redesc_foreign:
  assumes ok: "ref_ok E R G m" and f: "pt_frame R m m'" and rp: "repaged R m vm va d m'" and g0: "(vm, vpn va) \<notin> G"
  shows "ref_ok E R G m'"
proof (rule ref_ok_same [OF ok pt_frameD(1) [OF f] pt_frame_config [OF f] pt_frameD(3) [OF f]])
  show "p \<in> free_pages m' \<Longrightarrow> managed m p" for p using pt_frameD(5) [OF f] ref_okD(4) [OF ok] by blast
  show "frame_of m' g = frame_of m g \<and> (writable m' g \<longrightarrow> writable m g)" if "g \<in> G" for g
  proof -
    have "pte_of m' g = pte_of m g" using repaged_pte_of [OF rp, of g] that g0 ref_okD(3) [OF ok] by auto
    then show ?thesis using config_cong(6) [OF pt_frame_config [OF f]] by (simp add: frame_of_def writable_def)
  qed
qed (rule pt_frame_data [OF f])

text \<open>The same on the private mappings of the state.\<close>

lemma redesc_steps:
  assumes ok: "mem_ok R m" and f: "pt_frame R m m'" and rp: "repaged R m vm va (Some d) m'"
    and vm: "vm \<in> R" "va < KERNEL_BASE" and d0: "pte_of m (vm, vpn va) = Some d0" "pte_get_address d = pte_get_address d0"
    and w: "S2AP d = AP_RW_RW \<Longrightarrow> S2AP d0 = AP_RW_RW \<or> vpn DL_WINDOW_BASE \<le> vpn va"
  shows "steps_on R {(vm, vpn va)} m m'" "priv R m' = priv R m" "g \<in> user_maps R \<Longrightarrow> frame_of m' g = frame_of m g"
    "fresh R m q \<Longrightarrow> fresh R m' q"
proof -
  let ?g = "(vm, vpn va)"
  have u: "?g \<in> user_maps R" by (rule user_map [OF vm])
  have cfg: "same_config m m'" by (rule pt_frame_config [OF f])
  note cong = config_cong [OF cfg]
  have pte: "pte_of m' g = (if g = ?g then Some d else pte_of m g)" if "g \<in> user_maps R" for g
    using repaged_pte_of [OF rp that] .
  have t: "table_of m d = table_of m d0" using d0(2) by (simp add: table_of_def)
  show frm: "frame_of m' g = frame_of m g" if "g \<in> user_maps R" for g
    using pte [OF that] d0(1) by (simp add: frame_of_def cong t)
  have cnt: "counted m' g = counted m g" if "g \<in> user_maps R" for g
    using pte [OF that] d0 cfg by (auto simp: counted_def cong same_config_def)
  then show pr: "priv R m' = priv R m" by (auto simp: priv_def)
  have "ref_ok {} R (priv R m) m'"
  proof (cases "?g \<in> priv R m")
    case True
    show ?thesis
    proof (rule redesc_ok(1) [OF mem_okD(1) [OF ok] f rp True])
      show "frame_of m ?g = Some (table_of m d)" using d0(1) t by (simp add: frame_of_def)
      assume "S2AP d = AP_RW_RW"
      then consider "writable m ?g" | "vpn DL_WINDOW_BASE \<le> vpn va" using w d0(1) by (auto simp: writable_def)
      then show "writable m ?g \<or> mappers (priv R m) m (table_of m d) = {?g}"
      proof cases
        case 2
        have "g = ?g" if "g \<in> mappers (priv R m) m (table_of m d)" for g
          using that unsharedD [OF mem_okD(2) [OF ok] True, of g] 2 d0(1) t by (auto simp: mappers_def frame_of_def)
        then show ?thesis using True d0(1) t by (auto simp: mappers_def frame_of_def)
      qed simp
    qed
  next
    case False
    then show ?thesis by (rule redesc_foreign [OF mem_okD(1) [OF ok] f rp])
  qed
  moreover have "unshared R m'"
    by (rule unshared_sub [OF mem_okD(2) [OF ok]]) (use pr frm in \<open>auto simp: priv_def\<close>)
  moreover have "tidy R m'" by (rule tidy_keep [OF mem_okD(3) [OF ok] cfg]) (use pte cnt d0(1) in auto)
  ultimately have "mem_ok R m'" using pr by (simp add: mem_ok_def)
  then show "steps_on R {?g} m m'" by (rule steps_onI [OF ok _ cfg]) (use pte pt_frame_mem [OF f] in simp_all)
  have "mappers (priv R m') m' p = mappers (priv R m) m p" for p
    unfolding pr using frm by (auto simp: mappers_def priv_def)
  then show "fresh R m q \<Longrightarrow> fresh R m' q" using pt_frame_data [OF f] by (simp add: fresh_def)
qed

lemma mark_noexec_repages:
  assumes ok: "mmu_ok R m" and vm: "vm \<in> R" "va < KERNEL_BASE" and d: "pte m vm va = Some d"
  shows "pt_frame R m (arch_mark_pte_noexec vm va m)" "repaged R m vm va (Some (set_UXN 1 d)) (arch_mark_pte_noexec vm va m)"
proof -
  obtain t where t: "tab_at R m (leaf_node vm va) = Some t" "mm_mem m t (PAGE_L3_INDEX va) = d" "EntryType d \<noteq> 0"
    using d unfolding pte_tab_at [OF vm] by (auto simp: bind_eq_Some_conv Let_def split: if_splits)
  have eq: "arch_mark_pte_noexec vm va m = put_word t (PAGE_L3_INDEX va) (set_UXN 1 d) m"
    using t by (simp add: arch_mark_pte_noexec_def get_page_table_entry_def walk_tab_at [OF vm])
  show "pt_frame R m (arch_mark_pte_noexec vm va m)" unfolding eq by (rule put_leaf_frame [OF ok t(1)])
  show "repaged R m vm va (Some (set_UXN 1 d)) (arch_mark_pte_noexec vm va m)"
    unfolding eq repaged_def using t(3) by (auto simp: put_leaf_pte [OF ok vm t(1)] field_simps)
qed

lemma mark_noexec_steps:
  assumes ok: "mem_ok R m" and vm: "vm \<in> R" "va < KERNEL_BASE"
  shows "steps_on R {(vm, vpn va)} m (arch_mark_pte_noexec vm va m)" "priv R (arch_mark_pte_noexec vm va m) = priv R m"
    "g \<in> user_maps R \<Longrightarrow> frame_of (arch_mark_pte_noexec vm va m) g = frame_of m g"
    "fresh R m q \<Longrightarrow> fresh R (arch_mark_pte_noexec vm va m) q"
proof -
  let ?m = "arch_mark_pte_noexec vm va m"
  have "steps_on R {(vm, vpn va)} m ?m \<and> priv R ?m = priv R m \<and> (g \<in> user_maps R \<longrightarrow> frame_of ?m g = frame_of m g)
      \<and> (fresh R m q \<longrightarrow> fresh R ?m q)" for g q
  proof (cases "pte m vm va")
    case None
    then have "?m = m" by (auto simp: pte_def arch_mark_pte_noexec_def split: option.splits)
    then show ?thesis using steps_on_refl [OF ok] by simp
  next
    case (Some d)
    note mn = mark_noexec_repages [OF ref_okD(1) [OF mem_okD(1) [OF ok]] vm Some]
    have a: "pte_of m (vm, vpn va) = Some d" "pte_get_address (set_UXN 1 d) = pte_get_address d"
      using Some by (simp_all add: pte_vpn [OF vm(2)] field_defs field_simps)
    show ?thesis using redesc_steps [OF ok mn vm a] by (simp add: field_simps)
  qed
  then show "steps_on R {(vm, vpn va)} m ?m" "priv R ?m = priv R m" "g \<in> user_maps R \<Longrightarrow> frame_of ?m g = frame_of m g"
    "fresh R m q \<Longrightarrow> fresh R ?m q" by blast+
qed

text \<open>Mapping a page again at its place, with other rights.\<close>

lemma map_page_again:
  assumes ok: "mmu_ok R m" and vm: "vm \<in> R" "va < KERNEL_BASE" and d0: "pte m vm va = Some d0"
  shows "fst (map_page vm va pa perm attr m) = 0"
proof -
  have "walk vm va m \<noteq> None" using d0 by (auto simp: pte_def get_page_table_entry_def split: option.splits)
  then obtain l2 where "sub_table vm (PAGE_L1_INDEX va) m = (Some l2, m)" "fst (sub_table l2 (PAGE_L2_INDEX va) m) \<noteq> None"
    by (auto simp: walk_def sub_table_def Let_def split: if_splits)
  then show ?thesis by (auto simp: map_page_def split: prod.split option.split)
qed

lemma remap_steps:
  assumes ok: "mem_ok R m" and vm: "vm \<in> R" "take_bit 12 va = 0" "va < KERNEL_BASE" and d0: "pte m vm va = Some d0"
    and w: "take_bit 2 perm = AP_RW_RW \<Longrightarrow> vpn DL_WINDOW_BASE \<le> vpn va"
    and m': "m' = snd (map_page vm va (resolve_phy_address vm va m) perm attr m)"
  shows "steps_on R {(vm, vpn va)} m m'" "priv R m' = priv R m" "g \<in> user_maps R \<Longrightarrow> frame_of m' g = frame_of m g"
    "fresh R m q \<Longrightarrow> fresh R m' q"
proof -
  let ?pa = "resolve_phy_address vm va m"
  note mok = ref_okD(1) [OF mem_okD(1) [OF ok]]
  have r: "map_page vm va ?pa perm attr m = (0, m')"
    using map_page_again [OF mok vm(1,3) d0, of ?pa perm attr] m' by (metis prod.collapse)
  note mp = map_page_repages [OF mok vm(1,3) r]
  obtain d1 where d1: "repaged R m vm va (Some (leaf_desc va ?pa perm attr d1)) m'" using mp(3) by auto
  have pa: "?pa = push_bit 12 (pte_get_address d0)" using d0 by (simp add: resolve_aligned [OF vm(2)] PAGE_SHIFT_def)
  have p36: "take_bit 36 (pte_get_address d0) = pte_get_address d0"
    by (simp add: field_defs get_field_def)
  have "drop_bit 12 (push_bit 12 (pte_get_address d0)) = pte_get_address d0"
  proof (rule bit_eqI)
    fix n :: nat
    have "bit (pte_get_address d0) n \<Longrightarrow> n < 36" using p36 by (metis bit_take_bit_iff)
    then show "bit (drop_bit 12 (push_bit 12 (pte_get_address d0))) n = bit (pte_get_address d0) n"
      by (auto simp: bit_simps)
  qed
  then have a: "pte_get_address (leaf_desc va ?pa perm attr d1) = pte_get_address d0"
    using p36 by (simp add: leaf_desc_def Let_def pa PAGE_SHIFT_def pte_set_address_field pte_get_address_field field_simps)
  have d: "pte_of m (vm, vpn va) = Some d0" using d0 by (simp add: pte_vpn [OF vm(3)])
  note rs = redesc_steps [OF ok mp(1) d1 vm(1,3) d a]
  show "steps_on R {(vm, vpn va)} m m'" "priv R m' = priv R m" "g \<in> user_maps R \<Longrightarrow> frame_of m' g = frame_of m g"
    "fresh R m q \<Longrightarrow> fresh R m' q"
    using rs w by simp_all
qed

end
