(* ===== verification/Vm_Share.thy ===== *)
theory Vm_Share
  imports Vm_Prims
begin

text \<open>
  Sharing a heap page between parent and child: the child's mapping adds a reference, and both mappings
  become read only. Between the two page table updates the parent's mapping is still writable although the page
  has another mapping; the exception set of \<open>ref_ok\<close> covers this one mapping.
\<close>

lemma phys_ok_desc: "phys_ok (push_bit PAGE_SHIFT (pte_get_address d))"
proof -
  have "take_bit 12 (push_bit 12 x) = 0" for x :: u64 by (simp add: take_bit_push_bit)
  moreover have "push_bit 12 (take_bit 36 (drop_bit 12 d)) < 2 ^ 48"
  proof -
    have "push_bit 12 (take_bit 36 (drop_bit 12 d)) = take_bit 48 (push_bit 12 (drop_bit 12 d))"
      by (simp add: push_bit_take_bit)
    moreover have "unat (take_bit 48 x) < 2 ^ 48" for x :: u64
      by (simp only: unsigned_take_bit_eq take_bit_nat_less_exp)
    ultimately show ?thesis by (simp only: word_less_nat_alt unat_exp)
  qed
  ultimately show ?thesis by (simp add: phys_ok_def PAGE_SHIFT_def field_defs get_field_def)
qed

lemma mapped_resolve:
  assumes "take_bit 12 va = 0" "va < KERNEL_BASE" "resolve_phy_address vm va m \<noteq> 0"
  obtains d where "pte_of m (vm, vpn va) = Some d" "resolve_phy_address vm va m = push_bit PAGE_SHIFT (pte_get_address d)"
proof (cases "pte m vm va")
  case None
  then show ?thesis using assms by (simp add: resolve_aligned)
next
  case (Some d)
  then show ?thesis using that [of d] assms by (simp add: resolve_aligned pte_vpn)
qed

lemma remap_again:
  assumes ok: "mmu_ok R m" and vm: "vm \<in> R" "va < KERNEL_BASE" and d: "pte_of m (vm, vpn va) = Some d"
    and pa: "phys_ok pa" "pa = push_bit PAGE_SHIFT (pte_get_address d)"
  obtains d' where "pt_frame R m (snd (map_page vm va pa perm attr m))"
    "repaged R m vm va (Some d') (snd (map_page vm va pa perm attr m))"
    "push_bit PAGE_SHIFT (pte_get_address d') = pa" "S2AP d' = take_bit 2 perm" "table_of m d' = table_of m d"
proof -
  have "pte m vm va = Some d" using d by (simp add: pte_vpn [OF vm(2)])
  from map_page_again [OF ok vm this, of pa perm attr]
  have r: "map_page vm va pa perm attr m = (0, snd (map_page vm va pa perm attr m))" by (metis prod.collapse)
  note mp = map_page_repages [OF ok vm r]
  obtain d1 where "repaged R m vm va (Some (leaf_desc va pa perm attr d1)) (snd (map_page vm va pa perm attr m))" using mp(3) by auto
  then show ?thesis
    using that [OF mp(1), of "leaf_desc va pa perm attr d1"] leaf_desc_address [OF pa(1)] pa(2) by (simp add: table_of_def)
qed

text \<open>The private mappings after two mappings have changed, one of which kept its page.\<close>

lemma tidy_far:
  assumes "tidy R m" "same_config m m'" "v < vpn DL_WINDOW_BASE"
    and "\<And>g. g \<in> user_maps R \<Longrightarrow> snd g \<noteq> v \<Longrightarrow> pte_of m' g = pte_of m g"
  shows "tidy R m'"
proof (rule tidy_keep [OF assms(1,2)])
  fix g assume "g \<in> user_maps R" "vpn DL_WINDOW_BASE \<le> snd g"
  then have "pte_of m' g = pte_of m g" using assms(3,4) by fastforce
  then show "pte_of m' g = pte_of m g \<or> counted m' g \<or> pte_of m g \<noteq> None \<and> counted m' g = counted m g" by simp
qed

lemma share_page_foreign:
  assumes ok: "mem_ok R m" and vm: "c \<in> R" "pv \<in> R" "c \<noteq> pv" and va: "take_bit 12 va = 0" "va < KERNEL_BASE" "private_page (vpn va)" "vpn va < vpn DL_WINDOW_BASE"
    and g: "(c, vpn va) \<notin> priv R m" "(pv, vpn va) \<notin> priv R m"
  shows "steps_on R {(c, vpn va), (pv, vpn va)} m (share_page c pv va m)" "priv R (share_page c pv va m) = priv R m"
proof -
  let ?phy = "resolve_phy_address pv va m" and ?c = "(c, vpn va)" and ?p = "(pv, vpn va)"
  note rok = mem_okD(1) [OF ok]
  have u: "?c \<in> user_maps R" "?p \<in> user_maps R" using user_map vm va by auto
  have "steps_on R {?c, ?p} m (share_page c pv va m) \<and> priv R (share_page c pv va m) = priv R m"
  proof (cases "?phy = 0")
    case True
    then show ?thesis using steps_on_refl [OF ok] by (simp add: share_page_def)
  next
    case False
    obtain d where d: "pte_of m ?p = Some d" "?phy = push_bit PAGE_SHIFT (pte_get_address d)"
      by (rule mapped_resolve [OF va(1,2) False])
    have pok: "phys_ok ?phy" using d phys_ok_desc by simp
    have "\<not> counted m ?p" using g(2) u va(3) by (simp add: priv_def)
    then have idx: "length (mm_refs m) \<le> ref_index m ?phy" using d by (auto simp: counted_def)
    obtain r m1 where s1: "map_page c va ?phy AP_RW_R PTE_ATTR_WRBACK m = (r, m1)" by (metis surj_pair)
    note mp = map_page_repages [OF ref_okD(1) [OF rok] vm(1) va(2) s1]
    have c1: "same_config m m1" by (rule pt_frame_config [OF mp(1)])
    have ref1: "snd (map_page_ref c va ?phy AP_RW_R PTE_ATTR_WRBACK m) = m1"
      using s1 idx c1 config_cong(7) [OF c1] by (simp add: map_page_ref_def Let_def same_config_def)
    have ok1: "ref_ok {} R (priv R m) m1"
      using mp redesc_foreign [OF rok mp(1) _ g(1)] ref_ok_same_spaces [OF rok mp(1)] by (cases "r = 0") auto
    have pte1: "pte_of m1 g = pte_of m g" if "g \<in> user_maps R" "g \<noteq> ?c" for g
      using mp(2,3) repaged_pte_of [of R m c va _ m1 g] same_spaces_pte_of [of R m m1 g] that by (cases "r = 0") auto
    have nc1: "\<not> counted m1 ?c"
    proof (cases "r = 0")
      case True
      then obtain d1 where "repaged R m c va (Some (leaf_desc va ?phy AP_RW_R PTE_ATTR_WRBACK d1)) m1" using mp(3) by auto
      from repaged_pte_of [OF this u(1)] show ?thesis
        using idx c1 config_cong(7) [OF c1] leaf_desc_address [OF pok] by (simp add: counted_def same_config_def)
    next
      case False
      then have "pte_of m1 ?c = pte_of m ?c" using mp(2) same_spaces_pte_of [of R m m1] u(1) by auto
      moreover have "\<not> counted m ?c" using g(1) u va(3) by (simp add: priv_def)
      ultimately show ?thesis using counted_cong [OF c1] by blast
    qed
    have d1: "pte_of m1 ?p = Some d" using pte1 [OF u(2)] vm(3) d by simp
    let ?m = "snd (map_page pv va ?phy AP_RW_R PTE_ATTR_WRBACK m1)"
    obtain d' where rm: "pt_frame R m1 ?m" "repaged R m1 pv va (Some d') ?m" "push_bit PAGE_SHIFT (pte_get_address d') = ?phy"
      using remap_again [OF ref_okD(1) [OF ok1] vm(2) va(2) d1 pok d(2)] by metis
    have c2: "same_config m ?m" using c1 pt_frame_config [OF rm(1)] by (simp add: same_config_def)
    have eq: "share_page c pv va m = ?m" using False ref1 by (simp add: share_page_def Let_def)
    have pte2: "pte_of ?m g = (if g = ?p then Some d' else pte_of m1 g)" if "g \<in> user_maps R" for g
      using repaged_pte_of [OF rm(2) that] .
    have nc2: "\<not> counted ?m ?p" "\<not> counted ?m ?c"
    proof -
      show "\<not> counted ?m ?p" using pte2 [OF u(2)] rm(3) idx c2 config_cong(7) [OF c2] by (simp add: counted_def same_config_def)
      show "\<not> counted ?m ?c" using counted_cong [OF pt_frame_config [OF rm(1)], of ?c] pte2 [OF u(1)] vm(3) nc1 by simp
    qed
    have cnt: "counted ?m g = counted m g" if "g \<in> user_maps R" "g \<noteq> ?c" "g \<noteq> ?p" for g
      by (rule counted_cong [OF c2]) (use that pte1 pte2 in simp)
    have pr: "priv R ?m = priv R m"
    proof -
      have "g \<in> priv R ?m \<longleftrightarrow> g \<in> priv R m" for g
        using nc2 g cnt [of g] by (cases "g = ?c \<or> g = ?p") (auto simp: priv_def)
      then show ?thesis by blast
    qed
    have frm: "frame_of ?m g = frame_of m g" if "g \<in> priv R m" for g
    proof -
      have "g \<noteq> ?c" "g \<noteq> ?p" "g \<in> user_maps R" using that g by (auto simp: priv_def)
      then show ?thesis using pte1 [of g] pte2 [of g] by (simp add: frame_of_def config_cong [OF c2])
    qed
    have "ref_ok {} R (priv R m) ?m" by (rule redesc_foreign [OF ok1 rm(1,2) g(2)])
    moreover have "unshared R ?m" by (rule unshared_sub [OF mem_okD(2) [OF ok]]) (use pr frm in auto)
    moreover have "tidy R ?m" by (rule tidy_far [OF mem_okD(3) [OF ok] c2 va(4)]) (use pte1 pte2 in fastforce)
    ultimately have "mem_ok R ?m" using pr by (simp add: mem_ok_def)
    moreover have "mm_mem ?m q = mm_mem m q" if "data_page R m q" for q
      using pt_frame_mem [OF rm(1) pt_frame_data [OF mp(1) that]] pt_frame_mem [OF mp(1) that] by simp
    ultimately have "steps_on R {?c, ?p} m ?m"
      by (intro steps_onI [OF ok _ c2]) (use pte1 pte2 in auto)
    then show ?thesis unfolding eq using pr by blast
  qed
  then show "steps_on R {?c, ?p} m (share_page c pv va m)" "priv R (share_page c pv va m) = priv R m" by blast+
qed

lemma share_page_shared:
  assumes ok: "mem_ok R m" and vm: "c \<in> R" "pv \<in> R" "c \<noteq> pv"
    and va: "take_bit 12 va = 0" "va < KERNEL_BASE" "private_page (vpn va)" "vpn va < vpn DL_WINDOW_BASE"
    and g: "(c, vpn va) \<notin> priv R m" "(pv, vpn va) \<in> priv R m"
  shows "steps_on R {(c, vpn va), (pv, vpn va)} m (share_page c pv va m)"
    "priv R m \<subseteq> priv R (share_page c pv va m)" "priv R (share_page c pv va m) \<subseteq> insert (c, vpn va) (priv R m)"
    "contents (share_page c pv va m) (pv, vpn va) = contents m (pv, vpn va)"
    "(c, vpn va) \<in> priv R (share_page c pv va m) \<Longrightarrow> contents (share_page c pv va m) (c, vpn va) = contents m (pv, vpn va)"
proof -
  let ?c = "(c, vpn va)" and ?p = "(pv, vpn va)"
  note rok = mem_okD(1) [OF ok]
  have u: "?c \<in> user_maps R" "?p \<in> user_maps R" using user_map vm va by auto
  obtain p where p: "frame_of m ?p = Some p" "data_page R m p" using ref_okD(5) [OF rok g(2)] by blast
  then obtain d where d: "pte_of m ?p = Some d" "table_of m d = p" by (auto simp: frame_of_def)
  have man: "managed m p" using p by (simp add: data_page_def)
  let ?phy = "V2P m (of_nat p)"
  have res: "resolve_phy_address pv va m = ?phy" by (rule resolve_managed [OF va(1,2) p(1)])
  have pok: "phys_ok ?phy" by (rule phys_managed [OF man])
  have nz: "?phy \<noteq> 0"
  proof
    assume "?phy = 0"
    then have "ref_index m 0 = fidx m p" using ref_index_managed [OF man ref_okD(2) [OF rok]] by simp
    then show False using man ref_okD(2) [OF rok] by (simp add: managed_def refs_config_def)
  qed
  have addr: "push_bit PAGE_SHIFT (pte_get_address d) = ?phy"
    using res d by (simp add: resolve_aligned [OF va(1)] pte_vpn [OF va(2), symmetric])
  have mapp: "mappable {?p} R (priv R m) m p (vpn va) AP_RW_R"
    unfolding mappable_def
  proof (intro conjI ballI impI)
    fix h assume h: "h \<in> mappers (priv R m) m p"
    then have h: "h \<in> priv R m" "frame_of m h = frame_of m ?p" using p by (auto simp: mappers_def)
    show "snd h = vpn va" using ref_okD(7) [OF rok h(1) g(2) h(2)] by simp
    show "h \<in> {?p}" if "writable m h" using ref_okD(8) [OF rok h(1) g(2) h(2) that] by simp
    show "take_bit 2 AP_RW_R \<noteq> AP_RW_RW" by (simp add: AP_RW_R_def AP_RW_RW_def take_bit_2_three)
  qed (rule p(2))
  obtain r m1 where s1: "map_page_ref c va ?phy AP_RW_R PTE_ATTR_WRBACK m = (r, m1)" by (metis surj_pair)
  note mr = map_page_ref_ok [OF ref_ok_mono [OF rok, of "{?p}", simplified] vm(1) va(2) g(1) mapp s1]
  define G where "G = (if r = 0 then insert ?c (priv R m) else priv R m)"
  have ok1: "ref_ok {?p} R G m1" using mr(1,2) by (cases "r = 0") (auto simp: G_def)
  have gp: "?p \<in> G" using g(2) by (simp add: G_def)
  have pte1: "pte_of m1 h = pte_of m h" if "h \<in> user_maps R" "h \<noteq> ?c" for h using mr(7) that by blast
  have d1: "pte_of m1 ?p = Some d" using pte1 [OF u(2)] vm(3) d by simp
  let ?m = "snd (map_page pv va ?phy AP_RW_R PTE_ATTR_WRBACK m1)"
  obtain d' where rm: "pt_frame R m1 ?m" "repaged R m1 pv va (Some d') ?m"
     "push_bit PAGE_SHIFT (pte_get_address d') = ?phy" "S2AP d' = take_bit 2 AP_RW_R" "table_of m1 d' = table_of m1 d"
    using remap_again [OF ref_okD(1) [OF ok1] vm(2) va(2) d1 pok addr [symmetric]] by metis
  have ro: "S2AP d' \<noteq> AP_RW_RW" using rm(4) by (simp add: AP_RW_R_def AP_RW_RW_def take_bit_2_three)
  have "frame_of m1 ?p = Some (table_of m1 d')" using d1 rm(5) by (simp add: frame_of_def)
  from redesc_ok(2) [OF ok1 rm(1,2) gp this _ ro] ro have ok2: "ref_ok {} R G ?m" by simp
  have c2: "same_config m ?m" using mr(4) pt_frame_config [OF rm(1)] by (simp add: same_config_def)
  have eq: "share_page c pv va m = ?m" using nz s1 by (simp add: share_page_def Let_def res)
  have pte2: "pte_of ?m h = (if h = ?p then Some d' else pte_of m1 h)" if "h \<in> user_maps R" for h
    using repaged_pte_of [OF rm(2) that] .
  have GR: "G \<subseteq> priv R ?m"
  proof
    fix h assume h: "h \<in> G"
    then obtain q where "frame_of ?m h = Some q" "data_page R ?m q" using ref_okD(5) [OF ok2] by blast
    then have "counted ?m h" using counted_frame [of ?m q R h] ref_okD(2) [OF ok2] by (simp add: data_page_def)
    moreover have "h \<in> user_maps R" using h ref_okD(3) [OF ok2] by blast
    moreover have "private_page (snd h)" using h va(3) by (auto simp: G_def priv_def split: if_splits)
    ultimately show "h \<in> priv R ?m" by (simp add: priv_def)
  qed
  have "priv R ?m \<subseteq> G"
  proof
    fix h assume h: "h \<in> priv R ?m"
    show "h \<in> G"
    proof (cases "h = ?p \<or> h = ?c \<and> r = 0")
      case True
      then show ?thesis using gp by (auto simp: G_def)
    next
      case False
      have "pte_of ?m h = pte_of m h"
        using False h mr(2) same_spaces_pte_of [of R m m1 h] pte1 [of h] pte2 [of h] by (cases "h = ?c") (auto simp: priv_def)
      then have "counted m h" using counted_cong [OF c2] h by (simp add: priv_def)
      then show ?thesis using h by (auto simp: priv_def G_def)
    qed
  qed
  with GR have pr: "priv R ?m = G" by blast
  have frm: "frame_of ?m h = frame_of m h" if "h \<in> priv R m" for h
  proof -
    have "h \<in> user_maps R" "h \<noteq> ?c" using that g by (auto simp: priv_def)
    then show ?thesis
      using pte1 [of h] pte2 [of h] rm(5) d config_cong(6) [OF mr(4)] by (simp add: frame_of_def config_cong [OF c2])
  qed
  have "unshared R ?m"
    unfolding unshared_def pr
  proof (intro ballI impI)
    fix h h' assume a: "h \<in> G" "h' \<in> G" "frame_of ?m h = frame_of ?m h'" "vpn DL_WINDOW_BASE \<le> snd h"
    have "snd h' = snd h" using ref_okD(7) [OF ok2 a(1,2,3)] by simp
    then have "h \<noteq> ?c" "h' \<noteq> ?c" using a(4) va(4) by auto
    then have "h \<in> priv R m" "h' \<in> priv R m" using a by (auto simp: G_def split: if_splits)
    then show "h' = h" using unsharedD [OF mem_okD(2) [OF ok]] frm a by metis
  qed
  moreover have "tidy R ?m" by (rule tidy_far [OF mem_okD(3) [OF ok] c2 va(4)]) (use pte1 pte2 in fastforce)
  ultimately have "mem_ok R ?m" using ok2 pr by (simp add: mem_ok_def)
  moreover have mem: "mm_mem ?m q = mm_mem m q" if "data_page R m q" for q
    using pt_frame_mem [OF rm(1) mr(3) [OF that]] mr(6) [OF that] by simp
  ultimately show "steps_on R {?c, ?p} m (share_page c pv va m)"
    unfolding eq by (intro steps_onI [OF ok _ c2]) (use pte1 pte2 in auto)
  show "contents (share_page c pv va m) ?p = contents m ?p"
    unfolding eq contents_def using frm [OF g(2)] p mem [OF p(2)] by simp
  show "contents (share_page c pv va m) ?c = contents m ?p" if "?c \<in> priv R (share_page c pv va m)"
  proof -
    have "r = 0" using that g(1) unfolding eq pr G_def by (auto split: if_splits)
    then have "frame_of m1 ?c = Some p" using mr(1) by blast
    then have "frame_of ?m ?c = Some p" using pte2 [OF u(1)] vm(3) config_cong(6) [OF pt_frame_config [OF rm(1)]] by (simp add: frame_of_def)
    then show ?thesis unfolding eq contents_def using p mem [OF p(2)] by simp
  qed
  show "priv R m \<subseteq> priv R (share_page c pv va m)" "priv R (share_page c pv va m) \<subseteq> insert ?c (priv R m)"
    unfolding eq pr G_def by auto
qed

end
