(* ===== verification/Vm_Heap.thy ===== *)
theory Vm_Heap
  imports Vm_Share
begin

text \<open>
  What the operations on heap and stacks do to the private mappings: they touch only mappings of their own
  space, keep the accounting of \<open>mem_ok\<close>, and keep the heap's mappings below its end.
\<close>

section \<open>Layout\<close>

lemma unat_vpn: "unat (vpn x) = unat x div 4096"
  by (simp add: vpn_def drop_bit_eq_div unat_div)

lemma aligned_dvd: "take_bit 12 (x :: u64) = 0 \<longleftrightarrow> unat x mod 4096 = 0"
proof
  assume "unat x mod 4096 = 0"
  then have "unat (take_bit 12 x) = 0" by (simp add: take_bit_eq_mod unat_mod)
  then show "take_bit 12 x = 0" by (simp add: unat_eq_zero)
qed (rule aligned_unat)

definition in_heap :: "u64 \<Rightarrow> bool" where "in_heap v \<longleftrightarrow> v < vpn DL_WINDOW_BASE"
definition in_dl :: "u64 \<Rightarrow> bool" where "in_dl v \<longleftrightarrow> vpn DL_WINDOW_BASE \<le> v \<and> v < vpn DL_WINDOW_END"
definition in_stack :: "u64 \<Rightarrow> bool" where "in_stack v \<longleftrightarrow> vpn USER_STACK_BOTTOM \<le> v \<and> v < vpn USER_STACK_TOP"

lemmas layout_defs = USER_STACK_TOP_def USER_STACK_BOTTOM_def SHM_BASE_def SHM_CONTIG_BASE_def KMALLOC_VM_BASE_def
  DL_WINDOW_SIZE_def DL_WINDOW_BASE_def DL_WINDOW_END_def MB_def KERNEL_BASE_def PAGE_SIZE_def

lemma layout_values:
  "DL_WINDOW_BASE = 0x3FB7FFF000" "DL_WINDOW_END = 0x3FC7FFF000" "USER_STACK_BOTTOM = 0x3FFBFFF000" "USER_STACK_TOP = 0x3FFFFFF000"
  by (simp_all add: layout_defs)

lemma layout_pages:
  "unat (vpn DL_WINDOW_BASE) = 0x3FB7FFF" "unat (vpn DL_WINDOW_END) = 0x3FC7FFF"
  "unat (vpn USER_STACK_BOTTOM) = 0x3FFBFFF" "unat (vpn USER_STACK_TOP) = 0x3FFFFFF"
  by (simp_all add: unat_vpn layout_values)

lemma private_regions: "private_page v \<longleftrightarrow> in_heap v \<or> in_dl v \<or> in_stack v"
  using layout_pages by (auto simp: private_page_def in_heap_def in_dl_def in_stack_def word_less_nat_alt word_le_nat_alt)

lemma below_kernel: "va < USER_STACK_TOP \<Longrightarrow> va < KERNEL_BASE"
  by (simp add: layout_values KERNEL_BASE_def word_less_nat_alt)

lemma heap_private:
  assumes "va < DL_WINDOW_BASE" "take_bit 12 va = 0"
  shows "private_page (vpn va)" "va < KERNEL_BASE" "in_heap (vpn va)"
proof -
  have "unat va < 0x3FB7FFF000" using assms by (simp add: layout_values word_less_nat_alt)
  then show "in_heap (vpn va)" "private_page (vpn va)"
    by (auto simp: private_regions in_heap_def word_less_nat_alt unat_vpn layout_values)
  show "va < KERNEL_BASE" using assms by (simp add: layout_values KERNEL_BASE_def word_less_nat_alt)
qed

section \<open>Spaces\<close>

text \<open>The slot of the mapping window a page belongs to.\<close>

definition slot_of :: "u64 \<Rightarrow> nat" where
  "slot_of v = (unat v - unat (vpn DL_WINDOW_BASE)) div DL_WINDOW_PAGES_PER_SLOT"

definition sp_ok :: "nat set \<Rightarrow> mm_state \<Rightarrow> vspace \<Rightarrow> bool" where
  "sp_ok R m s \<longleftrightarrow> vs_vm s \<in> R \<and> take_bit 12 (vs_heap_size s) = 0 \<and> vs_heap_size s \<le> DL_WINDOW_BASE
     \<and> length (vs_dl_used s) = DL_WINDOW_SLOTS
     \<and> (\<forall>v. (vs_vm s, v) \<in> priv R m \<longrightarrow> (in_heap v \<longrightarrow> v < vpn (vs_heap_size s)) \<and> (in_dl v \<longrightarrow> vs_dl_used s ! slot_of v))"

lemma sp_okD:
  assumes "sp_ok R m s"
  shows "vs_vm s \<in> R" "take_bit 12 (vs_heap_size s) = 0" "vs_heap_size s \<le> DL_WINDOW_BASE" "length (vs_dl_used s) = DL_WINDOW_SLOTS"
    "(vs_vm s, v) \<in> priv R m \<Longrightarrow> in_heap v \<Longrightarrow> v < vpn (vs_heap_size s)"
    "(vs_vm s, v) \<in> priv R m \<Longrightarrow> in_dl v \<Longrightarrow> vs_dl_used s ! slot_of v"
  using assms by (simp_all add: sp_ok_def)

abbreviation own :: "vspace \<Rightarrow> mapping set" where
  "own s \<equiv> {vs_vm s} \<times> UNIV"

text \<open>An operation of a space: it steps on its own mappings only.\<close>

definition sp_step :: "nat set \<Rightarrow> mm_state \<Rightarrow> vspace \<Rightarrow> mm_state \<Rightarrow> vspace \<Rightarrow> bool" where
  "sp_step R m s m' s' \<longleftrightarrow> steps_on R (own s) m m' \<and> sp_ok R m' s' \<and> vs_vm s' = vs_vm s"

lemma sp_step_refl: "mem_ok R m \<Longrightarrow> sp_ok R m s \<Longrightarrow> sp_step R m s m s"
  by (simp add: sp_step_def steps_on_refl)

lemma sp_step_trans: "sp_step R m s m1 s1 \<Longrightarrow> sp_step R m1 s1 m2 s2 \<Longrightarrow> sp_step R m s m2 s2"
  by (auto simp: sp_step_def intro: steps_on_trans)

lemma sp_stepD: "sp_step R m s m' s' \<Longrightarrow> mem_ok R m'" "sp_step R m s m' s' \<Longrightarrow> sp_ok R m' s'"
  by (simp_all add: sp_step_def steps_on_def)

lemma sp_ok_other:
  assumes "sp_ok R m t" "steps_on R X m m'" "\<And>v. (vs_vm t, v) \<notin> X"
  shows "sp_ok R m' t"
  using assms(1) steps_on_priv [OF assms(2,3)] by (simp add: sp_ok_def)

text \<open>Steps that add no mapping keep the invariant of the space.\<close>

lemma sp_step_priv:
  assumes "steps_on R (own s) m m'" "sp_ok R m s" "\<And>v. (vs_vm s, v) \<in> priv R m' \<Longrightarrow> (vs_vm s, v) \<in> priv R m"
  shows "sp_step R m s m' s"
  using assms by (simp add: sp_step_def sp_ok_def)

lemma steps_own: "steps_on R {} m m' \<Longrightarrow> steps_on R (own s) m m'" "steps_on R {(vs_vm s, v)} m m' \<Longrightarrow> steps_on R (own s) m m'"
  by (auto elim: steps_on_mono)

section \<open>Shrinking the heap\<close>

lemma heap_end:
  assumes "sp_ok R m s" "vs_heap_size s \<noteq> 0"
  shows "take_bit 12 (vs_heap_size s - PAGE) = 0" "vs_heap_size s - PAGE < DL_WINDOW_BASE"
    "unat (vs_heap_size s - PAGE) = unat (vs_heap_size s) - 4096" "unat (vpn (vs_heap_size s)) = Suc (unat (vpn (vs_heap_size s - PAGE)))"
proof -
  have a: "unat (vs_heap_size s) mod 4096 = 0" using sp_okD(2) [OF assms(1)] by (simp add: aligned_dvd)
  have p: "0 < unat (vs_heap_size s)" using assms(2) by (simp add: unat_gt_0)
  then have ge: "4096 \<le> unat (vs_heap_size s)" using a by (metis dvd_imp_le mod_0_imp_dvd)
  have lt: "unat (vs_heap_size s) \<le> 0x3FB7FFF000" using sp_okD(3) [OF assms(1)] by (simp add: layout_values word_le_nat_alt)
  show u: "unat (vs_heap_size s - PAGE) = unat (vs_heap_size s) - 4096"
    using ge by (simp add: PAGE_SIZE_def unat_sub_if')
  show "take_bit 12 (vs_heap_size s - PAGE) = 0" using u a ge by (simp add: aligned_dvd le_mod_geq)
  show "vs_heap_size s - PAGE < DL_WINDOW_BASE" using u ge lt by (simp add: word_less_nat_alt layout_values)
  show "unat (vpn (vs_heap_size s)) = Suc (unat (vpn (vs_heap_size s - PAGE)))"
    using ge u by (simp add: unat_vpn le_div_geq)
qed

lemma shrink_one:
  assumes ok: "mem_ok R m" "sp_ok R m s" and nz: "vs_heap_size s \<noteq> 0"
  shows "sp_step R m s (unmap_page_ref (vs_vm s) (vs_heap_size s - PAGE) m) (s\<lparr>vs_heap_size := vs_heap_size s - PAGE\<rparr>)"
proof -
  let ?va = "vs_heap_size s - PAGE" and ?m = "unmap_page_ref (vs_vm s) (vs_heap_size s - PAGE) m"
  note h = heap_end [OF ok(2) nz]
  note hp = heap_private [OF h(2,1)]
  note rs = release_steps [OF ok(1) sp_okD(1) [OF ok(2)] h(1) hp(2,1)]
  have "v < vpn ?va" if "(vs_vm s, v) \<in> priv R ?m" "in_heap v" for v
  proof -
    have "v \<noteq> vpn ?va" using rs(2) that(1) by auto
    then have "(vs_vm s, v) \<in> priv R m" using steps_on_priv [OF rs(1), of "(vs_vm s, v)"] that(1) by simp
    then have "unat v < unat (vpn (vs_heap_size s))" using sp_okD(5) [OF ok(2)] that(2) by (simp add: word_less_nat_alt)
    then show ?thesis using h(4) \<open>v \<noteq> vpn ?va\<close> by (simp add: word_less_nat_alt less_Suc_eq word_unat_eq_iff)
  qed
  moreover have "vs_dl_used s ! slot_of v" if "(vs_vm s, v) \<in> priv R ?m" "in_dl v" for v
  proof -
    have "v \<noteq> vpn ?va" using rs(2) that(1) by auto
    then show ?thesis using steps_on_priv [OF rs(1), of "(vs_vm s, v)"] that sp_okD(6) [OF ok(2)] by simp
  qed
  ultimately show ?thesis
    using steps_own(2) [OF rs(1)] sp_okD(1,4) [OF ok(2)] h(1,2) by (simp add: sp_step_def sp_ok_def)
qed

lemma shrink_loop_step:
  assumes "mem_ok R m" "sp_ok R m s" "vs_heap_size s \<noteq> 0 \<or> n = 0" "shrink_loop n s m = (s', m')"
  shows "sp_step R m s m' s'"
  using assms
proof (induction n arbitrary: s m)
  case 0
  then show ?case by (simp add: sp_step_refl)
next
  case (Suc n)
  let ?m = "unmap_page_ref (vs_vm s) (vs_heap_size s - PAGE) m" and ?s = "s\<lparr>vs_heap_size := vs_heap_size s - PAGE\<rparr>"
  have st: "sp_step R m s ?m ?s" using shrink_one Suc.prems by blast
  show ?case
  proof (cases "vs_heap_size s - PAGE = 0")
    case True
    then show ?thesis using st Suc.prems(4) by (simp add: Let_def)
  next
    case False
    then have "shrink_loop n ?s ?m = (s', m')" using Suc.prems(4) by (simp add: Let_def)
    from Suc.IH [OF sp_stepD [OF st] _ this] False st show ?thesis by (auto intro: sp_step_trans)
  qed
qed

lemma proc_shrink_mem_step:
  assumes "mem_ok R m" "sp_ok R m s" "vs_heap_size s \<noteq> 0 \<or> page_num \<le> 0" "proc_shrink_mem page_num s m = (s', m')"
  shows "sp_step R m s m' s'"
  using assms shrink_loop_step [OF assms(1,2), of "nat page_num"]
  by (auto simp: proc_shrink_mem_def sp_step_refl split: if_splits)

section \<open>Growing the heap\<close>

lemma new_page_step:
  assumes ok: "mem_ok R m" "vm \<in> R" and g: "get_page m = (Some p, m1)"
    and va: "take_bit 12 va = 0" "va < KERNEL_BASE" "private_page (vpn va)" "(vm, vpn va) \<notin> priv R m"
    and r: "map_page_ref (vm) va (V2P m1 (of_nat p)) perm attr (write_page p f m1) = (res, m')"
  shows "steps_on R {(vm, vpn va)} m m'" "res \<noteq> 0 \<Longrightarrow> steps_on R {} m m' \<and> fresh R m' p"
    "res = 0 \<Longrightarrow> frame_of m' (vm, vpn va) = Some p"
proof -
  note gp = get_page_steps [OF ok(1) g]
  have ok1: "mem_ok R m1" using gp(1) by (rule steps_on_ok)
  have dp: "data_page R m1 p" using gp(2) by (simp add: fresh_def)
  note wp = write_page_steps [OF ok1 dp]
  have st: "steps_on R {} m (write_page p f m1)" by (rule steps_on_trans [OF gp(1) write_fresh_steps [OF ok1 gp(2)]])
  have n: "(vm, vpn va) \<notin> priv R (write_page p f m1)" using steps_on_priv [OF st] va(4) by simp
  note mn = map_new_steps [OF steps_on_ok [OF st] ok(2) va(2,3) n wp(2) [OF gp(2)], of perm attr res m']
  have r': "map_page_ref (vm) va (V2P (write_page p f m1) (of_nat p)) perm attr (write_page p f m1) = (res, m')"
    using r by simp
  show "steps_on R {(vm, vpn va)} m m'" using mn(1) [OF r'] steps_on_mono [OF st] by (blast intro: steps_on_trans)
  show "res \<noteq> 0 \<Longrightarrow> steps_on R {} m m' \<and> fresh R m' p" using mn(3) [OF r'] st by (blast intro: steps_on_trans)
  show "res = 0 \<Longrightarrow> frame_of m' (vm, vpn va) = Some p" using mn(2) [OF r'] by blast
qed

lemma expand_one:
  assumes ok: "mem_ok R m" "sp_ok R m s" and g: "get_page m = (Some p, m1)"
    and room: "unat (vs_heap_size s) + 4096 \<le> unat DL_WINDOW_BASE"
    and m': "m' = snd (map_page_ref (vs_vm s) (vs_heap_size s) (V2P m1 (of_nat p)) AP_RW_RW PTE_ATTR_WRBACK (zero_page p m1))"
  shows "sp_step R m s m' (s\<lparr>vs_heap_size := vs_heap_size s + PAGE\<rparr>)" "unat (vs_heap_size s + PAGE) = unat (vs_heap_size s) + 4096"
proof -
  let ?va = "vs_heap_size s"
  have lt: "?va < DL_WINDOW_BASE" using room by (simp add: word_less_nat_alt)
  have al: "take_bit 12 ?va = 0" by (rule sp_okD(2) [OF ok(2)])
  note hp = heap_private [OF lt al]
  have n: "(vs_vm s, vpn ?va) \<notin> priv R m" using sp_okD(5) [OF ok(2), of "vpn ?va"] hp(3) by auto
  obtain res where r: "map_page_ref (vs_vm s) ?va (V2P m1 (of_nat p)) AP_RW_RW PTE_ATTR_WRBACK (write_page p (\<lambda>_. 0) m1) = (res, m')"
    using m' by (metis prod.collapse zero_write)
  note st = new_page_step(1) [OF ok(1) sp_okD(1) [OF ok(2)] g al hp(2,1) n r]
  show u: "unat (?va + PAGE) = unat ?va + 4096"
    using room by (simp add: PAGE_SIZE_def unat_word_ariths(1) layout_values)
  have al': "take_bit 12 (?va + PAGE) = 0" using al u by (simp add: aligned_dvd)
  have le: "?va + PAGE \<le> DL_WINDOW_BASE" using u room by (simp add: word_le_nat_alt)
  have pn: "unat (vpn (?va + PAGE)) = Suc (unat (vpn ?va))" using u by (simp add: unat_vpn)
  have "v < vpn (?va + PAGE)" if "(vs_vm s, v) \<in> priv R m'" "in_heap v" for v
  proof (cases "v = vpn ?va")
    case False
    then have "v < vpn ?va" using steps_on_priv [OF st, of "(vs_vm s, v)"] that sp_okD(5) [OF ok(2)] by simp
    then show ?thesis using pn by (simp add: word_less_nat_alt)
  qed (use pn in \<open>simp add: word_less_nat_alt\<close>)
  moreover have "vs_dl_used s ! slot_of v" if "(vs_vm s, v) \<in> priv R m'" "in_dl v" for v
  proof -
    have "v \<noteq> vpn ?va" using that(2) hp(3) by (auto simp: in_dl_def in_heap_def)
    then show ?thesis using steps_on_priv [OF st, of "(vs_vm s, v)"] that sp_okD(6) [OF ok(2)] by simp
  qed
  ultimately show "sp_step R m s m' (s\<lparr>vs_heap_size := ?va + PAGE\<rparr>)"
    using steps_own(2) [OF st] sp_okD(1,4) [OF ok(2)] al' le by (simp add: sp_step_def sp_ok_def)
qed

lemma expand_loop_step:
  assumes "mem_ok R m" "sp_ok R m s" "unat (vs_heap_size s) + 4096 * n \<le> unat DL_WINDOW_BASE"
    and "vs_heap_size s \<noteq> 0 \<or> i = 0" "expand_loop n i s m = (res, s', m')"
  shows "sp_step R m s m' s'"
  using assms
proof (induction n arbitrary: i s m)
  case 0
  then show ?case by (simp add: sp_step_refl)
next
  case (Suc n)
  show ?case
  proof (cases "get_page m")
    case (Pair q m1)
    show ?thesis
    proof (cases q)
      case None
      then have m1: "m1 = m" using get_page_None Pair by simp
      obtain s2 m2 where sh: "proc_shrink_mem (int i) s m = (s2, m2)" by (metis surj_pair)
      then show ?thesis
        using Suc.prems None Pair m1 proc_shrink_mem_step [OF Suc.prems(1,2) _ sh] by auto
    next
      case (Some p)
      let ?s = "s\<lparr>vs_heap_size := vs_heap_size s + PAGE\<rparr>"
      define m2 where "m2 = snd (map_page_ref (vs_vm s) (vs_heap_size s) (V2P m1 (of_nat p)) AP_RW_RW PTE_ATTR_WRBACK (zero_page p m1))"
      have room: "unat (vs_heap_size s) + 4096 \<le> unat DL_WINDOW_BASE" using Suc.prems(3) by simp
      note st = expand_one [OF Suc.prems(1,2) Pair [unfolded Some] room m2_def]
      have "unat (vs_heap_size s + PAGE) \<noteq> 0" using st(2) by simp
      then have nz: "vs_heap_size ?s \<noteq> 0" by (metis unat_0 vspace.select_convs(2) vspace.surjective vspace.update_convs(2))
      have ex: "expand_loop n (Suc i) ?s m2 = (res, s', m')"
        using Suc.prems(5) Pair Some by (simp add: Let_def m2_def zero_write)
      have "sp_step R m2 ?s m' s'"
        by (rule Suc.IH [OF sp_stepD [OF st(1)] _ _ ex]) (use st(2) Suc.prems(3) nz in auto)
      then show ?thesis using st(1) by (rule sp_step_trans [rotated])
    qed
  qed
qed

end
