(* ===== verification/Vm_Ops.thy ===== *)
theory Vm_Ops
  imports Vm_Heap
begin

text \<open>
  The heap calls of a process, its stacks and the repair of a page fault, as steps on the mappings of one space.
\<close>

section \<open>Heap calls\<close>

text \<open>The DMA window has been moved to the top of the memory, below the mapping window; then the heap stops there.\<close>

definition dma_relocated :: "u64 \<Rightarrow> bool" where
  "dma_relocated dma_base \<longleftrightarrow> 4 * 1024 * MB < dma_base \<and> dma_base \<le> DL_WINDOW_BASE"

lemma proc_expand_mem_step:
  assumes ok: "mem_ok R m" "sp_ok R m s" and dma: "dma_relocated dma_base" and n: "page_num < 2 ^ 31"
    and r: "proc_expand_mem dma_base page_num s m = (res, s', m')"
  shows "sp_step R m s m' s'"
proof (cases "page_num \<le> 0 \<or> vs_heap_size s + of_int page_num * PAGE > dma_base")
  case True
  then show ?thesis
    using r dma sp_step_refl [OF ok] by (auto simp: proc_expand_mem_def dma_relocated_def split: if_splits)
next
  case False
  have h: "unat (vs_heap_size s) \<le> 0x3FB7FFF000" using sp_okD(3) [OF ok(2)] by (simp add: layout_values word_le_nat_alt)
  obtain k where k: "page_num = int k" "k < 2 ^ 31" using False n by (metis linear nat_0_le nat_less_iff of_nat_numeral of_nat_power zero_le_numeral zero_le_power nat_mono order.trans nonneg_int_cases of_nat_less_imp_less)
  have "unat (of_int page_num * PAGE) = k * 4096"
    using k by (simp add: PAGE_SIZE_def unat_word_ariths(2) unat_of_nat)
  then have "unat (vs_heap_size s + of_int page_num * PAGE) = unat (vs_heap_size s) + 4096 * k"
    using h k(2) by (simp add: unat_word_ariths(1))
  moreover have "unat (vs_heap_size s + of_int page_num * PAGE) \<le> unat DL_WINDOW_BASE"
    using False dma by (simp add: dma_relocated_def word_le_nat_alt word_less_nat_alt)
  ultimately have "unat (vs_heap_size s) + 4096 * nat page_num \<le> unat DL_WINDOW_BASE" using k by simp
  moreover have "expand_loop (nat page_num) 0 s m = (res, s', m')" using r False by (auto simp: proc_expand_mem_def)
  ultimately show ?thesis using expand_loop_step [OF ok] by blast
qed

lemma sp_step_used: "sp_step R m s m' s' \<Longrightarrow> sp_step R m (s\<lparr>vs_heap_used := a\<rparr>) m' s'"
  "sp_step R m s m' s' \<Longrightarrow> sp_step R m s m' (s'\<lparr>vs_heap_used := a\<rparr>)"
  by (auto simp: sp_step_def sp_ok_def)

lemma sp_ok_used: "sp_ok R m s \<Longrightarrow> sp_ok R m (s\<lparr>vs_heap_used := a\<rparr>)"
  by (simp add: sp_ok_def)

lemma sint_u32: "sint (w :: u32) < 2 ^ 31"
  using sint_lt [of w] by simp

lemma proc_malloc_step:
  assumes ok: "mem_ok R m" "sp_ok R m s" and dma: "dma_relocated dma_base" and nz: "vs_heap_size s \<noteq> 0"
    and r: "proc_malloc dma_base sz s m = (res, s', m')"
  shows "sp_step R m s m' s'"
proof -
  let ?s = "s\<lparr>vs_heap_used := vs_heap_used s + sz\<rparr>"
  note ok1 = ok(1) sp_ok_used [OF ok(2), of "vs_heap_used s + sz"]
  have "sp_step R m ?s m' s'"
    using r sp_step_refl [OF ok1] sp_step_used(1) [OF sp_step_refl [OF ok]] proc_shrink_mem_step [OF ok1] proc_expand_mem_step [OF ok1 dma sint_u32] nz
    by (auto simp: proc_malloc_def Let_def split: if_splits prod.splits intro: sp_step_used(2))
  then show ?thesis using sp_step_used(1) [of R m ?s m' s' "vs_heap_used s"] by simp
qed

lemma proc_free_step:
  assumes "mem_ok R m" "sp_ok R m s" "vs_heap_size s \<noteq> 0" "proc_free s m = (s', m')"
  shows "sp_step R m s m' s'"
  using proc_shrink_mem_step [OF assms(1,2)] assms(3,4) by (simp add: proc_free_def)

lemma proc_free_heap_step:
  assumes "mem_ok R m" "sp_ok R m s" "proc_free_heap s m = (s', m')"
  shows "sp_step R m s m' s'"
proof -
  obtain s1 m1 where s1: "proc_shrink_mem (sint (ucast (vs_heap_size s div PAGE) :: u32)) s m = (s1, m1)" by (metis surj_pair)
  have "vs_heap_size s \<noteq> 0 \<or> sint (ucast (vs_heap_size s div PAGE) :: u32) \<le> 0" by auto
  from proc_shrink_mem_step [OF assms(1,2) this s1] show ?thesis
    using assms(3) s1 by (auto simp: proc_free_heap_def intro: sp_step_used(2))
qed

section \<open>Stacks\<close>

text \<open>The page addresses of a stack.\<close>

abbreviation stack_va :: "u64 \<Rightarrow> nat \<Rightarrow> u64" where
  "stack_va base i \<equiv> base + of_nat (PAGE_SIZE * i)"

definition stack_area :: "u64 \<Rightarrow> nat \<Rightarrow> bool" where
  "stack_area base pages \<longleftrightarrow> take_bit 12 base = 0 \<and> USER_STACK_BOTTOM \<le> base \<and> unat base + 4096 * pages \<le> unat USER_STACK_TOP"

abbreviation stack_maps :: "nat \<Rightarrow> mapping set" where
  "stack_maps vm \<equiv> {vm} \<times> Collect in_stack"

lemma stack_page:
  assumes "stack_area base pages" "i < pages"
  shows "take_bit 12 (stack_va base i) = 0" "stack_va base i < KERNEL_BASE" "in_stack (vpn (stack_va base i))"
    "private_page (vpn (stack_va base i))" "unat (vpn (stack_va base i)) = unat (vpn base) + i"
proof -
  have b: "unat base mod 4096 = 0" "0x3FFBFFF000 \<le> unat base" "unat base + 4096 * pages \<le> 0x3FFFFFF000"
    using assms(1) by (simp_all add: stack_area_def aligned_dvd layout_values word_le_nat_alt)
  have i: "4096 * i < 4096 * pages" using assms(2) by simp
  then have i': "4096 * i < 2 ^ 64" using b(3) by simp
  then have "unat (of_nat (PAGE_SIZE * i) :: u64) = 4096 * i" by (simp add: PAGE_SIZE_def unat_of_nat del: of_nat_mult)
  then have u: "unat (stack_va base i) = unat base + 4096 * i"
    using b i by (simp add: unat_word_ariths(1))
  show "take_bit 12 (stack_va base i) = 0" using u b by (simp add: aligned_dvd)
  show "stack_va base i < KERNEL_BASE" using u b i by (simp add: word_less_nat_alt KERNEL_BASE_def)
  have "unat base + 4096 * i < 0x3FFFFFF000" using b i by linarith
  moreover obtain q where "unat base = 4096 * q" using b(1) by (metis mod_0_imp_dvd dvdE)
  ultimately have "0x3FFBFFF \<le> i + unat base div 4096" "i + unat base div 4096 < 0x3FFFFFF" using b(2) by simp_all
  then show "in_stack (vpn (stack_va base i))"
    using u layout_pages by (simp add: in_stack_def word_less_nat_alt word_le_nat_alt unat_vpn)
  then show "private_page (vpn (stack_va base i))" by (simp add: private_regions)
  show "unat (vpn (stack_va base i)) = unat (vpn base) + i" using u by (simp add: unat_vpn)
qed

lemma fold_steps:
  assumes "mem_ok R m" "\<And>x m. x \<in> set xs \<Longrightarrow> mem_ok R m \<Longrightarrow> steps_on R X m (f x m)"
  shows "steps_on R X m (fold f xs m)"
  using assms
proof (induction xs arbitrary: m)
  case Nil
  then show ?case by (simp add: steps_on_refl)
next
  case (Cons x xs)
  have "steps_on R X m (f x m)" using Cons.prems by simp
  moreover have "steps_on R X (f x m) (fold f xs (f x m))"
    by (rule Cons.IH) (use Cons.prems steps_on_ok [OF calculation] in auto)
  ultimately show ?case by (auto intro: steps_on_trans)
qed

lemma stack_fill_steps:
  assumes area: "stack_area base pages" "i + n \<le> pages" and vm: "vm \<in> R" and ok: "mem_ok R m"
    and free: "\<And>j. i \<le> j \<Longrightarrow> j < i + n \<Longrightarrow> (vm, vpn (stack_va base j)) \<notin> priv R m"
    and r: "stack_fill n i vm base stacks m = (res, k, stacks', m')"
  shows "steps_on R (stack_maps vm) m m' \<and> k \<le> i + n"
  using area(2) ok free r
proof (induction n arbitrary: i stacks m)
  case 0
  then show ?case by (simp add: steps_on_refl)
next
  case (Suc n)
  let ?va = "stack_va base i"
  have i: "i < pages" using Suc.prems(1) by simp
  note sp = stack_page [OF area(1) i]
  have sub: "{(vm, vpn ?va)} \<subseteq> stack_maps vm" using sp(3) by simp
  show ?case
  proof (cases "get_page m")
    case (Pair q m1)
    show ?thesis
    proof (cases q)
      case None
      then show ?thesis using Suc.prems(2,4) Pair get_page_None [of m m1] by (simp add: steps_on_refl)
    next
      case (Some p)
      obtain r1 m2 where m2: "map_page_ref vm ?va (V2P m1 (of_nat p)) AP_RW_RW PTE_ATTR_WRBACK (zero_page p m1) = (r1, m2)"
        by (metis surj_pair)
      note np = new_page_step [OF Suc.prems(2) vm Pair [unfolded Some] sp(1,2,4) Suc.prems(3) m2 [unfolded zero_write]]
      show ?thesis
      proof (cases "r1 = 0")
        case False
        then have "steps_on R {} m m2" "fresh R m2 p" using np(2) by auto
        then have "steps_on R {} m (put_page p m2)"
          using put_page_steps [OF steps_on_ok [OF \<open>steps_on R {} m m2\<close>]] by (blast intro: steps_on_trans)
        then show ?thesis
          using Suc.prems(4) Pair Some m2 False by (auto simp: Let_def zero_write intro: steps_on_mono)
      next
        case True
        let ?m = "arch_mark_pte_noexec vm ?va m2"
        have st: "steps_on R {(vm, vpn ?va)} m m2" by (rule np(1)) simp_all
        note mk = mark_noexec_steps [OF steps_on_ok [OF st] vm sp(2)]
        have st2: "steps_on R {(vm, vpn ?va)} m ?m" by (rule steps_on_trans [OF st mk(1)])
        have fr: "(vm, vpn (stack_va base j)) \<notin> priv R ?m" if "Suc i \<le> j" "j < Suc i + n" for j
        proof -
          have "unat (vpn (stack_va base j)) \<noteq> unat (vpn ?va)"
            using stack_page(5) [OF area(1), of j] sp(5) that Suc.prems(1) by simp
          then have "(vm, vpn (stack_va base j)) \<notin> {(vm, vpn ?va)}" by auto
          from steps_on_priv [OF st2 this] show ?thesis using Suc.prems(3) [of j] that by simp
        qed
        have ex: "stack_fill n (Suc i) vm base (stacks[i := p]) ?m = (res, k, stacks', m')"
          using Suc.prems(4) Pair Some m2 True by (simp add: Let_def zero_write arch_mark_stack_pte_noexec_def)
        have "steps_on R (stack_maps vm) ?m m' \<and> k \<le> Suc i + n"
          by (rule Suc.IH [OF _ steps_on_ok [OF st2] fr ex]) (use Suc.prems(1) in simp)
        then show ?thesis using steps_on_mono [OF st2 sub] by (auto intro: steps_on_trans)
      qed
    qed
  qed
qed

lemma unmap_stack_page:
  assumes "stack_area base pages" "i < pages" "vm \<in> R" "mem_ok R m"
  shows "steps_on R (stack_maps vm) m (unmap_page_ref vm (stack_va base i) m)"
  using release_steps(1) [OF assms(4,3), of "stack_va base i"] stack_page [OF assms(1,2)]
  by (auto intro: steps_on_mono)

lemma map_stack_steps:
  assumes area: "stack_area base pages" and vm: "vm \<in> R" and ok: "mem_ok R m"
    and free: "\<And>j. j < pages \<Longrightarrow> (vm, vpn (stack_va base j)) \<notin> priv R m"
    and r: "map_stack vm base pages initial_pages m = (res, stacks, m')"
  shows "steps_on R (stack_maps vm) m m'"
proof -
  define n where "n = (if initial_pages > pages then pages else initial_pages)"
  obtain fok k st1 m1 where f: "stack_fill n (pages - n) vm base (replicate pages 0) m = (fok, k, st1, m1)" by (metis surj_pair)
  have n: "pages - n + n \<le> pages" by (simp add: n_def)
  have s: "steps_on R (stack_maps vm) m m1 \<and> k \<le> pages - n + n"
    by (rule stack_fill_steps [OF area n vm ok _ f]) (use free n in auto)
  define g where "g = (\<lambda>j (st, m). if st ! j \<noteq> (0 :: nat) then (st[j := 0], unmap_page_ref vm (stack_va base j) m) else (st, m))"
  have undo: "steps_on R (stack_maps vm) m (snd (fold g xs (st, m)))"
    if "mem_ok R m" "\<forall>j \<in> set xs. j < pages" for xs st m
    using that
  proof (induction xs arbitrary: st m)
    case Nil
    then show ?case by (simp add: steps_on_refl)
  next
    case (Cons j xs)
    show ?case
    proof (cases "st ! j \<noteq> 0")
      case True
      have u: "steps_on R (stack_maps vm) m (unmap_page_ref vm (stack_va base j) m)"
        by (rule unmap_stack_page [OF area _ vm Cons.prems(1)]) (use Cons.prems(2) in simp)
      show ?thesis
        using Cons.IH [OF steps_on_ok [OF u]] Cons.prems(2) u True by (simp add: g_def) (blast intro: steps_on_trans)
    next
      case False
      then show ?thesis using Cons.IH [OF Cons.prems(1)] Cons.prems(2) by (simp add: g_def)
    qed
  qed
  have "m' = (if fok then m1 else snd (fold g (rev [pages - n..<k]) (st1, m1)))"
    using r f by (auto simp: map_stack_def n_def [symmetric] g_def Let_def split: prod.splits if_splits)
  then show ?thesis
    using s undo [OF steps_on_ok [OF conjunct1 [OF s]], of "rev [pages - n..<k]" st1] n by (auto intro: steps_on_trans split: if_splits)
qed

lemma unmap_stack_steps:
  assumes "stack_area base pages" "vm \<in> R" "mem_ok R m"
  shows "steps_on R (stack_maps vm) m (snd (unmap_stack vm base pages m))"
  using fold_steps [OF assms(3), of "[0..<pages]" "stack_maps vm"] unmap_stack_page [OF assms(1) _ assms(2)] steps_on_refl
  by (simp add: unmap_stack_def Let_def)

lemma sp_step_stack:
  assumes "steps_on R (stack_maps (vs_vm s)) m m'" "sp_ok R m s"
  shows "sp_step R m s m' s"
proof -
  have "steps_on R (own s) m m'" by (rule steps_on_mono [OF assms(1)]) auto
  moreover have "(vs_vm s, v) \<in> priv R m" if "(vs_vm s, v) \<in> priv R m'" "in_heap v \<or> in_dl v" for v
  proof -
    have "\<not> in_stack v" using that(2) layout_pages by (auto simp: in_heap_def in_dl_def in_stack_def word_less_nat_alt word_le_nat_alt)
    then show ?thesis using steps_on_priv [OF assms(1), of "(vs_vm s, v)"] that(1) by simp
  qed
  ultimately show ?thesis using assms(2) unfolding sp_step_def sp_ok_def by blast
qed

end
