(* ===== verification/Vm_Fault.thy ===== *)
theory Vm_Fault
  imports Vm_Ops Kalloc_Props
begin

text \<open>
  Copy on write: the faulting page becomes a private writable copy, and nothing else changes.
\<close>

lemma map_page_ref_rights:
  assumes ok: "mmu_ok R m" and vm: "vm \<in> R" "va < KERNEL_BASE"
    and r: "map_page_ref vm va pa perm attr m = (0, m')"
  shows "\<exists>d. pte_of m' (vm, vpn va) = Some d \<and> S2AP d = take_bit 2 perm"
proof -
  obtain r1 m1 where s: "map_page vm va pa perm attr m = (r1, m1)" by (metis surj_pair)
  then have r1: "r1 = 0" using r by (auto simp: map_page_ref_def split: if_splits)
  obtain d0 where "repaged R m vm va (Some (leaf_desc va pa perm attr d0)) m1"
    using map_page_repages(3) [OF ok vm s r1] by blast
  from repaged_pte_of [OF this user_map [OF vm]]
  have "pte_of m1 (vm, vpn va) = Some (leaf_desc va pa perm attr d0)" by simp
  moreover have "pte_of m' (vm, vpn va) = pte_of m1 (vm, vpn va)"
    unfolding pte_of_def by (rule pte_mem_cong) (use r s r1 in \<open>auto simp: map_page_ref_def Let_def split: if_splits\<close>)
  ultimately show ?thesis by simp
qed

lemma mark_noexec_keeps:
  assumes ok: "mmu_ok R m" and vm: "vm \<in> R" "va < KERNEL_BASE"
  shows "data_page R m q \<Longrightarrow> mm_mem (arch_mark_pte_noexec vm va m) q = mm_mem m q"
    "g \<in> user_maps R \<Longrightarrow> writable (arch_mark_pte_noexec vm va m) g = writable m g"
proof -
  let ?m = "arch_mark_pte_noexec vm va m"
  have "(data_page R m q \<longrightarrow> mm_mem ?m q = mm_mem m q) \<and> (g \<in> user_maps R \<longrightarrow> writable ?m g = writable m g)"
  proof (cases "pte m vm va")
    case None
    then have "?m = m" by (auto simp: pte_def arch_mark_pte_noexec_def split: option.splits)
    then show ?thesis by simp
  next
    case (Some d)
    note mn = mark_noexec_repages [OF ok vm Some]
    have "pte_of m (vm, vpn va) = Some d" using Some by (simp add: pte_vpn [OF vm(2)])
    moreover have "S2AP (set_UXN 1 d) = S2AP d" by (simp add: field_simps)
    ultimately have "writable ?m g = writable m g" if "g \<in> user_maps R"
      using repaged_pte_of [OF mn(2) that] by (auto simp: writable_def)
    moreover have "mm_mem ?m q = mm_mem m q" if "data_page R m q"
      using pt_frameD(6) [OF mn(1)] that unfolding data_page_def by blast
    ultimately show ?thesis by blast
  qed
  then show "data_page R m q \<Longrightarrow> mm_mem ?m q = mm_mem m q" "g \<in> user_maps R \<Longrightarrow> writable ?m g = writable m g" by blast+
qed

text \<open>A fresh page is filled and mapped in place of what was there.\<close>

lemma install_page:
  assumes ok: "mem_ok R m" and vm: "vm \<in> R" "take_bit 12 va = 0" "va < KERNEL_BASE" "private_page (vpn va)"
    and p: "fresh R m p" and n: "(vm, vpn va) \<notin> priv R m"
    and r: "map_page_ref vm va (V2P m (of_nat p)) AP_RW_RW PTE_ATTR_WRBACK m = (res, m1)"
    and m': "m' = (if res \<noteq> 0 then put_page p m1 else if b then arch_mark_stack_pte_noexec vm va m1 else m1)"
  shows "steps_on R {(vm, vpn va)} m m'"
    "res = 0 \<Longrightarrow> frame_of m' (vm, vpn va) = Some p \<and> writable m' (vm, vpn va) \<and> (vm, vpn va) \<in> priv R m'"
    "res = 0 \<Longrightarrow> data_page R m q \<Longrightarrow> mm_mem m' q = mm_mem m q"
proof -
  let ?g = "(vm, vpn va)"
  have u: "?g \<in> user_maps R" by (rule user_map [OF vm(1,3)])
  note mn = map_new_steps [OF ok vm(1,3,4) n p r]
  note mr = map_page_ref_ok [OF mem_okD(1) [OF ok] vm(1,3) n fresh_mappable [OF p] r]
  have mok1: "mem_ok R m1" by (rule steps_on_ok [OF mn(1)])
  note mk = mark_noexec_steps [OF mok1 vm(1,3)] mark_noexec_keeps [OF ref_okD(1) [OF mem_okD(1) [OF mok1]] vm(1,3)]
  have "steps_on R {?g} m m1 \<and> (res \<noteq> 0 \<longrightarrow> steps_on R {} m (put_page p m1))"
    using mn(1,3) put_page_steps [OF mok1] by (blast intro: steps_on_trans)
  then show "steps_on R {?g} m m'"
    using m' mk(1) by (auto simp: arch_mark_stack_pte_noexec_def intro: steps_on_trans steps_on_mono)
  assume res: "res = 0"
  have "writable m1 ?g"
    using map_page_ref_rights [OF ref_okD(1) [OF mem_okD(1) [OF ok]] vm(1,3), of "V2P m (of_nat p)" AP_RW_RW PTE_ATTR_WRBACK m1] r res
    by (auto simp: writable_def AP_RW_RW_def take_bit_2_three)
  then show "frame_of m' ?g = Some p \<and> writable m' ?g \<and> ?g \<in> priv R m'"
    using m' res mn(2) mk(2,3,6) u by (auto simp: arch_mark_stack_pte_noexec_def)
  show "data_page R m q \<Longrightarrow> mm_mem m' q = mm_mem m q"
    using m' res mr(3,6) mk(5) by (auto simp: arch_mark_stack_pte_noexec_def)
qed

lemma resolve_priv:
  assumes "mem_ok R m" "(vm, vpn va) \<in> priv R m" "take_bit 12 va = 0" "va < KERNEL_BASE"
  shows "resolve_phy_address vm va m \<noteq> 0"
proof
  assume z: "resolve_phy_address vm va m = 0"
  obtain q where "frame_of m (vm, vpn va) = Some q" "data_page R m q" using ref_okD(5) [OF mem_okD(1) [OF assms(1)] assms(2)] by blast
  then show False
    using z resolve_managed [OF assms(3,4), of m vm q] ref_index_managed [of m q R] ref_okD(2) [OF mem_okD(1) [OF assms(1)]]
    by (auto simp: data_page_def managed_def refs_config_def)
qed

lemma copy_on_write_steps:
  assumes ok: "mem_ok R m" and vm: "vm \<in> R" "take_bit 12 va = 0" "va < KERNEL_BASE" "private_page (vpn va)"
    and al: "ALIGN_DOWN addr PAGE = va" and r: "copy_on_write vm addr m = (res, m')"
  shows "steps_on R {(vm, vpn va)} m m'"
    "res = 0 \<Longrightarrow> \<exists>p \<in> free_pages m. frame_of m' (vm, vpn va) = Some p
       \<and> mm_mem m' p = (if resolve_phy_address vm va m \<noteq> 0 then mm_mem m (unat (P2V m (resolve_phy_address vm va m))) else (\<lambda>_. 0))"
    "res = 0 \<Longrightarrow> writable m' (vm, vpn va) \<and> (vm, vpn va) \<in> priv R m'"
proof -
  let ?g = "(vm, vpn va)" and ?phy = "resolve_phy_address vm va m"
  have *: "steps_on R {?g} m m' \<and> (res = 0 \<longrightarrow> (\<exists>p \<in> free_pages m. frame_of m' ?g = Some p
      \<and> mm_mem m' p = (if ?phy \<noteq> 0 then mm_mem m (unat (P2V m ?phy)) else (\<lambda>_. 0)))
      \<and> writable m' ?g \<and> ?g \<in> priv R m')"
  proof (cases "get_page m")
    case (Pair o' m1)
    show ?thesis
    proof (cases o')
      case None
      then show ?thesis using r Pair al get_page_None [of m m1] ok by (simp add: copy_on_write_def steps_on_refl)
    next
      case (Some p)
      note gp = get_page_steps [OF ok Pair [unfolded Some]]
      have ok1: "mem_ok R m1" by (rule steps_on_ok [OF gp(1)])
      have cfg: "same_config m m1" using gp(1) by (simp add: steps_on_def)
      have dp: "data_page R m1 p" using gp(2) by (simp add: fresh_def)
      define f where "f = (if ?phy \<noteq> 0 then mm_mem m (unat (P2V m ?phy)) else (\<lambda>_. 0))"
      let ?w = "write_page p f m1"
      note wp = write_fresh_steps [OF ok1 gp(2), where f = f] write_page_steps(2,3) [OF ok1 dp, where f = f]
      have okw: "mem_ok R ?w" by (rule steps_on_ok [OF wp(1)])
      define m2 where "m2 = (if ?phy \<noteq> 0 then unmap_page_ref vm va ?w else ?w)"
      have rs: "steps_on R {?g} ?w m2 \<and> ?g \<notin> priv R m2 \<and> fresh R m2 p \<and> (\<forall>q. data_page R ?w q \<longrightarrow> mm_mem m2 q = mm_mem ?w q)"
      proof (cases "?phy = 0")
        case False
        then show ?thesis
          using release_steps [OF okw vm] wp(2) [OF gp(2)] by (simp add: m2_def)
      next
        case True
        have "?g \<notin> priv R m"
          using True resolve_priv [OF ok _ vm(2,3)] by blast
        then have "?g \<notin> priv R ?w" using steps_on_priv [OF gp(1)] steps_on_priv [OF wp(1)] by simp
        then show ?thesis using True wp(2) [OF gp(2)] okw by (simp add: m2_def steps_on_refl)
      qed
      have ok2: "mem_ok R m2" using rs steps_on_ok by blast
      have cfg2: "same_config m1 m2" using rs wp(1) by (simp add: steps_on_def same_config_def)
      obtain r3 m3 where m3: "map_page_ref vm va (V2P m2 (of_nat p)) AP_RW_RW PTE_ATTR_WRBACK m2 = (r3, m3)" by (metis surj_pair)
      define b where "b = (va \<ge> USER_STACK_BOTTOM \<and> va < USER_STACK_TOP)"
      have m': "m' = (if r3 \<noteq> 0 then put_page p m3 else if b then arch_mark_stack_pte_noexec vm va m3 else m3)" "res = 0 \<longleftrightarrow> r3 = 0"
        using r Pair Some m3 gp(3) config_cong(5) [OF cfg]
        by (auto simp: copy_on_write_def al Let_def m2_def f_def b_def zero_write copy_write split: if_splits)
      note ip = install_page [OF ok2 vm _ _ m3 m'(1)]
      have st: "steps_on R {?g} m m2"
        using rs steps_on_mono [OF steps_on_trans [OF gp(1) wp(1)], of "{?g}"] by (auto intro: steps_on_trans)
      have d2: "data_page R m2 p" using rs by (simp add: fresh_def)
      have content: "\<exists>q \<in> free_pages m. frame_of m' ?g = Some q \<and> mm_mem m' q = f" if "res = 0"
      proof
        show "p \<in> free_pages m" using gp(4) by simp
        have "mm_mem m' p = mm_mem m2 p" using ip(3) [OF _ _ _ d2] rs that m'(2) by blast
        also have "\<dots> = f" using rs wp(3) [OF dp] by (simp add: write_page_def)
        finally show "frame_of m' ?g = Some p \<and> mm_mem m' p = f" using ip(2) rs that m'(2) by blast
      qed
      show ?thesis
        using ip(1,2) rs m'(2) st content by (auto intro: steps_on_trans simp: f_def)
    qed
  qed
  then show "steps_on R {?g} m m'"
    "res = 0 \<Longrightarrow> \<exists>p \<in> free_pages m. frame_of m' ?g = Some p
       \<and> mm_mem m' p = (if ?phy \<noteq> 0 then mm_mem m (unat (P2V m ?phy)) else (\<lambda>_. 0))"
    "res = 0 \<Longrightarrow> writable m' ?g \<and> ?g \<in> priv R m'" by blast+
qed

section \<open>Faults of a process\<close>

lemma page_start:
  shows "take_bit 12 (ALIGN_DOWN a PAGE) = 0" "vpn (ALIGN_DOWN a PAGE) = vpn a" "ALIGN_DOWN a PAGE \<le> a"
proof -
  have u: "unat (ALIGN_DOWN a PAGE) = 4096 * (unat a div 4096)"
    using unat_ALIGN_DOWN [of a] minus_mod_eq_mult_div [of "unat a" 4096] by (simp add: PAGE_SIZE_def)
  show "take_bit 12 (ALIGN_DOWN a PAGE) = 0" unfolding aligned_dvd u by simp
  show "vpn (ALIGN_DOWN a PAGE) = vpn a" unfolding word_unat_eq_iff unat_vpn u by simp
  show "ALIGN_DOWN a PAGE \<le> a" unfolding word_le_nat_alt u by simp
qed

lemma regions_disjoint: "\<not> (in_heap v \<and> in_dl v)" "\<not> (in_heap v \<and> in_stack v)" "\<not> (in_dl v \<and> in_stack v)"
  using layout_pages by (auto simp: in_heap_def in_dl_def in_stack_def word_less_nat_alt word_le_nat_alt)

lemma stack_fault:
  assumes "addr \<ge> USER_STACK_BOTTOM \<and> addr < USER_STACK_TOP"
  shows "in_stack (vpn addr)"
proof -
  have "0x3FFBFFF000 \<le> unat addr" "unat addr < 0x3FFFFFF000" using assms by (simp_all add: layout_values word_less_nat_alt word_le_nat_alt)
  then show ?thesis by (simp add: in_stack_def word_less_nat_alt word_le_nat_alt unat_vpn layout_values) linarith
qed

lemma heap_fault:
  assumes ok: "sp_ok R m s" and a: "addr < vs_heap_size s"
  shows "vpn addr < vpn (vs_heap_size s) \<and> in_heap (vpn addr)"
proof -
  obtain q where q: "unat (vs_heap_size s) = 4096 * q" using sp_okD(2) [OF ok] unfolding aligned_dvd by (metis mod_0_imp_dvd dvdE)
  have "4096 * q \<le> 0x3FB7FFF000" using sp_okD(3) [OF ok] q by (simp add: layout_values word_le_nat_alt)
  moreover have "unat addr < 4096 * q" using a q by (simp add: word_less_nat_alt)
  ultimately show ?thesis
    unfolding in_heap_def word_less_nat_alt unat_vpn q by (simp add: layout_values) linarith
qed

lemma data_fault_step:
  assumes ok: "mem_ok R m" "sp_ok R m s" and r: "data_fault s addr m = (res, m')"
  shows "sp_step R m s m' s"
proof (cases "is_user_heap_or_stack_fault s addr")
  case False
  then show ?thesis using r sp_step_refl [OF ok] by (simp add: data_fault_def)
next
  case True
  let ?va = "ALIGN_DOWN addr PAGE"
  note vm = sp_okD(1) [OF ok(2)]
  have a: "vpn ?va < vpn (vs_heap_size s) \<and> in_heap (vpn ?va) \<or> in_stack (vpn ?va)"
    using True heap_fault [OF ok(2)] stack_fault unfolding is_user_heap_or_stack_fault_def page_start by blast
  then have pp: "private_page (vpn ?va)" by (auto simp: private_regions)
  have "addr < KERNEL_BASE"
    using True sp_okD(3) [OF ok(2)]
    by (auto simp: is_user_heap_or_stack_fault_def layout_values KERNEL_BASE_def word_less_nat_alt word_le_nat_alt)
  then have k: "?va < KERNEL_BASE" using page_start(3) [of addr] by (rule order.strict_trans1 [rotated])
  note cow = copy_on_write_steps(1) [OF ok(1) vm page_start(1) k pp refl]
  have st: "steps_on R {(vs_vm s, vpn ?va)} m m'" by (rule cow) (use r True in \<open>simp add: data_fault_def\<close>)
  have "(in_heap v \<longrightarrow> v < vpn (vs_heap_size s)) \<and> (in_dl v \<longrightarrow> vs_dl_used s ! slot_of v)"
    if v: "(vs_vm s, v) \<in> priv R m'" for v
  proof (cases "v = vpn ?va")
    case True
    then show ?thesis using a regions_disjoint by blast
  next
    case False
    then show ?thesis using steps_on_priv [OF st, of "(vs_vm s, v)"] v sp_okD(5,6) [OF ok(2)] by simp
  qed
  then show ?thesis
    using steps_own(2) [OF st] sp_okD(1-4) [OF ok(2)] by (simp add: sp_step_def sp_ok_def)
qed

end
