(* ===== verification/Vm_Window.thy ===== *)
theory Vm_Window
  imports Vm_Fault
begin

text \<open>
  The anonymous mapping window: slot search, allocation, protection, release and the copy for a child.
\<close>

section \<open>Addresses of the window\<close>

definition win_va :: "nat \<Rightarrow> u64" where
  "win_va k = DL_WINDOW_BASE + of_nat (k * PAGE_SIZE)"

lemma win_add [simp]: "win_va a + of_nat p * PAGE = win_va (a + p)"
  by (simp add: win_va_def algebra_simps)

lemma slots_values: "DL_WINDOW_PAGES_PER_SLOT = 16" "DL_WINDOW_SLOT = 65536" "DL_WINDOW_SLOTS = 4096"
  by (simp_all add: DL_WINDOW_PAGES_PER_SLOT_def DL_WINDOW_SLOT_def DL_WINDOW_SLOTS_def PAGE_SIZE_def)

lemma win_page:
  assumes "k < 65536"
  shows "take_bit 12 (win_va k) = 0" "win_va k < KERNEL_BASE" "in_dl (vpn (win_va k))" "private_page (vpn (win_va k))"
    "unat (win_va k) = unat DL_WINDOW_BASE + k * 4096" "unat (vpn (win_va k)) = 0x3FB7FFF + k" "slot_of (vpn (win_va k)) = k div 16"
proof -
  have "unat (of_nat (k * PAGE_SIZE) :: u64) = k * 4096" using assms by (simp add: PAGE_SIZE_def unat_of_nat del: of_nat_mult)
  then show u: "unat (win_va k) = unat DL_WINDOW_BASE + k * 4096"
    using assms by (simp add: unat_word_ariths(1) layout_values win_va_def)
  show "take_bit 12 (win_va k) = 0" using u by (simp add: aligned_dvd layout_values)
  show "win_va k < KERNEL_BASE" using u assms by (simp add: word_less_nat_alt KERNEL_BASE_def layout_values)
  show p: "unat (vpn (win_va k)) = 0x3FB7FFF + k" unfolding unat_vpn u by (simp add: layout_values)
  show "in_dl (vpn (win_va k))" unfolding in_dl_def word_less_nat_alt word_le_nat_alt p layout_pages using assms by simp
  then show "private_page (vpn (win_va k))" by (simp add: private_regions)
  show "slot_of (vpn (win_va k)) = k div 16" unfolding slot_of_def p layout_pages by (simp add: slots_values)
qed

lemma slot_win: "slot_addr i = win_va (i * 16)"
  by (simp add: slot_addr_def slots_values PAGE_SIZE_def win_va_def)

lemma in_dl_win:
  assumes "in_dl v"
  obtains k where "k < 65536" "v = vpn (win_va k)"
proof -
  define k where "k = unat v - 0x3FB7FFF"
  have b: "0x3FB7FFF \<le> unat v" "unat v < 0x3FC7FFF" using assms layout_pages by (simp_all add: in_dl_def word_less_nat_alt word_le_nat_alt)
  then have "k < 65536" by (simp add: k_def)
  moreover have "unat v = unat (vpn (win_va k))" using win_page(6) [OF calculation] b by (simp add: k_def)
  then have "v = vpn (win_va k)" by (rule word_unat_eq_iff [THEN iffD2])
  ultimately show ?thesis by (rule that)
qed

section \<open>The search for free slots\<close>

lemma free_run_le: "free_run s i n \<le> n"
  by (induction n arbitrary: i) (auto intro: le_SucI)

lemma free_run_spec: "j < free_run s i n \<Longrightarrow> \<not> dl_slot_used s (i + j)"
proof (induction n arbitrary: i j)
  case (Suc n)
  then show ?case by (cases j) (auto split: if_splits simp: Suc.IH [of _ "Suc i", simplified])
qed simp

lemma free_run_stop: "free_run s i n < n \<Longrightarrow> dl_slot_used s (i + free_run s i n)"
proof (induction n arbitrary: i)
  case (Suc n)
  then show ?case using Suc.IH [of "Suc i"] by auto
qed simp

text \<open>The slots from \<open>i\<close> can hold a run.\<close>

definition fits :: "vspace \<Rightarrow> nat \<Rightarrow> nat \<Rightarrow> bool" where
  "fits s slots i \<longleftrightarrow> i + slots \<le> DL_WINDOW_SLOTS \<and> (\<forall>j < slots. \<not> dl_slot_used s (i + j))"

text \<open>The reference: try every start in turn.\<close>

definition first_fit :: "vspace \<Rightarrow> nat \<Rightarrow> nat option" where
  "first_fit s slots = find (fits s slots) [0..<Suc DL_WINDOW_SLOTS]"

lemma dl_scan_skip:
  assumes "\<And>i'. i' < i \<Longrightarrow> \<not> fits s slots i'"
  shows "dl_scan s slots i = first_fit s slots"
  using assms
proof (induction s slots i rule: dl_scan.induct)
  case (1 s slots i)
  show ?case
  proof (cases "i + slots \<le> DL_WINDOW_SLOTS")
    case False
    have "\<not> fits s slots i'" for i'
      using 1(2) [of i'] False by (cases "i' < i") (auto simp: fits_def)
    then have "first_fit s slots = None" by (simp add: first_fit_def find_None_iff)
    then show ?thesis using False by (simp add: dl_scan.simps)
  next
    case True
    let ?k = "free_run s i slots"
    show ?thesis
    proof (cases "?k = slots")
      case full: True
      then have f: "fits s slots i" using True free_run_spec [of _ s i slots] by (auto simp: fits_def)
      have "first_fit s slots = Some i"
        unfolding first_fit_def find_Some_iff
        using f 1(2) True by (intro exI [of _ i]) (auto simp: fits_def simp del: upt_Suc)
      then show ?thesis using True full by (simp add: dl_scan.simps [of s slots i])
    next
      case False
      then have lt: "?k < slots" using free_run_le [of s i slots] by simp
      have no: "\<not> fits s slots i'" if "i' < i + ?k + 1" for i'
      proof (cases "i' < i")
        case True
        then show ?thesis by (rule 1(2))
      next
        case False
        then have "i' + (i + ?k - i') = i + ?k" "i + ?k - i' < slots" using that lt by auto
        then show ?thesis using free_run_stop [OF lt] unfolding fits_def by metis
      qed
      have "dl_scan s slots (i + ?k + 1) = first_fit s slots" using 1(1) [OF True refl False] no by blast
      then show ?thesis using True False by (simp add: dl_scan.simps [of s slots i])
    qed
  qed
qed

lemma dl_scan_fits: "dl_scan s slots 0 = Some i \<Longrightarrow> fits s slots i"
  using dl_scan_skip [of 0 s slots] by (auto simp: first_fit_def find_Some_iff)

section \<open>Releasing pages\<close>

lemma release_page_steps:
  assumes ok: "mem_ok R m" and vm: "vm \<in> R" "take_bit 12 va = 0" "va < KERNEL_BASE" "private_page (vpn va)"
  shows "steps_on R {(vm, vpn va)} m (release_page vm va m)" "(vm, vpn va) \<notin> priv R (release_page vm va m)"
  using release_steps(1,2) [OF ok vm] resolve_priv [OF ok _ vm(2,3), of vm] ok by (auto simp: release_page_def steps_on_refl)

lemma fold_release:
  assumes ok: "mem_ok R m"
    and f: "\<And>va m. va \<in> set vas \<Longrightarrow> mem_ok R m \<Longrightarrow> steps_on R {(vm, vpn va)} m (f va m) \<and> (vm, vpn va) \<notin> priv R (f va m)"
  shows "steps_on R ({vm} \<times> vpn ` set vas) m (fold f vas m)" "va \<in> set vas \<Longrightarrow> (vm, vpn va) \<notin> priv R (fold f vas m)"
proof -
  have "steps_on R ({vm} \<times> vpn ` set vas) m (fold f vas m) \<and> (\<forall>va \<in> set vas. (vm, vpn va) \<notin> priv R (fold f vas m))"
    using ok f
  proof (induction vas arbitrary: m)
    case Nil
    then show ?case by (simp add: steps_on_refl)
  next
    case (Cons a vas)
    have a: "steps_on R {(vm, vpn a)} m (f a m)" "(vm, vpn a) \<notin> priv R (f a m)" using Cons.prems by auto
    have i: "steps_on R ({vm} \<times> vpn ` set vas) (f a m) (fold f vas (f a m))" "\<forall>va \<in> set vas. (vm, vpn va) \<notin> priv R (fold f vas (f a m))"
      using Cons.IH [OF steps_on_ok [OF a(1)]] Cons.prems(2) by simp_all
    have "(vm, vpn a) \<notin> priv R (fold f vas (f a m))"
    proof (cases "vpn a \<in> vpn ` set vas")
      case True
      then obtain b where "b \<in> set vas" "vpn a = vpn b" by blast
      then show ?thesis using i(2) by simp
    next
      case False
      then show ?thesis using steps_on_priv [OF i(1), of "(vm, vpn a)"] a(2) by simp
    qed
    moreover have "steps_on R ({vm} \<times> vpn ` set (a # vas)) m (fold f vas (f a m))"
      by (rule steps_on_trans [OF steps_on_mono [OF a(1)] steps_on_mono [OF i(1)]]) auto
    ultimately show ?case using i(2) by simp
  qed
  then show "steps_on R ({vm} \<times> vpn ` set vas) m (fold f vas m)" "va \<in> set vas \<Longrightarrow> (vm, vpn va) \<notin> priv R (fold f vas m)" by auto
qed

text \<open>The mappings of the window pages from \<open>a\<close> up to \<open>b\<close>.\<close>

abbreviation win_maps :: "nat \<Rightarrow> nat \<Rightarrow> nat \<Rightarrow> mapping set" where
  "win_maps vm a b \<equiv> {vm} \<times> (\<lambda>k. vpn (win_va k)) ` {a..<b}"

lemma release_window:
  assumes ok: "mem_ok R m" and vm: "vm \<in> R" and b: "b \<le> 65536" and vas: "set vas = win_va ` {a..<b}"
    and f: "f = release_page vm \<or> f = unmap_page_ref vm"
  shows "steps_on R (win_maps vm a b) m (fold f vas m)" "a \<le> k \<Longrightarrow> k < b \<Longrightarrow> (vm, vpn (win_va k)) \<notin> priv R (fold f vas m)"
proof -
  have one: "steps_on R {(vm, vpn va)} m (f va m) \<and> (vm, vpn va) \<notin> priv R (f va m)" if "va \<in> set vas" "mem_ok R m" for va m
    using f release_page_steps [OF that(2) vm, of va] release_steps(1,2) [OF that(2) vm, of va] win_page that(1) b unfolding vas by auto
  show "steps_on R (win_maps vm a b) m (fold f vas m)"
    using fold_release(1) [of R m vas vm f, OF ok one] by (simp add: vas image_image)
  show "a \<le> k \<Longrightarrow> k < b \<Longrightarrow> (vm, vpn (win_va k)) \<notin> priv R (fold f vas m)"
    using fold_release(2) [of R m vas vm f "win_va k", OF ok one] by (simp add: vas)
qed

lemma win_inj: "k < 65536 \<Longrightarrow> k' < 65536 \<Longrightarrow> vpn (win_va k) = vpn (win_va k') \<longleftrightarrow> k = k'"
  using win_page(6) by (metis add_left_cancel)

lemma win_maps_iff: "k < 65536 \<Longrightarrow> b \<le> 65536 \<Longrightarrow> (vm, vpn (win_va k)) \<in> win_maps vm a b \<longleftrightarrow> a \<le> k \<and> k < b"
  using win_inj by auto

section \<open>Steps in the window\<close>

text \<open>Every page of the window that is mapped after the step lies in a slot in use.\<close>

lemma sp_step_window:
  assumes st: "steps_on R (win_maps (vs_vm s) a b) m m'" and ok: "sp_ok R m s" and b: "b \<le> 65536"
    and u: "length u = DL_WINDOW_SLOTS" "\<And>k. k < 65536 \<Longrightarrow> (vs_vm s, vpn (win_va k)) \<in> priv R m' \<Longrightarrow> u ! (k div 16)"
  shows "sp_step R m s m' (s\<lparr>vs_dl_used := u\<rparr>)"
proof -
  have "v < vpn (vs_heap_size s)" if v: "(vs_vm s, v) \<in> priv R m'" "in_heap v" for v
  proof -
    have "(vs_vm s, v) \<notin> win_maps (vs_vm s) a b" using v(2) win_page(3) b regions_disjoint(1) by fastforce
    then show ?thesis using steps_on_priv [OF st] v sp_okD(5) [OF ok] by blast
  qed
  moreover have "u ! slot_of v" if "(vs_vm s, v) \<in> priv R m'" "in_dl v" for v
    using in_dl_win [OF that(2)] u(2) that(1) win_page(7) by metis
  moreover have "steps_on R (own s) m m'" by (rule steps_on_mono [OF st]) auto
  ultimately show ?thesis using sp_okD(1-3) [OF ok] u(1) by (simp add: sp_step_def sp_ok_def)
qed

lemma win_used:
  assumes "sp_ok R m s" "k < 65536" "(vs_vm s, vpn (win_va k)) \<in> priv R m"
  shows "vs_dl_used s ! (k div 16)"
  using sp_okD(6) [OF assms(1,3)] win_page(3,7) [OF assms(2)] by simp

lemma fold_mark:
  "fold (\<lambda>i. dl_slot_mark (f i) b) xs s = s\<lparr>vs_dl_used := fold (\<lambda>i u. u[f i := b]) xs (vs_dl_used s)\<rparr>"
  by (induction xs arbitrary: s) (simp_all add: dl_slot_mark_def)

lemma fold_update: "length (fold (\<lambda>i u. u[f i := b]) xs u) = length u"
  "j < length u \<Longrightarrow> fold (\<lambda>i u. u[f i := b]) xs u ! j = (if j \<in> f ` set xs then b else u ! j)"
  by (induction xs arbitrary: u) (auto simp: nth_list_update)

lemma dl_map_page_steps:
  assumes ok: "mem_ok R m" and g: "get_page m = (Some p, m1)" and vm: "vm \<in> R" and k: "k < 65536"
    and n: "(vm, vpn (win_va k)) \<notin> priv R m" and r: "dl_map_page vm (win_va k) p prot (zero_page p m1) = (res, m2)"
  shows "steps_on R {(vm, vpn (win_va k))} m m2" "res \<noteq> 0 \<Longrightarrow> steps_on R {} m (put_page p m2)"
proof -
  note w = win_page(1,2,4) [OF k]
  obtain r1 m3 where m3: "map_page_ref vm (win_va k) (V2P m1 (of_nat p)) (dl_prot_to_ap prot) PTE_ATTR_WRBACK (write_page p (\<lambda>_. 0) m1) = (r1, m3)"
    by (metis surj_pair)
  note np = new_page_step [OF ok vm g w n m3]
  note mk = mark_noexec_steps(1) [OF steps_on_ok [OF np(1)] vm w(2)]
  have d: "(res, m2) = (if r1 \<noteq> 0 then (-1, m3) else (0, if prot AND EWOK_PROT_EXEC = 0 then arch_mark_pte_noexec vm (win_va k) m3 else m3))"
    using r m3 by (simp add: dl_map_page_def zero_write split: if_splits)
  then show "steps_on R {(vm, vpn (win_va k))} m m2" using np(1) mk by (auto split: if_splits intro: steps_on_trans)
  show "steps_on R {} m (put_page p m2)" if "res \<noteq> 0"
  proof -
    have e: "m2 = m3" "r1 \<noteq> 0" using d that by (auto split: if_splits)
    then show ?thesis using np(2) put_page_steps [of R m3 p] steps_on_ok by (blast intro: steps_on_trans)
  qed
qed

lemma dl_commit_steps:
  assumes "mem_ok R m" "vm \<in> R" "a + p + n \<le> 65536"
    and "\<And>k. a + p \<le> k \<Longrightarrow> k < a + p + n \<Longrightarrow> (vm, vpn (win_va k)) \<notin> priv R m"
    and "dl_commit n p vm (win_va a) prot m = (p', res, m')"
  shows "p \<le> p' \<and> p' \<le> p + n \<and> (res \<longrightarrow> p' = p + n) \<and> steps_on R (win_maps vm (a + p) (a + p')) m m'"
  using assms
proof (induction n arbitrary: p m)
  case 0
  then show ?case by (simp add: steps_on_refl)
next
  case (Suc n)
  let ?k = "a + p"
  have k: "?k < 65536" using Suc.prems(3) by simp
  show ?case
  proof (cases "get_page m")
    case (Pair q m1)
    show ?thesis
    proof (cases q)
      case None
      then show ?thesis using Suc.prems(1,5) Pair get_page_None [of m m1] by (simp add: steps_on_refl)
    next
      case (Some pg)
      obtain r m2 where m2: "dl_map_page vm (win_va ?k) pg prot (zero_page pg m1) = (r, m2)" by (metis surj_pair)
      note dm = dl_map_page_steps [OF Suc.prems(1) Pair [unfolded Some] Suc.prems(2) k Suc.prems(4) m2]
      show ?thesis
      proof (cases "r = 0")
        case False
        then have "p' = p \<and> \<not> res \<and> m' = put_page pg m2" using Suc.prems(5) Pair Some m2 by simp
        then show ?thesis using dm(2) False steps_on_mono by auto
      next
        case True
        have st: "steps_on R {(vm, vpn (win_va ?k))} m m2" by (rule dm(1)) simp_all
        have fr: "(vm, vpn (win_va k)) \<notin> priv R m2" if "a + Suc p \<le> k" "k < a + Suc p + n" for k
        proof -
          have "vpn (win_va k) \<noteq> vpn (win_va ?k)" using win_inj [of k ?k] that Suc.prems(3) by simp
          then show ?thesis using steps_on_priv [OF st, of "(vm, vpn (win_va k))"] Suc.prems(4) [of k] that by simp
        qed
        have ex: "dl_commit n (Suc p) vm (win_va a) prot m2 = (p', res, m')"
          using Suc.prems(5) Pair Some m2 True by simp
        have "a + Suc p + n \<le> 65536" using Suc.prems(3) by simp
        note ih = Suc.IH [OF steps_on_ok [OF st] Suc.prems(2) this fr ex]
        then have "steps_on R (win_maps vm ?k (a + p')) m2 m'" by (auto elim!: steps_on_mono)
        moreover have "steps_on R (win_maps vm ?k (a + p')) m m2" using ih by (intro steps_on_mono [OF st]) auto
        ultimately show ?thesis using ih by (auto intro: steps_on_trans)
      qed
    qed
  qed
qed

end
