(* ===== verification/Vm_Dl.thy ===== *)
theory Vm_Dl
  imports Vm_Window
begin

text \<open>
  The calls on the anonymous mapping window as steps of a space, and its copy for a forked child.
\<close>

section \<open>Allocation\<close>

lemma unused_slot: "sp_ok R m s \<Longrightarrow> k < 65536 \<Longrightarrow> \<not> dl_slot_used s (k div 16) \<Longrightarrow> (vs_vm s, vpn (win_va k)) \<notin> priv R m"
  using win_used [of R m s k] by (auto simp: dl_slot_used_def)

lemma slot_between: "a * 16 \<le> k \<Longrightarrow> k < (a + n) * 16 \<Longrightarrow> a \<le> k div 16 \<and> k div 16 < a + (n :: nat)"
  by (simp add: div_less_iff_less_mult less_eq_div_iff_mult_less_eq)

lemma dl_window_alloc_step:
  assumes ok: "mem_ok R m" "sp_ok R m s" and r: "dl_window_alloc sz prot s m = (res, s', m')"
  shows "sp_step R m s m' s'"
proof (cases "\<not> dl_prot_ok prot \<or> sz = 0 \<or> ucast sz > DL_WINDOW_SIZE")
  case True
  then show ?thesis using r sp_step_refl [OF ok] by (simp add: dl_window_alloc_def) (auto split: if_splits)
next
  case False
  define slots where "slots = (unat sz + DL_WINDOW_SLOT - 1) div DL_WINDOW_SLOT"
  show ?thesis
  proof (cases "dl_scan s slots 0")
    case None
    then show ?thesis using False r sp_step_refl [OF ok] by (simp add: dl_window_alloc_def slots_def [unfolded One_nat_def, symmetric])
  next
    case (Some start)
    obtain p cok m1 where c: "dl_commit (slots * 16) 0 (vs_vm s) (win_va (start * 16)) prot m = (p, cok, m1)" by (metis prod_cases3)
    have f: "start + slots \<le> 4096" "\<And>j. j < slots \<Longrightarrow> \<not> dl_slot_used s (start + j)"
      using dl_scan_fits [OF Some] by (simp_all add: fits_def slots_values)
    have new: "(vs_vm s, vpn (win_va k)) \<notin> priv R m" if k: "start * 16 + 0 \<le> k" "k < start * 16 + 0 + slots * 16" for k
    proof (rule unused_slot [OF ok(2)])
      show "k < 65536" using k f(1) by simp
      obtain j where "k div 16 = start + j" "j < slots" using slot_between [of start k slots] k by (auto simp: le_iff_add algebra_simps)
      then show "\<not> dl_slot_used s (k div 16)" using f(2) by simp
    qed
    have top: "start * 16 + 0 + slots * 16 \<le> 65536" using f(1) by simp
    note dc = dl_commit_steps [OF ok(1) sp_okD(1) [OF ok(2)] top new c]
    have r2: "(res, s', m') = (if cok then (slot_addr start, fold (\<lambda>i. dl_slot_mark (start + i) True) [0..<slots] s, m1)
        else (0, s, fold (\<lambda>i. unmap_page_ref (vs_vm s) (slot_addr start + of_nat (i * PAGE_SIZE))) [0..<p] m1))"
      using r False Some c by (auto simp: dl_window_alloc_def slots_def [unfolded One_nat_def, symmetric] slots_values(1) slot_win Let_def)
    show ?thesis
    proof (cases cok)
      case True
      let ?u = "fold (\<lambda>i u. u[start + i := True]) [0..<slots] (vs_dl_used s)"
      have st: "steps_on R (win_maps (vs_vm s) (start * 16) (start * 16 + slots * 16)) m m1" using dc True by auto
      have len: "length (vs_dl_used s) = 4096" using sp_okD(4) [OF ok(2)] by (simp add: slots_values)
      have u: "?u ! (k div 16)" if k: "k < 65536" "(vs_vm s, vpn (win_va k)) \<in> priv R m1" for k
      proof (cases "start * 16 \<le> k \<and> k < (start + slots) * 16")
        case True
        then have "start \<le> k div 16" "k div 16 < start + slots" using slot_between by blast+
        then have "k div 16 \<in> (\<lambda>i. start + i) ` set [0..<slots]" by (intro image_eqI [of _ _ "k div 16 - start"]) auto
        then show ?thesis using fold_update(2) [of "k div 16" "vs_dl_used s" "\<lambda>i. start + i" True "[0..<slots]"] k(1) len by simp
      next
        case False
        then have "(vs_vm s, vpn (win_va k)) \<notin> win_maps (vs_vm s) (start * 16) (start * 16 + slots * 16)"
          using win_maps_iff [OF k(1), of "start * 16 + slots * 16" "vs_vm s" "start * 16"] top by (simp add: algebra_simps)
        then have "vs_dl_used s ! (k div 16)" using steps_on_priv [OF st] k win_used [OF ok(2)] by blast
        then show ?thesis using fold_update(2) [of "k div 16" "vs_dl_used s" "\<lambda>i. start + i" True "[0..<slots]"] k(1) len by simp
      qed
      have "sp_step R m s m1 (s\<lparr>vs_dl_used := ?u\<rparr>)"
        by (rule sp_step_window [OF st ok(2)]) (use top u in \<open>simp_all add: fold_update(1) sp_okD(4) [OF ok(2)]\<close>)
      then show ?thesis using r2 True by (simp add: fold_mark)
    next
      case False
      have st: "steps_on R (win_maps (vs_vm s) (start * 16) (start * 16 + p)) m m1" "p \<le> slots * 16" using dc by simp_all
      let ?vas = "map (\<lambda>i. win_va (start * 16 + i)) [0..<p]"
      have "set ?vas = win_va ` {start * 16..<start * 16 + p}"
        by (auto simp: image_iff) (metis add_less_cancel_left atLeastLessThan_iff le0 le_add_diff_inverse)
      note rw = release_window [OF steps_on_ok [OF st(1)] sp_okD(1) [OF ok(2)] _ this, of "unmap_page_ref (vs_vm s)", simplified]
      have m': "m' = fold (unmap_page_ref (vs_vm s)) ?vas m1" "s' = s"
        using r2 False by (simp_all add: fold_map comp_def slot_win)
      have b: "start * 16 + p \<le> 65536" using st(2) f(1) by linarith
      have st2: "steps_on R (win_maps (vs_vm s) (start * 16) (start * 16 + p)) m m'"
        using steps_on_trans [OF st(1) rw(1)] b by (simp add: m')
      have u: "vs_dl_used s ! (k div 16)" if k: "k < 65536" "(vs_vm s, vpn (win_va k)) \<in> priv R m'" for k
      proof -
        have "\<not> (start * 16 \<le> k \<and> k < start * 16 + p)" using rw(2) [of k] b k(2) by (auto simp: m')
        then have "(vs_vm s, vpn (win_va k)) \<notin> win_maps (vs_vm s) (start * 16) (start * 16 + p)"
          using win_maps_iff [OF k(1) b] by blast
        then show ?thesis using steps_on_priv [OF st2] k win_used [OF ok(2)] by blast
      qed
      have "sp_step R m s m' (s\<lparr>vs_dl_used := vs_dl_used s\<rparr>)"
        by (rule sp_step_window [OF st2 ok(2) b]) (use u in \<open>simp_all add: sp_okD(4) [OF ok(2)]\<close>)
      then show ?thesis using m'(2) by simp
    qed
  qed
qed

section \<open>Protection\<close>

text \<open>The pages of a range of the window.\<close>

lemma range_pages:
  assumes "dl_range_ok vaddr sz = Some e"
  obtains k n where "vaddr = win_va k" "k + n \<le> 65536" "n = (unat sz + PAGE_SIZE - 1) div PAGE_SIZE"
    "set (page_addrs vaddr sz) = win_va ` {k..<k + n}" "unat e = unat (win_va k) + unat sz" "k < 65536"
proof -
  have r: "sz \<noteq> 0" "vaddr AND (PAGE - 1) = 0" "vaddr \<le> vaddr + ucast sz" "DL_WINDOW_BASE \<le> vaddr" "e \<le> DL_WINDOW_END" "e = vaddr + ucast sz"
    using assms by (auto simp: dl_range_ok_def Let_def split: if_splits)
  define n where "n = (unat sz + PAGE_SIZE - 1) div PAGE_SIZE"
  have al: "unat vaddr mod 4096 = 0"
    using r(2) aligned_dvd by (simp add: PAGE_SIZE_def take_bit_eq_mask mask_eq_exp_minus_1)
  have us: "unat (ucast sz :: u64) = unat sz"
    using unsigned_less [where w = sz and ?'a = nat] by (simp add: unsigned_ucast_eq take_bit_nat_eq_self_iff)
  have lo: "0x3FB7FFF000 \<le> unat vaddr" using r(4) by (simp add: layout_values word_le_nat_alt)
  have ue: "unat e = unat vaddr + unat sz"
  proof -
    have "unat sz < 2 ^ 32" using unsigned_less [where w = sz and ?'a = nat] by simp
    moreover have "unat vaddr < 2 ^ 64" using unsigned_less [where w = vaddr and ?'a = nat] by simp
    ultimately show ?thesis
      using r(3) us unfolding r(6) by (simp add: word_le_nat_alt unat_plus_if' split: if_splits)
  qed
  have hi: "unat e \<le> 0x3FC7FFF000" using r(5) by (simp add: layout_values word_le_nat_alt)
  obtain q where q: "unat vaddr = 4096 * q" using al by (metis mod_0_imp_dvd dvdE)
  define k where "k = q - 0x3FB7FFF"
  have qk: "q = 0x3FB7FFF + k" using lo q by (simp add: k_def)
  have spos: "0 < unat sz" using r(1) by (simp add: unat_gt_0)
  have kb: "k < 65536" using qk q ue hi spos by simp
  have "unat vaddr = unat (win_va k)" using win_page(5) [OF kb] q qk by (simp add: layout_values)
  then have va: "vaddr = win_va k" by (rule word_unat_eq_iff [THEN iffD2])
  have kn: "k + n \<le> 65536"
  proof -
    have "unat sz \<le> 4096 * (65536 - k)" using ue hi q qk kb by (simp add: diff_mult_distrib2)
    then have "n \<le> (4096 * (65536 - k) + 4095) div 4096" unfolding n_def PAGE_SIZE_def by (intro div_le_mono) simp
    then show ?thesis using kb by simp
  qed
  have "set (page_addrs vaddr sz) = win_va ` {k..<k + n}"
  proof -
    have "set (page_addrs vaddr sz) = (\<lambda>i. win_va (k + i)) ` {0..<n}"
      by (simp add: page_addrs_def va n_def)
    moreover have "{k..<k + n} = (\<lambda>i. k + i) ` {0..<n}" by (simp add: add.commute)
    ultimately show ?thesis by (simp only: image_image)
  qed
  then show ?thesis using that [OF va kn n_def] ue kb va by blast
qed

lemma protect_page_steps:
  assumes ok: "mem_ok R m" and vm: "vm \<in> R" and k: "k < 65536" and map: "frame_of m (vm, vpn (win_va k)) \<noteq> None"
  shows "steps_on R {(vm, vpn (win_va k))} m (protect_page vm prot (win_va k) m)" "priv R (protect_page vm prot (win_va k) m) = priv R m"
    "g \<in> user_maps R \<Longrightarrow> frame_of (protect_page vm prot (win_va k) m) g = frame_of m g"
proof -
  note w = win_page [OF k]
  obtain d where d: "pte m vm (win_va k) = Some d" using map by (auto simp: frame_of_def pte_vpn [OF w(2)])
  let ?m = "snd (map_page vm (win_va k) (resolve_phy_address vm (win_va k) m) (dl_prot_to_ap prot) PTE_ATTR_WRBACK m)"
  have dl: "vpn DL_WINDOW_BASE \<le> vpn (win_va k)" using w(3) by (simp add: in_dl_def)
  note rs = remap_steps [OF ok vm w(1,2) d, of "dl_prot_to_ap prot" ?m PTE_ATTR_WRBACK, OF dl refl]
  note mk = mark_noexec_steps [OF steps_on_ok [OF rs(1)] vm w(2)]
  have e: "protect_page vm prot (win_va k) m = (if prot AND EWOK_PROT_EXEC = 0 then arch_mark_pte_noexec vm (win_va k) ?m else ?m)"
    by (simp add: protect_page_def Let_def)
  show "steps_on R {(vm, vpn (win_va k))} m (protect_page vm prot (win_va k) m)" unfolding e using rs(1) mk(1) by (auto intro: steps_on_trans)
  show "priv R (protect_page vm prot (win_va k) m) = priv R m" unfolding e using rs(2) mk(2) by simp
  show "g \<in> user_maps R \<Longrightarrow> frame_of (protect_page vm prot (win_va k) m) g = frame_of m g" unfolding e using rs(3) mk(3) by simp
qed

lemma fold_protect:
  assumes "mem_ok R m" "vm \<in> R" "set vas \<subseteq> win_va ` {..<65536}" "\<And>va. va \<in> set vas \<Longrightarrow> frame_of m (vm, vpn va) \<noteq> None"
  shows "steps_on R ({vm} \<times> Collect in_dl) m (fold (protect_page vm prot) vas m) \<and> priv R (fold (protect_page vm prot) vas m) = priv R m"
  using assms
proof (induction vas arbitrary: m)
  case Nil
  then show ?case by (simp add: steps_on_refl)
next
  case (Cons a vas)
  obtain k where k: "a = win_va k" "k < 65536" using Cons.prems(3) by auto
  note pp = protect_page_steps [OF Cons.prems(1,2) k(2) Cons.prems(4) [of a, unfolded k(1)], where prot = prot]
  have "frame_of (protect_page vm prot a m) (vm, vpn va) \<noteq> None" if va: "va \<in> set vas" for va
  proof -
    have "va < KERNEL_BASE" using va Cons.prems(3) win_page(2) by auto
    from user_map [OF Cons.prems(2) this] show ?thesis using pp(3) [of "(vm, vpn va)"] Cons.prems(4) [of va] va k by simp
  qed
  moreover have "mem_ok R (protect_page vm prot a m)" using pp(1) k(1) steps_on_ok by auto
  ultimately have "steps_on R ({vm} \<times> Collect in_dl) (protect_page vm prot a m) (fold (protect_page vm prot) vas (protect_page vm prot a m))
      \<and> priv R (fold (protect_page vm prot) vas (protect_page vm prot a m)) = priv R (protect_page vm prot a m)"
    using Cons.IH Cons.prems(2,3) by simp
  moreover have "steps_on R ({vm} \<times> Collect in_dl) m (protect_page vm prot a m)"
    using pp(1) win_page(3) [OF k(2)] k(1) by (auto elim!: steps_on_mono)
  ultimately show ?case using pp(2) k(1) by (auto intro: steps_on_trans)
qed

lemma dl_window_protect_step:
  assumes ok: "mem_ok R m" "sp_ok R m s" and r: "dl_window_protect vaddr sz prot s m = (res, m')"
  shows "sp_step R m s m' s"
proof (cases "\<not> dl_prot_ok prot \<or> dl_range_ok vaddr sz = None \<or> (\<exists>v \<in> set (page_addrs vaddr sz). resolve_phy_address (vs_vm s) v m = 0)")
  case True
  then have "m' = m" using r by (auto simp: dl_window_protect_def split: if_splits)
  then show ?thesis using sp_step_refl [OF ok] by simp
next
  case False
  then obtain e where e: "dl_range_ok vaddr sz = Some e" by auto
  from range_pages [OF e] obtain k n where w: "set (page_addrs vaddr sz) = win_va ` {k..<k + n}" "k + n \<le> 65536" by metis
  have fr: "frame_of m (vs_vm s, vpn va) \<noteq> None" if va: "va \<in> set (page_addrs vaddr sz)" for va
  proof -
    obtain j where j: "va = win_va j" "j < 65536" using va w by auto
    have "resolve_phy_address (vs_vm s) va m \<noteq> 0" using False va by blast
    then have "pte m (vs_vm s) va \<noteq> None" using resolve_aligned [OF win_page(1) [OF j(2)], of "vs_vm s" m] j(1) by (auto split: option.splits)
    then show ?thesis using pte_vpn [OF win_page(2) [OF j(2)], of m "vs_vm s"] j(1) by (auto simp: frame_of_def)
  qed
  have sub: "set (page_addrs vaddr sz) \<subseteq> win_va ` {..<65536}" using w by auto
  have m': "m' = fold (protect_page (vs_vm s) prot) (page_addrs vaddr sz) m"
    using r False e by (auto simp: dl_window_protect_def split: if_splits)
  note fp = fold_protect [OF ok(1) sp_okD(1) [OF ok(2)] sub fr, where prot = prot]
  show ?thesis unfolding m' by (rule sp_step_priv [OF _ ok(2)]) (use fp steps_on_mono in \<open>auto elim!: steps_on_mono\<close>)
qed

section \<open>Release\<close>

lemma ceil_pages: "x \<le> (x + 4096 - 1) div 4096 * (4096 :: nat)"
proof -
  have "x + 4095 = (x + 4095) div 4096 * 4096 + (x + 4095) mod 4096" "(x + 4095) mod 4096 < 4096" by simp_all
  then show ?thesis by simp
qed

lemma window_arith:
  assumes "k \<le> a" "z \<le> n * 4096" "a \<le> j" "j < a + 16" "a * 4096 + 65536 \<le> k * 4096 + (z :: nat)"
  shows "k \<le> j \<and> j < k + n"
  using assms by linarith

lemma dl_window_free_step:
  assumes ok: "mem_ok R m" "sp_ok R m s" and r: "dl_window_free vaddr sz s m = (res, s', m')"
  shows "sp_step R m s m' s'"
proof (cases "dl_range_ok vaddr sz")
  case None
  then show ?thesis using r sp_step_refl [OF ok] by (simp add: dl_window_free_def)
next
  case (Some e)
  obtain k n where w: "vaddr = win_va k" "k + n \<le> 65536" "n = (unat sz + PAGE_SIZE - 1) div PAGE_SIZE"
    "set (page_addrs vaddr sz) = win_va ` {k..<k + n}" "unat e = unat (win_va k) + unat sz" "k < 65536"
    by (rule range_pages [OF Some])
  define frees where "frees = filter (\<lambda>i. slot_addr i \<ge> vaddr \<and> slot_addr i + of_nat DL_WINDOW_SLOT \<le> e)
    (takeWhile (\<lambda>i. slot_addr i < e) [unat ((vaddr - DL_WINDOW_BASE) div of_nat DL_WINDOW_SLOT)..<DL_WINDOW_SLOTS])"
  let ?u = "fold (\<lambda>i u. u[i := False]) frees (vs_dl_used s)"
  have cond: "fold (\<lambda>i s. if P i then dl_slot_mark i False s else s) xs s = fold (\<lambda>i. dl_slot_mark i False) (filter P xs) s" for P xs s
    by (induction xs arbitrary: s) auto
  have m': "m' = fold (release_page (vs_vm s)) (page_addrs vaddr sz) m" and s': "s' = s\<lparr>vs_dl_used := ?u\<rparr>"
    using r Some fold_mark [of "\<lambda>i. i" False frees s] by (auto simp: dl_window_free_def Let_def cond frees_def)
  note rw = release_window [OF ok(1) sp_okD(1) [OF ok(2)] w(2,4) disjI1 [OF refl]]
  have st: "steps_on R (win_maps (vs_vm s) k (k + n)) m m'" using rw(1) by (simp add: m')
  have len: "length (vs_dl_used s) = 4096" using sp_okD(4) [OF ok(2)] by (simp add: slots_values)
  have u: "?u ! (j div 16)" if j: "j < 65536" "(vs_vm s, vpn (win_va j)) \<in> priv R m'" for j
  proof -
    have out: "\<not> (k \<le> j \<and> j < k + n)" using rw(2) [of j] j(2) by (auto simp: m')
    then have "(vs_vm s, vpn (win_va j)) \<notin> win_maps (vs_vm s) k (k + n)" using win_maps_iff [OF j(1) w(2)] by blast
    then have old: "vs_dl_used s ! (j div 16)" using steps_on_priv [OF st] j win_used [OF ok(2)] by blast
    have "j div 16 \<notin> set frees"
    proof
      assume i: "j div 16 \<in> set frees"
      have b: "j div 16 * 16 < 65536" using j(1) div_times_less_eq_dividend [of j 16] by (rule order.strict_trans1 [rotated])
      have ge: "vaddr \<le> win_va (j div 16 * 16)" and le: "win_va (j div 16 * 16) + 65536 \<le> e" using i by (auto simp: frees_def slot_win slots_values)
      have "unat (win_va (j div 16 * 16) + 65536) = unat (win_va (j div 16 * 16)) + 65536"
        using win_page(5) [OF b] b by (simp add: unat_word_ariths(1) layout_values)
      then have "unat (win_va (j div 16 * 16)) + 65536 \<le> unat (win_va k) + unat sz" using le w(5) by (simp add: word_le_nat_alt)
      then have t: "j div 16 * 16 * 4096 + 65536 \<le> k * 4096 + unat sz" using win_page(5) [OF b] win_page(5) [OF w(6)] by simp
      have "k \<le> j div 16 * 16" using ge win_page(5) [OF b] win_page(5) [OF w(6)] by (simp add: w(1) word_le_nat_alt)
      moreover have "unat sz \<le> n * 4096" unfolding w(3) PAGE_SIZE_def by (rule ceil_pages)
      moreover have "j div 16 * 16 \<le> j" "j < j div 16 * 16 + 16" using div_mult_mod_eq [of j 16] mod_less_divisor [of 16 j] by simp_all
      ultimately have "k \<le> j \<and> j < k + n" using t by (intro window_arith)
      then show False using out by blast
    qed
    then show ?thesis using old fold_update(2) [of "j div 16" "vs_dl_used s" "\<lambda>i. i" False frees] j(1) len by simp
  qed
  show ?thesis
    unfolding s' by (rule sp_step_window [OF st ok(2) w(2)]) (use u in \<open>simp_all add: fold_update(1) [of "\<lambda>i. i", simplified] sp_okD(4) [OF ok(2)]\<close>)
qed

end
