(* ===== verification/Vm_Clone.thy ===== *)
theory Vm_Clone
  imports Vm_Dl
begin

text \<open>
  Emptying the mapping window and copying it to a child.
\<close>

section \<open>Emptying the window\<close>

lemma slot_pages_set: "set (slot_pages i) = win_va ` {i * 16..<i * 16 + 16}"
proof -
  have "set (slot_pages i) = (\<lambda>p. win_va (i * 16 + p)) ` {0..<16}" by (simp add: slot_pages_def slots_values slot_win)
  moreover have "{i * 16..<i * 16 + 16} = (\<lambda>p. i * 16 + p) ` {0..<16}" by (simp add: add.commute)
  ultimately show ?thesis by (simp only: image_image)
qed

lemma slot_range: "i * 16 \<le> k \<and> k < i * 16 + 16 \<longleftrightarrow> k div 16 = (i :: nat)"
  by (auto simp: div_nat_eqI)

lemma release_slot_step:
  assumes ok: "mem_ok R m" "sp_ok R m s" and i: "i < 4096"
  shows "sp_step R m s (fold (release_page (vs_vm s)) (slot_pages i) m) (dl_slot_mark i False s)"
proof -
  let ?m = "fold (release_page (vs_vm s)) (slot_pages i) m"
  have b: "i * 16 + 16 \<le> 65536" using i by simp
  note rw = release_window [OF ok(1) sp_okD(1) [OF ok(2)] b slot_pages_set disjI1 [OF refl]]
  have len: "length (vs_dl_used s) = 4096" using sp_okD(4) [OF ok(2)] by (simp add: slots_values)
  have "((vs_dl_used s)[i := False]) ! (k div 16)" if k: "k < 65536" "(vs_vm s, vpn (win_va k)) \<in> priv R ?m" for k
  proof -
    have n: "\<not> (i * 16 \<le> k \<and> k < i * 16 + 16)" using rw(2) [of k] k(2) by blast
    then have "(vs_vm s, vpn (win_va k)) \<notin> win_maps (vs_vm s) (i * 16) (i * 16 + 16)" using win_maps_iff [OF k(1) b] by blast
    then have "vs_dl_used s ! (k div 16)" using steps_on_priv [OF rw(1)] k win_used [OF ok(2)] by blast
    then show ?thesis using n slot_range by (metis nth_list_update_neq)
  qed
  from sp_step_window [OF rw(1) ok(2) b _ this] show ?thesis by (simp add: dl_slot_mark_def sp_okD(4) [OF ok(2)])
qed

lemma dl_window_release_step:
  assumes ok: "mem_ok R m" "sp_ok R m s" and r: "dl_window_release s m = (s', m')"
  shows "sp_step R m s m' s'"
proof -
  define f where "f = (\<lambda>i (s, m). if dl_slot_used s i
    then (dl_slot_mark i False s, fold (release_page (vs_vm s)) (slot_pages i) m) else (s, m))"
  have "sp_step R m s (snd (fold f xs (s, m))) (fst (fold f xs (s, m)))"
    if "mem_ok R m" "sp_ok R m s" "\<forall>i \<in> set xs. i < 4096" for xs s m
    using that
  proof (induction xs arbitrary: s m)
    case Nil
    then show ?case by (simp add: sp_step_refl)
  next
    case (Cons i xs)
    have one: "sp_step R m s (snd (f i (s, m))) (fst (f i (s, m)))"
      using release_slot_step [OF Cons.prems(1,2), of i] sp_step_refl [OF Cons.prems(1,2)] Cons.prems(3) by (simp add: f_def)
    from sp_step_trans [OF one Cons.IH [OF sp_stepD [OF one]]] Cons.prems(3) show ?case by simp
  qed
  from this [OF ok, of "[0..<4096]"] show ?thesis using r by (simp add: dl_window_release_def f_def [symmetric] slots_values)
qed

section \<open>Copying one page\<close>

lemma put_flags_steps:
  assumes ok: "mem_ok R m" and vm: "vm \<in> R" "va < KERNEL_BASE" and g: "get_page_table_entry vm va m = Some (t, i)"
    and w: "pte_get_address w = pte_get_address (mm_mem m t i)" "S2AP w = S2AP (mm_mem m t i)" "EntryType w \<noteq> 0"
  shows "steps_on R {(vm, vpn va)} m (put_word t i w m)" "priv R (put_word t i w m) = priv R m"
    "g' \<in> user_maps R \<Longrightarrow> frame_of (put_word t i w m) g' = frame_of m g'"
    "data_page R m q \<Longrightarrow> mm_mem (put_word t i w m) q = mm_mem m q"
proof -
  note mok = ref_okD(1) [OF mem_okD(1) [OF ok]]
  have t: "tab_at R m (leaf_node vm va) = Some t" and i: "i = PAGE_L3_INDEX va"
    using g by (auto simp: get_page_table_entry_def walk_tab_at [OF vm] split: option.splits if_splits)
  have f: "pt_frame R m (put_word t i w m)" by (rule put_leaf_frame [OF mok t])
  have rp: "repaged R m vm va (Some w) (put_word t i w m)"
    unfolding repaged_def using w(3) put_leaf_pte [OF mok vm t] by (auto simp: i)
  have d: "pte_of m (vm, vpn va) = Some (mm_mem m t i)" using g by (simp add: pte_vpn [OF vm(2)] pte_def)
  note rs = redesc_steps [OF ok f rp vm d w(1)]
  show "steps_on R {(vm, vpn va)} m (put_word t i w m)" "priv R (put_word t i w m) = priv R m"
    "g' \<in> user_maps R \<Longrightarrow> frame_of (put_word t i w m) g' = frame_of m g'" using rs w(2) by simp_all
  show "data_page R m q \<Longrightarrow> mm_mem (put_word t i w m) q = mm_mem m q" by (rule pt_frame_mem [OF f])
qed

lemma put_word_twice: "put_word t i w (put_word t i w' m) = put_word t i w m" "put_word t i (mm_mem m t i) m = m"
  by (simp_all add: put_word_def fun_upd_def fun_eq_iff)

lemma clone_pte_steps:
  assumes ok: "mem_ok R m" and vm: "to \<in> R" "va < KERNEL_BASE" "private_page (vpn va)" and n: "(to, vpn va) \<notin> priv R m"
    and p: "fresh R m p" and r: "arch_clone_pte_prot to va p from m = (res, m')"
  shows "steps_on R {(to, vpn va)} m m'" "res = 0 \<Longrightarrow> frame_of m' (to, vpn va) = Some p \<and> (to, vpn va) \<in> priv R m'"
    "res \<noteq> 0 \<Longrightarrow> steps_on R {} m (put_page p m')" "res = 0 \<Longrightarrow> data_page R m q \<Longrightarrow> mm_mem m' q = mm_mem m q"
proof -
  define src where "src = map_option (\<lambda>(t, i). mm_mem m t i) (get_page_table_entry from va m)"
  obtain r1 m1 where m1: "map_page_ref to va (V2P m (of_nat p)) (case src of None \<Rightarrow> AP_RW_RW | Some d \<Rightarrow> S2AP d) PTE_ATTR_WRBACK m = (r1, m1)"
    by (metis surj_pair)
  note mn = map_new_steps [OF ok vm n p m1] and mr = map_page_ref_ok [OF mem_okD(1) [OF ok] vm(1,2) n fresh_mappable [OF p] m1]
  have ok1: "mem_ok R m1" by (rule steps_on_ok [OF mn(1)])
  have cases: "r1 \<noteq> 0 \<and> res \<noteq> 0 \<and> m' = m1 \<or> r1 = 0 \<and> res = 0 \<and> (m' = m1 \<or> (\<exists>t i w. get_page_table_entry to va m1 = Some (t, i)
      \<and> m' = put_word t i w m1 \<and> pte_get_address w = pte_get_address (mm_mem m1 t i) \<and> S2AP w = S2AP (mm_mem m1 t i) \<and> EntryType w \<noteq> 0))"
  proof (cases "r1 = 0")
    case False
    then show ?thesis using r m1 by (simp add: arch_clone_pte_prot_def src_def [symmetric] Let_def)
  next
    case True
    show ?thesis
    proof (cases "get_page_table_entry to va m1")
      case None
      then show ?thesis using r m1 True by (simp add: arch_clone_pte_prot_def src_def [symmetric] Let_def)
    next
      case (Some ti)
      obtain t i where ti: "ti = (t, i)" by fastforce
      let ?d = "mm_mem m1 t i"
      let ?x = "case src of None \<Rightarrow> True | Some d \<Rightarrow> UXN d \<noteq> 0" and ?k = "case src of None \<Rightarrow> False | Some d \<Rightarrow> PXN d \<noteq> 0"
      define d1 where "d1 = (if ?x then set_UXN 1 ?d else ?d)"
      define w where "w = (if ?k then set_PXN 1 d1 else d1)"
      have e: "EntryType ?d \<noteq> 0" using Some ti by (auto simp: get_page_table_entry_def split: option.splits if_splits)
      have "m' = put_word t i w m1" "res = 0"
        using r m1 True Some ti
        by (auto simp: arch_clone_pte_prot_def src_def [symmetric] Let_def w_def d1_def put_word_twice put_word_mem simp del: One_nat_def)
      moreover have "pte_get_address w = pte_get_address ?d" "S2AP w = S2AP ?d" "EntryType w = EntryType ?d"
        by (simp_all add: w_def d1_def field_defs field_simps)
      ultimately show ?thesis
        using True Some ti e by (intro disjI2 conjI exI [of _ t] exI [of _ i] exI [of _ w]) simp_all
    qed
  qed
  have "steps_on R {(to, vpn va)} m1 m' \<and> priv R m' = priv R m1 \<and> frame_of m' (to, vpn va) = frame_of m1 (to, vpn va)
      \<and> (data_page R m1 q \<longrightarrow> mm_mem m' q = mm_mem m1 q)" for q
    using cases
  proof (elim disjE conjE exE)
    fix t i w
    assume *: "get_page_table_entry to va m1 = Some (t, i)" "m' = put_word t i w m1" "pte_get_address w = pte_get_address (mm_mem m1 t i)"
      "S2AP w = S2AP (mm_mem m1 t i)" "EntryType w \<noteq> 0"
    note pf = put_flags_steps [OF ok1 vm(1,2) *(1,3,4,5)]
    show ?thesis using pf user_map [OF vm(1,2)] unfolding *(2) by blast
  qed (use ok1 in \<open>simp_all add: steps_on_refl\<close>)
  then show "steps_on R {(to, vpn va)} m m'" "res = 0 \<Longrightarrow> frame_of m' (to, vpn va) = Some p \<and> (to, vpn va) \<in> priv R m'"
    "res = 0 \<Longrightarrow> data_page R m q \<Longrightarrow> mm_mem m' q = mm_mem m q"
    using mn(1,2) mr(3,6) cases by (auto intro: steps_on_trans)
  show "res \<noteq> 0 \<Longrightarrow> steps_on R {} m (put_page p m')"
    using cases mn(3) put_page_steps [OF ok1] by (auto intro: steps_on_trans)
qed

section \<open>Copying the window\<close>

text \<open>One page gets a copy of what the other space has there.\<close>

lemma clone_page_steps:
  assumes ok: "mem_ok R m" and vm: "to \<in> R" "from \<in> R" and va: "take_bit 12 va = 0" "va < KERNEL_BASE" "private_page (vpn va)"
    and n: "(to, vpn va) \<notin> priv R m" and g: "get_page m = (Some p, m1)"
    and r: "arch_clone_pte_prot to va p from (copy_page p (unat (P2V m1 (resolve_phy_address from va m))) m1) = (res, m')"
  shows "steps_on R {(to, vpn va)} m m'" "res \<noteq> 0 \<Longrightarrow> steps_on R {} m (put_page p m')"
    "res = 0 \<Longrightarrow> (from, vpn va) \<in> priv R m \<Longrightarrow> (to, vpn va) \<in> priv R m' \<and> contents m' (to, vpn va) = contents m (from, vpn va)"
proof -
  note gp = get_page_steps [OF ok g]
  have ok1: "mem_ok R m1" by (rule steps_on_ok [OF gp(1)])
  have c1: "same_config m m1" using gp(1) by (simp add: steps_on_def)
  have dp: "data_page R m1 p" using gp(2) by (simp add: fresh_def)
  define f where "f = mm_mem m (unat (P2V m (resolve_phy_address from va m)))"
  let ?w = "write_page p f m1"
  have w: "copy_page p (unat (P2V m1 (resolve_phy_address from va m))) m1 = ?w"
    using gp(3) config_cong(5) [OF c1] by (simp add: copy_write f_def)
  have st: "steps_on R {} m ?w" by (rule steps_on_trans [OF gp(1) write_fresh_steps [OF ok1 gp(2)]])
  have n1: "(to, vpn va) \<notin> priv R ?w" using steps_on_priv [OF st] n by simp
  note cp = clone_pte_steps [OF steps_on_ok [OF st] vm(1) va(2,3) n1 write_page_steps(2) [OF ok1 dp gp(2)] r [unfolded w]]
  show "steps_on R {(to, vpn va)} m m'" by (rule steps_on_trans [OF steps_on_mono [OF st] cp(1)]) simp
  show "res \<noteq> 0 \<Longrightarrow> steps_on R {} m (put_page p m')" using cp(3) st by (blast intro: steps_on_trans)
  assume res: "res = 0" and src: "(from, vpn va) \<in> priv R m"
  obtain q where q: "frame_of m (from, vpn va) = Some q" "data_page R m q" using ref_okD(5) [OF mem_okD(1) [OF ok] src] by blast
  have "resolve_phy_address from va m = V2P m (of_nat q)" by (rule resolve_managed [OF va(1,2) q(1)])
  then have "unat (P2V m (resolve_phy_address from va m)) = q" using page_of_phys q(2) by (simp add: data_page_def)
  then have "f = mm_mem m q" by (simp add: f_def)
  moreover have "mm_mem m' p = f" using cp(4) [OF res write_page_steps(3) [OF ok1 dp dp]] by (simp add: write_page_def)
  ultimately show "(to, vpn va) \<in> priv R m' \<and> contents m' (to, vpn va) = contents m (from, vpn va)"
    using cp(2) [OF res] q(1) by (simp add: contents_def)
qed

lemma resolve_tidy:
  assumes ok: "mem_ok R m" and vm: "vm \<in> R" and va: "take_bit 12 va = 0" "va < KERNEL_BASE" "private_page (vpn va)"
    and dl: "vpn DL_WINDOW_BASE \<le> vpn va" and r: "resolve_phy_address vm va m \<noteq> 0"
  shows "(vm, vpn va) \<in> priv R m"
proof -
  have "pte_of m (vm, vpn va) \<noteq> None" using r by (auto simp: resolve_aligned [OF va(1)] pte_vpn [OF va(2)] split: option.splits)
  then show ?thesis using mem_okD(3) [OF ok] user_map [OF vm va(2)] va(3) dl unfolding tidy_def priv_def by auto
qed

text \<open>The pages of the second space are page_copied to the first, where it has none.\<close>

definition page_copied :: "nat set \<Rightarrow> nat \<Rightarrow> nat \<Rightarrow> mm_state \<Rightarrow> mm_state \<Rightarrow> u64 \<Rightarrow> bool" where
  "page_copied R to from m m' v \<longleftrightarrow> ((to, v) \<in> priv R m' \<longrightarrow> (from, v) \<in> priv R m \<and> contents m' (to, v) = contents m (from, v))"

lemma clone_pages_steps:
  assumes "mem_ok R m" "to \<in> R" "from \<in> R" "to \<noteq> from" "distinct ks"
    "\<And>k. k \<in> set ks \<Longrightarrow> k < 65536 \<and> (to, vpn (win_va k)) \<notin> priv R m" "clone_pages to from (map win_va ks) m = (b, m')"
  shows "steps_on R ({to} \<times> (\<lambda>k. vpn (win_va k)) ` set ks) m m' \<and> (\<forall>k \<in> set ks. page_copied R to from m m' (vpn (win_va k)))
    \<and> (b \<longrightarrow> (\<forall>k \<in> set ks. (from, vpn (win_va k)) \<in> priv R m \<longrightarrow> (to, vpn (win_va k)) \<in> priv R m'))"
  using assms
proof (induction ks arbitrary: m)
  case Nil
  then show ?case by (simp add: steps_on_refl)
next
  case (Cons k ks)
  let ?va = "win_va k" and ?X = "{to} \<times> (\<lambda>k. vpn (win_va k)) ` set ks"
  have k: "k < 65536" "(to, vpn ?va) \<notin> priv R m" using Cons.prems(6) [of k] by auto
  note w = win_page [OF k(1)]
  have nx: "(to, vpn ?va) \<notin> ?X"
  proof
    assume "(to, vpn ?va) \<in> ?X"
    then obtain j where j: "j \<in> set ks" "vpn ?va = vpn (win_va j)" by auto
    then have "j < 65536" using Cons.prems(6) [of j] by simp
    from win_inj [OF k(1) this] j show False using Cons.prems(5) by auto
  qed
  have none: "page_copied R to from m m' (vpn (win_va j))" if "j \<in> set (k # ks)" "steps_on R {} m m'" for j
    using steps_on_priv [OF that(2), of "(to, vpn (win_va j))"] Cons.prems(6) [OF that(1)] by (simp add: page_copied_def)
  show ?case
  proof (cases "resolve_phy_address from ?va m = 0")
    case True
    then have np: "(from, vpn ?va) \<notin> priv R m" using resolve_priv [OF Cons.prems(1) _ w(1,2)] by blast
    have "clone_pages to from (map win_va ks) m = (b, m')" using Cons.prems(7) True by simp
    note ih = Cons.IH [OF Cons.prems(1-4) _ _ this]
    then have X: "steps_on R ?X m m'" using Cons.prems(5,6) by simp
    have "page_copied R to from m m' (vpn ?va)" using steps_on_priv [OF X nx] k(2) by (simp add: page_copied_def)
    moreover have "steps_on R ({to} \<times> (\<lambda>k. vpn (win_va k)) ` set (k # ks)) m m'" by (rule steps_on_mono [OF X]) auto
    ultimately show ?thesis using ih Cons.prems(5,6) np by auto
  next
    case False
    have src: "(from, vpn ?va) \<in> priv R m"
      by (rule resolve_tidy [OF Cons.prems(1,3) w(1,2,4) _ False]) (use w(3) in \<open>simp add: in_dl_def\<close>)
    show ?thesis
    proof (cases "get_page m")
      case (Pair q m1)
      show ?thesis
      proof (cases q)
        case None
        then have "\<not> b \<and> m' = m" using Cons.prems(7) False Pair get_page_None [of m m1] by simp
        then show ?thesis using none steps_on_refl [OF Cons.prems(1)] by blast
      next
        case (Some p)
        obtain r m2 where m2: "arch_clone_pte_prot to ?va p from (copy_page p (unat (P2V m1 (resolve_phy_address from ?va m))) m1) = (r, m2)"
          by (metis surj_pair)
        note cp = clone_page_steps [OF Cons.prems(1-3) w(1,2,4) k(2) Pair [unfolded Some] m2]
        show ?thesis
        proof (cases "r = 0")
          case bad: False
          then have "\<not> b \<and> m' = put_page p m2" using Cons.prems(7) False Pair Some m2 by simp
          then show ?thesis using cp(2) [OF bad] none steps_on_mono [OF cp(2) [OF bad] empty_subsetI] by blast
        next
          case True
          then have rec: "clone_pages to from (map win_va ks) m2 = (b, m')" using Cons.prems(7) False Pair Some m2 by simp
          have fr: "j < 65536 \<and> (to, vpn (win_va j)) \<notin> priv R m2" if j: "j \<in> set ks" for j
          proof -
            have "(to, vpn (win_va j)) \<notin> {(to, vpn ?va)}"
            proof
              assume "(to, vpn (win_va j)) \<in> {(to, vpn ?va)}"
              then have "vpn ?va = vpn (win_va j)" by simp
              then show False using nx j by blast
            qed
            from steps_on_priv [OF cp(1) this] show ?thesis using Cons.prems(6) [of j] j by simp
          qed
          note ih = Cons.IH [OF steps_on_ok [OF cp(1)] Cons.prems(2-4) _ fr rec]
          have X: "steps_on R ?X m2 m'" using ih Cons.prems(5) by simp
          have all: "steps_on R ({to} \<times> (\<lambda>k. vpn (win_va k)) ` set (k # ks)) m m'"
            by (rule steps_on_trans [OF steps_on_mono [OF cp(1)] steps_on_mono [OF X]]) auto
          have "(to, vpn ?va) \<in> priv R m2 \<and> contents m2 (to, vpn ?va) = contents m (from, vpn ?va)" using cp(3) True src by blast
          then have here: "(to, vpn ?va) \<in> priv R m' \<and> contents m' (to, vpn ?va) = contents m (from, vpn ?va)"
            using X nx steps_on_priv [OF X nx] by (simp add: steps_on_def)
          have there: "(from, v) \<in> priv R m2 \<longleftrightarrow> (from, v) \<in> priv R m" "(from, v) \<in> priv R m \<Longrightarrow> contents m2 (from, v) = contents m (from, v)" for v
            using steps_on_priv [OF cp(1), of "(from, v)"] cp(1) Cons.prems(4) by (auto simp: steps_on_def)
          have "page_copied R to from m m' (vpn (win_va j))" if "j \<in> set ks" for j
            using ih Cons.prems(5) that there [of "vpn (win_va j)"] by (auto simp: page_copied_def)
          then show ?thesis using all here src ih Cons.prems(5) there(1) by (simp add: page_copied_def)
        qed
      qed
    qed
  qed
qed

lemma win_maps_dl: "b \<le> 65536 \<Longrightarrow> win_maps vm a b \<subseteq> {vm} \<times> Collect in_dl"
  using win_page(3) by auto

text \<open>Emptying a window of which some pages may lie in slots not in use.\<close>

lemma dl_window_release_any:
  assumes ok: "mem_ok R m" and vm: "vs_vm s \<in> R" and r: "dl_window_release s m = (s', m')"
  shows "steps_on R ({vs_vm s} \<times> Collect in_dl) m m'" "\<exists>u. s' = s\<lparr>vs_dl_used := u\<rparr>"
proof -
  define f where "f = (\<lambda>i (s, m). if dl_slot_used s i
    then (dl_slot_mark i False s, fold (release_page (vs_vm s)) (slot_pages i) m) else (s, m))"
  have "steps_on R ({vs_vm s} \<times> Collect in_dl) m (snd (fold f xs (s, m))) \<and> (\<exists>u. fst (fold f xs (s, m)) = s\<lparr>vs_dl_used := u\<rparr>)"
    if "mem_ok R m" "vs_vm s \<in> R" "\<forall>i \<in> set xs. i < 4096" for xs s m
    using that
  proof (induction xs arbitrary: s m)
    case Nil
    then show ?case by (auto simp: steps_on_refl intro: exI [of _ "vs_dl_used s"])
  next
    case (Cons i xs)
    have b: "i * 16 + 16 \<le> 65536" using Cons.prems(3) by simp
    have "steps_on R ({vs_vm s} \<times> Collect in_dl) m (fold (release_page (vs_vm s)) (slot_pages i) m)"
      by (rule steps_on_mono [OF release_window(1) [OF Cons.prems(1,2) b slot_pages_set disjI1 [OF refl]] win_maps_dl [OF b]])
    then have one: "steps_on R ({vs_vm s} \<times> Collect in_dl) m (snd (f i (s, m)))" "\<exists>u. fst (f i (s, m)) = s\<lparr>vs_dl_used := u\<rparr>"
      using steps_on_refl [OF Cons.prems(1)] by (auto simp: f_def dl_slot_mark_def intro: exI [of _ "vs_dl_used s"])
    then have vm: "vs_vm (fst (f i (s, m))) = vs_vm s" by auto
    from Cons.IH [OF steps_on_ok [OF one(1)], of "fst (f i (s, m))"] Cons.prems(2,3) one
    show ?case unfolding vm by (auto intro: steps_on_trans)
  qed
  from this [OF ok vm, of "[0..<4096]"] show "steps_on R ({vs_vm s} \<times> Collect in_dl) m m'" "\<exists>u. s' = s\<lparr>vs_dl_used := u\<rparr>"
    using r by (simp_all add: dl_window_release_def f_def [symmetric] slots_values)
qed

lemma clone_slot_step:
  assumes ok: "mem_ok R m" "sp_ok R m to" and src: "from \<in> R" "vs_vm to \<noteq> from" and i: "i < 4096" "\<not> dl_slot_used to i"
    and r: "clone_pages (vs_vm to) from (slot_pages i) m = (b, m')"
  shows "steps_on R (win_maps (vs_vm to) (i * 16) (i * 16 + 16)) m m'" "b \<Longrightarrow> sp_step R m to m' (dl_slot_mark i True to)"
    "k div 16 = i \<Longrightarrow> page_copied R (vs_vm to) from m m' (vpn (win_va k))"
    "b \<Longrightarrow> k div 16 = i \<Longrightarrow> (from, vpn (win_va k)) \<in> priv R m \<Longrightarrow> (vs_vm to, vpn (win_va k)) \<in> priv R m'"
proof -
  have vas: "slot_pages i = map win_va [i * 16..<i * 16 + 16]"
  proof (rule nth_equalityI)
    show "slot_pages i ! p = map win_va [i * 16..<i * 16 + 16] ! p" if "p < length (slot_pages i)" for p
      using that by (simp add: slot_pages_def slots_values slot_win)
  qed (simp add: slot_pages_def slots_values)
  have b: "i * 16 + 16 \<le> 65536" using i(1) by simp
  have n: "k < 65536 \<and> (vs_vm to, vpn (win_va k)) \<notin> priv R m" if "k \<in> set [i * 16..<i * 16 + 16]" for k
  proof -
    have "k div 16 = i" using that slot_range [of i k] by simp
    then show ?thesis using unused_slot [OF ok(2), of k] i that by simp
  qed
  note cp = clone_pages_steps [OF ok(1) sp_okD(1) [OF ok(2)] src distinct_upt n r [unfolded vas]]
  show st: "steps_on R (win_maps (vs_vm to) (i * 16) (i * 16 + 16)) m m'" using cp by simp
  have len: "length (vs_dl_used to) = 4096" using sp_okD(4) [OF ok(2)] by (simp add: slots_values)
  have u: "(vs_dl_used to)[i := True] ! (k div 16)" if k: "k < 65536" "(vs_vm to, vpn (win_va k)) \<in> priv R m'" for k
  proof (cases "k div 16 = i")
    case True
    then show ?thesis using i(1) len by simp
  next
    case False
    then have "(vs_vm to, vpn (win_va k)) \<notin> win_maps (vs_vm to) (i * 16) (i * 16 + 16)" using win_maps_iff [OF k(1) b] slot_range by blast
    then show ?thesis using steps_on_priv [OF st] k win_used [OF ok(2)] False by (metis nth_list_update_neq)
  qed
  show "b \<Longrightarrow> sp_step R m to m' (dl_slot_mark i True to)"
    using sp_step_window [OF st ok(2) b _ u] by (simp add: dl_slot_mark_def sp_okD(4) [OF ok(2)])
  assume k: "k div 16 = i"
  then have "k \<in> set [i * 16..<i * 16 + 16]" using slot_range [of i k] by simp
  then show "page_copied R (vs_vm to) from m m' (vpn (win_va k))"
    "b \<Longrightarrow> (from, vpn (win_va k)) \<in> priv R m \<Longrightarrow> (vs_vm to, vpn (win_va k)) \<in> priv R m'" using cp by blast+
qed

end
