(* ===== verification/Vm_Fork.thy ===== *)
theory Vm_Fork
  imports Vm_Clone
begin

text \<open>
  Fork: heap pages become shared and read only, stack and mapping window are page_copied. The child sees what the
  parent sees, and the parent's memory reads as before.
\<close>

section \<open>What fork may do\<close>

text \<open>\<open>c\<close> is the child and \<open>p\<close> the parent. A page of the child is one it had before, or it reads as the parent's
  page at the same place.\<close>

definition forked :: "nat set \<Rightarrow> nat \<Rightarrow> nat \<Rightarrow> mm_state \<Rightarrow> mm_state \<Rightarrow> bool" where
  "forked R c p m m' \<longleftrightarrow> steps_on R ({c, p} \<times> UNIV) m m'
     \<and> (\<forall>v. (p, v) \<in> priv R m' \<longleftrightarrow> (p, v) \<in> priv R m)
     \<and> (\<forall>v. (p, v) \<in> priv R m \<longrightarrow> contents m' (p, v) = contents m (p, v))
     \<and> (\<forall>v. (c, v) \<in> priv R m \<longrightarrow> (c, v) \<in> priv R m')
     \<and> (\<forall>v. (c, v) \<in> priv R m' \<longrightarrow> (c, v) \<in> priv R m \<and> contents m' (c, v) = contents m (c, v)
          \<or> (p, v) \<in> priv R m \<and> contents m' (c, v) = contents m (p, v))"

lemma forked_refl: "mem_ok R m \<Longrightarrow> forked R c p m m"
  by (simp add: forked_def steps_on_refl)

lemma forkedD:
  assumes "forked R c p m m'"
  shows "steps_on R ({c, p} \<times> UNIV) m m'" "(p, v) \<in> priv R m' \<longleftrightarrow> (p, v) \<in> priv R m"
    "(p, v) \<in> priv R m \<Longrightarrow> contents m' (p, v) = contents m (p, v)" "(c, v) \<in> priv R m \<Longrightarrow> (c, v) \<in> priv R m'"
    "(c, v) \<in> priv R m' \<Longrightarrow> (c, v) \<in> priv R m \<and> contents m' (c, v) = contents m (c, v)
       \<or> (p, v) \<in> priv R m \<and> contents m' (c, v) = contents m (p, v)"
  using assms by (simp_all add: forked_def)

lemma forked_trans:
  assumes "forked R c p m m1" "forked R c p m1 m2"
  shows "forked R c p m m2"
  unfolding forked_def
proof (intro conjI allI impI)
  fix v
  show "steps_on R ({c, p} \<times> UNIV) m m2" using steps_on_trans forkedD(1) assms by blast
  show "(p, v) \<in> priv R m2 \<longleftrightarrow> (p, v) \<in> priv R m" using forkedD(2) assms by blast
  show "(p, v) \<in> priv R m \<Longrightarrow> contents m2 (p, v) = contents m (p, v)" using forkedD(2,3) assms by metis
  show "(c, v) \<in> priv R m \<Longrightarrow> (c, v) \<in> priv R m2" using forkedD(4) assms by blast
  assume "(c, v) \<in> priv R m2"
  then show "(c, v) \<in> priv R m \<and> contents m2 (c, v) = contents m (c, v) \<or> (p, v) \<in> priv R m \<and> contents m2 (c, v) = contents m (p, v)"
    using forkedD(2,3,5) [OF assms(1), of v] forkedD(5) [OF assms(2), of v] by auto
qed

lemma forked_ok: "forked R c p m m' \<Longrightarrow> mem_ok R m'"
  by (simp add: forked_def steps_on_def)

text \<open>Steps on the child's mappings only.\<close>

lemma forked_child:
  assumes st: "steps_on R X m m'" and X: "X \<subseteq> {c} \<times> UNIV" "c \<noteq> p"
    and keep: "\<And>v. (c, v) \<in> X \<Longrightarrow> (c, v) \<in> priv R m \<Longrightarrow> (c, v) \<in> priv R m'"
    and new: "\<And>v. (c, v) \<in> X \<Longrightarrow> (c, v) \<in> priv R m' \<Longrightarrow> (p, v) \<in> priv R m \<and> contents m' (c, v) = contents m (p, v)"
  shows "forked R c p m m'"
proof -
  have "steps_on R ({c, p} \<times> UNIV) m m'" by (rule steps_on_mono [OF st]) (use X in auto)
  moreover have px: "(p, v) \<notin> X" for v using X by auto
  moreover have "(c, v) \<in> priv R m \<and> contents m' (c, v) = contents m (c, v)" if "(c, v) \<in> priv R m'" "(c, v) \<notin> X" for v
    using steps_on_priv [OF st that(2)] that st by (simp add: steps_on_def)
  moreover have "contents m' (p, v) = contents m (p, v)" if "(p, v) \<in> priv R m" for v
    using st px that by (simp add: steps_on_def)
  ultimately show ?thesis
    unfolding forked_def using steps_on_priv [OF st] keep new by blast
qed

section \<open>Sharing the heap\<close>

lemma share_forked:
  assumes ok: "mem_ok R m" and vm: "c \<in> R" "p \<in> R" "c \<noteq> p"
    and va: "take_bit 12 va = 0" "va < DL_WINDOW_BASE" and n: "(c, vpn va) \<notin> priv R m"
  shows "forked R c p m (share_page c p va m)" "steps_on R {(c, vpn va), (p, vpn va)} m (share_page c p va m)"
proof -
  let ?m = "share_page c p va m"
  note h = heap_private [OF va(2,1)]
  have dl: "vpn va < vpn DL_WINDOW_BASE" using h(3) by (simp add: in_heap_def)
  have *: "steps_on R {(c, vpn va), (p, vpn va)} m ?m \<and> ((p, vpn va) \<in> priv R ?m \<longleftrightarrow> (p, vpn va) \<in> priv R m)
      \<and> ((p, vpn va) \<in> priv R m \<longrightarrow> contents ?m (p, vpn va) = contents m (p, vpn va))
      \<and> ((c, vpn va) \<in> priv R ?m \<longrightarrow> (p, vpn va) \<in> priv R m \<and> contents ?m (c, vpn va) = contents m (p, vpn va))"
  proof (cases "(p, vpn va) \<in> priv R m")
    case True
    note sh = share_page_shared [OF ok vm va(1) h(2,1) dl n True]
    show ?thesis using sh True by blast
  next
    case False
    note sh = share_page_foreign [OF ok vm va(1) h(2,1) dl n False]
    show ?thesis using sh False n by simp
  qed
  then show st: "steps_on R {(c, vpn va), (p, vpn va)} m ?m" by blast
  have "steps_on R ({c, p} \<times> UNIV) m ?m" by (rule steps_on_mono [OF st]) auto
  then show "forked R c p m ?m"
    unfolding forked_def
  proof (intro conjI allI impI)
    fix v
    have o: "v \<noteq> vpn va \<Longrightarrow> (x, v) \<notin> {(c, vpn va), (p, vpn va)}" for x by simp
    show "(p, v) \<in> priv R ?m \<longleftrightarrow> (p, v) \<in> priv R m" using * steps_on_priv [OF st o] by blast
    show "(p, v) \<in> priv R m \<Longrightarrow> contents ?m (p, v) = contents m (p, v)" using * st o by (cases "v = vpn va") (auto simp: steps_on_def)
    show "(c, v) \<in> priv R m \<Longrightarrow> (c, v) \<in> priv R ?m" using n steps_on_priv [OF st o] by blast
    assume cv: "(c, v) \<in> priv R ?m"
    show "(c, v) \<in> priv R m \<and> contents ?m (c, v) = contents m (c, v) \<or> (p, v) \<in> priv R m \<and> contents ?m (c, v) = contents m (p, v)"
    proof (cases "v = vpn va")
      case False
      then have "(c, v) \<in> priv R m" using steps_on_priv [OF st o] cv by blast
      then show ?thesis using st o [OF False] by (simp add: steps_on_def)
    qed (use * cv in blast)
  qed
qed

lemma share_loop_forked:
  assumes "mem_ok R m" "c \<in> R" "p \<in> R" "c \<noteq> p" "distinct vas"
    and "\<And>va. va \<in> set vas \<Longrightarrow> take_bit 12 va = 0 \<and> va < DL_WINDOW_BASE \<and> (c, vpn va) \<notin> priv R m"
    and "inj_on vpn (set vas)"
  shows "forked R c p m (fold (share_page c p) vas m) \<and> steps_on R ({c, p} \<times> vpn ` set vas) m (fold (share_page c p) vas m)"
  using assms
proof (induction vas arbitrary: m)
  case Nil
  then show ?case by (simp add: forked_refl steps_on_refl)
next
  case (Cons a vas)
  have a: "take_bit 12 a = 0" "a < DL_WINDOW_BASE" "(c, vpn a) \<notin> priv R m" using Cons.prems(6) [of a] by auto
  note sh = share_forked [OF Cons.prems(1-4) a]
  have "take_bit 12 va = 0 \<and> va < DL_WINDOW_BASE \<and> (c, vpn va) \<notin> priv R (share_page c p a m)" if va: "va \<in> set vas" for va
  proof -
    have "vpn va \<noteq> vpn a" using Cons.prems(5,7) va by (auto simp: inj_on_def)
    then show ?thesis using steps_on_priv [OF sh(2), of "(c, vpn va)"] Cons.prems(6) [of va] va Cons.prems(4) by simp
  qed
  from Cons.IH [OF forked_ok [OF sh(1)] Cons.prems(2-4) _ this] Cons.prems(5,7)
  have ih: "forked R c p (share_page c p a m) (fold (share_page c p) vas (share_page c p a m))"
    "steps_on R ({c, p} \<times> vpn ` set vas) (share_page c p a m) (fold (share_page c p) vas (share_page c p a m))" by (auto simp: inj_on_def)
  have "steps_on R ({c, p} \<times> vpn ` set (a # vas)) m (fold (share_page c p) vas (share_page c p a m))"
    by (rule steps_on_trans [OF steps_on_mono [OF sh(2)] steps_on_mono [OF ih(2)]]) auto
  then show ?case using forked_trans [OF sh(1) ih(1)] by simp
qed

section \<open>Copying the stack\<close>

lemma stack_above_window: "in_stack v \<Longrightarrow> vpn DL_WINDOW_BASE \<le> v"
  using layout_pages by (simp add: in_stack_def word_less_nat_alt word_le_nat_alt)

lemma page_clone_forked:
  assumes ok: "mem_ok R m" and vm: "c \<in> R" "p \<in> R" "c \<noteq> p"
    and va: "take_bit 12 va = 0" "va < KERNEL_BASE" "in_stack (vpn va)"
  shows "forked R c p m (proc_page_clone c p va m)" "steps_on R {(c, vpn va)} m (proc_page_clone c p va m)"
    "(c, vpn va) \<in> priv R m \<Longrightarrow> (p, vpn va) \<in> priv R m \<Longrightarrow> contents (proc_page_clone c p va m) (c, vpn va) = contents m (p, vpn va)"
proof -
  let ?m = "proc_page_clone c p va m" and ?t = "resolve_phy_address c va m" and ?f = "resolve_phy_address p va m"
  have pp: "private_page (vpn va)" using va(3) by (simp add: private_regions)
  have "forked R c p m ?m \<and> steps_on R {(c, vpn va)} m ?m \<and> ((c, vpn va) \<in> priv R m \<longrightarrow> (p, vpn va) \<in> priv R m \<longrightarrow> contents ?m (c, vpn va) = contents m (p, vpn va))"
  proof (cases "?t = 0 \<or> ?f = 0")
    case True
    then have "?m = m" by (simp add: proc_page_clone_def Let_def)
    moreover have "(c, vpn va) \<notin> priv R m \<or> (p, vpn va) \<notin> priv R m" using True resolve_priv [OF ok _ va(1,2)] by blast
    ultimately show ?thesis using ok forked_refl steps_on_refl by metis
  next
    case False
    have cin: "(c, vpn va) \<in> priv R m" and pin: "(p, vpn va) \<in> priv R m"
      using resolve_tidy [OF ok _ va(1,2) pp stack_above_window [OF va(3)]] vm False by auto
    obtain q where q: "frame_of m (c, vpn va) = Some q" "data_page R m q" using ref_okD(5) [OF mem_okD(1) [OF ok] cin] by blast
    obtain f where f: "frame_of m (p, vpn va) = Some f" "data_page R m f" using ref_okD(5) [OF mem_okD(1) [OF ok] pin] by blast
    have "unat (P2V m ?t) = q" "unat (P2V m ?f) = f"
      using resolve_managed [OF va(1,2) q(1)] resolve_managed [OF va(1,2) f(1)] page_of_phys q(2) f(2) by (simp_all add: data_page_def)
    then have e: "?m = write_page q (mm_mem m f) m" using False by (simp add: proc_page_clone_def Let_def copy_write)
    have "mappers (priv R m) m q \<subseteq> {(c, vpn va)}"
    proof
      fix g assume "g \<in> mappers (priv R m) m q"
      then have "g \<in> priv R m" "frame_of m (c, vpn va) = frame_of m g" using q by (auto simp: mappers_def)
      from unsharedD [OF mem_okD(2) [OF ok] cin this] stack_above_window [OF va(3)] show "g \<in> {(c, vpn va)}" by simp
    qed
    from write_page_steps(1) [OF ok q(2) this, of "mm_mem m f"] have st: "steps_on R {(c, vpn va)} m ?m" unfolding e .
    have cfg: "same_config m ?m" using st by (simp add: steps_on_def)
    have fr: "frame_of ?m (c, vpn va) = Some q"
    proof -
      have "pte_of ?m (c, vpn va) = pte_of m (c, vpn va)"
        unfolding e using write_page_steps(4) [OF ok q(2)] user_map [OF vm(1) va(2)] by blast
      then show ?thesis using q(1) config_cong(6) [OF cfg] by (simp add: frame_of_def)
    qed
    then have cnt: "contents ?m (c, vpn va) = contents m (p, vpn va)" using f(1) by (simp add: contents_def e write_page_def)
    have "(c, vpn va) \<in> priv R ?m"
      using cin counted_frame [OF _ _ fr, of R] q(2) ref_okD(2) [OF mem_okD(1) [OF steps_on_ok [OF st]]] config_cong(1) [OF cfg]
      by (simp add: priv_def data_page_def)
    then have "forked R c p m ?m" by (intro forked_child [OF st]) (use vm(3) pin cnt in auto)
    then show ?thesis using st cnt by blast
  qed
  then show "forked R c p m ?m" "steps_on R {(c, vpn va)} m ?m"
    "(c, vpn va) \<in> priv R m \<Longrightarrow> (p, vpn va) \<in> priv R m \<Longrightarrow> contents ?m (c, vpn va) = contents m (p, vpn va)" by blast+
qed

lemma stack_loop_forked:
  assumes "mem_ok R m" "c \<in> R" "p \<in> R" "c \<noteq> p" "stack_area base n" "set is \<subseteq> {..<n}" "distinct is"
    and "m' = fold (\<lambda>i. proc_page_clone c p (stack_va base i)) is m"
  shows "forked R c p m m' \<and> steps_on R (stack_maps c) m m' \<and> (\<forall>i \<in> set is. (c, vpn (stack_va base i)) \<in> priv R m \<longrightarrow>
     (p, vpn (stack_va base i)) \<in> priv R m \<longrightarrow> contents m' (c, vpn (stack_va base i)) = contents m (p, vpn (stack_va base i)))"
  using assms
proof (induction "is" arbitrary: m)
  case Nil
  then show ?case by (simp add: forked_refl steps_on_refl)
next
  case (Cons i "is")
  let ?va = "stack_va base i" and ?m = "proc_page_clone c p (stack_va base i) m"
  have i: "i < n" using Cons.prems(6) by simp
  note sp = stack_page [OF Cons.prems(5) i]
  note pc = page_clone_forked [OF Cons.prems(1-4) sp(1-3)]
  have ih: "forked R c p ?m m'" "steps_on R (stack_maps c) ?m m'" "\<forall>i \<in> set is. (c, vpn (stack_va base i)) \<in> priv R ?m \<longrightarrow>
     (p, vpn (stack_va base i)) \<in> priv R ?m \<longrightarrow> contents m' (c, vpn (stack_va base i)) = contents ?m (p, vpn (stack_va base i))"
    using Cons.IH [OF forked_ok [OF pc(1)] Cons.prems(2-5)] Cons.prems(6-8) by auto
  have st: "steps_on R (stack_maps c) m m'"
    by (rule steps_on_trans [OF steps_on_mono [OF pc(2)] ih(2)]) (use sp(3) in auto)
  have "contents m' (c, vpn (stack_va base j)) = contents m (p, vpn (stack_va base j))"
    if j: "j \<in> set (i # is)" "(c, vpn (stack_va base j)) \<in> priv R m" "(p, vpn (stack_va base j)) \<in> priv R m" for j
  proof (cases "j = i")
    case False
    have "(c, vpn (stack_va base j)) \<in> priv R ?m" "(p, vpn (stack_va base j)) \<in> priv R ?m"
      using forkedD(2,4) [OF pc(1)] j by blast+
    then show ?thesis using ih(3) False j forkedD(3) [OF pc(1) j(3)] by auto
  next
    case True
    have c1: "(c, vpn ?va) \<in> priv R ?m" using forkedD(4) [OF pc(1)] j True by blast
    have "contents ?m (c, vpn ?va) = contents m (p, vpn ?va)" using pc(3) j True by blast
    moreover have "contents m' (c, vpn ?va) = contents ?m (c, vpn ?va) \<or> contents m' (c, vpn ?va) = contents ?m (p, vpn ?va)"
      using forkedD(5) [OF ih(1)] forkedD(4) [OF ih(1) c1] by blast
    moreover have "contents ?m (p, vpn ?va) = contents m (p, vpn ?va)" using forkedD(3) [OF pc(1)] j True by blast
    ultimately show ?thesis using True by auto
  qed
  then show ?case using forked_trans [OF pc(1) ih(1)] st by blast
qed

section \<open>Copying the window\<close>

lemma clone_slots_forked:
  assumes "mem_ok R m" "sp_ok R m to" "vs_vm from \<in> R" "vs_vm to \<noteq> vs_vm from" "distinct is"
    and "\<And>i. i \<in> set is \<Longrightarrow> i < 4096 \<and> \<not> dl_slot_used to i" "clone_slots is to from m = (res, to', m')"
  shows "steps_on R ({vs_vm to} \<times> Collect in_dl) m m' \<and> (\<exists>u. to' = to\<lparr>vs_dl_used := u\<rparr>)
    \<and> (res = 0 \<longrightarrow> forked R (vs_vm to) (vs_vm from) m m' \<and> sp_ok R m' to'
       \<and> (\<forall>k < 65536. k div 16 \<in> set is \<longrightarrow> dl_slot_used from (k div 16) \<longrightarrow> (vs_vm from, vpn (win_va k)) \<in> priv R m \<longrightarrow>
            (vs_vm to, vpn (win_va k)) \<in> priv R m'))"
  using assms
proof (induction "is" arbitrary: to m)
  case Nil
  then show ?case by (auto simp: steps_on_refl forked_refl intro: exI [of _ "vs_dl_used to"])
next
  case (Cons i "is")
  let ?c = "vs_vm to" and ?p = "vs_vm from"
  have i: "i < 4096" "\<not> dl_slot_used to i" "i \<notin> set is" "distinct is" using Cons.prems(5,6) by auto
  show ?case
  proof (cases "dl_slot_used from i")
    case False
    then have "clone_slots is to from m = (res, to', m')" using Cons.prems(7) by simp
    from Cons.IH [OF Cons.prems(1-4) i(4) _ this] Cons.prems(6) False show ?thesis by auto
  next
    case True
    obtain b m1 where m1: "clone_pages ?c ?p (slot_pages i) m = (b, m1)" by (metis surj_pair)
    note cs = clone_slot_step [OF Cons.prems(1-4) i(1,2) m1]
    have bd: "i * 16 + 16 \<le> 65536" using i(1) by simp
    have st1: "steps_on R ({?c} \<times> Collect in_dl) m m1" by (rule steps_on_mono [OF cs(1) win_maps_dl [OF bd]])
    show ?thesis
    proof (cases b)
      case False
      obtain t2 m2 where d: "dl_window_release to m1 = (t2, m2)" by (metis surj_pair)
      have e: "res \<noteq> 0" "to' = t2" "m' = m2" using Cons.prems(7) True m1 False d by auto
      note dr = dl_window_release_any [OF steps_on_ok [OF st1] sp_okD(1) [OF Cons.prems(2)] d]
      show ?thesis using e dr steps_on_trans [OF st1 dr(1)] by simp
    next
      case b: True
      let ?t = "dl_slot_mark i True to"
      have t: "vs_vm ?t = ?c" by (simp add: dl_slot_mark_def)
      have rec: "clone_slots is ?t from m1 = (res, to', m')" using Cons.prems(7) True m1 b by simp
      have okt: "sp_ok R m1 ?t" using cs(2) [OF b] by (rule sp_stepD)
      have un: "j < 4096 \<and> \<not> dl_slot_used ?t j" if "j \<in> set is" for j
      proof -
        have "i \<noteq> j" using that i(3) by blast
        then show ?thesis using Cons.prems(6) [of j] that by (simp add: dl_slot_mark_def dl_slot_used_def)
      qed
      have "vs_vm ?t \<noteq> ?p" using Cons.prems(4) t by simp
      note ih = Cons.IH [OF steps_on_ok [OF st1] okt Cons.prems(3) this i(4) un rec, unfolded t]
      have st: "steps_on R ({?c} \<times> Collect in_dl) m m'" using ih st1 steps_on_trans by blast
      have u: "\<exists>u. to' = to\<lparr>vs_dl_used := u\<rparr>" using ih by (auto simp: dl_slot_mark_def)
      have f1: "forked R ?c ?p m m1"
      proof (rule forked_child [OF cs(1)])
        show "win_maps ?c (i * 16) (i * 16 + 16) \<subseteq> {?c} \<times> UNIV" by auto
        fix v assume "(?c, v) \<in> win_maps ?c (i * 16) (i * 16 + 16)"
        then obtain k where k: "k div 16 = i" "v = vpn (win_va k)" "k < 65536" using slot_range [of i] bd by auto
        show "(?c, v) \<in> priv R m \<Longrightarrow> (?c, v) \<in> priv R m1" using unused_slot [OF Cons.prems(2) k(3)] i(2) k by simp
        show "(?c, v) \<in> priv R m1 \<Longrightarrow> (?p, v) \<in> priv R m \<and> contents m1 (?c, v) = contents m (?p, v)"
          using cs(3) [OF k(1)] k(2) by (simp add: page_copied_def)
      qed (rule Cons.prems(4))
      have "(?c, vpn (win_va k)) \<in> priv R m'"
        if res: "res = 0" and k: "k < 65536" "k div 16 \<in> set (i # is)" "dl_slot_used from (k div 16)" "(?p, vpn (win_va k)) \<in> priv R m" for k
      proof (cases "k div 16 = i")
        case True
        then have "(?c, vpn (win_va k)) \<in> priv R m1" using cs(4) [OF b] k by blast
        moreover have "forked R ?c ?p m1 m'" using ih res by blast
        ultimately show ?thesis using forkedD(4) by blast
      next
        case False
        have "(?p, vpn (win_va k)) \<in> priv R m1" using forkedD(2) [OF f1] k(4) by blast
        then show ?thesis using ih res k False by auto
      qed
      then show ?thesis using st u ih forked_trans [OF f1] by blast
    qed
  qed
qed

section \<open>Fork\<close>

text \<open>A space without private heap and mapping window, as a new process has it.\<close>

definition blank :: "vspace \<Rightarrow> bool" where
  "blank s \<longleftrightarrow> vs_heap_size s = 0 \<and> (\<forall>i < DL_WINDOW_SLOTS. \<not> dl_slot_used s i)"

lemma heap_pages:
  assumes "sp_ok R m s"
  obtains n where "n \<le> 0x3FB7FFF" "unat (vs_heap_size s) = 4096 * n" "unat (ucast (vs_heap_size s div PAGE) :: u32) = n"
    "vs_heap_size s mod PAGE = 0" "of_nat (n * PAGE_SIZE) = vs_heap_size s"
proof -
  obtain n where n: "unat (vs_heap_size s) = 4096 * n" using sp_okD(2) [OF assms] unfolding aligned_dvd by (metis mod_0_imp_dvd dvdE)
  have le: "n \<le> 0x3FB7FFF" using sp_okD(3) [OF assms] n by (simp add: layout_values word_le_nat_alt)
  have d: "unat (vs_heap_size s div PAGE) = n" using n by (simp add: PAGE_SIZE_def unat_div)
  have u: "unat (ucast (vs_heap_size s div PAGE) :: u32) = n" using le by (simp add: unsigned_ucast_eq d take_bit_nat_eq_self_iff)
  have z: "vs_heap_size s mod PAGE = 0" by (rule unat_eq_zero [THEN iffD1]) (simp add: PAGE_SIZE_def unat_mod n)
  have "of_nat (n * PAGE_SIZE) = vs_heap_size s"
    by (rule word_unat_eq_iff [THEN iffD2]) (use le n in \<open>simp add: PAGE_SIZE_def unat_of_nat mult.commute del: of_nat_mult\<close>)
  then show ?thesis by (rule that [OF le n u z])
qed

lemma heap_page_va:
  assumes "n \<le> 0x3FB7FFF" "i < n"
  shows "take_bit 12 (of_nat (i * PAGE_SIZE) :: u64) = 0" "(of_nat (i * PAGE_SIZE) :: u64) < DL_WINDOW_BASE"
    "unat (vpn (of_nat (i * PAGE_SIZE))) = i"
proof -
  have u: "unat (of_nat (i * PAGE_SIZE) :: u64) = i * 4096" using assms by (simp add: PAGE_SIZE_def unat_of_nat del: of_nat_mult)
  show "take_bit 12 (of_nat (i * PAGE_SIZE) :: u64) = 0" unfolding aligned_dvd u by simp
  show "(of_nat (i * PAGE_SIZE) :: u64) < DL_WINDOW_BASE" unfolding word_less_nat_alt u using assms by (simp add: layout_values)
  show "unat (vpn (of_nat (i * PAGE_SIZE))) = i" unfolding unat_vpn u by simp
qed

lemma proc_clone_forked:
  assumes ok: "mem_ok R m" and sp: "sp_ok R m ch" "sp_ok R m pa" "vs_vm ch \<noteq> vs_vm pa" and bl: "blank ch"
    and st: "stack_area base STACK_PAGES" and r: "proc_clone_space base ch pa m = (res, ch', m')"
  shows "steps_on R ({vs_vm ch, vs_vm pa} \<times> UNIV) m m'" "vs_vm ch' = vs_vm ch"
    "res = 0 \<Longrightarrow> forked R (vs_vm ch) (vs_vm pa) m m' \<and> sp_ok R m' ch'"
    "sp_ok R m' pa" "(vs_vm pa, v) \<in> priv R m \<Longrightarrow> contents m' (vs_vm pa, v) = contents m (vs_vm pa, v)"
    "res = 0 \<Longrightarrow> in_dl v \<Longrightarrow> (vs_vm pa, v) \<in> priv R m \<Longrightarrow> (vs_vm ch, v) \<in> priv R m'"
    "res = 0 \<Longrightarrow> i < STACK_PAGES \<Longrightarrow> (vs_vm ch, vpn (stack_va base i)) \<in> priv R m \<Longrightarrow> (vs_vm pa, vpn (stack_va base i)) \<in> priv R m \<Longrightarrow>
       contents m' (vs_vm ch, vpn (stack_va base i)) = contents m (vs_vm pa, vpn (stack_va base i))"
proof -
  let ?c = "vs_vm ch" and ?p = "vs_vm pa"
  note vm = sp_okD(1) [OF sp(1)] sp_okD(1) [OF sp(2)] sp(3)
  obtain n where n: "n \<le> 0x3FB7FFF" "unat (vs_heap_size pa) = 4096 * n" "unat (ucast (vs_heap_size pa div PAGE) :: u32) = n"
    "vs_heap_size pa mod PAGE = 0" "of_nat (n * PAGE_SIZE) = vs_heap_size pa" by (rule heap_pages [OF sp(2)])
  define vas where "vas = map (\<lambda>i. of_nat (i * PAGE_SIZE) :: u64) [0..<n]"
  define m1 where "m1 = fold (share_page ?c ?p) vas m"
  define m2 where "m2 = fold (\<lambda>i. proc_page_clone ?c ?p (stack_va base i)) [0..<STACK_PAGES] m1"
  define t where "t = ch\<lparr>vs_heap_size := vs_heap_size pa, vs_heap_used := vs_heap_used pa,
     vs_malloc_base := vs_malloc_base pa, vs_rw_heap_base := vs_rw_heap_base pa\<rparr>"
  have cl: "clone_slots [0..<4096] t pa m2 = (res, ch', m')"
    using r n by (simp add: proc_clone_space_def Let_def dl_window_clone_def m2_def m1_def vas_def t_def fold_map comp_def slots_values del: of_nat_mult upt_Suc)
  have heap: "(?c, v) \<notin> priv R m" if "in_heap v" for v
    using sp_okD(5) [OF sp(1), of v] that bl by (auto simp: blank_def vpn_def word_less_nat_alt)
  have inj: "inj_on vpn (set vas)" "distinct vas"
  proof -
    have eq: "i = j" if "i < n" "j < n" "vpn (of_nat (i * PAGE_SIZE)) = vpn (of_nat (j * PAGE_SIZE))" for i j
      using heap_page_va(3) [OF n(1)] that by metis
    show "inj_on vpn (set vas)" unfolding vas_def set_map by (intro inj_onI, elim imageE) (metis eq atLeastLessThan_iff set_upt)
    show "distinct vas" unfolding vas_def using eq by (auto simp: distinct_map inj_on_def simp del: of_nat_mult)
  qed
  have vas: "take_bit 12 va = 0 \<and> va < DL_WINDOW_BASE \<and> (?c, vpn va) \<notin> priv R m" if "va \<in> set vas" for va
    using that heap_page_va(1,2) [OF n(1)] heap heap_private(3) by (auto simp: vas_def simp del: of_nat_mult)
  note sl = share_loop_forked [OF ok vm inj(2) vas inj(1), folded m1_def]
  have f1: "forked R ?c ?p m m1" using sl by blast
  have sub: "set [0..<STACK_PAGES] \<subseteq> {..<STACK_PAGES}" by auto
  note sk = stack_loop_forked [OF forked_ok [OF f1] vm st sub distinct_upt m2_def]
  have f2: "forked R ?c ?p m m2" using sk forked_trans [OF f1] by blast
  have tvm: "vs_vm t = ?c" by (simp add: t_def)
  have vas_heap: "v < vpn (vs_heap_size pa)" if "v \<in> vpn ` set vas" for v
    using that heap_page_va(3) [OF n(1)] n(2) by (auto simp: vas_def word_less_nat_alt unat_vpn simp del: of_nat_mult)
  have parent: "(?p, v) \<in> priv R m2 \<longleftrightarrow> (?p, v) \<in> priv R m" for v by (rule forkedD(2) [OF f2])
  have okt: "sp_ok R m2 t"
  proof -
    have "(in_heap v \<longrightarrow> v < vpn (vs_heap_size pa)) \<and> (in_dl v \<longrightarrow> vs_dl_used ch ! slot_of v)" if v: "(?c, v) \<in> priv R m2" for v
    proof -
      have "v < vpn (vs_heap_size pa)" if "in_heap v"
        using forkedD(5) [OF f2 v] heap [OF that] sp_okD(5) [OF sp(2) _ that] by blast
      moreover have "vs_dl_used ch ! slot_of v" if dl: "in_dl v"
      proof -
        have "(?c, v) \<notin> {?c, ?p} \<times> vpn ` set vas" "(?c, v) \<notin> stack_maps ?c"
          using dl regions_disjoint vas heap_private(3) by fastforce+
        then have "(?c, v) \<in> priv R m" using v steps_on_priv [OF conjunct2 [OF sl]] steps_on_priv [OF conjunct1 [OF conjunct2 [OF sk]]] by blast
        then show ?thesis using sp_okD(6) [OF sp(1) _ dl] by blast
      qed
      ultimately show ?thesis by blast
    qed
    then show ?thesis using sp_okD(1,4) [OF sp(1)] sp_okD(2,3) [OF sp(2)] by (simp add: sp_ok_def t_def)
  qed
  have unused: "i < 4096 \<and> \<not> dl_slot_used t i" if "i \<in> set [0..<4096]" for i
    using bl that by (simp add: blank_def dl_slot_used_def t_def slots_values)
  have "vs_vm t \<noteq> ?p" using sp(3) tvm by simp
  note cs = clone_slots_forked [OF forked_ok [OF f2] okt vm(2) this distinct_upt unused cl, unfolded tvm]
  show steps: "steps_on R ({?c, ?p} \<times> UNIV) m m'"
    using forkedD(1) [OF f2] cs steps_on_mono [of R "{?c} \<times> Collect in_dl" m2 m' "{?c, ?p} \<times> UNIV"] by (auto intro: steps_on_trans)
  show "vs_vm ch' = ?c" using cs tvm by auto
  show "forked R ?c ?p m m' \<and> sp_ok R m' ch'" if "res = 0" using cs that forked_trans [OF f2] by blast
  have other: "(?p, v) \<notin> {?c} \<times> Collect in_dl" for v using sp(3) by auto
  have st2: "steps_on R ({?c} \<times> Collect in_dl) m2 m'" using cs by blast
  have parent': "(?p, v) \<in> priv R m' \<longleftrightarrow> (?p, v) \<in> priv R m" for v
    using steps_on_priv [OF st2 other] parent by blast
  then show "sp_ok R m' pa" using sp(2) by (simp add: sp_ok_def)
  show "contents m' (?p, v) = contents m (?p, v)" if "(?p, v) \<in> priv R m"
    using that forkedD(3) [OF f2 that] parent st2 other by (simp add: steps_on_def)
  show "(?c, v) \<in> priv R m'" if dl: "res = 0" "in_dl v" "(?p, v) \<in> priv R m"
  proof -
    obtain k where k: "k < 65536" "v = vpn (win_va k)" by (rule in_dl_win [OF dl(2)])
    have "dl_slot_used pa (k div 16)" using win_used [OF sp(2) k(1)] dl(3) k(2) by (simp add: dl_slot_used_def)
    then show ?thesis using cs dl k parent by auto
  qed
  assume res: "res = 0" and i: "i < STACK_PAGES"
    and ms: "(?c, vpn (stack_va base i)) \<in> priv R m" "(?p, vpn (stack_va base i)) \<in> priv R m"
  let ?v = "vpn (stack_va base i)"
  have "(?c, ?v) \<in> priv R m1" "(?p, ?v) \<in> priv R m1" "contents m1 (?p, ?v) = contents m (?p, ?v)"
    using forkedD(2,3,4) [OF f1] ms by blast+
  then have c2: "contents m2 (?c, ?v) = contents m (?p, ?v)" using sk i by auto
  have "(?c, ?v) \<in> priv R m2" using forkedD(4) [OF f2] ms by blast
  moreover have "(?c, ?v) \<notin> {?c} \<times> Collect in_dl" using stack_page(3) [OF st i] regions_disjoint by auto
  ultimately show "contents m' (?c, ?v) = contents m (?p, ?v)" using c2 st2 by (simp add: steps_on_def)
qed

end
