(* ===== verification/Vm_World.thy ===== *)
theory Vm_World
  imports Vm_Fork
begin

text \<open>
  Worlds: the memory together with the address spaces in use, each under its page directory. An operation of one
  space fulfils a contract, and every operation that does so keeps the accounting of the world and the memory of
  all other spaces. Each operation on private memory is shown to fulfil it.
\<close>

type_synonym world = "(nat \<rightharpoonup> vspace) \<times> mm_state"

text \<open>A store of the process into its memory, which the page tables permit.\<close>

definition user_store :: "nat \<Rightarrow> u64 \<Rightarrow> nat \<Rightarrow> u64 \<Rightarrow> mm_state \<Rightarrow> mm_state" where
  "user_store k v i w m = (case frame_of m (k, v) of
      None \<Rightarrow> m
    | Some p \<Rightarrow> if writable m (k, v) then write_page p ((mm_mem m p)(i := w)) m else m)"

section \<open>Invariant\<close>

definition world_ok :: "nat set \<Rightarrow> world \<Rightarrow> bool" where
  "world_ok R w \<longleftrightarrow> mem_ok R (snd w) \<and> (\<forall>k s. fst w k = Some s \<longrightarrow> vs_vm s = k \<and> sp_ok R (snd w) s)"

lemma world_okD: "world_ok R (S, m) \<Longrightarrow> mem_ok R m" "world_ok R (S, m) \<Longrightarrow> S k = Some s \<Longrightarrow> vs_vm s = k \<and> sp_ok R m s"
  by (simp_all add: world_ok_def)

text \<open>What a step about \<open>A\<close> leaves alone: the other spaces, their mappings and the contents of their pages.\<close>

definition untouched :: "nat set \<Rightarrow> nat set \<Rightarrow> world \<Rightarrow> world \<Rightarrow> bool" where
  "untouched R A w w' \<longleftrightarrow> (\<forall>j. j \<notin> A \<longrightarrow> fst w' j = fst w j) \<and> steps_on R (A \<times> UNIV) (snd w) (snd w')"

lemma world_sp_step:
  assumes ok: "world_ok R (S, m)" and k: "S k = Some s" and st: "sp_step R m s m' s'"
  shows "world_ok R (S(k \<mapsto> s'), m')" "untouched R {k} (S, m) (S(k \<mapsto> s'), m')"
proof -
  have vs: "vs_vm s = k" using world_okD(2) [OF ok k] by blast
  have on: "steps_on R ({k} \<times> UNIV) m m'" using st vs by (simp add: sp_step_def)
  have "sp_ok R m' t" if "S j = Some t" "j \<noteq> k" for j t
    by (rule sp_ok_other [OF _ on]) (use world_okD(2) [OF ok that(1)] that(2) in auto)
  then show "world_ok R (S(k \<mapsto> s'), m')"
    using ok st vs unfolding world_ok_def sp_step_def by (auto simp: steps_on_ok [OF on])
  show "untouched R {k} (S, m) (S(k \<mapsto> s'), m')" using on by (simp add: untouched_def)
qed

lemma user_store_step:
  assumes ok: "mem_ok R m" "sp_ok R m s" and g: "(vs_vm s, v) \<in> priv R m"
  shows "sp_step R m s (user_store (vs_vm s) v i w m) s"
proof -
  obtain p where p: "frame_of m (vs_vm s, v) = Some p" "data_page R m p" using ref_okD(5) [OF mem_okD(1) [OF ok(1)] g] by blast
  show ?thesis
  proof (cases "writable m (vs_vm s, v)")
    case False
    then show ?thesis using p sp_step_refl [OF ok] by (simp add: user_store_def)
  next
    case True
    let ?m = "write_page p ((mm_mem m p)(i := w)) m"
    have "mappers (priv R m) m p \<subseteq> own s"
      using ref_okD(8) [OF mem_okD(1) [OF ok(1)] g _ _ True] p by (auto simp: mappers_def)
    from write_page_steps(1) [OF ok(1) p(2) this] have st: "steps_on R (own s) m ?m" .
    have "priv R ?m = priv R m"
      using priv_same [of m ?m R] write_page_steps(4) [OF ok(1) p(2)] st by (simp add: steps_on_def)
    then have "sp_step R m s ?m s" by (intro sp_step_priv [OF st ok(2)]) simp
    then show ?thesis using p True by (simp add: user_store_def)
  qed
qed

lemma map_stack_sp:
  assumes "mem_ok R m" "sp_ok R m s" "stack_area base pages" "\<forall>j < pages. (vs_vm s, vpn (stack_va base j)) \<notin> priv R m"
  shows "sp_step R m s (snd (snd (map_stack (vs_vm s) base pages n m))) s"
proof -
  obtain r st m' where m': "map_stack (vs_vm s) base pages n m = (r, st, m')" by (metis prod_cases3)
  have "steps_on R (stack_maps (vs_vm s)) m m'"
    by (rule map_stack_steps [OF assms(3) sp_okD(1) [OF assms(2)] assms(1) _ m']) (use assms(4) in blast)
  then show ?thesis using sp_step_stack [OF _ assms(2)] m' by simp
qed

section \<open>The contract of an operation\<close>

locale space_op =
  fixes pre :: "nat set \<Rightarrow> vspace \<Rightarrow> mm_state \<Rightarrow> bool" and f :: "vspace \<Rightarrow> mm_state \<Rightarrow> vspace \<times> mm_state"
  assumes step: "mem_ok R m \<Longrightarrow> sp_ok R m s \<Longrightarrow> pre R s m \<Longrightarrow> f s m = (s', m') \<Longrightarrow> sp_step R m s m' s'"
begin

lemma in_world:
  assumes "world_ok R (S, m)" "S k = Some s" "pre R s m" "f s m = (s', m')"
  shows "world_ok R (S(k \<mapsto> s'), m') \<and> untouched R {k} (S, m) (S(k \<mapsto> s'), m')"
  using world_sp_step [OF assms(1,2)] step [OF _ _ assms(3,4)] world_okD [OF assms(1)] assms(2) by blast

lemma in_world_same:
  assumes "world_ok R (S, m)" "S k = Some s" "pre R s m" "f s m = (s, m')"
  shows "world_ok R (S, m') \<and> untouched R {k} (S, m) (S, m')"
  using in_world [OF assms] assms(2) by (simp add: fun_upd_idem)

end

text \<open>The operations on private memory.\<close>

interpretation expand_op: space_op "\<lambda>R s m. dma_relocated dma \<and> n < 2 ^ 31" "\<lambda>s m. snd (proc_expand_mem dma n s m)" for dma n
  by unfold_locales (metis proc_expand_mem_step prod.collapse)
interpretation malloc_op: space_op "\<lambda>R s m. dma_relocated dma \<and> vs_heap_size s \<noteq> 0" "\<lambda>s m. snd (proc_malloc dma sz s m)" for dma sz
  by unfold_locales (metis proc_malloc_step prod.collapse)
interpretation free_op: space_op "\<lambda>R s m. vs_heap_size s \<noteq> 0" "proc_free"
  by unfold_locales (rule proc_free_step)
interpretation free_heap_op: space_op "\<lambda>R s m. True" "proc_free_heap"
  by unfold_locales (rule proc_free_heap_step)
interpretation stack_op: space_op "\<lambda>R s m. stack_area base pages \<and> (\<forall>j < pages. (vs_vm s, vpn (stack_va base j)) \<notin> priv R m)" "\<lambda>s m. (s, snd (snd (map_stack (vs_vm s) base pages n m)))" for base pages n
  by unfold_locales (use map_stack_sp in auto)
interpretation unstack_op: space_op "\<lambda>R s m. stack_area base pages" "\<lambda>s m. (s, snd (unmap_stack (vs_vm s) base pages m))" for base pages
  by unfold_locales (use unmap_stack_steps sp_okD(1) sp_step_stack in auto)
interpretation fault_op: space_op "\<lambda>R s m. True" "\<lambda>s m. (s, snd (data_fault s addr m))" for addr
  by unfold_locales (auto intro!: data_fault_step [OF _ _ prod.collapse [symmetric]])
interpretation dl_alloc_op: space_op "\<lambda>R s m. True" "\<lambda>s m. snd (dl_window_alloc sz prot s m)" for sz prot
  by unfold_locales (metis dl_window_alloc_step prod.collapse)
interpretation dl_protect_op: space_op "\<lambda>R s m. True" "\<lambda>s m. (s, snd (dl_window_protect va sz prot s m))" for va sz prot
  by unfold_locales (auto intro!: dl_window_protect_step [OF _ _ prod.collapse [symmetric]])
interpretation dl_free_op: space_op "\<lambda>R s m. True" "\<lambda>s m. snd (dl_window_free va sz s m)" for va sz
  by unfold_locales (metis dl_window_free_step prod.collapse)
interpretation dl_release_op: space_op "\<lambda>R s m. True" "dl_window_release"
  by unfold_locales (rule dl_window_release_step)
interpretation store_op: space_op "\<lambda>R s m. (vs_vm s, v) \<in> priv R m" "\<lambda>s m. (s, user_store (vs_vm s) v i w m)" for v i w
  by unfold_locales (use user_store_step in auto)

end
