(* ===== verification/Vm_Props.thy ===== *)
theory Vm_Props
  imports Vm_World
begin

text \<open>
  The memory operations of all processes as one step relation on worlds, and the properties of private memory. The
  set of page directories is fixed; a space enters and leaves the world with a page directory of this set.
\<close>

section \<open>Steps\<close>



section \<open>Runs keep the invariant\<close>





section \<open>Example\<close>

text \<open>Two empty page directories and eight free pages; the second space is about to be used.\<close>

definition ex_vm :: mm_state where
  "ex_vm = \<lparr>mm_ka = kalloc_reset\<lparr>free_list_page := map (\<lambda>i. 0x4000010000 + i * 4096) [0..<8]\<rparr>, mm_mem = (\<lambda>_ _. 0),
     mm_phy_offset = 0, mm_ref_base = 0x10000, mm_refs = replicate 8 0\<rparr>"

definition ex_space :: "nat \<Rightarrow> vspace" where
  "ex_space vm = \<lparr>vs_vm = vm, vs_heap_size = 0, vs_heap_used = 0, vs_malloc_base = 0, vs_rw_heap_base = 0,
     vs_dl_used = replicate DL_WINDOW_SLOTS False\<rparr>"

abbreviation ex_dirs :: "nat set" where "ex_dirs \<equiv> {0x4000008000, 0x4000009000}"


lemma ex_tab_at: "tab_at R ex_vm (r, p) = (if p = [] \<and> r \<in> R then Some r else None)"
  by (cases "(R, ex_vm, (r, p))" rule: tab_at.cases) (simp_all add: tab_at.simps l2_at_def child_def ex_vm_def)

lemma ex_pte: "pte_of ex_vm g = None"
  by (simp add: pte_of_def pte_def get_page_table_entry_def walk_def ex_vm_def)

lemma ex_priv: "priv R ex_vm = {}"
  by (simp add: priv_def counted_def ex_pte)

lemma ex_free: "p \<in> free_pages ex_vm \<Longrightarrow> managed ex_vm p \<and> page_ok (mm_phy_offset ex_vm) p"
proof -
  assume "p \<in> free_pages ex_vm"
  then have "p \<in> set [0x4000010000, 0x4000011000, 0x4000012000, 0x4000013000, 0x4000014000, 0x4000015000, 0x4000016000, 0x4000017000]"
    by (simp add: ex_vm_def upt_rec)
  then show ?thesis
    by (auto simp: managed_def page_ok_def fidx_def V2P_def ex_vm_def KERNEL_BASE_def take_bit_eq_mod PAGE_SIZE_def)
qed

lemma ex_mem_ok: "mem_ok ex_dirs ex_vm"
proof -
  have "mmu_ok ex_dirs ex_vm"
    unfolding mmu_ok_def
  proof (intro conjI)
    show "\<forall>a \<in> free_pages ex_vm. page_ok (mm_phy_offset ex_vm) a" using ex_free by blast
    show "distinct (free_list_page (mm_ka ex_vm))" by (simp add: ex_vm_def upt_rec)
    show "\<forall>p a. tab_at ex_dirs ex_vm p = Some a \<longrightarrow> a \<notin> free_pages ex_vm"
    proof (intro allI impI)
      fix p a assume "tab_at ex_dirs ex_vm p = Some a"
      then have "a \<in> ex_dirs" by (cases p) (auto simp: ex_tab_at split: if_splits)
      then show "a \<notin> free_pages ex_vm" by (auto simp: ex_vm_def)
    qed
  qed (auto simp: ex_tab_at split: if_splits)
  moreover have "refs_config ex_dirs ex_vm"
    by (simp add: refs_config_def ex_vm_def ref_index_def page_ref_index_def take_bit_eq_mod PAGE_SIZE_def)
  moreover have "mm_refs ex_vm ! fidx ex_vm p = of_nat (card (mappers {} ex_vm p))" if "managed ex_vm p" for p
    using that by (simp add: managed_def mappers_def ex_vm_def)
  ultimately have "ref_ok {} ex_dirs {} ex_vm" using ex_free by (simp add: ref_ok_def user_maps_def)
  then show ?thesis by (simp add: mem_ok_def ex_priv unshared_def tidy_def ex_pte)
qed




section \<open>The properties\<close>





lemma copy_on_write_succeeds:
  assumes "resolve_phy_address vm (ALIGN_DOWN addr PAGE) m = 0" "3 \<le> length (free_list_page (mm_ka m))"
  shows "fst (copy_on_write vm addr m) = 0"
proof (cases rule: get_page_cases [of m])
  case 1
  then show ?thesis using assms(2) by simp
next
  case (2 p ps ka)
  let ?m = "zero_page p (m\<lparr>mm_ka := ka\<rparr>)"
  have "fst (map_page vm (ALIGN_DOWN addr PAGE) (V2P ?m (of_nat p)) AP_RW_RW PTE_ATTR_WRBACK ?m) = 0"
    by (rule map_page_succeeds) (use 2 assms(2) in \<open>simp add: zero_page_def\<close>)
  then have "fst (map_page_ref vm (ALIGN_DOWN addr PAGE) (V2P ?m (of_nat p)) AP_RW_RW PTE_ATTR_WRBACK ?m) = 0"
    by (auto simp: map_page_ref_def Let_def split: prod.splits)
  then show ?thesis using 2(3) assms(1) by (auto simp: copy_on_write_def Let_def split: prod.splits)
qed

text \<open>C14: copy on write. When the repair of a fault in private memory succeeds, the process has a page of its own at
  the faulting place, taken from the free pages, which it may write to; it reads as the page that was mapped
  there before, or as zeros when there was none. All other private mappings stay, and their pages read as
  before, whether the repair succeeds or not.\<close>

theorem copy_on_write_private_copy:
  assumes "mem_ok R m" "vm \<in> R" "addr < KERNEL_BASE" "private_page (vpn addr)" "copy_on_write vm addr m = (res, m')"
  shows "mem_ok R m' \<and> (\<forall>g \<in> priv R m. g \<noteq> (vm, vpn addr) \<longrightarrow> g \<in> priv R m' \<and> contents m' g = contents m g)
    \<and> (res = 0 \<longrightarrow> (\<exists>p \<in> free_pages m. frame_of m' (vm, vpn addr) = Some p) \<and> writable m' (vm, vpn addr)
         \<and> (\<forall>g \<in> priv R m'. frame_of m' g = frame_of m' (vm, vpn addr) \<longrightarrow> g = (vm, vpn addr))
         \<and> ((vm, vpn addr) \<in> priv R m \<longrightarrow> contents m' (vm, vpn addr) = contents m (vm, vpn addr))
         \<and> (pte_of m (vm, vpn addr) = None \<longrightarrow> contents m' (vm, vpn addr) = Some (\<lambda>_. 0)))"
proof -
  let ?va = "ALIGN_DOWN addr PAGE" and ?g = "(vm, vpn addr)"
  have va: "take_bit 12 ?va = 0" "vpn ?va = vpn addr" by (rule page_start)+
  have kb: "?va < KERNEL_BASE" using page_start(3) [of addr] assms(3) by (rule order.strict_trans1)
  note cow = copy_on_write_steps [OF assms(1,2) va(1) kb assms(4) [folded va(2)] refl assms(5), unfolded va(2)]
  have ok': "mem_ok R m'" by (rule steps_on_ok [OF cow(1)])
  have other: "g \<in> priv R m' \<and> contents m' g = contents m g" if "g \<in> priv R m" "g \<noteq> ?g" for g
    using steps_on_priv [OF cow(1), of g] cow(1) that by (simp add: steps_on_def)
  have zero: "pte_of m ?g = None \<Longrightarrow> resolve_phy_address vm ?va m = 0"
    using pte_vpn [OF kb, of m vm] by (simp add: resolve_aligned [OF va(1)] va(2))
  have "contents m' ?g = contents m ?g" if g: "?g \<in> priv R m" and r: "res = 0"
  proof -
    obtain q where q: "frame_of m ?g = Some q" "data_page R m q" using ref_okD(5) [OF mem_okD(1) [OF assms(1)] g] by blast
    have "resolve_phy_address vm ?va m = V2P m (of_nat q)" by (rule resolve_managed [OF va(1) kb]) (simp add: va(2) q(1))
    then have "unat (P2V m (resolve_phy_address vm ?va m)) = q" using page_of_phys q(2) by (simp add: data_page_def)
    then show ?thesis
      using cow(2) [OF r] q(1) resolve_priv [OF assms(1) _ va(1) kb, of vm] g by (auto simp: contents_def va(2))
  qed
  moreover have "contents m' ?g = Some (\<lambda>_. 0)" if "pte_of m ?g = None" "res = 0"
    using cow(2) [OF that(2)] zero [OF that(1)] by (auto simp: contents_def)
  moreover have "g = ?g" if "res = 0" "g \<in> priv R m'" "frame_of m' g = frame_of m' ?g" for g
    using ref_okD(8) [OF mem_okD(1) [OF ok'], of ?g g] cow(3) [OF that(1)] that by auto
  ultimately show ?thesis using ok' other cow(2,3) by blast
qed

text \<open>A fault at a heap page that is not there yet.\<close>

theorem copy_on_write_private_copy_witness:
  "contents (snd (copy_on_write 0x4000008000 0x1234 ex_vm)) (0x4000008000, 1) = Some (\<lambda>_. 0)"
proof -
  let ?r = "copy_on_write 0x4000008000 0x1234 ex_vm"
  have a: "ALIGN_DOWN 0x1234 PAGE = 0x1000" "vpn 0x1234 = 1" by (simp_all add: ALIGN_DOWN_def PAGE_SIZE_def vpn_def)
  have z: "resolve_phy_address 0x4000008000 0x1000 ex_vm = 0" by (simp add: resolve_phy_address_def walk_def ex_vm_def)
  have "fst ?r = 0" by (rule copy_on_write_succeeds) (simp_all add: a z, simp add: ex_vm_def)
  moreover have "private_page (vpn 0x1234)" "(0x1234 :: u64) < KERNEL_BASE"
    using layout_pages by (simp_all add: a private_page_def word_less_nat_alt KERNEL_BASE_def)
  moreover note copy_on_write_private_copy [OF ex_mem_ok _ this(2,1) prod.collapse [symmetric], of "0x4000008000"]
  ultimately show ?thesis by (simp add: a ex_pte)
qed












text \<open>C39: the search for free slots of the mapping window, which skips over each run it has seen to be too short,
  finds the same slots as trying every start in turn.\<close>

theorem dl_scan_first_fit: "dl_scan s slots 0 = first_fit s slots"
  by (rule dl_scan_skip) simp

text \<open>The heap shrinks to nothing when more pages are given back than it has.\<close>

lemma shrink_loop_empties:
  assumes "unat (vs_heap_size s) = 4096 * n" "0 < n" "n \<le> k"
  shows "\<exists>m'. shrink_loop k s m = (s\<lparr>vs_heap_size := 0\<rparr>, m')"
  using assms
proof (induction k arbitrary: n s m)
  case (Suc k)
  have u: "unat (vs_heap_size s - PAGE) = 4096 * (n - 1)"
    using Suc.prems(1,2) by (simp add: PAGE_SIZE_def unat_sub_if' right_diff_distrib')
  show ?case
  proof (cases "n = 1")
    case True
    then have "vs_heap_size s - PAGE = 0" using u by (simp add: unat_eq_zero)
    then show ?thesis by (simp add: Let_def)
  next
    case False
    then have "vs_heap_size s - PAGE \<noteq> 0" using u Suc.prems(2) by (metis mult_eq_0_iff unat_0 zero_neq_numeral diff_is_0_eq le_antisym not_less less_one nat_neq_iff)
    then show ?thesis
      using Suc.IH [of "s\<lparr>vs_heap_size := vs_heap_size s - PAGE\<rparr>" "n - 1"] u Suc.prems False by (simp add: Let_def)
  qed
qed simp

lemma align_down_word: "take_bit 12 x = 0 \<Longrightarrow> ALIGN_DOWN x PAGE = x"
  unfolding aligned_dvd by (rule word_unat_eq_iff [THEN iffD2]) (use unat_ALIGN_DOWN [of x] in \<open>simp add: PAGE_SIZE_def\<close>)

lemma proc_malloc_shrinks:
  assumes "vs_heap_used s + sz - vs_heap_size s = - of_nat (4096 * k)" "0 < k" "k < 2 ^ 30"
  shows "proc_malloc dma sz s m = (let (s', m') = shrink_loop k (s\<lparr>vs_heap_used := vs_heap_used s + sz\<rparr>) m in (vs_malloc_base s', s', m'))"
proof -
  let ?d = "of_nat (4096 * k) :: u64"
  have u: "unat ?d = 4096 * k" using assms(3) by (simp add: unat_of_nat del: of_nat_mult)
  then have nz: "- ?d \<noteq> 0" using assms(2) by (auto simp del: of_nat_mult)
  have "- ?d = word_of_int (- int (4096 * k))" by simp
  then have "sint (- ?d) = signed_take_bit 63 (- int (4096 * k))" by (simp only: sint_sbintrunc') simp
  also have "\<dots> = - int (4096 * k)" using assms(3) by (intro signed_take_bit_int_eq_self) simp_all
  finally have neg: "sint (- ?d) < 0" using assms(2) by simp
  have al: "ALIGN_DOWN ?d PAGE = ?d" by (rule align_down_word) (simp add: aligned_dvd u del: of_nat_mult)
  have "unat (?d div PAGE) = k" using u by (simp add: unat_div PAGE_SIZE_def del: of_nat_mult)
  then have dk: "?d div PAGE = of_nat k" using assms(3) by (intro word_unat_eq_iff [THEN iffD2]) (simp add: unat_of_nat)
  have "(ucast (of_nat k :: u64) :: u32) = word_of_int (int k)"
    using assms(3) by (intro word_unat_eq_iff [THEN iffD2]) (simp add: unsigned_ucast_eq unat_of_nat take_bit_nat_eq_self_iff)
  then have "sint (ucast (?d div PAGE) :: u32) = signed_take_bit 31 (int k)" unfolding dk by (simp only: sint_sbintrunc') simp
  also have "\<dots> = int k" using assms(3) by (intro signed_take_bit_int_eq_self) simp_all
  finally have pg: "sint (ucast (?d div PAGE) :: u32) = int k" .
  have "?d div PAGE \<noteq> 0" using assms(2) \<open>unat (?d div PAGE) = k\<close> by auto
  note pg = this pg
  have ne: "vs_heap_used s + sz \<noteq> vs_heap_size s" using nz assms(1) by auto
  show ?thesis
    using assms(2) nz ne neg al pg by (simp add: proc_malloc_def Let_def assms(1) proc_shrink_mem_def del: of_nat_mult)
qed

text \<open>C40: the heap can be shrunk below its start. A process that asks for a negative amount beyond its whole heap gets
  it emptied, with a negative amount of used bytes left; its next request, even for nothing, unmaps the last page
  below the top of the address space and wraps the heap size around. From then on every address above the
  start of its data passes for an address of its heap, kernel addresses included.\<close>

theorem heap_shrinks_below_zero:
  assumes "sp_ok R m s" "vs_heap_size s \<noteq> 0"
  shows "\<exists>a1 s1 m1 a2 s2 m2. proc_malloc dma (- vs_heap_used s - PAGE) s m = (a1, s1, m1) \<and> proc_malloc dma 0 s1 m1 = (a2, s2, m2)
    \<and> vs_heap_size s1 = 0 \<and> vs_heap_size s2 = - PAGE \<and> m2 = unmap_page_ref (vs_vm s) (- PAGE) m1
    \<and> (\<forall>addr. is_user_heap_or_stack_fault s2 addr \<longleftrightarrow> vs_rw_heap_base s \<le> addr \<and> addr < - PAGE \<or> USER_STACK_BOTTOM \<le> addr \<and> addr < USER_STACK_TOP)"
proof -
  obtain n where n: "n \<le> 0x3FB7FFF" "unat (vs_heap_size s) = 4096 * n" "of_nat (n * PAGE_SIZE) = vs_heap_size s" by (rule heap_pages [OF assms(1)])
  have npos: "0 < n" using n(2) assms(2) by (cases n) (auto simp: unat_eq_zero)
  let ?s = "s\<lparr>vs_heap_used := - PAGE\<rparr>"
  have "vs_heap_used s + (- vs_heap_used s - PAGE) - vs_heap_size s = - of_nat (4096 * (n + 1))"
    unfolding n(3) [symmetric] by (simp add: PAGE_SIZE_def algebra_simps)
  note m1 = proc_malloc_shrinks [OF this, of dma m]
  obtain m1' where l: "shrink_loop (n + 1) ?s m = (?s\<lparr>vs_heap_size := 0\<rparr>, m1')"
    using shrink_loop_empties [of ?s n "n + 1" m] n(2) npos by auto
  let ?s1 = "?s\<lparr>vs_heap_size := 0\<rparr>"
  have e1: "proc_malloc dma (- vs_heap_used s - PAGE) s m = (vs_malloc_base s, ?s1, m1')"
    using m1 n(1) l by simp
  have "vs_heap_used ?s1 + 0 - vs_heap_size ?s1 = - of_nat (4096 * 1)" by (simp add: PAGE_SIZE_def)
  from proc_malloc_shrinks [OF this, of dma m1'] 
  have e2: "proc_malloc dma 0 ?s1 m1' = (vs_malloc_base s, ?s1\<lparr>vs_heap_size := - PAGE\<rparr>, unmap_page_ref (vs_vm s) (- PAGE) m1')"
    by (simp add: Let_def PAGE_SIZE_def)
  show ?thesis using e1 e2 by (auto simp: is_user_heap_or_stack_fault_def)
qed

text \<open>A process with a heap of one page.\<close>

theorem heap_shrinks_below_zero_witness:
  "\<exists>a1 s1 m1 a2 s2 m2. proc_malloc 0x200000000 (- PAGE) ((ex_space 0x4000008000)\<lparr>vs_heap_size := 4096\<rparr>) ex_vm = (a1, s1, m1)
     \<and> proc_malloc 0x200000000 0 s1 m1 = (a2, s2, m2) \<and> vs_heap_size s2 = - PAGE"
proof -
  let ?s = "(ex_space 0x4000008000)\<lparr>vs_heap_size := 4096\<rparr>"
  have ok: "sp_ok ex_dirs ex_vm ?s"
    by (simp add: sp_ok_def ex_space_def ex_priv take_bit_eq_mod layout_values word_le_nat_alt)
  have "vs_heap_size ?s \<noteq> 0" "vs_heap_used ?s = 0" by (simp_all add: ex_space_def)
  from heap_shrinks_below_zero [OF ok this(1), of "0x200000000"] this(2) show ?thesis by auto
qed

end
